(* ===== verification/Prelude.thy ===== *)
theory Prelude
  imports Main "HOL-Library.Word" "HOL-Library.List_Lexorder" "HOL-Library.Product_Lexorder"
begin

text \<open>
  Shared vocabulary of the development.

  \<^item> Machine types: \<open>byte\<close>, \<open>u16\<close>, \<open>i32\<close>, \<open>u64\<close> and \<open>usize\<close> (the crates build for
    x86-64 only: \<^verbatim>\<open>SYS_MEMFD_SECRET\<close> is defined for that target) are words of their width.
  \<^item> Control flow: a Rust closure of type \<^verbatim>\<open>FnOnce() -> Result<T, Status>\<close> returns a value,
    returns an error, panics, or has undefined behaviour. \<open>outcome\<close> has one constructor for
    each; \<open>bindM\<close> threads a state through a sequence of such computations and is the model of
    the \<^verbatim>\<open>?\<close> operator followed by the rest of the body.
  \<^item> The standard library as far as the crates use it: \<^verbatim>\<open>Option::ok_or\<close>,
    \<^verbatim>\<open>TryFrom<Vec<u8>> for [u8; N]\<close>, \<^verbatim>\<open>slice::copy_from_slice\<close>, \<^verbatim>\<open>Duration\<close> and
    \<^verbatim>\<open>Instant\<close>, and the map operations of \<^verbatim>\<open>HashMap\<close>.
  \<^item> A small program logic: \<open>hoare P m Q\<close> with its rules in the collection \<open>hoare_rules\<close>.
\<close>

named_theorems hoare_rules \<open>introduction rules for triples, one for each way to build a computation\<close>
named_theorems outcome_simps \<open>evaluation of computations on concrete outcomes\<close>

section \<open>Machine types\<close>

type_synonym byte = "8 word"
type_synonym u16 = "16 word"
type_synonym i32 = "32 word"
type_synonym u64 = "64 word"
type_synonym usize = "64 word"
type_synonym bytes = "byte list"

text \<open>\<^verbatim>\<open>u16::to_be_bytes\<close>, and byte string literals such as \<^verbatim>\<open>b"HPKE-v1"\<close>.\<close>

definition u16_to_be_bytes :: "u16 \<Rightarrow> bytes" where
  "u16_to_be_bytes n = [word_of_nat (unat n div 256), word_of_nat (unat n mod 256)]"

definition byte_string :: "string \<Rightarrow> bytes" where
  "byte_string s = map (\<lambda>c. word_of_nat (of_char c)) s"

section \<open>Outcomes and computations\<close>

datatype ('e, 'a) outcome =
    Ok (ok_value: 'a)
  | Err (err_value: 'e)
  | Panicked
  | Undefined

type_synonym ('e, 's, 'a) rust = "'s \<Rightarrow> ('e, 'a) outcome \<times> 's"

definition returnM :: "'a \<Rightarrow> ('e, 's, 'a) rust" where
  "returnM a s = (Ok a, s)"

definition errM :: "'e \<Rightarrow> ('e, 's, 'a) rust" where
  "errM e s = (Err e, s)"

definition panicM :: "('e, 's, 'a) rust" where
  "panicM s = (Panicked, s)"

definition undefinedM :: "('e, 's, 'a) rust" where
  "undefinedM s = (Undefined, s)"

definition bindM :: "('e, 's, 'a) rust \<Rightarrow> ('a \<Rightarrow> ('e, 's, 'b) rust) \<Rightarrow> ('e, 's, 'b) rust" where
  "bindM m f s = (case m s of
       (Ok a, t) \<Rightarrow> f a t
     | (Err e, t) \<Rightarrow> (Err e, t)
     | (Panicked, t) \<Rightarrow> (Panicked, t)
     | (Undefined, t) \<Rightarrow> (Undefined, t))"

text \<open>\<^verbatim>\<open>opt.ok_or(e)?\<close>.\<close>

definition ok_orM :: "'a option \<Rightarrow> 'e \<Rightarrow> ('e, 's, 'a) rust" where
  "ok_orM x e = (case x of None \<Rightarrow> errM e | Some a \<Rightarrow> returnM a)"

text \<open>\<^verbatim>\<open>result.map_err(f)\<close>.\<close>

definition map_errM :: "('e \<Rightarrow> 'f) \<Rightarrow> ('e, 's, 'a) rust \<Rightarrow> ('f, 's, 'a) rust" where
  "map_errM f m s = (case m s of
       (Ok a, t) \<Rightarrow> (Ok a, t)
     | (Err e, t) \<Rightarrow> (Err (f e), t)
     | (Panicked, t) \<Rightarrow> (Panicked, t)
     | (Undefined, t) \<Rightarrow> (Undefined, t))"

text \<open>The destructors that run when a computation unwinds.\<close>

definition unwindM :: "('s \<Rightarrow> 's) \<Rightarrow> ('e, 's, 'a) rust \<Rightarrow> ('e, 's, 'a) rust" where
  "unwindM f m s = (case m s of (r, t) \<Rightarrow> (r, if r = Panicked then f t else t))"

text \<open>A state update that cannot fail.\<close>

definition updateM :: "('s \<Rightarrow> 's) \<Rightarrow> ('e, 's, unit) rust" where
  "updateM f s = (Ok (), f s)"

section \<open>Arrays, slices and time\<close>

text \<open>\<^verbatim>\<open><[u8; N]>::try_from(v)\<close> succeeds exactly on \<^verbatim>\<open>N\<close> bytes.\<close>

definition try_into_array :: "nat \<Rightarrow> bytes \<Rightarrow> bytes option" where
  "try_into_array n bs = (if length bs = n then Some bs else None)"

text \<open>\<^verbatim>\<open>dst[..src.len()].copy_from_slice(src)\<close> on a buffer that is long enough.\<close>

definition overwrite :: "'a list \<Rightarrow> 'a list \<Rightarrow> 'a list" where
  "overwrite src dst = src @ drop (length src) dst"

text \<open>
  An \<^verbatim>\<open>Instant\<close> is a reading of the monotonic clock, in nanoseconds since its origin. On Linux
  it is a \<^verbatim>\<open>timespec\<close> with an \<^verbatim>\<open>i64\<close> of seconds: \<^verbatim>\<open>checked_add\<close> fails when the seconds of
  the sum leave that range. A \<^verbatim>\<open>Duration\<close> built by \<^verbatim>\<open>from_secs\<close> is a whole number of seconds.
\<close>

type_synonym instant = nat
type_synonym duration = nat

definition nanos_per_sec :: nat where
  "nanos_per_sec = 1000000000"

definition i64_max :: nat where
  "i64_max = 2 ^ 63 - 1"

definition Duration_from_secs :: "u64 \<Rightarrow> duration" where
  "Duration_from_secs s = unat s * nanos_per_sec"

definition Duration_as_secs :: "duration \<Rightarrow> u64" where
  "Duration_as_secs d = word_of_nat (d div nanos_per_sec)"

definition Instant_checked_add :: "instant \<Rightarrow> duration \<Rightarrow> instant option" where
  "Instant_checked_add t d =
     (if (t + d) div nanos_per_sec \<le> i64_max then Some (t + d) else None)"

definition saturating_duration_since :: "instant \<Rightarrow> instant \<Rightarrow> duration" where
  "saturating_duration_since later earlier = later - earlier"

section \<open>Hash maps\<close>

text \<open>
  A \<^verbatim>\<open>HashMap\<close> is an association list with distinct keys. The order of the list stands for the
  unspecified iteration order of the map. \<^verbatim>\<open>insert\<close> and \<^verbatim>\<open>remove\<close> also return the value
  that leaves the map, because its destructor runs.
\<close>

type_synonym ('k, 'v) hash_map = "('k \<times> 'v) list"

definition hm_get :: "'k \<Rightarrow> ('k, 'v) hash_map \<Rightarrow> 'v option" where
  "hm_get k m = map_of m k"

definition hm_remove :: "'k \<Rightarrow> ('k, 'v) hash_map \<Rightarrow> 'v option \<times> ('k, 'v) hash_map" where
  "hm_remove k m = (map_of m k, filter (\<lambda>(j, v). j \<noteq> k) m)"

definition hm_insert :: "'k \<Rightarrow> 'v \<Rightarrow> ('k, 'v) hash_map \<Rightarrow> 'v option \<times> ('k, 'v) hash_map" where
  "hm_insert k v m = (map_of m k, (k, v) # filter (\<lambda>(j, w). j \<noteq> k) m)"

definition hm_values :: "('k, 'v) hash_map \<Rightarrow> 'v list" where
  "hm_values m = map snd m"

definition hm_retain :: "('v \<Rightarrow> bool) \<Rightarrow> ('k, 'v) hash_map \<Rightarrow> ('k, 'v) hash_map" where
  "hm_retain p m = filter (\<lambda>(k, v). p v) m"

section \<open>Triples\<close>

definition hoare :: "('s \<Rightarrow> bool) \<Rightarrow> ('e, 's, 'a) rust \<Rightarrow> (('e, 'a) outcome \<Rightarrow> 's \<Rightarrow> bool) \<Rightarrow> bool" where
  "hoare P m Q \<longleftrightarrow> (\<forall>s. P s \<longrightarrow> Q (fst (m s)) (snd (m s)))"

section \<open>Lemmas: computations\<close>

lemmas basicM_defs = returnM_def errM_def panicM_def undefinedM_def updateM_def

declare basicM_defs [outcome_simps]

lemma bindM_simps [outcome_simps]:
  "m s = (Ok a, t) \<Longrightarrow> bindM m f s = f a t"
  "m s = (Err e, t) \<Longrightarrow> bindM m f s = (Err e, t)"
  "m s = (Panicked, t) \<Longrightarrow> bindM m f s = (Panicked, t)"
  "m s = (Undefined, t) \<Longrightarrow> bindM m f s = (Undefined, t)"
  by (simp_all add: bindM_def)

lemma bindM_basic [simp]:
  "bindM (returnM a) f = f a"
  "bindM (errM e) f = errM e"
  "bindM panicM f = panicM"
  "bindM undefinedM f = undefinedM"
  "bindM m returnM = m"
  by (auto simp: fun_eq_iff bindM_def basicM_defs split: outcome.splits prod.splits)

lemma bindM_updateM [simp]: "bindM (updateM g) f s = f () (g s)"
  by (simp add: bindM_def updateM_def)

lemma bindM_assoc: "bindM (bindM m f) g = bindM m (\<lambda>a. bindM (f a) g)"
  by (auto simp: fun_eq_iff bindM_def split: outcome.splits prod.splits)

lemma bindM_eq_Ok:
  "bindM m f s = (Ok b, t) \<longleftrightarrow> (\<exists>a u. m s = (Ok a, u) \<and> f a u = (Ok b, t))"
  by (auto simp: bindM_def split: outcome.splits prod.splits)

lemma map_errM_simps [outcome_simps]:
  "m s = (Ok a, t) \<Longrightarrow> map_errM f m s = (Ok a, t)"
  "m s = (Err e, t) \<Longrightarrow> map_errM f m s = (Err (f e), t)"
  "m s = (Panicked, t) \<Longrightarrow> map_errM f m s = (Panicked, t)"
  "m s = (Undefined, t) \<Longrightarrow> map_errM f m s = (Undefined, t)"
  by (simp_all add: map_errM_def)

lemma map_errM_eq_Ok: "map_errM f m s = (Ok a, t) \<longleftrightarrow> m s = (Ok a, t)"
  by (auto simp: map_errM_def split: outcome.splits prod.splits)

lemma unwindM_simps [outcome_simps]:
  "m s = (Ok a, t) \<Longrightarrow> unwindM f m s = (Ok a, t)"
  "m s = (Err e, t) \<Longrightarrow> unwindM f m s = (Err e, t)"
  "m s = (Panicked, t) \<Longrightarrow> unwindM f m s = (Panicked, f t)"
  "m s = (Undefined, t) \<Longrightarrow> unwindM f m s = (Undefined, t)"
  by (simp_all add: unwindM_def)

lemma ok_orM_simps [simp]:
  "ok_orM None e = errM e"
  "ok_orM (Some a) e = returnM a"
  by (simp_all add: ok_orM_def)

section \<open>Lemmas: triples\<close>

lemma hoareI: "(\<And>s. P s \<Longrightarrow> Q (fst (m s)) (snd (m s))) \<Longrightarrow> hoare P m Q"
  by (simp add: hoare_def)

lemma hoareD: "hoare P m Q \<Longrightarrow> P s \<Longrightarrow> m s = (r, t) \<Longrightarrow> Q r t"
  by (force simp: hoare_def)

lemma hoare_weaken:
  "hoare P m Q \<Longrightarrow> (\<And>s. P' s \<Longrightarrow> P s) \<Longrightarrow> (\<And>r s. Q r s \<Longrightarrow> Q' r s) \<Longrightarrow> hoare P' m Q'"
  by (simp add: hoare_def)

lemma hoare_returnM [hoare_rules]: "hoare (\<lambda>s. Q (Ok a) s) (returnM a) Q"
  by (simp add: hoare_def returnM_def)

lemma hoare_errM [hoare_rules]: "hoare (\<lambda>s. Q (Err e) s) (errM e) Q"
  by (simp add: hoare_def errM_def)

lemma hoare_panicM [hoare_rules]: "hoare (\<lambda>s. Q Panicked s) panicM Q"
  by (simp add: hoare_def panicM_def)

lemma hoare_updateM [hoare_rules]: "hoare (\<lambda>s. Q (Ok ()) (f s)) (updateM f) Q"
  by (simp add: hoare_def updateM_def)

text \<open>
  The rule for \<open>bindM\<close> asks the first computation to establish the precondition of the rest
  when it returns, and the postcondition of the whole on the three ways of not returning.
\<close>

definition seq_post :: "('a \<Rightarrow> 's \<Rightarrow> bool) \<Rightarrow> (('e, 'b) outcome \<Rightarrow> 's \<Rightarrow> bool) \<Rightarrow>
    ('e, 'a) outcome \<Rightarrow> 's \<Rightarrow> bool" where
  "seq_post R Q r s = (case r of Ok a \<Rightarrow> R a s | Err e \<Rightarrow> Q (Err e) s
     | Panicked \<Rightarrow> Q Panicked s | Undefined \<Rightarrow> Q Undefined s)"

lemma seq_post_simps [simp]:
  "seq_post R Q (Ok a) s = R a s"
  "seq_post R Q (Err e) s = Q (Err e) s"
  "seq_post R Q Panicked s = Q Panicked s"
  "seq_post R Q Undefined s = Q Undefined s"
  by (simp_all add: seq_post_def)

lemma hoare_bindM:
  assumes "hoare P m (seq_post R Q)" and "\<And>a. hoare (R a) (f a) Q"
  shows "hoare P (bindM m f) Q"
proof (rule hoareI)
  fix s assume "P s"
  then have "seq_post R Q (fst (m s)) (snd (m s))"
    using assms(1) by (simp add: hoare_def)
  then show "Q (fst (bindM m f s)) (snd (bindM m f s))"
    using assms(2) by (auto simp: hoare_def bindM_def split: outcome.splits prod.splits)
qed

lemma hoare_if [hoare_rules]:
  "(b \<Longrightarrow> hoare P m Q) \<Longrightarrow> (\<not> b \<Longrightarrow> hoare P' m' Q) \<Longrightarrow>
   hoare (\<lambda>s. if b then P s else P' s) (if b then m else m') Q"
  by (simp add: hoare_def)

text \<open>
  A state predicate that a computation keeps on every outcome, with errors from a given set. It is
  the triple most components state for their operations: it composes without side conditions.
\<close>

definition keeps :: "'e set \<Rightarrow> ('s \<Rightarrow> bool) \<Rightarrow> ('e, 's, 'a) rust \<Rightarrow> bool" where
  "keeps E I m \<longleftrightarrow> hoare I m (\<lambda>r s. I s \<and> (\<forall>e. r = Err e \<longrightarrow> e \<in> E))"

named_theorems keeps_rules \<open>composition rules for keeps\<close>

lemma keeps_alt:
  "keeps E I m \<longleftrightarrow> (\<forall>s. I s \<longrightarrow> I (snd (m s)) \<and> (\<forall>e. fst (m s) = Err e \<longrightarrow> e \<in> E))"
  by (simp add: keeps_def hoare_def)

lemma keepsD: "keeps E I m \<Longrightarrow> I s \<Longrightarrow> m s = (r, t) \<Longrightarrow> I t"
  by (auto simp: keeps_alt)

lemma keeps_ErrD: "keeps E I m \<Longrightarrow> I s \<Longrightarrow> m s = (Err e, t) \<Longrightarrow> e \<in> E"
  by (auto simp: keeps_alt)

lemma keeps_mono: "keeps E I m \<Longrightarrow> E \<subseteq> E' \<Longrightarrow> keeps E' I m"
  by (auto simp: keeps_alt)

lemma keeps_bindM [keeps_rules]:
  assumes "keeps E I m" and "\<And>a. keeps E I (f a)"
  shows "keeps E I (bindM m f)"
  using assms by (fastforce simp: keeps_alt bindM_def split: outcome.splits prod.splits)

lemma keeps_basic [keeps_rules]:
  "keeps E I (returnM a)"
  "e \<in> E \<Longrightarrow> keeps E I (errM e)"
  "keeps E I panicM"
  "keeps E I undefinedM"
  by (simp_all add: keeps_alt basicM_defs)

lemma keeps_ok_orM [keeps_rules]: "e \<in> E \<Longrightarrow> keeps E I (ok_orM x e)"
  by (cases x) (simp_all add: keeps_basic)

lemma keeps_map_errM [keeps_rules]:
  "keeps UNIV I m \<Longrightarrow> range f \<subseteq> E \<Longrightarrow> keeps E I (map_errM f m)"
  by (auto simp: keeps_alt map_errM_def split: outcome.splits prod.splits)

lemma keeps_unwindM [keeps_rules]:
  "keeps E I m \<Longrightarrow> (\<And>s. I s \<Longrightarrow> I (f s)) \<Longrightarrow> keeps E I (unwindM f m)"
  by (auto simp: keeps_alt unwindM_def split: prod.splits)

lemma keeps_updateM [keeps_rules]: "(\<And>s. I s \<Longrightarrow> I (f s)) \<Longrightarrow> keeps E I (updateM f)"
  by (simp add: keeps_alt updateM_def)

lemma keeps_if [keeps_rules]:
  "keeps E I m \<Longrightarrow> keeps E I m' \<Longrightarrow> keeps E I (if b then m else m')"
  by simp

text \<open>The same with a fact about the value that is returned, for the computations after it.\<close>

definition yields :: "'e set \<Rightarrow> ('s \<Rightarrow> bool) \<Rightarrow> ('a \<Rightarrow> bool) \<Rightarrow> ('e, 's, 'a) rust \<Rightarrow> bool" where
  "yields E I R m \<longleftrightarrow>
     hoare I m (\<lambda>r s. I s \<and> (\<forall>e. r = Err e \<longrightarrow> e \<in> E) \<and> (\<forall>a. r = Ok a \<longrightarrow> R a))"

lemma yieldsI:
  assumes "\<And>s r t. I s \<Longrightarrow> m s = (r, t) \<Longrightarrow>
      I t \<and> (\<forall>e. r = Err e \<longrightarrow> e \<in> E) \<and> (\<forall>a. r = Ok a \<longrightarrow> R a)"
  shows "yields E I R m"
  using assms by (simp add: yields_def hoare_def) (metis prod.collapse)

lemma yields_keeps: "yields E I R m \<Longrightarrow> keeps E I m"
  by (auto simp: yields_def keeps_def hoare_def)

lemma keeps_bindM_yields:
  assumes "yields E I R m" and "\<And>a. R a \<Longrightarrow> keeps E I (f a)"
  shows "keeps E I (bindM m f)"
  using assms by (fastforce simp: yields_def hoare_def keeps_alt bindM_def
      split: outcome.splits prod.splits)

lemma yields_weaken: "yields E I R m \<Longrightarrow> (\<And>a. R a \<Longrightarrow> R' a) \<Longrightarrow> yields E I R' m"
  by (simp add: yields_def hoare_def)

lemma yields_True: "keeps E I m \<Longrightarrow> (\<And>a. R a) \<Longrightarrow> yields E I R m"
  by (simp add: yields_def keeps_def hoare_def)

lemma yields_mono: "yields E I R m \<Longrightarrow> E \<subseteq> E' \<Longrightarrow> yields E' I R m"
  by (auto simp: yields_def hoare_def)

section \<open>Lemmas: arrays and time\<close>

lemma try_into_array_eq_Some [simp]: "try_into_array n bs = Some as \<longleftrightarrow> as = bs \<and> length bs = n"
  by (auto simp: try_into_array_def)

lemma try_into_array_eq_None [simp]: "try_into_array n bs = None \<longleftrightarrow> length bs \<noteq> n"
  by (auto simp: try_into_array_def)

lemma length_overwrite [simp]: "length src \<le> length dst \<Longrightarrow> length (overwrite src dst) = length dst"
  by (simp add: overwrite_def)

lemma take_overwrite [simp]: "take (length src) (overwrite src dst) = src"
  by (simp add: overwrite_def)

lemma overwrite_full [simp]: "length src = length dst \<Longrightarrow> overwrite src dst = src"
  by (simp add: overwrite_def)

lemma Instant_checked_add_Some: "Instant_checked_add t d = Some u \<Longrightarrow> u = t + d"
  by (simp add: Instant_checked_add_def split: if_splits)

lemma remaining_secs_fit:
  assumes "later div nanos_per_sec \<le> i64_max"
  shows "unat (Duration_as_secs (saturating_duration_since later earlier))
       = (later - earlier) div nanos_per_sec"
proof -
  have "(later - earlier) div nanos_per_sec \<le> later div nanos_per_sec"
    by (simp add: div_le_mono)
  also have "\<dots> < 2 ^ 64"
    using assms by (simp add: i64_max_def)
  finally show ?thesis
    by (simp add: Duration_as_secs_def saturating_duration_since_def unat_of_nat take_bit_nat_eq_self)
qed

section \<open>Lemmas: hash maps\<close>

lemma map_of_filter_key: "map_of (filter (\<lambda>(j, v). j \<noteq> k) m) = (map_of m)(k := None)"
  by (induction m) (auto simp: fun_eq_iff)

lemma map_of_filter_value:
  "distinct (map fst m) \<Longrightarrow> map_of (filter (\<lambda>(k, v). p v) m) k
     = (case map_of m k of None \<Rightarrow> None | Some v \<Rightarrow> if p v then Some v else None)"
proof (induction m)
  case (Cons kv m)
  have "map_of m (fst kv) = None"
    using Cons.prems by (simp add: map_of_eq_None_iff)
  then show ?case
    using Cons by (auto split: option.splits prod.splits)
qed simp

lemma distinct_map_fst_filter: "distinct (map fst m) \<Longrightarrow> distinct (map fst (filter p m))"
  by (induction m) auto

text \<open>
  What the registry relies on: the contract of \<^verbatim>\<open>std::collections::HashMap\<close> with respect to a
  partial function. The operations are parameters, so the clients below see the laws only.
\<close>

locale hash_map_contract =
  fixes empty :: "'m"
    and get :: "'k \<Rightarrow> 'm \<Rightarrow> 'v option"
    and insert :: "'k \<Rightarrow> 'v \<Rightarrow> 'm \<Rightarrow> 'v option \<times> 'm"
    and remove :: "'k \<Rightarrow> 'm \<Rightarrow> 'v option \<times> 'm"
    and retain :: "('v \<Rightarrow> bool) \<Rightarrow> 'm \<Rightarrow> 'm"
    and vals :: "'m \<Rightarrow> 'v list"
    and wf :: "'m \<Rightarrow> bool"
  assumes wf_empty: "wf empty"
    and wf_insert: "wf m \<Longrightarrow> wf (snd (insert k v m))"
    and wf_remove: "wf m \<Longrightarrow> wf (snd (remove k m))"
    and wf_retain: "wf m \<Longrightarrow> wf (retain p m)"
    and get_empty: "get k empty = None"
    and get_insert: "wf m \<Longrightarrow> get j (snd (insert k v m)) = (if j = k then Some v else get j m)"
    and get_remove: "wf m \<Longrightarrow> get j (snd (remove k m)) = (if j = k then None else get j m)"
    and get_retain: "wf m \<Longrightarrow> get j (retain p m) =
        (case get j m of None \<Rightarrow> None | Some v \<Rightarrow> if p v then Some v else None)"
    and fst_insert: "fst (insert k v m) = get k m"
    and fst_remove: "fst (remove k m) = get k m"
    and set_vals: "wf m \<Longrightarrow> set (vals m) = {v. \<exists>k. get k m = Some v}"
begin

lemma get_insert_same: "wf m \<Longrightarrow> get k (snd (insert k v m)) = Some v"
  by (simp add: get_insert)

lemma get_remove_same: "wf m \<Longrightarrow> get k (snd (remove k m)) = None"
  by (simp add: get_remove)

lemma remove_insert_fresh:
  "wf m \<Longrightarrow> get k m = None \<Longrightarrow> get j (snd (remove k (snd (insert k v m)))) = get j m"
  by (simp add: get_insert get_remove wf_insert)

lemma vals_insert_subset: "wf m \<Longrightarrow> set (vals (snd (insert k v m))) \<subseteq> Set.insert v (set (vals m))"
  by (auto simp: set_vals wf_insert get_insert split: if_splits)

lemma vals_remove_subset: "wf m \<Longrightarrow> set (vals (snd (remove k m))) \<subseteq> set (vals m)"
  by (auto simp: set_vals wf_remove get_remove split: if_splits)

lemma vals_retain: "wf m \<Longrightarrow> set (vals (retain p m)) = {v \<in> set (vals m). p v}"
  by (auto simp: set_vals wf_retain get_retain split: option.splits if_splits)

end

definition hm_wf :: "('k, 'v) hash_map \<Rightarrow> bool" where
  "hm_wf m = distinct (map fst m)"

lemma hm_set_values: "hm_wf m \<Longrightarrow> set (hm_values m) = {v. \<exists>k. hm_get k m = Some v}"
  by (force simp: hm_wf_def hm_values_def hm_get_def)

interpretation hm: hash_map_contract "[]" hm_get hm_insert hm_remove hm_retain hm_values hm_wf
  by unfold_locales
    (auto simp: hm_wf_def hm_get_def hm_insert_def hm_remove_def hm_retain_def
      hm_set_values [unfolded hm_wf_def hm_get_def] map_of_filter_key map_of_filter_value
      distinct_map_fst_filter)

end
