(* ===== verification/Proto.thy ===== *)
theory Proto
  imports Prelude
begin

text \<open>
  The protobuf types of \<^verbatim>\<open>km_common/src/keymanager.rs\<close>: the enumerations with their
  discriminants (\<^verbatim>\<open>as i32\<close>) and their protobuf names (\<^verbatim>\<open>as_str_name\<close>,
  \<^verbatim>\<open>from_str_name\<close>), and the messages. The wire format and \<^verbatim>\<open>TryFrom<i32>\<close> come from the
  \<^verbatim>\<open>prost\<close> derive macros and are parameters of the model (theory \<open>Machine\<close>).

  The four enumerations share one contract, the locale \<open>str_enum\<close>: the printed names are
  pairwise different and the reader accepts exactly the printed names.
\<close>

section \<open>Enumerations\<close>

datatype KemAlgorithm = KemUnspecified | DhkemX25519HkdfSha256

datatype KdfAlgorithm = KdfUnspecified | HkdfSha256

datatype AeadAlgorithm = AeadUnspecified | Aes256Gcm

datatype Status =
    StatusUnspecified
  | Success
  | InternalError
  | InvalidArgument
  | NotFound
  | AlreadyExists
  | PermissionDenied
  | Unauthenticated
  | UnsupportedAlgorithm
  | InvalidKey
  | CryptoError
  | DecryptionFailure
  | EncryptionFailure
  | DecapsulationFailure

fun kem_as_i32 :: "KemAlgorithm \<Rightarrow> i32" where
  "kem_as_i32 KemUnspecified = 0"
| "kem_as_i32 DhkemX25519HkdfSha256 = 1"

fun kdf_as_i32 :: "KdfAlgorithm \<Rightarrow> i32" where
  "kdf_as_i32 KdfUnspecified = 0"
| "kdf_as_i32 HkdfSha256 = 1"

fun aead_as_i32 :: "AeadAlgorithm \<Rightarrow> i32" where
  "aead_as_i32 AeadUnspecified = 0"
| "aead_as_i32 Aes256Gcm = 1"

fun status_as_i32 :: "Status \<Rightarrow> i32" where
  "status_as_i32 StatusUnspecified = 0"
| "status_as_i32 Success = 1"
| "status_as_i32 InternalError = 2"
| "status_as_i32 InvalidArgument = 3"
| "status_as_i32 NotFound = 4"
| "status_as_i32 AlreadyExists = 5"
| "status_as_i32 PermissionDenied = 6"
| "status_as_i32 Unauthenticated = 7"
| "status_as_i32 UnsupportedAlgorithm = 8"
| "status_as_i32 InvalidKey = 9"
| "status_as_i32 CryptoError = 10"
| "status_as_i32 DecryptionFailure = 11"
| "status_as_i32 EncryptionFailure = 12"
| "status_as_i32 DecapsulationFailure = 13"

section \<open>Names\<close>

fun kem_as_str_name :: "KemAlgorithm \<Rightarrow> string" where
  "kem_as_str_name KemUnspecified = ''KEM_ALGORITHM_UNSPECIFIED''"
| "kem_as_str_name DhkemX25519HkdfSha256 = ''KEM_ALGORITHM_DHKEM_X25519_HKDF_SHA256''"

definition kem_from_str_name :: "string \<Rightarrow> KemAlgorithm option" where
  "kem_from_str_name v =
     (if v = ''KEM_ALGORITHM_UNSPECIFIED'' then Some KemUnspecified
      else if v = ''KEM_ALGORITHM_DHKEM_X25519_HKDF_SHA256'' then Some DhkemX25519HkdfSha256
      else None)"

fun kdf_as_str_name :: "KdfAlgorithm \<Rightarrow> string" where
  "kdf_as_str_name KdfUnspecified = ''KDF_ALGORITHM_UNSPECIFIED''"
| "kdf_as_str_name HkdfSha256 = ''KDF_ALGORITHM_HKDF_SHA256''"

definition kdf_from_str_name :: "string \<Rightarrow> KdfAlgorithm option" where
  "kdf_from_str_name v =
     (if v = ''KDF_ALGORITHM_UNSPECIFIED'' then Some KdfUnspecified
      else if v = ''KDF_ALGORITHM_HKDF_SHA256'' then Some HkdfSha256
      else None)"

fun aead_as_str_name :: "AeadAlgorithm \<Rightarrow> string" where
  "aead_as_str_name AeadUnspecified = ''AEAD_ALGORITHM_UNSPECIFIED''"
| "aead_as_str_name Aes256Gcm = ''AEAD_ALGORITHM_AES_256_GCM''"

definition aead_from_str_name :: "string \<Rightarrow> AeadAlgorithm option" where
  "aead_from_str_name v =
     (if v = ''AEAD_ALGORITHM_UNSPECIFIED'' then Some AeadUnspecified
      else if v = ''AEAD_ALGORITHM_AES_256_GCM'' then Some Aes256Gcm
      else None)"

fun status_as_str_name :: "Status \<Rightarrow> string" where
  "status_as_str_name StatusUnspecified = ''STATUS_UNSPECIFIED''"
| "status_as_str_name Success = ''STATUS_SUCCESS''"
| "status_as_str_name InternalError = ''STATUS_INTERNAL_ERROR''"
| "status_as_str_name InvalidArgument = ''STATUS_INVALID_ARGUMENT''"
| "status_as_str_name NotFound = ''STATUS_NOT_FOUND''"
| "status_as_str_name AlreadyExists = ''STATUS_ALREADY_EXISTS''"
| "status_as_str_name PermissionDenied = ''STATUS_PERMISSION_DENIED''"
| "status_as_str_name Unauthenticated = ''STATUS_UNAUTHENTICATED''"
| "status_as_str_name UnsupportedAlgorithm = ''STATUS_UNSUPPORTED_ALGORITHM''"
| "status_as_str_name InvalidKey = ''STATUS_INVALID_KEY''"
| "status_as_str_name CryptoError = ''STATUS_CRYPTO_ERROR''"
| "status_as_str_name DecryptionFailure = ''STATUS_DECRYPTION_FAILURE''"
| "status_as_str_name EncryptionFailure = ''STATUS_ENCRYPTION_FAILURE''"
| "status_as_str_name DecapsulationFailure = ''STATUS_DECAPSULATION_FAILURE''"

definition status_from_str_name :: "string \<Rightarrow> Status option" where
  "status_from_str_name v =
     (if v = ''STATUS_UNSPECIFIED'' then Some StatusUnspecified
      else if v = ''STATUS_SUCCESS'' then Some Success
      else if v = ''STATUS_INTERNAL_ERROR'' then Some InternalError
      else if v = ''STATUS_INVALID_ARGUMENT'' then Some InvalidArgument
      else if v = ''STATUS_NOT_FOUND'' then Some NotFound
      else if v = ''STATUS_ALREADY_EXISTS'' then Some AlreadyExists
      else if v = ''STATUS_PERMISSION_DENIED'' then Some PermissionDenied
      else if v = ''STATUS_UNAUTHENTICATED'' then Some Unauthenticated
      else if v = ''STATUS_UNSUPPORTED_ALGORITHM'' then Some UnsupportedAlgorithm
      else if v = ''STATUS_INVALID_KEY'' then Some InvalidKey
      else if v = ''STATUS_CRYPTO_ERROR'' then Some CryptoError
      else if v = ''STATUS_DECRYPTION_FAILURE'' then Some DecryptionFailure
      else if v = ''STATUS_ENCRYPTION_FAILURE'' then Some EncryptionFailure
      else if v = ''STATUS_DECAPSULATION_FAILURE'' then Some DecapsulationFailure
      else None)"

section \<open>Messages\<close>

text \<open>
  The fields of an \<^verbatim>\<open>HpkeAlgorithm\<close> are open enumerations: any \<^verbatim>\<open>i32\<close> is a value.
  \<^verbatim>\<open>AlgorithmDetails\<close> keeps its field \<^verbatim>\<open>type\<close> under the name \<open>algorithm_type\<close>.
\<close>

record HpkeAlgorithm =
  kem :: i32
  kdf :: i32
  aead :: i32

datatype Params = KemId i32

record AlgorithmParams =
  params :: "Params option"

record AlgorithmDetails =
  algorithm_type :: string
  details_params :: "AlgorithmParams option"

record SupportedAlgorithm =
  algorithm :: "AlgorithmDetails option"

section \<open>Lemmas\<close>

locale str_enum =
  fixes as_str_name :: "'a \<Rightarrow> string"
    and from_str_name :: "string \<Rightarrow> 'a option"
  assumes read_name: "from_str_name (as_str_name x) = Some x"
    and name_read: "from_str_name v = Some x \<Longrightarrow> as_str_name x = v"
begin

lemma as_str_name_inj: "as_str_name x = as_str_name y \<longleftrightarrow> x = y"
  by (metis read_name option.inject)

lemma from_str_name_iff: "from_str_name v = Some x \<longleftrightarrow> v = as_str_name x"
  using read_name name_read by blast

lemma from_str_name_None: "from_str_name v = None \<longleftrightarrow> v \<notin> range as_str_name"
  by (metis from_str_name_iff not_None_eq rangeE rangeI)

end

interpretation kem_names: str_enum kem_as_str_name kem_from_str_name
proof
  show "kem_from_str_name (kem_as_str_name x) = Some x" for x
    by (cases x) (simp_all add: kem_from_str_name_def)
  show "kem_as_str_name x = v" if "kem_from_str_name v = Some x" for v x
    using that by (auto simp: kem_from_str_name_def split: if_splits)
qed

interpretation kdf_names: str_enum kdf_as_str_name kdf_from_str_name
proof
  show "kdf_from_str_name (kdf_as_str_name x) = Some x" for x
    by (cases x) (simp_all add: kdf_from_str_name_def)
  show "kdf_as_str_name x = v" if "kdf_from_str_name v = Some x" for v x
    using that by (auto simp: kdf_from_str_name_def split: if_splits)
qed

interpretation aead_names: str_enum aead_as_str_name aead_from_str_name
proof
  show "aead_from_str_name (aead_as_str_name x) = Some x" for x
    by (cases x) (simp_all add: aead_from_str_name_def)
  show "aead_as_str_name x = v" if "aead_from_str_name v = Some x" for v x
    using that by (auto simp: aead_from_str_name_def split: if_splits)
qed

interpretation status_names: str_enum status_as_str_name status_from_str_name
proof
  show "status_from_str_name (status_as_str_name x) = Some x" for x
    by (cases x) (simp_all add: status_from_str_name_def)
  show "status_as_str_name x = v" if "status_from_str_name v = Some x" for v x
    using that by (simp add: status_from_str_name_def split: if_splits)
qed

text \<open>The discriminants: distinct, and for \<^verbatim>\<open>Status\<close> between 0 and 13.\<close>

lemma kem_as_i32_inj [simp]: "kem_as_i32 a = kem_as_i32 b \<longleftrightarrow> a = b"
  by (cases a; cases b) simp_all

lemma kdf_as_i32_inj [simp]: "kdf_as_i32 a = kdf_as_i32 b \<longleftrightarrow> a = b"
  by (cases a; cases b) simp_all

lemma aead_as_i32_inj [simp]: "aead_as_i32 a = aead_as_i32 b \<longleftrightarrow> a = b"
  by (cases a; cases b) simp_all

lemma status_as_i32_range: "0 \<le> sint (status_as_i32 s) \<and> sint (status_as_i32 s) \<le> 13"
  by (cases s) simp_all

lemma status_as_i32_inj [simp]: "status_as_i32 a = status_as_i32 b \<longleftrightarrow> a = b"
  by (cases a; cases b) simp_all

text \<open>
  The negative return code of an entry point that counts: strictly negative, except for
  \<^verbatim>\<open>STATUS_UNSPECIFIED\<close>.
\<close>

lemma sint_neg_status: "sint (- status_as_i32 s) = - sint (status_as_i32 s)"
  by (cases s) simp_all

lemma neg_status_negative: "s \<noteq> StatusUnspecified \<Longrightarrow> sint (- status_as_i32 s) < 0"
  by (cases s) simp_all

end
