(* ===== verification/Telemetry.thy ===== *)
theory Telemetry
  imports Proto
begin

text \<open>
  \<^verbatim>\<open>km_common/src/telemetry.rs\<close>: the operation names, the failure event and the process-wide
  statics \<^verbatim>\<open>SERVICE_NAME\<close>, \<^verbatim>\<open>PANIC_HOOK\<close> and \<^verbatim>\<open>INIT_TELEMETRY\<close>, each of which is set at
  most once. \<^verbatim>\<open>tracing::error!\<close> is a call into the \<^verbatim>\<open>tracing\<close> crate; the model records the
  event that is handed to it (target, fields, message) and not what a subscriber prints.
\<close>

section \<open>Operations and failures\<close>

datatype KccOperation =
    GenerateKemKeypair
  | DestroyKemKey
  | EnumerateKemKeys
  | DecapAndSeal
  | GetKemKey
  | GenerateBindingKeypair
  | DestroyBindingKey
  | DestroyAllBindingKeys
  | Open
  | EnumerateBindingKeys
  | GetBindingKey

record OperationDescriptor =
  name :: string

fun descriptor :: "KccOperation \<Rightarrow> OperationDescriptor" where
  "descriptor GenerateKemKeypair = \<lparr>name = ''generate_kem_keypair''\<rparr>"
| "descriptor DestroyKemKey = \<lparr>name = ''destroy_kem_key''\<rparr>"
| "descriptor EnumerateKemKeys = \<lparr>name = ''enumerate_kem_keys''\<rparr>"
| "descriptor DecapAndSeal = \<lparr>name = ''decap_and_seal''\<rparr>"
| "descriptor GetKemKey = \<lparr>name = ''get_kem_key''\<rparr>"
| "descriptor GenerateBindingKeypair = \<lparr>name = ''generate_binding_keypair''\<rparr>"
| "descriptor DestroyBindingKey = \<lparr>name = ''destroy_binding_key''\<rparr>"
| "descriptor DestroyAllBindingKeys = \<lparr>name = ''destroy_all_binding_keys''\<rparr>"
| "descriptor Open = \<lparr>name = ''open''\<rparr>"
| "descriptor EnumerateBindingKeys = \<lparr>name = ''enumerate_binding_keys''\<rparr>"
| "descriptor GetBindingKey = \<lparr>name = ''get_binding_key''\<rparr>"

definition operation_as_str :: "KccOperation \<Rightarrow> string" where
  "operation_as_str op = name (descriptor op)"

datatype FailureKind = ErrorKind | PanicKind

fun failure_kind_as_str :: "FailureKind \<Rightarrow> string" where
  "failure_kind_as_str ErrorKind = ''error''"
| "failure_kind_as_str PanicKind = ''panic''"

record Failure =
  operation :: KccOperation
  status :: Status
  kind :: FailureKind

section \<open>Statics and events\<close>

record tracing_event =
  ev_target :: string
  ev_fields :: "(string \<times> string) list"
  ev_message :: string

record telemetry =
  SERVICE_NAME :: "string option"
  PANIC_HOOK :: bool
  INIT_TELEMETRY :: bool

definition telemetry_default :: telemetry where
  "telemetry_default = \<lparr>SERVICE_NAME = None, PANIC_HOOK = False, INIT_TELEMETRY = False\<rparr>"

definition get_service_name :: "telemetry \<Rightarrow> string" where
  "get_service_name t = (case SERVICE_NAME t of None \<Rightarrow> ''key_protection_service'' | Some s \<Rightarrow> s)"

text \<open>
  The event of the sanitized panic hook. The hook ignores the panic's payload and location. Before
  \<^verbatim>\<open>install_sanitized_panic_hook\<close> has run, the default hook writes to standard error and
  nothing goes to \<^verbatim>\<open>tracing\<close>.
\<close>

definition panic_hook_events :: "telemetry \<Rightarrow> tracing_event list" where
  "panic_hook_events t = (if PANIC_HOOK t then
     [\<lparr>ev_target = ''rust_kcc'',
       ev_fields = [(''failure_kind'', ''panic''), (''service.name'', get_service_name t)],
       ev_message = ''fatal_panic_occurred''\<rparr>] else [])"

definition install_sanitized_panic_hook :: "telemetry \<Rightarrow> telemetry" where
  "install_sanitized_panic_hook t = (if PANIC_HOOK t then t else t\<lparr>PANIC_HOOK := True\<rparr>)"

definition ensure_telemetry_initialized :: "telemetry \<Rightarrow> telemetry" where
  "ensure_telemetry_initialized t =
     (if INIT_TELEMETRY t then t else t\<lparr>INIT_TELEMETRY := True\<rparr>)"

definition report_failure :: "telemetry \<Rightarrow> Failure \<Rightarrow> tracing_event" where
  "report_failure t f =
     \<lparr>ev_target = ''rust_kcc'',
      ev_fields = [(''operation'', operation_as_str (operation f)),
                   (''status'', status_as_str_name (status f)),
                   (''failure_kind'', failure_kind_as_str (kind f)),
                   (''service.name'', get_service_name t)],
      ev_message = ''kcc_operation_failed''\<rparr>"

section \<open>UTF-8\<close>

text \<open>
  \<^verbatim>\<open>std::str::from_utf8\<close>: the table of well-formed byte sequences, by first byte. The second
  byte's range depends on the first; the others are continuation bytes.
\<close>

definition is_cont :: "byte \<Rightarrow> bool" where
  "is_cont b \<longleftrightarrow> 0x80 \<le> b \<and> b \<le> 0xBF"

definition second_ok :: "byte \<Rightarrow> byte \<Rightarrow> bool" where
  "second_ok a b =
     (if a = 0xE0 then 0xA0 \<le> b \<and> b \<le> 0xBF
      else if a = 0xED then 0x80 \<le> b \<and> b \<le> 0x9F
      else if a = 0xF0 then 0x90 \<le> b \<and> b \<le> 0xBF
      else if a = 0xF4 then 0x80 \<le> b \<and> b \<le> 0x8F
      else is_cont b)"

definition utf8_width :: "byte \<Rightarrow> nat" where
  "utf8_width a =
     (if a < 0x80 then 1
      else if 0xC2 \<le> a \<and> a \<le> 0xDF then 2
      else if 0xE0 \<le> a \<and> a \<le> 0xEF then 3
      else if 0xF0 \<le> a \<and> a \<le> 0xF4 then 4
      else 0)"

function utf8_valid :: "bytes \<Rightarrow> bool" where
  "utf8_valid bs = (case bs of
       [] \<Rightarrow> True
     | a # rest \<Rightarrow>
        (if utf8_width a = 0 then False
         else if utf8_width a = 1 then utf8_valid rest
         else utf8_width a \<le> length bs \<and> second_ok a (rest ! 0)
            \<and> list_all is_cont (take (utf8_width a - 2) (drop 1 rest))
            \<and> utf8_valid (drop (utf8_width a) bs)))"
  by pat_completeness auto
termination
  by (relation "measure length") auto

declare utf8_valid.simps [simp del]

definition from_utf8 :: "bytes \<Rightarrow> string option" where
  "from_utf8 bs = (if utf8_valid bs then Some (map (\<lambda>b. char_of (unat b)) bs) else None)"

section \<open>Initialisation\<close>

text \<open>
  \<^verbatim>\<open>key_manager_init_telemetry\<close> on the bytes its pointer and length denote: \<open>None\<close> for a null
  pointer, \<open>Some []\<close> for length zero. \<^verbatim>\<open>OnceLock::set\<close> keeps the first value.
\<close>

definition once_lock_set :: "'a \<Rightarrow> 'a option \<Rightarrow> 'a option" where
  "once_lock_set v cell = (case cell of None \<Rightarrow> Some v | Some w \<Rightarrow> Some w)"

definition key_manager_init_telemetry :: "bytes option \<Rightarrow> telemetry \<Rightarrow> telemetry" where
  "key_manager_init_telemetry service_name t =
     (let name = (case service_name of
            None \<Rightarrow> ''key_protection_service''
          | Some bs \<Rightarrow> if bs = [] then ''key_protection_service''
                       else (case from_utf8 bs of None \<Rightarrow> ''key_protection_service'' | Some s \<Rightarrow> s));
          t1 = t\<lparr>SERVICE_NAME := once_lock_set name (SERVICE_NAME t)\<rparr>
      in install_sanitized_panic_hook (ensure_telemetry_initialized t1))"

section \<open>Lemmas\<close>

lemma operation_as_str_inj: "operation_as_str a = operation_as_str b \<longleftrightarrow> a = b"
  by (cases a; cases b) (simp_all add: operation_as_str_def)

definition snake_case :: "string \<Rightarrow> bool" where
  "snake_case s \<longleftrightarrow> s \<noteq> [] \<and> list_all (\<lambda>c. (of_char c \<ge> (97::nat) \<and> of_char c \<le> (122::nat))
      \<or> (of_char c \<ge> (48::nat) \<and> of_char c \<le> (57::nat)) \<or> c = CHR ''_'') s"

lemma operation_as_str_snake_case: "snake_case (operation_as_str op)"
  by (cases op) (simp_all add: operation_as_str_def snake_case_def)

lemma failure_kind_as_str_inj: "failure_kind_as_str a = failure_kind_as_str b \<longleftrightarrow> a = b"
  by (cases a; cases b) simp_all

text \<open>Only the first call names the service; every later call changes nothing at all.\<close>

lemma init_telemetry_SERVICE_NAME:
  "SERVICE_NAME (key_manager_init_telemetry n t) =
     (case SERVICE_NAME t of Some s \<Rightarrow> Some s | None \<Rightarrow>
        Some (case n of None \<Rightarrow> ''key_protection_service'' | Some bs \<Rightarrow>
          if bs = [] then ''key_protection_service''
          else (case from_utf8 bs of None \<Rightarrow> ''key_protection_service'' | Some s \<Rightarrow> s)))"
  by (simp add: key_manager_init_telemetry_def install_sanitized_panic_hook_def
      ensure_telemetry_initialized_def once_lock_set_def Let_def split: option.splits)

lemma init_telemetry_once:
  "key_manager_init_telemetry m (key_manager_init_telemetry n t) = key_manager_init_telemetry n t"
  by (cases "SERVICE_NAME t") (simp_all add: key_manager_init_telemetry_def Let_def
      install_sanitized_panic_hook_def ensure_telemetry_initialized_def once_lock_set_def)

lemma from_utf8_nonempty: "from_utf8 bs = Some s \<Longrightarrow> bs \<noteq> [] \<Longrightarrow> s \<noteq> []"
  by (auto simp: from_utf8_def split: if_splits)

lemma init_service_name_nonempty:
  assumes "SERVICE_NAME t \<noteq> Some []"
  shows "get_service_name (key_manager_init_telemetry n t) \<noteq> []"
  using assms by (auto simp: get_service_name_def init_telemetry_SERVICE_NAME
      split: option.splits if_splits dest: from_utf8_nonempty)

lemma utf8_valid_ascii: "list_all (\<lambda>b. b < 0x80) bs \<Longrightarrow> utf8_valid bs"
proof (induction bs)
  case Nil
  show ?case by (subst utf8_valid.simps) simp
next
  case (Cons b bs)
  then show ?case by (subst utf8_valid.simps) (simp add: utf8_width_def)
qed

text \<open>
  The vocabulary of the log. An event names an operation, a status, a kind and the service, each
  from a fixed set of strings: nothing an operation computed or was given can be in it.
\<close>

definition sanitized :: "string \<Rightarrow> tracing_event \<Rightarrow> bool" where
  "sanitized service e \<longleftrightarrow>
     (\<exists>op s k. e = \<lparr>ev_target = ''rust_kcc'',
        ev_fields = [(''operation'', operation_as_str op), (''status'', status_as_str_name s),
                     (''failure_kind'', failure_kind_as_str k), (''service.name'', service)],
        ev_message = ''kcc_operation_failed''\<rparr>)
   \<or> e = \<lparr>ev_target = ''rust_kcc'',
        ev_fields = [(''failure_kind'', ''panic''), (''service.name'', service)],
        ev_message = ''fatal_panic_occurred''\<rparr>"

lemma report_failure_sanitized: "sanitized (get_service_name t) (report_failure t f)"
  by (auto simp: sanitized_def report_failure_def)

lemma panic_hook_sanitized: "e \<in> set (panic_hook_events t) \<Longrightarrow> sanitized (get_service_name t) e"
  by (auto simp: sanitized_def panic_hook_events_def split: if_splits)

text \<open>A failure event determines the failure: operation, status and kind can be read back.\<close>

lemma report_failure_inj: "report_failure t f = report_failure t g \<longleftrightarrow> f = g"
  by (cases f; cases g) (auto simp: report_failure_def operation_as_str_inj
      status_names.as_str_name_inj failure_kind_as_str_inj)

end
