(* ===== verification/Machine.thy ===== *)
theory Machine
  imports Telemetry
begin

text \<open>
  What the crates call and what is not under \<^verbatim>\<open>src/\<close>: the record \<open>env\<close> has one field for each
  third-party function the code calls (\<^verbatim>\<open>prost\<close>, \<^verbatim>\<open>uuid\<close>, \<^verbatim>\<open>bssl_crypto\<close>, \<^verbatim>\<open>zeroize\<close>)
  and for each system call of \<^verbatim>\<open>protected_mem.rs\<close>, with arbitrary functions for them. Every
  definition that reaches such code takes an \<open>env\<close>. Functions that draw randomness or ask the
  kernel take the number of the request as an argument, so that two requests may be answered
  differently.

  The record \<open>machine\<close> is the state behind those calls: readings of the monotonic clock, the
  numbers of random draws and system calls made so far, and the contents of every secret memory
  region at the moment it was unmapped.

  The predicates at the end name the documented behaviour of the third-party code that theorems
  take as hypotheses: \<open>prost_spec\<close>, \<open>uuid_spec\<close>, \<open>hpke_spec\<close>, \<open>x25519_spec\<close>,
  \<open>hkdf_spec\<close>, \<open>zeroize_spec\<close>, \<open>secretmem_spec\<close>.
\<close>

section \<open>UUIDs\<close>

text \<open>
  \<^verbatim>\<open>Uuid\<close> is a newtype over \<^verbatim>\<open>[u8; 16]\<close> with the derived order, which is lexicographic.
\<close>

datatype uuid = Uuid (as_bytes: bytes)

instantiation uuid :: linorder
begin

definition less_eq_uuid :: "uuid \<Rightarrow> uuid \<Rightarrow> bool" where
  "less_eq_uuid a b \<longleftrightarrow> as_bytes a \<le> as_bytes b"

definition less_uuid :: "uuid \<Rightarrow> uuid \<Rightarrow> bool" where
  "less_uuid a b \<longleftrightarrow> as_bytes a < as_bytes b"

instance
  by intro_classes (auto simp: less_eq_uuid_def less_uuid_def uuid.expand)

end

definition Uuid_from_slice :: "bytes \<Rightarrow> uuid option" where
  "Uuid_from_slice bs = map_option Uuid (try_into_array 16 bs)"

section \<open>Third-party code\<close>

datatype hpke_Kem = X25519HkdfSha256_Kem
datatype hpke_Kdf = HkdfSha256_Kdf
datatype hpke_Aead = Aes256Gcm_Aead

record hpke_Params =
  p_kem :: hpke_Kem
  p_kdf :: hpke_Kdf
  p_aead :: hpke_Aead

text \<open>
  The type parameters are the opaque types \<^verbatim>\<open>hpke::SenderContext\<close>,
  \<^verbatim>\<open>hpke::RecipientContext\<close> and \<^verbatim>\<open>hkdf::Prk\<close>.
\<close>

record ('s, 'r, 'p) env =
  HpkeAlgorithm_decode :: "bytes \<Rightarrow> HpkeAlgorithm option"
  encode_to_vec :: "HpkeAlgorithm \<Rightarrow> bytes"
  KemAlgorithm_try_from :: "i32 \<Rightarrow> KemAlgorithm option"
  KdfAlgorithm_try_from :: "i32 \<Rightarrow> KdfAlgorithm option"
  AeadAlgorithm_try_from :: "i32 \<Rightarrow> AeadAlgorithm option"
  Uuid_new_v4 :: "nat \<Rightarrow> uuid"
  Kem_generate_keypair :: "hpke_Kem \<Rightarrow> nat \<Rightarrow> bytes \<times> bytes"
  SenderContext_new :: "hpke_Params \<Rightarrow> bytes \<Rightarrow> bytes \<Rightarrow> nat \<Rightarrow> ('s \<times> bytes) option"
  SenderContext_seal :: "'s \<Rightarrow> bytes \<Rightarrow> bytes \<Rightarrow> bytes"
  RecipientContext_new :: "hpke_Params \<Rightarrow> bytes \<Rightarrow> bytes \<Rightarrow> bytes \<Rightarrow> 'r option"
  RecipientContext_open :: "'r \<Rightarrow> bytes \<Rightarrow> bytes \<Rightarrow> bytes option"
  compute_shared_key :: "bytes \<Rightarrow> bytes \<Rightarrow> bytes option"
  to_public :: "bytes \<Rightarrow> bytes"
  HkdfSha256_extract :: "bytes \<Rightarrow> bytes \<Rightarrow> 'p"
  expand_into :: "'p \<Rightarrow> bytes \<Rightarrow> nat \<Rightarrow> bytes option"
  zeroize :: "bytes \<Rightarrow> bytes"
  sys_memfd_secret :: "nat \<Rightarrow> int"
  sys_set_len :: "nat \<Rightarrow> nat \<Rightarrow> bool"
  sys_map_mut :: "nat \<Rightarrow> nat \<Rightarrow> bytes option"
  sys_thread_spawn :: "nat \<Rightarrow> bool"

section \<open>State behind the calls\<close>

record machine =
  clock :: "nat \<Rightarrow> instant"
  ticks :: nat
  draws :: nat
  syscalls :: nat
  released :: "bytes list"

definition machine_init :: "(nat \<Rightarrow> instant) \<Rightarrow> machine" where
  "machine_init c = \<lparr>clock = c, ticks = 0, draws = 0, syscalls = 0, released = []\<rparr>"

text \<open>\<^verbatim>\<open>Instant::now()\<close>, a random draw, and a system call with its number.\<close>

definition Instant_now :: "('e, 'z machine_scheme, instant) rust" where
  "Instant_now m = (Ok (clock m (ticks m)), m\<lparr>ticks := Suc (ticks m)\<rparr>)"

definition draw :: "('e, 'z machine_scheme, nat) rust" where
  "draw m = (Ok (draws m), m\<lparr>draws := Suc (draws m)\<rparr>)"

definition syscall :: "('e, 'z machine_scheme, nat) rust" where
  "syscall m = (Ok (syscalls m), m\<lparr>syscalls := Suc (syscalls m)\<rparr>)"

text \<open>What is true of the machine after any code has run: counters only go up, and the clock is the same function.\<close>

definition advances :: "'z machine_scheme \<Rightarrow> 'z machine_scheme \<Rightarrow> bool" where
  "advances m m' \<longleftrightarrow> clock m' = clock m \<and> ticks m \<le> ticks m' \<and> draws m \<le> draws m' \<and> syscalls m \<le> syscalls m'"

section \<open>Documented behaviour of the third-party code\<close>

text \<open>
  \<^verbatim>\<open>prost\<close>: decoding inverts encoding; three varint fields take at most 3 times 11 bytes;
  \<^verbatim>\<open>TryFrom<i32>\<close> recognises exactly the discriminants.
\<close>

definition prost_spec :: "('s, 'r, 'p) env \<Rightarrow> bool" where
  "prost_spec E \<longleftrightarrow>
     (\<forall>a. HpkeAlgorithm_decode E (encode_to_vec E a) = Some a)
   \<and> (\<forall>a. length (encode_to_vec E a) \<le> 33)
   \<and> (\<forall>n k. KemAlgorithm_try_from E n = Some k \<longleftrightarrow> n = kem_as_i32 k)
   \<and> (\<forall>n k. KdfAlgorithm_try_from E n = Some k \<longleftrightarrow> n = kdf_as_i32 k)
   \<and> (\<forall>n k. AeadAlgorithm_try_from E n = Some k \<longleftrightarrow> n = aead_as_i32 k)"

definition uuid_spec :: "('s, 'r, 'p) env \<Rightarrow> bool" where
  "uuid_spec E \<longleftrightarrow> (\<forall>n. length (as_bytes (Uuid_new_v4 E n)) = 16)"

text \<open>
  \<^verbatim>\<open>bssl_crypto::hpke\<close>, RFC 9180: key pairs and encapsulated keys are 32 bytes, sealing adds a
  16-byte tag, a sender can be set up for a generated public key, and the recipient that holds the
  private key opens what was sealed under the same additional data.
\<close>

definition hpke_spec :: "('s, 'r, 'p) env \<Rightarrow> bool" where
  "hpke_spec E \<longleftrightarrow>
     (\<forall>k n. length (fst (Kem_generate_keypair E k n)) = 32
          \<and> length (snd (Kem_generate_keypair E k n)) = 32)
   \<and> (\<forall>p pk info n ctx enc. SenderContext_new E p pk info n = Some (ctx, enc) \<longrightarrow> length enc = 32)
   \<and> (\<forall>ctx pt aad. length (SenderContext_seal E ctx pt aad) = length pt + 16)
   \<and> (\<forall>p k n info i. SenderContext_new E p (fst (Kem_generate_keypair E k n)) info i \<noteq> None)
   \<and> (\<forall>p k n info i ctx enc.
        SenderContext_new E p (fst (Kem_generate_keypair E k n)) info i = Some (ctx, enc) \<longrightarrow>
        (\<exists>rcp. RecipientContext_new E p (snd (Kem_generate_keypair E k n)) enc info = Some rcp
           \<and> (\<forall>pt aad. RecipientContext_open E rcp (SenderContext_seal E ctx pt aad) aad = Some pt)))"

text \<open>
  \<^verbatim>\<open>bssl_crypto::x25519\<close>, RFC 7748: public keys and shared keys are 32 bytes, the public half of
  a generated pair is the public key of its private half, and two parties that agree on a key
  compute the same one.
\<close>

definition x25519_spec :: "('s, 'r, 'p) env \<Rightarrow> bool" where
  "x25519_spec E \<longleftrightarrow>
     (\<forall>sk. length sk = 32 \<longrightarrow> length (to_public E sk) = 32)
   \<and> (\<forall>sk pk k. compute_shared_key E sk pk = Some k \<longrightarrow> length k = 32)
   \<and> (\<forall>k n. fst (Kem_generate_keypair E k n) = to_public E (snd (Kem_generate_keypair E k n)))
   \<and> (\<forall>a b. length a = 32 \<longrightarrow> length b = 32 \<longrightarrow>
        compute_shared_key E a (to_public E b) = compute_shared_key E b (to_public E a))"

text \<open>\<^verbatim>\<open>bssl_crypto::hkdf\<close>, RFC 5869: an expansion to at most 255 blocks of 32 bytes succeeds.\<close>

definition hkdf_spec :: "('s, 'r, 'p) env \<Rightarrow> bool" where
  "hkdf_spec E \<longleftrightarrow>
     (\<forall>prk info n. n \<le> 255 * 32 \<longrightarrow> expand_into E prk info n \<noteq> None)
   \<and> (\<forall>prk info n out. expand_into E prk info n = Some out \<longrightarrow> length out = n)"

definition zeroize_spec :: "('s, 'r, 'p) env \<Rightarrow> bool" where
  "zeroize_spec E \<longleftrightarrow> (\<forall>bs. zeroize E bs = replicate (length bs) 0)"

text \<open>A mapping of a file has the length the file was given.\<close>

definition secretmem_spec :: "('s, 'r, 'p) env \<Rightarrow> bool" where
  "secretmem_spec E \<longleftrightarrow> (\<forall>i n region. sys_map_mut E i n = Some region \<longrightarrow> length region = n)"

section \<open>Lemmas\<close>

lemma Uuid_from_slice_simps [simp]:
  "Uuid_from_slice bs = Some u \<longleftrightarrow> u = Uuid bs \<and> length bs = 16"
  "Uuid_from_slice bs = None \<longleftrightarrow> length bs \<noteq> 16"
  by (auto simp: Uuid_from_slice_def)

lemma Uuid_as_bytes [simp]: "Uuid (as_bytes u) = u"
  by (cases u) simp

lemma advances_refl [simp]: "advances m m"
  by (simp add: advances_def)

lemma advances_trans: "advances a b \<Longrightarrow> advances b c \<Longrightarrow> advances a c"
  by (simp add: advances_def)

lemmas machine_defs = Instant_now_def draw_def syscall_def

lemma bindM_Instant_now [simp]:
  "bindM Instant_now f m = f (clock m (ticks m)) (m\<lparr>ticks := Suc (ticks m)\<rparr>)"
  by (simp add: bindM_def Instant_now_def)

lemma bindM_draw [simp]: "bindM draw f m = f (draws m) (m\<lparr>draws := Suc (draws m)\<rparr>)"
  by (simp add: bindM_def draw_def)

lemma bindM_syscall [simp]: "bindM syscall f m = f (syscalls m) (m\<lparr>syscalls := Suc (syscalls m)\<rparr>)"
  by (simp add: bindM_def syscall_def)

text \<open>The laws of \<open>env\<close>, one fact each.\<close>

lemma prost_specD:
  assumes "prost_spec E"
  shows decode_encode: "HpkeAlgorithm_decode E (encode_to_vec E a) = Some a"
    and length_encode: "length (encode_to_vec E a) \<le> 33"
    and kem_try_from: "KemAlgorithm_try_from E n = Some k \<longleftrightarrow> n = kem_as_i32 k"
    and kdf_try_from: "KdfAlgorithm_try_from E n = Some k' \<longleftrightarrow> n = kdf_as_i32 k'"
    and aead_try_from: "AeadAlgorithm_try_from E n = Some k'' \<longleftrightarrow> n = aead_as_i32 k''"
  using assms by (simp_all add: prost_spec_def)

lemma hpke_specD:
  assumes "hpke_spec E"
  shows length_keypair_public: "length (fst (Kem_generate_keypair E k n)) = 32"
    and length_keypair_private: "length (snd (Kem_generate_keypair E k n)) = 32"
    and length_enc: "SenderContext_new E p pk info i = Some (ctx, enc) \<Longrightarrow> length enc = 32"
    and length_seal: "length (SenderContext_seal E ctx pt aad) = length pt + 16"
    and sender_exists: "SenderContext_new E p (fst (Kem_generate_keypair E k n)) info i \<noteq> None"
  using assms by (auto simp: hpke_spec_def)

lemma hpke_open_seal:
  assumes "hpke_spec E"
    and "SenderContext_new E p (fst (Kem_generate_keypair E k n)) info i = Some (ctx, enc)"
  shows "\<exists>rcp. RecipientContext_new E p (snd (Kem_generate_keypair E k n)) enc info = Some rcp
      \<and> (\<forall>pt aad. RecipientContext_open E rcp (SenderContext_seal E ctx pt aad) aad = Some pt)"
  using assms(1)[unfolded hpke_spec_def, THEN conjunct2, THEN conjunct2, THEN conjunct2,
      THEN conjunct2] assms(2) by (elim allE impE) assumption

lemma x25519_specD:
  assumes "x25519_spec E"
  shows length_to_public: "length sk = 32 \<Longrightarrow> length (to_public E sk) = 32"
    and length_shared_key: "compute_shared_key E sk pk = Some key \<Longrightarrow> length key = 32"
    and keypair_to_public: "fst (Kem_generate_keypair E k n) = to_public E (snd (Kem_generate_keypair E k n))"
    and dh_commutes: "length a = 32 \<Longrightarrow> length b = 32 \<Longrightarrow>
        compute_shared_key E a (to_public E b) = compute_shared_key E b (to_public E a)"
  using assms unfolding x25519_spec_def by blast+

lemma hkdf_specD:
  assumes "hkdf_spec E"
  shows expand_exists: "n \<le> 255 * 32 \<Longrightarrow> expand_into E prk info n \<noteq> None"
    and length_expand: "expand_into E prk info n = Some out \<Longrightarrow> length out = n"
  using assms by (auto simp: hkdf_spec_def)

end
