(* ===== verification/Secret_Box.thy ===== *)
theory Secret_Box
  imports Machine
begin

text \<open>
  \<^verbatim>\<open>km_common/src/crypto/secret_box.rs\<close>. \<open>SecretBox_new\<close> is the constructor as the other
  components see it: a box with the given contents. \<open>SecretBox_new_alloc\<close> is the constructor as
  written, on a vector with its spare capacity: besides the box it gives the contents of every
  allocation it frees. The refinement lemma relates the two, and no freed allocation holds data.
\<close>

datatype SecretBox = SecretBox (as_slice: bytes)

record rust_vec =
  elems :: bytes
  spare :: bytes

definition capacity :: "rust_vec \<Rightarrow> nat" where
  "capacity v = length (elems v) + length (spare v)"

definition SecretBox_new_alloc :: "('s, 'r, 'p) env \<Rightarrow> rust_vec \<Rightarrow> SecretBox \<times> bytes list" where
  "SecretBox_new_alloc E data =
     (if length (elems data) < capacity data
      then (SecretBox (elems data), [zeroize E (elems data @ spare data)])
      else (SecretBox (elems data), []))"

definition SecretBox_new :: "bytes \<Rightarrow> SecretBox" where
  "SecretBox_new data = SecretBox data"

text \<open>A write through the mutable slice, which cannot change the length.\<close>

definition as_mut_slice_set :: "nat \<Rightarrow> byte \<Rightarrow> SecretBox \<Rightarrow> SecretBox option" where
  "as_mut_slice_set i b sb =
     (if i < length (as_slice sb) then Some (SecretBox ((as_slice sb)[i := b])) else None)"

section \<open>Lemmas\<close>

lemma as_slice_new [simp]: "as_slice (SecretBox_new data) = data"
  by (simp add: SecretBox_new_def)

lemma SecretBox_new_as_slice [simp]: "SecretBox_new (as_slice sb) = sb"
  by (cases sb) (simp add: SecretBox_new_def)

lemma SecretBox_new_alloc_refines: "fst (SecretBox_new_alloc E data) = SecretBox_new (elems data)"
  by (simp add: SecretBox_new_alloc_def SecretBox_new_def)

lemma SecretBox_new_alloc_frees_zeros:
  assumes "zeroize_spec E" and "a \<in> set (snd (SecretBox_new_alloc E data))" and "b \<in> set a"
  shows "b = 0"
  using assms by (auto simp: SecretBox_new_alloc_def zeroize_spec_def split: if_splits)

end
