(* ===== verification/Protected_Mem.thy ===== *)
theory Protected_Mem
  imports Secret_Box
begin

text \<open>
  \<^verbatim>\<open>km_common/src/protected_mem.rs\<close>: the \<^verbatim>\<open>Vault\<close> that keeps a private key in
  \<^verbatim>\<open>memfd_secret\<close> memory. The three system calls of \<^verbatim>\<open>Vault::new\<close> can each fail;
  \<^verbatim>\<open>copy_from_slice\<close> panics when the mapping has another length than the data. The destructor
  zeroizes the region before the mapping goes away: the model records the contents of each unmapped
  region in \<open>released\<close>.
\<close>

record Vault =
  mmap :: bytes

datatype IoError = IoError

definition Vault_new :: "('s, 'r, 'p) env \<Rightarrow> SecretBox \<Rightarrow> (IoError, 'z machine_scheme, Vault) rust" where
  "Vault_new E data =
     bindM syscall (\<lambda>i.
       if sys_memfd_secret E i < 0 then errM IoError
       else bindM syscall (\<lambda>j.
         if \<not> sys_set_len E j (length (as_slice data)) then errM IoError
         else bindM syscall (\<lambda>k.
           case sys_map_mut E k (length (as_slice data)) of
             None \<Rightarrow> errM IoError
           | Some region \<Rightarrow>
               if length region \<noteq> length (as_slice data) then panicM
               else returnM \<lparr>mmap = overwrite (as_slice data) region\<rparr>)))"

definition get_secret :: "Vault \<Rightarrow> SecretBox" where
  "get_secret v = SecretBox_new (mmap v)"

definition Vault_drop :: "('s, 'r, 'p) env \<Rightarrow> Vault \<Rightarrow> 'z machine_scheme \<Rightarrow> 'z machine_scheme" where
  "Vault_drop E v m = m\<lparr>released := released m @ [zeroize E (mmap v)]\<rparr>"

text \<open>\<^verbatim>\<open>Debug\<close> and \<^verbatim>\<open>Display\<close> of a vault, and \<^verbatim>\<open>fmt_redacted\<close> of \<^verbatim>\<open>km_common/src/lib.rs\<close>.\<close>

definition fmt_redacted :: "string \<Rightarrow> string" where
  "fmt_redacted out = out @ ''[REDACTED]''"

definition Vault_fmt :: "Vault \<Rightarrow> string \<Rightarrow> string" where
  "Vault_fmt v out = fmt_redacted out"

section \<open>Lemmas\<close>

text \<open>A vault that was made holds exactly the data: what is read back is what was stored.\<close>

lemma Vault_new_Ok:
  "Vault_new E data m = (Ok v, m') \<Longrightarrow> mmap v = as_slice data"
  by (auto simp: Vault_new_def basicM_defs split: option.splits if_splits)

lemma get_secret_Vault_new: "Vault_new E data m = (Ok v, m') \<Longrightarrow> get_secret v = data"
  by (cases data) (simp add: get_secret_def Vault_new_Ok SecretBox_new_def)

lemma Vault_new_frame:
  "clock (snd (Vault_new E data m)) = clock m"
  "ticks (snd (Vault_new E data m)) = ticks m"
  "draws (snd (Vault_new E data m)) = draws m"
  "released (snd (Vault_new E data m)) = released m"
  "machine.more (snd (Vault_new E data m)) = machine.more m"
  by (simp_all add: Vault_new_def basicM_defs split: option.splits)

lemma Vault_new_syscalls: "syscalls m \<le> syscalls (snd (Vault_new E data m))"
  by (simp add: Vault_new_def basicM_defs split: option.splits)

lemma Vault_new_no_panic: "secretmem_spec E \<Longrightarrow> fst (Vault_new E data m) \<noteq> Panicked"
  by (auto simp: Vault_new_def basicM_defs secretmem_spec_def split: option.splits)

lemma Vault_new_never_undefined: "fst (Vault_new E data m) \<noteq> Undefined"
  by (auto simp: Vault_new_def basicM_defs split: option.splits)

text \<open>When the kernel grants the three calls, the vault is made.\<close>

definition vault_granted :: "('s, 'r, 'p) env \<Rightarrow> nat \<Rightarrow> nat \<Rightarrow> bool" where
  "vault_granted E i n \<longleftrightarrow> 0 \<le> sys_memfd_secret E i \<and> sys_set_len E (Suc i) n
     \<and> sys_map_mut E (Suc (Suc i)) n \<noteq> None"

lemma Vault_new_total:
  assumes "secretmem_spec E" and "vault_granted E (syscalls m) (length (as_slice data))"
  shows "Vault_new E data m = (Ok \<lparr>mmap = as_slice data\<rparr>, m\<lparr>syscalls := syscalls m + 3\<rparr>)"
  using assms by (auto simp: Vault_new_def basicM_defs secretmem_spec_def vault_granted_def
      numeral_3_eq_3)

lemma Vault_drop_simps [simp]:
  "clock (Vault_drop E v m) = clock m"
  "ticks (Vault_drop E v m) = ticks m"
  "draws (Vault_drop E v m) = draws m"
  "syscalls (Vault_drop E v m) = syscalls m"
  "released (Vault_drop E v m) = released m @ [zeroize E (mmap v)]"
  "machine.more (Vault_drop E v m) = machine.more m"
  by (simp_all add: Vault_drop_def)

text \<open>The output of the formatters does not depend on the secret.\<close>

lemma Vault_fmt_redacted: "Vault_fmt v out = Vault_fmt v' out"
  by (simp add: Vault_fmt_def)

end
