(* ===== verification/X25519.thy ===== *)
theory X25519
  imports Protected_Mem
begin

text \<open>
  \<^verbatim>\<open>km_common/src/crypto/x25519.rs\<close> with the key enumerations of
  \<^verbatim>\<open>km_common/src/crypto.rs\<close>: DHKEM(X25519, HKDF-SHA256) on top of the primitives of
  \<^verbatim>\<open>bssl_crypto\<close>, and HPKE sealing and opening under the one supported suite.

  The lemmas compare the hand-written key schedule with the text of RFC 9180, section 4.1, and show
  that a decapsulation returns the secret of the encapsulation and that opening inverts sealing.
\<close>

section \<open>Keys\<close>

datatype X25519PublicKey = X25519PublicKey (x25519_bytes: bytes)

datatype X25519PrivateKey = X25519PrivateKey (x25519_secret: SecretBox)

datatype PrivateKey = X25519_private X25519PrivateKey

section \<open>Suite check\<close>

text \<open>
  The pattern of the \<^verbatim>\<open>let ... else\<close> that guards sealing, opening and key creation.
\<close>

definition suite_supported :: "('s, 'r, 'p) env \<Rightarrow> HpkeAlgorithm \<Rightarrow> bool" where
  "suite_supported E algo \<longleftrightarrow>
     (KemAlgorithm_try_from E (kem algo), KdfAlgorithm_try_from E (kdf algo),
      AeadAlgorithm_try_from E (aead algo))
     = (Some DhkemX25519HkdfSha256, Some HkdfSha256, Some Aes256Gcm)"

definition hpke_params :: hpke_Params where
  "hpke_params = \<lparr>p_kem = X25519HkdfSha256_Kem, p_kdf = HkdfSha256_Kdf, p_aead = Aes256Gcm_Aead\<rparr>"

section \<open>Labeled HKDF\<close>

definition labeled_extract :: "('s, 'r, 'p) env \<Rightarrow> bytes \<Rightarrow> bytes \<Rightarrow> bytes \<Rightarrow> bytes \<Rightarrow> 'p" where
  "labeled_extract E salt label ikm suite_id =
     (let labeled_ikm = SecretBox_new (concat [byte_string ''HPKE-v1'', suite_id, label, ikm])
      in HkdfSha256_extract E (as_slice labeled_ikm) salt)"

definition labeled_expand :: "('s, 'r, 'p) env \<Rightarrow> 'p \<Rightarrow> bytes \<Rightarrow> bytes \<Rightarrow> bytes \<Rightarrow> u16 \<Rightarrow>
    (Status, 'z machine_scheme, SecretBox) rust" where
  "labeled_expand E prk label info suite_id len =
     (let labeled_info = SecretBox_new
            (concat [u16_to_be_bytes len, byte_string ''HPKE-v1'', suite_id, label, info])
      in case expand_into E prk (as_slice labeled_info) (unat len) of
           None \<Rightarrow> errM DecapsulationFailure
         | Some result \<Rightarrow> returnM (SecretBox_new result))"

definition kem_suite_id :: bytes where
  "kem_suite_id = byte_string ''KEM'' @ [0, 0x20]"

section \<open>Operations on keys\<close>

definition x25519_hpke_seal_internal :: "('s, 'r, 'p) env \<Rightarrow> X25519PublicKey \<Rightarrow> SecretBox \<Rightarrow> bytes \<Rightarrow>
    HpkeAlgorithm \<Rightarrow> (Status, 'z machine_scheme, bytes \<times> bytes) rust" where
  "x25519_hpke_seal_internal E pk plaintext aad algo =
     (if \<not> suite_supported E algo then errM UnsupportedAlgorithm
      else bindM draw (\<lambda>seed.
        case SenderContext_new E hpke_params (x25519_bytes pk) [] seed of
          None \<Rightarrow> errM EncryptionFailure
        | Some (sender_ctx, encapsulated_key) \<Rightarrow>
            returnM (encapsulated_key, SenderContext_seal E sender_ctx (as_slice plaintext) aad)))"

definition ephemeral_keypair :: "('s, 'r, 'p) env \<Rightarrow> PrivateKey option \<Rightarrow>
    (Status, 'z machine_scheme, bytes \<times> bytes) rust" where
  "ephemeral_keypair E ephemeral_sk =
     (case ephemeral_sk of
        Some (X25519_private (X25519PrivateKey sk)) \<Rightarrow>
          (case try_into_array 32 (as_slice sk) of
             None \<Rightarrow> errM InvalidArgument
           | Some sk_e \<Rightarrow> returnM (to_public E sk_e, as_slice sk))
      | None \<Rightarrow> bindM draw (\<lambda>seed. returnM (Kem_generate_keypair E X25519HkdfSha256_Kem seed)))"

definition x25519_encap_internal :: "('s, 'r, 'p) env \<Rightarrow> X25519PublicKey \<Rightarrow> PrivateKey option \<Rightarrow>
    (Status, 'z machine_scheme, SecretBox \<times> bytes) rust" where
  "x25519_encap_internal E pk ephemeral_sk =
     bindM (ephemeral_keypair E ephemeral_sk) (\<lambda>(pk_e_bytes, sk_e_bytes).
     bindM (ok_orM (try_into_array 32 sk_e_bytes) CryptoError) (\<lambda>sk_e.
     let pk_r = x25519_bytes pk in
     bindM (ok_orM (compute_shared_key E sk_e pk_r) CryptoError) (\<lambda>dh.
     let shared_key = SecretBox_new dh;
         prk = labeled_extract E [] (byte_string ''eae_prk'') (as_slice shared_key) kem_suite_id;
         info = pk_e_bytes @ pk_r
     in bindM (labeled_expand E prk (byte_string ''shared_secret'') info kem_suite_id 32)
          (\<lambda>shared_secret. returnM (shared_secret, pk_e_bytes)))))"

definition x25519_decaps_internal :: "('s, 'r, 'p) env \<Rightarrow> X25519PrivateKey \<Rightarrow> bytes \<Rightarrow>
    (Status, 'z machine_scheme, SecretBox) rust" where
  "x25519_decaps_internal E sk enc =
     bindM (ok_orM (try_into_array 32 (as_slice (x25519_secret sk))) InvalidArgument) (\<lambda>priv_key.
     bindM (ok_orM (try_into_array 32 enc) DecapsulationFailure) (\<lambda>pk_e.
     bindM (ok_orM (compute_shared_key E priv_key pk_e) DecapsulationFailure) (\<lambda>dh.
     let shared_key = SecretBox_new dh;
         prk = labeled_extract E [] (byte_string ''eae_prk'') (as_slice shared_key) kem_suite_id;
         info = enc @ to_public E priv_key
     in labeled_expand E prk (byte_string ''shared_secret'') info kem_suite_id 32)))"

definition x25519_hpke_open_internal :: "('s, 'r, 'p) env \<Rightarrow> X25519PrivateKey \<Rightarrow> bytes \<Rightarrow> bytes \<Rightarrow> bytes \<Rightarrow>
    HpkeAlgorithm \<Rightarrow> (Status, 'z machine_scheme, SecretBox) rust" where
  "x25519_hpke_open_internal E sk enc ciphertext aad algo =
     (if \<not> suite_supported E algo then errM UnsupportedAlgorithm
      else bindM (ok_orM (RecipientContext_new E hpke_params (as_slice (x25519_secret sk)) enc [])
                   DecryptionFailure) (\<lambda>recipient_ctx.
           ok_orM (map_option SecretBox_new (RecipientContext_open E recipient_ctx ciphertext aad))
             DecryptionFailure))"

definition x25519_generate_keypair :: "('s, 'r, 'p) env \<Rightarrow>
    (Status, 'z machine_scheme, X25519PublicKey \<times> X25519PrivateKey) rust" where
  "x25519_generate_keypair E =
     bindM draw (\<lambda>seed.
       case Kem_generate_keypair E X25519HkdfSha256_Kem seed of
         (pk, sk) \<Rightarrow>
           (case try_into_array 32 pk of
              None \<Rightarrow> panicM
            | Some pk32 \<Rightarrow> returnM (X25519PublicKey pk32, X25519PrivateKey (SecretBox_new sk))))"

section \<open>RFC 9180\<close>

text \<open>
  Section 4: \<open>LabeledExtract\<close> and \<open>LabeledExpand\<close>; section 4.1: \<open>ExtractAndExpand\<close> and the shared
  secret of \<open>Decap\<close>; section 7.1: \<open>kem_id\<close> of DHKEM(X25519, HKDF-SHA256) and \<open>Nsecret\<close>.
\<close>

fun I2OSP :: "nat \<Rightarrow> nat \<Rightarrow> bytes" where
  "I2OSP n 0 = []"
| "I2OSP n (Suc w) = I2OSP (n div 256) w @ [word_of_nat (n mod 256)]"

definition rfc_suite_id :: "nat \<Rightarrow> bytes" where
  "rfc_suite_id kem_id = byte_string ''KEM'' @ I2OSP kem_id 2"

definition rfc_LabeledExtract :: "('s, 'r, 'p) env \<Rightarrow> nat \<Rightarrow> bytes \<Rightarrow> string \<Rightarrow> bytes \<Rightarrow> 'p" where
  "rfc_LabeledExtract E kem_id salt label ikm =
     HkdfSha256_extract E (byte_string ''HPKE-v1'' @ rfc_suite_id kem_id @ byte_string label @ ikm) salt"

definition rfc_LabeledExpand :: "('s, 'r, 'p) env \<Rightarrow> nat \<Rightarrow> 'p \<Rightarrow> string \<Rightarrow> bytes \<Rightarrow> nat \<Rightarrow> bytes option" where
  "rfc_LabeledExpand E kem_id prk label info L =
     expand_into E prk
       (I2OSP L 2 @ byte_string ''HPKE-v1'' @ rfc_suite_id kem_id @ byte_string label @ info) L"

definition rfc_ExtractAndExpand :: "('s, 'r, 'p) env \<Rightarrow> bytes \<Rightarrow> bytes \<Rightarrow> bytes option" where
  "rfc_ExtractAndExpand E dh kem_context =
     (let kem_id = 0x0020; Nsecret = 32;
          eae_prk = rfc_LabeledExtract E kem_id [] ''eae_prk'' dh
      in rfc_LabeledExpand E kem_id eae_prk ''shared_secret'' kem_context Nsecret)"

section \<open>Lemmas\<close>

lemma suite_supported_iff:
  "prost_spec E \<Longrightarrow> suite_supported E algo \<longleftrightarrow> kem algo = 1 \<and> kdf algo = 1 \<and> aead algo = 1"
  by (simp add: suite_supported_def kem_try_from kdf_try_from aead_try_from)

lemma kem_suite_id_rfc: "kem_suite_id = rfc_suite_id 0x0020"
  by (simp add: kem_suite_id_def rfc_suite_id_def numeral_2_eq_2)

lemma u16_to_be_bytes_I2OSP: "u16_to_be_bytes len = I2OSP (unat len) 2"
proof -
  have "unat len div 256 < 256"
  proof -
    have "unat len < 2 ^ 16"
      using unsigned_less [of len] by simp
    then show ?thesis by (simp add: less_mult_imp_div_less)
  qed
  then show ?thesis
    by (simp add: u16_to_be_bytes_def numeral_2_eq_2)
qed

text \<open>The common tail of encapsulation and decapsulation is \<open>ExtractAndExpand\<close> of the RFC.\<close>

lemma key_schedule_rfc:
  "labeled_expand E (labeled_extract E [] (byte_string ''eae_prk'') dh kem_suite_id)
     (byte_string ''shared_secret'') kem_context kem_suite_id 32
   = (case rfc_ExtractAndExpand E dh kem_context of
        None \<Rightarrow> errM DecapsulationFailure
      | Some ss \<Rightarrow> returnM (SecretBox_new ss))"
  by (simp add: labeled_expand_def labeled_extract_def rfc_ExtractAndExpand_def rfc_LabeledExpand_def
      rfc_LabeledExtract_def kem_suite_id_rfc u16_to_be_bytes_I2OSP)

lemma x25519_decaps_internal_rfc:
  "x25519_decaps_internal E (X25519PrivateKey (SecretBox sk)) enc m =
     (if length sk \<noteq> 32 then (Err InvalidArgument, m)
      else if length enc \<noteq> 32 then (Err DecapsulationFailure, m)
      else case compute_shared_key E sk enc of
          None \<Rightarrow> (Err DecapsulationFailure, m)
        | Some dh \<Rightarrow>
           (case rfc_ExtractAndExpand E dh (enc @ to_public E sk) of
              None \<Rightarrow> (Err DecapsulationFailure, m)
            | Some ss \<Rightarrow> (Ok (SecretBox ss), m)))"
  by (simp add: x25519_decaps_internal_def key_schedule_rfc try_into_array_def Let_def basicM_defs
      SecretBox_new_def split: option.splits)

lemma x25519_encap_internal_eq:
  assumes "length sk_e = 32"
  shows "x25519_encap_internal E (X25519PublicKey pk)
       (Some (X25519_private (X25519PrivateKey (SecretBox sk_e)))) m =
     (case compute_shared_key E sk_e pk of
        None \<Rightarrow> (Err CryptoError, m)
      | Some dh \<Rightarrow>
         (case rfc_ExtractAndExpand E dh (to_public E sk_e @ pk) of
            None \<Rightarrow> (Err DecapsulationFailure, m)
          | Some ss \<Rightarrow> (Ok (SecretBox ss, to_public E sk_e), m)))"
  using assms by (simp add: x25519_encap_internal_def ephemeral_keypair_def key_schedule_rfc
      try_into_array_def Let_def basicM_defs bindM_def SecretBox_new_def split: option.splits)

lemma x25519_encap_internal_random:
  assumes "hpke_spec E" and "x25519_spec E"
  shows "x25519_encap_internal E pk None m =
     x25519_encap_internal E pk
       (Some (X25519_private (X25519PrivateKey
          (SecretBox (snd (Kem_generate_keypair E X25519HkdfSha256_Kem (draws m)))))))
       (m\<lparr>draws := Suc (draws m)\<rparr>)"
proof -
  let ?kp = "Kem_generate_keypair E X25519HkdfSha256_Kem (draws m)"
  have "?kp = (to_public E (snd ?kp), snd ?kp)"
    using keypair_to_public [OF assms(2)] by (metis prod.collapse)
  moreover have "length (snd ?kp) = 32"
    by (rule length_keypair_private [OF assms(1)])
  ultimately show ?thesis
    by (simp add: x25519_encap_internal_def ephemeral_keypair_def bindM_def [of "bindM _ _"]
        bindM_def [of "returnM _"] returnM_def try_into_array_def)
qed

text \<open>Both parties compute the same Diffie-Hellman value and the same context.\<close>

lemma decaps_encap:
  assumes "x25519_spec E" and "length sk_r = 32" and "length sk_e = 32"
    and "x25519_encap_internal E (X25519PublicKey (to_public E sk_r))
        (Some (X25519_private (X25519PrivateKey (SecretBox sk_e)))) m = (Ok (ss, enc), m')"
  shows "x25519_decaps_internal E (X25519PrivateKey (SecretBox sk_r)) enc m'' = (Ok ss, m'')"
proof -
  have enc: "enc = to_public E sk_e"
    using assms(4) by (auto simp: x25519_encap_internal_eq [OF assms(3)] split: option.splits)
  then have "length enc = 32"
    using length_to_public [OF assms(1) assms(3)] by simp
  then show ?thesis
    using assms(4) enc dh_commutes [OF assms(1) assms(2) assms(3)]
    by (auto simp: x25519_encap_internal_eq [OF assms(3)] x25519_decaps_internal_rfc assms(2)
        split: option.splits)
qed

lemma open_seal:
  assumes "hpke_spec E" and "suite_supported E algo"
    and kp: "Kem_generate_keypair E k n = (pk, sk)"
    and seal: "x25519_hpke_seal_internal E (X25519PublicKey pk) pt aad algo m = (Ok (enc, ct), m')"
  shows "x25519_hpke_open_internal E (X25519PrivateKey (SecretBox sk)) enc ct aad algo m'' = (Ok pt, m'')"
proof -
  obtain ctx where new: "SenderContext_new E hpke_params pk [] (draws m) = Some (ctx, enc)"
    and ct: "ct = SenderContext_seal E ctx (as_slice pt) aad"
    using seal assms(2) by (auto simp: x25519_hpke_seal_internal_def basicM_defs split: option.splits)
  obtain rcp where "RecipientContext_new E hpke_params sk enc [] = Some rcp"
    and "RecipientContext_open E rcp ct aad = Some (as_slice pt)"
    using hpke_open_seal [OF assms(1), of hpke_params k n "[]" "draws m" ctx enc] new ct kp by auto
  then show ?thesis
    using assms(2) by (simp add: x25519_hpke_open_internal_def basicM_defs)
qed

lemma seal_lengths:
  assumes "hpke_spec E" and "x25519_hpke_seal_internal E pk pt aad algo m = (Ok (enc, ct), m')"
  shows "length enc = 32 \<and> length ct = length (as_slice pt) + 16"
  using assms by (auto simp: x25519_hpke_seal_internal_def basicM_defs length_seal
      split: option.splits if_splits dest: length_enc)

lemma seal_total:
  assumes "hpke_spec E" and "suite_supported E algo" and "Kem_generate_keypair E k n = (pk, sk)"
  shows "\<exists>enc ct. x25519_hpke_seal_internal E (X25519PublicKey pk) pt aad algo m
      = (Ok (enc, ct), m\<lparr>draws := Suc (draws m)\<rparr>)"
  using assms(2) sender_exists [OF assms(1), of hpke_params k n "[]" "draws m"] assms(3)
  by (auto simp: x25519_hpke_seal_internal_def basicM_defs split: option.splits)

lemma x25519_generate_keypair_eq:
  assumes "hpke_spec E" and "Kem_generate_keypair E X25519HkdfSha256_Kem (draws m) = (pk, sk)"
  shows "x25519_generate_keypair E m =
    (Ok (X25519PublicKey pk, X25519PrivateKey (SecretBox sk)), m\<lparr>draws := Suc (draws m)\<rparr>)"
  using length_keypair_public [OF assms(1), of X25519HkdfSha256_Kem "draws m"] assms(2)
  by (simp add: x25519_generate_keypair_def basicM_defs SecretBox_new_def try_into_array_def)

lemma decaps_secret_length:
  assumes "hkdf_spec E" and "x25519_decaps_internal E sk enc m = (Ok ss, m')"
  shows "length (as_slice ss) = 32"
proof -
  obtain sk' where sk: "sk = X25519PrivateKey (SecretBox sk')"
    by (metis X25519PrivateKey.exhaust SecretBox.exhaust)
  show ?thesis
    using assms by (auto simp: sk x25519_decaps_internal_rfc rfc_ExtractAndExpand_def
        rfc_LabeledExpand_def Let_def split: option.splits if_splits dest: length_expand)
qed

end
