(* ===== verification/Crypto.thy ===== *)
theory Crypto
  imports X25519
begin

text \<open>
  \<^verbatim>\<open>km_common/src/crypto.rs\<close>: the key enumerations, their dispatch to the X25519
  implementation, and the functions the custody cores call. \<^verbatim>\<open>clear_stack_on_return\<close> runs its
  closure and returns the closure's result; the stack pages it wipes are not part of the model.
\<close>

datatype PublicKey = X25519_public X25519PublicKey

definition PublicKey_as_bytes :: "PublicKey \<Rightarrow> bytes" where
  "PublicKey_as_bytes pub = (case pub of X25519_public pk \<Rightarrow> x25519_bytes pk)"

definition PublicKey_try_from :: "bytes \<Rightarrow> (Status, 'z, PublicKey) rust" where
  "PublicKey_try_from value =
     bindM (ok_orM (try_into_array 32 value) InvalidArgument)
       (\<lambda>bytes. returnM (X25519_public (X25519PublicKey bytes)))"

definition PrivateKey_from :: "SecretBox \<Rightarrow> PrivateKey" where
  "PrivateKey_from secret = X25519_private (X25519PrivateKey secret)"

definition SecretBox_from :: "PrivateKey \<Rightarrow> SecretBox" where
  "SecretBox_from key = (case key of X25519_private sk \<Rightarrow> x25519_secret sk)"

definition hpke_seal_internal :: "('s, 'r, 'p) env \<Rightarrow> PublicKey \<Rightarrow> SecretBox \<Rightarrow> bytes \<Rightarrow> HpkeAlgorithm \<Rightarrow>
    (Status, 'z machine_scheme, bytes \<times> bytes) rust" where
  "hpke_seal_internal E pub plaintext aad algo =
     (case pub of X25519_public pk \<Rightarrow> x25519_hpke_seal_internal E pk plaintext aad algo)"

definition encap_internal :: "('s, 'r, 'p) env \<Rightarrow> PublicKey \<Rightarrow> PrivateKey option \<Rightarrow>
    (Status, 'z machine_scheme, SecretBox \<times> bytes) rust" where
  "encap_internal E pub ephemeral_sk =
     (case pub of X25519_public pk \<Rightarrow> x25519_encap_internal E pk ephemeral_sk)"

definition decaps_internal :: "('s, 'r, 'p) env \<Rightarrow> PrivateKey \<Rightarrow> bytes \<Rightarrow>
    (Status, 'z machine_scheme, SecretBox) rust" where
  "decaps_internal E key enc =
     (case key of X25519_private sk \<Rightarrow> x25519_decaps_internal E sk enc)"

definition hpke_open_internal :: "('s, 'r, 'p) env \<Rightarrow> PrivateKey \<Rightarrow> bytes \<Rightarrow> bytes \<Rightarrow> bytes \<Rightarrow> HpkeAlgorithm \<Rightarrow>
    (Status, 'z machine_scheme, SecretBox) rust" where
  "hpke_open_internal E key enc ciphertext aad algo =
     (case key of X25519_private sk \<Rightarrow> x25519_hpke_open_internal E sk enc ciphertext aad algo)"

definition generate_keypair :: "('s, 'r, 'p) env \<Rightarrow> KemAlgorithm \<Rightarrow>
    (Status, 'z machine_scheme, PublicKey \<times> PrivateKey) rust" where
  "generate_keypair E algo =
     (case algo of
        DhkemX25519HkdfSha256 \<Rightarrow>
          bindM (x25519_generate_keypair E)
            (\<lambda>(pk, sk). returnM (X25519_public pk, X25519_private sk))
      | _ \<Rightarrow> errM UnsupportedAlgorithm)"

definition encap :: "('s, 'r, 'p) env \<Rightarrow> PublicKey \<Rightarrow>
    (Status, 'z machine_scheme, SecretBox \<times> bytes) rust" where
  "encap E pub_key = encap_internal E pub_key None"

definition decaps :: "('s, 'r, 'p) env \<Rightarrow> PrivateKey \<Rightarrow> bytes \<Rightarrow>
    (Status, 'z machine_scheme, SecretBox) rust" where
  "decaps E priv_key enc = decaps_internal E priv_key enc"

definition hpke_open :: "('s, 'r, 'p) env \<Rightarrow> PrivateKey \<Rightarrow> bytes \<Rightarrow> bytes \<Rightarrow> bytes \<Rightarrow> HpkeAlgorithm \<Rightarrow>
    (Status, 'z machine_scheme, SecretBox) rust" where
  "hpke_open E priv_key enc ciphertext aad algo = hpke_open_internal E priv_key enc ciphertext aad algo"

definition hpke_seal :: "('s, 'r, 'p) env \<Rightarrow> PublicKey \<Rightarrow> SecretBox \<Rightarrow> bytes \<Rightarrow> HpkeAlgorithm \<Rightarrow>
    (Status, 'z machine_scheme, bytes \<times> bytes) rust" where
  "hpke_seal E pub_key plaintext aad algo = hpke_seal_internal E pub_key plaintext aad algo"

section \<open>Lemmas\<close>

lemma PublicKey_as_bytes_simps [simp]:
  "PublicKey_as_bytes (X25519_public (X25519PublicKey bs)) = bs"
  by (simp add: PublicKey_as_bytes_def)

lemma PublicKey_eq_iff: "pub = pub' \<longleftrightarrow> PublicKey_as_bytes pub = PublicKey_as_bytes pub'"
  by (cases pub; cases pub') (auto simp: PublicKey_as_bytes_def X25519PublicKey.expand)

lemma SecretBox_PrivateKey_roundtrip [simp]:
  "SecretBox_from (PrivateKey_from secret) = secret"
  "PrivateKey_from (SecretBox_from key) = key"
  by (cases key; simp add: SecretBox_from_def PrivateKey_from_def)+

lemma PublicKey_try_from_eq:
  "PublicKey_try_from value s =
     (if length value = 32 then (Ok (X25519_public (X25519PublicKey value)), s)
      else (Err InvalidArgument, s))"
  by (simp add: PublicKey_try_from_def try_into_array_def basicM_defs)

text \<open>Every byte string of an accepted key round-trips through \<^verbatim>\<open>as_bytes\<close>.\<close>

lemma PublicKey_try_from_as_bytes:
  "PublicKey_try_from value s = (Ok pub, t) \<longleftrightarrow> PublicKey_as_bytes pub = value \<and> length value = 32 \<and> t = s"
  by (cases pub) (auto simp: PublicKey_try_from_eq PublicKey_as_bytes_def X25519PublicKey.expand
      split: if_splits)

lemma generate_keypair_eq:
  assumes "hpke_spec E" and "Kem_generate_keypair E X25519HkdfSha256_Kem (draws m) = (pk, sk)"
  shows "generate_keypair E DhkemX25519HkdfSha256 m =
     (Ok (X25519_public (X25519PublicKey pk), PrivateKey_from (SecretBox sk)),
      m\<lparr>draws := Suc (draws m)\<rparr>)"
  by (simp add: generate_keypair_def bindM_def x25519_generate_keypair_eq [OF assms] returnM_def
      PrivateKey_from_def)

text \<open>What the three operations can change, and their errors.\<close>

lemma crypto_frame:
  "snd (decaps E key enc m) = m"
  "snd (hpke_open E key enc ct aad algo m) = m"
  "\<exists>d. snd (hpke_seal E pub pt aad algo m) = m\<lparr>draws := d\<rparr> \<and> draws m \<le> d"
  "\<exists>d. snd (generate_keypair E alg m) = m\<lparr>draws := d\<rparr> \<and> draws m \<le> d"
proof -
  show "snd (decaps E key enc m) = m"
    by (simp add: decaps_def decaps_internal_def x25519_decaps_internal_def labeled_expand_def
        Let_def basicM_defs ok_orM_def bindM_def split: PrivateKey.splits option.splits)
  show "snd (hpke_open E key enc ct aad algo m) = m"
    by (simp add: hpke_open_def hpke_open_internal_def x25519_hpke_open_internal_def basicM_defs
        ok_orM_def bindM_def split: PrivateKey.splits option.splits)
  show "\<exists>d. snd (hpke_seal E pub pt aad algo m) = m\<lparr>draws := d\<rparr> \<and> draws m \<le> d"
    by (cases pub; cases "suite_supported E algo")
      (auto simp: hpke_seal_def hpke_seal_internal_def x25519_hpke_seal_internal_def basicM_defs
        split: option.splits intro: exI [of _ "Suc (draws m)"] exI [of _ "draws m"])
  show "\<exists>d. snd (generate_keypair E alg m) = m\<lparr>draws := d\<rparr> \<and> draws m \<le> d"
    by (cases alg) (auto simp: generate_keypair_def x25519_generate_keypair_def basicM_defs bindM_def
        draw_def split: prod.splits option.splits intro: exI [of _ "Suc (draws m)"] exI [of _ "draws m"])
qed

lemma decaps_errors:
  "fst (decaps E key enc m) = Err e \<Longrightarrow> e \<in> {InvalidArgument, DecapsulationFailure}"
  by (auto simp: decaps_def decaps_internal_def x25519_decaps_internal_def labeled_expand_def Let_def
      basicM_defs ok_orM_def bindM_def split: PrivateKey.splits option.splits)

lemma hpke_open_errors:
  "fst (hpke_open E key enc ct aad algo m) = Err e \<Longrightarrow> e \<in> {UnsupportedAlgorithm, DecryptionFailure}"
  by (auto simp: hpke_open_def hpke_open_internal_def x25519_hpke_open_internal_def basicM_defs
      ok_orM_def bindM_def split: PrivateKey.splits option.splits if_splits)

lemma hpke_seal_errors:
  "fst (hpke_seal E pub pt aad algo m) = Err e \<Longrightarrow> e \<in> {UnsupportedAlgorithm, EncryptionFailure}"
  by (auto simp: hpke_seal_def hpke_seal_internal_def x25519_hpke_seal_internal_def basicM_defs
      split: PublicKey.splits option.splits if_splits)

lemma crypto_never_undefined:
  "fst (decaps E key enc m) \<noteq> Undefined" "fst (decaps E key enc m) \<noteq> Panicked"
  "fst (hpke_open E key enc ct aad algo m) \<noteq> Undefined"
  "fst (hpke_open E key enc ct aad algo m) \<noteq> Panicked"
  "fst (hpke_seal E pub pt aad algo m) \<noteq> Undefined" "fst (hpke_seal E pub pt aad algo m) \<noteq> Panicked"
  by (simp_all add: decaps_def decaps_internal_def x25519_decaps_internal_def labeled_expand_def
      hpke_open_def hpke_open_internal_def x25519_hpke_open_internal_def
      hpke_seal_def hpke_seal_internal_def x25519_hpke_seal_internal_def
      Let_def basicM_defs ok_orM_def bindM_def draw_def
      split: PublicKey.splits PrivateKey.splits option.splits if_splits)

text \<open>An unsupported suite is refused before any key material is touched.\<close>

lemma unsupported_suite:
  assumes "\<not> suite_supported E algo"
  shows "hpke_open E key enc ct aad algo m = (Err UnsupportedAlgorithm, m)"
    and "hpke_seal E pub pt aad algo m = (Err UnsupportedAlgorithm, m)"
  using assms by (cases key, cases pub; simp add: hpke_open_def hpke_open_internal_def
      x25519_hpke_open_internal_def hpke_seal_def hpke_seal_internal_def
      x25519_hpke_seal_internal_def errM_def)+

end
