(* ===== verification/Key_Types.thy ===== *)
theory Key_Types
  imports Crypto "HOL-Library.Multiset"
begin

text \<open>
  \<^verbatim>\<open>km_common/src/key_types.rs\<close>: key records, their creation, and the registry with its reaper.

  The registry is the map behind the \<^verbatim>\<open>RwLock\<close> together with the lock's poison flag; an
  operation takes the registry and returns the new one. \<^verbatim>\<open>unwrap\<close> on a poisoned lock panics.
  Every operation takes the lock once, so each is one atomic step of the registry. A record leaves
  the map when its handle is inserted again, removed, cleared or reaped; its destructor then runs
  (\<open>KeyRecord_drop\<close>).

  The locale \<open>registry_contract\<close> states what the custody cores rely on, as a refinement of a map
  from handles to records; it is interpreted on the operations below.
\<close>

section \<open>Data\<close>

definition REAPER_INTERVAL_SECS :: u64 where
  "REAPER_INTERVAL_SECS = 60"

datatype KeySpec =
    KemWithBindingPub (spec_algo: HpkeAlgorithm) (kem_public_key: PublicKey)
      (binding_public_key: PublicKey)
  | Binding (spec_algo: HpkeAlgorithm) (binding_public_key: PublicKey)

record KeyMetadata =
  meta_id :: uuid
  created_at :: instant
  delete_after :: instant
  spec :: KeySpec

record KeyRecord =
  meta :: KeyMetadata
  private_key :: Vault

type_synonym KeyHandle = uuid

record KeyRegistry =
  keys :: "(KeyHandle, KeyRecord) hash_map"
  poisoned :: bool

definition KeyRegistry_default :: KeyRegistry where
  "KeyRegistry_default = \<lparr>keys = [], poisoned = False\<rparr>"

definition KeyRecord_drop :: "('s, 'r, 'p) env \<Rightarrow> KeyRecord \<Rightarrow> 'z machine_scheme \<Rightarrow> 'z machine_scheme" where
  "KeyRecord_drop E rec m = Vault_drop E (private_key rec) m"

definition drop_all :: "('s, 'r, 'p) env \<Rightarrow> KeyRecord list \<Rightarrow> 'z machine_scheme \<Rightarrow> 'z machine_scheme" where
  "drop_all E recs m = fold (KeyRecord_drop E) recs m"

definition expired :: "instant \<Rightarrow> KeyRecord \<Rightarrow> bool" where
  "expired now rec \<longleftrightarrow> \<not> now < delete_after (meta rec)"

section \<open>Registry operations\<close>

definition add_key :: "('s, 'r, 'p) env \<Rightarrow> KeyRecord \<Rightarrow> KeyRegistry \<Rightarrow>
    (Status, 'z machine_scheme, KeyRegistry) rust" where
  "add_key E rec reg =
     (if poisoned reg then unwindM (KeyRecord_drop E rec) panicM
      else case hm_insert (meta_id (meta rec)) rec (keys reg) of
        (old, keys') \<Rightarrow>
          bindM (updateM (drop_all E (case old of None \<Rightarrow> [] | Some r \<Rightarrow> [r])))
            (\<lambda>_. returnM (reg\<lparr>keys := keys'\<rparr>)))"

definition remove_key :: "KeyHandle \<Rightarrow> KeyRegistry \<Rightarrow>
    (Status, 'z machine_scheme, KeyRecord option \<times> KeyRegistry) rust" where
  "remove_key handle reg =
     (if poisoned reg then panicM
      else case hm_remove handle (keys reg) of (old, keys') \<Rightarrow> returnM (old, reg\<lparr>keys := keys'\<rparr>))"

definition remove_all_keys :: "('s, 'r, 'p) env \<Rightarrow> KeyRegistry \<Rightarrow>
    (Status, 'z machine_scheme, KeyRegistry) rust" where
  "remove_all_keys E reg =
     (if poisoned reg then panicM
      else bindM (updateM (drop_all E (hm_values (keys reg)))) (\<lambda>_. returnM (reg\<lparr>keys := []\<rparr>)))"

definition get_key :: "KeyHandle \<Rightarrow> KeyRegistry \<Rightarrow>
    (Status, 'z machine_scheme, KeyRecord option) rust" where
  "get_key handle reg =
     (if poisoned reg then panicM
      else case hm_get handle (keys reg) of
        None \<Rightarrow> returnM None
      | Some rec \<Rightarrow>
          bindM Instant_now (\<lambda>now.
            returnM (if now < delete_after (meta rec) then Some rec else None)))"

text \<open>
  The reaper thread: after each sleep it loads the stop signal, and unless that is set it reads the
  clock and drops every expired record. The list holds the values the signal is seen to have, one
  for each wake-up; the result says whether the thread has ended.
\<close>

definition reaper_sweep :: "('s, 'r, 'p) env \<Rightarrow> KeyRegistry \<Rightarrow>
    (Status, 'z machine_scheme, KeyRegistry) rust" where
  "reaper_sweep E reg =
     bindM Instant_now (\<lambda>now.
       if poisoned reg then returnM reg
       else bindM (updateM (drop_all E (filter (expired now) (hm_values (keys reg)))))
         (\<lambda>_. returnM (reg\<lparr>keys := hm_retain (\<lambda>key. now < delete_after (meta key)) (keys reg)\<rparr>)))"

fun reaper_loop :: "('s, 'r, 'p) env \<Rightarrow> bool list \<Rightarrow> KeyRegistry \<Rightarrow>
    (Status, 'z machine_scheme, bool \<times> KeyRegistry) rust" where
  "reaper_loop E [] reg = returnM (False, reg)"
| "reaper_loop E (stop_signal # later) reg =
     (if stop_signal then returnM (True, reg)
      else bindM (reaper_sweep E reg) (reaper_loop E later))"

definition live_records :: "instant \<Rightarrow> KeyRegistry \<Rightarrow> KeyRecord list" where
  "live_records now reg = filter (\<lambda>rec. now < delete_after (meta rec)) (hm_values (keys reg))"

definition listing_key :: "KeyRecord \<Rightarrow> instant \<times> uuid" where
  "listing_key rec = (created_at (meta rec), meta_id (meta rec))"

definition list_all_keys :: "usize \<Rightarrow> usize \<Rightarrow> KeyRegistry \<Rightarrow>
    (Status, 'z machine_scheme, KeyMetadata list \<times> usize) rust" where
  "list_all_keys offset limit reg =
     (if poisoned reg then panicM
      else bindM Instant_now (\<lambda>now.
        let refs = live_records now reg;
            total_count = word_of_nat (length refs);
            sorted_refs = sort_key listing_key refs;
            page = map meta (take (unat limit) (drop (unat offset) sorted_refs))
        in returnM (page, total_count)))"

text \<open>The whole listing at an instant, of which \<open>list_all_keys\<close> returns a page.\<close>

definition live_sorted :: "instant \<Rightarrow> KeyRegistry \<Rightarrow> KeyRecord list" where
  "live_sorted now reg = sort_key listing_key (live_records now reg)"

section \<open>Record creation\<close>

definition get_private_key :: "KeyRecord \<Rightarrow> PrivateKey" where
  "get_private_key rec = PrivateKey_from (get_secret (private_key rec))"

definition create_key_internal :: "('s, 'r, 'p) env \<Rightarrow> HpkeAlgorithm \<Rightarrow> duration \<Rightarrow>
    (HpkeAlgorithm \<Rightarrow> PublicKey \<Rightarrow> KeySpec) \<Rightarrow> (Status, 'z machine_scheme, KeyRecord) rust" where
  "create_key_internal E algo expiry spec_builder =
     (if \<not> suite_supported E algo then errM UnsupportedAlgorithm
      else bindM (generate_keypair E DhkemX25519HkdfSha256) (\<lambda>(pub_key, priv_key).
        bindM draw (\<lambda>n.
        let handle = Uuid_new_v4 E n in
        bindM (map_errM (\<lambda>_. CryptoError) (Vault_new E (SecretBox_from priv_key))) (\<lambda>vault.
        bindM Instant_now (\<lambda>now.
        case Instant_checked_add now expiry of
          None \<Rightarrow> bindM (updateM (Vault_drop E vault)) (\<lambda>_. errM UnsupportedAlgorithm)
        | Some after \<Rightarrow>
            returnM \<lparr>meta = \<lparr>meta_id = handle, created_at = now, delete_after = after,
                              spec = spec_builder algo pub_key\<rparr>,
                     private_key = vault\<rparr>)))))"

definition create_binding_key :: "('s, 'r, 'p) env \<Rightarrow> HpkeAlgorithm \<Rightarrow> duration \<Rightarrow>
    (Status, 'z machine_scheme, KeyRecord) rust" where
  "create_binding_key E algo expiry = create_key_internal E algo expiry (\<lambda>a pk. Binding a pk)"

definition create_bound_kem_key :: "('s, 'r, 'p) env \<Rightarrow> HpkeAlgorithm \<Rightarrow> PublicKey \<Rightarrow> duration \<Rightarrow>
    (Status, 'z machine_scheme, KeyRecord) rust" where
  "create_bound_kem_key E algo binding_pub expiry =
     (case (binding_pub, KemAlgorithm_try_from E (kem algo)) of
        (X25519_public _, Some DhkemX25519HkdfSha256) \<Rightarrow>
          create_key_internal E algo expiry (\<lambda>a pk. KemWithBindingPub a pk binding_pub)
      | _ \<Rightarrow> errM InvalidKey)"

section \<open>Well-formed registries\<close>

definition lookup :: "KeyRegistry \<Rightarrow> KeyHandle \<Rightarrow> KeyRecord option" where
  "lookup reg handle = hm_get handle (keys reg)"

definition registry_wf :: "KeyRegistry \<Rightarrow> bool" where
  "registry_wf reg \<longleftrightarrow> \<not> poisoned reg \<and> hm_wf (keys reg)
     \<and> (\<forall>(handle, rec) \<in> set (keys reg). meta_id (meta rec) = handle)"

section \<open>Lemmas: dropping records\<close>

lemma drop_all_simps [simp]:
  "drop_all E [] m = m"
  "drop_all E (rec # recs) m = drop_all E recs (KeyRecord_drop E rec m)"
  by (simp_all add: drop_all_def)

lemma KeyRecord_drop_simps [simp]:
  "clock (KeyRecord_drop E rec m) = clock m"
  "ticks (KeyRecord_drop E rec m) = ticks m"
  "draws (KeyRecord_drop E rec m) = draws m"
  "syscalls (KeyRecord_drop E rec m) = syscalls m"
  "released (KeyRecord_drop E rec m) = released m @ [zeroize E (mmap (private_key rec))]"
  "machine.more (KeyRecord_drop E rec m) = machine.more m"
  by (simp_all add: KeyRecord_drop_def)

lemma drop_all_frame [simp]:
  "clock (drop_all E recs m) = clock m"
  "ticks (drop_all E recs m) = ticks m"
  "draws (drop_all E recs m) = draws m"
  "syscalls (drop_all E recs m) = syscalls m"
  "machine.more (drop_all E recs m) = machine.more m"
  by (induction recs arbitrary: m) simp_all

lemma released_drop_all [simp]:
  "released (drop_all E recs m) = released m @ map (\<lambda>rec. zeroize E (mmap (private_key rec))) recs"
  by (induction recs arbitrary: m) simp_all

section \<open>Lemmas: creating records\<close>

text \<open>
  \<open>create_key_internal\<close> step by step: the suite check, the vault, the expiry.
\<close>

lemma create_key_internal_eq:
  assumes "hpke_spec E" and "Kem_generate_keypair E X25519HkdfSha256_Kem (draws m) = (pk, sk)"
  shows "create_key_internal E algo expiry mk m =
     (if \<not> suite_supported E algo then (Err UnsupportedAlgorithm, m)
      else case Vault_new E (SecretBox sk) (m\<lparr>draws := Suc (Suc (draws m))\<rparr>) of
        (Ok vault, m2) \<Rightarrow>
          (case Instant_checked_add (clock m2 (ticks m2)) expiry of
             None \<Rightarrow> (Err UnsupportedAlgorithm, Vault_drop E vault (m2\<lparr>ticks := Suc (ticks m2)\<rparr>))
           | Some after \<Rightarrow>
              (Ok \<lparr>meta = \<lparr>meta_id = Uuid_new_v4 E (Suc (draws m)), created_at = clock m2 (ticks m2),
                   delete_after = after, spec = mk algo (X25519_public (X25519PublicKey pk))\<rparr>,
                   private_key = vault\<rparr>, m2\<lparr>ticks := Suc (ticks m2)\<rparr>))
      | (Err _, m2) \<Rightarrow> (Err CryptoError, m2)
      | (Panicked, m2) \<Rightarrow> (Panicked, m2)
      | (Undefined, m2) \<Rightarrow> (Undefined, m2))"
  by (simp add: create_key_internal_def bindM_def [of "generate_keypair E _"] Let_def
      generate_keypair_eq [OF assms] bindM_def [of "map_errM _ _"] map_errM_def basicM_defs
      split: outcome.splits prod.splits option.splits)

text \<open>The successful run: the fields of the record, and the state it leaves.\<close>

lemma create_key_internal_Ok:
  assumes "hpke_spec E" and "create_key_internal E algo expiry mk m = (Ok rec, m')"
  shows "suite_supported E algo"
    and "meta rec = \<lparr>meta_id = Uuid_new_v4 E (Suc (draws m)), created_at = clock m (ticks m),
       delete_after = clock m (ticks m) + expiry,
       spec = mk algo (X25519_public (X25519PublicKey
         (fst (Kem_generate_keypair E X25519HkdfSha256_Kem (draws m)))))\<rparr>"
    and "get_private_key rec
       = PrivateKey_from (SecretBox (snd (Kem_generate_keypair E X25519HkdfSha256_Kem (draws m))))"
    and "(clock m (ticks m) + expiry) div nanos_per_sec \<le> i64_max"
    and "ticks m' = Suc (ticks m)" and "clock m' = clock m" and "draws m' = draws m + 2"
    and "released m' = released m" and "machine.more m' = machine.more m"
proof -
  obtain pk sk where kp: "Kem_generate_keypair E X25519HkdfSha256_Kem (draws m) = (pk, sk)"
    by fastforce
  show supp: "suite_supported E algo"
    using assms(2) by (auto simp: create_key_internal_eq [OF assms(1) kp] split: if_splits)
  let ?m1 = "m\<lparr>draws := Suc (Suc (draws m))\<rparr>"
  obtain v m2 where v: "Vault_new E (SecretBox sk) ?m1 = (Ok v, m2)"
    and fits: "Instant_checked_add (clock m2 (ticks m2)) expiry
        = Some (clock m2 (ticks m2) + expiry)"
    and rec: "rec = \<lparr>meta = \<lparr>meta_id = Uuid_new_v4 E (Suc (draws m)), created_at = clock m2 (ticks m2),
         delete_after = clock m2 (ticks m2) + expiry,
         spec = mk algo (X25519_public (X25519PublicKey pk))\<rparr>, private_key = v\<rparr>"
    and m': "m' = m2\<lparr>ticks := Suc (ticks m2)\<rparr>"
    using assms(2) supp by (auto simp: create_key_internal_eq [OF assms(1) kp]
        split: option.splits outcome.splits prod.splits dest: Instant_checked_add_Some)
  have frame: "clock m2 = clock m" "ticks m2 = ticks m" "draws m2 = Suc (Suc (draws m))"
    "released m2 = released m" "machine.more m2 = machine.more m"
    using Vault_new_frame [of E "SecretBox sk" ?m1] v by simp_all
  show "(clock m (ticks m) + expiry) div nanos_per_sec \<le> i64_max"
    using fits frame by (simp add: Instant_checked_add_def split: if_splits)
  show "meta rec = \<lparr>meta_id = Uuid_new_v4 E (Suc (draws m)), created_at = clock m (ticks m),
       delete_after = clock m (ticks m) + expiry,
       spec = mk algo (X25519_public (X25519PublicKey
         (fst (Kem_generate_keypair E X25519HkdfSha256_Kem (draws m)))))\<rparr>"
    using rec frame kp by simp
  show "get_private_key rec
       = PrivateKey_from (SecretBox (snd (Kem_generate_keypair E X25519HkdfSha256_Kem (draws m))))"
    using rec kp get_secret_Vault_new [OF v] by (simp add: get_private_key_def)
  show "ticks m' = Suc (ticks m)" "clock m' = clock m" "draws m' = draws m + 2"
    "released m' = released m" "machine.more m' = machine.more m"
    using m' frame by simp_all
qed

lemma create_key_internal_total:
  assumes "hpke_spec E" and "secretmem_spec E" and "suite_supported E algo"
    and "vault_granted E (syscalls m) 32"
    and "(clock m (ticks m) + expiry) div nanos_per_sec \<le> i64_max"
  shows "\<exists>rec m'. create_key_internal E algo expiry mk m = (Ok rec, m') \<and> syscalls m' = syscalls m + 3"
proof -
  obtain pk sk where kp: "Kem_generate_keypair E X25519HkdfSha256_Kem (draws m) = (pk, sk)"
    by fastforce
  then have "length sk = 32"
    using length_keypair_private [OF assms(1), of X25519HkdfSha256_Kem "draws m"] by simp
  then show ?thesis
    using assms(3-5) Vault_new_total [OF assms(2), of "m\<lparr>draws := Suc (Suc (draws m))\<rparr>" "SecretBox sk"]
    by (simp add: create_key_internal_eq [OF assms(1) kp] Instant_checked_add_def)
qed

text \<open>
  On every path: the errors, the part of the state behind the extension record, the clock, and what
  is released. A vault that was made and could not be used is zeroized.
\<close>

lemma create_key_internal_always:
  assumes "hpke_spec E" and "create_key_internal E algo expiry mk m = (r, m')"
  shows "r = Err e \<Longrightarrow> e \<in> {UnsupportedAlgorithm, CryptoError}"
    and "clock m' = clock m" and "machine.more m' = machine.more m"
    and "\<exists>zs. released m' = released m @ map (zeroize E) zs"
    and "r \<noteq> Undefined" and "secretmem_spec E \<Longrightarrow> r \<noteq> Panicked"
proof -
  obtain pk sk where kp: "Kem_generate_keypair E X25519HkdfSha256_Kem (draws m) = (pk, sk)"
    by fastforce
  let ?m1 = "m\<lparr>draws := Suc (Suc (draws m))\<rparr>"
  obtain v m2 where v: "Vault_new E (SecretBox sk) ?m1 = (v, m2)"
    by fastforce
  have frame: "clock m2 = clock m" "released m2 = released m" "machine.more m2 = machine.more m"
    using Vault_new_frame [of E "SecretBox sk" ?m1] v by simp_all
  have nu: "v \<noteq> Undefined" "secretmem_spec E \<Longrightarrow> v \<noteq> Panicked"
    using Vault_new_never_undefined [of E "SecretBox sk" ?m1]
      Vault_new_no_panic [of E "SecretBox sk" ?m1] v by auto
  note eq = assms(2) [unfolded create_key_internal_eq [OF assms(1) kp] v prod.case]
  show "r = Err e \<Longrightarrow> e \<in> {UnsupportedAlgorithm, CryptoError}"
    using eq by (auto split: if_splits outcome.splits option.splits)
  show "clock m' = clock m" "machine.more m' = machine.more m"
    using eq frame by (auto split: if_splits outcome.splits option.splits)
  show "\<exists>zs. released m' = released m @ map (zeroize E) zs"
    using eq frame by (auto split: if_splits outcome.splits option.splits
        intro: exI [of _ "[]"] exI [of _ "[mmap (ok_value v)]"])
  show "r \<noteq> Undefined" "secretmem_spec E \<Longrightarrow> r \<noteq> Panicked"
    using eq nu by (auto split: if_splits outcome.splits option.splits)
qed

lemma create_bound_kem_key_cases:
  "create_bound_kem_key E algo binding_pub expiry =
     (if KemAlgorithm_try_from E (kem algo) = Some DhkemX25519HkdfSha256
      then create_key_internal E algo expiry (\<lambda>a pk. KemWithBindingPub a pk binding_pub)
      else errM InvalidKey)"
  by (cases binding_pub) (auto simp: create_bound_kem_key_def split: option.splits KemAlgorithm.splits)

lemma suite_supported_kem:
  "suite_supported E algo \<Longrightarrow> KemAlgorithm_try_from E (kem algo) = Some DhkemX25519HkdfSha256"
  by (simp add: suite_supported_def)

section \<open>The contract of the registry\<close>

definition unexpired :: "instant \<Rightarrow> KeyRecord option \<Rightarrow> KeyRecord option" where
  "unexpired now r =
     (case r of None \<Rightarrow> None | Some rec \<Rightarrow> if now < delete_after (meta rec) then Some rec else None)"

lemma unexpired_simps [simp]:
  "unexpired now None = None"
  "now < delete_after (meta rec) \<Longrightarrow> unexpired now (Some rec) = Some rec"
  "\<not> now < delete_after (meta rec) \<Longrightarrow> unexpired now (Some rec) = None"
  by (simp_all add: unexpired_def)

lemma unexpired_eq_Some:
  "unexpired now r = Some rec \<longleftrightarrow> r = Some rec \<and> now < delete_after (meta rec)"
  by (auto simp: unexpired_def split: option.splits)

lemma unexpired_later: "t \<le> u \<Longrightarrow> unexpired u (unexpired t r) = unexpired u r"
  by (auto simp: unexpired_def split: option.splits)

locale registry_contract =
  fixes add :: "KeyRecord \<Rightarrow> 'reg \<Rightarrow> ('e, 's, 'reg) rust"
    and remove :: "KeyHandle \<Rightarrow> 'reg \<Rightarrow> ('e, 's, KeyRecord option \<times> 'reg) rust"
    and clear :: "'reg \<Rightarrow> ('e, 's, 'reg) rust"
    and find :: "KeyHandle \<Rightarrow> 'reg \<Rightarrow> ('e, 's, KeyRecord option) rust"
    and sweep :: "'reg \<Rightarrow> ('e, 's, 'reg) rust"
    and content :: "'reg \<Rightarrow> KeyHandle \<Rightarrow> KeyRecord option"
    and now :: "'s \<Rightarrow> instant"
    and wf :: "'reg \<Rightarrow> bool"
  assumes add_spec: "wf reg \<Longrightarrow> \<exists>reg' s'. add rec reg s = (Ok reg', s') \<and> wf reg'
        \<and> content reg' = (content reg)(meta_id (meta rec) \<mapsto> rec)"
    and remove_spec: "wf reg \<Longrightarrow> \<exists>reg' s'. remove h reg s = (Ok (content reg h, reg'), s') \<and> wf reg'
        \<and> content reg' = (content reg)(h := None)"
    and clear_spec: "wf reg \<Longrightarrow> \<exists>reg' s'. clear reg s = (Ok reg', s') \<and> wf reg'
        \<and> content reg' = Map.empty"
    and find_spec: "wf reg \<Longrightarrow> fst (find h reg s) = Ok (unexpired (now s) (content reg h))"
    and sweep_spec: "wf reg \<Longrightarrow> \<exists>reg' s'. sweep reg s = (Ok reg', s') \<and> wf reg'
        \<and> content reg' = (\<lambda>h. unexpired (now s) (content reg h))"
    and content_id: "wf reg \<Longrightarrow> content reg h = Some rec \<Longrightarrow> meta_id (meta rec) = h"
begin

lemma add_Ok: "wf reg \<Longrightarrow> add rec reg s = (Ok reg', s') \<Longrightarrow>
    wf reg' \<and> content reg' = (content reg)(meta_id (meta rec) \<mapsto> rec)"
  using add_spec [of reg rec s] by auto

lemma remove_Ok: "wf reg \<Longrightarrow> remove h reg s = (Ok (old, reg'), s') \<Longrightarrow>
    old = content reg h \<and> wf reg' \<and> content reg' = (content reg)(h := None)"
  using remove_spec [of reg h s] by auto

lemma sweep_Ok: "wf reg \<Longrightarrow> sweep reg s = (Ok reg', s') \<Longrightarrow>
    wf reg' \<and> content reg' = (\<lambda>h. unexpired (now s) (content reg h))"
  using sweep_spec [of reg s] by auto

lemma find_after_add:
  "wf reg \<Longrightarrow> add rec reg s = (Ok reg', s') \<Longrightarrow>
   fst (find h reg' t) = Ok (unexpired (now t)
     (if h = meta_id (meta rec) then Some rec else content reg h))"
  using add_Ok [of reg rec s reg' s'] by (auto simp: find_spec)

lemma find_after_remove:
  "wf reg \<Longrightarrow> remove h reg s = (Ok (old, reg'), s') \<Longrightarrow>
   fst (find j reg' t) = (if j = h then Ok None else fst (find j reg t))"
  using remove_Ok [of reg h s old reg' s'] by (auto simp: find_spec)

lemma remove_twice:
  "wf reg \<Longrightarrow> remove h reg s = (Ok (old, reg'), s') \<Longrightarrow> \<exists>reg'' s''. remove h reg' t = (Ok (None, reg''), s'')"
  using remove_Ok [of reg h s old reg' s'] remove_spec [of reg' h t] by auto

text \<open>Sweeping is invisible to a reader whose clock is not behind the sweeper's.\<close>

lemma find_after_sweep:
  assumes "wf reg" and "sweep reg s = (Ok reg', s')" and "now s \<le> now t"
  shows "fst (find h reg' t) = fst (find h reg t)"
  using sweep_Ok [OF assms(1,2)] assms by (simp add: find_spec unexpired_later)

lemma sweep_removes_expired:
  assumes "wf reg" and "sweep reg s = (Ok reg', s')"
  shows "content reg' h = Some rec \<longleftrightarrow> content reg h = Some rec \<and> now s < delete_after (meta rec)"
  using sweep_Ok [OF assms] by (simp add: unexpired_eq_Some)

end

lemma registry_wf_default: "registry_wf KeyRegistry_default"
  by (simp add: registry_wf_def KeyRegistry_default_def hm.wf_empty)

lemma registry_wf_add_keys:
  "registry_wf reg \<Longrightarrow> registry_wf (reg\<lparr>keys := snd (hm_insert (meta_id (meta rec)) rec (keys reg))\<rparr>)"
  by (auto simp: registry_wf_def hm.wf_insert hm_insert_def hm_wf_def distinct_map_fst_filter)

lemma registry_wf_filter:
  "registry_wf reg \<Longrightarrow> registry_wf (reg\<lparr>keys := filter p (keys reg)\<rparr>)"
  by (auto simp: registry_wf_def hm_wf_def distinct_map_fst_filter)

interpretation reg: registry_contract "add_key E" remove_key "remove_all_keys E" get_key
    "reaper_sweep E" lookup "\<lambda>m :: 'z machine_scheme. clock m (ticks m)" registry_wf
  for E :: "('s, 'r, 'p) env"
proof
  fix reg :: KeyRegistry and rec h and s :: "'z machine_scheme"
  assume wf: "registry_wf reg"
  then have p: "\<not> poisoned reg" and hm: "hm_wf (keys reg)"
    by (simp_all add: registry_wf_def)
  show "\<exists>reg' s'. add_key E rec reg s = (Ok reg', s') \<and> registry_wf reg'
      \<and> lookup reg' = (lookup reg)(meta_id (meta rec) \<mapsto> rec)"
    using p registry_wf_add_keys [OF wf, of rec] hm.get_insert [OF hm, of _ "meta_id (meta rec)" rec]
    by (auto simp: add_key_def basicM_defs lookup_def fun_eq_iff split: prod.splits)
  show "\<exists>reg' s'. remove_key h reg s = (Ok (lookup reg h, reg'), s') \<and> registry_wf reg'
      \<and> lookup reg' = (lookup reg)(h := None)"
    using p registry_wf_filter [OF wf] hm.get_remove [OF hm, of _ h]
    by (auto simp: remove_key_def basicM_defs lookup_def fun_eq_iff hm_remove_def hm_get_def)
  show "\<exists>reg' s'. remove_all_keys E reg s = (Ok reg', s') \<and> registry_wf reg' \<and> lookup reg' = Map.empty"
    using p by (auto simp: remove_all_keys_def basicM_defs lookup_def registry_wf_def hm.wf_empty
        hm.get_empty)
  show "fst (get_key h reg s) = Ok (unexpired (clock s (ticks s)) (lookup reg h))"
    using p by (auto simp: get_key_def basicM_defs lookup_def unexpired_def split: option.splits)
  show "\<exists>reg' s'. reaper_sweep E reg s = (Ok reg', s') \<and> registry_wf reg'
      \<and> lookup reg' = (\<lambda>h. unexpired (clock s (ticks s)) (lookup reg h))"
    using p registry_wf_filter [OF wf] hm.get_retain [OF hm]
    by (auto simp: reaper_sweep_def basicM_defs lookup_def fun_eq_iff hm_retain_def unexpired_def)
  show "meta_id (meta rec) = h" if "lookup reg h = Some rec"
    using wf that by (auto simp: registry_wf_def lookup_def hm_get_def dest: map_of_SomeD)
qed

section \<open>Lemmas: listing\<close>

lemma map_of_keys_iff:
  "registry_wf reg \<Longrightarrow> lookup reg h = Some rec \<longleftrightarrow> (h, rec) \<in> set (keys reg)"
  by (simp add: registry_wf_def hm_wf_def lookup_def hm_get_def)

lemma set_live_records:
  assumes "registry_wf reg"
  shows "set (live_records now reg) = {rec. \<exists>h. unexpired now (lookup reg h) = Some rec}"
  by (force simp: live_records_def hm_values_def unexpired_eq_Some map_of_keys_iff [OF assms])

lemma distinct_live_records:
  assumes "registry_wf reg"
  shows "distinct (live_records now reg)"
proof -
  have "fst x = meta_id (meta (snd x))" if "x \<in> set (keys reg)" for x
    using assms that by (auto simp: registry_wf_def)
  then have "inj_on snd (set (keys reg))"
    by (metis inj_onI prod.expand)
  moreover have "distinct (keys reg)"
    using assms by (auto simp: registry_wf_def hm_wf_def distinct_map)
  ultimately show ?thesis
    by (simp add: live_records_def hm_values_def distinct_map)
qed

lemma inj_listing_key:
  assumes "registry_wf reg"
  shows "inj_on listing_key (set (live_records now reg))"
proof (rule inj_onI)
  fix a b
  assume "a \<in> set (live_records now reg)" "b \<in> set (live_records now reg)"
    and key: "listing_key a = listing_key b"
  then obtain h k where "lookup reg h = Some a" "lookup reg k = Some b"
    by (auto simp: set_live_records [OF assms] unexpired_eq_Some)
  moreover from this have "h = k"
    using key assms reg.content_id by (fastforce simp: listing_key_def)
  ultimately show "a = b" by simp
qed

lemma live_sorted_props:
  assumes "registry_wf reg"
  shows "sorted (map listing_key (live_sorted now reg))" "distinct (live_sorted now reg)"
    "set (live_sorted now reg) = {rec. \<exists>h. unexpired now (lookup reg h) = Some rec}"
  using assms by (simp_all add: live_sorted_def distinct_live_records set_live_records)

text \<open>
  The listing is a function of the map's contents: the unspecified iteration order of the hash map
  does not show.
\<close>

lemma live_sorted_unique:
  assumes "registry_wf reg" and "registry_wf reg'" and "lookup reg = lookup reg'"
  shows "live_sorted now reg = live_sorted now reg'"
proof -
  have "set (live_records now reg) = set (live_records now reg')"
    using assms by (simp add: set_live_records)
  then have "mset (live_records now reg) = mset (live_records now reg')"
    using assms by (simp add: set_eq_iff_mset_eq_distinct [symmetric] distinct_live_records)
  then show ?thesis
    unfolding live_sorted_def
    by (intro sort_key_inj_key_eq inj_listing_key assms) simp_all
qed

lemma list_all_keys_eq:
  "registry_wf reg \<Longrightarrow> list_all_keys offset limit reg m =
     (Ok (map meta (take (unat limit) (drop (unat offset) (live_sorted (clock m (ticks m)) reg))),
          word_of_nat (length (live_sorted (clock m (ticks m)) reg))),
      m\<lparr>ticks := Suc (ticks m)\<rparr>)"
  by (simp add: list_all_keys_def registry_wf_def Let_def live_sorted_def returnM_def)

text \<open>
  \<^verbatim>\<open>offset + count < total_count\<close> on \<^verbatim>\<open>usize\<close>: the sum never wraps around, because an offset
  past the end makes the page empty.
\<close>

lemma has_more_exact:
  fixes offset :: usize
  assumes "length xs < 2 ^ 64" and "cnt = length (take n (drop (unat offset) xs))"
  shows "offset + word_of_nat cnt < word_of_nat (length xs) \<longleftrightarrow> unat offset + cnt < length xs"
proof -
  have total: "unat (word_of_nat (length xs) :: usize) = length xs"
    using assms(1) by (simp add: unat_of_nat take_bit_nat_eq_self)
  have "unat (offset + word_of_nat cnt) = unat offset + cnt"
  proof (cases "unat offset \<le> length xs")
    case True
    then have "unat offset + cnt < 2 ^ 64"
      using assms by simp
    then show ?thesis
      by (simp add: unat_word_ariths unat_of_nat take_bit_nat_def)
  next
    case False
    then show ?thesis
      using assms(2) by simp
  qed
  then show ?thesis
    by (simp add: word_less_nat_alt total)
qed

end
