(* ===== verification/Registry_History.thy ===== *)
theory Registry_History
  imports Key_Types
begin

text \<open>
  Histories of the registry. A history is a list of operations, those of the clients and the
  wake-ups of the reaper interleaved in any order. Its specification is a map that no reaper touches:
  the reaper and the expiry check of \<^verbatim>\<open>get_key\<close> together are that map read with a deadline.

  The locale \<open>registry_clock\<close> adds a clock that does not run backwards to \<open>registry_contract\<close>.
\<close>

section \<open>Histories\<close>

datatype registry_op =
    OpAdd KeyRecord
  | OpRemove KeyHandle
  | OpClear
  | OpFind KeyHandle
  | OpSweep

text \<open>One operation; what a caller removes or finds is dropped at the end of the call.\<close>

fun registry_step :: "('s, 'r, 'p) env \<Rightarrow> registry_op \<Rightarrow> KeyRegistry \<Rightarrow>
    (Status, 'z machine_scheme, KeyRegistry) rust" where
  "registry_step E (OpAdd rec) reg = add_key E rec reg"
| "registry_step E (OpRemove h) reg =
     bindM (remove_key h reg) (\<lambda>(old, reg').
     bindM (updateM (drop_all E (case old of None \<Rightarrow> [] | Some rec \<Rightarrow> [rec]))) (\<lambda>_. returnM reg'))"
| "registry_step E OpClear reg = remove_all_keys E reg"
| "registry_step E (OpFind h) reg = bindM (get_key h reg) (\<lambda>_. returnM reg)"
| "registry_step E OpSweep reg = reaper_sweep E reg"

fun registry_run :: "('s, 'r, 'p) env \<Rightarrow> registry_op list \<Rightarrow> KeyRegistry \<Rightarrow>
    (Status, 'z machine_scheme, KeyRegistry) rust" where
  "registry_run E [] reg = returnM reg"
| "registry_run E (op # ops) reg = bindM (registry_step E op reg) (registry_run E ops)"

fun map_step :: "registry_op \<Rightarrow> (KeyHandle \<Rightarrow> KeyRecord option) \<Rightarrow> KeyHandle \<Rightarrow> KeyRecord option" where
  "map_step (OpAdd rec) M = M(meta_id (meta rec) \<mapsto> rec)"
| "map_step (OpRemove h) M = M(h := None)"
| "map_step OpClear M = Map.empty"
| "map_step (OpFind h) M = M"
| "map_step OpSweep M = M"

definition map_run :: "registry_op list \<Rightarrow> KeyHandle \<Rightarrow> KeyRecord option" where
  "map_run ops = fold map_step ops Map.empty"

text \<open>Two maps that no reader can tell apart from an instant on.\<close>

definition agree_from :: "instant \<Rightarrow> (KeyHandle \<Rightarrow> KeyRecord option) \<Rightarrow> (KeyHandle \<Rightarrow> KeyRecord option) \<Rightarrow> bool" where
  "agree_from t M N \<longleftrightarrow> (\<forall>u h. t \<le> u \<longrightarrow> unexpired u (M h) = unexpired u (N h))"

lemma agree_from_refl: "agree_from t M M"
  by (simp add: agree_from_def)

lemma agree_from_later: "agree_from t M N \<Longrightarrow> t \<le> u \<Longrightarrow> agree_from u M N"
  by (auto simp: agree_from_def)

lemma agree_from_upd: "agree_from t M N \<Longrightarrow> agree_from t (M(h := r)) (N(h := r))"
  by (simp add: agree_from_def)

lemma agree_from_sweep: "agree_from t M N \<Longrightarrow> agree_from t (\<lambda>h. unexpired t (M h)) N"
  by (simp add: agree_from_def unexpired_later)

section \<open>A registry with a clock\<close>

locale registry_clock = registry_contract add remove clear find sweep content now wf
  for add :: "KeyRecord \<Rightarrow> 'reg \<Rightarrow> ('e, 's, 'reg) rust"
    and remove :: "KeyHandle \<Rightarrow> 'reg \<Rightarrow> ('e, 's, KeyRecord option \<times> 'reg) rust"
    and clear :: "'reg \<Rightarrow> ('e, 's, 'reg) rust"
    and find :: "KeyHandle \<Rightarrow> 'reg \<Rightarrow> ('e, 's, KeyRecord option) rust"
    and sweep :: "'reg \<Rightarrow> ('e, 's, 'reg) rust"
    and content :: "'reg \<Rightarrow> KeyHandle \<Rightarrow> KeyRecord option"
    and now :: "'s \<Rightarrow> instant" and wf :: "'reg \<Rightarrow> bool" +
  fixes steady :: "'s \<Rightarrow> bool"
  assumes steady_add: "steady s \<Longrightarrow> add rec reg s = (r1, s') \<Longrightarrow> steady s' \<and> now s \<le> now s'"
    and steady_remove: "steady s \<Longrightarrow> remove h reg s = (r2, s') \<Longrightarrow> steady s' \<and> now s \<le> now s'"
    and steady_clear: "steady s \<Longrightarrow> clear reg s = (r3, s') \<Longrightarrow> steady s' \<and> now s \<le> now s'"
    and steady_find: "steady s \<Longrightarrow> find h reg s = (r4, s') \<Longrightarrow> steady s' \<and> now s \<le> now s'"
    and steady_sweep: "steady s \<Longrightarrow> sweep reg s = (r5, s') \<Longrightarrow> steady s' \<and> now s \<le> now s'"
begin

text \<open>The simulation: the registry stands for the map from its state's time on.\<close>

definition stands_for :: "'reg \<Rightarrow> 's \<Rightarrow> (KeyHandle \<Rightarrow> KeyRecord option) \<Rightarrow> bool" where
  "stands_for reg s M \<longleftrightarrow> wf reg \<and> steady s \<and> agree_from (now s) (content reg) M"

lemma find_stands_for:
  "stands_for reg s M \<Longrightarrow> fst (find h reg s) = Ok (unexpired (now s) (M h))"
  by (simp add: stands_for_def find_spec agree_from_def)

lemma sim_add:
  assumes "stands_for reg s M"
  shows "\<exists>reg' s'. add rec reg s = (Ok reg', s') \<and> stands_for reg' s' (M(meta_id (meta rec) \<mapsto> rec))"
  using assms add_spec [of reg rec s] steady_add [of s rec reg] agree_from_later agree_from_upd
  unfolding stands_for_def by (metis (no_types, lifting))

lemma sim_remove:
  assumes "stands_for reg s M"
  shows "\<exists>old reg' s'. remove h reg s = (Ok (old, reg'), s') \<and> stands_for reg' s' (M(h := None))"
  using assms remove_spec [of reg h s] steady_remove [of s h reg] agree_from_later agree_from_upd
  unfolding stands_for_def by (metis (no_types, lifting))

lemma sim_clear:
  assumes "stands_for reg s M"
  shows "\<exists>reg' s'. clear reg s = (Ok reg', s') \<and> stands_for reg' s' Map.empty"
  using assms clear_spec [of reg s] steady_clear [of s reg] agree_from_refl
  unfolding stands_for_def by (metis (no_types, lifting))

lemma sim_find:
  assumes "stands_for reg s M"
  shows "\<exists>r s'. find h reg s = (Ok r, s') \<and> stands_for reg s' M"
proof -
  obtain r s' where f: "find h reg s = (r, s')" by fastforce
  then show ?thesis
    using assms find_spec [of reg h s] steady_find [OF _ f] agree_from_later
    unfolding stands_for_def by auto
qed

lemma sim_sweep:
  assumes "stands_for reg s M"
  shows "\<exists>reg' s'. sweep reg s = (Ok reg', s') \<and> stands_for reg' s' M"
proof -
  obtain reg' s' where "sweep reg s = (Ok reg', s')" and "wf reg'"
    and "content reg' = (\<lambda>h. unexpired (now s) (content reg h))"
    using assms sweep_spec [of reg s] unfolding stands_for_def by blast
  then show ?thesis
    using assms steady_sweep [of s reg] agree_from_sweep [of "now s" "content reg" M] agree_from_later
    unfolding stands_for_def by auto
qed

end

lemma clock_later:
  assumes "mono (clock m)" and "clock m' = clock m" and "ticks m \<le> ticks m'"
  shows "mono (clock m') \<and> clock m (ticks m) \<le> clock m' (ticks m')"
  using assms by (simp add: monoD)

interpretation hist: registry_clock "add_key E" remove_key "remove_all_keys E" get_key "reaper_sweep E"
    lookup "\<lambda>m :: 'z machine_scheme. clock m (ticks m)" registry_wf "\<lambda>m. mono (clock m)"
  for E :: "('s, 'r, 'p) env"
proof unfold_locales
  fix s s' :: "'z machine_scheme" and rec reg h
  assume mono: "mono (clock s)"
  show "mono (clock s') \<and> clock s (ticks s) \<le> clock s' (ticks s')" if "add_key E rec reg s = (r1, s')" for r1
    using that by (intro clock_later [OF mono]) (auto simp: add_key_def unwindM_def basicM_defs
        split: if_splits prod.splits)
  show "mono (clock s') \<and> clock s (ticks s) \<le> clock s' (ticks s')" if "remove_key h reg s = (r2, s')" for r2
    using that by (intro clock_later [OF mono]) (auto simp: remove_key_def basicM_defs
        split: if_splits prod.splits)
  show "mono (clock s') \<and> clock s (ticks s) \<le> clock s' (ticks s')" if "remove_all_keys E reg s = (r3, s')" for r3
    using that by (intro clock_later [OF mono]) (auto simp: remove_all_keys_def basicM_defs split: if_splits)
  show "mono (clock s') \<and> clock s (ticks s) \<le> clock s' (ticks s')" if "get_key h reg s = (r4, s')" for r4
    using that by (intro clock_later [OF mono]) (auto simp: get_key_def basicM_defs
        split: if_splits option.splits)
  show "mono (clock s') \<and> clock s (ticks s) \<le> clock s' (ticks s')" if "reaper_sweep E reg s = (r5, s')" for r5
    using that by (intro clock_later [OF mono]) (auto simp: reaper_sweep_def basicM_defs split: if_splits)
qed

lemma registry_step_simulates:
  assumes "hist.stands_for reg m M"
  shows "\<exists>reg' m'. registry_step E op reg m = (Ok reg', m') \<and> hist.stands_for reg' m' (map_step op M)"
proof (cases op)
  case (OpRemove h)
  obtain old reg' m' where "remove_key h reg m = (Ok (old, reg'), m')"
    and "hist.stands_for reg' m' (M(h := None))"
    using hist.sim_remove [OF assms] by blast
  then show ?thesis
    using OpRemove by (simp add: bindM_def returnM_def updateM_def hist.stands_for_def)
next
  case (OpFind h)
  then show ?thesis
    using hist.sim_find [OF assms, of h] by (auto simp: bindM_def returnM_def)
qed (use hist.sim_add [OF assms, of E] hist.sim_clear [OF assms, of E]
      hist.sim_sweep [OF assms, of E] in auto)

lemma registry_run_simulates:
  assumes "hist.stands_for reg m M"
  shows "\<exists>reg' m'. registry_run E ops reg m = (Ok reg', m') \<and> hist.stands_for reg' m' (fold map_step ops M)"
  using assms
proof (induction ops arbitrary: reg m M)
  case Nil
  then show ?case by (simp add: returnM_def)
next
  case (Cons op ops)
  obtain reg' m' where "registry_step E op reg m = (Ok reg', m')"
    and "hist.stands_for reg' m' (map_step op M)"
    using registry_step_simulates [OF Cons.prems] by blast
  then show ?case
    using Cons.IH by (simp add: bindM_def)
qed

end
