(* ===== verification/Ffi.thy ===== *)
theory Ffi
  imports Key_Types
begin

text \<open>
  The boundary the two custody cores share: \<^verbatim>\<open>km_common/src/lib.rs\<close> (\<^verbatim>\<open>ffi_call\<close> and
  \<^verbatim>\<open>ffi_call_i32\<close>), the lazily created static registry of each core, and the caller's memory.

  \<^item> A raw pointer is a number, 0 is null. The caller's memory maps a pointer to the object it
    points to: a byte buffer, a cell, or an array of key descriptions. Making a slice that is not
    inside such an object is undefined behaviour (\<open>Undefined\<close>).
  \<^item> \<open>KEY_REGISTRY\<close> is created on first use. Its initialiser spawns the reaper thread; if that
    panics, the \<^verbatim>\<open>LazyLock\<close> is poisoned and every later use panics.
  \<^item> The world of a core extends the \<open>machine\<close> with the static registry, the telemetry statics,
    the events handed to \<^verbatim>\<open>tracing\<close> and the caller's memory.

  The locales \<open>ffi_entry\<close> and \<open>ffi_entry_i32\<close> state what an entry point promises; every entry
  point of the two cores is an instance.
\<close>

section \<open>World\<close>

definition MAX_ALGORITHM_LEN :: nat where
  "MAX_ALGORITHM_LEN = 128"

definition MAX_PUBLIC_KEY_LEN :: nat where
  "MAX_PUBLIC_KEY_LEN = 2048"

datatype lazy_registry = Uninit | Ready KeyRegistry | LazyPoisoned

record custody = machine +
  KEY_REGISTRY :: lazy_registry

type_synonym ptr = nat

datatype 'e obj =
    Bytes bytes
  | UsizeCell usize
  | U64Cell u64
  | BoolCell bool
  | Entries "'e list"

record 'e world = custody +
  TELEMETRY :: telemetry
  events :: "tracing_event list"
  mem :: "ptr \<Rightarrow> 'e obj option"

section \<open>The static registry\<close>

definition force_registry :: "('s, 'r, 'p) env \<Rightarrow> (Status, 'z custody_scheme, KeyRegistry) rust" where
  "force_registry E w =
     (case KEY_REGISTRY w of
        Ready reg \<Rightarrow> returnM reg w
      | LazyPoisoned \<Rightarrow> panicM w
      | Uninit \<Rightarrow>
          bindM syscall (\<lambda>i.
            if sys_thread_spawn E i
            then bindM (updateM (KEY_REGISTRY_update (\<lambda>_. Ready KeyRegistry_default)))
                   (\<lambda>_. returnM KeyRegistry_default)
            else bindM (updateM (KEY_REGISTRY_update (\<lambda>_. LazyPoisoned))) (\<lambda>_. panicM)) w)"

definition static_add_key :: "('s, 'r, 'p) env \<Rightarrow> KeyRecord \<Rightarrow> (Status, 'z custody_scheme, unit) rust" where
  "static_add_key E rec =
     bindM (unwindM (KeyRecord_drop E rec) (force_registry E)) (\<lambda>reg.
     bindM (add_key E rec reg) (\<lambda>reg'. updateM (KEY_REGISTRY_update (\<lambda>_. Ready reg'))))"

definition static_remove_key :: "('s, 'r, 'p) env \<Rightarrow> KeyHandle \<Rightarrow>
    (Status, 'z custody_scheme, KeyRecord option) rust" where
  "static_remove_key E handle =
     bindM (force_registry E) (\<lambda>reg.
     bindM (remove_key handle reg) (\<lambda>(old, reg').
     bindM (updateM (KEY_REGISTRY_update (\<lambda>_. Ready reg'))) (\<lambda>_. returnM old)))"

definition static_remove_all_keys :: "('s, 'r, 'p) env \<Rightarrow> (Status, 'z custody_scheme, unit) rust" where
  "static_remove_all_keys E =
     bindM (force_registry E) (\<lambda>reg.
     bindM (remove_all_keys E reg) (\<lambda>reg'. updateM (KEY_REGISTRY_update (\<lambda>_. Ready reg'))))"

definition static_get_key :: "('s, 'r, 'p) env \<Rightarrow> KeyHandle \<Rightarrow>
    (Status, 'z custody_scheme, KeyRecord option) rust" where
  "static_get_key E handle = bindM (force_registry E) (get_key handle)"

definition static_list_all_keys :: "('s, 'r, 'p) env \<Rightarrow> usize \<Rightarrow> usize \<Rightarrow>
    (Status, 'z custody_scheme, KeyMetadata list \<times> usize) rust" where
  "static_list_all_keys E offset limit = bindM (force_registry E) (list_all_keys offset limit)"

text \<open>
  One wake-up of the reaper thread on the static registry, with the stop signal the initialiser
  passes: a flag that nothing ever sets.
\<close>

definition static_reaper_wakeup :: "('s, 'r, 'p) env \<Rightarrow> 'z custody_scheme \<Rightarrow> 'z custody_scheme" where
  "static_reaper_wakeup E w =
     (case KEY_REGISTRY w of
        Ready reg \<Rightarrow>
          (case reaper_loop E [False] reg w of
             (Ok (_, reg'), w') \<Rightarrow> w'\<lparr>KEY_REGISTRY := Ready reg'\<rparr>
           | (_, w') \<Rightarrow> w')
      | _ \<Rightarrow> w)"

section \<open>Memory\<close>

definition is_null :: "ptr \<Rightarrow> bool" where
  "is_null p \<longleftrightarrow> p = 0"

definition from_raw_parts :: "ptr \<Rightarrow> usize \<Rightarrow> (Status, 'e world, bytes) rust" where
  "from_raw_parts p len w =
     (if len = 0 then (Ok [], w)
      else case mem w p of
          Some (Bytes bs) \<Rightarrow> if unat len \<le> length bs then (Ok (take (unat len) bs), w) else (Undefined, w)
        | _ \<Rightarrow> (Undefined, w))"

text \<open>A mutable slice is its pointer and length; the bytes stay in memory.\<close>

datatype slice_mut = SliceMut (slice_ptr: ptr) (slice_len: nat)

definition from_raw_parts_mut :: "ptr \<Rightarrow> usize \<Rightarrow> (Status, 'e world, slice_mut) rust" where
  "from_raw_parts_mut p len =
     bindM (from_raw_parts p len) (\<lambda>_. returnM (SliceMut p (unat len)))"

definition write_bytes :: "ptr \<Rightarrow> bytes \<Rightarrow> 'e world \<Rightarrow> 'e world" where
  "write_bytes p src w =
     (case mem w p of
        Some (Bytes bs) \<Rightarrow> w\<lparr>mem := (mem w)(p \<mapsto> Bytes (overwrite src bs))\<rparr>
      | _ \<Rightarrow> w)"

text \<open>\<^verbatim>\<open>slice[..n].copy_from_slice(src)\<close> and \<^verbatim>\<open>slice.copy_from_slice(src)\<close>: panics on other lengths.\<close>

definition copy_prefix_from_slice :: "slice_mut \<Rightarrow> nat \<Rightarrow> bytes \<Rightarrow> (Status, 'e world, unit) rust" where
  "copy_prefix_from_slice s n src =
     (if slice_len s < n \<or> length src \<noteq> n then panicM else updateM (write_bytes (slice_ptr s) src))"

definition copy_from_slice :: "slice_mut \<Rightarrow> bytes \<Rightarrow> (Status, 'e world, unit) rust" where
  "copy_from_slice s src = copy_prefix_from_slice s (slice_len s) src"

definition deref_usize :: "ptr \<Rightarrow> (Status, 'e world, usize) rust" where
  "deref_usize p w = (case mem w p of Some (UsizeCell n) \<Rightarrow> (Ok n, w) | _ \<Rightarrow> (Undefined, w))"

definition deref_u64 :: "ptr \<Rightarrow> (Status, 'e world, u64) rust" where
  "deref_u64 p w = (case mem w p of Some (U64Cell n) \<Rightarrow> (Ok n, w) | _ \<Rightarrow> (Undefined, w))"

definition store :: "ptr \<Rightarrow> 'e obj \<Rightarrow> (Status, 'e world, unit) rust" where
  "store p v = updateM (\<lambda>w. w\<lparr>mem := (mem w)(p \<mapsto> v)\<rparr>)"

text \<open>An array of \<^verbatim>\<open>n\<close> structures behind a pointer, as a mutable slice.\<close>

definition entries_from_raw_parts_mut :: "ptr \<Rightarrow> usize \<Rightarrow> (Status, 'e world, slice_mut) rust" where
  "entries_from_raw_parts_mut p n w =
     (if n = 0 then (Ok (SliceMut p 0), w)
      else case mem w p of
          Some (Entries es) \<Rightarrow> if unat n \<le> length es then (Ok (SliceMut p (unat n)), w) else (Undefined, w)
        | _ \<Rightarrow> (Undefined, w))"

definition set_entry :: "slice_mut \<Rightarrow> nat \<Rightarrow> 'e \<Rightarrow> (Status, 'e world, unit) rust" where
  "set_entry s i e = updateM (\<lambda>w.
     (case mem w (slice_ptr s) of
        Some (Entries es) \<Rightarrow> w\<lparr>mem := (mem w)(slice_ptr s \<mapsto> Entries (es[i := e]))\<rparr>
      | _ \<Rightarrow> w))"

section \<open>Calls\<close>

datatype 'a ffi_result = Returns 'a | UndefinedBehaviour

definition run_panic_hook :: "'e world \<Rightarrow> 'e world" where
  "run_panic_hook w = w\<lparr>events := events w @ panic_hook_events (TELEMETRY w)\<rparr>"

definition telemetry_report_failure :: "Failure \<Rightarrow> 'e world \<Rightarrow> 'e world" where
  "telemetry_report_failure f w = w\<lparr>events := events w @ [report_failure (TELEMETRY w) f]\<rparr>"

definition ffi_call_with_reporter :: "KccOperation \<Rightarrow> (Status, 'e world, unit) rust \<Rightarrow>
    (Failure \<Rightarrow> 'e world \<Rightarrow> 'e world) \<Rightarrow> 'e world \<Rightarrow> Status ffi_result \<times> 'e world" where
  "ffi_call_with_reporter op f reporter w =
     (case f w of
        (Ok _, w') \<Rightarrow> (Returns Success, w')
      | (Err s, w') \<Rightarrow>
          (Returns s, reporter \<lparr>operation = op, status = s, kind = ErrorKind\<rparr> w')
      | (Panicked, w') \<Rightarrow>
          (Returns InternalError,
           reporter \<lparr>operation = op, status = InternalError, kind = PanicKind\<rparr> (run_panic_hook w'))
      | (Undefined, w') \<Rightarrow> (UndefinedBehaviour, w'))"

definition ffi_call :: "KccOperation \<Rightarrow> (Status, 'e world, unit) rust \<Rightarrow>
    'e world \<Rightarrow> Status ffi_result \<times> 'e world" where
  "ffi_call op f = ffi_call_with_reporter op f telemetry_report_failure"

definition ffi_call_i32_with_reporter :: "KccOperation \<Rightarrow> (Status, 'e world, i32) rust \<Rightarrow>
    (Failure \<Rightarrow> 'e world \<Rightarrow> 'e world) \<Rightarrow> 'e world \<Rightarrow> i32 ffi_result \<times> 'e world" where
  "ffi_call_i32_with_reporter op f reporter w =
     (case f w of
        (Ok val, w') \<Rightarrow> (Returns val, w')
      | (Err s, w') \<Rightarrow>
          (Returns (- status_as_i32 s), reporter \<lparr>operation = op, status = s, kind = ErrorKind\<rparr> w')
      | (Panicked, w') \<Rightarrow>
          (Returns (- status_as_i32 InternalError),
           reporter \<lparr>operation = op, status = InternalError, kind = PanicKind\<rparr> (run_panic_hook w'))
      | (Undefined, w') \<Rightarrow> (UndefinedBehaviour, w'))"

definition ffi_call_i32 :: "KccOperation \<Rightarrow> (Status, 'e world, i32) rust \<Rightarrow>
    'e world \<Rightarrow> i32 ffi_result \<times> 'e world" where
  "ffi_call_i32 op f = ffi_call_i32_with_reporter op f telemetry_report_failure"

text \<open>
  \<^verbatim>\<open>key_manager_init_telemetry\<close> as the entry point it is: pointer and length, no return value.
\<close>

definition key_manager_init_telemetry_ffi :: "ptr \<Rightarrow> usize \<Rightarrow> 'e world \<Rightarrow> unit ffi_result \<times> 'e world" where
  "key_manager_init_telemetry_ffi service_name_ptr service_name_len w =
     (if is_null service_name_ptr \<or> service_name_len = 0
      then (Returns (), w\<lparr>TELEMETRY := key_manager_init_telemetry None (TELEMETRY w)\<rparr>)
      else case from_raw_parts service_name_ptr service_name_len w of
          (Ok bs, w') \<Rightarrow> (Returns (), w'\<lparr>TELEMETRY := key_manager_init_telemetry (Some bs) (TELEMETRY w')\<rparr>)
        | (_, w') \<Rightarrow> (UndefinedBehaviour, w'))"

section \<open>Invariants of a world\<close>

text \<open>
  The contents of the static registry, and whether it can be used: it exists, or its initialiser
  will succeed.
\<close>

definition contents :: "'z custody_scheme \<Rightarrow> KeyHandle \<Rightarrow> KeyRecord option" where
  "contents w = (case KEY_REGISTRY w of Ready reg \<Rightarrow> lookup reg | _ \<Rightarrow> Map.empty)"

definition usable :: "('s, 'r, 'p) env \<Rightarrow> 'z custody_scheme \<Rightarrow> bool" where
  "usable E w \<longleftrightarrow> (case KEY_REGISTRY w of
       Ready _ \<Rightarrow> True | Uninit \<Rightarrow> sys_thread_spawn E (syscalls w) | LazyPoisoned \<Rightarrow> False)"

text \<open>
  The invariant of a core: the registry is well formed and unpoisoned, every stored record
  satisfies \<open>P\<close>, and every secret region that was unmapped held only zeros.
\<close>

definition core_inv :: "(KeyRecord \<Rightarrow> bool) \<Rightarrow> 'z custody_scheme \<Rightarrow> bool" where
  "core_inv P w \<longleftrightarrow>
     (\<forall>reg. KEY_REGISTRY w = Ready reg \<longrightarrow> registry_wf reg)
   \<and> (\<forall>h rec. contents w h = Some rec \<longrightarrow> P rec)
   \<and> (\<forall>region \<in> set (released w). \<forall>b \<in> set region. b = 0)"

definition init_world :: "(nat \<Rightarrow> instant) \<Rightarrow> (ptr \<Rightarrow> 'e obj option) \<Rightarrow> 'e world" where
  "init_world c memory = \<lparr>clock = c, ticks = 0, draws = 0, syscalls = 0, released = [],
     KEY_REGISTRY = Uninit, TELEMETRY = telemetry_default, events = [], mem = memory\<rparr>"

section \<open>Lemmas: frames\<close>

lemma machine_more_world:
  assumes "machine.more w = machine.more w'"
  shows "KEY_REGISTRY w = KEY_REGISTRY w'" "TELEMETRY w = TELEMETRY w'" "events w = events w'"
    "mem w = mem w'"
  using assms by (cases w; cases w'; simp)+

lemma machine_more_custody:
  assumes "machine.more w = machine.more w'"
  shows "KEY_REGISTRY w = KEY_REGISTRY w'" "custody.more w = custody.more w'"
  using assms by (cases w; cases w'; simp)+

lemma custody_more_world:
  assumes "custody.more w = custody.more w'"
  shows "TELEMETRY w = TELEMETRY w'" "events w = events w'" "mem w = mem w'"
  using assms by (cases w; cases w'; simp)+

lemma drop_all_world [simp]:
  "KEY_REGISTRY (drop_all E recs w) = KEY_REGISTRY w"
  "TELEMETRY (drop_all E recs u) = TELEMETRY u"
  "events (drop_all E recs u) = events u"
  "mem (drop_all E recs u) = mem u"
  by (simp_all add: machine_more_world [of "drop_all E recs u" u]
      machine_more_custody(1) [of "drop_all E recs w" w])

lemma KeyRecord_drop_world [simp]:
  "KEY_REGISTRY (KeyRecord_drop E rec w) = KEY_REGISTRY w"
  "TELEMETRY (KeyRecord_drop E rec u) = TELEMETRY u"
  "events (KeyRecord_drop E rec u) = events u"
  "mem (KeyRecord_drop E rec u) = mem u"
  using drop_all_world [of E "[rec]"] by simp_all

lemma contents_frame:
  "KEY_REGISTRY w = KEY_REGISTRY w' \<Longrightarrow> contents w = contents w'"
  by (simp add: contents_def)

lemma contents_update [simp]:
  "contents (w\<lparr>KEY_REGISTRY := Ready reg\<rparr>) = lookup reg"
  by (simp add: contents_def)

lemma core_inv_frame:
  assumes "core_inv P w" and "KEY_REGISTRY w' = KEY_REGISTRY w"
    and "released w' = released w @ zs" and "\<And>z b. z \<in> set zs \<Longrightarrow> b \<in> set z \<Longrightarrow> b = 0"
  shows "core_inv P w'"
  using assms contents_frame [of w w'] by (auto simp: core_inv_def)

lemma core_inv_same:
  "KEY_REGISTRY w' = KEY_REGISTRY w \<Longrightarrow> released w' = released w \<Longrightarrow> core_inv P w' = core_inv P w"
  using contents_frame [of w w'] by (auto simp: core_inv_def)

lemma core_inv_init: "core_inv P (init_world c memory)"
  by (simp add: core_inv_def contents_def init_world_def)

lemma zeroize_zeros: "zeroize_spec E \<Longrightarrow> b \<in> set (zeroize E bs) \<Longrightarrow> b = 0"
  by (simp add: zeroize_spec_def)

lemma core_inv_drop:
  assumes "zeroize_spec E" and "core_inv P w"
  shows "core_inv P (drop_all E recs w)"
  by (rule core_inv_frame [OF assms(2), where zs = "map (\<lambda>rec. zeroize E (mmap (private_key rec))) recs"])
    (auto dest: zeroize_zeros [OF assms(1)])

lemma core_inv_KeyRecord_drop:
  "zeroize_spec E \<Longrightarrow> core_inv P w \<Longrightarrow> core_inv P (KeyRecord_drop E rec w)"
  using core_inv_drop [of E P w "[rec]"] by simp

section \<open>Lemmas: the static registry\<close>

text \<open>The registry a use of the static sees, and the state after forcing it.\<close>

definition registry_of :: "'z custody_scheme \<Rightarrow> KeyRegistry" where
  "registry_of w = (case KEY_REGISTRY w of Ready reg \<Rightarrow> reg | _ \<Rightarrow> KeyRegistry_default)"

definition forced :: "'z custody_scheme \<Rightarrow> 'z custody_scheme" where
  "forced w = (case KEY_REGISTRY w of
       Uninit \<Rightarrow> w\<lparr>syscalls := Suc (syscalls w), KEY_REGISTRY := Ready KeyRegistry_default\<rparr>
     | _ \<Rightarrow> w)"

lemma lookup_default [simp]: "lookup KeyRegistry_default h = None"
  by (simp add: lookup_def KeyRegistry_default_def hm.get_empty)

lemma force_registry_eq: "usable E w \<Longrightarrow> force_registry E w = (Ok (registry_of w), forced w)"
  by (auto simp: usable_def force_registry_def registry_of_def forced_def basicM_defs
      split: lazy_registry.splits)

lemma lookup_registry_of [simp]: "lookup (registry_of w) = contents w"
  by (auto simp: registry_of_def contents_def fun_eq_iff split: lazy_registry.splits)

lemma get_registry_of [simp]: "hm_get h (keys (registry_of w)) = contents w h"
  unfolding lookup_registry_of [symmetric] lookup_def ..

lemma registry_of_wf: "core_inv P w \<Longrightarrow> registry_wf (registry_of w)"
  by (auto simp: core_inv_def registry_of_def registry_wf_default split: lazy_registry.splits)

lemma forced_simps [simp]:
  "clock (forced w) = clock w" "ticks (forced w) = ticks w" "draws (forced w) = draws w"
  "released (forced w) = released w" "contents (forced w) = contents w"
  "TELEMETRY (forced u) = TELEMETRY u" "events (forced u) = events u" "mem (forced u) = mem u"
  by (auto simp: forced_def contents_def fun_eq_iff split: lazy_registry.splits)

lemma core_inv_forced: "core_inv P (forced w) = core_inv P w"
  by (auto simp: forced_def core_inv_def contents_def registry_wf_default split: lazy_registry.splits)

lemma usable_Ready: "KEY_REGISTRY w = Ready reg \<Longrightarrow> usable E w"
  by (simp add: usable_def)

lemma force_registry_yields: "yields {} (core_inv P) registry_wf (force_registry E)"
proof (rule yieldsI)
  fix w r w'
  assume inv: "core_inv P w" and f: "force_registry E w = (r, w')"
  show "core_inv P w' \<and> (\<forall>e. r = Err e \<longrightarrow> e \<in> {}) \<and> (\<forall>a. r = Ok a \<longrightarrow> registry_wf a)"
    using inv f by (cases "KEY_REGISTRY w")
      (auto simp: force_registry_def basicM_defs core_inv_def contents_def registry_wf_default
        split: if_splits)
qed

text \<open>
  The registry operations on a usable static: what they return, and the state they leave.
\<close>

definition added :: "KeyRecord \<Rightarrow> KeyRegistry \<Rightarrow> KeyRegistry" where
  "added rec reg = reg\<lparr>keys := snd (hm_insert (meta_id (meta rec)) rec (keys reg))\<rparr>"

definition removed :: "KeyHandle \<Rightarrow> KeyRegistry \<Rightarrow> KeyRegistry" where
  "removed h reg = reg\<lparr>keys := snd (hm_remove h (keys reg))\<rparr>"

lemma added_props:
  assumes "registry_wf reg"
  shows "registry_wf (added rec reg)" "lookup (added rec reg) = (lookup reg)(meta_id (meta rec) \<mapsto> rec)"
  using registry_wf_add_keys [OF assms, of rec] assms
  by (auto simp: added_def registry_wf_def lookup_def hm.get_insert)

lemma removed_props:
  assumes "registry_wf reg"
  shows "registry_wf (removed h reg)" "lookup (removed h reg) = (lookup reg)(h := None)"
  using registry_wf_filter [OF assms, of "\<lambda>(j, v). j \<noteq> h"] assms hm.get_remove [of "keys reg" _ h]
  by (auto simp: removed_def registry_wf_def lookup_def hm_remove_def)

lemma static_get_key_eq:
  assumes "core_inv P w" and "usable E w"
  shows "static_get_key E h w = (Ok (unexpired (clock w (ticks w)) (contents w h)),
     (forced w)\<lparr>ticks := (if contents w h = None then ticks w else Suc (ticks w))\<rparr>)"
proof -
  have "forced w = (forced w)\<lparr>ticks := ticks w\<rparr>"
    by (cases "forced w") (metis forced_simps(2) machine.surjective machine.update_convs(2))
  then show ?thesis
    using registry_of_wf [OF assms(1)]
    by (auto simp: static_get_key_def bindM_def force_registry_eq [OF assms(2)] get_key_def
        registry_wf_def basicM_defs Instant_now_def split: option.splits)
qed

lemma static_remove_key_eq:
  assumes "core_inv P w" and "usable E w"
  shows "static_remove_key E h w
     = (Ok (contents w h), (forced w)\<lparr>KEY_REGISTRY := Ready (removed h (registry_of w))\<rparr>)"
  using registry_of_wf [OF assms(1)] hm.fst_remove [of h "keys (registry_of w)"]
  by (auto simp: static_remove_key_def bindM_def force_registry_eq [OF assms(2)] remove_key_def
      registry_wf_def basicM_defs removed_def lookup_def fun_eq_iff split: prod.splits)

lemma static_add_key_eq:
  assumes "core_inv P w" and "usable E w"
  shows "static_add_key E rec w = (Ok (),
     (drop_all E (case contents w (meta_id (meta rec)) of None \<Rightarrow> [] | Some r \<Rightarrow> [r]) (forced w))
       \<lparr>KEY_REGISTRY := Ready (added rec (registry_of w))\<rparr>)"
  using registry_of_wf [OF assms(1)] hm.fst_insert [of "meta_id (meta rec)" rec "keys (registry_of w)"]
  by (auto simp: static_add_key_def bindM_def unwindM_def force_registry_eq [OF assms(2)] add_key_def
      registry_wf_def basicM_defs added_def lookup_def fun_eq_iff split: prod.splits)

lemma static_remove_all_keys_eq:
  assumes "core_inv P w" and "usable E w"
  shows "\<exists>recs. set recs = ran (contents w) \<and> static_remove_all_keys E w =
     (Ok (), (drop_all E recs (forced w))\<lparr>KEY_REGISTRY := Ready KeyRegistry_default\<rparr>)"
proof (intro exI conjI)
  let ?recs = "hm_values (keys (registry_of w))"
  have wf: "registry_wf (registry_of w)"
    by (rule registry_of_wf [OF assms(1)])
  show "set ?recs = ran (contents w)"
    using hm.set_vals [of "keys (registry_of w)"] wf
    by (simp add: registry_wf_def ran_def)
  show "static_remove_all_keys E w =
     (Ok (), (drop_all E ?recs (forced w))\<lparr>KEY_REGISTRY := Ready KeyRegistry_default\<rparr>)"
    using wf by (cases "registry_of w")
      (simp add: static_remove_all_keys_def bindM_def force_registry_eq [OF assms(2)]
        remove_all_keys_def registry_wf_def basicM_defs KeyRegistry_default_def)
qed

text \<open>The whole listing of the static registry at an instant.\<close>

definition listing :: "instant \<Rightarrow> 'z custody_scheme \<Rightarrow> KeyRecord list" where
  "listing now w = live_sorted now (registry_of w)"

lemma listing_props:
  assumes "core_inv P w"
  shows "sorted (map listing_key (listing now w))" "distinct (listing now w)"
    "set (listing now w) = {rec. \<exists>h. unexpired now (contents w h) = Some rec}"
  using live_sorted_props [OF registry_of_wf [OF assms]] by (simp_all add: listing_def)

lemma static_list_all_keys_eq:
  assumes "core_inv P w" and "usable E w"
  shows "static_list_all_keys E offset limit w =
     (Ok (map meta (take (unat limit) (drop (unat offset) (listing (clock w (ticks w)) w))),
          word_of_nat (length (listing (clock w (ticks w)) w))),
      (forced w)\<lparr>ticks := Suc (ticks w)\<rparr>)"
  by (simp add: static_list_all_keys_def bindM_def force_registry_eq [OF assms(2)]
      list_all_keys_eq [OF registry_of_wf [OF assms(1)]] listing_def)

section \<open>Lemmas: what a step keeps\<close>

text \<open>
  Three kinds of state predicates: those that an operation on the machine keeps as long as it only
  releases zeroized regions, those that speak only of what is outside the custody core, and those
  that a write to the caller's memory keeps.
\<close>

definition machine_stable :: "('s, 'r, 'p) env \<Rightarrow> ('z machine_scheme \<Rightarrow> bool) \<Rightarrow> bool" where
  "machine_stable E I \<longleftrightarrow> (\<forall>w w' zs. I w \<longrightarrow> machine.more w' = machine.more w \<longrightarrow> advances w w' \<longrightarrow>
     released w' = released w @ map (zeroize E) zs \<longrightarrow> I w')"

definition custody_stable :: "('z custody_scheme \<Rightarrow> bool) \<Rightarrow> bool" where
  "custody_stable I \<longleftrightarrow> (\<forall>w w'. I w \<longrightarrow> custody.more w' = custody.more w \<longrightarrow> I w')"

definition mem_stable :: "('e world \<Rightarrow> bool) \<Rightarrow> bool" where
  "mem_stable I \<longleftrightarrow> (\<forall>w f. I w \<longrightarrow> I (w\<lparr>mem := f\<rparr>))"

text \<open>The telemetry statics and the log, which no body touches.\<close>

definition logged :: "telemetry \<Rightarrow> tracing_event list \<Rightarrow> 'e world \<Rightarrow> bool" where
  "logged t ev w \<longleftrightarrow> TELEMETRY w = t \<and> events w = ev"

lemma machine_stable_core_inv: "zeroize_spec E \<Longrightarrow> machine_stable E (core_inv P)"
  unfolding machine_stable_def
  by (auto elim!: core_inv_frame dest: machine_more_custody(1) zeroize_zeros)

lemma custody_stable_machine: "custody_stable I \<Longrightarrow> machine_stable E I"
  by (auto simp: custody_stable_def machine_stable_def dest: machine_more_custody(2))

lemma custody_stable_logged: "custody_stable (logged t ev)"
  unfolding custody_stable_def by (auto simp: logged_def dest: custody_more_world)

lemma custody_stable_mem: "custody_stable (\<lambda>w :: 'e world. mem w = M)"
  unfolding custody_stable_def by (auto dest: custody_more_world)

lemma mem_stable_core_inv: "mem_stable (core_inv P)"
  by (simp add: mem_stable_def core_inv_def contents_def)

lemma mem_stable_logged: "mem_stable (logged t ev)"
  by (simp add: mem_stable_def logged_def)

lemma keeps_machine:
  assumes "machine_stable E I" and "\<And>w. machine.more (snd (m w)) = machine.more w"
    and "\<And>w. advances w (snd (m w))" and "\<And>w. \<exists>zs. released (snd (m w)) = released w @ map (zeroize E) zs"
    and "\<And>w e. fst (m w) = Err e \<Longrightarrow> e \<in> ES"
  shows "keeps ES I m"
  unfolding keeps_alt
proof (intro allI impI conjI)
  fix w assume "I w"
  then show "I (snd (m w))"
    using assms(1) assms(2) [of w] assms(3) [of w] assms(4) [of w] unfolding machine_stable_def by blast
qed (use assms(5) in simp)

lemma keeps_same:
  assumes "\<And>w. snd (m w) = w" and "\<And>w e. fst (m w) = Err e \<Longrightarrow> e \<in> ES"
  shows "keeps ES I m"
  using assms by (simp add: keeps_alt)

lemma keeps_crypto:
  assumes "machine_stable E I"
  shows "keeps {InvalidArgument, DecapsulationFailure} I (decaps E key enc)"
    and "keeps {UnsupportedAlgorithm, DecryptionFailure} I (hpke_open E key enc ct aad algo)"
    and "keeps {UnsupportedAlgorithm, EncryptionFailure} I (hpke_seal E pub pt aad algo)"
    and "keeps ES I Instant_now"
    and "keeps ES I (updateM (drop_all E recs))"
proof -
  show "keeps {InvalidArgument, DecapsulationFailure} I (decaps E key enc)"
    by (rule keeps_same) (auto simp: crypto_frame dest: decaps_errors)
  show "keeps {UnsupportedAlgorithm, DecryptionFailure} I (hpke_open E key enc ct aad algo)"
    by (rule keeps_same) (auto simp: crypto_frame dest: hpke_open_errors)
  show "keeps {UnsupportedAlgorithm, EncryptionFailure} I (hpke_seal E pub pt aad algo)"
  proof (rule keeps_machine [OF assms])
    fix w
    obtain d where "snd (hpke_seal E pub pt aad algo w) = w\<lparr>draws := d\<rparr>" and "draws w \<le> d"
      using crypto_frame(3) by blast
    then show "machine.more (snd (hpke_seal E pub pt aad algo w)) = machine.more w"
      and "advances w (snd (hpke_seal E pub pt aad algo w))"
      and "\<exists>zs. released (snd (hpke_seal E pub pt aad algo w)) = released w @ map (zeroize E) zs"
      by (simp_all add: advances_def)
  qed (auto dest: hpke_seal_errors)
  show "keeps ES I Instant_now"
    by (rule keeps_machine [OF assms]) (auto simp: Instant_now_def advances_def)
  show "keeps ES I (updateM (drop_all E recs))"
    by (rule keeps_machine [OF assms])
      (auto simp: updateM_def advances_def intro: exI [of _ "map (\<lambda>rec. mmap (private_key rec)) recs"])
qed

lemma generate_keypair_errors:
  "fst (generate_keypair E alg m) = Err e \<Longrightarrow> e = UnsupportedAlgorithm"
  by (auto simp: generate_keypair_def x25519_generate_keypair_def basicM_defs bindM_def draw_def
      split: KemAlgorithm.splits prod.splits option.splits)

lemma keeps_create:
  assumes "machine_stable E I"
  shows "keeps {UnsupportedAlgorithm, CryptoError} I (create_key_internal E algo expiry mk)"
proof -
  have gen: "keeps {UnsupportedAlgorithm, CryptoError} I (generate_keypair E alg)" for alg
  proof (rule keeps_machine [OF assms])
    fix w
    obtain d where "snd (generate_keypair E alg w) = w\<lparr>draws := d\<rparr>" and "draws w \<le> d"
      using crypto_frame(4) by blast
    then show "machine.more (snd (generate_keypair E alg w)) = machine.more w"
      and "advances w (snd (generate_keypair E alg w))"
      and "\<exists>zs. released (snd (generate_keypair E alg w)) = released w @ map (zeroize E) zs"
      by (simp_all add: advances_def)
  qed (auto dest: generate_keypair_errors)
  have vault: "keeps UNIV I (Vault_new E data)" for data
    by (rule keeps_machine [OF assms]) (auto simp: Vault_new_frame Vault_new_syscalls advances_def)
  have drw: "keeps {UnsupportedAlgorithm, CryptoError} I draw"
    by (rule keeps_machine [OF assms]) (auto simp: draw_def advances_def)
  have drop: "keeps {UnsupportedAlgorithm, CryptoError} I (updateM (Vault_drop E v))" for v
    by (rule keeps_machine [OF assms]) (auto simp: updateM_def advances_def intro: exI [of _ "[mmap v]"])
  show ?thesis
    by (auto simp: create_key_internal_def Let_def split: option.splits prod.splits
        intro!: keeps_rules gen vault drw drop keeps_crypto(4) [OF assms]
        simp del: bindM_draw bindM_Instant_now bindM_updateM)
qed

lemma keeps_create_bound_kem_key:
  assumes "machine_stable E I"
  shows "keeps {UnsupportedAlgorithm, CryptoError, InvalidKey} I
     (create_bound_kem_key E algo binding_pub expiry)"
  by (auto simp: create_bound_kem_key_cases keeps_basic intro: keeps_mono [OF keeps_create [OF assms]])

lemma keeps_registry:
  assumes "machine_stable E I"
  shows "keeps ES I (add_key E rec reg)" and "keeps ES I (remove_key h reg)"
    and "keeps ES I (remove_all_keys E reg)" and "keeps ES I (get_key h reg)"
    and "keeps ES I (list_all_keys offset limit reg)"
proof -
  have drop: "I (KeyRecord_drop E rec w)" if "I w" for rec w
    using that keeps_crypto(5) [OF assms, of "{}" "[rec]"] by (simp add: keeps_alt updateM_def)
  show "keeps ES I (add_key E rec reg)"
    by (auto simp: add_key_def split: prod.splits
        intro!: keeps_rules keeps_crypto [OF assms] drop simp del: bindM_updateM drop_all_simps)
  show "keeps ES I (remove_key h reg)"
    by (auto simp: remove_key_def split: prod.splits intro!: keeps_rules)
  show "keeps ES I (remove_all_keys E reg)"
    by (auto simp: remove_all_keys_def intro!: keeps_rules keeps_crypto [OF assms] simp del: bindM_updateM)
  show "keeps ES I (get_key h reg)"
    by (auto simp: get_key_def split: option.splits intro!: keeps_rules keeps_crypto [OF assms]
        simp del: bindM_Instant_now)
  show "keeps ES I (list_all_keys offset limit reg)"
    by (auto simp: list_all_keys_def Let_def intro!: keeps_rules keeps_crypto [OF assms]
        simp del: bindM_Instant_now)
qed

text \<open>The operations on the static: the log is untouched, and the invariant is kept.\<close>

lemma keeps_static:
  assumes "custody_stable I"
  shows "keeps ES I (static_add_key E rec)" "keeps ES I (static_remove_key E h)"
    "keeps ES I (static_remove_all_keys E)" "keeps ES I (static_get_key E h)"
    "keeps ES I (static_list_all_keys E offset limit)"
proof -
  note machine = custody_stable_machine [OF assms, of E]
  have force: "keeps ES I (force_registry E)"
    using assms by (auto simp: keeps_alt force_registry_def basicM_defs custody_stable_def
        split: lazy_registry.splits)
  have set: "I (w\<lparr>KEY_REGISTRY := reg\<rparr>)" if "I w" for w reg
    using assms that by (auto simp: custody_stable_def)
  have drop: "I (KeyRecord_drop E rec w)" if "I w" for w
    using keeps_crypto(5) [OF machine, of "{}" "[rec]"] that by (simp add: keeps_alt updateM_def)
  show "keeps ES I (static_add_key E rec)" "keeps ES I (static_remove_key E h)"
    "keeps ES I (static_remove_all_keys E)" "keeps ES I (static_get_key E h)"
    "keeps ES I (static_list_all_keys E offset limit)"
    unfolding static_add_key_def static_remove_key_def static_remove_all_keys_def static_get_key_def
      static_list_all_keys_def
    by (auto intro!: keeps_rules force keeps_registry [OF machine] set drop split: prod.splits)
qed

lemma force_registry_unusable:
  assumes "\<not> usable E w" and "core_inv P w"
  shows "\<exists>w'. force_registry E w = (Panicked, w') \<and> core_inv P w'"
  using assms by (auto simp: usable_def force_registry_def basicM_defs core_inv_def contents_def
      split: lazy_registry.splits)

lemma yieldsI_usable:
  assumes "\<And>w. core_inv P w \<Longrightarrow> usable E w \<Longrightarrow>
      core_inv P (snd (m w)) \<and> (\<forall>e. fst (m w) = Err e \<longrightarrow> e \<in> ES) \<and> (\<forall>a. fst (m w) = Ok a \<longrightarrow> R a)"
    and "\<And>w w'. force_registry E w = (Panicked, w') \<Longrightarrow> core_inv P w' \<Longrightarrow>
      \<exists>w''. m w = (Panicked, w'') \<and> core_inv P w''"
  shows "yields ES (core_inv P) R m"
proof (rule yieldsI)
  fix w r w' assume inv: "core_inv P w" and m: "m w = (r, w')"
  show "core_inv P w' \<and> (\<forall>e. r = Err e \<longrightarrow> e \<in> ES) \<and> (\<forall>a. r = Ok a \<longrightarrow> R a)"
  proof (cases "usable E w")
    case True
    then show ?thesis using assms(1) [OF inv] m by simp
  next
    case False
    then show ?thesis
      using assms(2) force_registry_unusable [OF _ inv] m by fastforce
  qed
qed

lemma core_inv_registry:
  assumes "core_inv P w" and "registry_wf reg"
    and "\<And>h rec. lookup reg h = Some rec \<Longrightarrow> P rec"
  shows "core_inv P (w\<lparr>KEY_REGISTRY := Ready reg\<rparr>)"
  using assms by (auto simp: core_inv_def)

lemma keeps_static_add_key:
  assumes "zeroize_spec E" and "P rec"
  shows "keeps ES (core_inv P) (static_add_key E rec)"
proof (rule yields_keeps, rule yieldsI_usable [where E = E and R = "\<lambda>_. True"])
  fix w assume inv: "core_inv P w" and u: "usable E w"
  have "core_inv P ((drop_all E recs (forced w))\<lparr>KEY_REGISTRY := Ready (added rec (registry_of w))\<rparr>)" for recs
    by (rule core_inv_registry)
      (use inv assms added_props [OF registry_of_wf [OF inv], of rec]
       in \<open>auto simp: core_inv_forced core_inv_def [of P w] intro: core_inv_drop split: if_splits\<close>)
  then show "core_inv P (snd (static_add_key E rec w))
      \<and> (\<forall>e. fst (static_add_key E rec w) = Err e \<longrightarrow> e \<in> ES)
      \<and> (\<forall>a. fst (static_add_key E rec w) = Ok a \<longrightarrow> True)"
    by (simp add: static_add_key_eq [OF inv u])
next
  fix w w' assume "force_registry E w = (Panicked, w')" and "core_inv P w'"
  then show "\<exists>w''. static_add_key E rec w = (Panicked, w'') \<and> core_inv P w''"
    using assms by (simp add: static_add_key_def bindM_def unwindM_def core_inv_KeyRecord_drop)
qed

lemma keeps_static_remove_key: "keeps ES (core_inv P) (static_remove_key E h)"
proof (rule yields_keeps, rule yieldsI_usable [where E = E and R = "\<lambda>_. True"])
  fix w assume inv: "core_inv P w" and u: "usable E w"
  have "core_inv P ((forced w)\<lparr>KEY_REGISTRY := Ready (removed h (registry_of w))\<rparr>)"
    by (rule core_inv_registry)
      (use inv removed_props [OF registry_of_wf [OF inv], of h]
       in \<open>auto simp: core_inv_forced core_inv_def [of P w] split: if_splits\<close>)
  then show "core_inv P (snd (static_remove_key E h w))
      \<and> (\<forall>e. fst (static_remove_key E h w) = Err e \<longrightarrow> e \<in> ES)
      \<and> (\<forall>a. fst (static_remove_key E h w) = Ok a \<longrightarrow> True)"
    by (simp add: static_remove_key_eq [OF inv u])
qed (simp add: static_remove_key_def bindM_def)

lemma keeps_static_remove_all_keys:
  assumes "zeroize_spec E"
  shows "keeps ES (core_inv P) (static_remove_all_keys E)"
proof (rule yields_keeps, rule yieldsI_usable [where E = E and R = "\<lambda>_. True"])
  fix w assume inv: "core_inv P w" and u: "usable E w"
  have "core_inv P ((drop_all E recs (forced w))\<lparr>KEY_REGISTRY := Ready KeyRegistry_default\<rparr>)" for recs
    by (rule core_inv_registry)
      (use inv assms in \<open>auto simp: core_inv_forced registry_wf_default intro: core_inv_drop\<close>)
  then show "core_inv P (snd (static_remove_all_keys E w))
      \<and> (\<forall>e. fst (static_remove_all_keys E w) = Err e \<longrightarrow> e \<in> ES)
      \<and> (\<forall>a. fst (static_remove_all_keys E w) = Ok a \<longrightarrow> True)"
    using static_remove_all_keys_eq [OF inv u] by auto
qed (simp add: static_remove_all_keys_def bindM_def)

lemma yields_static_get_key:
  "yields ES (core_inv P) (\<lambda>r. \<forall>rec. r = Some rec \<longrightarrow> P rec) (static_get_key E h)"
proof (rule yieldsI_usable [where E = E])
  fix w assume inv: "core_inv P w" and u: "usable E w"
  have "core_inv P ((forced w)\<lparr>ticks := t\<rparr>)" for t
    using inv core_inv_same [of "(forced w)\<lparr>ticks := t\<rparr>" "forced w" P] by (simp add: core_inv_forced)
  moreover have "P rec" if "unexpired now (contents w h) = Some rec" for now rec
    using inv that by (auto simp: core_inv_def unexpired_eq_Some)
  ultimately show "core_inv P (snd (static_get_key E h w))
      \<and> (\<forall>e. fst (static_get_key E h w) = Err e \<longrightarrow> e \<in> ES)
      \<and> (\<forall>a. fst (static_get_key E h w) = Ok a \<longrightarrow> (\<forall>rec. a = Some rec \<longrightarrow> P rec))"
    by (simp add: static_get_key_eq [OF inv u])
qed (simp add: static_get_key_def bindM_def)

lemma yields_static_list_all_keys:
  "yields ES (core_inv P) (\<lambda>r. \<forall>m \<in> set (fst r). \<exists>rec. P rec \<and> meta rec = m)
     (static_list_all_keys E offset limit)"
proof (rule yieldsI_usable [where E = E])
  fix w assume inv: "core_inv P w" and u: "usable E w"
  have "core_inv P ((forced w)\<lparr>ticks := t\<rparr>)" for t
    using inv core_inv_same [of "(forced w)\<lparr>ticks := t\<rparr>" "forced w" P] by (simp add: core_inv_forced)
  moreover have "P rec" if "rec \<in> set (listing now w)" for now rec
    using inv that by (auto simp: listing_props [OF inv] core_inv_def unexpired_eq_Some)
  ultimately show "core_inv P (snd (static_list_all_keys E offset limit w))
      \<and> (\<forall>e. fst (static_list_all_keys E offset limit w) = Err e \<longrightarrow> e \<in> ES)
      \<and> (\<forall>a. fst (static_list_all_keys E offset limit w) = Ok a \<longrightarrow>
            (\<forall>m \<in> set (fst a). \<exists>rec. P rec \<and> meta rec = m))"
    by (auto simp: static_list_all_keys_eq [OF inv u] dest!: in_set_takeD in_set_dropD)
qed (simp add: static_list_all_keys_def bindM_def)

end
