(* ===== verification/Reference_Env.thy ===== *)
theory Reference_Env
  imports Ffi
begin

text \<open>
  A concrete environment. It gives every third-party function a small executable definition that
  has the documented behaviour, so that the hypotheses \<open>prost_spec\<close> to \<open>secretmem_spec\<close> hold of one
  environment together and the operations of the cores can be run on concrete worlds. It is not a
  cipher: a sealed message is the plaintext followed by a tag that names the recipient.
\<close>

section \<open>Functions\<close>

fun digits :: "nat \<Rightarrow> nat \<Rightarrow> bytes" where
  "digits 0 n = []"
| "digits (Suc k) n = word_of_nat (n mod 256) # digits k (n div 256)"

definition i32_bytes :: "i32 \<Rightarrow> bytes" where
  "i32_bytes n = digits 4 (unat n)"

definition bytes_i32 :: "bytes \<Rightarrow> i32" where
  "bytes_i32 bs = word_of_nat (foldr (\<lambda>b acc. unat b + 256 * acc) bs 0)"

definition ref_encode :: "HpkeAlgorithm \<Rightarrow> bytes" where
  "ref_encode a = i32_bytes (kem a) @ i32_bytes (kdf a) @ i32_bytes (aead a)"

definition ref_decode :: "bytes \<Rightarrow> HpkeAlgorithm option" where
  "ref_decode bs = (if length bs = 12
     then Some \<lparr>kem = bytes_i32 (take 4 bs), kdf = bytes_i32 (take 4 (drop 4 bs)),
                aead = bytes_i32 (drop 8 bs)\<rparr>
     else None)"

definition ref_pad :: "nat \<Rightarrow> bytes \<Rightarrow> bytes" where
  "ref_pad n bs = take n (bs @ replicate n 0)"

definition ref_add :: "bytes \<Rightarrow> bytes \<Rightarrow> bytes" where
  "ref_add a b = map2 (+) (ref_pad 32 a) (ref_pad 32 b)"

definition ref_env :: "(bytes, bytes, bytes) env" where
  "ref_env =
     \<lparr>HpkeAlgorithm_decode = ref_decode,
      encode_to_vec = ref_encode,
      KemAlgorithm_try_from = (\<lambda>n. if n = 0 then Some KemUnspecified
         else if n = 1 then Some DhkemX25519HkdfSha256 else None),
      KdfAlgorithm_try_from = (\<lambda>n. if n = 0 then Some KdfUnspecified
         else if n = 1 then Some HkdfSha256 else None),
      AeadAlgorithm_try_from = (\<lambda>n. if n = 0 then Some AeadUnspecified
         else if n = 1 then Some Aes256Gcm else None),
      Uuid_new_v4 = (\<lambda>n. Uuid (replicate 16 (word_of_nat n))),
      Kem_generate_keypair = (\<lambda>_ n. (replicate 32 (word_of_nat n), replicate 32 (word_of_nat n))),
      SenderContext_new = (\<lambda>_ pk _ n. Some (pk, replicate 32 (word_of_nat n))),
      SenderContext_seal = (\<lambda>ctx pt _. pt @ ref_pad 16 ctx),
      RecipientContext_new = (\<lambda>_ sk _ _. Some sk),
      RecipientContext_open = (\<lambda>ctx ct _.
         if 16 \<le> length ct \<and> drop (length ct - 16) ct = ref_pad 16 ctx
         then Some (take (length ct - 16) ct) else None),
      compute_shared_key = (\<lambda>sk pk. Some (ref_add sk pk)),
      to_public = (\<lambda>sk. sk),
      HkdfSha256_extract = (\<lambda>ikm _. rev ikm),
      expand_into = (\<lambda>prk _ n. if n \<le> 255 * 32 then Some (ref_pad n prk) else None),
      zeroize = (\<lambda>bs. replicate (length bs) 0),
      sys_memfd_secret = (\<lambda>_. 3),
      sys_set_len = (\<lambda>_ _. True),
      sys_map_mut = (\<lambda>_ n. Some (replicate n 0)),
      sys_thread_spawn = (\<lambda>_. True)\<rparr>"

section \<open>Documented behaviour\<close>

lemma length_digits [simp]: "length (digits k n) = k"
  by (induction k arbitrary: n) simp_all

lemma digits_value: "foldr (\<lambda>b acc. unat b + 256 * acc) (digits k n) 0 = n mod 256 ^ k"
  by (induction k arbitrary: n)
    (simp_all add: unat_of_nat take_bit_nat_def mod_mult2_eq)

lemma length_i32_bytes [simp]: "length (i32_bytes n) = 4"
  by (simp add: i32_bytes_def)

lemma bytes_i32_inverse: "bytes_i32 (i32_bytes n) = n"
proof -
  have "unat n < 256 ^ 4"
    using unsigned_less [of n, where 'a = nat] by simp
  then show ?thesis
    by (simp add: bytes_i32_def i32_bytes_def digits_value del: power_numeral)
qed

lemma ref_decode_encode: "ref_decode (ref_encode a) = Some a"
  by (cases a) (simp add: ref_decode_def ref_encode_def bytes_i32_inverse)

lemma length_ref_pad [simp]: "length (ref_pad n bs) = n"
  by (simp add: ref_pad_def)

lemma ref_add_commute: "ref_add a b = ref_add b a"
  by (rule nth_equalityI) (simp_all add: ref_add_def add.commute)

lemma ref_prost_spec: "prost_spec ref_env"
proof -
  have "(if n = 0 then Some KemUnspecified else if n = 1 then Some DhkemX25519HkdfSha256 else None)
      = Some k \<longleftrightarrow> n = kem_as_i32 k" for n k
    by (cases k) auto
  moreover have "(if n = 0 then Some KdfUnspecified else if n = 1 then Some HkdfSha256 else None)
      = Some k \<longleftrightarrow> n = kdf_as_i32 k" for n k
    by (cases k) auto
  moreover have "(if n = 0 then Some AeadUnspecified else if n = 1 then Some Aes256Gcm else None)
      = Some k \<longleftrightarrow> n = aead_as_i32 k" for n k
    by (cases k) auto
  ultimately show ?thesis
    by (simp add: prost_spec_def ref_env_def ref_decode_encode)
      (simp add: ref_encode_def)
qed

lemma ref_uuid_spec: "uuid_spec ref_env"
  by (simp add: uuid_spec_def ref_env_def)

lemma ref_hpke_spec: "hpke_spec ref_env"
  by (auto simp: hpke_spec_def ref_env_def)

lemma ref_x25519_spec: "x25519_spec ref_env"
  by (auto simp: x25519_spec_def ref_env_def ref_add_commute) (simp add: ref_add_def)

lemma ref_hkdf_spec: "hkdf_spec ref_env"
  by (auto simp: hkdf_spec_def ref_env_def split: if_splits)

lemma ref_zeroize_spec: "zeroize_spec ref_env"
  by (simp add: zeroize_spec_def ref_env_def)

lemma ref_secretmem_spec: "secretmem_spec ref_env"
  by (auto simp: secretmem_spec_def ref_env_def)

lemmas ref_specs = ref_prost_spec ref_uuid_spec ref_hpke_spec ref_x25519_spec ref_hkdf_spec
  ref_zeroize_spec ref_secretmem_spec

lemma ref_usable: "KEY_REGISTRY w \<noteq> LazyPoisoned \<Longrightarrow> usable ref_env w"
  by (cases "KEY_REGISTRY w") (simp_all add: usable_def ref_env_def)

lemma ref_vault_granted: "vault_granted ref_env i n"
  by (simp add: vault_granted_def ref_env_def)

section \<open>A caller\<close>

text \<open>
  A suite the cores support, its encoding, a clock that shows one second more at every reading, and
  a memory with an encoded suite at 11, buffers of 16, 32, 32, 48 and 33 bytes at 2 to 6, a length at
  7 and a lifespan at 8, a flag at 9 and an array at 10.
\<close>

definition ref_suite :: HpkeAlgorithm where
  "ref_suite = \<lparr>kem = 1, kdf = 1, aead = 1\<rparr>"

definition ref_clock :: "nat \<Rightarrow> instant" where
  "ref_clock n = n * nanos_per_sec"

definition ref_mem :: "'e list \<Rightarrow> ptr \<Rightarrow> 'e obj option" where
  "ref_mem es =
     [11 \<mapsto> Bytes (ref_encode ref_suite), 2 \<mapsto> Bytes (replicate 16 0), 3 \<mapsto> Bytes (replicate 32 0),
      4 \<mapsto> Bytes (replicate 32 7), 5 \<mapsto> Bytes (replicate 48 0), 6 \<mapsto> Bytes (replicate 33 0),
      7 \<mapsto> UsizeCell 33, 8 \<mapsto> U64Cell 0, 9 \<mapsto> BoolCell False, 10 \<mapsto> Entries es]"

definition ref_world :: "'e list \<Rightarrow> 'e world" where
  "ref_world es = init_world ref_clock (ref_mem es)"

lemma ref_suite_supported: "suite_supported ref_env ref_suite"
  by (simp add: suite_supported_def ref_env_def ref_suite_def)

lemma ref_world_inv: "core_inv P (ref_world es)"
  by (simp add: ref_world_def core_inv_init)

lemma ref_world_usable: "usable ref_env (ref_world es)"
  by (rule ref_usable) (simp add: ref_world_def init_world_def)

text \<open>A world whose registry holds one key, with the handle that is at address 2.\<close>

definition ref_handle :: uuid where
  "ref_handle = Uuid (replicate 16 0)"

definition ref_public :: "nat \<Rightarrow> PublicKey" where
  "ref_public n = X25519_public (X25519PublicKey (replicate 32 (word_of_nat n)))"

definition ref_record :: "KeySpec \<Rightarrow> KeyRecord" where
  "ref_record sp =
     \<lparr>meta = \<lparr>meta_id = ref_handle, created_at = 0, delete_after = 60 * nanos_per_sec, spec = sp\<rparr>,
      private_key = \<lparr>mmap = replicate 32 5\<rparr>\<rparr>"

definition ref_stored :: "KeySpec \<Rightarrow> 'e list \<Rightarrow> 'e world" where
  "ref_stored sp es = (ref_world es)\<lparr>KEY_REGISTRY :=
     Ready \<lparr>keys = [(ref_handle, ref_record sp)], poisoned = False\<rparr>\<rparr>"

lemma ref_stored_contents: "contents (ref_stored sp es) = [ref_handle \<mapsto> ref_record sp]"
  by (auto simp: ref_stored_def lookup_def hm_get_def fun_eq_iff)

lemma ref_stored_inv: "P (ref_record sp) \<Longrightarrow> core_inv P (ref_stored sp es)"
  by (auto simp: core_inv_def ref_stored_contents)
    (auto simp: ref_stored_def ref_world_def init_world_def registry_wf_def hm_wf_def ref_record_def)

lemma ref_stored_usable: "usable ref_env (ref_stored sp es)"
  by (simp add: usable_def ref_stored_def)

lemma ref_stored_simps [simp]:
  "mem (ref_stored sp es) = ref_mem es" "clock (ref_stored sp es) = ref_clock"
  "ticks (ref_stored sp es) = 0" "released (ref_stored sp es) = []" "events (ref_stored sp es) = []"
  "TELEMETRY (ref_stored sp es) = telemetry_default" "draws (ref_stored sp es) = 0"
  "mem (ref_world es) = ref_mem es" "clock (ref_world es) = ref_clock" "contents (ref_world es) = Map.empty"
  "ticks (ref_world es) = 0" "draws (ref_world es) = 0" "syscalls (ref_world es) = 0"
  by (simp_all add: ref_stored_def ref_world_def init_world_def contents_def)

end
