(* ===== verification/Entry_Points.thy ===== *)
theory Entry_Points
  imports Reference_Env
begin

text \<open>
  The contracts of the exported functions, as locales.

  \<^item> \<open>ffi_body\<close>: a closure passed to \<^verbatim>\<open>ffi_call\<close> or \<^verbatim>\<open>ffi_call_i32\<close>, with the set of the
    statuses it can fail with. It leaves the telemetry statics and the log alone.
  \<^item> \<open>ffi_entry\<close> and \<open>ffi_entry_i32\<close>: an exported function. Its lemmas relate the returned
    status to the outcome of the closure and to what was logged.

  The two custody cores interpret them once for each function they export. The theory also has the
  facts about the caller's memory and about definedness that both cores use.
\<close>

section \<open>The caller's memory\<close>

text \<open>What the safety section of an exported function asks of a buffer, and the bytes in it.\<close>

definition valid_buf :: "ptr \<Rightarrow> usize \<Rightarrow> 'e world \<Rightarrow> bool" where
  "valid_buf p len w \<longleftrightarrow> len = 0
     \<or> (case mem w p of Some (Bytes bs) \<Rightarrow> unat len \<le> length bs | _ \<Rightarrow> False)"

definition buf :: "ptr \<Rightarrow> usize \<Rightarrow> 'e world \<Rightarrow> bytes" where
  "buf p len w = (if len = 0 then [] else
     case mem w p of Some (Bytes bs) \<Rightarrow> take (unat len) bs | _ \<Rightarrow> [])"

definition write_mem :: "ptr \<Rightarrow> bytes \<Rightarrow> (ptr \<Rightarrow> 'e obj option) \<Rightarrow> ptr \<Rightarrow> 'e obj option" where
  "write_mem p src m = (case m p of Some (Bytes bs) \<Rightarrow> m(p \<mapsto> Bytes (overwrite src bs)) | _ \<Rightarrow> m)"

lemma from_raw_parts_valid: "valid_buf p len w \<Longrightarrow> from_raw_parts p len w = (Ok (buf p len w), w)"
  by (auto simp: valid_buf_def buf_def from_raw_parts_def split: option.splits obj.splits)

lemma from_raw_parts_mut_valid:
  "valid_buf p len w \<Longrightarrow> from_raw_parts_mut p len w = (Ok (SliceMut p (unat len)), w)"
  by (simp add: from_raw_parts_mut_def bindM_def from_raw_parts_valid returnM_def)

lemma from_raw_parts_same [simp]:
  "snd (from_raw_parts p len w) = w" "snd (from_raw_parts_mut p len w) = w"
  "snd (entries_from_raw_parts_mut p len w) = w" "snd (deref_usize p w) = w" "snd (deref_u64 p w) = w"
  by (simp_all add: from_raw_parts_mut_def bindM_def from_raw_parts_def entries_from_raw_parts_mut_def
      deref_usize_def deref_u64_def returnM_def split: option.splits obj.splits)

lemma from_raw_parts_no_err [simp]:
  "fst (from_raw_parts p len w) \<noteq> Err e" "fst (from_raw_parts_mut p len w) \<noteq> Err e"
  "fst (entries_from_raw_parts_mut p len w) \<noteq> Err e" "fst (deref_usize p w) \<noteq> Err e"
  "fst (deref_u64 p w) \<noteq> Err e"
  by (simp_all add: from_raw_parts_mut_def bindM_def from_raw_parts_def entries_from_raw_parts_mut_def
      deref_usize_def deref_u64_def returnM_def split: option.splits obj.splits)

lemma buf_length: "valid_buf p len w \<Longrightarrow> length (buf p len w) = unat len"
  by (auto simp: valid_buf_def buf_def split: option.splits obj.splits)

lemma valid_buf_frame: "mem w' = mem w \<Longrightarrow> valid_buf p len w' = valid_buf p len w"
  by (simp add: valid_buf_def)

lemma write_bytes_eq: "write_bytes p src w = w\<lparr>mem := write_mem p src (mem w)\<rparr>"
  by (simp add: write_bytes_def write_mem_def split: option.splits obj.splits)

lemma write_mem_other [simp]: "q \<noteq> p \<Longrightarrow> write_mem p src m q = m q"
  by (simp add: write_mem_def split: option.splits obj.splits)

lemma buf_write_mem:
  assumes "valid_buf p len w" and "mem w' p = write_mem p src (mem w) p" and "length src = unat len"
  shows "buf p len w' = src"
  using assms by (auto simp: valid_buf_def buf_def write_mem_def overwrite_def
      split: option.splits obj.splits)

lemma buf_prefix_write_mem:
  assumes "valid_buf p len w" and "mem w' p = write_mem p src (mem w) p" and "length src \<le> unat len"
    and "len' = word_of_nat (length src)"
  shows "buf p len' w' = src"
proof -
  have "unat len' = length src"
    using assms(3,4) unsigned_less [of len, where 'a = nat] by (simp add: unat_of_nat take_bit_nat_eq_self)
  moreover have "len' = 0 \<longleftrightarrow> src = []"
    using calculation by (metis length_0_conv unsigned_0 word_unat_eq_iff)
  ultimately show ?thesis
    using assms(1-3) by (auto simp: valid_buf_def buf_def write_mem_def overwrite_def
        split: option.splits obj.splits)
qed

text \<open>Writes to the caller's memory keep what does not speak of that memory.\<close>

lemma keeps_memory [keeps_rules]:
  "keeps ES I (from_raw_parts p len)" "keeps ES I (from_raw_parts_mut p len)"
  "keeps ES I (entries_from_raw_parts_mut p len)" "keeps ES I (deref_usize p)" "keeps ES I (deref_u64 p)"
  by (rule keeps_same; simp)+

lemma keeps_writes:
  assumes "mem_stable I"
  shows "keeps ES I (copy_prefix_from_slice s n src)" "keeps ES I (copy_from_slice s src)"
    "keeps ES I (store p v)" "keeps ES I (set_entry s i x)"
  using assms by (auto simp: copy_from_slice_def copy_prefix_from_slice_def store_def set_entry_def
      write_bytes_eq mem_stable_def intro!: keeps_rules split: option.splits obj.splits)

lemma machine_stable_drop: "machine_stable E I \<Longrightarrow> I w \<Longrightarrow> I (KeyRecord_drop E rec w)"
  using keeps_crypto(5) [of E I "{}" "[rec]"] by (simp add: keeps_alt updateM_def)

lemma yields_PublicKey_try_from:
  "InvalidArgument \<in> ES \<Longrightarrow>
   yields ES I (\<lambda>b. length (PublicKey_as_bytes b) = 32) (PublicKey_try_from bs)"
  by (auto intro!: yieldsI simp: PublicKey_try_from_eq split: if_splits)

text \<open>Writes that fit, as updates of the memory.\<close>

lemma write_simps:
  "length src = n \<Longrightarrow>
     copy_from_slice (SliceMut p n) src = updateM (\<lambda>v. v\<lparr>mem := write_mem p src (mem v)\<rparr>)"
  "length src \<le> n \<Longrightarrow> copy_prefix_from_slice (SliceMut p n) (length src) src
     = updateM (\<lambda>v. v\<lparr>mem := write_mem p src (mem v)\<rparr>)"
  "store p x = updateM (\<lambda>v. v\<lparr>mem := (mem v)(p \<mapsto> x)\<rparr>)"
  "bindM (updateM f) (\<lambda>_. updateM g) = updateM (\<lambda>v. g (f v))"
  by (auto simp: copy_from_slice_def copy_prefix_from_slice_def store_def fun_eq_iff updateM_def
      write_bytes_eq bindM_def)

text \<open>
  A computation that writes to the caller's memory only when it returns normally: what precedes
  the writes keeps the memory, and nothing fails after the first write.
\<close>

definition writes_on_success :: "('x, 'e world, 'a) rust \<Rightarrow> bool" where
  "writes_on_success m \<longleftrightarrow> (\<forall>w r w'. m w = (r, w') \<longrightarrow> (\<forall>a. r \<noteq> Ok a) \<longrightarrow> mem w' = mem w)"

definition keeps_mem :: "('x, 'e world, 'a) rust \<Rightarrow> bool" where
  "keeps_mem m \<longleftrightarrow> (\<forall>M. keeps UNIV (\<lambda>w. mem w = M) m)"

lemma writes_on_success_bindM:
  assumes "keeps_mem m" and "\<And>a. writes_on_success (f a)"
  shows "writes_on_success (bindM m f)"
proof -
  have "mem t = mem w" if "m w = (r, t)" for w r t
    using assms(1) that keepsD by (fastforce simp: keeps_mem_def)
  then show ?thesis
    using assms(2) unfolding writes_on_success_def bindM_def
    by (auto split: outcome.splits prod.splits)
qed

lemma writes_on_success_basic:
  "writes_on_success (returnM a)" "writes_on_success (errM e)" "writes_on_success panicM"
  by (simp_all add: writes_on_success_def basicM_defs)

lemma writes_on_success_if:
  "(b \<Longrightarrow> writes_on_success m) \<Longrightarrow> (\<not> b \<Longrightarrow> writes_on_success m') \<Longrightarrow>
   writes_on_success (if b then m else m')"
  by simp

lemma writes_on_success_store: "writes_on_success (store p v)"
  by (simp add: writes_on_success_def store_def updateM_def)

text \<open>A write whose lengths fit, before more writes.\<close>

lemma writes_on_success_copy:
  "length src = slice_len s \<Longrightarrow> writes_on_success (copy_from_slice s src)"
  "n \<le> slice_len s \<Longrightarrow> length src = n \<Longrightarrow> writes_on_success (copy_prefix_from_slice s n src)"
  by (simp_all add: writes_on_success_def copy_from_slice_def copy_prefix_from_slice_def updateM_def)

definition always_returns :: "('x, 's, 'a) rust \<Rightarrow> bool" where
  "always_returns m \<longleftrightarrow> (\<forall>w. \<exists>a w'. m w = (Ok a, w'))"

lemma always_returns_writes:
  "always_returns m \<Longrightarrow> writes_on_success m"
  unfolding always_returns_def writes_on_success_def by (metis fst_conv)

lemma always_returns_bindM:
  assumes "always_returns m" and "\<And>a. always_returns (f a)"
  shows "always_returns (bindM m f)"
  unfolding always_returns_def
proof
  fix w
  obtain a t where "m w = (Ok a, t)"
    using assms(1) unfolding always_returns_def by blast
  then show "\<exists>b w'. bindM m f w = (Ok b, w')"
    using assms(2) by (simp add: bindM_def always_returns_def)
qed

lemma always_returns_copy:
  "length src = slice_len s \<Longrightarrow> always_returns (copy_from_slice s src)"
  "n \<le> slice_len s \<Longrightarrow> length src = n \<Longrightarrow> always_returns (copy_prefix_from_slice s n src)"
  "always_returns (store p v)"
  by (simp_all add: always_returns_def copy_from_slice_def copy_prefix_from_slice_def store_def updateM_def)

lemma writes_on_success_first:
  assumes "\<And>a. always_returns (f a)"
  shows "writes_on_success (bindM (copy_from_slice s src) f)"
proof (cases "length src = slice_len s")
  case True
  then show ?thesis
    by (intro always_returns_writes always_returns_bindM always_returns_copy assms)
next
  case False
  then show ?thesis
    by (simp add: copy_from_slice_def copy_prefix_from_slice_def writes_on_success_basic)
qed

lemma keeps_mem_machine:
  assumes "\<And>I. machine_stable E I \<Longrightarrow> \<exists>ES. keeps ES I m"
  shows "keeps_mem m"
  unfolding keeps_mem_def
proof
  fix M
  obtain ES where "keeps ES (\<lambda>w. mem w = M) m"
    using assms custody_stable_machine [OF custody_stable_mem] by blast
  then show "keeps UNIV (\<lambda>w. mem w = M) m"
    by (rule keeps_mono) simp
qed

lemma keeps_mem_rules:
  "keeps_mem (decaps E key enc)" "keeps_mem (hpke_open E key enc ct aad algo)"
  "keeps_mem (hpke_seal E pub pt aad algo)" "keeps_mem Instant_now"
  "keeps_mem (create_bound_kem_key E algo b d)" "keeps_mem (create_binding_key E algo d)"
  "keeps_mem (updateM (KeyRecord_drop E rec))"
proof -
  note machine = keeps_mem_machine [of E, OF exI]
  show "keeps_mem (decaps E key enc)" "keeps_mem (hpke_open E key enc ct aad algo)"
    "keeps_mem (hpke_seal E pub pt aad algo)" "keeps_mem Instant_now"
    by (rule machine, erule keeps_crypto)+
  show "keeps_mem (create_bound_kem_key E algo b d)"
    by (rule machine, erule keeps_create_bound_kem_key)
  show "keeps_mem (create_binding_key E algo d)"
    unfolding create_binding_key_def by (rule machine, erule keeps_create)
  show "keeps_mem (updateM (KeyRecord_drop E rec))"
    by (rule machine, rule keeps_updateM, erule machine_stable_drop, assumption)
qed

lemma keeps_mem_static:
  "keeps_mem (static_add_key E rec)" "keeps_mem (static_remove_key E h)"
  "keeps_mem (static_remove_all_keys E)" "keeps_mem (static_get_key E h)"
  "keeps_mem (static_list_all_keys E offset limit)"
  by (simp_all add: keeps_mem_def keeps_static [OF custody_stable_mem])

lemma keeps_mem_pure:
  "keeps_mem (from_raw_parts p len)" "keeps_mem (from_raw_parts_mut p len)"
  "keeps_mem (entries_from_raw_parts_mut p len)" "keeps_mem (deref_usize p)" "keeps_mem (deref_u64 p)"
  "keeps_mem (returnM a)" "keeps_mem (errM e)" "keeps_mem (ok_orM x s)" "keeps_mem (PublicKey_try_from bs)"
  by (auto simp: keeps_mem_def keeps_memory ok_orM_def keeps_basic PublicKey_try_from_def
      split: option.splits intro!: keeps_rules)

lemma keeps_mem_bindM: "keeps_mem m \<Longrightarrow> (\<And>a. keeps_mem (f a)) \<Longrightarrow> keeps_mem (bindM m f)"
  by (simp add: keeps_mem_def keeps_bindM)

lemma keeps_mem_if: "keeps_mem m \<Longrightarrow> keeps_mem m' \<Longrightarrow> keeps_mem (if b then m else m')"
  by simp

lemmas mem_rules = writes_on_success_bindM writes_on_success_basic writes_on_success_if
  keeps_mem_rules keeps_mem_static keeps_mem_pure keeps_mem_bindM keeps_mem_if

section \<open>Definedness\<close>

definition never_undefined :: "('e, 's, 'a) rust \<Rightarrow> bool" where
  "never_undefined m \<longleftrightarrow> (\<forall>s. fst (m s) \<noteq> Undefined)"

named_theorems defined_rules \<open>computations without undefined behaviour\<close>

lemma never_undefinedD: "never_undefined m \<Longrightarrow> m s \<noteq> (Undefined, t)"
  by (metis fst_conv never_undefined_def)

lemma never_undefined_bindM [defined_rules]:
  "never_undefined m \<Longrightarrow> (\<And>a. never_undefined (f a)) \<Longrightarrow> never_undefined (bindM m f)"
  unfolding never_undefined_def [of "bindM m f"]
  by (auto simp: bindM_def dest: never_undefinedD [THEN notE] split: outcome.splits prod.splits)
    (metis fst_conv never_undefined_def)

lemma never_undefined_basic [defined_rules]:
  "never_undefined (returnM a)" "never_undefined (errM e)" "never_undefined panicM"
  "never_undefined (updateM f)" "never_undefined (ok_orM x e)"
  "never_undefined Instant_now" "never_undefined draw" "never_undefined syscall"
  by (simp_all add: never_undefined_def basicM_defs ok_orM_def machine_defs split: option.splits)

lemma never_undefined_if [defined_rules]:
  "never_undefined m \<Longrightarrow> never_undefined m' \<Longrightarrow> never_undefined (if b then m else m')"
  by simp

lemma never_undefined_unwindM [defined_rules]: "never_undefined m \<Longrightarrow> never_undefined (unwindM f m)"
  by (auto simp: never_undefined_def [of "unwindM f m"] unwindM_def split: prod.splits
      dest: never_undefinedD)

lemma never_undefined_crypto [defined_rules]:
  "never_undefined (decaps E key enc)" "never_undefined (hpke_open E key enc ct aad algo)"
  "never_undefined (hpke_seal E pub pt aad algo)" "never_undefined (PublicKey_try_from value)"
  "never_undefined (generate_keypair E alg)" "never_undefined (map_errM f (Vault_new E data))"
  using never_undefinedD [of "Vault_new E data"] Vault_new_never_undefined [of E data]
  by (auto simp: never_undefined_def crypto_never_undefined PublicKey_try_from_eq
      generate_keypair_def x25519_generate_keypair_def bindM_def basicM_defs draw_def map_errM_def
      split: KemAlgorithm.splits prod.splits option.splits outcome.splits)

lemma never_undefined_create [defined_rules]:
  "never_undefined (create_key_internal E algo expiry mk)"
  "never_undefined (create_bound_kem_key E algo binding_pub expiry)"
  "never_undefined (create_binding_key E algo expiry)"
proof -
  show create: "never_undefined (create_key_internal E algo expiry mk)" for mk
    by (auto simp: create_key_internal_def Let_def split: option.splits prod.splits
        intro!: defined_rules simp del: bindM_draw bindM_Instant_now bindM_updateM)
  show "never_undefined (create_bound_kem_key E algo binding_pub expiry)"
    "never_undefined (create_binding_key E algo expiry)"
    by (simp_all add: create_bound_kem_key_cases create_binding_key_def create defined_rules)
qed

lemma never_undefined_registry [defined_rules]:
  "never_undefined (static_add_key E rec)" "never_undefined (static_remove_key E h)"
  "never_undefined (static_remove_all_keys E)" "never_undefined (static_get_key E h)"
  "never_undefined (static_list_all_keys E offset limit)"
proof -
  have force: "never_undefined (force_registry E)" for E :: "('s, 'r, 'p) env"
    by (simp add: never_undefined_def force_registry_def basicM_defs split: lazy_registry.splits)
  show "never_undefined (static_add_key E rec)" "never_undefined (static_remove_key E h)"
    "never_undefined (static_remove_all_keys E)" "never_undefined (static_get_key E h)"
    "never_undefined (static_list_all_keys E offset limit)"
    unfolding static_add_key_def static_remove_key_def static_remove_all_keys_def static_get_key_def
      static_list_all_keys_def add_key_def remove_key_def remove_all_keys_def get_key_def
      list_all_keys_def Let_def
    by (auto split: option.splits prod.splits intro!: defined_rules force
        simp del: bindM_Instant_now bindM_updateM)
qed

lemma never_undefined_writes [defined_rules]:
  "never_undefined (copy_prefix_from_slice s n src)" "never_undefined (copy_from_slice s src)"
  "never_undefined (store p v)" "never_undefined (set_entry s i x)"
  by (simp_all add: copy_from_slice_def copy_prefix_from_slice_def store_def set_entry_def defined_rules)

section \<open>Exported functions\<close>

locale ffi_body =
  fixes errors :: "Status set" and body :: "(Status, 'e world, 'a) rust"
  assumes keeps_log: "keeps errors (logged t ev) body"
    and errors_proper: "StatusUnspecified \<notin> errors" "Success \<notin> errors"
begin

lemma log_untouched:
  "body w = (r, w') \<Longrightarrow> TELEMETRY w' = TELEMETRY w \<and> events w' = events w"
  using keepsD [OF keeps_log, of "TELEMETRY w" "events w" w r w'] by (simp add: logged_def)

lemma error_in: "body w = (Err s, w') \<Longrightarrow> s \<in> errors"
  using keeps_ErrD [OF keeps_log, of "TELEMETRY w" "events w" w s w'] by (simp add: logged_def)

lemma error_proper: "body w = (Err s, w') \<Longrightarrow> s \<noteq> Success \<and> s \<noteq> StatusUnspecified"
  using error_in errors_proper by blast

end

text \<open>The events a call may add: none on success, otherwise the report, after the hook's event.\<close>

definition call_events :: "telemetry \<Rightarrow> KccOperation \<Rightarrow> Status \<Rightarrow> FailureKind \<Rightarrow> tracing_event list" where
  "call_events t op s k =
     (if k = PanicKind then panic_hook_events t else [])
     @ [report_failure t \<lparr>operation = op, status = s, kind = k\<rparr>]"

lemma call_events_sanitized: "e \<in> set (call_events t op s k) \<Longrightarrow> sanitized (get_service_name t) e"
  by (auto simp: call_events_def report_failure_sanitized panic_hook_sanitized split: if_splits)

locale ffi_entry = ffi_body errors body
  for errors :: "Status set" and body :: "(Status, 'e world, unit) rust" +
  fixes op :: KccOperation
begin

lemma success_iff: "ffi_call op body w = (Returns Success, w') \<longleftrightarrow> body w = (Ok (), w')"
  using error_proper [of w] by (auto simp: ffi_call_def ffi_call_with_reporter_def
      split: outcome.splits prod.splits)

lemma failure_cases:
  assumes "ffi_call op body w = (Returns s, w')" and "s \<noteq> Success"
  obtains (error) u where "body w = (Err s, u)" and "s \<in> errors"
      and "w' = u\<lparr>events := events w @ call_events (TELEMETRY w) op s ErrorKind\<rparr>"
    | (panic) u where "body w = (Panicked, u)" and "s = InternalError"
      and "w' = u\<lparr>events := events w @ call_events (TELEMETRY w) op s PanicKind\<rparr>"
  using assms log_untouched [of w] error_in [of w]
  by (auto simp: ffi_call_def ffi_call_with_reporter_def telemetry_report_failure_def
      run_panic_hook_def call_events_def split: outcome.splits prod.splits)

lemma status_range:
  "ffi_call op body w = (Returns s, w') \<Longrightarrow> s \<in> insert Success (insert InternalError errors)"
  by (cases "s = Success") (auto elim: failure_cases)

lemma log_after:
  assumes "ffi_call op body w = (Returns s, w')"
  shows "TELEMETRY w' = TELEMETRY w"
    and "if s = Success then events w' = events w
         else \<exists>k. events w' = events w @ call_events (TELEMETRY w) op s k"
proof -
  have "TELEMETRY w' = TELEMETRY w \<and> (if s = Success then events w' = events w
         else \<exists>k. events w' = events w @ call_events (TELEMETRY w) op s k)"
  proof (cases "s = Success")
    case True
    then show ?thesis using assms success_iff log_untouched by auto
  next
    case False
    from assms(1) False show ?thesis
      by (rule failure_cases) (use False in \<open>auto dest: log_untouched\<close>)
  qed
  then show "TELEMETRY w' = TELEMETRY w"
    and "if s = Success then events w' = events w
         else \<exists>k. events w' = events w @ call_events (TELEMETRY w) op s k" by auto
qed

lemma log_sanitized:
  assumes "ffi_call op body w = (Returns s, w')"
  shows "\<exists>new. events w' = events w @ new \<and> (\<forall>e \<in> set new. sanitized (get_service_name (TELEMETRY w)) e)"
  using log_after(2) [OF assms] call_events_sanitized by (cases "s = Success") fastforce+

end

locale ffi_entry_i32 = ffi_body errors body
  for errors :: "Status set" and body :: "(Status, 'e world, i32) rust" +
  fixes op :: KccOperation
begin

lemma result_cases:
  assumes "ffi_call_i32 op body w = (Returns v, w')"
  obtains (returned) "body w = (Ok v, w')"
    | (error) u s where "body w = (Err s, u)" and "s \<in> errors" and "v = - status_as_i32 s"
      and "w' = u\<lparr>events := events w @ call_events (TELEMETRY w) op s ErrorKind\<rparr>"
    | (panic) u where "body w = (Panicked, u)" and "v = - status_as_i32 InternalError"
      and "w' = u\<lparr>events := events w @ call_events (TELEMETRY w) op InternalError PanicKind\<rparr>"
proof (cases "body w")
  case (Pair r u)
  note log = log_untouched [OF Pair]
  show ?thesis
  proof (cases r)
    case (Ok a)
    then show ?thesis
      using returned assms Pair by (simp add: ffi_call_i32_def ffi_call_i32_with_reporter_def)
  next
    case (Err s)
    have "s \<in> errors" using Pair Err error_in by simp
    then show ?thesis
      using error [of s u] assms Pair Err log
      by (simp add: ffi_call_i32_def ffi_call_i32_with_reporter_def telemetry_report_failure_def
          call_events_def)
  next
    case Panicked
    then show ?thesis
      using panic [of u] assms Pair log
      by (simp add: ffi_call_i32_def ffi_call_i32_with_reporter_def telemetry_report_failure_def
          run_panic_hook_def call_events_def)
  next
    case Undefined
    then show ?thesis
      using assms Pair by (simp add: ffi_call_i32_def ffi_call_i32_with_reporter_def)
  qed
qed

lemma telemetry_after:
  assumes "ffi_call_i32 op body w = (Returns v, w')"
  shows "TELEMETRY w' = TELEMETRY w"
  using assms by (rule result_cases) (auto dest: log_untouched)

lemma log_sanitized:
  assumes "ffi_call_i32 op body w = (Returns v, w')"
  shows "\<exists>new. events w' = events w @ new \<and> (\<forall>e \<in> set new. sanitized (get_service_name (TELEMETRY w)) e)"
  using assms by (rule result_cases) (auto dest: log_untouched call_events_sanitized)

end

text \<open>State predicates that do not speak of the log survive the wrapper.\<close>

lemma ffi_call_keeps:
  assumes "keeps ES I body" and "\<And>w ev. I w \<Longrightarrow> I (w\<lparr>events := ev\<rparr>)" and "I w"
    and "ffi_call op body w = (r, w')"
  shows "I w'"
  using assms keepsD [OF assms(1,3)] by (auto simp: ffi_call_def ffi_call_with_reporter_def
      telemetry_report_failure_def run_panic_hook_def split: outcome.splits prod.splits)

lemma ffi_call_i32_keeps:
  assumes "keeps ES I body" and "\<And>w ev. I w \<Longrightarrow> I (w\<lparr>events := ev\<rparr>)" and "I w"
    and "ffi_call_i32 op body w = (r, w')"
  shows "I w'"
  using assms keepsD [OF assms(1,3)] by (auto simp: ffi_call_i32_def ffi_call_i32_with_reporter_def
      telemetry_report_failure_def run_panic_hook_def split: outcome.splits prod.splits)

lemma ffi_call_failure_mem:
  assumes "writes_on_success body" and "ffi_call op body w = (Returns s, w')" and "s \<noteq> Success"
  shows "mem w' = mem w"
proof (cases "body w")
  case (Pair r v)
  have "mem v = mem w" if "\<forall>a. r \<noteq> Ok a"
    using assms(1) Pair that by (auto simp: writes_on_success_def)
  then show ?thesis
    using assms(2,3) Pair by (auto simp: ffi_call_def ffi_call_with_reporter_def
        telemetry_report_failure_def run_panic_hook_def split: outcome.splits)
qed

lemma core_inv_events: "core_inv P w \<Longrightarrow> core_inv P (w\<lparr>events := ev\<rparr>)"
  by (simp add: core_inv_def contents_def)

lemma ffi_call_defined:
  "fst (body w) \<noteq> Undefined \<Longrightarrow> fst (ffi_call op body w) \<noteq> UndefinedBehaviour"
  by (auto simp: ffi_call_def ffi_call_with_reporter_def split: outcome.splits prod.splits)

lemma ffi_call_i32_defined:
  "fst (body w) \<noteq> Undefined \<Longrightarrow> fst (ffi_call_i32 op body w) \<noteq> UndefinedBehaviour"
  by (auto simp: ffi_call_i32_def ffi_call_i32_with_reporter_def split: outcome.splits prod.splits)

section \<open>Key records\<close>

text \<open>
  What every record in a registry satisfies: a supported suite, a 16-byte handle, a deadline in the
  range of the clock, and the two halves of one generated key pair.
\<close>

definition own_public_key :: "KeySpec \<Rightarrow> PublicKey" where
  "own_public_key sp = (case sp of KemWithBindingPub _ k _ \<Rightarrow> k | Binding _ b \<Rightarrow> b)"

definition key_pair :: "('s, 'r, 'p) env \<Rightarrow> nat \<Rightarrow> PublicKey \<times> PrivateKey" where
  "key_pair E n =
     (X25519_public (X25519PublicKey (fst (Kem_generate_keypair E X25519HkdfSha256_Kem n))),
      PrivateKey_from (SecretBox (snd (Kem_generate_keypair E X25519HkdfSha256_Kem n))))"

definition record_ok :: "('s, 'r, 'p) env \<Rightarrow> KeyRecord \<Rightarrow> bool" where
  "record_ok E rec \<longleftrightarrow>
     suite_supported E (spec_algo (spec (meta rec)))
   \<and> length (as_bytes (meta_id (meta rec))) = 16
   \<and> delete_after (meta rec) div nanos_per_sec \<le> i64_max
   \<and> (\<exists>n. key_pair E n = (own_public_key (spec (meta rec)), get_private_key rec))"

lemma length_key_pair: "hpke_spec E \<Longrightarrow> length (PublicKey_as_bytes (fst (key_pair E n))) = 32"
  by (simp add: key_pair_def length_keypair_public)

lemma record_ok_length:
  "hpke_spec E \<Longrightarrow> record_ok E rec \<Longrightarrow> length (PublicKey_as_bytes (own_public_key (spec (meta rec)))) = 32"
  unfolding record_ok_def by (metis fst_conv length_key_pair)

lemma create_key_internal_record_ok:
  assumes "hpke_spec E" and "uuid_spec E"
    and "\<And>a pk. spec_algo (mk a pk) = a" and "\<And>a pk. own_public_key (mk a pk) = pk"
    and "create_key_internal E algo expiry mk m = (Ok rec, m')"
  shows "record_ok E rec"
  using create_key_internal_Ok [OF assms(1,5)] assms(2-4)
  by (auto simp: record_ok_def uuid_spec_def key_pair_def)

lemma yields_conj_keeps:
  assumes "keeps ES I m" and "\<And>s a t. m s = (Ok a, t) \<Longrightarrow> R a"
  shows "yields ES I R m"
  by (rule yieldsI) (use assms keepsD [OF assms(1)] keeps_ErrD [OF assms(1)] in blast)

lemma yields_create:
  assumes "hpke_spec E" and "uuid_spec E" and "machine_stable E I"
  shows "yields {UnsupportedAlgorithm, CryptoError, InvalidKey} I
      (\<lambda>rec. record_ok E rec \<and> (\<exists>k. spec (meta rec) = KemWithBindingPub algo k binding_pub))
      (create_bound_kem_key E algo binding_pub expiry)"
    and "yields {UnsupportedAlgorithm, CryptoError} I
      (\<lambda>rec. record_ok E rec \<and> (\<exists>k. spec (meta rec) = Binding algo k)) (create_binding_key E algo expiry)"
proof -
  have "record_ok E rec \<and> (\<exists>k. spec (meta rec) = KemWithBindingPub algo k binding_pub)"
    if "create_bound_kem_key E algo binding_pub expiry m = (Ok rec, m')" for m rec m'
    using that create_key_internal_Ok(2) [OF assms(1)] create_key_internal_record_ok [OF assms(1,2)]
    by (fastforce simp: create_bound_kem_key_cases own_public_key_def errM_def split: if_splits)
  then show "yields {UnsupportedAlgorithm, CryptoError, InvalidKey} I
      (\<lambda>rec. record_ok E rec \<and> (\<exists>k. spec (meta rec) = KemWithBindingPub algo k binding_pub))
      (create_bound_kem_key E algo binding_pub expiry)"
    by (rule yields_conj_keeps [OF keeps_create_bound_kem_key [OF assms(3)]])
  have "record_ok E rec \<and> (\<exists>k. spec (meta rec) = Binding algo k)"
    if "create_binding_key E algo expiry m = (Ok rec, m')" for m rec m'
    using that create_key_internal_Ok(2) [OF assms(1)] create_key_internal_record_ok [OF assms(1,2)]
    by (fastforce simp: create_binding_key_def own_public_key_def)
  then show "yields {UnsupportedAlgorithm, CryptoError} I
      (\<lambda>rec. record_ok E rec \<and> (\<exists>k. spec (meta rec) = Binding algo k)) (create_binding_key E algo expiry)"
    by (rule yields_conj_keeps [OF keeps_create [OF assms(3), of algo expiry "\<lambda>a pk. Binding a pk",
          folded create_binding_key_def]])
qed

section \<open>Key generation, in both cores\<close>

text \<open>
  The common shape of \<^verbatim>\<open>generate_kem_keypair_internal\<close> and
  \<^verbatim>\<open>generate_binding_keypair_internal\<close>: make a record, store it, hand out its handle and public key.
\<close>

definition create_and_add :: "('s, 'r, 'p) env \<Rightarrow> HpkeAlgorithm \<Rightarrow> duration \<Rightarrow>
    (HpkeAlgorithm \<Rightarrow> PublicKey \<Rightarrow> KeySpec) \<Rightarrow> (Status, 'z custody_scheme, uuid \<times> PublicKey) rust" where
  "create_and_add E algo d mk =
     bindM (create_key_internal E algo d mk) (\<lambda>rec.
     bindM (static_add_key E rec) (\<lambda>_.
     returnM (meta_id (meta rec), own_public_key (spec (meta rec)))))"

lemma static_add_key_usable:
  assumes "core_inv P w" and "static_add_key E rec w = (Ok u, w')"
  shows "usable E w"
proof (rule ccontr)
  assume "\<not> usable E w"
  then obtain v where "force_registry E w = (Panicked, v)"
    using force_registry_unusable [OF _ assms(1)] by blast
  then show False
    using assms(2) by (simp add: static_add_key_def bindM_def unwindM_def)
qed

lemma static_add_key_Ok:
  assumes "core_inv P w" and "static_add_key E rec w = (Ok u, w')"
  shows "contents w' = (contents w)(meta_id (meta rec) \<mapsto> rec)" "clock w' = clock w"
    "ticks w' = ticks w" "draws w' = draws w" "usable E w'"
  using assms(2) static_add_key_eq [OF assms(1) static_add_key_usable [OF assms], of rec]
    added_props(2) [OF registry_of_wf [OF assms(1)], of rec]
  by (auto intro: usable_Ready)

lemma static_add_key_mem:
  fixes w :: "'e world"
  assumes "core_inv P w" and "static_add_key E rec w = (Ok u, w')"
  shows "mem w' = mem w"
  using assms(2) static_add_key_eq [OF assms(1) static_add_key_usable [OF assms], of rec] by auto

text \<open>The record of a key that was created at a state.\<close>

definition new_metadata :: "('s, 'r, 'p) env \<Rightarrow> HpkeAlgorithm \<Rightarrow> duration \<Rightarrow>
    (HpkeAlgorithm \<Rightarrow> PublicKey \<Rightarrow> KeySpec) \<Rightarrow> 'z machine_scheme \<Rightarrow> KeyMetadata" where
  "new_metadata E algo d mk w =
     \<lparr>meta_id = Uuid_new_v4 E (Suc (draws w)), created_at = clock w (ticks w),
      delete_after = clock w (ticks w) + d, spec = mk algo (fst (key_pair E (draws w)))\<rparr>"

lemma create_and_add_Ok:
  fixes w :: "'e world"
  assumes "hpke_spec E" and "core_inv P w" and "\<And>a pk. own_public_key (mk a pk) = pk"
    and "create_and_add E algo d mk w = (Ok (h, pk), w')"
  shows "\<exists>rec. contents w' = (contents w)(h \<mapsto> rec) \<and> meta rec = new_metadata E algo d mk w
       \<and> get_private_key rec = snd (key_pair E (draws w))"
    and "h = Uuid_new_v4 E (Suc (draws w))" and "pk = fst (key_pair E (draws w))"
    and "suite_supported E algo" and "mem w' = mem w" and "usable E w'"
    and "(clock w (ticks w) + d) div nanos_per_sec \<le> i64_max"
proof -
  obtain rec v where create: "create_key_internal E algo d mk w = (Ok rec, v)"
    and add: "static_add_key E rec v = (Ok (), w')"
    and h: "h = meta_id (meta rec)" and pk: "pk = own_public_key (spec (meta rec))"
    using assms(4) by (auto simp: create_and_add_def bindM_eq_Ok returnM_def)
  note made = create_key_internal_Ok [OF assms(1) create]
  have inv: "core_inv P v"
    using assms(2) made(8,9) machine_more_custody(1) [of v w] core_inv_same [of v w P] by simp
  have same: "contents v = contents w" "mem v = mem w"
    using machine_more_world [OF made(9)] contents_frame [of v w] by simp_all
  have meta: "meta rec = new_metadata E algo d mk w"
    using made(2) by (simp add: new_metadata_def key_pair_def)
  show "h = Uuid_new_v4 E (Suc (draws w))" "pk = fst (key_pair E (draws w))"
    using h pk meta assms(3) by (simp_all add: new_metadata_def)
  show "\<exists>rec. contents w' = (contents w)(h \<mapsto> rec) \<and> meta rec = new_metadata E algo d mk w
       \<and> get_private_key rec = snd (key_pair E (draws w))"
    using static_add_key_Ok(1) [OF inv add] h meta made(3) same(1) by (auto simp: key_pair_def)
  show "suite_supported E algo" "(clock w (ticks w) + d) div nanos_per_sec \<le> i64_max"
    by (fact made)+
  show "mem w' = mem w" "usable E w'"
    using static_add_key_mem [OF inv add] static_add_key_Ok(5) [OF inv add] same(2) by simp_all
qed

lemma create_and_add_total:
  fixes w :: "'e world"
  assumes "hpke_spec E" and "secretmem_spec E" and "core_inv P w" and "suite_supported E algo"
    and "vault_granted E (syscalls w) 32" and "usable E (w\<lparr>syscalls := syscalls w + 3\<rparr>)"
    and "(clock w (ticks w) + d) div nanos_per_sec \<le> i64_max"
  shows "\<exists>h pk w'. create_and_add E algo d mk w = (Ok (h, pk), w')"
proof -
  obtain rec v where create: "create_key_internal E algo d mk w = (Ok rec, v)"
    and sys: "syscalls v = syscalls w + 3"
    using create_key_internal_total [OF assms(1,2,4,5,7)] by blast
  note made = create_key_internal_Ok [OF assms(1) create]
  have inv: "core_inv P v"
    using assms(3) made(8,9) machine_more_custody(1) [of v w] core_inv_same [of v w P] by simp
  have "usable E v"
    using assms(6) sys machine_more_world(1) [OF made(9)] by (simp add: usable_def split: lazy_registry.splits)
  then show ?thesis
    by (simp add: create_and_add_def bindM_def create static_add_key_eq [OF inv] returnM_def)
qed

text \<open>A failed generation leaves the registry's contents and the caller's memory alone.\<close>

lemma static_add_key_no_err: "static_add_key E rec (w :: 'e world) \<noteq> (Err e, w')"
  using keeps_ErrD [OF keeps_static(1) [OF custody_stable_mem [of "mem w"], of "{}"], of w E rec e w']
  by auto

lemma create_and_add_Err:
  fixes w :: "'e world"
  assumes "hpke_spec E" and "create_and_add E algo d mk w = (Err e, w')"
  shows "contents w' = contents w" "mem w' = mem w" "e \<in> {UnsupportedAlgorithm, CryptoError}"
proof -
  have "create_key_internal E algo d mk w = (Err e, w')"
    using assms(2) static_add_key_no_err [of E]
    by (auto simp: create_and_add_def bindM_def returnM_def split: outcome.splits prod.splits)
  note always = create_key_internal_always [OF assms(1) this]
  show "contents w' = contents w" "mem w' = mem w" "e \<in> {UnsupportedAlgorithm, CryptoError}"
    using always(1) machine_more_world [OF always(3)] contents_frame [of w' w] by simp_all
qed

text \<open>The end of both closures: the check of the length, and the two copies.\<close>

lemma write_key_eq:
  assumes "length (as_bytes h) = 16"
  shows "(if unat len \<noteq> length bs then errM InvalidArgument
     else bindM (copy_from_slice (SliceMut out_uuid 16) (as_bytes h)) (\<lambda>_.
          copy_from_slice (SliceMut out_pubkey (unat len)) bs)) w
   = (if unat len \<noteq> length bs then (Err InvalidArgument, w)
      else (Ok (), w\<lparr>mem := write_mem out_pubkey bs (write_mem out_uuid (as_bytes h) (mem w))\<rparr>))"
  using assms by (simp add: copy_from_slice_def copy_prefix_from_slice_def errM_def updateM_def
      write_bytes_eq)

lemma core_inv_contents: "core_inv P w \<Longrightarrow> contents w h = Some rec \<Longrightarrow> P rec"
  by (simp add: core_inv_def)

section \<open>Lookup and removal, in both cores\<close>

definition looked_up :: "KeyHandle \<Rightarrow> 'z custody_scheme \<Rightarrow> 'z custody_scheme" where
  "looked_up h w = (forced w)\<lparr>ticks := (if contents w h = None then ticks w else Suc (ticks w))\<rparr>"

lemma looked_up_simps [simp]:
  "contents (looked_up h w) = contents w" "clock (looked_up h w) = clock w"
  "draws (looked_up h w) = draws w" "released (looked_up h w) = released w"
  "mem (looked_up h u) = mem u" "events (looked_up h u) = events u" "TELEMETRY (looked_up h u) = TELEMETRY u"
  using contents_frame [of "looked_up h w" "forced w"] by (simp_all add: looked_up_def)

lemma static_get_key_bind:
  assumes "core_inv P w" and "usable E w"
  shows "bindM (static_get_key E h) (\<lambda>found. bindM (ok_orM found NotFound) f) w =
     (case unexpired (clock w (ticks w)) (contents w h) of
        None \<Rightarrow> (Err NotFound, looked_up h w)
      | Some rec \<Rightarrow> f rec (looked_up h w))"
  by (simp add: bindM_def [of "static_get_key _ _"] static_get_key_eq [OF assms] looked_up_def errM_def
      split: option.splits)

lemma static_remove_key_bind:
  assumes "core_inv P w" and "usable E w"
  shows "bindM (static_remove_key E h) (\<lambda>old. bindM (ok_orM old NotFound)
        (\<lambda>rec. updateM (KeyRecord_drop E rec))) w =
     (case contents w h of
        None \<Rightarrow> (Err NotFound, (forced w)\<lparr>KEY_REGISTRY := Ready (removed h (registry_of w))\<rparr>)
      | Some rec \<Rightarrow> (Ok (), KeyRecord_drop E rec
          ((forced w)\<lparr>KEY_REGISTRY := Ready (removed h (registry_of w))\<rparr>)))"
  by (simp add: bindM_def [of "static_remove_key _ _"] static_remove_key_eq [OF assms] basicM_defs
      split: option.splits)

lemma contents_KeyRecord_drop [simp]: "contents (KeyRecord_drop E rec w) = contents w"
  by (rule contents_frame) simp

lemma contents_events [simp]: "contents (w\<lparr>events := ev\<rparr>) = contents w"
  by (simp add: contents_def)

lemma contents_mem [simp]: "contents (w\<lparr>mem := m\<rparr>) = contents w"
  by (simp add: contents_def)

text \<open>What a removal leaves behind, on the wrapper's side too.\<close>

lemma ffi_call_remove:
  fixes w :: "'e world"
  assumes "core_inv P w" and "usable E w" and "zeroize_spec E"
    and "body w = bindM (static_remove_key E h) (\<lambda>old. bindM (ok_orM old NotFound)
        (\<lambda>rec. updateM (KeyRecord_drop E rec))) w"
  shows "\<exists>w'. ffi_call op body w = (Returns (if contents w h = None then NotFound else Success), w')
     \<and> contents w' = (contents w)(h := None) \<and> mem w' = mem w
     \<and> released w' = released w @ (case contents w h of None \<Rightarrow> []
          | Some rec \<Rightarrow> [replicate (length (mmap (private_key rec))) 0])"
  using removed_props(2) [OF registry_of_wf [OF assms(1)], of h] assms(3)
  by (auto simp: ffi_call_def ffi_call_with_reporter_def assms(4) static_remove_key_bind [OF assms(1,2)]
      telemetry_report_failure_def zeroize_spec_def split: option.splits)

text \<open>The optional additional data: empty for a null pointer or length zero.\<close>

definition aad_buf :: "ptr \<Rightarrow> usize \<Rightarrow> 'e world \<Rightarrow> bytes" where
  "aad_buf aad aad_len w = (if is_null aad then [] else buf aad aad_len w)"

lemma aad_slice_eq:
  assumes "is_null aad \<or> valid_buf aad aad_len w"
  shows "(if \<not> is_null aad \<and> aad_len > 0 then from_raw_parts aad aad_len else returnM []) w
     = (Ok (aad_buf aad aad_len w), w)"
  using assms by (auto simp: aad_buf_def from_raw_parts_valid returnM_def buf_def word_gt_0)

text \<open>The safety section of the enumerations.\<close>

definition enumerate_safe :: "ptr \<Rightarrow> usize \<Rightarrow> 'e list \<Rightarrow> ptr option \<Rightarrow> 'e world \<Rightarrow> bool" where
  "enumerate_safe out_entries max_entries es out_has_more w \<longleftrightarrow>
     mem w out_entries = Some (Entries es) \<and> unat max_entries \<le> length es
   \<and> out_has_more \<noteq> Some out_entries"

text \<open>Definedness at a state, and rules for the accesses to memory.\<close>

definition defined_at :: "('x, 's, 'a) rust \<Rightarrow> 's \<Rightarrow> bool" where
  "defined_at m w \<longleftrightarrow> fst (m w) \<noteq> Undefined"

lemma defined_at_always: "never_undefined m \<Longrightarrow> defined_at m w"
  by (simp add: defined_at_def never_undefined_def)

lemma defined_at_reads:
  "valid_buf p n w \<Longrightarrow> defined_at (f (buf p n w)) w \<Longrightarrow> defined_at (bindM (from_raw_parts p n) f) w"
  "valid_buf p n w \<Longrightarrow> defined_at (g (SliceMut p (unat n))) w \<Longrightarrow>
     defined_at (bindM (from_raw_parts_mut p n) g) w"
  "mem w p = Some (U64Cell x) \<Longrightarrow> defined_at (h x) w \<Longrightarrow> defined_at (bindM (deref_u64 p) h) w"
  "mem w p = Some (UsizeCell y) \<Longrightarrow> defined_at (i y) w \<Longrightarrow> defined_at (bindM (deref_usize p) i) w"
  "mem w p = Some (Entries es) \<Longrightarrow> unat n \<le> length es \<Longrightarrow> defined_at (g (SliceMut p (unat n))) w \<Longrightarrow>
     defined_at (bindM (entries_from_raw_parts_mut p n) g) w"
  "is_null a \<or> valid_buf a n w \<Longrightarrow> defined_at (f (aad_buf a n w)) w \<Longrightarrow>
     defined_at (bindM (if \<not> is_null a \<and> n > 0 then from_raw_parts a n else returnM []) f) w"
  using aad_slice_eq [of a n w]
  by (auto simp: defined_at_def bindM_def from_raw_parts_valid from_raw_parts_mut_valid
      deref_u64_def deref_usize_def entries_from_raw_parts_mut_def)

lemma defined_at_guard:
  "(\<not> b \<Longrightarrow> defined_at m w) \<Longrightarrow> defined_at (if b then errM e else m) w"
  by (simp add: defined_at_def errM_def)

lemma writes_on_success_mut:
  assumes "writes_on_success (f (SliceMut p (unat n)))"
  shows "writes_on_success (bindM (from_raw_parts_mut p n) f)"
proof -
  have "from_raw_parts_mut p n w = (Ok (SliceMut p (unat n)), w) \<or> from_raw_parts_mut p n w = (Undefined, w)"
    for w :: "'a world"
    by (auto simp: from_raw_parts_mut_def from_raw_parts_def bindM_def returnM_def
        split: option.splits obj.splits)
  then show ?thesis
    using assms unfolding writes_on_success_def bindM_def
    by (auto split: outcome.splits prod.splits) (metis Pair_inject outcome.distinct(1,5) outcome.inject(1))+
qed

lemmas writes_rules = writes_on_success_if writes_on_success_basic writes_on_success_mut
  keeps_mem_pure(1,3-9) [THEN writes_on_success_bindM]
  keeps_mem_if [OF keeps_mem_pure(1,6), THEN writes_on_success_bindM]

section \<open>The reference caller\<close>

lemma ref_bufs:
  "buf 11 12 (ref_stored sp es) = ref_encode ref_suite" "buf 2 16 (ref_stored sp es) = replicate 16 0"
  "buf 11 12 (ref_world es) = ref_encode ref_suite" "buf 2 16 (ref_world es) = replicate 16 0"
  "buf 4 32 (ref_world es) = replicate 32 7" "buf 4 32 (ref_stored sp es) = replicate 32 7"
  by (simp_all add: buf_def ref_mem_def ref_encode_def)

lemma ref_valid_bufs:
  "valid_buf 11 12 w" "valid_buf 2 16 w" "valid_buf 3 32 w" "valid_buf 4 32 w" "valid_buf 5 48 w"
  "valid_buf 6 33 w" if "mem w = ref_mem es"
  using that by (simp_all add: valid_buf_def ref_mem_def ref_encode_def)

lemma ref_record_ok:
  assumes "spec_algo sp = ref_suite" and "own_public_key sp = ref_public 5"
  shows "record_ok ref_env (ref_record sp)"
proof -
  have "key_pair ref_env 5 = (own_public_key sp, get_private_key (ref_record sp))"
    by (simp add: key_pair_def ref_env_def assms(2) ref_public_def ref_record_def get_private_key_def
        get_secret_def SecretBox_new_def)
  then show ?thesis
    using assms(1) ref_suite_supported
    by (auto simp: record_ok_def ref_record_def ref_handle_def nanos_per_sec_def i64_max_def)
qed

lemma ref_decode_buf: "HpkeAlgorithm_decode ref_env (buf 11 12 (ref_world es)) = Some ref_suite"
  by (simp add: ref_bufs) (simp add: ref_env_def ref_decode_encode)

lemma ref_world_granted:
  "usable ref_env ((ref_world es)\<lparr>syscalls := n\<rparr>)"
  "(clock (ref_world es) (ticks (ref_world es)) + Duration_from_secs 60) div nanos_per_sec \<le> i64_max"
  by (rule ref_usable, simp add: ref_world_def init_world_def)
    (simp add: ref_clock_def Duration_from_secs_def nanos_per_sec_def i64_max_def)

lemma ref_private_key: "get_private_key (ref_record sp) = PrivateKey_from (SecretBox (replicate 32 5))"
  by (simp add: ref_record_def get_private_key_def get_secret_def SecretBox_new_def)

lemma ref_record_simps [simp]:
  "spec (meta (ref_record sp)) = sp" "delete_after (meta (ref_record sp)) = 60 * nanos_per_sec"
  "meta_id (meta (ref_record sp)) = ref_handle" "mmap (private_key (ref_record sp)) = replicate 32 5"
  by (simp_all add: ref_record_def)

lemma ref_env_simps:
  "compute_shared_key ref_env sk pk = Some (ref_add sk pk)"
  "SenderContext_new ref_env p pk info n = Some (pk, replicate 32 (word_of_nat n))"
  "SenderContext_seal ref_env ctx pt aad = pt @ ref_pad 16 ctx"
  "to_public ref_env sk = sk"
  by (simp_all add: ref_env_def)

lemma ref_expand: "rfc_ExtractAndExpand ref_env dh ctx \<noteq> None"
  using expand_exists [OF ref_hkdf_spec] by (simp add: rfc_ExtractAndExpand_def rfc_LabeledExpand_def Let_def)

lemma ref_decaps:
  assumes "length enc = 32"
  shows "\<exists>ss. decaps ref_env (get_private_key (ref_record sp)) enc m = (Ok (SecretBox ss), m) \<and> length ss = 32"
proof -
  obtain ss where ss: "rfc_ExtractAndExpand ref_env (ref_add (replicate 32 5) enc) (enc @ replicate 32 5) = Some ss"
    using ref_expand by fastforce
  then have "length ss = 32"
    using length_expand [OF ref_hkdf_spec]
    by (fastforce simp: rfc_ExtractAndExpand_def rfc_LabeledExpand_def Let_def)
  then show ?thesis
    using ss assms by (simp add: ref_private_key decaps_def decaps_internal_def PrivateKey_from_def
        x25519_decaps_internal_rfc ref_env_simps)
qed

lemma ref_seal:
  "hpke_seal ref_env (ref_public n) pt aad ref_suite m =
     (Ok (replicate 32 (word_of_nat (draws m)), as_slice pt @ replicate 16 (word_of_nat n)),
      m\<lparr>draws := Suc (draws m)\<rparr>)"
  by (simp add: hpke_seal_def hpke_seal_internal_def x25519_hpke_seal_internal_def ref_public_def
      ref_suite_supported ref_env_simps returnM_def ref_pad_def)

lemma ref_live: "unexpired (clock (ref_stored sp es) (ticks (ref_stored sp es)))
    (contents (ref_stored sp es) (Uuid (buf 2 16 (ref_stored sp es)))) = Some (ref_record sp)"
  by (simp add: ref_stored_contents ref_bufs flip: ref_handle_def)
    (simp add: unexpired_eq_Some ref_clock_def nanos_per_sec_def)

end
