(* ===== verification/Kps_Core.thy ===== *)
theory Kps_Core
  imports Entry_Points
begin

text \<open>
  \<^verbatim>\<open>key_protection_service/key_custody_core/src/lib.rs\<close>: the custody core of the key protection
  service, which holds KEM keys, each bound to a public key of the workload service.

  Every exported function is the closure it passes to \<^verbatim>\<open>ffi_call\<close> (a definition ending in
  \<open>_body\<close>) inside that wrapper. The model is the release build: \<^verbatim>\<open>debug_assert!\<close> is off.
\<close>

section \<open>Key generation\<close>

definition generate_kem_keypair_internal :: "('s, 'r, 'p) env \<Rightarrow> HpkeAlgorithm \<Rightarrow> PublicKey \<Rightarrow> u64 \<Rightarrow>
    (Status, 'z custody_scheme, uuid \<times> PublicKey) rust" where
  "generate_kem_keypair_internal E algo binding_pubkey expiry_secs =
     bindM (create_bound_kem_key E algo binding_pubkey (Duration_from_secs expiry_secs)) (\<lambda>record.
     let handle = meta_id (meta record) in
     case spec (meta record) of
       KemWithBindingPub _ kem_pk _ \<Rightarrow>
         bindM (static_add_key E record) (\<lambda>_. returnM (handle, kem_pk))
     | _ \<Rightarrow> bindM (updateM (KeyRecord_drop E record)) (\<lambda>_. errM InternalError))"

definition generate_kem_keypair_body :: "('s, 'r, 'p) env \<Rightarrow> ptr \<Rightarrow> usize \<Rightarrow> ptr \<Rightarrow> usize \<Rightarrow> u64 \<Rightarrow>
    ptr \<Rightarrow> ptr \<Rightarrow> usize \<Rightarrow> (Status, 'e world, unit) rust" where
  "generate_kem_keypair_body E algo_ptr algo_len binding_pubkey binding_pubkey_len expiry_secs
       out_uuid out_pubkey out_pubkey_len =
     (if is_null binding_pubkey \<or> binding_pubkey_len = 0 \<or> is_null out_pubkey \<or> is_null out_uuid
         \<or> is_null algo_ptr \<or> algo_len = 0
      then errM InvalidArgument
      else
        bindM (from_raw_parts binding_pubkey binding_pubkey_len) (\<lambda>binding_pubkey_slice.
        bindM (from_raw_parts algo_ptr algo_len) (\<lambda>algo_slice.
        bindM (from_raw_parts_mut out_uuid 16) (\<lambda>out_uuid_slice.
        bindM (from_raw_parts_mut out_pubkey out_pubkey_len) (\<lambda>out_pubkey_slice.
        bindM (PublicKey_try_from binding_pubkey_slice) (\<lambda>binding_pub.
        bindM (ok_orM (HpkeAlgorithm_decode E algo_slice) InvalidArgument) (\<lambda>algo.
        bindM (generate_kem_keypair_internal E algo binding_pub expiry_secs) (\<lambda>(handle, pubkey).
        if unat out_pubkey_len \<noteq> length (PublicKey_as_bytes pubkey) then errM InvalidArgument
        else
          bindM (copy_from_slice out_uuid_slice (as_bytes handle)) (\<lambda>_.
          copy_from_slice out_pubkey_slice (PublicKey_as_bytes pubkey))))))))))"

definition key_manager_generate_kem_keypair :: "('s, 'r, 'p) env \<Rightarrow> ptr \<Rightarrow> usize \<Rightarrow> ptr \<Rightarrow> usize \<Rightarrow> u64 \<Rightarrow>
    ptr \<Rightarrow> ptr \<Rightarrow> usize \<Rightarrow> 'e world \<Rightarrow> Status ffi_result \<times> 'e world" where
  "key_manager_generate_kem_keypair E algo_ptr algo_len binding_pubkey binding_pubkey_len expiry_secs
       out_uuid out_pubkey out_pubkey_len =
     ffi_call GenerateKemKeypair
       (generate_kem_keypair_body E algo_ptr algo_len binding_pubkey binding_pubkey_len expiry_secs
          out_uuid out_pubkey out_pubkey_len)"

section \<open>Key destruction\<close>

definition destroy_kem_key_body :: "('s, 'r, 'p) env \<Rightarrow> ptr \<Rightarrow> (Status, 'e world, unit) rust" where
  "destroy_kem_key_body E uuid_bytes =
     (if is_null uuid_bytes then errM InvalidArgument
      else
        bindM (from_raw_parts uuid_bytes 16) (\<lambda>bytes.
        bindM (static_remove_key E (Uuid bytes)) (\<lambda>old.
        bindM (ok_orM old NotFound) (\<lambda>rec.
        updateM (KeyRecord_drop E rec)))))"

definition key_manager_destroy_kem_key :: "('s, 'r, 'p) env \<Rightarrow> ptr \<Rightarrow>
    'e world \<Rightarrow> Status ffi_result \<times> 'e world" where
  "key_manager_destroy_kem_key E uuid_bytes = ffi_call DestroyKemKey (destroy_kem_key_body E uuid_bytes)"

section \<open>Decapsulation\<close>

definition decap_and_seal_internal :: "('s, 'r, 'p) env \<Rightarrow> uuid \<Rightarrow> bytes \<Rightarrow> bytes \<Rightarrow> slice_mut \<Rightarrow> slice_mut \<Rightarrow>
    (Status, 'e world, unit) rust" where
  "decap_and_seal_internal E uuid encapsulated_key aad out_encapsulated_key out_ciphertext =
     bindM (static_get_key E uuid) (\<lambda>found.
     bindM (ok_orM found NotFound) (\<lambda>key_record.
     case spec (meta key_record) of
       KemWithBindingPub hpke_algo _ binding_pk \<Rightarrow>
         bindM (decaps E (get_private_key key_record) encapsulated_key) (\<lambda>shared_secret.
         bindM (hpke_seal E binding_pk shared_secret aad hpke_algo) (\<lambda>(enc, ct).
         if slice_len out_encapsulated_key \<noteq> length enc \<or> slice_len out_ciphertext \<noteq> length ct
         then errM InvalidArgument
         else
           bindM (copy_from_slice out_encapsulated_key enc) (\<lambda>_.
           copy_from_slice out_ciphertext ct)))
     | _ \<Rightarrow> errM InternalError))"

definition decap_and_seal_body :: "('s, 'r, 'p) env \<Rightarrow> ptr \<Rightarrow> ptr \<Rightarrow> usize \<Rightarrow> ptr \<Rightarrow> usize \<Rightarrow> ptr \<Rightarrow> usize \<Rightarrow>
    ptr \<Rightarrow> usize \<Rightarrow> (Status, 'e world, unit) rust" where
  "decap_and_seal_body E uuid_bytes encapsulated_key encapsulated_key_len aad aad_len
       out_encapsulated_key out_encapsulated_key_len out_ciphertext out_ciphertext_len =
     (if is_null uuid_bytes \<or> is_null encapsulated_key \<or> encapsulated_key_len = 0
         \<or> is_null out_encapsulated_key \<or> out_encapsulated_key_len = 0
         \<or> is_null out_ciphertext \<or> out_ciphertext_len = 0
      then errM InvalidArgument
      else
        bindM (from_raw_parts uuid_bytes 16) (\<lambda>uuid_slice.
        bindM (from_raw_parts encapsulated_key encapsulated_key_len) (\<lambda>enc_key_slice.
        bindM (if \<not> is_null aad \<and> aad_len > 0 then from_raw_parts aad aad_len else returnM []) (\<lambda>aad_slice.
        bindM (from_raw_parts_mut out_encapsulated_key out_encapsulated_key_len) (\<lambda>out_enc_slice.
        bindM (from_raw_parts_mut out_ciphertext out_ciphertext_len) (\<lambda>out_ct_slice.
        bindM (ok_orM (Uuid_from_slice uuid_slice) InvalidArgument) (\<lambda>uuid.
        decap_and_seal_internal E uuid enc_key_slice aad_slice out_enc_slice out_ct_slice)))))))"

definition key_manager_decap_and_seal :: "('s, 'r, 'p) env \<Rightarrow> ptr \<Rightarrow> ptr \<Rightarrow> usize \<Rightarrow> ptr \<Rightarrow> usize \<Rightarrow> ptr \<Rightarrow>
    usize \<Rightarrow> ptr \<Rightarrow> usize \<Rightarrow> 'e world \<Rightarrow> Status ffi_result \<times> 'e world" where
  "key_manager_decap_and_seal E uuid_bytes encapsulated_key encapsulated_key_len aad aad_len
       out_encapsulated_key out_encapsulated_key_len out_ciphertext out_ciphertext_len =
     ffi_call DecapAndSeal
       (decap_and_seal_body E uuid_bytes encapsulated_key encapsulated_key_len aad aad_len
          out_encapsulated_key out_encapsulated_key_len out_ciphertext out_ciphertext_len)"

section \<open>Enumeration\<close>

record KpsKeyInfo =
  kps_uuid :: bytes
  kps_algorithm :: bytes
  kps_algorithm_len :: usize
  kps_pub_key :: bytes
  kps_pub_key_len :: usize
  kps_binding_pub_key :: bytes
  kps_binding_pub_key_len :: usize
  kps_remaining_lifespan_secs :: u64

definition KpsKeyInfo_default :: KpsKeyInfo where
  "KpsKeyInfo_default =
     \<lparr>kps_uuid = replicate 16 0,
      kps_algorithm = replicate MAX_ALGORITHM_LEN 0, kps_algorithm_len = 0,
      kps_pub_key = replicate MAX_PUBLIC_KEY_LEN 0, kps_pub_key_len = 0,
      kps_binding_pub_key = replicate MAX_PUBLIC_KEY_LEN 0, kps_binding_pub_key_len = 0,
      kps_remaining_lifespan_secs = 0\<rparr>"

text \<open>One entry, from the metadata and the reading of the clock the loop takes for it.\<close>

definition kps_key_info :: "uuid \<Rightarrow> bytes \<Rightarrow> bytes \<Rightarrow> bytes \<Rightarrow> u64 \<Rightarrow> KpsKeyInfo" where
  "kps_key_info uuid algo_bytes pub_key binding_pub_key remaining =
     KpsKeyInfo_default
       \<lparr>kps_uuid := overwrite (as_bytes uuid) (kps_uuid KpsKeyInfo_default),
        kps_algorithm := overwrite algo_bytes (kps_algorithm KpsKeyInfo_default),
        kps_algorithm_len := word_of_nat (length algo_bytes),
        kps_pub_key := overwrite pub_key (kps_pub_key KpsKeyInfo_default),
        kps_pub_key_len := word_of_nat (length pub_key),
        kps_binding_pub_key := overwrite binding_pub_key (kps_binding_pub_key KpsKeyInfo_default),
        kps_binding_pub_key_len := word_of_nat (length binding_pub_key),
        kps_remaining_lifespan_secs := remaining\<rparr>"

text \<open>The loop over \<^verbatim>\<open>entries.iter_mut().zip(metas)\<close>, from the entry with the given index.\<close>

fun fill_kem_entries :: "('s, 'r, 'p) env \<Rightarrow> slice_mut \<Rightarrow> nat \<Rightarrow> KeyMetadata list \<Rightarrow>
    (Status, KpsKeyInfo world, unit) rust" where
  "fill_kem_entries E entries i [] = returnM ()"
| "fill_kem_entries E entries i (m # metas) =
     (if slice_len entries \<le> i then returnM ()
      else case spec m of
        KemWithBindingPub algo pub_key binding_pub_key \<Rightarrow>
          (let algo_bytes = encode_to_vec E algo in
           if length (PublicKey_as_bytes pub_key) > MAX_PUBLIC_KEY_LEN
              \<or> length algo_bytes > MAX_ALGORITHM_LEN
           then errM InternalError
           else if length (PublicKey_as_bytes binding_pub_key) > MAX_PUBLIC_KEY_LEN
           then errM InternalError
           else
             bindM Instant_now (\<lambda>now.
             let remaining = Duration_as_secs (saturating_duration_since (delete_after m) now) in
             bindM (set_entry entries i (kps_key_info (meta_id m) algo_bytes
                 (PublicKey_as_bytes pub_key) (PublicKey_as_bytes binding_pub_key) remaining)) (\<lambda>_.
             fill_kem_entries E entries (Suc i) metas)))
      | _ \<Rightarrow> errM InternalError)"

definition enumerate_kem_keys_internal :: "('s, 'r, 'p) env \<Rightarrow> slice_mut \<Rightarrow> usize \<Rightarrow>
    (Status, KpsKeyInfo world, usize \<times> bool) rust" where
  "enumerate_kem_keys_internal E entries offset =
     bindM (static_list_all_keys E offset (word_of_nat (slice_len entries))) (\<lambda>(metas, total_count).
     let cnt = word_of_nat (length metas);
         has_more = offset + cnt < total_count
     in bindM (fill_kem_entries E entries 0 metas) (\<lambda>_. returnM (cnt, has_more)))"

definition enumerate_kem_keys_body :: "('s, 'r, 'p) env \<Rightarrow> ptr \<Rightarrow> usize \<Rightarrow> usize \<Rightarrow> ptr option \<Rightarrow>
    (Status, KpsKeyInfo world, i32) rust" where
  "enumerate_kem_keys_body E out_entries max_entries offset out_has_more =
     (if is_null out_entries then errM InvalidArgument
      else
        bindM (entries_from_raw_parts_mut out_entries max_entries) (\<lambda>entries.
        bindM (enumerate_kem_keys_internal E entries offset) (\<lambda>(cnt, has_more).
        bindM (case out_has_more of Some has_more_ref \<Rightarrow> store has_more_ref (BoolCell has_more)
               | None \<Rightarrow> returnM ()) (\<lambda>_.
        returnM (ucast cnt)))))"

definition key_manager_enumerate_kem_keys :: "('s, 'r, 'p) env \<Rightarrow> ptr \<Rightarrow> usize \<Rightarrow> usize \<Rightarrow> ptr option \<Rightarrow>
    KpsKeyInfo world \<Rightarrow> i32 ffi_result \<times> KpsKeyInfo world" where
  "key_manager_enumerate_kem_keys E out_entries max_entries offset out_has_more =
     ffi_call_i32 EnumerateKemKeys (enumerate_kem_keys_body E out_entries max_entries offset out_has_more)"

section \<open>Lookup\<close>

definition get_kem_key_internal :: "('s, 'r, 'p) env \<Rightarrow> uuid \<Rightarrow>
    (Status, 'z custody_scheme, HpkeAlgorithm \<times> PublicKey \<times> PublicKey \<times> u64) rust" where
  "get_kem_key_internal E uuid =
     bindM (static_get_key E uuid) (\<lambda>found.
     bindM (ok_orM found NotFound) (\<lambda>record.
     case spec (meta record) of
       KemWithBindingPub algo kem_pk binding_pk \<Rightarrow>
         bindM Instant_now (\<lambda>now.
         let remaining = saturating_duration_since (delete_after (meta record)) now in
         returnM (algo, kem_pk, binding_pk, Duration_as_secs remaining))
     | _ \<Rightarrow> errM InternalError))"

definition get_kem_key_body :: "('s, 'r, 'p) env \<Rightarrow> ptr \<Rightarrow> ptr \<Rightarrow> usize \<Rightarrow> ptr \<Rightarrow> usize \<Rightarrow> ptr \<Rightarrow> ptr \<Rightarrow> ptr \<Rightarrow>
    (Status, 'e world, unit) rust" where
  "get_kem_key_body E uuid_bytes out_kem_pubkey out_kem_pubkey_len out_binding_pubkey
       out_binding_pubkey_len out_algo out_algo_len out_remaining_lifespan_secs =
     (if is_null uuid_bytes \<or> is_null out_kem_pubkey \<or> out_kem_pubkey_len = 0
         \<or> is_null out_binding_pubkey \<or> out_binding_pubkey_len = 0
         \<or> is_null out_algo \<or> is_null out_algo_len \<or> is_null out_remaining_lifespan_secs
      then errM InvalidArgument
      else
        bindM (from_raw_parts uuid_bytes 16) (\<lambda>uuid_slice.
        bindM (from_raw_parts_mut out_kem_pubkey out_kem_pubkey_len) (\<lambda>out_kem_slice.
        bindM (from_raw_parts_mut out_binding_pubkey out_binding_pubkey_len) (\<lambda>out_binding_slice.
        bindM (deref_u64 out_remaining_lifespan_secs) (\<lambda>_.
        bindM (deref_usize out_algo_len) (\<lambda>algo_len.
        bindM (from_raw_parts_mut out_algo algo_len) (\<lambda>out_algo_slice.
        bindM (ok_orM (Uuid_from_slice uuid_slice) InvalidArgument) (\<lambda>uuid.
        bindM (get_kem_key_internal E uuid) (\<lambda>(algo, kem_pubkey, binding_pubkey, remaining_secs).
        let algo_bytes = encode_to_vec E algo in
        if slice_len out_kem_slice \<noteq> length (PublicKey_as_bytes kem_pubkey)
           \<or> slice_len out_binding_slice \<noteq> length (PublicKey_as_bytes binding_pubkey)
           \<or> unat algo_len < length algo_bytes
        then errM InvalidArgument
        else
          bindM (copy_from_slice out_kem_slice (PublicKey_as_bytes kem_pubkey)) (\<lambda>_.
          bindM (copy_from_slice out_binding_slice (PublicKey_as_bytes binding_pubkey)) (\<lambda>_.
          bindM (copy_prefix_from_slice out_algo_slice (length algo_bytes) algo_bytes) (\<lambda>_.
          bindM (store out_algo_len (UsizeCell (word_of_nat (length algo_bytes)))) (\<lambda>_.
          store out_remaining_lifespan_secs (U64Cell remaining_secs))))))))))))))"

definition key_manager_get_kem_key :: "('s, 'r, 'p) env \<Rightarrow> ptr \<Rightarrow> ptr \<Rightarrow> usize \<Rightarrow> ptr \<Rightarrow> usize \<Rightarrow> ptr \<Rightarrow> ptr \<Rightarrow> ptr \<Rightarrow>
    'e world \<Rightarrow> Status ffi_result \<times> 'e world" where
  "key_manager_get_kem_key E uuid_bytes out_kem_pubkey out_kem_pubkey_len out_binding_pubkey
       out_binding_pubkey_len out_algo out_algo_len out_remaining_lifespan_secs =
     ffi_call GetKemKey
       (get_kem_key_body E uuid_bytes out_kem_pubkey out_kem_pubkey_len out_binding_pubkey
          out_binding_pubkey_len out_algo out_algo_len out_remaining_lifespan_secs)"

section \<open>Lemmas: what the closures keep\<close>

definition kps_record :: "('s, 'r, 'p) env \<Rightarrow> KeyRecord \<Rightarrow> bool" where
  "kps_record E rec \<longleftrightarrow> record_ok E rec
     \<and> (case spec (meta rec) of
          KemWithBindingPub _ _ b \<Rightarrow> length (PublicKey_as_bytes b) = 32
        | Binding _ _ \<Rightarrow> False)"

abbreviation (input) kps_inv :: "('s, 'r, 'p) env \<Rightarrow> 'z custody_scheme \<Rightarrow> bool" where
  "kps_inv E \<equiv> core_inv (kps_record E)"

text \<open>
  One lemma for each closure, for any predicate \<open>I\<close> on states: what its registry operations keep,
  it keeps. \<open>Rec\<close> is what is known of the records in the registry.
\<close>

lemma keeps_generate_kem_keypair_body:
  assumes "machine_stable E I" and "mem_stable I"
    and create: "\<And>algo b d. length (PublicKey_as_bytes b) = 32 \<Longrightarrow>
        yields {UnsupportedAlgorithm, CryptoError, InvalidKey} I Rec (create_bound_kem_key E algo b d)"
    and add: "\<And>rec. Rec rec \<Longrightarrow> keeps ES I (static_add_key E rec)"
    and wrong: "\<And>rec algo b. Rec rec \<Longrightarrow> spec (meta rec) = Binding algo b \<Longrightarrow> InternalError \<in> ES"
    and ES: "{InvalidArgument, UnsupportedAlgorithm, CryptoError, InvalidKey} \<subseteq> ES"
  shows "keeps ES I (generate_kem_keypair_body E algo_ptr algo_len binding_pubkey binding_pubkey_len
     expiry_secs out_uuid out_pubkey out_pubkey_len)"
proof -
  have gen: "keeps ES I (generate_kem_keypair_internal E algo b e)"
    if "length (PublicKey_as_bytes b) = 32" for algo b e
    unfolding generate_kem_keypair_internal_def Let_def
    by (rule keeps_bindM_yields [OF yields_mono [OF create [OF that]]])
      (use ES add wrong machine_stable_drop [OF assms(1)] in \<open>auto split: KeySpec.splits intro!: keeps_rules
        simp del: bindM_updateM\<close>)
  show ?thesis
    unfolding generate_kem_keypair_body_def
    by (intro keeps_rules keeps_bindM_yields [OF yields_PublicKey_try_from] gen)
      (use ES in \<open>auto intro!: keeps_rules gen keeps_writes [OF assms(2)]\<close>)
qed

lemma keeps_destroy_kem_key_body:
  assumes "machine_stable E I" and "\<And>h. keeps ES I (static_remove_key E h)"
    and ES: "{InvalidArgument, NotFound} \<subseteq> ES"
  shows "keeps ES I (destroy_kem_key_body E uuid_bytes)"
  unfolding destroy_kem_key_body_def
  using ES by (auto intro!: keeps_rules assms(2) machine_stable_drop [OF assms(1)])

lemma keeps_decap_and_seal_body:
  assumes "machine_stable E I" and "mem_stable I"
    and get: "\<And>h. yields ES I (\<lambda>r. \<forall>rec. r = Some rec \<longrightarrow> Rec rec) (static_get_key E h)"
    and wrong: "\<And>rec algo b. Rec rec \<Longrightarrow> spec (meta rec) = Binding algo b \<Longrightarrow> InternalError \<in> ES"
    and ES: "{InvalidArgument, NotFound, DecapsulationFailure, UnsupportedAlgorithm, EncryptionFailure} \<subseteq> ES"
  shows "keeps ES I (decap_and_seal_body E uuid_bytes encapsulated_key encapsulated_key_len aad aad_len
     out_encapsulated_key out_encapsulated_key_len out_ciphertext out_ciphertext_len)"
proof -
  have crypto: "keeps ES I (decaps E key enc)" "keeps ES I (hpke_seal E pub pt a algo)"
    for key enc pub pt a algo
    using keeps_crypto(1,3) [OF assms(1)] ES by (blast intro: keeps_mono)+
  have "keeps ES I (decap_and_seal_internal E u e a o1 o2)" for u e a o1 o2
    unfolding decap_and_seal_internal_def
    by (rule keeps_bindM_yields [OF get])
      (use ES wrong in \<open>auto simp: ok_orM_def split: option.splits KeySpec.splits
        intro!: keeps_rules crypto keeps_writes [OF assms(2)]\<close>)
  then show ?thesis
    unfolding decap_and_seal_body_def using ES by (intro keeps_rules) auto
qed

lemma keeps_get_kem_key_body:
  assumes "machine_stable E I" and "mem_stable I"
    and get: "\<And>h. yields ES I (\<lambda>r. \<forall>rec. r = Some rec \<longrightarrow> Rec rec) (static_get_key E h)"
    and wrong: "\<And>rec algo b. Rec rec \<Longrightarrow> spec (meta rec) = Binding algo b \<Longrightarrow> InternalError \<in> ES"
    and ES: "{InvalidArgument, NotFound} \<subseteq> ES"
  shows "keeps ES I (get_kem_key_body E uuid_bytes out_kem_pubkey out_kem_pubkey_len out_binding_pubkey
     out_binding_pubkey_len out_algo out_algo_len out_remaining_lifespan_secs)"
proof -
  have internal: "keeps ES I (get_kem_key_internal E u)" for u
    unfolding get_kem_key_internal_def Let_def
    by (rule keeps_bindM_yields [OF get])
      (use ES wrong in \<open>auto simp: ok_orM_def split: option.splits KeySpec.splits
        intro!: keeps_rules keeps_crypto(4) [OF assms(1)] simp del: bindM_Instant_now\<close>)
  show ?thesis
    unfolding get_kem_key_body_def Let_def
    by (intro keeps_rules internal)
      (use ES in \<open>auto intro!: keeps_rules keeps_writes [OF assms(2)]\<close>)
qed

lemma keeps_fill_kem_entries:
  assumes "machine_stable E I" and "mem_stable I"
    and "InternalError \<in> ES \<or> prost_spec E \<and> hpke_spec E
       \<and> (\<forall>m \<in> set metas. \<exists>rec. kps_record E rec \<and> meta rec = m)"
  shows "keeps ES I (fill_kem_entries E entries i metas)"
  using assms(3)
proof (induction metas arbitrary: i)
  case Nil
  show ?case by (simp add: keeps_rules)
next
  case (Cons m metas)
  have IH: "keeps ES I (fill_kem_entries E entries (Suc i) metas)"
    using Cons by auto
  show ?case
  proof (cases "InternalError \<in> ES")
    case True
    then show ?thesis
      using IH by (auto simp: Let_def split: KeySpec.splits simp del: bindM_Instant_now
          intro!: keeps_rules keeps_crypto(4) [OF assms(1)] keeps_writes [OF assms(2)])
  next
    case False
    then obtain rec where rec: "kps_record E rec" "meta rec = m" and prost: "prost_spec E" and "hpke_spec E"
      using Cons.prems by auto
    then obtain algo k b where sp: "spec m = KemWithBindingPub algo k b"
      and "length (PublicKey_as_bytes k) = 32" "length (PublicKey_as_bytes b) = 32"
      using record_ok_length [of E rec]
      by (auto simp: kps_record_def own_public_key_def split: KeySpec.splits)
    then show ?thesis
      using IH length_encode [OF prost, of algo]
      by (auto simp: Let_def MAX_PUBLIC_KEY_LEN_def MAX_ALGORITHM_LEN_def simp del: bindM_Instant_now
          intro!: keeps_rules keeps_crypto(4) [OF assms(1)] keeps_writes [OF assms(2)])
  qed
qed

lemma keeps_enumerate_kem_keys_body:
  assumes "machine_stable E I" and "mem_stable I"
    and list: "\<And>off lim. yields ES I (\<lambda>r. InternalError \<in> ES \<or> prost_spec E \<and> hpke_spec E
       \<and> (\<forall>m \<in> set (fst r). \<exists>rec. kps_record E rec \<and> meta rec = m)) (static_list_all_keys E off lim)"
    and ES: "{InvalidArgument} \<subseteq> ES"
  shows "keeps ES I (enumerate_kem_keys_body E out_entries max_entries offset out_has_more)"
proof -
  have "keeps ES I (enumerate_kem_keys_internal E entries off)" for entries off
    unfolding enumerate_kem_keys_internal_def Let_def
    by (rule keeps_bindM_yields [OF list])
      (auto split: prod.splits intro!: keeps_rules keeps_fill_kem_entries [OF assms(1,2)])
  then show ?thesis
    unfolding enumerate_kem_keys_body_def using ES
    by (intro keeps_rules) (auto split: option.splits intro!: keeps_rules keeps_writes [OF assms(2)])
qed

section \<open>Interpretations and invariants\<close>

interpretation generate_kem: ffi_entry
    "{InvalidArgument, UnsupportedAlgorithm, CryptoError, InvalidKey, InternalError}"
    "generate_kem_keypair_body E algo_ptr algo_len binding_pubkey binding_pubkey_len expiry_secs
       out_uuid out_pubkey out_pubkey_len :: (Status, 'e world, unit) rust"
    GenerateKemKeypair
  for E :: "('s, 'r, 'p) env" and algo_ptr algo_len binding_pubkey binding_pubkey_len expiry_secs
    out_uuid out_pubkey out_pubkey_len
  by unfold_locales
    (auto intro!: keeps_generate_kem_keypair_body [where Rec = "\<lambda>_. True"] custody_stable_machine [OF custody_stable_logged]
      mem_stable_logged keeps_static [OF custody_stable_logged] yields_True
      keeps_create_bound_kem_key)

interpretation destroy_kem: ffi_entry "{InvalidArgument, NotFound}"
    "destroy_kem_key_body E uuid_bytes :: (Status, 'e world, unit) rust" DestroyKemKey
  for E :: "('s, 'r, 'p) env" and uuid_bytes
  by unfold_locales
    (auto intro!: keeps_destroy_kem_key_body custody_stable_machine [OF custody_stable_logged] keeps_static [OF custody_stable_logged])

interpretation decap_and_seal: ffi_entry
    "{InvalidArgument, NotFound, DecapsulationFailure, UnsupportedAlgorithm, EncryptionFailure, InternalError}"
    "decap_and_seal_body E uuid_bytes encapsulated_key encapsulated_key_len aad aad_len
       out_encapsulated_key out_encapsulated_key_len out_ciphertext out_ciphertext_len
       :: (Status, 'e world, unit) rust"
    DecapAndSeal
  for E :: "('s, 'r, 'p) env" and uuid_bytes encapsulated_key encapsulated_key_len aad aad_len
    out_encapsulated_key out_encapsulated_key_len out_ciphertext out_ciphertext_len
  by unfold_locales
    (auto intro!: keeps_decap_and_seal_body [where Rec = "\<lambda>_. True"] custody_stable_machine [OF custody_stable_logged]
      mem_stable_logged yields_True keeps_static [OF custody_stable_logged])

interpretation get_kem: ffi_entry "{InvalidArgument, NotFound, InternalError}"
    "get_kem_key_body E uuid_bytes out_kem_pubkey out_kem_pubkey_len out_binding_pubkey
       out_binding_pubkey_len out_algo out_algo_len out_remaining_lifespan_secs
       :: (Status, 'e world, unit) rust"
    GetKemKey
  for E :: "('s, 'r, 'p) env" and uuid_bytes out_kem_pubkey out_kem_pubkey_len out_binding_pubkey
    out_binding_pubkey_len out_algo out_algo_len out_remaining_lifespan_secs
  by unfold_locales
    (auto intro!: keeps_get_kem_key_body [where Rec = "\<lambda>_. True"] custody_stable_machine [OF custody_stable_logged]
      mem_stable_logged yields_True keeps_static [OF custody_stable_logged])

interpretation enumerate_kem: ffi_entry_i32 "{InvalidArgument, InternalError}"
    "enumerate_kem_keys_body E out_entries max_entries offset out_has_more" EnumerateKemKeys
  for E :: "('s, 'r, 'p) env" and out_entries max_entries offset out_has_more
  by unfold_locales
    (auto intro!: keeps_enumerate_kem_keys_body custody_stable_machine [OF custody_stable_logged] mem_stable_logged yields_True
      keeps_static [OF custody_stable_logged])

text \<open>
  With only KEM records in the registry, the closures keep the invariant, and none of them returns
  \<^verbatim>\<open>InternalError\<close>: the branches for a record of the wrong kind and for an oversized key are dead.
\<close>

lemma kps_record_kind: "kps_record E rec \<Longrightarrow> spec (meta rec) \<noteq> Binding algo b"
  by (auto simp: kps_record_def)

lemma kps_bodies_keep:
  assumes "hpke_spec E" and "uuid_spec E" and "zeroize_spec E" and "prost_spec E"
  shows "keeps {InvalidArgument, UnsupportedAlgorithm, CryptoError, InvalidKey} (kps_inv E)
      (generate_kem_keypair_body E algo_ptr algo_len binding_pubkey binding_pubkey_len expiry_secs
         out_uuid out_pubkey out_pubkey_len :: (Status, 'e world, unit) rust)"
    and "keeps {InvalidArgument, NotFound} (kps_inv E)
      (destroy_kem_key_body E uuid_bytes :: (Status, 'e world, unit) rust)"
    and "keeps {InvalidArgument, NotFound, DecapsulationFailure, UnsupportedAlgorithm, EncryptionFailure}
      (kps_inv E) (decap_and_seal_body E uuid_bytes encapsulated_key encapsulated_key_len aad aad_len
       out_encapsulated_key out_encapsulated_key_len out_ciphertext out_ciphertext_len
       :: (Status, 'e world, unit) rust)"
    and "keeps {InvalidArgument, NotFound} (kps_inv E)
      (get_kem_key_body E uuid_bytes out_kem_pubkey out_kem_pubkey_len out_binding_pubkey
       out_binding_pubkey_len out_algo out_algo_len out_remaining_lifespan_secs
       :: (Status, 'e world, unit) rust)"
    and "keeps {InvalidArgument} (kps_inv E)
      (enumerate_kem_keys_body E out_entries max_entries offset out_has_more)"
proof -
  note stable = machine_stable_core_inv [OF assms(3), of "kps_record E"]
    mem_stable_core_inv [of "kps_record E"]
  have create: "yields {UnsupportedAlgorithm, CryptoError, InvalidKey} (kps_inv E) (kps_record E)
      (create_bound_kem_key E algo b d)"
    if "length (PublicKey_as_bytes b) = 32" for algo b d
    by (rule yields_weaken [OF yields_create(1) [OF assms(1,2) stable(1), of algo b d]])
      (use that in \<open>auto simp: kps_record_def\<close>)
  show "keeps {InvalidArgument, UnsupportedAlgorithm, CryptoError, InvalidKey} (kps_inv E)
      (generate_kem_keypair_body E algo_ptr algo_len binding_pubkey binding_pubkey_len expiry_secs
         out_uuid out_pubkey out_pubkey_len :: (Status, 'e world, unit) rust)"
    by (rule keeps_generate_kem_keypair_body [OF stable create])
      (auto intro: keeps_static_add_key [OF assms(3)] dest: kps_record_kind)
  show "keeps {InvalidArgument, NotFound} (kps_inv E)
      (destroy_kem_key_body E uuid_bytes :: (Status, 'e world, unit) rust)"
    by (rule keeps_destroy_kem_key_body [OF stable(1) keeps_static_remove_key]) simp
  show "keeps {InvalidArgument, NotFound, DecapsulationFailure, UnsupportedAlgorithm, EncryptionFailure}
      (kps_inv E) (decap_and_seal_body E uuid_bytes encapsulated_key encapsulated_key_len aad aad_len
       out_encapsulated_key out_encapsulated_key_len out_ciphertext out_ciphertext_len
       :: (Status, 'e world, unit) rust)"
    by (rule keeps_decap_and_seal_body [OF stable yields_static_get_key]) (auto dest: kps_record_kind)
  show "keeps {InvalidArgument, NotFound} (kps_inv E)
      (get_kem_key_body E uuid_bytes out_kem_pubkey out_kem_pubkey_len out_binding_pubkey
       out_binding_pubkey_len out_algo out_algo_len out_remaining_lifespan_secs
       :: (Status, 'e world, unit) rust)"
    by (rule keeps_get_kem_key_body [OF stable yields_static_get_key]) (auto dest: kps_record_kind)
  show "keeps {InvalidArgument} (kps_inv E)
      (enumerate_kem_keys_body E out_entries max_entries offset out_has_more)"
    by (rule keeps_enumerate_kem_keys_body [OF stable])
      (use assms in \<open>auto intro: yields_weaken [OF yields_static_list_all_keys]\<close>)
qed

section \<open>Key generation\<close>

text \<open>The safety section of \<^verbatim>\<open>key_manager_generate_kem_keypair\<close>, and arguments past the guard.\<close>

definition generate_kem_safe :: "ptr \<Rightarrow> usize \<Rightarrow> ptr \<Rightarrow> usize \<Rightarrow> ptr \<Rightarrow> ptr \<Rightarrow> usize \<Rightarrow> 'e world \<Rightarrow> bool" where
  "generate_kem_safe algo_ptr algo_len binding_pubkey binding_pubkey_len out_uuid out_pubkey
       out_pubkey_len w \<longleftrightarrow>
     valid_buf algo_ptr algo_len w \<and> valid_buf binding_pubkey binding_pubkey_len w
   \<and> (is_null out_uuid \<or> valid_buf out_uuid 16 w)
   \<and> (is_null out_pubkey \<or> valid_buf out_pubkey out_pubkey_len w)
   \<and> out_uuid \<noteq> out_pubkey"

definition generate_kem_present :: "ptr \<Rightarrow> usize \<Rightarrow> ptr \<Rightarrow> usize \<Rightarrow> ptr \<Rightarrow> ptr \<Rightarrow> bool" where
  "generate_kem_present algo_ptr algo_len binding_pubkey binding_pubkey_len out_uuid out_pubkey \<longleftrightarrow>
     \<not> (is_null binding_pubkey \<or> binding_pubkey_len = 0 \<or> is_null out_pubkey \<or> is_null out_uuid
         \<or> is_null algo_ptr \<or> algo_len = 0)"

lemma generate_kem_keypair_internal_eq:
  assumes "hpke_spec E"
  shows "generate_kem_keypair_internal E algo b e w =
     (if KemAlgorithm_try_from E (kem algo) = Some DhkemX25519HkdfSha256
      then create_and_add E algo (Duration_from_secs e) (\<lambda>a pk. KemWithBindingPub a pk b) w
      else (Err InvalidKey, w))"
proof -
  have sp: "spec (meta rec) = KemWithBindingPub algo (fst (key_pair E (draws w))) b"
    if "create_key_internal E algo (Duration_from_secs e) (\<lambda>a pk. KemWithBindingPub a pk b) w = (Ok rec, v)"
    for rec v
    using create_key_internal_Ok(2) [OF assms that] by (simp add: key_pair_def)
  show ?thesis
    by (auto simp: generate_kem_keypair_internal_def create_and_add_def create_bound_kem_key_cases
        bindM_def [of "create_key_internal _ _ _ _"] Let_def errM_def own_public_key_def
        split: outcome.splits prod.splits dest: sp)
qed

lemma generate_kem_keypair_body_eq:
  assumes "generate_kem_present algo_ptr algo_len binding_pubkey binding_pubkey_len out_uuid out_pubkey"
    and "generate_kem_safe algo_ptr algo_len binding_pubkey binding_pubkey_len out_uuid out_pubkey
       out_pubkey_len w"
  shows "generate_kem_keypair_body E algo_ptr algo_len binding_pubkey binding_pubkey_len expiry_secs
       out_uuid out_pubkey out_pubkey_len w =
     (if length (buf binding_pubkey binding_pubkey_len w) \<noteq> 32 then (Err InvalidArgument, w)
      else case HpkeAlgorithm_decode E (buf algo_ptr algo_len w) of
          None \<Rightarrow> (Err InvalidArgument, w)
        | Some algo \<Rightarrow>
            bindM (generate_kem_keypair_internal E algo
                (X25519_public (X25519PublicKey (buf binding_pubkey binding_pubkey_len w))) expiry_secs)
              (\<lambda>(handle, pubkey).
                 if unat out_pubkey_len \<noteq> length (PublicKey_as_bytes pubkey) then errM InvalidArgument
                 else bindM (copy_from_slice (SliceMut out_uuid 16) (as_bytes handle)) (\<lambda>_.
                      copy_from_slice (SliceMut out_pubkey (unat out_pubkey_len))
                        (PublicKey_as_bytes pubkey))) w)"
  using assms
  by (simp add: generate_kem_keypair_body_def generate_kem_present_def generate_kem_safe_def
      bindM_def [of "from_raw_parts _ _"] bindM_def [of "from_raw_parts_mut _ _"]
      bindM_def [of "PublicKey_try_from _"] from_raw_parts_valid from_raw_parts_mut_valid
      PublicKey_try_from_eq errM_def split: option.splits)

text \<open>
  A successful call, step by step: the arguments that were decoded, and the generation inside.
\<close>

lemma generate_kem_keypair_body_Ok:
  assumes "hpke_spec E" and "uuid_spec E" and "core_inv P w"
    and safe: "generate_kem_safe algo_ptr algo_len binding_pubkey binding_pubkey_len out_uuid out_pubkey
       out_pubkey_len w"
    and call: "generate_kem_keypair_body E algo_ptr algo_len binding_pubkey binding_pubkey_len expiry_secs
       out_uuid out_pubkey out_pubkey_len w = (Ok (), w')"
  obtains algo h pk v where
    "generate_kem_present algo_ptr algo_len binding_pubkey binding_pubkey_len out_uuid out_pubkey"
    "length (buf binding_pubkey binding_pubkey_len w) = 32"
    "HpkeAlgorithm_decode E (buf algo_ptr algo_len w) = Some algo"
    "create_and_add E algo (Duration_from_secs expiry_secs) (\<lambda>a pk. KemWithBindingPub a pk
         (X25519_public (X25519PublicKey (buf binding_pubkey binding_pubkey_len w)))) w = (Ok (h, pk), v)"
    "unat out_pubkey_len = length (PublicKey_as_bytes pk)"
    "w' = v\<lparr>mem := write_mem out_pubkey (PublicKey_as_bytes pk) (write_mem out_uuid (as_bytes h) (mem w))\<rparr>"
proof -
  have present: "generate_kem_present algo_ptr algo_len binding_pubkey binding_pubkey_len out_uuid out_pubkey"
    using call by (auto simp: generate_kem_keypair_body_def generate_kem_present_def errM_def
        split: if_splits)
  let ?b = "X25519_public (X25519PublicKey (buf binding_pubkey binding_pubkey_len w))"
  let ?mk = "\<lambda>a pk. KemWithBindingPub a pk ?b"
  note eq = call [unfolded generate_kem_keypair_body_eq [OF present safe]]
  obtain algo where len: "length (buf binding_pubkey binding_pubkey_len w) = 32"
    and algo: "HpkeAlgorithm_decode E (buf algo_ptr algo_len w) = Some algo"
    using eq by (auto split: if_splits option.splits)
  obtain h pk v where gen: "create_and_add E algo (Duration_from_secs expiry_secs) ?mk w = (Ok (h, pk), v)"
    and tail: "(if unat out_pubkey_len \<noteq> length (PublicKey_as_bytes pk) then errM InvalidArgument
        else bindM (copy_from_slice (SliceMut out_uuid 16) (as_bytes h)) (\<lambda>_.
             copy_from_slice (SliceMut out_pubkey (unat out_pubkey_len)) (PublicKey_as_bytes pk))) v
        = (Ok (), w')"
    using eq len algo by (auto simp: bindM_eq_Ok generate_kem_keypair_internal_eq [OF assms(1)]
        split: if_splits)
  have "own_public_key (?mk a pk) = pk" for a pk
    by (simp add: own_public_key_def)
  note made = create_and_add_Ok [OF assms(1,3) this gen]
  have "length (as_bytes h) = 16"
    using made(2) assms(2) by (simp add: uuid_spec_def)
  note tail = tail [unfolded write_key_eq [OF this]]
  show thesis
    by (rule that [OF present len algo gen]) (use tail made(5) in \<open>simp_all split: if_splits\<close>)
qed

text \<open>
  A call that passes every check up to the length of the public key buffer: the key is created and
  stored, and only then is that length looked at.
\<close>

lemma generate_kem_keypair_body_run:
  assumes "hpke_spec E" and "uuid_spec E" and "secretmem_spec E" and "core_inv P w"
    and present: "generate_kem_present algo_ptr algo_len binding_pubkey binding_pubkey_len out_uuid out_pubkey"
    and safe: "generate_kem_safe algo_ptr algo_len binding_pubkey binding_pubkey_len out_uuid out_pubkey
       out_pubkey_len w"
    and "length (buf binding_pubkey binding_pubkey_len w) = 32"
    and "HpkeAlgorithm_decode E (buf algo_ptr algo_len w) = Some algo" and "suite_supported E algo"
    and "vault_granted E (syscalls w) 32" and "usable E (w\<lparr>syscalls := syscalls w + 3\<rparr>)"
    and "(clock w (ticks w) + Duration_from_secs expiry_secs) div nanos_per_sec \<le> i64_max"
  shows "\<exists>h pk v. create_and_add E algo (Duration_from_secs expiry_secs) (\<lambda>a pk. KemWithBindingPub a pk
         (X25519_public (X25519PublicKey (buf binding_pubkey binding_pubkey_len w)))) w = (Ok (h, pk), v)
     \<and> generate_kem_keypair_body E algo_ptr algo_len binding_pubkey binding_pubkey_len expiry_secs
         out_uuid out_pubkey out_pubkey_len w =
       (if out_pubkey_len \<noteq> 32 then (Err InvalidArgument, v)
        else (Ok (), v\<lparr>mem := write_mem out_pubkey (PublicKey_as_bytes pk)
                (write_mem out_uuid (as_bytes h) (mem w))\<rparr>))"
proof -
  let ?mk = "\<lambda>a pk. KemWithBindingPub a pk
      (X25519_public (X25519PublicKey (buf binding_pubkey binding_pubkey_len w)))"
  obtain h pk v where gen: "create_and_add E algo (Duration_from_secs expiry_secs) ?mk w = (Ok (h, pk), v)"
    using create_and_add_total [OF assms(1,3,4,9-12)] by blast
  have "own_public_key (?mk a pk) = pk" for a pk
    by (simp add: own_public_key_def)
  note made = create_and_add_Ok [OF assms(1,4) this gen]
  have h: "length (as_bytes h) = 16"
    using made(2) assms(2) by (simp add: uuid_spec_def)
  have pk: "length (PublicKey_as_bytes pk) = 32"
    using made(3) length_key_pair [OF assms(1)] by simp
  have len: "unat out_pubkey_len = 32 \<longleftrightarrow> out_pubkey_len = 32"
    by (simp add: word_unat_eq_iff)
  have "generate_kem_keypair_body E algo_ptr algo_len binding_pubkey binding_pubkey_len expiry_secs
         out_uuid out_pubkey out_pubkey_len w =
       (if out_pubkey_len \<noteq> 32 then (Err InvalidArgument, v)
        else (Ok (), v\<lparr>mem := write_mem out_pubkey (PublicKey_as_bytes pk)
                (write_mem out_uuid (as_bytes h) (mem w))\<rparr>))"
    using assms(7,8) suite_supported_kem [OF assms(9)]
    by (simp add: generate_kem_keypair_body_eq [OF present safe] bindM_def [of "generate_kem_keypair_internal _ _ _ _"]
        generate_kem_keypair_internal_eq [OF assms(1)] gen pk len made(5) h
        copy_from_slice_def copy_prefix_from_slice_def errM_def updateM_def write_bytes_eq)
  then show ?thesis
    using gen by blast
qed


lemma kps_record_spec:
  "kps_record E rec \<Longrightarrow> \<exists>algo k b. spec (meta rec) = KemWithBindingPub algo k b
     \<and> length (PublicKey_as_bytes b) = 32"
  by (cases "spec (meta rec)") (auto simp: kps_record_def)

lemma kps_found_kind:
  "core_inv (kps_record E) w \<Longrightarrow> unexpired now (contents w h) = Some rec \<Longrightarrow>
   \<exists>algo k b. spec (meta rec) = KemWithBindingPub algo k b"
  using kps_record_spec [OF core_inv_contents] by (fastforce simp: unexpired_eq_Some)

section \<open>Destruction\<close>

lemma destroy_kem_key_body_eq:
  assumes "\<not> is_null uuid_bytes" and "valid_buf uuid_bytes 16 w"
  shows "destroy_kem_key_body E uuid_bytes w =
     bindM (static_remove_key E (Uuid (buf uuid_bytes 16 w))) (\<lambda>old. bindM (ok_orM old NotFound)
        (\<lambda>rec. updateM (KeyRecord_drop E rec))) w"
  using assms by (simp add: destroy_kem_key_body_def bindM_def [of "from_raw_parts _ _"]
      from_raw_parts_valid)

section \<open>Decapsulation\<close>

definition decap_safe :: "ptr \<Rightarrow> ptr \<Rightarrow> usize \<Rightarrow> ptr \<Rightarrow> usize \<Rightarrow> ptr \<Rightarrow> usize \<Rightarrow> ptr \<Rightarrow> usize \<Rightarrow> 'e world \<Rightarrow> bool" where
  "decap_safe uuid_bytes encapsulated_key encapsulated_key_len aad aad_len
       out_encapsulated_key out_encapsulated_key_len out_ciphertext out_ciphertext_len w \<longleftrightarrow>
     valid_buf uuid_bytes 16 w \<and> valid_buf encapsulated_key encapsulated_key_len w
   \<and> (is_null aad \<or> valid_buf aad aad_len w)
   \<and> valid_buf out_encapsulated_key out_encapsulated_key_len w
   \<and> valid_buf out_ciphertext out_ciphertext_len w \<and> out_encapsulated_key \<noteq> out_ciphertext"

definition decap_present :: "ptr \<Rightarrow> ptr \<Rightarrow> usize \<Rightarrow> ptr \<Rightarrow> usize \<Rightarrow> ptr \<Rightarrow> usize \<Rightarrow> bool" where
  "decap_present uuid_bytes encapsulated_key encapsulated_key_len
       out_encapsulated_key out_encapsulated_key_len out_ciphertext out_ciphertext_len \<longleftrightarrow>
     \<not> (is_null uuid_bytes \<or> is_null encapsulated_key \<or> encapsulated_key_len = 0
         \<or> is_null out_encapsulated_key \<or> out_encapsulated_key_len = 0
         \<or> is_null out_ciphertext \<or> out_ciphertext_len = 0)"

text \<open>Decapsulating and sealing, on a record that was found.\<close>

definition reseal :: "('s, 'r, 'p) env \<Rightarrow> KeyRecord \<Rightarrow> bytes \<Rightarrow> bytes \<Rightarrow> (Status, 'z machine_scheme, bytes \<times> bytes) rust" where
  "reseal E rec enc aad =
     bindM (decaps E (get_private_key rec) enc) (\<lambda>shared_secret.
     hpke_seal E (binding_public_key (spec (meta rec))) shared_secret aad (spec_algo (spec (meta rec))))"

lemma decap_and_seal_body_eq:
  assumes inv: "core_inv (kps_record E) w" and "usable E w"
    and "decap_present uuid_bytes encapsulated_key encapsulated_key_len
       out_encapsulated_key out_encapsulated_key_len out_ciphertext out_ciphertext_len"
    and safe: "decap_safe uuid_bytes encapsulated_key encapsulated_key_len aad aad_len
       out_encapsulated_key out_encapsulated_key_len out_ciphertext out_ciphertext_len w"
    and h: "h = Uuid (buf uuid_bytes 16 w)"
  shows "decap_and_seal_body E uuid_bytes encapsulated_key encapsulated_key_len aad aad_len
       out_encapsulated_key out_encapsulated_key_len out_ciphertext out_ciphertext_len w =
     (case unexpired (clock w (ticks w)) (contents w h) of
        None \<Rightarrow> (Err NotFound, looked_up h w)
      | Some rec \<Rightarrow>
          bindM (reseal E rec (buf encapsulated_key encapsulated_key_len w) (aad_buf aad aad_len w))
            (\<lambda>(enc, ct).
               if unat out_encapsulated_key_len \<noteq> length enc \<or> unat out_ciphertext_len \<noteq> length ct
               then errM InvalidArgument
               else updateM (\<lambda>v. v\<lparr>mem := write_mem out_ciphertext ct
                       (write_mem out_encapsulated_key enc (mem v))\<rparr>)) (looked_up h w))"
proof -
  note kind = kps_found_kind [OF inv]
  have len: "length (buf uuid_bytes 16 w) = 16"
    using safe buf_length [of uuid_bytes 16 w] by (simp add: decap_safe_def)
  have "decap_and_seal_body E uuid_bytes encapsulated_key encapsulated_key_len aad aad_len
       out_encapsulated_key out_encapsulated_key_len out_ciphertext out_ciphertext_len w =
     decap_and_seal_internal E h (buf encapsulated_key encapsulated_key_len w) (aad_buf aad aad_len w)
       (SliceMut out_encapsulated_key (unat out_encapsulated_key_len))
       (SliceMut out_ciphertext (unat out_ciphertext_len)) w"
    using assms(3) safe aad_slice_eq [of aad aad_len w] len h
    by (simp add: decap_and_seal_body_def decap_present_def decap_safe_def
        bindM_def [of "from_raw_parts _ _"] bindM_def [of "from_raw_parts_mut _ _"]
        bindM_def [of "if _ then _ else _"] from_raw_parts_valid from_raw_parts_mut_valid
        Uuid_from_slice_def try_into_array_def)
  also have "\<dots> = (case unexpired (clock w (ticks w)) (contents w h) of
        None \<Rightarrow> (Err NotFound, looked_up h w)
      | Some rec \<Rightarrow>
          bindM (reseal E rec (buf encapsulated_key encapsulated_key_len w) (aad_buf aad aad_len w))
            (\<lambda>(enc, ct).
               if unat out_encapsulated_key_len \<noteq> length enc \<or> unat out_ciphertext_len \<noteq> length ct
               then errM InvalidArgument
               else updateM (\<lambda>v. v\<lparr>mem := write_mem out_ciphertext ct
                       (write_mem out_encapsulated_key enc (mem v))\<rparr>)) (looked_up h w))"
    unfolding decap_and_seal_internal_def static_get_key_bind [OF inv assms(2)]
    by (auto simp: reseal_def bindM_assoc write_simps split: option.splits dest!: kind
        intro!: arg_cong2 [where f = bindM, THEN fun_cong] ext)
  finally show ?thesis .
qed

section \<open>Lookup\<close>

definition get_kem_safe :: "ptr \<Rightarrow> ptr \<Rightarrow> usize \<Rightarrow> ptr \<Rightarrow> usize \<Rightarrow> ptr \<Rightarrow> ptr \<Rightarrow> ptr \<Rightarrow> 'e world \<Rightarrow> bool" where
  "get_kem_safe uuid_bytes out_kem_pubkey out_kem_pubkey_len out_binding_pubkey out_binding_pubkey_len
       out_algo out_algo_len out_remaining_lifespan_secs w \<longleftrightarrow>
     valid_buf uuid_bytes 16 w \<and> valid_buf out_kem_pubkey out_kem_pubkey_len w
   \<and> valid_buf out_binding_pubkey out_binding_pubkey_len w
   \<and> (\<exists>n. mem w out_algo_len = Some (UsizeCell n) \<and> valid_buf out_algo n w)
   \<and> (\<exists>n. mem w out_remaining_lifespan_secs = Some (U64Cell n))
   \<and> distinct [out_kem_pubkey, out_binding_pubkey, out_algo, out_algo_len, out_remaining_lifespan_secs]"

definition get_kem_present :: "ptr \<Rightarrow> ptr \<Rightarrow> usize \<Rightarrow> ptr \<Rightarrow> usize \<Rightarrow> ptr \<Rightarrow> ptr \<Rightarrow> ptr \<Rightarrow> bool" where
  "get_kem_present uuid_bytes out_kem_pubkey out_kem_pubkey_len out_binding_pubkey out_binding_pubkey_len
       out_algo out_algo_len out_remaining_lifespan_secs \<longleftrightarrow>
     \<not> (is_null uuid_bytes \<or> is_null out_kem_pubkey \<or> out_kem_pubkey_len = 0
         \<or> is_null out_binding_pubkey \<or> out_binding_pubkey_len = 0
         \<or> is_null out_algo \<or> is_null out_algo_len \<or> is_null out_remaining_lifespan_secs)"

lemma get_kem_key_body_eq:
  assumes inv: "core_inv (kps_record E) w" and "usable E w"
    and "get_kem_present uuid_bytes out_kem_pubkey out_kem_pubkey_len out_binding_pubkey
       out_binding_pubkey_len out_algo out_algo_len out_remaining_lifespan_secs"
    and safe: "get_kem_safe uuid_bytes out_kem_pubkey out_kem_pubkey_len out_binding_pubkey
       out_binding_pubkey_len out_algo out_algo_len out_remaining_lifespan_secs w"
    and h: "h = Uuid (buf uuid_bytes 16 w)" and n: "mem w out_algo_len = Some (UsizeCell n)"
  shows "get_kem_key_body E uuid_bytes out_kem_pubkey out_kem_pubkey_len out_binding_pubkey
       out_binding_pubkey_len out_algo out_algo_len out_remaining_lifespan_secs w =
     (case unexpired (clock w (ticks w)) (contents w h) of
        None \<Rightarrow> (Err NotFound, looked_up h w)
      | Some rec \<Rightarrow>
         (let v = (looked_up h w)\<lparr>ticks := ticks w + 2\<rparr>;
              kem_pk = PublicKey_as_bytes (kem_public_key (spec (meta rec)));
              binding_pk = PublicKey_as_bytes (binding_public_key (spec (meta rec)));
              algo = encode_to_vec E (spec_algo (spec (meta rec)));
              secs = Duration_as_secs (saturating_duration_since (delete_after (meta rec))
                 (clock w (Suc (ticks w))))
          in if unat out_kem_pubkey_len \<noteq> length kem_pk \<or> unat out_binding_pubkey_len \<noteq> length binding_pk
                \<or> unat n < length algo
             then (Err InvalidArgument, v)
             else (Ok (), v\<lparr>mem := (write_mem out_algo algo (write_mem out_binding_pubkey binding_pk
                     (write_mem out_kem_pubkey kem_pk (mem w))))
                   (out_algo_len \<mapsto> UsizeCell (word_of_nat (length algo)),
                    out_remaining_lifespan_secs \<mapsto> U64Cell secs)\<rparr>)))"
proof -
  note kind = kps_found_kind [OF inv]
  have some: "ticks (looked_up h w) = Suc (ticks w)" if "unexpired now (contents w h) = Some rec" for now rec
    using that by (auto simp: looked_up_def unexpired_eq_Some)
  let ?tail = "\<lambda>(algo, kem_pubkey, binding_pubkey, remaining_secs).
        if unat out_kem_pubkey_len \<noteq> length (PublicKey_as_bytes kem_pubkey)
           \<or> unat out_binding_pubkey_len \<noteq> length (PublicKey_as_bytes binding_pubkey)
           \<or> unat n < length (encode_to_vec E algo)
        then errM InvalidArgument
        else updateM (\<lambda>v. v\<lparr>mem := (write_mem out_algo (encode_to_vec E algo)
               (write_mem out_binding_pubkey (PublicKey_as_bytes binding_pubkey)
               (write_mem out_kem_pubkey (PublicKey_as_bytes kem_pubkey) (mem v))))
                 (out_algo_len \<mapsto> UsizeCell (word_of_nat (length (encode_to_vec E algo))),
                  out_remaining_lifespan_secs \<mapsto> U64Cell remaining_secs)\<rparr>)"
  have "length (buf uuid_bytes 16 w) = 16"
    using safe buf_length [of uuid_bytes 16 w] by (simp add: get_kem_safe_def)
  then have "get_kem_key_body E uuid_bytes out_kem_pubkey out_kem_pubkey_len out_binding_pubkey
       out_binding_pubkey_len out_algo out_algo_len out_remaining_lifespan_secs w =
     bindM (get_kem_key_internal E h) ?tail w"
    using assms(3) safe h n
    unfolding get_kem_key_body_def get_kem_present_def get_kem_safe_def Let_def
    by (elim conjE exE) (simp add: bindM_def [of "from_raw_parts _ _"] bindM_def [of "from_raw_parts_mut _ _"]
        bindM_def [of "deref_u64 _"] bindM_def [of "deref_usize _"] deref_u64_def deref_usize_def
        from_raw_parts_valid from_raw_parts_mut_valid Uuid_from_slice_def try_into_array_def,
        intro arg_cong2 [where f = bindM, THEN fun_cong] refl ext, auto simp: write_simps)
  then have run: "get_kem_key_body E uuid_bytes out_kem_pubkey out_kem_pubkey_len out_binding_pubkey
       out_binding_pubkey_len out_algo out_algo_len out_remaining_lifespan_secs w =
     bindM (get_kem_key_internal E h) ?tail w" .
  show ?thesis
  proof (cases "unexpired (clock w (ticks w)) (contents w h)")
    case None
    then show ?thesis
      unfolding run get_kem_key_internal_def bindM_assoc static_get_key_bind [OF inv assms(2)] by simp
  next
    case (Some rec)
    then obtain algo k b where "spec (meta rec) = KemWithBindingPub algo k b"
      using kind by blast
    then show ?thesis
      using Some some [OF Some]
      unfolding run get_kem_key_internal_def bindM_assoc static_get_key_bind [OF inv assms(2)]
      by (simp add: Let_def basicM_defs bindM_assoc)
  qed
qed

section \<open>Enumeration\<close>

text \<open>The description of a key at an instant.\<close>

definition kem_info :: "('s, 'r, 'p) env \<Rightarrow> instant \<Rightarrow> KeyMetadata \<Rightarrow> KpsKeyInfo" where
  "kem_info E now m = kps_key_info (meta_id m) (encode_to_vec E (spec_algo (spec m)))
     (PublicKey_as_bytes (kem_public_key (spec m))) (PublicKey_as_bytes (binding_public_key (spec m)))
     (Duration_as_secs (saturating_duration_since (delete_after m) now))"

definition kem_infos :: "('s, 'r, 'p) env \<Rightarrow> (nat \<Rightarrow> instant) \<Rightarrow> nat \<Rightarrow> KeyMetadata list \<Rightarrow> KpsKeyInfo list" where
  "kem_infos E c t metas = map (\<lambda>j. kem_info E (c (t + j)) (metas ! j)) [0..<length metas]"

lemma kem_infos_simps [simp]:
  "kem_infos E c t [] = []"
  "kem_infos E c t (m # metas) = kem_info E (c t) m # kem_infos E c (Suc t) metas"
  "length (kem_infos E c t metas) = length metas"
  by (simp_all add: kem_infos_def upt_conv_Cons map_Suc_upt [symmetric] del: upt_Suc)

text \<open>The loop replaces one entry for each key of the page, and does not fail.\<close>

lemma fill_kem_entries_eq:
  assumes "prost_spec E" and "hpke_spec E" and "list_all (\<lambda>m. \<exists>rec. kps_record E rec \<and> meta rec = m) metas"
    and "mem w p = Some (Entries es)" and "i + length metas \<le> n" and "n \<le> length es"
  shows "fill_kem_entries E (SliceMut p n) i metas w =
     (Ok (), w\<lparr>ticks := ticks w + length metas,
        mem := (mem w)(p \<mapsto> Entries (take i es @ kem_infos E (clock w) (ticks w) metas
                                   @ drop (i + length metas) es))\<rparr>)"
  using assms(3-6)
proof (induction metas arbitrary: i w es)
  case Nil
  then show ?case
    by (cases w) (auto simp: returnM_def fun_upd_idem)
next
  case (Cons m metas)
  obtain rec where rec: "kps_record E rec" "meta rec = m"
    using Cons.prems by auto
  obtain algo k b where sp: "spec m = KemWithBindingPub algo k b" "length (PublicKey_as_bytes b) = 32"
    using kps_record_spec [OF rec(1)] rec(2) by auto
  have k: "length (PublicKey_as_bytes k) = 32"
    using rec sp record_ok_length [OF assms(2), of rec] by (auto simp: kps_record_def own_public_key_def)
  let ?x = "kem_info E (clock w (ticks w)) m"
  let ?w = "w\<lparr>ticks := Suc (ticks w), mem := (mem w)(p \<mapsto> Entries (es[i := ?x]))\<rparr>"
  have "fill_kem_entries E (SliceMut p n) i (m # metas) w = fill_kem_entries E (SliceMut p n) (Suc i) metas ?w"
    using Cons.prems sp k length_encode [OF assms(1), of algo]
    by (simp add: Let_def MAX_PUBLIC_KEY_LEN_def MAX_ALGORITHM_LEN_def set_entry_def kem_info_def)
  also have "\<dots> = (Ok (), ?w\<lparr>ticks := Suc (ticks w) + length metas, mem := (mem ?w)(p \<mapsto>
        Entries (take (Suc i) (es[i := ?x]) @ kem_infos E (clock w) (Suc (ticks w)) metas
          @ drop (Suc i + length metas) (es[i := ?x])))\<rparr>)"
    using Cons.IH [of ?w "es[i := ?x]" "Suc i"] Cons.prems
    by (simp add: fun_upd_def cong: if_cong)
  also have "take (Suc i) (es[i := ?x]) = take i es @ [?x]"
    using Cons.prems by (simp add: take_Suc_conv_app_nth)
  also have "drop (Suc i + length metas) (es[i := ?x]) = drop (Suc i + length metas) es"
    by simp
  finally show ?case
    by (simp add: fun_upd_def cong: if_cong)
qed

lemma enumerate_kem_keys_body_eq:
  assumes "prost_spec E" and "hpke_spec E" and inv: "core_inv (kps_record E) w" and "usable E w"
    and "\<not> is_null out_entries" and safe: "enumerate_safe out_entries max_entries es out_has_more w"
    and all: "all = listing (clock w (ticks w)) w" and small: "length all < 2 ^ 64"
    and page: "page = map meta (take (unat max_entries) (drop (unat offset) all))"
  shows "enumerate_kem_keys_body E out_entries max_entries offset out_has_more w =
     (Ok (word_of_nat (length page)),
      (forced w)\<lparr>ticks := Suc (ticks w) + length page,
        mem := (case out_has_more of None \<Rightarrow> \<lambda>m. m
                | Some q \<Rightarrow> \<lambda>m. m(q \<mapsto> BoolCell (unat offset + length page < length all)))
          ((mem w)(out_entries \<mapsto> Entries (kem_infos E (clock w) (Suc (ticks w)) page
                                       @ drop (length page) es)))\<rparr>)"
proof -
  have "entries_from_raw_parts_mut out_entries max_entries w = (Ok (SliceMut out_entries (unat max_entries)), w)"
    using safe by (simp add: entries_from_raw_parts_mut_def enumerate_safe_def)
  moreover have "static_list_all_keys E offset (word_of_nat (unat max_entries)) w
      = (Ok (page, word_of_nat (length all)), (forced w)\<lparr>ticks := Suc (ticks w)\<rparr>)"
    using static_list_all_keys_eq [OF inv assms(4), of offset max_entries] all page by simp
  moreover have "list_all (\<lambda>m. \<exists>rec. kps_record E rec \<and> meta rec = m) page"
    using core_inv_contents [OF inv] listing_props(3) [OF inv, of "clock w (ticks w)"]
    by (auto simp: list_all_iff page all unexpired_eq_Some dest!: in_set_takeD in_set_dropD) blast
  moreover have "length page \<le> unat max_entries"
    by (simp add: page)
  moreover have "offset + word_of_nat (length page) < word_of_nat (length all)
      \<longleftrightarrow> unat offset + length page < length all"
    using has_more_exact [OF small, of "length page" "unat max_entries" offset] page by simp
  moreover have "ucast (word_of_nat (length page) :: usize) = (word_of_nat (length page) :: i32)"
    using small by (simp add: unsigned_of_nat page take_bit_nat_eq_self)
  ultimately show ?thesis
    using safe assms(5) fill_kem_entries_eq [OF assms(1,2), of page "(forced w)\<lparr>ticks := Suc (ticks w)\<rparr>"
        out_entries es 0 "unat max_entries"]
    by (simp add: enumerate_kem_keys_body_def enumerate_kem_keys_internal_def enumerate_safe_def
        bindM_def [of "entries_from_raw_parts_mut _ _"] bindM_def [of "static_list_all_keys _ _ _"]
        bindM_def [of "fill_kem_entries _ _ _ _"] bindM_assoc Let_def store_def basicM_defs
        split: option.splits)
qed

section \<open>Definedness and failures\<close>

lemma generate_kem_keypair_body_defined:
  assumes "generate_kem_safe algo_ptr algo_len binding_pubkey binding_pubkey_len out_uuid out_pubkey
       out_pubkey_len w"
  shows "defined_at (generate_kem_keypair_body E algo_ptr algo_len binding_pubkey binding_pubkey_len
       expiry_secs out_uuid out_pubkey out_pubkey_len) w"
proof -
  have "never_undefined (generate_kem_keypair_internal E algo b e)" for algo b e
    unfolding generate_kem_keypair_internal_def Let_def
    by (auto split: KeySpec.splits simp del: bindM_updateM intro!: defined_rules)
  then show ?thesis
    using assms unfolding generate_kem_keypair_body_def generate_kem_safe_def
    by (intro defined_at_guard defined_at_reads defined_at_always)
      (auto split: prod.splits intro!: defined_rules)
qed

lemma destroy_kem_key_body_defined:
  "valid_buf uuid_bytes 16 w \<Longrightarrow> defined_at (destroy_kem_key_body E uuid_bytes) w"
  unfolding destroy_kem_key_body_def
  by (intro defined_at_guard defined_at_reads defined_at_always) (auto intro!: defined_rules)

lemma decap_and_seal_body_defined:
  assumes "decap_safe uuid_bytes encapsulated_key encapsulated_key_len aad aad_len
       out_encapsulated_key out_encapsulated_key_len out_ciphertext out_ciphertext_len w"
  shows "defined_at (decap_and_seal_body E uuid_bytes encapsulated_key encapsulated_key_len aad aad_len
       out_encapsulated_key out_encapsulated_key_len out_ciphertext out_ciphertext_len) w"
proof -
  have "never_undefined (decap_and_seal_internal E u e a s t)" for u e a s t
    unfolding decap_and_seal_internal_def
    by (auto split: KeySpec.splits prod.splits intro!: defined_rules)
  then show ?thesis
    using assms unfolding decap_and_seal_body_def decap_safe_def
    by (intro defined_at_guard defined_at_reads defined_at_always) (auto intro!: defined_rules)
qed

lemma get_kem_key_body_defined:
  assumes "get_kem_safe uuid_bytes out_kem_pubkey out_kem_pubkey_len out_binding_pubkey
       out_binding_pubkey_len out_algo out_algo_len out_remaining_lifespan_secs w"
  shows "defined_at (get_kem_key_body E uuid_bytes out_kem_pubkey out_kem_pubkey_len out_binding_pubkey
       out_binding_pubkey_len out_algo out_algo_len out_remaining_lifespan_secs) w"
proof -
  have "never_undefined (get_kem_key_internal E u)" for u
    unfolding get_kem_key_internal_def Let_def
    by (auto split: KeySpec.splits intro!: defined_rules simp del: bindM_Instant_now)
  moreover obtain n s where "mem w out_algo_len = Some (UsizeCell n)" "valid_buf out_algo n w"
    "mem w out_remaining_lifespan_secs = Some (U64Cell s)"
    using assms by (auto simp: get_kem_safe_def)
  ultimately show ?thesis
    using assms unfolding get_kem_key_body_def get_kem_safe_def Let_def
    by (intro defined_at_guard defined_at_reads defined_at_always)
      (auto split: prod.splits intro!: defined_rules)
qed

lemma never_undefined_fill_kem: "never_undefined (fill_kem_entries E entries i metas)"
  by (induction metas arbitrary: i)
    (auto simp: Let_def split: KeySpec.splits intro!: defined_rules simp del: bindM_Instant_now)

lemma enumerate_kem_keys_body_defined:
  assumes "enumerate_safe out_entries max_entries es out_has_more w"
  shows "defined_at (enumerate_kem_keys_body E out_entries max_entries offset out_has_more) w"
  using assms unfolding enumerate_kem_keys_body_def enumerate_kem_keys_internal_def enumerate_safe_def Let_def
  by (intro defined_at_guard defined_at_reads defined_at_always)
    (auto split: option.splits prod.splits intro!: defined_rules never_undefined_fill_kem)

text \<open>A call that fails has not written to the caller's memory.\<close>

lemma kps_writes_on_success:
  "writes_on_success (generate_kem_keypair_body E algo_ptr algo_len binding_pubkey binding_pubkey_len
      expiry_secs out_uuid out_pubkey out_pubkey_len)"
  "writes_on_success (destroy_kem_key_body E uuid_bytes)"
  "writes_on_success (decap_and_seal_body E uuid_bytes encapsulated_key encapsulated_key_len aad aad_len
      out_encapsulated_key out_encapsulated_key_len out_ciphertext out_ciphertext_len)"
  "writes_on_success (get_kem_key_body E uuid_bytes out_kem_pubkey out_kem_pubkey_len out_binding_pubkey
      out_binding_pubkey_len out_algo out_algo_len out_remaining_lifespan_secs)"
proof -
  have "keeps_mem (generate_kem_keypair_internal E algo b e)" for algo b e
    unfolding generate_kem_keypair_internal_def Let_def
    by (intro keeps_mem_bindM keeps_mem_rules)
      (auto split: KeySpec.splits intro!: mem_rules simp del: bindM_updateM)
  note gen = writes_on_success_bindM [OF this]
  show "writes_on_success (generate_kem_keypair_body E algo_ptr algo_len binding_pubkey
      binding_pubkey_len expiry_secs out_uuid out_pubkey out_pubkey_len)"
    unfolding generate_kem_keypair_body_def split_beta
    by (intro writes_rules gen writes_on_success_first always_returns_copy) simp_all
  show "writes_on_success (destroy_kem_key_body E uuid_bytes)"
    unfolding destroy_kem_key_body_def
    by (intro writes_rules keeps_mem_static [THEN writes_on_success_bindM] always_returns_writes)
      (simp add: always_returns_def updateM_def)
  have "writes_on_success (decap_and_seal_internal E u e a (SliceMut p n) (SliceMut q m))" for u e a p n q m
    unfolding decap_and_seal_internal_def split_beta
    by (intro writes_rules keeps_mem_static [THEN writes_on_success_bindM])
      (auto split: KeySpec.splits intro!: writes_on_success_basic
        keeps_mem_rules [THEN writes_on_success_bindM] writes_on_success_first always_returns_copy)
  then show "writes_on_success (decap_and_seal_body E uuid_bytes encapsulated_key encapsulated_key_len
      aad aad_len out_encapsulated_key out_encapsulated_key_len out_ciphertext out_ciphertext_len)"
    unfolding decap_and_seal_body_def by (intro writes_rules)
  have "keeps_mem (get_kem_key_internal E u)" for u
    unfolding get_kem_key_internal_def Let_def
    by (intro keeps_mem_bindM keeps_mem_static keeps_mem_pure)
      (auto split: KeySpec.splits intro!: mem_rules simp del: bindM_Instant_now)
  note get = writes_on_success_bindM [OF this]
  show "writes_on_success (get_kem_key_body E uuid_bytes out_kem_pubkey out_kem_pubkey_len out_binding_pubkey
      out_binding_pubkey_len out_algo out_algo_len out_remaining_lifespan_secs)"
    unfolding get_kem_key_body_def Let_def split_beta
    by (intro writes_rules get writes_on_success_first always_returns_bindM always_returns_copy) simp_all
qed

section \<open>The reference caller\<close>

lemma ref_generate_kem_args:
  "generate_kem_present 11 12 4 32 2 3"
  "generate_kem_safe 11 12 4 32 2 3 32 (ref_world es)"
  "generate_kem_safe 11 12 4 32 2 3 16 (ref_world es)"
  using ref_valid_bufs [of "ref_world es" es]
  by (simp_all add: generate_kem_present_def generate_kem_safe_def is_null_def)
    (simp add: valid_buf_def ref_mem_def)

abbreviation (input) ref_kem_spec :: KeySpec where
  "ref_kem_spec \<equiv> KemWithBindingPub ref_suite (ref_public 5) (ref_public 7)"

lemma ref_kem_stored_inv: "core_inv (kps_record ref_env) (ref_stored ref_kem_spec es)"
  by (rule ref_stored_inv)
    (simp add: kps_record_def ref_record_ok own_public_key_def, simp add: ref_record_def ref_public_def)

lemma ref_decap_args:
  "decap_present 2 4 32 3 32 5 48"
  "decap_safe 2 4 32 0 0 3 32 5 48 (ref_stored sp es)"
  using ref_valid_bufs [of "ref_stored sp es" es]
  by (simp_all add: decap_present_def decap_safe_def is_null_def)

lemma ref_decap_call:
  "fst (key_manager_decap_and_seal ref_env 2 4 32 0 0 3 32 5 48 (ref_stored ref_kem_spec es)) = Returns Success"
proof -
  obtain ss where "decaps ref_env (get_private_key (ref_record ref_kem_spec)) (replicate 32 7)
      (looked_up (Uuid (buf 2 16 (ref_stored ref_kem_spec es))) (ref_stored ref_kem_spec es))
    = (Ok (SecretBox ss), looked_up (Uuid (buf 2 16 (ref_stored ref_kem_spec es))) (ref_stored ref_kem_spec es))"
    and "length ss = 32"
    using ref_decaps [of "replicate 32 7"] by auto
  then show ?thesis
    unfolding key_manager_decap_and_seal_def ffi_call_def ffi_call_with_reporter_def
      decap_and_seal_body_eq [OF ref_kem_stored_inv ref_stored_usable ref_decap_args refl] ref_live
    by (simp add: reseal_def ref_bufs bindM_def ref_seal updateM_def)
qed

section \<open>Properties\<close>

text \<open>
  C14. What a successful \<^verbatim>\<open>key_manager_generate_kem_keypair\<close> has done: the registry has one more
  record, under the handle that was written to \<^verbatim>\<open>out_uuid\<close>. The record is bound to the public key
  the caller passed, carries the decoded suite, was created at the reading of the clock the call
  made, and expires \<^verbatim>\<open>expiry_secs\<close> later; the public key in \<^verbatim>\<open>out_pubkey\<close> is the KEM public key
  of the record. Nothing else in the caller's memory changed.
\<close>

theorem generate_kem_keypair_success:
  assumes "hpke_spec E" and "uuid_spec E" and "core_inv (kps_record E) w"
    and "generate_kem_safe algo_ptr algo_len binding_pubkey binding_pubkey_len out_uuid out_pubkey
       out_pubkey_len w"
    and "key_manager_generate_kem_keypair E algo_ptr algo_len binding_pubkey binding_pubkey_len
       expiry_secs out_uuid out_pubkey out_pubkey_len w = (Returns Success, w')"
  shows "\<exists>rec algo. contents w' = (contents w)(Uuid (buf out_uuid 16 w') \<mapsto> rec)
     \<and> HpkeAlgorithm_decode E (buf algo_ptr algo_len w) = Some algo \<and> suite_supported E algo
     \<and> spec (meta rec) = KemWithBindingPub algo
          (X25519_public (X25519PublicKey (buf out_pubkey out_pubkey_len w')))
          (X25519_public (X25519PublicKey (buf binding_pubkey binding_pubkey_len w)))
     \<and> created_at (meta rec) = clock w (ticks w)
     \<and> delete_after (meta rec) = clock w (ticks w) + unat expiry_secs * nanos_per_sec
     \<and> (\<forall>p. p \<noteq> out_uuid \<and> p \<noteq> out_pubkey \<longrightarrow> mem w' p = mem w p)"
proof -
  have body: "generate_kem_keypair_body E algo_ptr algo_len binding_pubkey binding_pubkey_len expiry_secs
       out_uuid out_pubkey out_pubkey_len w = (Ok (), w')"
    using assms(5) by (simp add: key_manager_generate_kem_keypair_def generate_kem.success_iff)
  obtain algo h pk v where present: "generate_kem_present algo_ptr algo_len binding_pubkey
       binding_pubkey_len out_uuid out_pubkey"
    and algo: "HpkeAlgorithm_decode E (buf algo_ptr algo_len w) = Some algo"
    and gen: "create_and_add E algo (Duration_from_secs expiry_secs) (\<lambda>a pk. KemWithBindingPub a pk
         (X25519_public (X25519PublicKey (buf binding_pubkey binding_pubkey_len w)))) w = (Ok (h, pk), v)"
    and len: "unat out_pubkey_len = length (PublicKey_as_bytes pk)"
    and w': "w' = v\<lparr>mem := write_mem out_pubkey (PublicKey_as_bytes pk)
         (write_mem out_uuid (as_bytes h) (mem w))\<rparr>"
    by (rule generate_kem_keypair_body_Ok [OF assms(1-4) body])
  have own: "own_public_key (KemWithBindingPub a k b) = k" for a k b
    by (simp add: own_public_key_def)
  note made = create_and_add_Ok [OF assms(1,3) own gen]
  have safe: "valid_buf out_uuid 16 w" "valid_buf out_pubkey out_pubkey_len w" "out_uuid \<noteq> out_pubkey"
    using assms(4) present by (auto simp: generate_kem_safe_def generate_kem_present_def)
  have "length (as_bytes h) = 16"
    using made(2) assms(2) by (simp add: uuid_spec_def)
  then have uuid: "buf out_uuid 16 w' = as_bytes h"
    using buf_write_mem [OF safe(1), of w' "as_bytes h"] safe(3) w' by simp
  have pub: "buf out_pubkey out_pubkey_len w' = PublicKey_as_bytes pk"
  proof -
    let ?u = "w\<lparr>mem := write_mem out_uuid (as_bytes h) (mem w)\<rparr>"
    have "valid_buf out_pubkey out_pubkey_len ?u"
      using safe(2,3) by (simp add: valid_buf_def)
    then show ?thesis
      using buf_write_mem [of out_pubkey out_pubkey_len ?u w' "PublicKey_as_bytes pk"] len w' by simp
  qed
  obtain rec where rec: "contents v = (contents w)(h \<mapsto> rec)"
    and meta: "meta rec = new_metadata E algo (Duration_from_secs expiry_secs)
      (\<lambda>a pk. KemWithBindingPub a pk
         (X25519_public (X25519PublicKey (buf binding_pubkey binding_pubkey_len w)))) w"
    using made(1) by blast
  have "pk = X25519_public (X25519PublicKey (PublicKey_as_bytes pk))"
    by (simp add: made(3) key_pair_def)
  then show ?thesis
    using rec meta algo made(3,4) uuid pub w'
    by (intro exI [of _ rec] exI [of _ algo])
      (simp add: new_metadata_def Duration_from_secs_def)
qed

theorem generate_kem_keypair_success_witness:
  "\<exists>w' rec. key_manager_generate_kem_keypair ref_env 11 12 4 32 60 2 3 32 (ref_world ([] :: KpsKeyInfo list))
       = (Returns Success, w')
     \<and> contents w' (Uuid (buf 2 16 w')) = Some rec \<and> delete_after (meta rec) = 60 * nanos_per_sec"
proof -
  obtain w' where call: "key_manager_generate_kem_keypair ref_env 11 12 4 32 60 2 3 32
      (ref_world ([] :: KpsKeyInfo list)) = (Returns Success, w')"
    using generate_kem_keypair_body_run [OF ref_hpke_spec ref_uuid_spec ref_secretmem_spec ref_world_inv
        ref_generate_kem_args(1) ref_generate_kem_args(2) _ ref_decode_buf ref_suite_supported
        ref_vault_granted ref_world_granted, of "[] :: KpsKeyInfo list"]
    by (auto simp: ref_bufs key_manager_generate_kem_keypair_def ffi_call_def ffi_call_with_reporter_def)
  then show ?thesis
    using generate_kem_keypair_success [OF ref_hpke_spec ref_uuid_spec ref_world_inv
        ref_generate_kem_args(2) call] by (auto simp: ref_clock_def)
qed

text \<open>
  The call succeeds whenever it should: arguments in order, a supported suite, a 32-byte binding
  key and a 32-byte buffer, an expiry in the range of the clock, and a kernel that grants the vault
  and the reaper thread.
\<close>

theorem generate_kem_keypair_total:
  assumes "hpke_spec E" and "uuid_spec E" and "secretmem_spec E" and "core_inv (kps_record E) w"
    and "generate_kem_present algo_ptr algo_len binding_pubkey binding_pubkey_len out_uuid out_pubkey"
    and "generate_kem_safe algo_ptr algo_len binding_pubkey binding_pubkey_len out_uuid out_pubkey 32 w"
    and "length (buf binding_pubkey binding_pubkey_len w) = 32"
    and "HpkeAlgorithm_decode E (buf algo_ptr algo_len w) = Some algo" and "suite_supported E algo"
    and "vault_granted E (syscalls w) 32" and "usable E (w\<lparr>syscalls := syscalls w + 3\<rparr>)"
    and "(clock w (ticks w) + Duration_from_secs expiry_secs) div nanos_per_sec \<le> i64_max"
  shows "fst (key_manager_generate_kem_keypair E algo_ptr algo_len binding_pubkey binding_pubkey_len
     expiry_secs out_uuid out_pubkey 32 w) = Returns Success"
  using generate_kem_keypair_body_run [OF assms]
  by (auto simp: key_manager_generate_kem_keypair_def ffi_call_def ffi_call_with_reporter_def)

theorem generate_kem_keypair_total_witness:
  "fst (key_manager_generate_kem_keypair ref_env 11 12 4 32 60 2 3 32 (ref_world ([] :: KpsKeyInfo list)))
     = Returns Success"
  by (rule generate_kem_keypair_total [OF ref_hpke_spec ref_uuid_spec ref_secretmem_spec ref_world_inv
        ref_generate_kem_args(1) ref_generate_kem_args(2) _ ref_decode_buf ref_suite_supported
        ref_vault_granted ref_world_granted]) (simp_all add: ref_bufs)

text \<open>
  C40. The length of \<^verbatim>\<open>out_pubkey\<close> is checked after the key was stored. With any other length the
  call returns \<^verbatim>\<open>InvalidArgument\<close> and writes nothing, but the registry has gained a live key whose
  handle the caller never learns.
\<close>

theorem generate_kem_keypair_orphans_key:
  assumes "hpke_spec E" and "uuid_spec E" and "secretmem_spec E" and "core_inv (kps_record E) w"
    and "generate_kem_present algo_ptr algo_len binding_pubkey binding_pubkey_len out_uuid out_pubkey"
    and "generate_kem_safe algo_ptr algo_len binding_pubkey binding_pubkey_len out_uuid out_pubkey
       out_pubkey_len w"
    and "length (buf binding_pubkey binding_pubkey_len w) = 32"
    and "HpkeAlgorithm_decode E (buf algo_ptr algo_len w) = Some algo" and "suite_supported E algo"
    and "vault_granted E (syscalls w) 32" and "usable E (w\<lparr>syscalls := syscalls w + 3\<rparr>)"
    and "(clock w (ticks w) + Duration_from_secs expiry_secs) div nanos_per_sec \<le> i64_max"
    and "out_pubkey_len \<noteq> 32"
  shows "\<exists>w' rec. key_manager_generate_kem_keypair E algo_ptr algo_len binding_pubkey binding_pubkey_len
       expiry_secs out_uuid out_pubkey out_pubkey_len w = (Returns InvalidArgument, w')
     \<and> contents w' = (contents w)(Uuid_new_v4 E (Suc (draws w)) \<mapsto> rec) \<and> mem w' = mem w"
proof -
  have own: "own_public_key (KemWithBindingPub a k b) = k" for a k b
    by (simp add: own_public_key_def)
  obtain h pk v where gen: "create_and_add E algo (Duration_from_secs expiry_secs) (\<lambda>a pk. KemWithBindingPub a pk
         (X25519_public (X25519PublicKey (buf binding_pubkey binding_pubkey_len w)))) w = (Ok (h, pk), v)"
    and run: "generate_kem_keypair_body E algo_ptr algo_len binding_pubkey binding_pubkey_len expiry_secs
         out_uuid out_pubkey out_pubkey_len w = (Err InvalidArgument, v)"
    using generate_kem_keypair_body_run [OF assms(1-12)] assms(13) by auto
  note made = create_and_add_Ok [OF assms(1,4) own gen]
  show ?thesis
    using made(1,2,5) run
    by (auto simp: key_manager_generate_kem_keypair_def ffi_call_def ffi_call_with_reporter_def
        telemetry_report_failure_def)
qed

theorem generate_kem_keypair_orphans_key_witness:
  "\<exists>w' rec. key_manager_generate_kem_keypair ref_env 11 12 4 32 60 2 3 16 (ref_world ([] :: KpsKeyInfo list))
       = (Returns InvalidArgument, w')
     \<and> contents w' = [Uuid (replicate 16 1) \<mapsto> rec] \<and> mem w' = ref_mem []"
  using generate_kem_keypair_orphans_key [OF ref_hpke_spec ref_uuid_spec ref_secretmem_spec ref_world_inv
        ref_generate_kem_args(1) ref_generate_kem_args(3) _ ref_decode_buf ref_suite_supported
        ref_vault_granted ref_world_granted, of "[] :: KpsKeyInfo list"]
  by (simp add: ref_bufs) (simp add: ref_env_def)

text \<open>
  \<^verbatim>\<open>key_manager_destroy_kem_key\<close> removes exactly the named key and nothing else, reports
  \<^verbatim>\<open>NotFound\<close> if there was none, and zeroizes the secret before its memory is unmapped.
\<close>

theorem destroy_kem_key_removes:
  assumes "zeroize_spec E" and "core_inv (kps_record E) w" and "usable E w"
    and "\<not> is_null uuid_bytes" and "valid_buf uuid_bytes 16 w" and "h = Uuid (buf uuid_bytes 16 w)"
  shows "\<exists>w'. key_manager_destroy_kem_key E uuid_bytes w
       = (Returns (if contents w h = None then NotFound else Success), w')
     \<and> contents w' = (contents w)(h := None) \<and> mem w' = mem w
     \<and> released w' = released w @ (case contents w h of None \<Rightarrow> []
          | Some rec \<Rightarrow> [replicate (length (mmap (private_key rec))) 0])"
  unfolding key_manager_destroy_kem_key_def
  by (rule ffi_call_remove [OF assms(2,3,1)]) (simp add: destroy_kem_key_body_eq assms(4-6))

theorem destroy_kem_key_removes_witness:
  "\<exists>w'. key_manager_destroy_kem_key ref_env 2
       (ref_stored ref_kem_spec ([] :: KpsKeyInfo list))
       = (Returns Success, w')
     \<and> contents w' = Map.empty \<and> released w' = [replicate 32 0]"
  using destroy_kem_key_removes [OF ref_zeroize_spec ref_kem_stored_inv
      ref_stored_usable _ _ refl, of 2 "[] :: KpsKeyInfo list"]
    ref_valid_bufs(2) [of "ref_stored ref_kem_spec []" "[]"]
  by (auto simp: ref_bufs is_null_def ref_stored_contents ref_handle_def ref_record_def)

text \<open>
  C12. A successful \<^verbatim>\<open>key_manager_decap_and_seal\<close> found a live record, decapsulated the caller's
  encapsulated key with its private key, and sealed the shared secret to the public key the record was
  bound to when it was created, under the record's suite and the caller's additional data. Only the two
  output buffers changed, and the registry did not.
\<close>

theorem decap_and_seal_success:
  fixes w :: "'e world"
  assumes "hpke_spec E" and "core_inv (kps_record E) w" and "usable E w"
    and "decap_safe uuid_bytes encapsulated_key encapsulated_key_len aad aad_len
       out_encapsulated_key out_encapsulated_key_len out_ciphertext out_ciphertext_len w"
    and "key_manager_decap_and_seal E uuid_bytes encapsulated_key encapsulated_key_len aad aad_len
       out_encapsulated_key out_encapsulated_key_len out_ciphertext out_ciphertext_len w = (Returns Success, w')"
    and "h = Uuid (buf uuid_bytes 16 w)"
  shows "\<exists>rec shared_secret (v :: 'e world). contents w h = Some rec \<and> clock w (ticks w) < delete_after (meta rec)
     \<and> decaps E (get_private_key rec) (buf encapsulated_key encapsulated_key_len w) v = (Ok shared_secret, v)
     \<and> fst (hpke_seal E (binding_public_key (spec (meta rec))) shared_secret (aad_buf aad aad_len w)
          (spec_algo (spec (meta rec))) v)
       = Ok (buf out_encapsulated_key out_encapsulated_key_len w', buf out_ciphertext out_ciphertext_len w')
     \<and> draws v = draws w \<and> contents w' = contents w
     \<and> (\<forall>p. p \<noteq> out_encapsulated_key \<and> p \<noteq> out_ciphertext \<longrightarrow> mem w' p = mem w p)"
proof -
  have body: "decap_and_seal_body E uuid_bytes encapsulated_key encapsulated_key_len aad aad_len
       out_encapsulated_key out_encapsulated_key_len out_ciphertext out_ciphertext_len w = (Ok (), w')"
    using assms(5) by (simp add: key_manager_decap_and_seal_def decap_and_seal.success_iff)
  have present: "decap_present uuid_bytes encapsulated_key encapsulated_key_len
       out_encapsulated_key out_encapsulated_key_len out_ciphertext out_ciphertext_len"
    using body by (auto simp: decap_and_seal_body_def decap_present_def errM_def split: if_splits)
  let ?v = "looked_up h w"
  let ?enc = "buf encapsulated_key encapsulated_key_len w" and ?aad = "aad_buf aad aad_len w"
  note eq = body [unfolded decap_and_seal_body_eq [OF assms(2,3) present assms(4,6)]]
  obtain rec enc ct u where rec: "unexpired (clock w (ticks w)) (contents w h) = Some rec"
    and reseal: "reseal E rec ?enc ?aad ?v = (Ok (enc, ct), u)"
    and len: "unat out_encapsulated_key_len = length enc" "unat out_ciphertext_len = length ct"
    and w': "w' = u\<lparr>mem := write_mem out_ciphertext ct (write_mem out_encapsulated_key enc (mem u))\<rparr>"
    using eq by (auto simp: bindM_eq_Ok errM_def updateM_def split: option.splits if_splits)
  obtain ss where decap: "decaps E (get_private_key rec) ?enc ?v = (Ok ss, ?v)"
    and seal: "hpke_seal E (binding_public_key (spec (meta rec))) ss ?aad (spec_algo (spec (meta rec))) ?v
        = (Ok (enc, ct), u)"
    using reseal crypto_frame(1) [of E "get_private_key rec" ?enc ?v]
    by (auto simp: reseal_def bindM_eq_Ok)
  have u: "mem u = mem w" "contents u = contents w"
    using crypto_frame(3) [of E "binding_public_key (spec (meta rec))" ss ?aad "spec_algo (spec (meta rec))" ?v]
      seal contents_frame [of u ?v] by auto
  have safe: "valid_buf out_encapsulated_key out_encapsulated_key_len w"
    "valid_buf out_ciphertext out_ciphertext_len w" "out_encapsulated_key \<noteq> out_ciphertext"
    using assms(4) by (auto simp: decap_safe_def)
  have "buf out_encapsulated_key out_encapsulated_key_len w' = enc"
    using buf_write_mem [OF safe(1), of w' enc] safe(3) w' u(1) len(1) by simp
  moreover have "buf out_ciphertext out_ciphertext_len w' = ct"
    using buf_write_mem [of out_ciphertext out_ciphertext_len
        "w\<lparr>mem := write_mem out_encapsulated_key enc (mem w)\<rparr>" w' ct] safe w' u(1) len(2)
    by (simp add: valid_buf_def)
  ultimately show ?thesis
    using rec decap seal u w' by (intro exI [of _ rec] exI [of _ ss] exI [of _ ?v])
      (auto simp: unexpired_eq_Some)
qed

theorem decap_and_seal_success_witness:
  "\<exists>w'. key_manager_decap_and_seal ref_env 2 4 32 0 0 3 32 5 48
       (ref_stored ref_kem_spec ([] :: KpsKeyInfo list)) = (Returns Success, w')
     \<and> contents w' = [ref_handle \<mapsto> ref_record ref_kem_spec] \<and> mem w' 2 = Some (Bytes (replicate 16 0))"
proof -
  obtain w' where call: "key_manager_decap_and_seal ref_env 2 4 32 0 0 3 32 5 48
       (ref_stored ref_kem_spec ([] :: KpsKeyInfo list)) = (Returns Success, w')"
    using ref_decap_call [of "[] :: KpsKeyInfo list"] by (metis prod.collapse)
  then show ?thesis
    using decap_and_seal_success [OF ref_hpke_spec ref_kem_stored_inv ref_stored_usable ref_decap_args(2) call refl]
    by (auto simp: ref_stored_contents ref_mem_def)
qed


text \<open>
  A key that was destroyed, that never existed, or whose time is up is not used: the call returns
  \<^verbatim>\<open>NotFound\<close>, whether or not the reaper has run, and writes nothing.
\<close>

theorem decap_and_seal_not_found:
  assumes "core_inv (kps_record E) w" and "usable E w"
    and "decap_present uuid_bytes encapsulated_key encapsulated_key_len
       out_encapsulated_key out_encapsulated_key_len out_ciphertext out_ciphertext_len"
    and "decap_safe uuid_bytes encapsulated_key encapsulated_key_len aad aad_len
       out_encapsulated_key out_encapsulated_key_len out_ciphertext out_ciphertext_len w"
    and "h = Uuid (buf uuid_bytes 16 w)"
    and "\<forall>rec. contents w h = Some rec \<longrightarrow> delete_after (meta rec) \<le> clock w (ticks w)"
  shows "\<exists>w'. key_manager_decap_and_seal E uuid_bytes encapsulated_key encapsulated_key_len aad aad_len
       out_encapsulated_key out_encapsulated_key_len out_ciphertext out_ciphertext_len w
     = (Returns NotFound, w') \<and> mem w' = mem w \<and> contents w' = contents w"
proof -
  have "unexpired (clock w (ticks w)) (contents w h) = None"
    using assms(6) by (auto simp: unexpired_def split: option.splits)
  then show ?thesis
    by (simp add: key_manager_decap_and_seal_def ffi_call_def ffi_call_with_reporter_def
        decap_and_seal_body_eq [OF assms(1-5)] telemetry_report_failure_def)
qed

theorem decap_and_seal_not_found_witness:
  "\<exists>w'. key_manager_decap_and_seal ref_env 2 4 32 0 0 3 32 5 48
       ((ref_stored ref_kem_spec ([] :: KpsKeyInfo list))\<lparr>ticks := 60\<rparr>) = (Returns NotFound, w')
     \<and> mem w' = ref_mem []"
proof -
  let ?w = "(ref_stored ref_kem_spec ([] :: KpsKeyInfo list))\<lparr>ticks := 60\<rparr>"
  have "core_inv (kps_record ref_env) ?w"
    using ref_kem_stored_inv core_inv_same [of ?w "ref_stored ref_kem_spec ([] :: KpsKeyInfo list)" "kps_record ref_env"] by simp
  moreover have "usable ref_env ?w"
    by (rule ref_usable) (simp add: ref_stored_def)
  moreover have "decap_safe 2 4 32 0 0 3 32 5 48 ?w"
    using ref_decap_args(2) [of ref_kem_spec "[] :: KpsKeyInfo list"] by (simp add: decap_safe_def valid_buf_def)
  moreover have "contents ?w = contents (ref_stored ref_kem_spec ([] :: KpsKeyInfo list))"
    by (rule contents_frame) simp
  moreover from this have "\<forall>rec. contents ?w (Uuid (buf 2 16 ?w)) = Some rec \<longrightarrow>
      delete_after (meta rec) \<le> clock ?w (ticks ?w)"
    by (auto simp: ref_stored_contents ref_clock_def split: if_splits)
  ultimately obtain w' where "key_manager_decap_and_seal ref_env 2 4 32 0 0 3 32 5 48 ?w
      = (Returns NotFound, w')" and "mem w' = mem ?w"
    using decap_and_seal_not_found [of ref_env ?w 2 4 32 3 32 5 48 0 0, OF _ _ ref_decap_args(1) _ refl]
    by blast
  then show ?thesis
    by simp
qed


text \<open>
  \<^verbatim>\<open>key_manager_decap_and_seal\<close> succeeds on a live key, a 32-byte encapsulated key that yields a
  shared key, a binding key a sender can be set up for, and output buffers of 32 and 48 bytes.
\<close>

theorem decap_and_seal_total:
  assumes "hpke_spec E" and "hkdf_spec E" and "core_inv (kps_record E) w" and "usable E w"
    and "decap_present uuid_bytes encapsulated_key 32 out_encapsulated_key 32 out_ciphertext 48"
    and "decap_safe uuid_bytes encapsulated_key 32 aad aad_len out_encapsulated_key 32 out_ciphertext 48 w"
    and "h = Uuid (buf uuid_bytes 16 w)" and "contents w h = Some rec"
    and "clock w (ticks w) < delete_after (meta rec)"
    and "get_private_key rec = PrivateKey_from (SecretBox sk)" and "length sk = 32"
    and "compute_shared_key E sk (buf encapsulated_key 32 w) \<noteq> None"
    and "\<And>n. SenderContext_new E hpke_params (PublicKey_as_bytes (binding_public_key (spec (meta rec)))) [] n
       \<noteq> None"
  shows "fst (key_manager_decap_and_seal E uuid_bytes encapsulated_key 32 aad aad_len
     out_encapsulated_key 32 out_ciphertext 48 w) = Returns Success"
proof -
  let ?v = "looked_up h w" and ?enc = "buf encapsulated_key 32 w"
  have len: "length ?enc = 32"
    using assms(6) buf_length [of encapsulated_key 32 w] by (simp add: decap_safe_def)
  obtain dh where dh: "compute_shared_key E sk ?enc = Some dh"
    using assms(12) by auto
  obtain ss where ss: "rfc_ExtractAndExpand E dh (?enc @ to_public E sk) = Some ss"
    using expand_exists [OF assms(2)] by (fastforce simp: rfc_ExtractAndExpand_def rfc_LabeledExpand_def Let_def)
  have decap: "decaps E (get_private_key rec) ?enc ?v = (Ok (SecretBox ss), ?v)"
    using dh ss len assms(10,11)
    by (simp add: decaps_def decaps_internal_def PrivateKey_from_def x25519_decaps_internal_rfc)
  have ss_len: "length ss = 32"
    using decaps_secret_length [OF assms(2), of "X25519PrivateKey (SecretBox sk)" ?enc ?v "SecretBox ss" ?v]
      decap assms(10) by (simp add: decaps_def decaps_internal_def PrivateKey_from_def)
  have "kps_record E rec"
    using core_inv_contents [OF assms(3,8)] .
  then have supp: "suite_supported E (spec_algo (spec (meta rec)))"
    by (simp add: kps_record_def record_ok_def)
  obtain pk where pk: "binding_public_key (spec (meta rec)) = X25519_public (X25519PublicKey pk)"
    by (metis PublicKey.exhaust X25519PublicKey.exhaust)
  obtain enc ct u where seal: "hpke_seal E (binding_public_key (spec (meta rec))) (SecretBox ss)
      (aad_buf aad aad_len w) (spec_algo (spec (meta rec))) ?v = (Ok (enc, ct), u)"
    using assms(13) [of "draws ?v"] supp pk
    by (auto simp: hpke_seal_def hpke_seal_internal_def x25519_hpke_seal_internal_def basicM_defs
        split: option.splits)
  have "length enc = 32 \<and> length ct = 48"
    using seal_lengths [OF assms(1)] seal pk ss_len
    by (fastforce simp: hpke_seal_def hpke_seal_internal_def)
  then show ?thesis
    using assms(8,9) decap seal
    by (simp add: key_manager_decap_and_seal_def ffi_call_def ffi_call_with_reporter_def
        decap_and_seal_body_eq [OF assms(3-7)] reseal_def bindM_def updateM_def)
qed

theorem decap_and_seal_total_witness:
  "fst (key_manager_decap_and_seal ref_env 2 4 32 0 0 3 32 5 48
       (ref_stored ref_kem_spec ([] :: KpsKeyInfo list))) = Returns Success"
  by (rule decap_and_seal_total [OF ref_hpke_spec ref_hkdf_spec ref_kem_stored_inv ref_stored_usable
      ref_decap_args refl _ _ ref_private_key])
    (simp_all add: ref_stored_contents ref_bufs ref_handle_def ref_env_simps ref_clock_def nanos_per_sec_def)

text \<open>
  \<^verbatim>\<open>key_manager_get_kem_key\<close> on a live key and buffers of the right sizes writes the record's two
  public keys, its encoded suite (which decodes to the suite) with its length, and the whole seconds
  that remain until the deadline.
\<close>

theorem get_kem_key_returns:
  assumes "prost_spec E" and "hpke_spec E" and "core_inv (kps_record E) w" and "usable E w"
    and "get_kem_present uuid_bytes out_kem 32 out_binding 32 out_algo out_algo_len out_secs"
    and "get_kem_safe uuid_bytes out_kem 32 out_binding 32 out_algo out_algo_len out_secs w"
    and "contents w (Uuid (buf uuid_bytes 16 w)) = Some rec" and "clock w (ticks w) < delete_after (meta rec)"
    and "mem w out_algo_len = Some (UsizeCell n)" and "33 \<le> unat n"
  shows "\<exists>w' len secs. key_manager_get_kem_key E uuid_bytes out_kem 32 out_binding 32 out_algo out_algo_len
       out_secs w = (Returns Success, w')
     \<and> buf out_kem 32 w' = PublicKey_as_bytes (kem_public_key (spec (meta rec)))
     \<and> buf out_binding 32 w' = PublicKey_as_bytes (binding_public_key (spec (meta rec)))
     \<and> mem w' out_algo_len = Some (UsizeCell len)
     \<and> HpkeAlgorithm_decode E (buf out_algo len w') = Some (spec_algo (spec (meta rec)))
     \<and> mem w' out_secs = Some (U64Cell secs)
     \<and> unat secs = (delete_after (meta rec) - clock w (Suc (ticks w))) div nanos_per_sec
     \<and> contents w' = contents w"
proof -
  have rec: "kps_record E rec"
    using core_inv_contents [OF assms(3,7)] .
  then obtain algo k b where sp: "spec (meta rec) = KemWithBindingPub algo k b"
    and b: "length (PublicKey_as_bytes b) = 32"
    using kps_record_spec by blast
  have k: "length (PublicKey_as_bytes k) = 32"
    using rec sp record_ok_length [OF assms(2), of rec] by (simp add: kps_record_def own_public_key_def)
  have fit: "length (encode_to_vec E algo) \<le> unat n"
    using length_encode [OF assms(1), of algo] assms(10) by linarith
  have secs: "unat (Duration_as_secs (saturating_duration_since (delete_after (meta rec)) t))
      = (delete_after (meta rec) - t) div nanos_per_sec" for t
    by (rule remaining_secs_fit) (use rec in \<open>simp add: kps_record_def record_ok_def\<close>)
  let ?h = "Uuid (buf uuid_bytes 16 w)"
  let ?secs = "Duration_as_secs (saturating_duration_since (delete_after (meta rec)) (clock w (Suc (ticks w))))"
  let ?len = "word_of_nat (length (encode_to_vec E algo)) :: usize"
  let ?w' = "(looked_up ?h w)\<lparr>ticks := ticks w + 2, mem := (write_mem out_algo (encode_to_vec E algo)
      (write_mem out_binding (PublicKey_as_bytes b) (write_mem out_kem (PublicKey_as_bytes k) (mem w))))
        (out_algo_len \<mapsto> UsizeCell ?len, out_secs \<mapsto> U64Cell ?secs)\<rparr>"
  have body: "get_kem_key_body E uuid_bytes out_kem 32 out_binding 32 out_algo out_algo_len out_secs w
      = (Ok (), ?w')"
    using sp b k fit assms(7,8)
    by (simp add: get_kem_key_body_eq [OF assms(3-6) refl assms(9)] Let_def)
  have safe: "valid_buf out_kem 32 w" "valid_buf out_binding 32 w" "valid_buf out_algo n w"
    "distinct [out_kem, out_binding, out_algo, out_algo_len, out_secs]"
    using assms(6,9) by (auto simp: get_kem_safe_def)
  have "buf out_kem 32 ?w' = PublicKey_as_bytes k"
    by (rule buf_write_mem [OF safe(1)]) (use safe(4) k in auto)
  moreover have "buf out_binding 32 ?w' = PublicKey_as_bytes b"
    by (rule buf_write_mem [of _ _ "w\<lparr>mem := write_mem out_kem (PublicKey_as_bytes k) (mem w)\<rparr>"])
      (use safe(2,4) b in \<open>auto simp: valid_buf_def\<close>)
  moreover have "buf out_algo ?len ?w' = encode_to_vec E algo"
    by (rule buf_prefix_write_mem [of _ n "w\<lparr>mem := write_mem out_binding (PublicKey_as_bytes b)
          (write_mem out_kem (PublicKey_as_bytes k) (mem w))\<rparr>"])
      (use safe(3,4) fit in \<open>auto simp: valid_buf_def\<close>)
  moreover have "contents ?w' = contents w"
    using contents_frame [of ?w' "looked_up ?h w"] by simp
  ultimately show ?thesis
    using body sp secs safe(4) decode_encode [OF assms(1)]
    by (intro exI [of _ ?w'] exI [of _ ?len] exI [of _ ?secs])
      (auto simp: key_manager_get_kem_key_def get_kem.success_iff)
qed

theorem get_kem_key_returns_witness:
  "\<exists>w'. key_manager_get_kem_key ref_env 2 3 32 4 32 6 7 8 (ref_stored ref_kem_spec ([] :: KpsKeyInfo list))
       = (Returns Success, w') \<and> buf 3 32 w' = replicate 32 5 \<and> buf 4 32 w' = replicate 32 7"
proof -
  have "get_kem_present 2 3 32 4 32 6 7 8"
    "get_kem_safe 2 3 32 4 32 6 7 8 (ref_stored ref_kem_spec ([] :: KpsKeyInfo list))"
    using ref_valid_bufs [of "ref_stored ref_kem_spec ([] :: KpsKeyInfo list)" "[]"]
    by (simp_all add: get_kem_present_def get_kem_safe_def is_null_def) (simp add: ref_mem_def)
  then show ?thesis
    using get_kem_key_returns [OF ref_prost_spec ref_hpke_spec ref_kem_stored_inv ref_stored_usable, of 2 3 4 6 7 8
        "[] :: KpsKeyInfo list" "ref_record ref_kem_spec" 33]
    by (auto simp: ref_bufs ref_stored_contents ref_handle_def ref_clock_def nanos_per_sec_def ref_mem_def
        ref_public_def)
qed

text \<open>
  C33. \<^verbatim>\<open>key_manager_enumerate_kem_keys\<close> returns one page of the listing: the live keys in the order of
  their creation, from \<^verbatim>\<open>offset\<close> on, at most \<^verbatim>\<open>max_entries\<close> of them. Each entry names its key and
  holds the two public keys and the suite, with their lengths, in zero-padded arrays. Entries past the
  page are untouched, and the flag says exactly whether keys follow.
\<close>

theorem enumerate_kem_keys_page:
  assumes "prost_spec E" and "hpke_spec E" and "core_inv (kps_record E) w" and "usable E w"
    and "\<not> is_null out_entries" and "enumerate_safe out_entries max_entries es (Some out_has_more) w"
    and "all = listing (clock w (ticks w)) w" and "length all < 2 ^ 31"
    and "page = take (unat max_entries) (drop (unat offset) all)"
  shows "\<exists>w' infos. key_manager_enumerate_kem_keys E out_entries max_entries offset (Some out_has_more) w
       = (Returns (word_of_nat (length page)), w')
     \<and> sint (word_of_nat (length page) :: i32) = int (length page)
     \<and> mem w' out_entries = Some (Entries (infos @ drop (length page) es)) \<and> length infos = length page
     \<and> mem w' out_has_more = Some (BoolCell (unat offset + length page < length all))
     \<and> (\<forall>i < length page.
          kps_uuid (infos ! i) = as_bytes (meta_id (meta (page ! i)))
        \<and> take (unat (kps_pub_key_len (infos ! i))) (kps_pub_key (infos ! i))
            = PublicKey_as_bytes (kem_public_key (spec (meta (page ! i))))
        \<and> take (unat (kps_binding_pub_key_len (infos ! i))) (kps_binding_pub_key (infos ! i))
            = PublicKey_as_bytes (binding_public_key (spec (meta (page ! i))))
        \<and> HpkeAlgorithm_decode E (take (unat (kps_algorithm_len (infos ! i))) (kps_algorithm (infos ! i)))
            = Some (spec_algo (spec (meta (page ! i)))))"
proof -
  have page: "map meta page = map meta (take (unat max_entries) (drop (unat offset) all))"
    by (simp add: assms(9))
  have "length all < 2 ^ 64"
    using assms(8) by simp
  note eq = enumerate_kem_keys_body_eq [OF assms(1-7) this page]
  let ?infos = "kem_infos E (clock w) (Suc (ticks w)) (map meta page)"
  have small: "length page < 2 ^ 31"
    using assms(8,9) by simp
  then have sint: "sint (word_of_nat (length page) :: i32) = int (length page)"
    by (simp add: signed_of_nat signed_take_bit_int_eq_self)
  have info: "kps_uuid (?infos ! i) = as_bytes (meta_id (meta (page ! i)))
        \<and> take (unat (kps_pub_key_len (?infos ! i))) (kps_pub_key (?infos ! i))
            = PublicKey_as_bytes (kem_public_key (spec (meta (page ! i))))
        \<and> take (unat (kps_binding_pub_key_len (?infos ! i))) (kps_binding_pub_key (?infos ! i))
            = PublicKey_as_bytes (binding_public_key (spec (meta (page ! i))))
        \<and> HpkeAlgorithm_decode E (take (unat (kps_algorithm_len (?infos ! i))) (kps_algorithm (?infos ! i)))
            = Some (spec_algo (spec (meta (page ! i))))"
    if "i < length page" for i
  proof -
    have "page ! i \<in> set all"
      using that by (auto simp: assms(9) dest: nth_mem in_set_takeD in_set_dropD)
    then have rec: "kps_record E (page ! i)"
      using listing_props(3) [OF assms(3), of "clock w (ticks w)"] core_inv_contents [OF assms(3)] assms(7)
      by (auto simp: unexpired_eq_Some)
    then obtain algo k b where sp: "spec (meta (page ! i)) = KemWithBindingPub algo k b"
      and b: "length (PublicKey_as_bytes b) = 32"
      using kps_record_spec by blast
    have k: "length (PublicKey_as_bytes k) = 32" and uuid: "length (as_bytes (meta_id (meta (page ! i)))) = 16"
      using rec sp record_ok_length [OF assms(2), of "page ! i"]
      by (simp_all add: kps_record_def own_public_key_def record_ok_def)
    have algo: "unat (word_of_nat (length (encode_to_vec E algo)) :: usize) = length (encode_to_vec E algo)"
      using length_encode [OF assms(1), of algo] by (simp add: unat_of_nat take_bit_nat_eq_self)
    show ?thesis
      using that sp b k uuid algo decode_encode [OF assms(1), of algo]
      by (simp add: kem_infos_def kem_info_def kps_key_info_def KpsKeyInfo_default_def overwrite_def)
  qed
  show ?thesis
    using eq info sint assms(6)
    by (intro exI [of _ "snd (enumerate_kem_keys_body E out_entries max_entries offset (Some out_has_more) w)"]
        exI [of _ ?infos])
      (auto simp: key_manager_enumerate_kem_keys_def ffi_call_i32_def ffi_call_i32_with_reporter_def
        enumerate_safe_def)
qed

theorem enumerate_kem_keys_page_witness:
  "\<exists>w' info. key_manager_enumerate_kem_keys ref_env 10 1 0 (Some 9) (ref_stored ref_kem_spec [KpsKeyInfo_default])
       = (Returns 1, w') \<and> mem w' 10 = Some (Entries [info]) \<and> kps_uuid info = replicate 16 0
     \<and> mem w' 9 = Some (BoolCell False)"
proof -
  let ?w = "ref_stored ref_kem_spec [KpsKeyInfo_default]"
  have all: "listing (clock ?w (ticks ?w)) ?w = [ref_record ref_kem_spec]"
    by (simp add: listing_def live_sorted_def live_records_def hm_values_def registry_of_def ref_clock_def)
      (simp add: ref_stored_def nanos_per_sec_def)
  have "enumerate_safe 10 1 [KpsKeyInfo_default] (Some 9) ?w"
    by (simp add: enumerate_safe_def ref_mem_def)
  from enumerate_kem_keys_page [OF ref_prost_spec ref_hpke_spec ref_kem_stored_inv ref_stored_usable _ this refl _ refl,
      of 0, unfolded all] show ?thesis
    by (auto simp: is_null_def ref_handle_def length_Suc_conv)
qed

section \<open>Calls as data\<close>

text \<open>
  The calls a client can make that return a status, the operation each reports under, what its safety
  section asks for, and what it does.
\<close>

datatype kps_call =
    GenerateKem ptr usize ptr usize u64 ptr ptr usize
  | DestroyKem ptr
  | DecapSeal ptr ptr usize ptr usize ptr usize ptr usize
  | GetKem ptr ptr usize ptr usize ptr ptr ptr

fun kps_operation :: "kps_call \<Rightarrow> KccOperation" where
  "kps_operation (GenerateKem _ _ _ _ _ _ _ _) = GenerateKemKeypair"
| "kps_operation (DestroyKem _) = DestroyKemKey"
| "kps_operation (DecapSeal _ _ _ _ _ _ _ _ _) = DecapAndSeal"
| "kps_operation (GetKem _ _ _ _ _ _ _ _) = GetKemKey"

fun kps_safe :: "kps_call \<Rightarrow> 'e world \<Rightarrow> bool" where
  "kps_safe (GenerateKem a al b bl e u p pl) w = generate_kem_safe a al b bl u p pl w"
| "kps_safe (DestroyKem u) w = valid_buf u 16 w"
| "kps_safe (DecapSeal u e el a al oe oel oc ocl) w = decap_safe u e el a al oe oel oc ocl w"
| "kps_safe (GetKem u k kl b bl a al r) w = get_kem_safe u k kl b bl a al r w"

fun kps_body :: "('s, 'r, 'p) env \<Rightarrow> kps_call \<Rightarrow> (Status, 'e world, unit) rust" where
  "kps_body E (GenerateKem a al b bl e u p pl) = generate_kem_keypair_body E a al b bl e u p pl"
| "kps_body E (DestroyKem u) = destroy_kem_key_body E u"
| "kps_body E (DecapSeal u e el a al oe oel oc ocl) = decap_and_seal_body E u e el a al oe oel oc ocl"
| "kps_body E (GetKem u k kl b bl a al r) = get_kem_key_body E u k kl b bl a al r"

fun kps_run :: "('s, 'r, 'p) env \<Rightarrow> kps_call \<Rightarrow> 'e world \<Rightarrow> Status ffi_result \<times> 'e world" where
  "kps_run E (GenerateKem a al b bl e u p pl) w = key_manager_generate_kem_keypair E a al b bl e u p pl w"
| "kps_run E (DestroyKem u) w = key_manager_destroy_kem_key E u w"
| "kps_run E (DecapSeal u e el a al oe oel oc ocl) w = key_manager_decap_and_seal E u e el a al oe oel oc ocl w"
| "kps_run E (GetKem u k kl b bl a al r) w = key_manager_get_kem_key E u k kl b bl a al r w"

lemma kps_run_body: "kps_run E c w = ffi_call (kps_operation c) (kps_body E c) w"
  by (cases c) (simp_all add: key_manager_generate_kem_keypair_def key_manager_destroy_kem_key_def
      key_manager_decap_and_seal_def key_manager_get_kem_key_def)

abbreviation (input) kps_errors :: "Status set" where
  "kps_errors \<equiv> {InvalidArgument, NotFound, UnsupportedAlgorithm, CryptoError, InvalidKey,
     DecapsulationFailure, EncryptionFailure}"

interpretation kps: ffi_entry "insert InternalError kps_errors" "kps_body E c :: (Status, 'e world, unit) rust"
    "kps_operation c"
  for E :: "('s, 'r, 'p) env" and c
  by unfold_locales
    (cases c, auto intro: keeps_mono [OF generate_kem.keeps_log] keeps_mono [OF destroy_kem.keeps_log]
      keeps_mono [OF decap_and_seal.keeps_log] keeps_mono [OF get_kem.keeps_log])

lemma kps_body_keeps:
  assumes "hpke_spec E" and "uuid_spec E" and "zeroize_spec E" and "prost_spec E"
  shows "keeps kps_errors (kps_inv E) (kps_body E c :: (Status, 'e world, unit) rust)"
  by (cases c) (auto intro: keeps_mono [OF kps_bodies_keep(1) [OF assms]]
      keeps_mono [OF kps_bodies_keep(2) [OF assms]] keeps_mono [OF kps_bodies_keep(3) [OF assms]]
      keeps_mono [OF kps_bodies_keep(4) [OF assms]])

lemma kps_body_defined: "kps_safe c w \<Longrightarrow> defined_at (kps_body E c) w"
  by (cases c) (simp_all add: generate_kem_keypair_body_defined destroy_kem_key_body_defined
      decap_and_seal_body_defined get_kem_key_body_defined)

lemma kps_body_writes: "writes_on_success (kps_body E c)"
  by (cases c) (simp_all add: kps_writes_on_success)

lemma ref_destroy_null:
  "kps_run ref_env (DestroyKem 0) (ref_world es) = (Returns InvalidArgument,
     (ref_world es)\<lparr>events := [report_failure telemetry_default
        \<lparr>operation = DestroyKemKey, status = InvalidArgument, kind = ErrorKind\<rparr>]\<rparr>)"
  by (simp add: kps_run_body ffi_call_def ffi_call_with_reporter_def is_null_def
      destroy_kem_key_body_def errM_def telemetry_report_failure_def ref_world_def init_world_def)



end
