(* ===== verification/Ws_Core.thy ===== *)
theory Ws_Core
  imports Entry_Points
begin

text \<open>
  \<^verbatim>\<open>workload_service/key_custody_core/src/lib.rs\<close>: the custody core of the workload service,
  which holds the binding keys. As in the other core, every exported function is a closure (a
  definition ending in \<open>_body\<close>) inside \<^verbatim>\<open>ffi_call\<close>, and the model is the release build.
\<close>

section \<open>Key generation\<close>

definition generate_binding_keypair_internal :: "('s, 'r, 'p) env \<Rightarrow> HpkeAlgorithm \<Rightarrow> u64 \<Rightarrow>
    (Status, 'z custody_scheme, uuid \<times> PublicKey) rust" where
  "generate_binding_keypair_internal E algo expiry_secs =
     bindM (create_binding_key E algo (Duration_from_secs expiry_secs)) (\<lambda>record.
     let handle = meta_id (meta record) in
     case spec (meta record) of
       Binding _ binding_pk \<Rightarrow>
         bindM (static_add_key E record) (\<lambda>_. returnM (handle, binding_pk))
     | _ \<Rightarrow> bindM (updateM (KeyRecord_drop E record)) (\<lambda>_. errM InternalError))"

definition generate_binding_keypair_body :: "('s, 'r, 'p) env \<Rightarrow> ptr \<Rightarrow> usize \<Rightarrow> u64 \<Rightarrow> ptr \<Rightarrow> ptr \<Rightarrow> usize \<Rightarrow>
    (Status, 'e world, unit) rust" where
  "generate_binding_keypair_body E algo_ptr algo_len expiry_secs out_uuid out_pubkey out_pubkey_len =
     (if is_null out_pubkey \<or> is_null out_uuid \<or> is_null algo_ptr \<or> algo_len = 0
      then errM InvalidArgument
      else
        bindM (from_raw_parts algo_ptr algo_len) (\<lambda>algo_slice.
        bindM (from_raw_parts_mut out_uuid 16) (\<lambda>out_uuid_slice.
        bindM (from_raw_parts_mut out_pubkey out_pubkey_len) (\<lambda>out_pubkey_slice.
        bindM (ok_orM (HpkeAlgorithm_decode E algo_slice) InvalidArgument) (\<lambda>algo.
        bindM (generate_binding_keypair_internal E algo expiry_secs) (\<lambda>(handle, pubkey).
        if unat out_pubkey_len \<noteq> length (PublicKey_as_bytes pubkey) then errM InvalidArgument
        else
          bindM (copy_from_slice out_uuid_slice (as_bytes handle)) (\<lambda>_.
          copy_from_slice out_pubkey_slice (PublicKey_as_bytes pubkey))))))))"

definition key_manager_generate_binding_keypair :: "('s, 'r, 'p) env \<Rightarrow> ptr \<Rightarrow> usize \<Rightarrow> u64 \<Rightarrow> ptr \<Rightarrow> ptr \<Rightarrow>
    usize \<Rightarrow> 'e world \<Rightarrow> Status ffi_result \<times> 'e world" where
  "key_manager_generate_binding_keypair E algo_ptr algo_len expiry_secs out_uuid out_pubkey
       out_pubkey_len =
     ffi_call GenerateBindingKeypair
       (generate_binding_keypair_body E algo_ptr algo_len expiry_secs out_uuid out_pubkey out_pubkey_len)"

section \<open>Key destruction\<close>

definition destroy_binding_key_body :: "('s, 'r, 'p) env \<Rightarrow> ptr \<Rightarrow> (Status, 'e world, unit) rust" where
  "destroy_binding_key_body E uuid_bytes =
     (if is_null uuid_bytes then errM InvalidArgument
      else
        bindM (from_raw_parts uuid_bytes 16) (\<lambda>bytes.
        bindM (ok_orM (try_into_array 16 bytes) InvalidArgument) (\<lambda>array.
        bindM (static_remove_key E (Uuid array)) (\<lambda>old.
        bindM (ok_orM old NotFound) (\<lambda>rec.
        updateM (KeyRecord_drop E rec))))))"

definition key_manager_destroy_binding_key :: "('s, 'r, 'p) env \<Rightarrow> ptr \<Rightarrow>
    'e world \<Rightarrow> Status ffi_result \<times> 'e world" where
  "key_manager_destroy_binding_key E uuid_bytes =
     ffi_call DestroyBindingKey (destroy_binding_key_body E uuid_bytes)"

definition destroy_all_binding_keys_body :: "('s, 'r, 'p) env \<Rightarrow> (Status, 'e world, unit) rust" where
  "destroy_all_binding_keys_body E = bindM (static_remove_all_keys E) (\<lambda>_. returnM ())"

definition key_manager_destroy_all_binding_keys :: "('s, 'r, 'p) env \<Rightarrow>
    'e world \<Rightarrow> Status ffi_result \<times> 'e world" where
  "key_manager_destroy_all_binding_keys E =
     ffi_call DestroyAllBindingKeys (destroy_all_binding_keys_body E)"

section \<open>Opening\<close>

definition open_internal :: "('s, 'r, 'p) env \<Rightarrow> uuid \<Rightarrow> bytes \<Rightarrow> bytes \<Rightarrow> bytes \<Rightarrow>
    (Status, 'z custody_scheme, SecretBox) rust" where
  "open_internal E uuid enc ciphertext aad =
     bindM (static_get_key E uuid) (\<lambda>found.
     bindM (ok_orM found NotFound) (\<lambda>record.
     case spec (meta record) of
       Binding algo _ \<Rightarrow> hpke_open E (get_private_key record) enc ciphertext aad algo
     | _ \<Rightarrow> errM InternalError))"

definition open_body :: "('s, 'r, 'p) env \<Rightarrow> ptr \<Rightarrow> ptr \<Rightarrow> usize \<Rightarrow> ptr \<Rightarrow> usize \<Rightarrow> ptr \<Rightarrow> usize \<Rightarrow>
    ptr \<Rightarrow> usize \<Rightarrow> (Status, 'e world, unit) rust" where
  "open_body E uuid_bytes enc enc_len ciphertext ciphertext_len aad aad_len
       out_plaintext out_plaintext_len =
     (if is_null uuid_bytes \<or> is_null enc \<or> is_null ciphertext \<or> is_null out_plaintext
         \<or> out_plaintext_len = 0
      then errM InvalidArgument
      else
        bindM (from_raw_parts uuid_bytes 16) (\<lambda>uuid_slice.
        bindM (from_raw_parts enc enc_len) (\<lambda>enc_slice.
        bindM (from_raw_parts ciphertext ciphertext_len) (\<lambda>ct_slice.
        bindM (if \<not> is_null aad \<and> aad_len > 0 then from_raw_parts aad aad_len else returnM []) (\<lambda>aad_slice.
        bindM (from_raw_parts_mut out_plaintext out_plaintext_len) (\<lambda>out_plaintext_slice.
        bindM (ok_orM (Uuid_from_slice uuid_slice) InvalidArgument) (\<lambda>uuid.
        bindM (open_internal E uuid enc_slice ct_slice aad_slice) (\<lambda>pt.
        if unat out_plaintext_len \<noteq> length (as_slice pt) then errM InvalidArgument
        else copy_from_slice out_plaintext_slice (as_slice pt)))))))))"

definition key_manager_open :: "('s, 'r, 'p) env \<Rightarrow> ptr \<Rightarrow> ptr \<Rightarrow> usize \<Rightarrow> ptr \<Rightarrow> usize \<Rightarrow> ptr \<Rightarrow> usize \<Rightarrow>
    ptr \<Rightarrow> usize \<Rightarrow> 'e world \<Rightarrow> Status ffi_result \<times> 'e world" where
  "key_manager_open E uuid_bytes enc enc_len ciphertext ciphertext_len aad aad_len
       out_plaintext out_plaintext_len =
     ffi_call Open
       (open_body E uuid_bytes enc enc_len ciphertext ciphertext_len aad aad_len
          out_plaintext out_plaintext_len)"

section \<open>Enumeration\<close>

record WsKeyInfo =
  ws_uuid :: bytes
  ws_algorithm :: bytes
  ws_algorithm_len :: usize
  ws_pub_key :: bytes
  ws_pub_key_len :: usize
  ws_remaining_lifespan_secs :: u64

definition WsKeyInfo_default :: WsKeyInfo where
  "WsKeyInfo_default =
     \<lparr>ws_uuid = replicate 16 0,
      ws_algorithm = replicate MAX_ALGORITHM_LEN 0, ws_algorithm_len = 0,
      ws_pub_key = replicate MAX_PUBLIC_KEY_LEN 0, ws_pub_key_len = 0,
      ws_remaining_lifespan_secs = 0\<rparr>"

definition ws_key_info :: "uuid \<Rightarrow> bytes \<Rightarrow> bytes \<Rightarrow> u64 \<Rightarrow> WsKeyInfo" where
  "ws_key_info uuid algo_bytes pub_key remaining =
     WsKeyInfo_default
       \<lparr>ws_uuid := overwrite (as_bytes uuid) (ws_uuid WsKeyInfo_default),
        ws_algorithm := overwrite algo_bytes (ws_algorithm WsKeyInfo_default),
        ws_algorithm_len := word_of_nat (length algo_bytes),
        ws_pub_key := overwrite pub_key (ws_pub_key WsKeyInfo_default),
        ws_pub_key_len := word_of_nat (length pub_key),
        ws_remaining_lifespan_secs := remaining\<rparr>"

fun fill_binding_entries :: "('s, 'r, 'p) env \<Rightarrow> slice_mut \<Rightarrow> nat \<Rightarrow> KeyMetadata list \<Rightarrow>
    (Status, WsKeyInfo world, unit) rust" where
  "fill_binding_entries E entries i [] = returnM ()"
| "fill_binding_entries E entries i (m # metas) =
     (if slice_len entries \<le> i then returnM ()
      else case spec m of
        Binding algo pub_key \<Rightarrow>
          (let algo_bytes = encode_to_vec E algo in
           if length (PublicKey_as_bytes pub_key) > MAX_PUBLIC_KEY_LEN
              \<or> length algo_bytes > MAX_ALGORITHM_LEN
           then errM InternalError
           else
             bindM Instant_now (\<lambda>now.
             let remaining = Duration_as_secs (saturating_duration_since (delete_after m) now) in
             bindM (set_entry entries i (ws_key_info (meta_id m) algo_bytes
                 (PublicKey_as_bytes pub_key) remaining)) (\<lambda>_.
             fill_binding_entries E entries (Suc i) metas)))
      | _ \<Rightarrow> errM InternalError)"

definition enumerate_binding_keys_internal :: "('s, 'r, 'p) env \<Rightarrow> slice_mut \<Rightarrow> usize \<Rightarrow>
    (Status, WsKeyInfo world, usize \<times> bool) rust" where
  "enumerate_binding_keys_internal E entries offset =
     bindM (static_list_all_keys E offset (word_of_nat (slice_len entries))) (\<lambda>(metas, total_count).
     let cnt = word_of_nat (length metas);
         has_more = offset + cnt < total_count
     in bindM (fill_binding_entries E entries 0 metas) (\<lambda>_. returnM (cnt, has_more)))"

definition enumerate_binding_keys_body :: "('s, 'r, 'p) env \<Rightarrow> ptr \<Rightarrow> usize \<Rightarrow> usize \<Rightarrow> ptr option \<Rightarrow>
    (Status, WsKeyInfo world, i32) rust" where
  "enumerate_binding_keys_body E out_entries max_entries offset out_has_more =
     (if is_null out_entries then errM InvalidArgument
      else
        bindM (entries_from_raw_parts_mut out_entries max_entries) (\<lambda>entries.
        bindM (enumerate_binding_keys_internal E entries offset) (\<lambda>(cnt, has_more).
        bindM (case out_has_more of Some has_more_ref \<Rightarrow> store has_more_ref (BoolCell has_more)
               | None \<Rightarrow> returnM ()) (\<lambda>_.
        returnM (ucast cnt)))))"

definition key_manager_enumerate_binding_keys :: "('s, 'r, 'p) env \<Rightarrow> ptr \<Rightarrow> usize \<Rightarrow> usize \<Rightarrow> ptr option \<Rightarrow>
    WsKeyInfo world \<Rightarrow> i32 ffi_result \<times> WsKeyInfo world" where
  "key_manager_enumerate_binding_keys E out_entries max_entries offset out_has_more =
     ffi_call_i32 EnumerateBindingKeys
       (enumerate_binding_keys_body E out_entries max_entries offset out_has_more)"

section \<open>Lookup\<close>

definition get_binding_key_internal :: "('s, 'r, 'p) env \<Rightarrow> uuid \<Rightarrow>
    (Status, 'z custody_scheme, HpkeAlgorithm \<times> PublicKey) rust" where
  "get_binding_key_internal E uuid =
     bindM (static_get_key E uuid) (\<lambda>found.
     bindM (ok_orM found NotFound) (\<lambda>record.
     case spec (meta record) of
       Binding algo binding_pk \<Rightarrow> returnM (algo, binding_pk)
     | _ \<Rightarrow> errM InternalError))"

definition get_binding_key_body :: "('s, 'r, 'p) env \<Rightarrow> ptr \<Rightarrow> ptr \<Rightarrow> usize \<Rightarrow> ptr \<Rightarrow> ptr \<Rightarrow>
    (Status, 'e world, unit) rust" where
  "get_binding_key_body E uuid_bytes out_pubkey out_pubkey_len out_algo out_algo_len =
     (if is_null uuid_bytes \<or> is_null out_pubkey \<or> out_pubkey_len = 0 \<or> is_null out_algo
         \<or> is_null out_algo_len
      then errM InvalidArgument
      else
        bindM (from_raw_parts uuid_bytes 16) (\<lambda>uuid_slice.
        bindM (from_raw_parts_mut out_pubkey out_pubkey_len) (\<lambda>out_pubkey_slice.
        bindM (deref_usize out_algo_len) (\<lambda>algo_len.
        bindM (from_raw_parts_mut out_algo algo_len) (\<lambda>out_algo_slice.
        bindM (ok_orM (Uuid_from_slice uuid_slice) InvalidArgument) (\<lambda>uuid.
        bindM (get_binding_key_internal E uuid) (\<lambda>(algo, pubkey).
        let algo_bytes = encode_to_vec E algo in
        if slice_len out_pubkey_slice \<noteq> length (PublicKey_as_bytes pubkey)
           \<or> unat algo_len < length algo_bytes
        then errM InvalidArgument
        else
          bindM (copy_from_slice out_pubkey_slice (PublicKey_as_bytes pubkey)) (\<lambda>_.
          bindM (copy_prefix_from_slice out_algo_slice (length algo_bytes) algo_bytes) (\<lambda>_.
          store out_algo_len (UsizeCell (word_of_nat (length algo_bytes))))))))))))"

definition key_manager_get_binding_key :: "('s, 'r, 'p) env \<Rightarrow> ptr \<Rightarrow> ptr \<Rightarrow> usize \<Rightarrow> ptr \<Rightarrow> ptr \<Rightarrow>
    'e world \<Rightarrow> Status ffi_result \<times> 'e world" where
  "key_manager_get_binding_key E uuid_bytes out_pubkey out_pubkey_len out_algo out_algo_len =
     ffi_call GetBindingKey
       (get_binding_key_body E uuid_bytes out_pubkey out_pubkey_len out_algo out_algo_len)"

section \<open>Lemmas: what the closures keep\<close>

definition ws_record :: "('s, 'r, 'p) env \<Rightarrow> KeyRecord \<Rightarrow> bool" where
  "ws_record E rec \<longleftrightarrow> record_ok E rec
     \<and> (case spec (meta rec) of KemWithBindingPub _ _ _ \<Rightarrow> False | Binding _ _ \<Rightarrow> True)"

abbreviation (input) ws_inv :: "('s, 'r, 'p) env \<Rightarrow> 'z custody_scheme \<Rightarrow> bool" where
  "ws_inv E \<equiv> core_inv (ws_record E)"

lemma keeps_generate_binding_keypair_body:
  assumes "machine_stable E I" and "mem_stable I"
    and create: "\<And>algo d. yields {UnsupportedAlgorithm, CryptoError} I Rec (create_binding_key E algo d)"
    and add: "\<And>rec. Rec rec \<Longrightarrow> keeps ES I (static_add_key E rec)"
    and wrong: "\<And>rec algo k b. Rec rec \<Longrightarrow> spec (meta rec) = KemWithBindingPub algo k b \<Longrightarrow> InternalError \<in> ES"
    and ES: "{InvalidArgument, UnsupportedAlgorithm, CryptoError} \<subseteq> ES"
  shows "keeps ES I (generate_binding_keypair_body E algo_ptr algo_len expiry_secs out_uuid out_pubkey
     out_pubkey_len)"
proof -
  have gen: "keeps ES I (generate_binding_keypair_internal E algo e)" for algo e
    unfolding generate_binding_keypair_internal_def Let_def
    by (rule keeps_bindM_yields [OF yields_mono [OF create]])
      (use ES add wrong machine_stable_drop [OF assms(1)] in
        \<open>auto split: KeySpec.splits intro!: keeps_rules simp del: bindM_updateM\<close>)
  show ?thesis
    unfolding generate_binding_keypair_body_def
    by (intro keeps_rules gen) (use ES in \<open>auto intro!: keeps_rules keeps_writes [OF assms(2)]\<close>)
qed

lemma keeps_destroy_binding_key_body:
  assumes "machine_stable E I" and "\<And>h. keeps ES I (static_remove_key E h)"
    and ES: "{InvalidArgument, NotFound} \<subseteq> ES"
  shows "keeps ES I (destroy_binding_key_body E uuid_bytes)"
  unfolding destroy_binding_key_body_def
  using ES by (auto intro!: keeps_rules assms(2) machine_stable_drop [OF assms(1)])

lemma keeps_open_body:
  assumes "machine_stable E I" and "mem_stable I"
    and get: "\<And>h. yields ES I (\<lambda>r. \<forall>rec. r = Some rec \<longrightarrow> Rec rec) (static_get_key E h)"
    and wrong: "\<And>rec algo k b. Rec rec \<Longrightarrow> spec (meta rec) = KemWithBindingPub algo k b \<Longrightarrow> InternalError \<in> ES"
    and ES: "{InvalidArgument, NotFound, UnsupportedAlgorithm, DecryptionFailure} \<subseteq> ES"
  shows "keeps ES I (open_body E uuid_bytes enc enc_len ciphertext ciphertext_len aad aad_len
     out_plaintext out_plaintext_len)"
proof -
  have crypto: "keeps ES I (hpke_open E key e c a algo)" for key e c a algo
    using keeps_crypto(2) [OF assms(1)] ES by (blast intro: keeps_mono)
  have internal: "keeps ES I (open_internal E u e c a)" for u e c a
    unfolding open_internal_def
    by (rule keeps_bindM_yields [OF get])
      (use ES wrong in \<open>auto simp: ok_orM_def split: option.splits KeySpec.splits
        intro!: keeps_rules crypto\<close>)
  show ?thesis
    unfolding open_body_def
    by (intro keeps_rules internal) (use ES in \<open>auto intro!: keeps_rules keeps_writes [OF assms(2)]\<close>)
qed

lemma keeps_get_binding_key_body:
  assumes "machine_stable E I" and "mem_stable I"
    and get: "\<And>h. yields ES I (\<lambda>r. \<forall>rec. r = Some rec \<longrightarrow> Rec rec) (static_get_key E h)"
    and wrong: "\<And>rec algo k b. Rec rec \<Longrightarrow> spec (meta rec) = KemWithBindingPub algo k b \<Longrightarrow> InternalError \<in> ES"
    and ES: "{InvalidArgument, NotFound} \<subseteq> ES"
  shows "keeps ES I (get_binding_key_body E uuid_bytes out_pubkey out_pubkey_len out_algo out_algo_len)"
proof -
  have internal: "keeps ES I (get_binding_key_internal E u)" for u
    unfolding get_binding_key_internal_def
    by (rule keeps_bindM_yields [OF get])
      (use ES wrong in \<open>auto simp: ok_orM_def split: option.splits KeySpec.splits intro!: keeps_rules\<close>)
  show ?thesis
    unfolding get_binding_key_body_def Let_def
    by (intro keeps_rules internal) (use ES in \<open>auto intro!: keeps_rules keeps_writes [OF assms(2)]\<close>)
qed

lemma keeps_fill_binding_entries:
  assumes "machine_stable E I" and "mem_stable I"
    and "InternalError \<in> ES \<or> prost_spec E \<and> hpke_spec E
       \<and> (\<forall>m \<in> set metas. \<exists>rec. ws_record E rec \<and> meta rec = m)"
  shows "keeps ES I (fill_binding_entries E entries i metas)"
  using assms(3)
proof (induction metas arbitrary: i)
  case Nil
  show ?case by (simp add: keeps_rules)
next
  case (Cons m metas)
  have IH: "keeps ES I (fill_binding_entries E entries (Suc i) metas)"
    using Cons by auto
  show ?case
  proof (cases "InternalError \<in> ES")
    case True
    then show ?thesis
      using IH by (auto simp: Let_def split: KeySpec.splits simp del: bindM_Instant_now
          intro!: keeps_rules keeps_crypto(4) [OF assms(1)] keeps_writes [OF assms(2)])
  next
    case False
    then obtain rec where rec: "ws_record E rec" "meta rec = m" and prost: "prost_spec E" and "hpke_spec E"
      using Cons.prems by auto
    then obtain algo b where sp: "spec m = Binding algo b" and "length (PublicKey_as_bytes b) = 32"
      using record_ok_length [of E rec]
      by (auto simp: ws_record_def own_public_key_def split: KeySpec.splits)
    then show ?thesis
      using IH length_encode [OF prost, of algo]
      by (auto simp: Let_def MAX_PUBLIC_KEY_LEN_def MAX_ALGORITHM_LEN_def simp del: bindM_Instant_now
          intro!: keeps_rules keeps_crypto(4) [OF assms(1)] keeps_writes [OF assms(2)])
  qed
qed

lemma keeps_enumerate_binding_keys_body:
  assumes "machine_stable E I" and "mem_stable I"
    and list: "\<And>off lim. yields ES I (\<lambda>r. InternalError \<in> ES \<or> prost_spec E \<and> hpke_spec E
       \<and> (\<forall>m \<in> set (fst r). \<exists>rec. ws_record E rec \<and> meta rec = m)) (static_list_all_keys E off lim)"
    and ES: "{InvalidArgument} \<subseteq> ES"
  shows "keeps ES I (enumerate_binding_keys_body E out_entries max_entries offset out_has_more)"
proof -
  have "keeps ES I (enumerate_binding_keys_internal E entries off)" for entries off
    unfolding enumerate_binding_keys_internal_def Let_def
    by (rule keeps_bindM_yields [OF list])
      (auto split: prod.splits intro!: keeps_rules keeps_fill_binding_entries [OF assms(1,2)])
  then show ?thesis
    unfolding enumerate_binding_keys_body_def using ES
    by (intro keeps_rules) (auto split: option.splits intro!: keeps_rules keeps_writes [OF assms(2)])
qed

section \<open>Interpretations and invariants\<close>

interpretation generate_binding: ffi_entry
    "{InvalidArgument, UnsupportedAlgorithm, CryptoError, InternalError}"
    "generate_binding_keypair_body E algo_ptr algo_len expiry_secs out_uuid out_pubkey out_pubkey_len
       :: (Status, 'e world, unit) rust"
    GenerateBindingKeypair
  for E :: "('s, 'r, 'p) env" and algo_ptr algo_len expiry_secs out_uuid out_pubkey out_pubkey_len
  by unfold_locales
    (auto intro!: keeps_generate_binding_keypair_body [where Rec = "\<lambda>_. True"]
      custody_stable_machine [OF custody_stable_logged] mem_stable_logged
      keeps_static [OF custody_stable_logged] yields_True keeps_create simp: create_binding_key_def)

interpretation destroy_binding: ffi_entry "{InvalidArgument, NotFound}"
    "destroy_binding_key_body E uuid_bytes :: (Status, 'e world, unit) rust" DestroyBindingKey
  for E :: "('s, 'r, 'p) env" and uuid_bytes
  by unfold_locales
    (auto intro!: keeps_destroy_binding_key_body custody_stable_machine [OF custody_stable_logged]
      keeps_static [OF custody_stable_logged])

interpretation destroy_all_binding: ffi_entry "{}"
    "destroy_all_binding_keys_body E :: (Status, 'e world, unit) rust" DestroyAllBindingKeys
  for E :: "('s, 'r, 'p) env"
  by unfold_locales
    (auto simp: destroy_all_binding_keys_body_def intro!: keeps_rules keeps_static [OF custody_stable_logged])

interpretation open_entry: ffi_entry
    "{InvalidArgument, NotFound, UnsupportedAlgorithm, DecryptionFailure, InternalError}"
    "open_body E uuid_bytes enc enc_len ciphertext ciphertext_len aad aad_len out_plaintext
       out_plaintext_len :: (Status, 'e world, unit) rust"
    Open
  for E :: "('s, 'r, 'p) env" and uuid_bytes enc enc_len ciphertext ciphertext_len aad aad_len
    out_plaintext out_plaintext_len
  by unfold_locales
    (auto intro!: keeps_open_body [where Rec = "\<lambda>_. True"] yields_True
      custody_stable_machine [OF custody_stable_logged] mem_stable_logged
      keeps_static [OF custody_stable_logged])

interpretation get_binding: ffi_entry "{InvalidArgument, NotFound, InternalError}"
    "get_binding_key_body E uuid_bytes out_pubkey out_pubkey_len out_algo out_algo_len
       :: (Status, 'e world, unit) rust"
    GetBindingKey
  for E :: "('s, 'r, 'p) env" and uuid_bytes out_pubkey out_pubkey_len out_algo out_algo_len
  by unfold_locales
    (auto intro!: keeps_get_binding_key_body [where Rec = "\<lambda>_. True"] yields_True
      custody_stable_machine [OF custody_stable_logged] mem_stable_logged
      keeps_static [OF custody_stable_logged])

interpretation enumerate_binding: ffi_entry_i32 "{InvalidArgument, InternalError}"
    "enumerate_binding_keys_body E out_entries max_entries offset out_has_more" EnumerateBindingKeys
  for E :: "('s, 'r, 'p) env" and out_entries max_entries offset out_has_more
  by unfold_locales
    (auto intro!: keeps_enumerate_binding_keys_body yields_True
      custody_stable_machine [OF custody_stable_logged] mem_stable_logged
      keeps_static [OF custody_stable_logged])

lemma ws_record_kind: "ws_record E rec \<Longrightarrow> spec (meta rec) \<noteq> KemWithBindingPub algo k b"
  by (auto simp: ws_record_def)

lemma ws_bodies_keep:
  assumes "hpke_spec E" and "uuid_spec E" and "zeroize_spec E" and "prost_spec E"
  shows "keeps {InvalidArgument, UnsupportedAlgorithm, CryptoError} (ws_inv E)
      (generate_binding_keypair_body E algo_ptr algo_len expiry_secs out_uuid out_pubkey out_pubkey_len
         :: (Status, 'e world, unit) rust)"
    and "keeps {InvalidArgument, NotFound} (ws_inv E)
      (destroy_binding_key_body E uuid_bytes :: (Status, 'e world, unit) rust)"
    and "keeps {} (ws_inv E) (destroy_all_binding_keys_body E :: (Status, 'e world, unit) rust)"
    and "keeps {InvalidArgument, NotFound, UnsupportedAlgorithm, DecryptionFailure}
      (ws_inv E) (open_body E uuid_bytes enc enc_len ciphertext ciphertext_len aad aad_len out_plaintext
       out_plaintext_len :: (Status, 'e world, unit) rust)"
    and "keeps {InvalidArgument, NotFound} (ws_inv E)
      (get_binding_key_body E uuid_bytes out_pubkey out_pubkey_len out_algo out_algo_len
       :: (Status, 'e world, unit) rust)"
    and "keeps {InvalidArgument} (ws_inv E)
      (enumerate_binding_keys_body E out_entries max_entries offset out_has_more)"
proof -
  note stable = machine_stable_core_inv [OF assms(3), of "ws_record E"]
    mem_stable_core_inv [of "ws_record E"]
  have create: "yields {UnsupportedAlgorithm, CryptoError} (ws_inv E) (ws_record E)
      (create_binding_key E algo d)" for algo d
    by (rule yields_weaken [OF yields_create(2) [OF assms(1,2) stable(1), of algo d]])
      (auto simp: ws_record_def)
  show "keeps {InvalidArgument, UnsupportedAlgorithm, CryptoError} (ws_inv E)
      (generate_binding_keypair_body E algo_ptr algo_len expiry_secs out_uuid out_pubkey out_pubkey_len
         :: (Status, 'e world, unit) rust)"
    by (rule keeps_generate_binding_keypair_body [OF stable create])
      (auto intro: keeps_static_add_key [OF assms(3)] dest: ws_record_kind)
  show "keeps {InvalidArgument, NotFound} (ws_inv E)
      (destroy_binding_key_body E uuid_bytes :: (Status, 'e world, unit) rust)"
    by (rule keeps_destroy_binding_key_body [OF stable(1) keeps_static_remove_key]) simp
  show "keeps {} (ws_inv E) (destroy_all_binding_keys_body E :: (Status, 'e world, unit) rust)"
    unfolding destroy_all_binding_keys_body_def
    by (intro keeps_rules keeps_static_remove_all_keys assms(3))
  show "keeps {InvalidArgument, NotFound, UnsupportedAlgorithm, DecryptionFailure}
      (ws_inv E) (open_body E uuid_bytes enc enc_len ciphertext ciphertext_len aad aad_len out_plaintext
       out_plaintext_len :: (Status, 'e world, unit) rust)"
    by (rule keeps_open_body [OF stable yields_static_get_key]) (auto dest: ws_record_kind)
  show "keeps {InvalidArgument, NotFound} (ws_inv E)
      (get_binding_key_body E uuid_bytes out_pubkey out_pubkey_len out_algo out_algo_len
       :: (Status, 'e world, unit) rust)"
    by (rule keeps_get_binding_key_body [OF stable yields_static_get_key]) (auto dest: ws_record_kind)
  show "keeps {InvalidArgument} (ws_inv E)
      (enumerate_binding_keys_body E out_entries max_entries offset out_has_more)"
    by (rule keeps_enumerate_binding_keys_body [OF stable])
      (use assms in \<open>auto intro: yields_weaken [OF yields_static_list_all_keys]\<close>)
qed

section \<open>Key generation\<close>

definition generate_binding_safe :: "ptr \<Rightarrow> usize \<Rightarrow> ptr \<Rightarrow> ptr \<Rightarrow> usize \<Rightarrow> 'e world \<Rightarrow> bool" where
  "generate_binding_safe algo_ptr algo_len out_uuid out_pubkey out_pubkey_len w \<longleftrightarrow>
     valid_buf algo_ptr algo_len w
   \<and> (is_null out_uuid \<or> valid_buf out_uuid 16 w)
   \<and> (is_null out_pubkey \<or> valid_buf out_pubkey out_pubkey_len w)
   \<and> out_uuid \<noteq> out_pubkey"

definition generate_binding_present :: "ptr \<Rightarrow> usize \<Rightarrow> ptr \<Rightarrow> ptr \<Rightarrow> bool" where
  "generate_binding_present algo_ptr algo_len out_uuid out_pubkey \<longleftrightarrow>
     \<not> (is_null out_pubkey \<or> is_null out_uuid \<or> is_null algo_ptr \<or> algo_len = 0)"

lemma generate_binding_keypair_internal_eq:
  assumes "hpke_spec E"
  shows "generate_binding_keypair_internal E algo e w = create_and_add E algo (Duration_from_secs e) Binding w"
proof -
  have sp: "spec (meta rec) = Binding algo (fst (key_pair E (draws w)))"
    if "create_key_internal E algo (Duration_from_secs e) Binding w = (Ok rec, v)" for rec v
    using create_key_internal_Ok(2) [OF assms that] by (simp add: key_pair_def)
  show ?thesis
    by (auto simp: generate_binding_keypair_internal_def create_and_add_def create_binding_key_def
        bindM_def [of "create_key_internal _ _ _ _"] Let_def own_public_key_def
        split: outcome.splits prod.splits dest: sp)
qed

lemma generate_binding_keypair_body_eq:
  assumes "generate_binding_present algo_ptr algo_len out_uuid out_pubkey"
    and "generate_binding_safe algo_ptr algo_len out_uuid out_pubkey out_pubkey_len w"
  shows "generate_binding_keypair_body E algo_ptr algo_len expiry_secs out_uuid out_pubkey out_pubkey_len w =
     (case HpkeAlgorithm_decode E (buf algo_ptr algo_len w) of
          None \<Rightarrow> (Err InvalidArgument, w)
        | Some algo \<Rightarrow>
            bindM (generate_binding_keypair_internal E algo expiry_secs)
              (\<lambda>(handle, pubkey).
                 if unat out_pubkey_len \<noteq> length (PublicKey_as_bytes pubkey) then errM InvalidArgument
                 else bindM (copy_from_slice (SliceMut out_uuid 16) (as_bytes handle)) (\<lambda>_.
                      copy_from_slice (SliceMut out_pubkey (unat out_pubkey_len))
                        (PublicKey_as_bytes pubkey))) w)"
  using assms
  by (simp add: generate_binding_keypair_body_def generate_binding_present_def generate_binding_safe_def
      bindM_def [of "from_raw_parts _ _"] bindM_def [of "from_raw_parts_mut _ _"]
      from_raw_parts_valid from_raw_parts_mut_valid errM_def split: option.splits)

lemma own_public_key_Binding: "own_public_key (Binding a pk) = pk"
  by (simp add: own_public_key_def)

lemma generate_binding_keypair_body_Ok:
  assumes "hpke_spec E" and "uuid_spec E" and "core_inv P w"
    and safe: "generate_binding_safe algo_ptr algo_len out_uuid out_pubkey out_pubkey_len w"
    and call: "generate_binding_keypair_body E algo_ptr algo_len expiry_secs out_uuid out_pubkey
       out_pubkey_len w = (Ok (), w')"
  obtains algo h pk v where
    "generate_binding_present algo_ptr algo_len out_uuid out_pubkey"
    "HpkeAlgorithm_decode E (buf algo_ptr algo_len w) = Some algo"
    "create_and_add E algo (Duration_from_secs expiry_secs) Binding w = (Ok (h, pk), v)"
    "unat out_pubkey_len = length (PublicKey_as_bytes pk)"
    "w' = v\<lparr>mem := write_mem out_pubkey (PublicKey_as_bytes pk) (write_mem out_uuid (as_bytes h) (mem w))\<rparr>"
proof -
  have present: "generate_binding_present algo_ptr algo_len out_uuid out_pubkey"
    using call by (auto simp: generate_binding_keypair_body_def generate_binding_present_def errM_def
        split: if_splits)
  note eq = call [unfolded generate_binding_keypair_body_eq [OF present safe]]
  obtain algo where algo: "HpkeAlgorithm_decode E (buf algo_ptr algo_len w) = Some algo"
    using eq by (auto split: option.splits)
  obtain h pk v where gen: "create_and_add E algo (Duration_from_secs expiry_secs) Binding w = (Ok (h, pk), v)"
    and tail: "(if unat out_pubkey_len \<noteq> length (PublicKey_as_bytes pk) then errM InvalidArgument
        else bindM (copy_from_slice (SliceMut out_uuid 16) (as_bytes h)) (\<lambda>_.
             copy_from_slice (SliceMut out_pubkey (unat out_pubkey_len)) (PublicKey_as_bytes pk))) v
        = (Ok (), w')"
    using eq algo by (auto simp: bindM_eq_Ok generate_binding_keypair_internal_eq [OF assms(1)])
  note made = create_and_add_Ok [OF assms(1,3) own_public_key_Binding gen]
  have "length (as_bytes h) = 16"
    using made(2) assms(2) by (simp add: uuid_spec_def)
  note tail = tail [unfolded write_key_eq [OF this]]
  show thesis
    by (rule that [OF present algo gen]) (use tail made(5) in \<open>simp_all split: if_splits\<close>)
qed

lemma generate_binding_keypair_body_run:
  assumes "hpke_spec E" and "uuid_spec E" and "secretmem_spec E" and "core_inv P w"
    and present: "generate_binding_present algo_ptr algo_len out_uuid out_pubkey"
    and safe: "generate_binding_safe algo_ptr algo_len out_uuid out_pubkey out_pubkey_len w"
    and "HpkeAlgorithm_decode E (buf algo_ptr algo_len w) = Some algo" and "suite_supported E algo"
    and "vault_granted E (syscalls w) 32" and "usable E (w\<lparr>syscalls := syscalls w + 3\<rparr>)"
    and "(clock w (ticks w) + Duration_from_secs expiry_secs) div nanos_per_sec \<le> i64_max"
  shows "\<exists>h pk v. create_and_add E algo (Duration_from_secs expiry_secs) Binding w = (Ok (h, pk), v)
     \<and> generate_binding_keypair_body E algo_ptr algo_len expiry_secs out_uuid out_pubkey out_pubkey_len w =
       (if out_pubkey_len \<noteq> 32 then (Err InvalidArgument, v)
        else (Ok (), v\<lparr>mem := write_mem out_pubkey (PublicKey_as_bytes pk)
                (write_mem out_uuid (as_bytes h) (mem w))\<rparr>))"
proof -
  obtain h pk v where gen: "create_and_add E algo (Duration_from_secs expiry_secs) Binding w = (Ok (h, pk), v)"
    using create_and_add_total [OF assms(1,3,4,8-11)] by blast
  note made = create_and_add_Ok [OF assms(1,4) own_public_key_Binding gen]
  have h: "length (as_bytes h) = 16"
    using made(2) assms(2) by (simp add: uuid_spec_def)
  have pk: "length (PublicKey_as_bytes pk) = 32"
    using made(3) length_key_pair [OF assms(1)] by simp
  have len: "unat out_pubkey_len = 32 \<longleftrightarrow> out_pubkey_len = 32"
    by (simp add: word_unat_eq_iff)
  have "generate_binding_keypair_body E algo_ptr algo_len expiry_secs out_uuid out_pubkey out_pubkey_len w =
       (if out_pubkey_len \<noteq> 32 then (Err InvalidArgument, v)
        else (Ok (), v\<lparr>mem := write_mem out_pubkey (PublicKey_as_bytes pk)
                (write_mem out_uuid (as_bytes h) (mem w))\<rparr>))"
    using assms(7)
    by (simp add: generate_binding_keypair_body_eq [OF present safe] len made(5) h pk gen
        bindM_def [of "generate_binding_keypair_internal _ _ _"]
        generate_binding_keypair_internal_eq [OF assms(1)]
        copy_from_slice_def copy_prefix_from_slice_def errM_def updateM_def write_bytes_eq)
  then show ?thesis
    using gen by blast
qed

section \<open>Destruction\<close>

lemma destroy_binding_key_body_eq:
  assumes "\<not> is_null uuid_bytes" and "valid_buf uuid_bytes 16 w"
  shows "destroy_binding_key_body E uuid_bytes w =
     bindM (static_remove_key E (Uuid (buf uuid_bytes 16 w))) (\<lambda>old. bindM (ok_orM old NotFound)
        (\<lambda>rec. updateM (KeyRecord_drop E rec))) w"
  using assms buf_length [OF assms(2)]
  by (simp add: destroy_binding_key_body_def bindM_def [of "from_raw_parts _ _"]
      from_raw_parts_valid try_into_array_def)

section \<open>Opening\<close>

definition open_safe :: "ptr \<Rightarrow> ptr \<Rightarrow> usize \<Rightarrow> ptr \<Rightarrow> usize \<Rightarrow> ptr \<Rightarrow> usize \<Rightarrow> ptr \<Rightarrow> usize \<Rightarrow> 'e world \<Rightarrow> bool" where
  "open_safe uuid_bytes enc enc_len ciphertext ciphertext_len aad aad_len out_plaintext out_plaintext_len w \<longleftrightarrow>
     valid_buf uuid_bytes 16 w \<and> valid_buf enc enc_len w \<and> valid_buf ciphertext ciphertext_len w
   \<and> (is_null aad \<or> valid_buf aad aad_len w) \<and> valid_buf out_plaintext out_plaintext_len w"

definition open_present :: "ptr \<Rightarrow> ptr \<Rightarrow> ptr \<Rightarrow> ptr \<Rightarrow> usize \<Rightarrow> bool" where
  "open_present uuid_bytes enc ciphertext out_plaintext out_plaintext_len \<longleftrightarrow>
     \<not> (is_null uuid_bytes \<or> is_null enc \<or> is_null ciphertext \<or> is_null out_plaintext
         \<or> out_plaintext_len = 0)"

lemma ws_found_kind:
  "core_inv (ws_record E) w \<Longrightarrow> unexpired now (contents w h) = Some rec \<Longrightarrow>
   \<exists>algo b. spec (meta rec) = Binding algo b"
  by (drule core_inv_contents [of "ws_record E" w h rec])
    (auto simp: unexpired_eq_Some ws_record_def split: KeySpec.splits)

lemma open_body_eq:
  assumes inv: "core_inv (ws_record E) w" and "usable E w"
    and "open_present uuid_bytes enc ciphertext out_plaintext out_plaintext_len"
    and safe: "open_safe uuid_bytes enc enc_len ciphertext ciphertext_len aad aad_len
       out_plaintext out_plaintext_len w"
    and h: "h = Uuid (buf uuid_bytes 16 w)"
  shows "open_body E uuid_bytes enc enc_len ciphertext ciphertext_len aad aad_len
       out_plaintext out_plaintext_len w =
     (case unexpired (clock w (ticks w)) (contents w h) of
        None \<Rightarrow> (Err NotFound, looked_up h w)
      | Some rec \<Rightarrow>
          bindM (hpke_open E (get_private_key rec) (buf enc enc_len w) (buf ciphertext ciphertext_len w)
              (aad_buf aad aad_len w) (spec_algo (spec (meta rec))))
            (\<lambda>pt. if unat out_plaintext_len \<noteq> length (as_slice pt) then errM InvalidArgument
               else updateM (\<lambda>v. v\<lparr>mem := write_mem out_plaintext (as_slice pt) (mem v)\<rparr>)) (looked_up h w))"
proof -
  have len: "length (buf uuid_bytes 16 w) = 16"
    using safe buf_length [of uuid_bytes 16 w] by (simp add: open_safe_def)
  have "open_body E uuid_bytes enc enc_len ciphertext ciphertext_len aad aad_len
       out_plaintext out_plaintext_len w =
     bindM (open_internal E h (buf enc enc_len w) (buf ciphertext ciphertext_len w) (aad_buf aad aad_len w))
       (\<lambda>pt. if unat out_plaintext_len \<noteq> length (as_slice pt) then errM InvalidArgument
          else copy_from_slice (SliceMut out_plaintext (unat out_plaintext_len)) (as_slice pt)) w"
    using assms(3) safe aad_slice_eq [of aad aad_len w] len h
    by (simp add: open_body_def open_present_def open_safe_def
        bindM_def [of "from_raw_parts _ _"] bindM_def [of "from_raw_parts_mut _ _"]
        bindM_def [of "if _ then _ else _"] from_raw_parts_valid from_raw_parts_mut_valid
        Uuid_from_slice_def try_into_array_def)
  also have "\<dots> = (case unexpired (clock w (ticks w)) (contents w h) of
        None \<Rightarrow> (Err NotFound, looked_up h w)
      | Some rec \<Rightarrow>
          bindM (hpke_open E (get_private_key rec) (buf enc enc_len w) (buf ciphertext ciphertext_len w)
              (aad_buf aad aad_len w) (spec_algo (spec (meta rec))))
            (\<lambda>pt. if unat out_plaintext_len \<noteq> length (as_slice pt) then errM InvalidArgument
               else updateM (\<lambda>v. v\<lparr>mem := write_mem out_plaintext (as_slice pt) (mem v)\<rparr>)) (looked_up h w))"
    unfolding open_internal_def bindM_assoc static_get_key_bind [OF inv assms(2)]
    by (auto simp: write_simps split: option.splits dest!: ws_found_kind [OF inv]
        intro!: arg_cong2 [where f = bindM, THEN fun_cong] ext)
  finally show ?thesis .
qed

section \<open>Lookup\<close>

definition get_binding_safe :: "ptr \<Rightarrow> ptr \<Rightarrow> usize \<Rightarrow> ptr \<Rightarrow> ptr \<Rightarrow> 'e world \<Rightarrow> bool" where
  "get_binding_safe uuid_bytes out_pubkey out_pubkey_len out_algo out_algo_len w \<longleftrightarrow>
     valid_buf uuid_bytes 16 w \<and> valid_buf out_pubkey out_pubkey_len w
   \<and> (\<exists>n. mem w out_algo_len = Some (UsizeCell n) \<and> valid_buf out_algo n w)
   \<and> distinct [out_pubkey, out_algo, out_algo_len]"

definition get_binding_present :: "ptr \<Rightarrow> ptr \<Rightarrow> usize \<Rightarrow> ptr \<Rightarrow> ptr \<Rightarrow> bool" where
  "get_binding_present uuid_bytes out_pubkey out_pubkey_len out_algo out_algo_len \<longleftrightarrow>
     \<not> (is_null uuid_bytes \<or> is_null out_pubkey \<or> out_pubkey_len = 0 \<or> is_null out_algo
         \<or> is_null out_algo_len)"

lemma get_binding_key_body_eq:
  assumes inv: "core_inv (ws_record E) w" and "usable E w"
    and "get_binding_present uuid_bytes out_pubkey out_pubkey_len out_algo out_algo_len"
    and safe: "get_binding_safe uuid_bytes out_pubkey out_pubkey_len out_algo out_algo_len w"
    and h: "h = Uuid (buf uuid_bytes 16 w)" and n: "mem w out_algo_len = Some (UsizeCell n)"
  shows "get_binding_key_body E uuid_bytes out_pubkey out_pubkey_len out_algo out_algo_len w =
     (case unexpired (clock w (ticks w)) (contents w h) of
        None \<Rightarrow> (Err NotFound, looked_up h w)
      | Some rec \<Rightarrow>
         (let pk = PublicKey_as_bytes (binding_public_key (spec (meta rec)));
              algo = encode_to_vec E (spec_algo (spec (meta rec)))
          in if unat out_pubkey_len \<noteq> length pk \<or> unat n < length algo
             then (Err InvalidArgument, looked_up h w)
             else (Ok (), (looked_up h w)\<lparr>mem := (write_mem out_algo algo (write_mem out_pubkey pk (mem w)))
                   (out_algo_len \<mapsto> UsizeCell (word_of_nat (length algo)))\<rparr>)))"
proof -
  let ?tail = "\<lambda>(algo, pubkey).
        if unat out_pubkey_len \<noteq> length (PublicKey_as_bytes pubkey) \<or> unat n < length (encode_to_vec E algo)
        then errM InvalidArgument
        else updateM (\<lambda>v. v\<lparr>mem := (write_mem out_algo (encode_to_vec E algo)
               (write_mem out_pubkey (PublicKey_as_bytes pubkey) (mem v)))
                 (out_algo_len \<mapsto> UsizeCell (word_of_nat (length (encode_to_vec E algo))))\<rparr>)"
  have "length (buf uuid_bytes 16 w) = 16"
    using safe buf_length [of uuid_bytes 16 w] by (simp add: get_binding_safe_def)
  then have run: "get_binding_key_body E uuid_bytes out_pubkey out_pubkey_len out_algo out_algo_len w =
     bindM (get_binding_key_internal E h) ?tail w"
    using assms(3) safe h n
    unfolding get_binding_key_body_def get_binding_present_def get_binding_safe_def Let_def
    by (elim conjE exE) (simp add: bindM_def [of "from_raw_parts _ _"] bindM_def [of "from_raw_parts_mut _ _"]
        bindM_def [of "deref_usize _"] deref_usize_def
        from_raw_parts_valid from_raw_parts_mut_valid Uuid_from_slice_def try_into_array_def,
        intro arg_cong2 [where f = bindM, THEN fun_cong] refl ext, auto simp: write_simps)
  show ?thesis
  proof (cases "unexpired (clock w (ticks w)) (contents w h)")
    case None
    then show ?thesis
      unfolding run get_binding_key_internal_def bindM_assoc static_get_key_bind [OF inv assms(2)] by simp
  next
    case (Some rec)
    then obtain algo b where "spec (meta rec) = Binding algo b"
      using ws_found_kind [OF inv] by blast
    then show ?thesis
      using Some unfolding run get_binding_key_internal_def bindM_assoc static_get_key_bind [OF inv assms(2)]
      by (simp add: Let_def basicM_defs)
  qed
qed

section \<open>Enumeration\<close>

text \<open>The description of a key at an instant.\<close>

definition binding_info :: "('s, 'r, 'p) env \<Rightarrow> instant \<Rightarrow> KeyMetadata \<Rightarrow> WsKeyInfo" where
  "binding_info E now m = ws_key_info (meta_id m) (encode_to_vec E (spec_algo (spec m)))
     (PublicKey_as_bytes (binding_public_key (spec m)))
     (Duration_as_secs (saturating_duration_since (delete_after m) now))"

definition binding_infos :: "('s, 'r, 'p) env \<Rightarrow> (nat \<Rightarrow> instant) \<Rightarrow> nat \<Rightarrow> KeyMetadata list \<Rightarrow> WsKeyInfo list" where
  "binding_infos E c t metas = map (\<lambda>j. binding_info E (c (t + j)) (metas ! j)) [0..<length metas]"

lemma binding_infos_simps [simp]:
  "binding_infos E c t [] = []"
  "binding_infos E c t (m # metas) = binding_info E (c t) m # binding_infos E c (Suc t) metas"
  "length (binding_infos E c t metas) = length metas"
  by (simp_all add: binding_infos_def upt_conv_Cons map_Suc_upt [symmetric] del: upt_Suc)

text \<open>The loop replaces one entry for each key of the page, and does not fail.\<close>

lemma fill_binding_entries_eq:
  assumes "prost_spec E" and "hpke_spec E" and "list_all (\<lambda>m. \<exists>rec. ws_record E rec \<and> meta rec = m) metas"
    and "mem w p = Some (Entries es)" and "i + length metas \<le> n" and "n \<le> length es"
  shows "fill_binding_entries E (SliceMut p n) i metas w =
     (Ok (), w\<lparr>ticks := ticks w + length metas,
        mem := (mem w)(p \<mapsto> Entries (take i es @ binding_infos E (clock w) (ticks w) metas
                                   @ drop (i + length metas) es))\<rparr>)"
  using assms(3-6)
proof (induction metas arbitrary: i w es)
  case Nil
  then show ?case
    by (cases w) (auto simp: returnM_def fun_upd_idem)
next
  case (Cons m metas)
  obtain rec where rec: "ws_record E rec" "meta rec = m"
    using Cons.prems by auto
  obtain algo b where sp: "spec m = Binding algo b" and b: "length (PublicKey_as_bytes b) = 32"
    using rec record_ok_length [OF assms(2), of rec]
    by (auto simp: ws_record_def own_public_key_def split: KeySpec.splits)
  let ?x = "binding_info E (clock w (ticks w)) m"
  let ?w = "w\<lparr>ticks := Suc (ticks w), mem := (mem w)(p \<mapsto> Entries (es[i := ?x]))\<rparr>"
  have "fill_binding_entries E (SliceMut p n) i (m # metas) w = fill_binding_entries E (SliceMut p n) (Suc i) metas ?w"
    using Cons.prems sp b length_encode [OF assms(1), of algo]
    by (simp add: Let_def MAX_PUBLIC_KEY_LEN_def MAX_ALGORITHM_LEN_def set_entry_def binding_info_def)
  also have "\<dots> = (Ok (), ?w\<lparr>ticks := Suc (ticks w) + length metas, mem := (mem ?w)(p \<mapsto>
        Entries (take (Suc i) (es[i := ?x]) @ binding_infos E (clock w) (Suc (ticks w)) metas
          @ drop (Suc i + length metas) (es[i := ?x])))\<rparr>)"
    using Cons.IH [of ?w "es[i := ?x]" "Suc i"] Cons.prems
    by (simp add: fun_upd_def cong: if_cong)
  also have "take (Suc i) (es[i := ?x]) = take i es @ [?x]"
    using Cons.prems by (simp add: take_Suc_conv_app_nth)
  also have "drop (Suc i + length metas) (es[i := ?x]) = drop (Suc i + length metas) es"
    by simp
  finally show ?case
    by (simp add: fun_upd_def cong: if_cong)
qed

lemma enumerate_binding_keys_body_eq:
  assumes "prost_spec E" and "hpke_spec E" and inv: "core_inv (ws_record E) w" and "usable E w"
    and "\<not> is_null out_entries" and safe: "enumerate_safe out_entries max_entries es out_has_more w"
    and all: "all = listing (clock w (ticks w)) w" and small: "length all < 2 ^ 64"
    and page: "page = map meta (take (unat max_entries) (drop (unat offset) all))"
  shows "enumerate_binding_keys_body E out_entries max_entries offset out_has_more w =
     (Ok (word_of_nat (length page)),
      (forced w)\<lparr>ticks := Suc (ticks w) + length page,
        mem := (case out_has_more of None \<Rightarrow> \<lambda>m. m
                | Some q \<Rightarrow> \<lambda>m. m(q \<mapsto> BoolCell (unat offset + length page < length all)))
          ((mem w)(out_entries \<mapsto> Entries (binding_infos E (clock w) (Suc (ticks w)) page
                                       @ drop (length page) es)))\<rparr>)"
proof -
  have "entries_from_raw_parts_mut out_entries max_entries w = (Ok (SliceMut out_entries (unat max_entries)), w)"
    using safe by (simp add: entries_from_raw_parts_mut_def enumerate_safe_def)
  moreover have "static_list_all_keys E offset (word_of_nat (unat max_entries)) w
      = (Ok (page, word_of_nat (length all)), (forced w)\<lparr>ticks := Suc (ticks w)\<rparr>)"
    using static_list_all_keys_eq [OF inv assms(4), of offset max_entries] all page by simp
  moreover have "list_all (\<lambda>m. \<exists>rec. ws_record E rec \<and> meta rec = m) page"
    using core_inv_contents [OF inv] listing_props(3) [OF inv, of "clock w (ticks w)"]
    by (auto simp: list_all_iff page all unexpired_eq_Some dest!: in_set_takeD in_set_dropD) blast
  moreover have "length page \<le> unat max_entries"
    by (simp add: page)
  moreover have "offset + word_of_nat (length page) < word_of_nat (length all)
      \<longleftrightarrow> unat offset + length page < length all"
    using has_more_exact [OF small, of "length page" "unat max_entries" offset] page by simp
  moreover have "ucast (word_of_nat (length page) :: usize) = (word_of_nat (length page) :: i32)"
    using small by (simp add: unsigned_of_nat page take_bit_nat_eq_self)
  ultimately show ?thesis
    using safe assms(5) fill_binding_entries_eq [OF assms(1,2), of page "(forced w)\<lparr>ticks := Suc (ticks w)\<rparr>"
        out_entries es 0 "unat max_entries"]
    by (simp add: enumerate_binding_keys_body_def enumerate_binding_keys_internal_def enumerate_safe_def
        bindM_def [of "entries_from_raw_parts_mut _ _"] bindM_def [of "static_list_all_keys _ _ _"]
        bindM_def [of "fill_binding_entries _ _ _ _"] bindM_assoc Let_def store_def basicM_defs
        split: option.splits)
qed

section \<open>Definedness and failures\<close>

lemma generate_binding_keypair_body_defined:
  assumes "generate_binding_safe algo_ptr algo_len out_uuid out_pubkey out_pubkey_len w"
  shows "defined_at (generate_binding_keypair_body E algo_ptr algo_len expiry_secs out_uuid out_pubkey
     out_pubkey_len) w"
proof -
  have "never_undefined (generate_binding_keypair_internal E algo e)" for algo e
    unfolding generate_binding_keypair_internal_def Let_def
    by (auto split: KeySpec.splits simp del: bindM_updateM intro!: defined_rules)
  then show ?thesis
    using assms unfolding generate_binding_keypair_body_def generate_binding_safe_def
    by (intro defined_at_guard defined_at_reads defined_at_always)
      (auto split: prod.splits intro!: defined_rules)
qed

lemma destroy_binding_key_body_defined:
  "valid_buf uuid_bytes 16 w \<Longrightarrow> defined_at (destroy_binding_key_body E uuid_bytes) w"
  unfolding destroy_binding_key_body_def
  by (intro defined_at_guard defined_at_reads defined_at_always) (auto intro!: defined_rules)

lemma destroy_all_binding_keys_body_defined: "defined_at (destroy_all_binding_keys_body E) w"
  unfolding destroy_all_binding_keys_body_def by (intro defined_at_always defined_rules)

lemma open_body_defined:
  assumes "open_safe uuid_bytes enc enc_len ciphertext ciphertext_len aad aad_len
       out_plaintext out_plaintext_len w"
  shows "defined_at (open_body E uuid_bytes enc enc_len ciphertext ciphertext_len aad aad_len
       out_plaintext out_plaintext_len) w"
proof -
  have "never_undefined (open_internal E u e c a)" for u e c a
    unfolding open_internal_def by (auto split: KeySpec.splits intro!: defined_rules)
  then show ?thesis
    using assms unfolding open_body_def open_safe_def
    by (intro defined_at_guard defined_at_reads defined_at_always) (auto intro!: defined_rules)
qed

lemma get_binding_key_body_defined:
  assumes "get_binding_safe uuid_bytes out_pubkey out_pubkey_len out_algo out_algo_len w"
  shows "defined_at (get_binding_key_body E uuid_bytes out_pubkey out_pubkey_len out_algo out_algo_len) w"
proof -
  have "never_undefined (get_binding_key_internal E u)" for u
    unfolding get_binding_key_internal_def by (auto split: KeySpec.splits intro!: defined_rules)
  moreover obtain n where "mem w out_algo_len = Some (UsizeCell n)" "valid_buf out_algo n w"
    using assms by (auto simp: get_binding_safe_def)
  ultimately show ?thesis
    using assms unfolding get_binding_key_body_def get_binding_safe_def Let_def
    by (intro defined_at_guard defined_at_reads defined_at_always)
      (auto split: prod.splits intro!: defined_rules)
qed

lemma never_undefined_fill_binding: "never_undefined (fill_binding_entries E entries i metas)"
  by (induction metas arbitrary: i)
    (auto simp: Let_def split: KeySpec.splits intro!: defined_rules simp del: bindM_Instant_now)

lemma enumerate_binding_keys_body_defined:
  assumes "enumerate_safe out_entries max_entries es out_has_more w"
  shows "defined_at (enumerate_binding_keys_body E out_entries max_entries offset out_has_more) w"
  using assms unfolding enumerate_binding_keys_body_def enumerate_binding_keys_internal_def
    enumerate_safe_def Let_def
  by (intro defined_at_guard defined_at_reads defined_at_always)
    (auto split: option.splits prod.splits intro!: defined_rules never_undefined_fill_binding)

lemma ws_writes_on_success:
  "writes_on_success (generate_binding_keypair_body E algo_ptr algo_len expiry_secs out_uuid out_pubkey
     out_pubkey_len)"
  "writes_on_success (destroy_binding_key_body E uuid_bytes)"
  "writes_on_success (destroy_all_binding_keys_body E)"
  "writes_on_success (open_body E uuid_bytes enc enc_len ciphertext ciphertext_len aad aad_len
     out_plaintext out_plaintext_len)"
  "writes_on_success (get_binding_key_body E uuid_bytes out_pubkey out_pubkey_len out_algo out_algo_len)"
proof -
  have "keeps_mem (generate_binding_keypair_internal E algo e)" for algo e
    unfolding generate_binding_keypair_internal_def Let_def
    by (intro keeps_mem_bindM keeps_mem_rules)
      (auto split: KeySpec.splits intro!: mem_rules simp del: bindM_updateM)
  note gen = writes_on_success_bindM [OF this]
  show "writes_on_success (generate_binding_keypair_body E algo_ptr algo_len expiry_secs out_uuid
      out_pubkey out_pubkey_len)"
    unfolding generate_binding_keypair_body_def split_beta
    by (intro writes_rules gen writes_on_success_first always_returns_copy) simp_all
  show "writes_on_success (destroy_binding_key_body E uuid_bytes)"
    unfolding destroy_binding_key_body_def
    by (intro writes_rules keeps_mem_static [THEN writes_on_success_bindM] always_returns_writes)
      (simp add: always_returns_def updateM_def)
  show "writes_on_success (destroy_all_binding_keys_body E)"
    unfolding destroy_all_binding_keys_body_def
    by (intro writes_rules keeps_mem_static [THEN writes_on_success_bindM])
  have "keeps_mem (open_internal E u e c a)" for u e c a
    unfolding open_internal_def
    by (intro keeps_mem_bindM keeps_mem_static keeps_mem_pure)
      (auto split: KeySpec.splits intro!: mem_rules)
  note opened = writes_on_success_bindM [OF this]
  show "writes_on_success (open_body E uuid_bytes enc enc_len ciphertext ciphertext_len aad aad_len
     out_plaintext out_plaintext_len)"
    unfolding open_body_def
    by (intro writes_rules opened always_returns_writes always_returns_copy) simp_all
  have "keeps_mem (get_binding_key_internal E u)" for u
    unfolding get_binding_key_internal_def
    by (intro keeps_mem_bindM keeps_mem_static keeps_mem_pure)
      (auto split: KeySpec.splits intro!: mem_rules)
  note get = writes_on_success_bindM [OF this]
  show "writes_on_success (get_binding_key_body E uuid_bytes out_pubkey out_pubkey_len out_algo out_algo_len)"
    unfolding get_binding_key_body_def Let_def split_beta
    by (intro writes_rules get writes_on_success_first always_returns_bindM always_returns_copy) simp_all
qed

section \<open>The reference caller\<close>

lemma ref_generate_binding_args:
  "generate_binding_present 11 12 2 3"
  "generate_binding_safe 11 12 2 3 32 (ref_world es)"
  "generate_binding_safe 11 12 2 3 16 (ref_world es)"
  using ref_valid_bufs [of "ref_world es" es]
  by (simp_all add: generate_binding_present_def generate_binding_safe_def is_null_def)
    (simp add: valid_buf_def ref_mem_def)

abbreviation (input) ref_binding_spec :: KeySpec where
  "ref_binding_spec \<equiv> Binding ref_suite (ref_public 5)"

lemma ref_binding_stored_inv: "core_inv (ws_record ref_env) (ref_stored ref_binding_spec es)"
  by (rule ref_stored_inv) (simp add: ws_record_def ref_record_ok own_public_key_def)

section \<open>Calls as data\<close>

datatype ws_call =
    GenerateBinding ptr usize u64 ptr ptr usize
  | DestroyBinding ptr
  | DestroyAll
  | OpenSealed ptr ptr usize ptr usize ptr usize ptr usize
  | GetBinding ptr ptr usize ptr ptr

fun ws_operation :: "ws_call \<Rightarrow> KccOperation" where
  "ws_operation (GenerateBinding _ _ _ _ _ _) = GenerateBindingKeypair"
| "ws_operation (DestroyBinding _) = DestroyBindingKey"
| "ws_operation DestroyAll = DestroyAllBindingKeys"
| "ws_operation (OpenSealed _ _ _ _ _ _ _ _ _) = Open"
| "ws_operation (GetBinding _ _ _ _ _) = GetBindingKey"

fun ws_safe :: "ws_call \<Rightarrow> 'e world \<Rightarrow> bool" where
  "ws_safe (GenerateBinding a al e u p pl) w = generate_binding_safe a al u p pl w"
| "ws_safe (DestroyBinding u) w = valid_buf u 16 w"
| "ws_safe DestroyAll w = True"
| "ws_safe (OpenSealed u e el c cl a al p pl) w = open_safe u e el c cl a al p pl w"
| "ws_safe (GetBinding u p pl a al) w = get_binding_safe u p pl a al w"

fun ws_body :: "('s, 'r, 'p) env \<Rightarrow> ws_call \<Rightarrow> (Status, 'e world, unit) rust" where
  "ws_body E (GenerateBinding a al e u p pl) = generate_binding_keypair_body E a al e u p pl"
| "ws_body E (DestroyBinding u) = destroy_binding_key_body E u"
| "ws_body E DestroyAll = destroy_all_binding_keys_body E"
| "ws_body E (OpenSealed u e el c cl a al p pl) = open_body E u e el c cl a al p pl"
| "ws_body E (GetBinding u p pl a al) = get_binding_key_body E u p pl a al"

fun ws_run :: "('s, 'r, 'p) env \<Rightarrow> ws_call \<Rightarrow> 'e world \<Rightarrow> Status ffi_result \<times> 'e world" where
  "ws_run E (GenerateBinding a al e u p pl) w = key_manager_generate_binding_keypair E a al e u p pl w"
| "ws_run E (DestroyBinding u) w = key_manager_destroy_binding_key E u w"
| "ws_run E DestroyAll w = key_manager_destroy_all_binding_keys E w"
| "ws_run E (OpenSealed u e el c cl a al p pl) w = key_manager_open E u e el c cl a al p pl w"
| "ws_run E (GetBinding u p pl a al) w = key_manager_get_binding_key E u p pl a al w"

lemma ws_run_body: "ws_run E c w = ffi_call (ws_operation c) (ws_body E c) w"
  by (cases c) (simp_all add: key_manager_generate_binding_keypair_def key_manager_destroy_binding_key_def
      key_manager_destroy_all_binding_keys_def key_manager_open_def key_manager_get_binding_key_def)

abbreviation (input) ws_errors :: "Status set" where
  "ws_errors \<equiv> {InvalidArgument, NotFound, UnsupportedAlgorithm, CryptoError, DecryptionFailure}"

interpretation ws: ffi_entry "insert InternalError ws_errors" "ws_body E c :: (Status, 'e world, unit) rust"
    "ws_operation c"
  for E :: "('s, 'r, 'p) env" and c
  by unfold_locales
    (cases c, auto intro: keeps_mono [OF generate_binding.keeps_log] keeps_mono [OF destroy_binding.keeps_log]
      keeps_mono [OF destroy_all_binding.keeps_log] keeps_mono [OF open_entry.keeps_log]
      keeps_mono [OF get_binding.keeps_log])

lemma ws_body_keeps:
  assumes "hpke_spec E" and "uuid_spec E" and "zeroize_spec E" and "prost_spec E"
  shows "keeps ws_errors (ws_inv E) (ws_body E c :: (Status, 'e world, unit) rust)"
  by (cases c) (auto intro: keeps_mono [OF ws_bodies_keep(1) [OF assms]]
      keeps_mono [OF ws_bodies_keep(2) [OF assms]] keeps_mono [OF ws_bodies_keep(3) [OF assms]]
      keeps_mono [OF ws_bodies_keep(4) [OF assms]] keeps_mono [OF ws_bodies_keep(5) [OF assms]])

lemma ws_body_defined: "ws_safe c w \<Longrightarrow> defined_at (ws_body E c) w"
  by (cases c) (simp_all add: generate_binding_keypair_body_defined destroy_binding_key_body_defined
      destroy_all_binding_keys_body_defined open_body_defined get_binding_key_body_defined)

lemma ws_body_writes: "writes_on_success (ws_body E c)"
  by (cases c) (simp_all add: ws_writes_on_success)

section \<open>Properties\<close>

text \<open>
  What a successful \<^verbatim>\<open>key_manager_generate_binding_keypair\<close> has done: the registry has one more
  record, under the handle written to \<^verbatim>\<open>out_uuid\<close>, with the decoded suite, the public key written to
  \<^verbatim>\<open>out_pubkey\<close> and a deadline \<^verbatim>\<open>expiry_secs\<close> after the reading of the clock.
\<close>

theorem generate_binding_keypair_success:
  assumes "hpke_spec E" and "uuid_spec E" and "core_inv (ws_record E) w"
    and "generate_binding_safe algo_ptr algo_len out_uuid out_pubkey out_pubkey_len w"
    and "key_manager_generate_binding_keypair E algo_ptr algo_len expiry_secs out_uuid out_pubkey
       out_pubkey_len w = (Returns Success, w')"
  shows "\<exists>rec algo. contents w' = (contents w)(Uuid (buf out_uuid 16 w') \<mapsto> rec)
     \<and> HpkeAlgorithm_decode E (buf algo_ptr algo_len w) = Some algo \<and> suite_supported E algo
     \<and> spec (meta rec) = Binding algo (X25519_public (X25519PublicKey (buf out_pubkey out_pubkey_len w')))
     \<and> created_at (meta rec) = clock w (ticks w)
     \<and> delete_after (meta rec) = clock w (ticks w) + unat expiry_secs * nanos_per_sec
     \<and> (\<forall>p. p \<noteq> out_uuid \<and> p \<noteq> out_pubkey \<longrightarrow> mem w' p = mem w p)"
proof -
  have body: "generate_binding_keypair_body E algo_ptr algo_len expiry_secs out_uuid out_pubkey
      out_pubkey_len w = (Ok (), w')"
    using assms(5) by (simp add: key_manager_generate_binding_keypair_def generate_binding.success_iff)
  obtain algo h pk v where present: "generate_binding_present algo_ptr algo_len out_uuid out_pubkey"
    and algo: "HpkeAlgorithm_decode E (buf algo_ptr algo_len w) = Some algo"
    and gen: "create_and_add E algo (Duration_from_secs expiry_secs) Binding w = (Ok (h, pk), v)"
    and len: "unat out_pubkey_len = length (PublicKey_as_bytes pk)"
    and w': "w' = v\<lparr>mem := write_mem out_pubkey (PublicKey_as_bytes pk)
         (write_mem out_uuid (as_bytes h) (mem w))\<rparr>"
    by (rule generate_binding_keypair_body_Ok [OF assms(1-4) body])
  note made = create_and_add_Ok [OF assms(1,3) own_public_key_Binding gen]
  have safe: "valid_buf out_uuid 16 w" "valid_buf out_pubkey out_pubkey_len w" "out_uuid \<noteq> out_pubkey"
    using assms(4) present by (auto simp: generate_binding_safe_def generate_binding_present_def)
  have "length (as_bytes h) = 16"
    using made(2) assms(2) by (simp add: uuid_spec_def)
  then have uuid: "buf out_uuid 16 w' = as_bytes h"
    using buf_write_mem [OF safe(1), of w' "as_bytes h"] safe(3) w' by simp
  have "valid_buf out_pubkey out_pubkey_len (w\<lparr>mem := write_mem out_uuid (as_bytes h) (mem w)\<rparr>)"
    using safe(2,3) by (simp add: valid_buf_def)
  then have pub: "buf out_pubkey out_pubkey_len w' = PublicKey_as_bytes pk"
    by (rule buf_write_mem) (use len w' in simp_all)
  obtain rec where rec: "contents v = (contents w)(h \<mapsto> rec)"
    and meta: "meta rec = new_metadata E algo (Duration_from_secs expiry_secs) Binding w"
    using made(1) by blast
  have "pk = X25519_public (X25519PublicKey (PublicKey_as_bytes pk))"
    by (simp add: made(3) key_pair_def)
  then show ?thesis
    using rec meta algo made(3,4) uuid pub w'
    by (intro exI [of _ rec] exI [of _ algo]) (simp add: new_metadata_def Duration_from_secs_def)
qed

theorem generate_binding_keypair_success_witness:
  "\<exists>w' rec. key_manager_generate_binding_keypair ref_env 11 12 60 2 3 32 (ref_world ([] :: WsKeyInfo list))
       = (Returns Success, w')
     \<and> contents w' (Uuid (buf 2 16 w')) = Some rec \<and> delete_after (meta rec) = 60 * nanos_per_sec"
proof -
  obtain w' where call: "key_manager_generate_binding_keypair ref_env 11 12 60 2 3 32
      (ref_world ([] :: WsKeyInfo list)) = (Returns Success, w')"
    using generate_binding_keypair_body_run [OF ref_hpke_spec ref_uuid_spec ref_secretmem_spec ref_world_inv
        ref_generate_binding_args(1) ref_generate_binding_args(2) ref_decode_buf ref_suite_supported
        ref_vault_granted ref_world_granted, of "[] :: WsKeyInfo list"]
    by (auto simp: ref_bufs key_manager_generate_binding_keypair_def ffi_call_def ffi_call_with_reporter_def)
  then show ?thesis
    using generate_binding_keypair_success [OF ref_hpke_spec ref_uuid_spec ref_world_inv
        ref_generate_binding_args(2) call] by (auto simp: ref_clock_def)
qed

text \<open>
  As in the other core, the length of \<^verbatim>\<open>out_pubkey\<close> is checked after the key was stored: with
  another length than 32 the call returns \<^verbatim>\<open>InvalidArgument\<close>, and a live binding key stays in the
  registry under a handle nobody was told.
\<close>

theorem generate_binding_keypair_orphans_key:
  assumes "hpke_spec E" and "uuid_spec E" and "secretmem_spec E" and "core_inv (ws_record E) w"
    and "generate_binding_present algo_ptr algo_len out_uuid out_pubkey"
    and "generate_binding_safe algo_ptr algo_len out_uuid out_pubkey out_pubkey_len w"
    and "HpkeAlgorithm_decode E (buf algo_ptr algo_len w) = Some algo" and "suite_supported E algo"
    and "vault_granted E (syscalls w) 32" and "usable E (w\<lparr>syscalls := syscalls w + 3\<rparr>)"
    and "(clock w (ticks w) + Duration_from_secs expiry_secs) div nanos_per_sec \<le> i64_max"
    and "out_pubkey_len \<noteq> 32"
  shows "\<exists>w' rec. key_manager_generate_binding_keypair E algo_ptr algo_len expiry_secs out_uuid out_pubkey
       out_pubkey_len w = (Returns InvalidArgument, w')
     \<and> contents w' = (contents w)(Uuid_new_v4 E (Suc (draws w)) \<mapsto> rec) \<and> mem w' = mem w"
proof -
  obtain h pk v where gen: "create_and_add E algo (Duration_from_secs expiry_secs) Binding w = (Ok (h, pk), v)"
    and run: "generate_binding_keypair_body E algo_ptr algo_len expiry_secs out_uuid out_pubkey
         out_pubkey_len w = (Err InvalidArgument, v)"
    using generate_binding_keypair_body_run [OF assms(1-11)] assms(12) by auto
  note made = create_and_add_Ok [OF assms(1,4) own_public_key_Binding gen]
  show ?thesis
    using made(1,2,5) run
    by (auto simp: key_manager_generate_binding_keypair_def ffi_call_def ffi_call_with_reporter_def
        telemetry_report_failure_def)
qed

theorem generate_binding_keypair_orphans_key_witness:
  "\<exists>w' rec. key_manager_generate_binding_keypair ref_env 11 12 60 2 3 16 (ref_world ([] :: WsKeyInfo list))
       = (Returns InvalidArgument, w')
     \<and> contents w' = [Uuid (replicate 16 1) \<mapsto> rec] \<and> mem w' = ref_mem []"
  using generate_binding_keypair_orphans_key [OF ref_hpke_spec ref_uuid_spec ref_secretmem_spec ref_world_inv
        ref_generate_binding_args(1) ref_generate_binding_args(3) ref_decode_buf ref_suite_supported
        ref_vault_granted ref_world_granted, of "[] :: WsKeyInfo list"]
  by simp (simp add: ref_env_def)

text \<open>
  \<^verbatim>\<open>key_manager_destroy_binding_key\<close> removes exactly the named key, reports \<^verbatim>\<open>NotFound\<close> if there
  was none, and zeroizes the secret before its memory is unmapped.
\<close>

theorem destroy_binding_key_removes:
  assumes "zeroize_spec E" and "core_inv (ws_record E) w" and "usable E w"
    and "\<not> is_null uuid_bytes" and "valid_buf uuid_bytes 16 w" and "h = Uuid (buf uuid_bytes 16 w)"
  shows "\<exists>w'. key_manager_destroy_binding_key E uuid_bytes w
       = (Returns (if contents w h = None then NotFound else Success), w')
     \<and> contents w' = (contents w)(h := None) \<and> mem w' = mem w
     \<and> released w' = released w @ (case contents w h of None \<Rightarrow> []
          | Some rec \<Rightarrow> [replicate (length (mmap (private_key rec))) 0])"
  unfolding key_manager_destroy_binding_key_def
  by (rule ffi_call_remove [OF assms(2,3,1)]) (simp add: destroy_binding_key_body_eq assms(4-6))

theorem destroy_binding_key_removes_witness:
  "\<exists>w'. key_manager_destroy_binding_key ref_env 2 (ref_stored ref_binding_spec ([] :: WsKeyInfo list))
       = (Returns Success, w')
     \<and> contents w' = Map.empty \<and> released w' = [replicate 32 0]"
  using destroy_binding_key_removes [OF ref_zeroize_spec ref_binding_stored_inv
      ref_stored_usable _ _ refl, of 2 "[] :: WsKeyInfo list"]
    ref_valid_bufs(2) [of "ref_stored ref_binding_spec []" "[]"]
  by (auto simp: ref_bufs is_null_def ref_stored_contents ref_handle_def ref_record_def)

text \<open>
  \<^verbatim>\<open>key_manager_destroy_all_binding_keys\<close> empties the registry, and one zeroized region is
  released for every key that was in it.
\<close>

theorem destroy_all_binding_keys_clears:
  assumes "zeroize_spec E" and "core_inv (ws_record E) w" and "usable E w"
  shows "\<exists>w' recs. key_manager_destroy_all_binding_keys E w = (Returns Success, w')
     \<and> contents w' = Map.empty \<and> mem w' = mem w \<and> set recs = ran (contents w)
     \<and> released w' = released w @ map (\<lambda>rec. replicate (length (mmap (private_key rec))) 0) recs"
proof -
  obtain recs where recs: "set recs = ran (contents w)" and run: "static_remove_all_keys E w =
      (Ok (), (drop_all E recs (forced w))\<lparr>KEY_REGISTRY := Ready KeyRegistry_default\<rparr>)"
    using static_remove_all_keys_eq [OF assms(2,3)] by blast
  show ?thesis
    using run recs assms(1)
    by (intro exI [of _ "snd (static_remove_all_keys E w)"] exI [of _ recs])
      (auto simp: key_manager_destroy_all_binding_keys_def ffi_call_def ffi_call_with_reporter_def
        destroy_all_binding_keys_body_def bindM_def returnM_def zeroize_spec_def fun_eq_iff)
qed

theorem destroy_all_binding_keys_clears_witness:
  "\<exists>w'. key_manager_destroy_all_binding_keys ref_env (ref_stored ref_binding_spec ([] :: WsKeyInfo list))
       = (Returns Success, w') \<and> contents w' = Map.empty"
  using destroy_all_binding_keys_clears [OF ref_zeroize_spec ref_binding_stored_inv ref_stored_usable] by blast

text \<open>
  C13. A successful \<^verbatim>\<open>key_manager_open\<close> found a live binding key and wrote to \<^verbatim>\<open>out_plaintext\<close>
  what HPKE opening with its private key gives for the caller's encapsulated key, ciphertext and
  additional data. Nothing else in memory and nothing in the registry changed.
\<close>

theorem open_success:
  fixes w :: "'e world"
  assumes "core_inv (ws_record E) w" and "usable E w"
    and "open_safe uuid_bytes enc enc_len ciphertext ciphertext_len aad aad_len out_plaintext
       out_plaintext_len w"
    and "key_manager_open E uuid_bytes enc enc_len ciphertext ciphertext_len aad aad_len out_plaintext
       out_plaintext_len w = (Returns Success, w')"
    and "h = Uuid (buf uuid_bytes 16 w)"
  shows "\<exists>rec (v :: 'e world). contents w h = Some rec \<and> clock w (ticks w) < delete_after (meta rec)
     \<and> hpke_open E (get_private_key rec) (buf enc enc_len w) (buf ciphertext ciphertext_len w)
          (aad_buf aad aad_len w) (spec_algo (spec (meta rec))) v
        = (Ok (SecretBox (buf out_plaintext out_plaintext_len w')), v)
     \<and> contents w' = contents w \<and> (\<forall>p. p \<noteq> out_plaintext \<longrightarrow> mem w' p = mem w p)"
proof -
  have body: "open_body E uuid_bytes enc enc_len ciphertext ciphertext_len aad aad_len out_plaintext
       out_plaintext_len w = (Ok (), w')"
    using assms(4) by (simp add: key_manager_open_def open_entry.success_iff)
  have present: "open_present uuid_bytes enc ciphertext out_plaintext out_plaintext_len"
    using body by (auto simp: open_body_def open_present_def errM_def split: if_splits)
  let ?v = "looked_up h w"
  note eq = body [unfolded open_body_eq [OF assms(1,2) present assms(3,5)]]
  obtain rec pt u where rec: "unexpired (clock w (ticks w)) (contents w h) = Some rec"
    and opened: "hpke_open E (get_private_key rec) (buf enc enc_len w) (buf ciphertext ciphertext_len w)
          (aad_buf aad aad_len w) (spec_algo (spec (meta rec))) ?v = (Ok pt, u)"
    and len: "unat out_plaintext_len = length (as_slice pt)"
    and w': "w' = u\<lparr>mem := write_mem out_plaintext (as_slice pt) (mem u)\<rparr>"
    using eq by (auto simp: bindM_eq_Ok errM_def updateM_def split: option.splits if_splits)
  have u: "u = ?v"
    using opened crypto_frame(2) by (metis snd_conv)
  have "buf out_plaintext out_plaintext_len w' = as_slice pt"
    using buf_write_mem [of out_plaintext out_plaintext_len w w' "as_slice pt"] assms(3) len w' u
    by (simp add: open_safe_def)
  then show ?thesis
    using rec opened u w' by (intro exI [of _ rec] exI [of _ ?v]) (auto simp: unexpired_eq_Some)
qed

lemma ref_open:
  "hpke_open ref_env (get_private_key (ref_record sp)) e (pt @ replicate 16 5) a ref_suite m = (Ok (SecretBox pt), m)"
  by (simp add: ref_private_key PrivateKey_from_def hpke_open_def hpke_open_internal_def
      x25519_hpke_open_internal_def ref_suite_supported returnM_def)
    (simp add: ref_env_def ref_pad_def SecretBox_new_def returnM_def)

text \<open>A caller that has a ciphertext of 32 bytes for key 5 at address 5.\<close>

definition ref_sealed_world :: "'e list \<Rightarrow> 'e world" where
  "ref_sealed_world es = (ref_stored ref_binding_spec es)
     \<lparr>mem := (ref_mem es)(5 \<mapsto> Bytes (replicate 32 9 @ replicate 16 5))\<rparr>"

lemma ref_sealed_world_facts:
  "core_inv (ws_record ref_env) (ref_sealed_world es)" "usable ref_env (ref_sealed_world es)"
  "open_present 2 4 5 3 32" "open_safe 2 4 32 5 48 0 0 3 32 (ref_sealed_world es)"
proof -
  show "core_inv (ws_record ref_env) (ref_sealed_world es)"
    using core_inv_same [of "ref_sealed_world es" "ref_stored ref_binding_spec es" "ws_record ref_env"]
      ref_binding_stored_inv [of es] by (simp add: ref_sealed_world_def)
  show "usable ref_env (ref_sealed_world es)"
    by (rule ref_usable) (simp add: ref_sealed_world_def ref_stored_def)
  show "open_present 2 4 5 3 32" "open_safe 2 4 32 5 48 0 0 3 32 (ref_sealed_world es)"
    by (simp_all add: ref_sealed_world_def open_present_def open_safe_def is_null_def valid_buf_def ref_mem_def)
qed

lemma ref_open_call:
  "\<exists>w'. key_manager_open ref_env 2 4 32 5 48 0 0 3 32 (ref_sealed_world es) = (Returns Success, w')"
proof -
  have "contents (ref_sealed_world es) = [ref_handle \<mapsto> ref_record ref_binding_spec]"
    by (simp add: ref_sealed_world_def ref_stored_contents)
  moreover have "Uuid (buf 2 16 (ref_sealed_world es)) = ref_handle"
    by (simp add: ref_sealed_world_def buf_def ref_mem_def ref_handle_def)
  moreover have "buf 5 48 (ref_sealed_world es) = replicate 32 9 @ replicate 16 5"
    by (simp add: ref_sealed_world_def buf_def ref_mem_def)
  moreover have "clock (ref_sealed_world es) (ticks (ref_sealed_world es)) < 60 * nanos_per_sec"
    by (simp add: ref_sealed_world_def ref_clock_def nanos_per_sec_def)
  ultimately show ?thesis
    unfolding key_manager_open_def ffi_call_def ffi_call_with_reporter_def
      open_body_eq [OF ref_sealed_world_facts refl]
    by (simp add: bindM_def ref_open updateM_def)
qed

theorem open_success_witness:
  "\<exists>w'. key_manager_open ref_env 2 4 32 5 48 0 0 3 32 (ref_sealed_world ([] :: WsKeyInfo list))
       = (Returns Success, w')
     \<and> contents w' = [ref_handle \<mapsto> ref_record ref_binding_spec]"
proof -
  obtain w' where call: "key_manager_open ref_env 2 4 32 5 48 0 0 3 32 (ref_sealed_world ([] :: WsKeyInfo list))
       = (Returns Success, w')"
    using ref_open_call by blast
  then show ?thesis
    using open_success [OF ref_sealed_world_facts(1,2,4) call refl]
    by (auto simp: ref_sealed_world_def ref_stored_contents)
qed

text \<open>
  Opening with a key that was destroyed, that never existed or whose time is up returns
  \<^verbatim>\<open>NotFound\<close>, whether or not the reaper has run, and writes nothing.
\<close>

theorem open_not_found:
  assumes "core_inv (ws_record E) w" and "usable E w"
    and "open_present uuid_bytes enc ciphertext out_plaintext out_plaintext_len"
    and "open_safe uuid_bytes enc enc_len ciphertext ciphertext_len aad aad_len out_plaintext
       out_plaintext_len w"
    and "h = Uuid (buf uuid_bytes 16 w)"
    and "\<forall>rec. contents w h = Some rec \<longrightarrow> delete_after (meta rec) \<le> clock w (ticks w)"
  shows "\<exists>w'. key_manager_open E uuid_bytes enc enc_len ciphertext ciphertext_len aad aad_len out_plaintext
       out_plaintext_len w = (Returns NotFound, w') \<and> mem w' = mem w \<and> contents w' = contents w"
proof -
  have "unexpired (clock w (ticks w)) (contents w h) = None"
    using assms(6) by (auto simp: unexpired_def split: option.splits)
  then show ?thesis
    by (simp add: key_manager_open_def ffi_call_def ffi_call_with_reporter_def
        open_body_eq [OF assms(1-5)] telemetry_report_failure_def)
qed

theorem open_not_found_witness:
  "\<exists>w'. key_manager_open ref_env 2 4 32 5 48 0 0 3 32 (ref_world ([] :: WsKeyInfo list)) = (Returns NotFound, w')
     \<and> mem w' = ref_mem []"
proof -
  have "open_safe 2 4 32 5 48 0 0 3 32 (ref_world ([] :: WsKeyInfo list))"
    using ref_valid_bufs [of "ref_world ([] :: WsKeyInfo list)" "[]"] by (simp add: open_safe_def is_null_def)
  from open_not_found [OF ref_world_inv ref_world_usable ref_sealed_world_facts(3) this refl]
  show ?thesis by auto
qed

text \<open>
  \<^verbatim>\<open>key_manager_get_binding_key\<close> on a live key and buffers of the right sizes writes the public key
  and the encoded suite, which decodes to the suite of the record.
\<close>

theorem get_binding_key_returns:
  assumes "prost_spec E" and "hpke_spec E" and "core_inv (ws_record E) w" and "usable E w"
    and "get_binding_present uuid_bytes out_pubkey 32 out_algo out_algo_len"
    and "get_binding_safe uuid_bytes out_pubkey 32 out_algo out_algo_len w"
    and "contents w (Uuid (buf uuid_bytes 16 w)) = Some rec" and "clock w (ticks w) < delete_after (meta rec)"
    and "mem w out_algo_len = Some (UsizeCell n)" and "33 \<le> unat n"
  shows "\<exists>w' len. key_manager_get_binding_key E uuid_bytes out_pubkey 32 out_algo out_algo_len w
       = (Returns Success, w')
     \<and> buf out_pubkey 32 w' = PublicKey_as_bytes (binding_public_key (spec (meta rec)))
     \<and> mem w' out_algo_len = Some (UsizeCell len)
     \<and> HpkeAlgorithm_decode E (buf out_algo len w') = Some (spec_algo (spec (meta rec)))
     \<and> contents w' = contents w"
proof -
  have rec: "ws_record E rec"
    using core_inv_contents [OF assms(3,7)] .
  then obtain algo b where sp: "spec (meta rec) = Binding algo b"
    by (auto simp: ws_record_def split: KeySpec.splits)
  have b: "length (PublicKey_as_bytes b) = 32"
    using rec sp record_ok_length [OF assms(2), of rec] by (simp add: ws_record_def own_public_key_def)
  have fit: "length (encode_to_vec E algo) \<le> unat n"
    using length_encode [OF assms(1), of algo] assms(10) by linarith
  let ?h = "Uuid (buf uuid_bytes 16 w)"
  let ?len = "word_of_nat (length (encode_to_vec E algo)) :: usize"
  let ?w' = "(looked_up ?h w)\<lparr>mem := (write_mem out_algo (encode_to_vec E algo)
      (write_mem out_pubkey (PublicKey_as_bytes b) (mem w)))(out_algo_len \<mapsto> UsizeCell ?len)\<rparr>"
  have body: "get_binding_key_body E uuid_bytes out_pubkey 32 out_algo out_algo_len w = (Ok (), ?w')"
    using sp b fit assms(7,8)
    by (simp add: get_binding_key_body_eq [OF assms(3-6) refl assms(9)] Let_def)
  have safe: "valid_buf out_pubkey 32 w" "valid_buf out_algo n w"
    "distinct [out_pubkey, out_algo, out_algo_len]"
    using assms(6,9) by (auto simp: get_binding_safe_def)
  have "buf out_pubkey 32 ?w' = PublicKey_as_bytes b"
    by (rule buf_write_mem [OF safe(1)]) (use safe(3) b in auto)
  moreover have "buf out_algo ?len ?w' = encode_to_vec E algo"
    by (rule buf_prefix_write_mem [of _ n "w\<lparr>mem := write_mem out_pubkey (PublicKey_as_bytes b) (mem w)\<rparr>"])
      (use safe(2,3) fit in \<open>auto simp: valid_buf_def\<close>)
  moreover have "contents ?w' = contents w"
    using contents_frame [of ?w' "looked_up ?h w"] by simp
  ultimately show ?thesis
    using body sp safe(3) decode_encode [OF assms(1)]
    by (intro exI [of _ ?w'] exI [of _ ?len])
      (auto simp: key_manager_get_binding_key_def get_binding.success_iff)
qed

theorem get_binding_key_returns_witness:
  "\<exists>w'. key_manager_get_binding_key ref_env 2 3 32 6 7 (ref_stored ref_binding_spec ([] :: WsKeyInfo list))
       = (Returns Success, w') \<and> buf 3 32 w' = replicate 32 5"
proof -
  have "get_binding_present 2 3 32 6 7"
    "get_binding_safe 2 3 32 6 7 (ref_stored ref_binding_spec ([] :: WsKeyInfo list))"
    using ref_valid_bufs [of "ref_stored ref_binding_spec ([] :: WsKeyInfo list)" "[]"]
    by (simp_all add: get_binding_present_def get_binding_safe_def is_null_def) (simp add: ref_mem_def)
  then show ?thesis
    using get_binding_key_returns [OF ref_prost_spec ref_hpke_spec ref_binding_stored_inv ref_stored_usable,
        of 2 3 6 7 "[] :: WsKeyInfo list" "ref_record ref_binding_spec" 33]
    by (auto simp: ref_bufs ref_stored_contents ref_handle_def ref_clock_def nanos_per_sec_def ref_mem_def
        ref_public_def)
qed

text \<open>
  \<^verbatim>\<open>key_manager_enumerate_binding_keys\<close> returns one page of the listing of live binding keys in
  the order of their creation, with handle, public key and suite in each entry; entries past the page are
  untouched, and the flag says exactly whether keys follow.
\<close>

theorem enumerate_binding_keys_page:
  assumes "prost_spec E" and "hpke_spec E" and "core_inv (ws_record E) w" and "usable E w"
    and "\<not> is_null out_entries" and "enumerate_safe out_entries max_entries es (Some out_has_more) w"
    and "all = listing (clock w (ticks w)) w" and "length all < 2 ^ 31"
    and "page = take (unat max_entries) (drop (unat offset) all)"
  shows "\<exists>w' infos. key_manager_enumerate_binding_keys E out_entries max_entries offset (Some out_has_more) w
       = (Returns (word_of_nat (length page)), w')
     \<and> sint (word_of_nat (length page) :: i32) = int (length page)
     \<and> mem w' out_entries = Some (Entries (infos @ drop (length page) es)) \<and> length infos = length page
     \<and> mem w' out_has_more = Some (BoolCell (unat offset + length page < length all))
     \<and> (\<forall>i < length page.
          ws_uuid (infos ! i) = as_bytes (meta_id (meta (page ! i)))
        \<and> take (unat (ws_pub_key_len (infos ! i))) (ws_pub_key (infos ! i))
            = PublicKey_as_bytes (binding_public_key (spec (meta (page ! i))))
        \<and> HpkeAlgorithm_decode E (take (unat (ws_algorithm_len (infos ! i))) (ws_algorithm (infos ! i)))
            = Some (spec_algo (spec (meta (page ! i)))))"
proof -
  have page: "map meta page = map meta (take (unat max_entries) (drop (unat offset) all))"
    by (simp add: assms(9))
  have "length all < 2 ^ 64"
    using assms(8) by simp
  note eq = enumerate_binding_keys_body_eq [OF assms(1-7) this page]
  let ?infos = "binding_infos E (clock w) (Suc (ticks w)) (map meta page)"
  have "length page < 2 ^ 31"
    using assms(8,9) by simp
  then have sint: "sint (word_of_nat (length page) :: i32) = int (length page)"
    by (simp add: signed_of_nat signed_take_bit_int_eq_self)
  have info: "ws_uuid (?infos ! i) = as_bytes (meta_id (meta (page ! i)))
        \<and> take (unat (ws_pub_key_len (?infos ! i))) (ws_pub_key (?infos ! i))
            = PublicKey_as_bytes (binding_public_key (spec (meta (page ! i))))
        \<and> HpkeAlgorithm_decode E (take (unat (ws_algorithm_len (?infos ! i))) (ws_algorithm (?infos ! i)))
            = Some (spec_algo (spec (meta (page ! i))))"
    if "i < length page" for i
  proof -
    have "page ! i \<in> set all"
      using that by (auto simp: assms(9) dest: nth_mem in_set_takeD in_set_dropD)
    then have rec: "ws_record E (page ! i)"
      using listing_props(3) [OF assms(3), of "clock w (ticks w)"] core_inv_contents [OF assms(3)] assms(7)
      by (auto simp: unexpired_eq_Some)
    then obtain algo b where sp: "spec (meta (page ! i)) = Binding algo b"
      by (auto simp: ws_record_def split: KeySpec.splits)
    have b: "length (PublicKey_as_bytes b) = 32" and uuid: "length (as_bytes (meta_id (meta (page ! i)))) = 16"
      using rec sp record_ok_length [OF assms(2), of "page ! i"]
      by (simp_all add: ws_record_def own_public_key_def record_ok_def)
    have algo: "unat (word_of_nat (length (encode_to_vec E algo)) :: usize) = length (encode_to_vec E algo)"
      using length_encode [OF assms(1), of algo] by (simp add: unat_of_nat take_bit_nat_eq_self)
    show ?thesis
      using that sp b uuid algo decode_encode [OF assms(1), of algo]
      by (simp add: binding_infos_def binding_info_def ws_key_info_def WsKeyInfo_default_def overwrite_def)
  qed
  show ?thesis
    using eq info sint assms(6)
    by (intro exI [of _ "snd (enumerate_binding_keys_body E out_entries max_entries offset (Some out_has_more) w)"]
        exI [of _ ?infos])
      (auto simp: key_manager_enumerate_binding_keys_def ffi_call_i32_def ffi_call_i32_with_reporter_def
        enumerate_safe_def)
qed

theorem enumerate_binding_keys_page_witness:
  "\<exists>w' info. key_manager_enumerate_binding_keys ref_env 10 1 0 (Some 9)
       (ref_stored ref_binding_spec [WsKeyInfo_default])
       = (Returns 1, w') \<and> mem w' 10 = Some (Entries [info]) \<and> ws_uuid info = replicate 16 0
     \<and> mem w' 9 = Some (BoolCell False)"
proof -
  let ?w = "ref_stored ref_binding_spec [WsKeyInfo_default]"
  have all: "listing (clock ?w (ticks ?w)) ?w = [ref_record ref_binding_spec]"
    by (simp add: listing_def live_sorted_def live_records_def hm_values_def registry_of_def ref_clock_def)
      (simp add: ref_stored_def nanos_per_sec_def)
  have "enumerate_safe 10 1 [WsKeyInfo_default] (Some 9) ?w"
    by (simp add: enumerate_safe_def ref_mem_def)
  from enumerate_binding_keys_page [OF ref_prost_spec ref_hpke_spec ref_binding_stored_inv ref_stored_usable
      _ this refl _ refl, of 0, unfolded all] show ?thesis
    by (auto simp: is_null_def ref_handle_def length_Suc_conv)
qed

text \<open>
  In the workload core too, a call that fails leaves the caller's memory as it was, and the log gains
  nothing on success and one sanitized report of the operation and its status on failure.
\<close>

theorem ws_failure_clean:
  assumes "ws_run E c w = (Returns s, w')"
  shows "(s \<noteq> Success \<longrightarrow> mem w' = mem w)
     \<and> (\<exists>new. events w' = events w @ new \<and> TELEMETRY w' = TELEMETRY w
        \<and> (if s = Success then new = [] else \<exists>k. new = call_events (TELEMETRY w) (ws_operation c) s k)
        \<and> list_all (sanitized (get_service_name (TELEMETRY w))) new)"
  using ws.log_after [of c E w s w'] assms call_events_sanitized [of _ "TELEMETRY w" "ws_operation c" s]
    ffi_call_failure_mem [OF ws_body_writes, of "ws_operation c" E c w s w']
  by (cases "s = Success") (auto simp: ws_run_body list_all_iff)

lemma ref_destroy_binding_null:
  "ws_run ref_env (DestroyBinding 0) (ref_world es) = (Returns InvalidArgument,
     (ref_world es)\<lparr>events := [report_failure telemetry_default
        \<lparr>operation = DestroyBindingKey, status = InvalidArgument, kind = ErrorKind\<rparr>]\<rparr>)"
  by (simp add: ws_run_body ffi_call_def ffi_call_with_reporter_def is_null_def
      destroy_binding_key_body_def errM_def telemetry_report_failure_def ref_world_def init_world_def)

theorem ws_failure_clean_witness:
  "mem (snd (ws_run ref_env (DestroyBinding 0) (ref_world ([] :: WsKeyInfo list)))) = ref_mem []"
  using ws_failure_clean [OF ref_destroy_binding_null [of "[] :: WsKeyInfo list"]]
  by (simp add: ref_destroy_binding_null del: ws_run.simps)

end
