(* ===== verification/Library_Properties.thy ===== *)
theory Library_Properties
  imports Entry_Points Registry_History
begin

text \<open>
  Properties of the library crate \<^verbatim>\<open>km_common\<close> that the two custody cores build on: cryptography,
  protected memory, records and the registry, listing, telemetry and the status codes.
\<close>

section \<open>Cryptography\<close>

text \<open>
  C34. Decapsulation is \<^verbatim>\<open>Decap\<close> of RFC 9180, section 4.1, with \<^verbatim>\<open>DHKEM(X25519, HKDF-SHA256)\<close>: the
  Diffie-Hellman value through \<^verbatim>\<open>ExtractAndExpand\<close> with the context \<^verbatim>\<open>enc || pkRm\<close>. A private key or
  an encapsulated key of another length than 32 is refused, each with its own status.
\<close>

theorem decaps_is_rfc9180:
  "decaps E (PrivateKey_from (SecretBox sk)) enc m =
     (if length sk \<noteq> 32 then (Err InvalidArgument, m)
      else if length enc \<noteq> 32 then (Err DecapsulationFailure, m)
      else case compute_shared_key E sk enc of
          None \<Rightarrow> (Err DecapsulationFailure, m)
        | Some dh \<Rightarrow>
           (case rfc_ExtractAndExpand E dh (enc @ to_public E sk) of
              None \<Rightarrow> (Err DecapsulationFailure, m)
            | Some ss \<Rightarrow> (Ok (SecretBox ss), m)))"
  by (simp add: decaps_def decaps_internal_def PrivateKey_from_def x25519_decaps_internal_rfc)

lemma decaps_encap_pair:
  assumes "hpke_spec E" and "x25519_spec E" and "key_pair E n = (pk, sk)"
    and "encap E pk m = (Ok (ss, enc), m')"
  shows "decaps E sk enc m'' = (Ok ss, m'')"
proof -
  let ?pair = "Kem_generate_keypair E X25519HkdfSha256_Kem"
  have pk: "pk = X25519_public (X25519PublicKey (to_public E (snd (?pair n))))"
    and sk: "sk = PrivateKey_from (SecretBox (snd (?pair n)))"
    using assms(3) keypair_to_public [OF assms(2)] by (auto simp: key_pair_def)
  show ?thesis
    using assms(4) decaps_encap [OF assms(2) length_keypair_private [OF assms(1)]
        length_keypair_private [OF assms(1)], of X25519HkdfSha256_Kem n X25519HkdfSha256_Kem "draws m"]
    by (simp add: pk sk encap_def encap_internal_def decaps_def decaps_internal_def PrivateKey_from_def
        x25519_encap_internal_random [OF assms(1,2)])
qed

text \<open>
  C35. Round trip: what \<^verbatim>\<open>encap\<close> agreed on for a generated public key is what \<^verbatim>\<open>decaps\<close> computes from
  the encapsulated key with the private half.
\<close>

theorem decaps_inverts_encap:
  assumes "hpke_spec E" and "x25519_spec E" and "key_pair E n = (pk, sk)"
    and "encap E pk m = (Ok (ss, enc), m')"
  shows "decaps E sk enc m'' = (Ok ss, m'')"
  by (rule decaps_encap_pair [OF assms])

lemma encap_total:
  assumes "hpke_spec E" and "x25519_spec E" and "hkdf_spec E" and "\<And>a b. compute_shared_key E a b \<noteq> None"
  shows "\<exists>ss enc m'. encap E (X25519_public (X25519PublicKey pk)) m = (Ok (ss, enc), m')"
proof -
  let ?sk = "snd (Kem_generate_keypair E X25519HkdfSha256_Kem (draws m))"
  obtain dh where "compute_shared_key E ?sk pk = Some dh"
    using assms(4) [of ?sk pk] by auto
  moreover have "rfc_ExtractAndExpand E dh c \<noteq> None" for c
    using expand_exists [OF assms(3)] by (simp add: rfc_ExtractAndExpand_def rfc_LabeledExpand_def Let_def)
  ultimately show ?thesis
    by (auto simp: encap_def encap_internal_def x25519_encap_internal_random [OF assms(1,2)]
        x25519_encap_internal_eq length_keypair_private [OF assms(1)] split: option.splits)
qed

lemma ref_encap: "\<exists>ss enc m'. encap ref_env (ref_public n) m = (Ok (ss, enc), m')"
  unfolding ref_public_def
  by (rule encap_total [OF ref_hpke_spec ref_x25519_spec ref_hkdf_spec]) (simp add: ref_env_simps)

lemma ref_key_pair: "key_pair ref_env n = (ref_public n, PrivateKey_from (SecretBox (replicate 32 (word_of_nat n))))"
  by (simp add: key_pair_def ref_public_def ref_env_def)

theorem decaps_inverts_encap_witness:
  "\<exists>ss enc m'. encap ref_env (ref_public 3) (machine_init ref_clock) = (Ok (ss, enc), m')
     \<and> decaps ref_env (PrivateKey_from (SecretBox (replicate 32 3))) enc m' = (Ok ss, m')"
proof -
  obtain ss enc m' where "encap ref_env (ref_public 3) (machine_init ref_clock) = (Ok (ss, enc), m')"
    using ref_encap by blast
  then show ?thesis
    using decaps_inverts_encap [OF ref_hpke_spec ref_x25519_spec ref_key_pair [of 3]] by auto
qed

lemma open_seal_pair:
  assumes "hpke_spec E" and "suite_supported E algo" and "key_pair E n = (pk, sk)"
    and "hpke_seal E pk pt aad algo m = (Ok (enc, ct), m')"
  shows "hpke_open E sk enc ct aad algo m'' = (Ok pt, m'')
     \<and> length enc = 32 \<and> length ct = length (as_slice pt) + 16"
proof -
  obtain a b where kp: "Kem_generate_keypair E X25519HkdfSha256_Kem n = (a, b)"
    by fastforce
  have pk: "pk = X25519_public (X25519PublicKey a)" and sk: "sk = PrivateKey_from (SecretBox b)"
    using assms(3) kp by (auto simp: key_pair_def)
  have seal: "x25519_hpke_seal_internal E (X25519PublicKey a) pt aad algo m = (Ok (enc, ct), m')"
    using assms(4) by (simp add: pk hpke_seal_def hpke_seal_internal_def)
  show ?thesis
    using open_seal [OF assms(1,2) kp seal] seal_lengths [OF assms(1) seal]
    by (simp add: sk hpke_open_def hpke_open_internal_def PrivateKey_from_def)
qed

text \<open>
  C36. Round trip: opening with the private half of a generated pair gives back what was sealed to its
  public half under the same additional data; a ciphertext is 16 bytes longer than its plaintext and
  comes with a 32-byte encapsulated key.
\<close>

theorem hpke_open_inverts_seal:
  assumes "hpke_spec E" and "suite_supported E algo" and "key_pair E n = (pk, sk)"
    and "hpke_seal E pk pt aad algo m = (Ok (enc, ct), m')"
  shows "hpke_open E sk enc ct aad algo m'' = (Ok pt, m'')
     \<and> length enc = 32 \<and> length ct = length (as_slice pt) + 16"
  by (rule open_seal_pair [OF assms])

theorem hpke_open_inverts_seal_witness:
  "\<exists>enc ct m'. hpke_seal ref_env (ref_public 3) (SecretBox [1, 2]) [] ref_suite (machine_init ref_clock)
       = (Ok (enc, ct), m')
     \<and> hpke_open ref_env (PrivateKey_from (SecretBox (replicate 32 3))) enc ct [] ref_suite m'
       = (Ok (SecretBox [1, 2]), m')"
  using hpke_open_inverts_seal [OF ref_hpke_spec ref_suite_supported ref_key_pair [of 3]
      ref_seal [of 3 "SecretBox [1, 2]" "[]" "machine_init ref_clock"]]
  by (simp add: ref_seal)

section \<open>Protected memory\<close>

text \<open>
  A vault gives back exactly the secret it was made from, and when it is dropped the region it
  unmaps is all zeros.
\<close>

theorem vault_keeps_and_erases:
  assumes "zeroize_spec E" and "Vault_new E data m = (Ok v, m')"
  shows "get_secret v = data
     \<and> released (Vault_drop E v m') = released m @ [replicate (length (as_slice data)) 0]"
  using get_secret_Vault_new [OF assms(2)] Vault_new_Ok [OF assms(2)] assms
    Vault_new_frame(4) [of E data m] by (simp add: zeroize_spec_def)

theorem vault_keeps_and_erases_witness:
  "\<exists>v m'. Vault_new ref_env (SecretBox [1, 2, 3]) (machine_init ref_clock) = (Ok v, m')
     \<and> get_secret v = SecretBox [1, 2, 3] \<and> released (Vault_drop ref_env v m') = [[0, 0, 0]]"
  using vault_keeps_and_erases [OF ref_zeroize_spec, of "SecretBox [1, 2, 3]" "machine_init ref_clock"]
    Vault_new_total [OF ref_secretmem_spec ref_vault_granted, of "SecretBox [1, 2, 3]" "machine_init ref_clock"]
  by (simp add: machine_init_def numeral_3_eq_3)

text \<open>
  \<^verbatim>\<open>SecretBox::new\<close> keeps the contents of the vector, and the allocation it gives up, if any, is
  wiped over its whole capacity first.
\<close>

lemma secret_box_new_leaves_no_copy:
  assumes "zeroize_spec E"
  shows "as_slice (fst (SecretBox_new_alloc E data)) = elems data
     \<and> snd (SecretBox_new_alloc E data)
        = (if spare data = [] then [] else [replicate (capacity data) 0])"
  using assms by (auto simp: SecretBox_new_alloc_def zeroize_spec_def capacity_def)

section \<open>Records\<close>

lemma Vault_new_refused:
  assumes "secretmem_spec E" and "\<not> vault_granted E (syscalls m) (length (as_slice data))"
  shows "fst (Vault_new E data m) = Err IoError"
  using assms by (auto simp: Vault_new_def basicM_defs secretmem_spec_def vault_granted_def
      split: option.splits)

text \<open>
  \<^verbatim>\<open>create_key_internal\<close> never panics, and its three checks decide the result in this order: the
  cipher suite, the secret memory, the deadline, which must fit the clock. A record it returns lives from
  now for exactly the requested time.
\<close>

theorem create_key_outcomes:
  assumes "hpke_spec E" and "secretmem_spec E"
  shows "case fst (create_key_internal E algo expiry mk m) of
      Ok rec \<Rightarrow> suite_supported E algo \<and> vault_granted E (syscalls m) 32
        \<and> (clock m (ticks m) + expiry) div nanos_per_sec \<le> i64_max
        \<and> created_at (meta rec) = clock m (ticks m) \<and> delete_after (meta rec) = clock m (ticks m) + expiry
        \<and> spec (meta rec) = mk algo (fst (key_pair E (draws m)))
        \<and> get_private_key rec = snd (key_pair E (draws m))
    | Err e \<Rightarrow> (e = UnsupportedAlgorithm \<and> \<not> suite_supported E algo)
        \<or> (e = CryptoError \<and> suite_supported E algo \<and> \<not> vault_granted E (syscalls m) 32)
        \<or> (e = UnsupportedAlgorithm \<and> i64_max < (clock m (ticks m) + expiry) div nanos_per_sec)
    | _ \<Rightarrow> False"
proof -
  obtain pk sk where kp: "Kem_generate_keypair E X25519HkdfSha256_Kem (draws m) = (pk, sk)"
    by fastforce
  then have len: "length sk = 32"
    using length_keypair_private [OF assms(1), of X25519HkdfSha256_Kem "draws m"] by simp
  let ?m1 = "m\<lparr>draws := Suc (Suc (draws m))\<rparr>"
  consider (refused) "\<not> vault_granted E (syscalls m) 32"
    | (granted) "vault_granted E (syscalls m) 32" by blast
  then show ?thesis
  proof cases
    case refused
    then show ?thesis
      using Vault_new_refused [OF assms(2), of ?m1 "SecretBox sk"] len
      by (auto simp: create_key_internal_eq [OF assms(1) kp] split: prod.splits outcome.splits)
  next
    case granted
    then show ?thesis
      using Vault_new_total [OF assms(2), of ?m1 "SecretBox sk"] len
      by (auto simp: create_key_internal_eq [OF assms(1) kp] Instant_checked_add_def key_pair_def kp
          get_private_key_def get_secret_def SecretBox_new_def)
  qed
qed

theorem create_key_outcomes_witness:
  "case fst (create_key_internal ref_env ref_suite 5 Binding (machine_init ref_clock)) of
     Ok rec \<Rightarrow> delete_after (meta rec) = ref_clock 0 + 5 | Err e \<Rightarrow> False | _ \<Rightarrow> False"
  using create_key_outcomes [OF ref_hpke_spec ref_secretmem_spec, where algo = ref_suite and expiry = 5
      and mk = Binding and m = "machine_init ref_clock"]
  by (auto simp: ref_suite_supported ref_vault_granted machine_init_def ref_clock_def nanos_per_sec_def
      i64_max_def split: outcome.splits)

section \<open>The registry\<close>

text \<open>
  The registry with its reaper refines a map. After any history of insertions, removals, clears,
  lookups and reaper wake-ups, in any order, no operation has panicked and a lookup returns what the map
  holds for the handle if its deadline has not passed, and nothing otherwise: a lookup cannot tell whether
  and when the reaper ran.
\<close>

theorem registry_refines_map:
  fixes m :: "'z machine_scheme"
  assumes "mono (clock m)"
  shows "\<exists>reg m'. registry_run E ops KeyRegistry_default m = (Ok reg, m')
     \<and> (\<forall>h. fst (get_key h reg m' :: (Status, KeyRecord option) outcome \<times> 'z machine_scheme)
          = Ok (unexpired (clock m' (ticks m')) (map_run ops h)))"
proof -
  have "hist.stands_for KeyRegistry_default m Map.empty"
    using assms registry_wf_default
    by (auto simp: hist.stands_for_def agree_from_def lookup_def KeyRegistry_default_def hm_get_def)
  from registry_run_simulates [OF this, of E ops] show ?thesis
    using hist.find_stands_for unfolding map_run_def by blast
qed

theorem registry_refines_map_witness:
  "\<exists>reg m'. registry_run ref_env [OpSweep, OpAdd (ref_record (Binding ref_suite (ref_public 5))), OpSweep]
       KeyRegistry_default (machine_init ref_clock) = (Ok reg, m')
     \<and> fst (get_key ref_handle reg m' :: (Status, KeyRecord option) outcome \<times> machine)
        = Ok (unexpired (clock m' (ticks m')) (Some (ref_record (Binding ref_suite (ref_public 5)))))"
proof -
  have "mono (clock (machine_init ref_clock))"
    by (simp add: machine_init_def ref_clock_def mono_def)
  from registry_refines_map [OF this, of ref_env
      "[OpSweep, OpAdd (ref_record (Binding ref_suite (ref_public 5))), OpSweep]"]
  show ?thesis by (auto simp: map_run_def)
qed

text \<open>
  One wake-up of the reaper removes exactly the records whose deadline has passed, keeps the others,
  and leaves each removed private key's memory zeroed.
\<close>

theorem reaper_sweep_exact:
  assumes "zeroize_spec E" and "registry_wf reg"
  shows "\<exists>reg' m'. reaper_sweep E reg m = (Ok reg', m') \<and> registry_wf reg'
     \<and> (\<forall>h rec. lookup reg' h = Some rec \<longleftrightarrow>
          lookup reg h = Some rec \<and> clock m (ticks m) < delete_after (meta rec))
     \<and> released m' = released m @ map (\<lambda>rec. replicate (length (mmap (private_key rec))) 0)
         (filter (expired (clock m (ticks m))) (hm_values (keys reg)))"
proof -
  obtain reg' m' where run: "reaper_sweep E reg m = (Ok reg', m')" and "registry_wf reg'"
    using reg.sweep_spec [OF assms(2), of E m] by blast
  moreover have "released m' = released m @ map (\<lambda>rec. zeroize E (mmap (private_key rec)))
      (filter (expired (clock m (ticks m))) (hm_values (keys reg)))"
    using run assms(2) by (auto simp: reaper_sweep_def registry_wf_def returnM_def)
  ultimately show ?thesis
    using reg.sweep_removes_expired [OF assms(2) run] assms(1) by (simp add: zeroize_spec_def)
qed

theorem reaper_sweep_exact_witness:
  "\<exists>reg' m'. reaper_sweep ref_env \<lparr>keys = [(ref_handle, ref_record (Binding ref_suite (ref_public 5)))],
         poisoned = False\<rparr> (machine_init (\<lambda>_. 60 * nanos_per_sec)) = (Ok reg', m')
     \<and> lookup reg' ref_handle = None \<and> released m' = [replicate 32 0]"
proof -
  let ?reg = "\<lparr>keys = [(ref_handle, ref_record (Binding ref_suite (ref_public 5)))], poisoned = False\<rparr>"
  have "registry_wf ?reg"
    by (simp add: registry_wf_def hm_wf_def)
  from reaper_sweep_exact [OF ref_zeroize_spec this, of "machine_init (\<lambda>_. 60 * nanos_per_sec)"]
  obtain reg' m' where run: "reaper_sweep ref_env ?reg (machine_init (\<lambda>_. 60 * nanos_per_sec)) = (Ok reg', m')"
    and kept: "\<forall>h rec. lookup reg' h = Some rec \<longleftrightarrow>
          lookup ?reg h = Some rec \<and> 60 * nanos_per_sec < delete_after (meta rec)"
    and rel: "released m' = [replicate 32 0]"
    by (auto simp: machine_init_def hm_values_def expired_def)
  have "lookup ?reg ref_handle = Some (ref_record (Binding ref_suite (ref_public 5)))"
    by (simp add: lookup_def hm_get_def)
  then have "lookup reg' ref_handle = None"
    using kept by (cases "lookup reg' ref_handle") auto
  with run rel show ?thesis by blast
qed

lemma reaper_loop_runs:
  assumes "registry_wf reg" and "mono (clock m)"
  shows "\<exists>reg' m'. reaper_loop E (replicate (Suc n) False @ True # later) reg m = (Ok (True, reg'), m')
     \<and> registry_wf reg' \<and> lookup reg' = (\<lambda>h. unexpired (clock m (ticks m + n)) (lookup reg h))
     \<and> clock m' = clock m \<and> ticks m' = ticks m + Suc n"
  using assms
proof (induction n arbitrary: reg m)
  case 0
  obtain reg' m' where "reaper_sweep E reg m = (Ok reg', m')" and "registry_wf reg'"
    and "lookup reg' = (\<lambda>h. unexpired (clock m (ticks m)) (lookup reg h))"
    using reg.sweep_spec [OF 0(1), of E m] by blast
  moreover from this have "clock m' = clock m" "ticks m' = Suc (ticks m)"
    using 0(1) by (auto simp: reaper_sweep_def registry_wf_def returnM_def)
  ultimately show ?case
    by (simp add: bindM_def returnM_def)
next
  case (Suc n)
  obtain reg1 m1 where step: "reaper_sweep E reg m = (Ok reg1, m1)" and wf: "registry_wf reg1"
    and l1: "lookup reg1 = (\<lambda>h. unexpired (clock m (ticks m)) (lookup reg h))"
    using reg.sweep_spec [OF Suc.prems(1), of E m] by blast
  have m1: "clock m1 = clock m" "ticks m1 = Suc (ticks m)"
    using step Suc.prems(1) by (auto simp: reaper_sweep_def registry_wf_def returnM_def)
  have "clock m (ticks m) \<le> clock m (Suc (ticks m + n))"
    using Suc.prems(2) by (simp add: monoD)
  then show ?case
    using Suc.IH [OF wf, of m1] Suc.prems(2) m1 step by (simp add: bindM_def l1 unexpired_later)
qed

text \<open>
  C37. The reaper thread: it wakes until it sees the stop signal, and then it ends, whatever would have
  come later. What is left is what the last wake-up before the signal leaves; no wake-up panics.
\<close>

theorem reaper_loop_stops:
  assumes "registry_wf reg" and "mono (clock m)"
  shows "\<exists>reg' m'. reaper_loop E (replicate (Suc n) False @ True # later) reg m = (Ok (True, reg'), m')
     \<and> registry_wf reg' \<and> lookup reg' = (\<lambda>h. unexpired (clock m (ticks m + n)) (lookup reg h))"
  using reaper_loop_runs [OF assms, of E n later] by blast

theorem reaper_loop_stops_witness:
  "\<exists>reg' m'. reaper_loop ref_env [False, False, True, False] KeyRegistry_default (machine_init ref_clock)
     = (Ok (True, reg'), m') \<and> lookup reg' = Map.empty"
proof -
  have "mono (clock (machine_init ref_clock))"
    by (simp add: machine_init_def ref_clock_def mono_def)
  moreover have "lookup KeyRegistry_default h = None" for h
    by (simp add: lookup_def KeyRegistry_default_def hm_get_def)
  ultimately show ?thesis
    using reaper_loop_stops [OF registry_wf_default, of "machine_init ref_clock" ref_env 1 "[False]"]
    by auto
qed

section \<open>Listing\<close>

lemma concat_pages: "concat (map (\<lambda>i. take k (drop (i * k) xs)) [0..<n]) = take (n * k) xs"
proof (induction n)
  case (Suc n)
  then show ?case by (simp add: add.commute [of k] take_add)
qed simp

lemma concat_pages_map:
  "concat (map (\<lambda>i. map f (take k (drop (i * k) xs))) [0..<n]) = map f (take (n * k) xs)"
  unfolding concat_pages [symmetric] by (simp add: map_concat o_def)

text \<open>
  C38. Paging through the registry: pages of \<^verbatim>\<open>limit\<close> keys at offsets 0, \<^verbatim>\<open>limit\<close>, 2 \<^verbatim>\<open>limit\<close> and so on,
  together, are every live key exactly once, oldest first, even if the hash map iterates in a
  different order at each call. The order is that of the creation times, and of the handles where they
  are equal.
\<close>

theorem listing_pages:
  assumes "\<And>i. registry_wf (regs i)" and "\<And>i. lookup (regs i) = M"
    and "all = live_sorted now (regs 0)" and "length all \<le> n * k" and "n * k < 2 ^ 64"
    and "clock m (ticks m) = now"
  shows "concat (map (\<lambda>i. fst (ok_value (fst
         (list_all_keys (word_of_nat (i * k)) (word_of_nat k) (regs i) m)))) [0..<n]) = map meta all
     \<and> sorted (map listing_key all) \<and> distinct all
     \<and> set all = {rec. \<exists>h. M h = Some rec \<and> now < delete_after (meta rec)}"
proof (intro conjI)
  have same: "live_sorted now (regs i) = all" for i
    unfolding assms(3) by (rule live_sorted_unique) (simp_all add: assms(1,2))
  have page: "fst (ok_value (fst (list_all_keys (word_of_nat (i * k)) (word_of_nat k) (regs i) m)))
      = map meta (take k (drop (i * k) all))" if "i < n" for i
  proof -
    have "i * k \<le> n * k" "k \<le> n * k"
      using that by (simp_all add: less_imp_le)
    then have "i * k < 2 ^ 64" "k < 2 ^ 64"
      using assms(5) by linarith+
    then have "unat (word_of_nat (i * k) :: usize) = i * k" "unat (word_of_nat k :: usize) = k"
      by (simp_all only: unat_of_nat) (simp_all add: take_bit_nat_eq_self)
    then show ?thesis
      using same [of i] by (simp add: list_all_keys_eq [OF assms(1)] assms(6) del: of_nat_mult)
  qed
  then have "map (\<lambda>i. fst (ok_value (fst (list_all_keys (word_of_nat (i * k)) (word_of_nat k) (regs i) m)))) [0..<n]
      = map (\<lambda>i. map meta (take k (drop (i * k) all))) [0..<n]"
    by (simp del: of_nat_mult)
  then show "concat (map (\<lambda>i. fst (ok_value (fst
         (list_all_keys (word_of_nat (i * k)) (word_of_nat k) (regs i) m)))) [0..<n]) = map meta all"
    using assms(4) by (simp only: concat_pages_map) simp
  show "sorted (map listing_key all)" "distinct all"
    "set all = {rec. \<exists>h. M h = Some rec \<and> now < delete_after (meta rec)}"
    using live_sorted_props [OF assms(1), of now 0]
    by (simp_all add: assms(2) unexpired_eq_Some flip: assms(3))
qed

theorem listing_pages_witness:
  "fst (ok_value (fst (list_all_keys 0 1
       \<lparr>keys = [(ref_handle, ref_record (Binding ref_suite (ref_public 5)))], poisoned = False\<rparr>
       (machine_init ref_clock)))) = [meta (ref_record (Binding ref_suite (ref_public 5)))]"
proof -
  let ?reg = "\<lparr>keys = [(ref_handle, ref_record (Binding ref_suite (ref_public 5)))], poisoned = False\<rparr>"
  have wf: "registry_wf ?reg"
    by (simp add: registry_wf_def hm_wf_def)
  have all: "live_sorted (ref_clock 0) ?reg = [ref_record (Binding ref_suite (ref_public 5))]"
    by (simp add: live_sorted_def live_records_def hm_values_def ref_clock_def nanos_per_sec_def)
  show ?thesis
    using listing_pages [of "\<lambda>_. ?reg", OF wf refl all [symmetric], of 1 1 "machine_init ref_clock"]
    by (simp add: machine_init_def)
qed

section \<open>Telemetry and status codes\<close>

text \<open>
  \<^verbatim>\<open>key_manager_init_telemetry\<close>: the first call decides the service name, which is the given name
  when it is valid UTF-8 and the default otherwise, never empty; it installs the sanitized panic
  hook. Every later call, with any argument, changes nothing.
\<close>

theorem init_telemetry_first_wins:
  fixes w :: "'e world"
  assumes "TELEMETRY w = telemetry_default" and "valid_buf p n w"
    and "key_manager_init_telemetry_ffi p n w = (Returns (), w')"
    and "key_manager_init_telemetry_ffi q k w' = (Returns (), w'')"
  shows "TELEMETRY w'' = TELEMETRY w' \<and> PANIC_HOOK (TELEMETRY w')
     \<and> get_service_name (TELEMETRY w') = (if is_null p \<or> n = 0 then ''key_protection_service''
          else case from_utf8 (buf p n w) of None \<Rightarrow> ''key_protection_service'' | Some s \<Rightarrow> s)
     \<and> get_service_name (TELEMETRY w') \<noteq> []"
proof -
  have later: "TELEMETRY w'' = TELEMETRY w'" if "\<exists>a t. TELEMETRY w' = key_manager_init_telemetry a t"
    using assms(4) that by (auto simp: key_manager_init_telemetry_ffi_def init_telemetry_once
        from_raw_parts_def split: if_splits option.splits obj.splits)
  let ?arg = "if is_null p \<or> n = 0 then None else Some (buf p n w)"
  have first: "TELEMETRY w' = key_manager_init_telemetry ?arg telemetry_default"
    using assms(1-3) by (auto simp: key_manager_init_telemetry_ffi_def from_raw_parts_valid split: if_splits)
  have "buf p n w \<noteq> []" if "n \<noteq> 0"
    using buf_length [OF assms(2)] that by (metis list.size(3) unat_eq_zero)
  then have "get_service_name (TELEMETRY w') = (if is_null p \<or> n = 0 then ''key_protection_service''
          else case from_utf8 (buf p n w) of None \<Rightarrow> ''key_protection_service'' | Some s \<Rightarrow> s)"
    by (auto simp: first get_service_name_def init_telemetry_SERVICE_NAME telemetry_default_def)
  moreover have "PANIC_HOOK (TELEMETRY w')"
    by (simp add: first key_manager_init_telemetry_def install_sanitized_panic_hook_def Let_def)
  moreover have "get_service_name (TELEMETRY w') \<noteq> []"
    unfolding first by (rule init_service_name_nonempty) (simp add: telemetry_default_def)
  ultimately show ?thesis
    using later first by blast
qed

theorem init_telemetry_first_wins_witness:
  "get_service_name (TELEMETRY (snd (key_manager_init_telemetry_ffi 0 0 (ref_world ([] :: unit list)))))
     = ''key_protection_service''"
proof -
  have null: "key_manager_init_telemetry_ffi 0 0 w
      = (Returns (), w\<lparr>TELEMETRY := key_manager_init_telemetry None (TELEMETRY w)\<rparr>)" for w :: "unit world"
    by (simp add: key_manager_init_telemetry_ffi_def is_null_def)
  have "TELEMETRY (ref_world ([] :: unit list)) = telemetry_default"
    and "valid_buf 0 0 (ref_world ([] :: unit list))"
    by (simp_all add: ref_world_def init_world_def valid_buf_def)
  from init_telemetry_first_wins [OF this null null] show ?thesis
    unfolding null by simp
qed

text \<open>
  The counting wrapper can be decoded: when the closure returns counts that are not negative and
  proper error statuses, a negative result determines the status of the failure and a result that is
  not negative is the count.
\<close>

theorem ffi_call_i32_decodes:
  assumes "\<forall>v. fst (f w) = Ok v \<longrightarrow> 0 \<le> sint v" and "\<forall>s. fst (f w) = Err s \<longrightarrow> s \<noteq> StatusUnspecified"
    and "ffi_call_i32 op f w = (Returns v, w')"
  shows "(0 \<le> sint v \<longleftrightarrow> fst (f w) = Ok v)
     \<and> (sint v < 0 \<longleftrightarrow> (\<exists>s. v = - status_as_i32 s \<and> (fst (f w) = Err s \<or> s = InternalError \<and> fst (f w) = Panicked)))
     \<and> (\<forall>s t. v = - status_as_i32 s \<longrightarrow> v = - status_as_i32 t \<longrightarrow> s = t)"
proof -
  have inj: "\<forall>s t. v = - status_as_i32 s \<longrightarrow> v = - status_as_i32 t \<longrightarrow> s = t"
    by (metis neg_equal_iff_equal status_as_i32_inj)
  consider (ok) "fst (f w) = Ok v" | (err) s where "fst (f w) = Err s" "v = - status_as_i32 s"
    | (panic) "fst (f w) = Panicked" "v = - status_as_i32 InternalError"
    using assms(3) by (auto simp: ffi_call_i32_def ffi_call_i32_with_reporter_def split: outcome.splits prod.splits)
  then show ?thesis
  proof cases
    case ok
    then show ?thesis
      using assms(1) neg_status_negative inj by auto
  next
    case err
    then have "sint v < 0"
      using assms(2) neg_status_negative by blast
    then show ?thesis using err inj by auto
  next
    case panic
    then have "sint v < 0"
      using neg_status_negative by blast
    then show ?thesis using panic inj by auto
  qed
qed

theorem ffi_call_i32_decodes_witness:
  "fst (ffi_call_i32 EnumerateKemKeys (errM NotFound) (ref_world ([] :: unit list))) = Returns (- 4)
     \<and> sint (- 4 :: i32) < 0"
  using ffi_call_i32_decodes [of "errM NotFound" "ref_world ([] :: unit list)" EnumerateKemKeys "- 4"]
  by (auto simp: ffi_call_i32_def ffi_call_i32_with_reporter_def errM_def)

end
