(* ===== verification/Key_Release.thy ===== *)
theory Key_Release
  imports Kps_Core Ws_Core Library_Properties
begin

text \<open>
  The purpose of the system, across its two custody cores: a client that encapsulates a secret to a
  KEM public key of the key protection service has it delivered to the workload that holds the binding
  key, and the key protection service hands it out only re-encrypted to that binding key.
\<close>

section \<open>The sending side\<close>

lemma decaps_Ok_length:
  assumes "hkdf_spec E" and "decaps E sk enc m = (Ok ss, m')"
  shows "length (as_slice ss) = 32"
  using assms decaps_secret_length
  by (auto simp: decaps_def decaps_internal_def split: PrivateKey.splits)

lemma decaps_state: "decaps E sk enc m = (fst (decaps E sk enc m'), m)"
  by (cases sk) (simp add: decaps_def decaps_internal_def x25519_decaps_internal_def labeled_expand_def Let_def basicM_defs ok_orM_def
      bindM_def split: option.splits)

lemma hpke_seal_total:
  assumes "hpke_spec E" and "suite_supported E algo"
  shows "\<exists>enc ct m'. hpke_seal E (fst (key_pair E n)) pt aad algo m = (Ok (enc, ct), m')
     \<and> length enc = 32 \<and> length ct = length (as_slice pt) + 16"
proof -
  obtain pk sk where kp: "Kem_generate_keypair E X25519HkdfSha256_Kem n = (pk, sk)"
    by fastforce
  obtain enc ct m' where "x25519_hpke_seal_internal E (X25519PublicKey pk) pt aad algo m = (Ok (enc, ct), m')"
    using seal_total [OF assms kp] by blast
  from this seal_lengths [OF assms(1) this] show ?thesis
    by (auto simp: key_pair_def kp hpke_seal_def hpke_seal_internal_def)
qed

lemma decap_seals_secret:
  fixes w :: "'e world"
  assumes "hpke_spec E" and "x25519_spec E" and "hkdf_spec E"
    and "core_inv (kps_record E) w" and "usable E w"
    and "decap_present uuid_bytes enc_key 32 out_enc 32 out_ct 48"
    and "decap_safe uuid_bytes enc_key 32 aad aad_len out_enc 32 out_ct 48 w"
    and "contents w (Uuid (buf uuid_bytes 16 w)) = Some rec" and "clock w (ticks w) < delete_after (meta rec)"
    and "spec (meta rec) = KemWithBindingPub algo kem_pk (fst (key_pair E n))"
    and "encap E kem_pk m = (Ok (ss, buf enc_key 32 w), m')"
  obtains w' v u where "key_manager_decap_and_seal E uuid_bytes enc_key 32 aad aad_len out_enc 32 out_ct 48 w
       = (Returns Success, w')"
    and "hpke_seal E (fst (key_pair E n)) ss (aad_buf aad aad_len w) algo (v :: 'e world)
       = (Ok (buf out_enc 32 w', buf out_ct 48 w'), u)"
    and "length (as_slice ss) = 32" and "suite_supported E algo"
    and "mem w' = write_mem out_ct (buf out_ct 48 w') (write_mem out_enc (buf out_enc 32 w') (mem w))"
proof -
  let ?v = "looked_up (Uuid (buf uuid_bytes 16 w)) w"
  have rec: "record_ok E rec"
    using core_inv_contents [OF assms(4,8)] by (simp add: kps_record_def)
  then obtain i where "key_pair E i = (kem_pk, get_private_key rec)"
    using assms(10) by (auto simp: record_ok_def own_public_key_def)
  then have dec: "decaps E (get_private_key rec) (buf enc_key 32 w) ?v = (Ok ss, ?v)"
    by (rule decaps_encap_pair [OF assms(1,2) _ assms(11)])
  have ss: "length (as_slice ss) = 32"
    by (rule decaps_Ok_length [OF assms(3) dec])
  have supp: "suite_supported E algo"
    using rec assms(10) by (simp add: record_ok_def)
  obtain enc ct u where seal: "hpke_seal E (fst (key_pair E n)) ss (aad_buf aad aad_len w) algo ?v
      = (Ok (enc, ct), u)" and len: "length enc = 32" "length ct = 48"
    using hpke_seal_total [OF assms(1) supp, of n ss "aad_buf aad aad_len w" ?v] ss by auto
  have u: "mem u = mem w"
    using crypto_frame(3) [of E "fst (key_pair E n)" ss "aad_buf aad aad_len w" algo ?v] seal
    by auto
  let ?w' = "u\<lparr>mem := write_mem out_ct ct (write_mem out_enc enc (mem w))\<rparr>"
  have call: "key_manager_decap_and_seal E uuid_bytes enc_key 32 aad aad_len out_enc 32 out_ct 48 w
      = (Returns Success, ?w')"
    using assms(8-10) dec seal len u
    by (simp add: key_manager_decap_and_seal_def ffi_call_def ffi_call_with_reporter_def
        decap_and_seal_body_eq [OF assms(4-7) refl] reseal_def bindM_def updateM_def)
  have safe: "valid_buf out_enc 32 w" "valid_buf out_ct 48 w" "out_enc \<noteq> out_ct"
    using assms(7) by (auto simp: decap_safe_def)
  have "buf out_enc 32 ?w' = enc"
    by (rule buf_write_mem [OF safe(1)]) (use safe(3) len in auto)
  moreover have "buf out_ct 48 ?w' = ct"
    by (rule buf_write_mem [of _ _ "w\<lparr>mem := write_mem out_enc enc (mem w)\<rparr>"])
      (use safe(2,3) len in \<open>auto simp: valid_buf_def\<close>)
  ultimately show thesis
    using that [OF call] seal ss supp by simp
qed

section \<open>The receiving side\<close>

lemma open_recovers:
  fixes w :: "'e world"
  assumes "core_inv (ws_record E) w" and "usable E w"
    and "open_present uuid_bytes enc ct out 32"
    and "open_safe uuid_bytes enc enc_len ct ct_len aad aad_len out 32 w"
    and "contents w (Uuid (buf uuid_bytes 16 w)) = Some rec" and "clock w (ticks w) < delete_after (meta rec)"
    and "\<And>v :: 'e world. hpke_open E (get_private_key rec) (buf enc enc_len w) (buf ct ct_len w)
       (aad_buf aad aad_len w) (spec_algo (spec (meta rec))) v = (Ok pt, v)"
    and "length (as_slice pt) = 32"
  shows "\<exists>w'. key_manager_open E uuid_bytes enc enc_len ct ct_len aad aad_len out 32 w = (Returns Success, w')
     \<and> buf out 32 w' = as_slice pt"
proof -
  let ?w' = "(looked_up (Uuid (buf uuid_bytes 16 w)) w)\<lparr>mem := write_mem out (as_slice pt) (mem w)\<rparr>"
  have "key_manager_open E uuid_bytes enc enc_len ct ct_len aad aad_len out 32 w = (Returns Success, ?w')"
    using assms(5-8) by (simp add: key_manager_open_def ffi_call_def ffi_call_with_reporter_def
        open_body_eq [OF assms(1-4) refl] bindM_def updateM_def)
  moreover have "buf out 32 ?w' = as_slice pt"
    by (rule buf_write_mem [of _ _ w]) (use assms(4,8) in \<open>auto simp: open_safe_def\<close>)
  ultimately show ?thesis by blast
qed

section \<open>A reference delivery\<close>

text \<open>A client's secret in the reference environment, and the memories of the two callers.\<close>

abbreviation (input) ref_bound_spec :: KeySpec where
  "ref_bound_spec \<equiv> KemWithBindingPub ref_suite (ref_public 5) (ref_public 5)"

lemma ref_bound_stored_inv: "core_inv (kps_record ref_env) (ref_stored ref_bound_spec es)"
  by (rule ref_stored_inv)
    (simp add: kps_record_def ref_record_ok own_public_key_def, simp add: ref_record_def ref_public_def)

lemma ref_stored_mem:
  assumes "core_inv P (ref_stored sp es)"
  shows "core_inv P ((ref_stored sp es)\<lparr>mem := M\<rparr>)" "usable ref_env ((ref_stored sp es)\<lparr>mem := M\<rparr>)"
    "contents ((ref_stored sp es)\<lparr>mem := M\<rparr>) ref_handle = Some (ref_record sp)"
    "clock ((ref_stored sp es)\<lparr>mem := M\<rparr>) (ticks ((ref_stored sp es)\<lparr>mem := M\<rparr>)) < 60 * nanos_per_sec"
  using assms core_inv_same [of "(ref_stored sp es)\<lparr>mem := M\<rparr>" "ref_stored sp es" P]
  by (simp_all add: usable_def ref_stored_contents ref_clock_def nanos_per_sec_def)
    (simp add: ref_stored_def)

lemma buf_whole: "mem w p = Some (Bytes bs) \<Longrightarrow> length bs = unat n \<Longrightarrow> buf p n w = bs"
  by (auto simp: buf_def)

lemma ref_client:
  "\<exists>ss enc m'. encap ref_env (ref_public 5) (machine_init ref_clock) = (Ok (ss, enc), m') \<and> length enc = 32"
proof -
  obtain ss enc m' where encap: "encap ref_env (ref_public 5) (machine_init ref_clock) = (Ok (ss, enc), m')"
    using ref_encap by blast
  have "decaps ref_env (PrivateKey_from (SecretBox (replicate 32 5))) enc m' = (Ok ss, m')"
    using decaps_encap_pair [OF ref_hpke_spec ref_x25519_spec ref_key_pair [of 5] encap, of m'] by simp
  then show ?thesis
    using encap by (auto simp: decaps_def decaps_internal_def PrivateKey_from_def x25519_decaps_internal_rfc
        split: if_splits)
qed

end
