(* ===== verification/Transition_Systems.thy ===== *)
theory Transition_Systems
  imports Main
begin

text \<open>
  Transition systems: the states that are reachable from an initial one, and the locale
  \<open>invariant_system\<close>, which gives an invariant of all of them from one that steps keep. The two custody
  cores and the registry shared by threads are instances. A session feeds a list of inputs to a system that
  replies to each; the locale \<open>indistinguishable\<close> gives equal replies of two sessions from a relation that
  single replies keep.
\<close>

inductive reachable :: "('w \<Rightarrow> bool) \<Rightarrow> ('w \<Rightarrow> 'w \<Rightarrow> bool) \<Rightarrow> 'w \<Rightarrow> bool" for init step where
  reachable_init: "init w \<Longrightarrow> reachable init step w"
| reachable_step: "reachable init step w \<Longrightarrow> step w w' \<Longrightarrow> reachable init step w'"

locale invariant_system =
  fixes init :: "'w \<Rightarrow> bool" and step :: "'w \<Rightarrow> 'w \<Rightarrow> bool" and inv :: "'w \<Rightarrow> bool"
  assumes inv_init: "init w \<Longrightarrow> inv w"
    and inv_step: "inv w \<Longrightarrow> step w w' \<Longrightarrow> inv w'"
begin

lemma reachable_inv: "reachable init step w \<Longrightarrow> inv w"
  by (induction rule: reachable.induct) (auto intro: inv_init inv_step)

end

fun session :: "('i \<Rightarrow> 'w \<Rightarrow> 'o \<times> 'w) \<Rightarrow> 'i list \<Rightarrow> 'w \<Rightarrow> 'o list \<times> 'w" where
  "session run [] w = ([], w)"
| "session run (i # inputs) w =
     (case run i w of (reply, w') \<Rightarrow> case session run inputs w' of (replies, w'') \<Rightarrow> (reply # replies, w''))"

lemma session_replies_all:
  assumes "\<And>i w. i \<in> set inputs \<Longrightarrow> I w \<Longrightarrow> P (fst (run i w)) \<and> I (snd (run i w))" and "I w"
  shows "list_all P (fst (session run inputs w))"
  using assms
proof (induction inputs arbitrary: w)
  case (Cons i inputs)
  have "P (fst (run i w))" and "I (snd (run i w))"
    using Cons.prems by auto
  then show ?case
    using Cons.IH [of "snd (run i w)"] Cons.prems(1) by (auto split: prod.splits)
qed simp

text \<open>A condition on each input and the state it meets.\<close>

fun throughout :: "('i \<Rightarrow> 'w \<Rightarrow> bool) \<Rightarrow> ('i \<Rightarrow> 'w \<Rightarrow> 'o \<times> 'w) \<Rightarrow> 'i list \<Rightarrow> 'w \<Rightarrow> bool" where
  "throughout P run [] w = True"
| "throughout P run (i # inputs) w = (P i w \<and> throughout P run inputs (snd (run i w)))"

locale indistinguishable =
  fixes same :: "'w \<Rightarrow> 'w \<Rightarrow> bool" and run :: "'i \<Rightarrow> 'w \<Rightarrow> 'o \<times> 'w" and allowed :: "'i \<Rightarrow> 'w \<Rightarrow> bool"
  assumes reply: "same w v \<Longrightarrow> allowed i w \<Longrightarrow> fst (run i w) = fst (run i v) \<and> same (snd (run i w)) (snd (run i v))"
begin

lemma session_replies:
  assumes "same w v" and "throughout allowed run inputs w"
  shows "fst (session run inputs w) = fst (session run inputs v)
    \<and> same (snd (session run inputs w)) (snd (session run inputs v))"
  using assms
proof (induction inputs arbitrary: w v)
  case (Cons i inputs)
  then have "fst (run i w) = fst (run i v)" and "same (snd (run i w)) (snd (run i v))"
    using reply [of w v i] by auto
  then show ?case
    using Cons.IH [of "snd (run i w)" "snd (run i v)"] Cons.prems(2) by (auto split: prod.splits)
qed simp

end

end
