(* ===== verification/Arc_Registry.thy ===== *)
theory Arc_Registry
  imports Transition_Systems Registry_History
begin

text \<open>
  The registry as threads share it: \<^verbatim>\<open>Arc<RwLock<HashMap<KeyHandle, Arc<KeyRecord>>>>\<close>. The other
  theories store the records in the map itself. Here the map holds reference-counted pointers, a lookup
  hands out one more of them, and a record is dropped when the last pointer to it goes, which may be long
  after it was removed from the map and in another thread.

  \<^item> \<open>heap\<close> maps an address to a record and its strong count. An address stands for one allocation and is
    not used again. Dereferencing, cloning or dropping a pointer whose allocation is gone is undefined
    behaviour. The abort of \<^verbatim>\<open>Arc::clone\<close> at \<^verbatim>\<open>isize::MAX\<close> references is not modelled.
  \<^item> \<open>stack\<close> holds the \<^verbatim>\<open>Arc<KeyRecord>\<close> a thread has between its \<^verbatim>\<open>get_key\<close> or \<^verbatim>\<open>remove_key\<close> and the end
    of its call. No exported function holds two at a time.
  \<^item> \<open>born\<close> lists the records in the order of their allocation. It is a history variable: no operation
    reads it but the allocator, for its length.

  Each registry operation is one step, because it holds the lock from beginning to end; the steps of
  different threads interleave in any order. The proofs count references: \<open>arc_inv\<close> says that the count of
  every allocation is the number of pointers to it in the map, on the stacks, and in a list of pointers
  that are in flight inside an operation.
\<close>

section \<open>Reference counting\<close>

type_synonym arc = nat
type_synonym thread = nat

record arc_world = machine +
  heap :: "arc \<Rightarrow> (KeyRecord \<times> nat) option"
  shared :: "(KeyHandle, arc) hash_map"
  lock_poisoned :: bool
  stack :: "(thread, arc) hash_map"
  born :: "KeyRecord list"

definition Arc_new :: "KeyRecord \<Rightarrow> (Status, arc_world, arc) rust" where
  "Arc_new rec s = (Ok (length (born s)),
     s\<lparr>heap := (heap s)(length (born s) \<mapsto> (rec, 1)), born := born s @ [rec]\<rparr>)"

definition Arc_deref :: "arc \<Rightarrow> (Status, arc_world, KeyRecord) rust" where
  "Arc_deref a s = (case heap s a of None \<Rightarrow> (Undefined, s) | Some (rec, _) \<Rightarrow> (Ok rec, s))"

definition Arc_clone :: "arc \<Rightarrow> (Status, arc_world, arc) rust" where
  "Arc_clone a s = (case heap s a of
       None \<Rightarrow> (Undefined, s)
     | Some (rec, n) \<Rightarrow> (Ok a, s\<lparr>heap := (heap s)(a \<mapsto> (rec, Suc n))\<rparr>))"

definition Arc_drop :: "('s, 'r, 'p) env \<Rightarrow> arc \<Rightarrow> (Status, arc_world, unit) rust" where
  "Arc_drop E a s = (case heap s a of
       None \<Rightarrow> (Undefined, s)
     | Some (rec, n) \<Rightarrow>
         if n \<le> 1 then (Ok (), (KeyRecord_drop E rec s)\<lparr>heap := (heap s)(a := None)\<rparr>)
         else (Ok (), s\<lparr>heap := (heap s)(a \<mapsto> (rec, n - 1))\<rparr>))"

fun Arc_drop_all :: "('s, 'r, 'p) env \<Rightarrow> arc list \<Rightarrow> (Status, arc_world, unit) rust" where
  "Arc_drop_all E [] = returnM ()"
| "Arc_drop_all E (a # as) = bindM (Arc_drop E a) (\<lambda>_. Arc_drop_all E as)"

fun Arc_deref_all :: "arc list \<Rightarrow> (Status, arc_world, KeyRecord list) rust" where
  "Arc_deref_all [] = returnM []"
| "Arc_deref_all (a # as) =
     bindM (Arc_deref a) (\<lambda>rec. bindM (Arc_deref_all as) (\<lambda>recs. returnM (rec # recs)))"

section \<open>Registry operations\<close>

definition arc_add_key :: "('s, 'r, 'p) env \<Rightarrow> KeyRecord \<Rightarrow> (Status, arc_world, unit) rust" where
  "arc_add_key E rec s =
     (if lock_poisoned s then unwindM (KeyRecord_drop E rec) panicM s
      else bindM (Arc_new rec) (\<lambda>a s1.
        case hm_insert (meta_id (meta rec)) a (shared s1) of
          (old, m) \<Rightarrow> Arc_drop_all E (case old of None \<Rightarrow> [] | Some b \<Rightarrow> [b]) (s1\<lparr>shared := m\<rparr>)) s)"

definition arc_remove_key :: "KeyHandle \<Rightarrow> (Status, arc_world, arc option) rust" where
  "arc_remove_key h s =
     (if lock_poisoned s then panicM s
      else case hm_remove h (shared s) of (old, m) \<Rightarrow> (Ok old, s\<lparr>shared := m\<rparr>))"

definition arc_remove_all_keys :: "('s, 'r, 'p) env \<Rightarrow> (Status, arc_world, unit) rust" where
  "arc_remove_all_keys E s =
     (if lock_poisoned s then panicM s
      else Arc_drop_all E (hm_values (shared s)) (s\<lparr>shared := []\<rparr>))"

definition arc_get_key :: "KeyHandle \<Rightarrow> (Status, arc_world, arc option) rust" where
  "arc_get_key h s =
     (if lock_poisoned s then panicM s
      else case hm_get h (shared s) of
        None \<Rightarrow> (Ok None, s)
      | Some a \<Rightarrow>
          bindM (Arc_deref a) (\<lambda>rec.
          bindM Instant_now (\<lambda>now.
          if now < delete_after (meta rec) then bindM (Arc_clone a) (\<lambda>b. returnM (Some b))
          else returnM None)) s)"

text \<open>
  \<^verbatim>\<open>HashMap::retain\<close> of the reaper: each entry is inspected and dropped at once if its time is up. The map
  is out of the shared state meanwhile, which no other thread sees, since the lock is held.
\<close>

fun arc_retain :: "('s, 'r, 'p) env \<Rightarrow> instant \<Rightarrow> (KeyHandle, arc) hash_map \<Rightarrow>
    (Status, arc_world, (KeyHandle, arc) hash_map) rust" where
  "arc_retain E now [] = returnM []"
| "arc_retain E now ((h, a) # m) =
     bindM (Arc_deref a) (\<lambda>rec.
     if now < delete_after (meta rec)
     then bindM (arc_retain E now m) (\<lambda>m'. returnM ((h, a) # m'))
     else bindM (Arc_drop E a) (\<lambda>_. arc_retain E now m))"

definition arc_reaper_sweep :: "('s, 'r, 'p) env \<Rightarrow> (Status, arc_world, unit) rust" where
  "arc_reaper_sweep E =
     bindM Instant_now (\<lambda>now s.
       if lock_poisoned s then (Ok (), s)
       else bindM (arc_retain E now (shared s)) (\<lambda>m. updateM (shared_update (\<lambda>_. m))) (s\<lparr>shared := []\<rparr>))"

definition arc_list_all_keys :: "usize \<Rightarrow> usize \<Rightarrow> (Status, arc_world, KeyMetadata list \<times> usize) rust" where
  "arc_list_all_keys offset limit s =
     (if lock_poisoned s then panicM s
      else bindM Instant_now (\<lambda>now.
        bindM (Arc_deref_all (hm_values (shared s))) (\<lambda>recs.
        let refs = filter (\<lambda>rec. now < delete_after (meta rec)) recs in
        returnM (map meta (take (unat limit) (drop (unat offset) (sort_key listing_key refs))),
                 word_of_nat (length refs)))) s)"

section \<open>Threads\<close>

datatype thread_op =
    TAdd KeyRecord
  | TRemove KeyHandle
  | TFind KeyHandle
  | TUse
  | TDrop
  | TClear
  | TSweep
  | TList usize usize

datatype thread_result =
    RDone
  | RArc "arc option"
  | RRecord KeyRecord
  | RPage "KeyMetadata list" usize

definition push :: "thread \<Rightarrow> arc option \<Rightarrow> (Status, arc_world, thread_result) rust" where
  "push t r s = (Ok (RArc r), case r of None \<Rightarrow> s | Some a \<Rightarrow> s\<lparr>stack := (t, a) # stack s\<rparr>)"

definition held :: "thread \<Rightarrow> arc_world \<Rightarrow> arc option" where
  "held t s = hm_get t (stack s)"

fun arc_exec :: "('s, 'r, 'p) env \<Rightarrow> thread \<Rightarrow> thread_op \<Rightarrow> (Status, arc_world, thread_result) rust" where
  "arc_exec E t (TAdd rec) = bindM (arc_add_key E rec) (\<lambda>_. returnM RDone)"
| "arc_exec E t (TRemove h) = bindM (arc_remove_key h) (push t)"
| "arc_exec E t (TFind h) = bindM (arc_get_key h) (push t)"
| "arc_exec E t TUse = (\<lambda>s. case held t s of
      None \<Rightarrow> (Undefined, s)
    | Some a \<Rightarrow> bindM (Arc_deref a) (\<lambda>rec. returnM (RRecord rec)) s)"
| "arc_exec E t TDrop = (\<lambda>s. case held t s of
      None \<Rightarrow> (Undefined, s)
    | Some a \<Rightarrow> bindM (Arc_drop E a) (\<lambda>_. returnM RDone) (s\<lparr>stack := snd (hm_remove t (stack s))\<rparr>))"
| "arc_exec E t TClear = bindM (arc_remove_all_keys E) (\<lambda>_. returnM RDone)"
| "arc_exec E t TSweep = bindM (arc_reaper_sweep E) (\<lambda>_. returnM RDone)"
| "arc_exec E t (TList offset limit) =
     bindM (arc_list_all_keys offset limit) (\<lambda>(page, total). returnM (RPage page total))"

text \<open>
  When a thread may take a step: it uses and drops only what it holds, and looks up or removes only when it
  holds nothing.
\<close>

fun enabled :: "thread \<Rightarrow> thread_op \<Rightarrow> arc_world \<Rightarrow> bool" where
  "enabled t TUse s \<longleftrightarrow> held t s \<noteq> None"
| "enabled t TDrop s \<longleftrightarrow> held t s \<noteq> None"
| "enabled t (TRemove h) s \<longleftrightarrow> held t s = None"
| "enabled t (TFind h) s \<longleftrightarrow> held t s = None"
| "enabled t _ s \<longleftrightarrow> True"

text \<open>The operation on the registry that a step performs, if it performs one.\<close>

fun history_op :: "thread_op \<Rightarrow> registry_op list" where
  "history_op (TAdd rec) = [OpAdd rec]"
| "history_op (TRemove h) = [OpRemove h]"
| "history_op (TFind h) = [OpFind h]"
| "history_op TClear = [OpClear]"
| "history_op TSweep = [OpSweep]"
| "history_op _ = []"

text \<open>
  One step of a thread, with the operations it adds to the history: an operation above, or work that does
  not touch the registry while time goes on.
\<close>

inductive arc_step :: "('s, 'r, 'p) env \<Rightarrow> thread \<Rightarrow> registry_op list \<Rightarrow> arc_world \<Rightarrow> arc_world \<Rightarrow> bool" for E t where
  arc_exec: "enabled t op s \<Longrightarrow> arc_exec E t op s = (r, s') \<Longrightarrow> arc_step E t (history_op op) s s'"
| arc_other: "ticks s \<le> i \<Longrightarrow> arc_step E t [] s (s\<lparr>ticks := i, draws := j, syscalls := k\<rparr>)"

definition arc_started :: "arc_world \<Rightarrow> bool" where
  "arc_started s \<longleftrightarrow> heap s = Map.empty \<and> shared s = [] \<and> \<not> lock_poisoned s \<and> stack s = []
     \<and> born s = [] \<and> released s = []"

inductive arc_history :: "('s, 'r, 'p) env \<Rightarrow> registry_op list \<Rightarrow> arc_world \<Rightarrow> bool" for E where
  history_start: "arc_started s \<Longrightarrow> arc_history E [] s"
| history_step: "arc_history E ops s \<Longrightarrow> arc_step E t new s s' \<Longrightarrow> arc_history E (ops @ new) s'"

definition any_thread :: "('s, 'r, 'p) env \<Rightarrow> arc_world \<Rightarrow> arc_world \<Rightarrow> bool" where
  "any_thread E s s' \<longleftrightarrow> (\<exists>t ops. arc_step E t ops s s')"

definition other_threads :: "('s, 'r, 'p) env \<Rightarrow> thread \<Rightarrow> arc_world \<Rightarrow> arc_world \<Rightarrow> bool" where
  "other_threads E t s s' \<longleftrightarrow> (\<exists>t' ops. t' \<noteq> t \<and> arc_step E t' ops s s')"

text \<open>The records a history has put into the registry.\<close>

fun added_records :: "registry_op list \<Rightarrow> KeyRecord list" where
  "added_records [] = []"
| "added_records (OpAdd rec # ops) = rec # added_records ops"
| "added_records (_ # ops) = added_records ops"

section \<open>The invariant\<close>

definition refs :: "arc list \<Rightarrow> arc_world \<Rightarrow> arc \<Rightarrow> nat" where
  "refs L s a = count_list (hm_values (shared s)) a + count_list (hm_values (stack s)) a + count_list L a"

definition erased :: "('s, 'r, 'p) env \<Rightarrow> arc_world \<Rightarrow> arc \<Rightarrow> bytes" where
  "erased E s a = zeroize E (mmap (private_key (born s ! a)))"

definition dead :: "arc list \<Rightarrow> arc_world \<Rightarrow> arc set" where
  "dead L s = {a. a < length (born s) \<and> refs L s a = 0}"

definition arc_inv :: "('s, 'r, 'p) env \<Rightarrow> arc list \<Rightarrow> arc_world \<Rightarrow> bool" where
  "arc_inv E L s \<longleftrightarrow> hm_wf (shared s) \<and> hm_wf (stack s) \<and> \<not> lock_poisoned s
     \<and> (\<forall>a. heap s a = (if refs L s a = 0 then None else Some (born s ! a, refs L s a)))
     \<and> (\<forall>a. refs L s a \<noteq> 0 \<longrightarrow> a < length (born s))
     \<and> (\<forall>(h, a) \<in> set (shared s). meta_id (meta (born s ! a)) = h)
     \<and> mset (released s) = image_mset (erased E s) (mset_set (dead L s))"

text \<open>The registry of the other theories that a state stands for.\<close>

definition abs_registry :: "arc_world \<Rightarrow> KeyRegistry" where
  "abs_registry s = \<lparr>keys = map (\<lambda>(h, a). (h, born s ! a)) (shared s), poisoned = lock_poisoned s\<rparr>"

section \<open>Lemmas: counting\<close>

lemma count_values_remove:
  assumes "hm_wf m"
  shows "count_list (hm_values m) x
       = count_list (hm_values (snd (hm_remove k m))) x + (if hm_get k m = Some x then 1 else 0)"
  using assms
proof (induction m)
  case (Cons kv m)
  have "map_of m (fst kv) = None"
    using Cons.prems by (simp add: hm_wf_def map_of_eq_None_iff)
  then show ?case
    using Cons by (auto simp: hm_wf_def hm_values_def hm_remove_def hm_get_def)
qed (simp add: hm_values_def hm_remove_def hm_get_def)

lemma values_insert: "hm_values (snd (hm_insert k v m)) = v # hm_values (snd (hm_remove k m))"
  by (simp add: hm_values_def hm_insert_def hm_remove_def)

lemma count_opt_list: "count_list (case r of None \<Rightarrow> [] | Some b \<Rightarrow> [b]) x = (if r = Some x then 1 else 0)"
  by (cases r) auto

lemma values_Cons [simp]: "hm_values (kv # m) = snd kv # hm_values m" "hm_values [] = []"
  by (simp_all add: hm_values_def)

lemma hm_get_value: "hm_get k m = Some v \<Longrightarrow> 0 < count_list (hm_values m) v"
  by (induction m) (auto simp: hm_get_def hm_values_def split: if_splits)

lemma KeyRecord_drop_arc_world [simp]:
  "heap (KeyRecord_drop E rec s) = heap s" "shared (KeyRecord_drop E rec s) = shared s"
  "lock_poisoned (KeyRecord_drop E rec s) = lock_poisoned s" "stack (KeyRecord_drop E rec s) = stack s"
  "born (KeyRecord_drop E rec s) = born s"
  by (simp_all add: KeyRecord_drop_def Vault_drop_def)

lemma refs_frame [simp]:
  "refs L (s\<lparr>heap := hp\<rparr>) = refs L s"
  "refs L (s\<lparr>born := b\<rparr>) = refs L s"
  "refs L (s\<lparr>released := r\<rparr>) = refs L s"
  "refs L (KeyRecord_drop E rec s) = refs L s"
  by (simp_all add: refs_def fun_eq_iff)

lemma refs_Cons [simp]: "refs (a # L) s x = refs L s x + (if x = a then 1 else 0)"
  by (simp add: refs_def)

lemma erased_frame [simp]: "erased E (s\<lparr>heap := hp\<rparr>) = erased E s"
  by (simp add: erased_def fun_eq_iff)

text \<open>What dropping references changes.\<close>

definition only_frees :: "arc_world \<Rightarrow> arc_world \<Rightarrow> bool" where
  "only_frees s s' \<longleftrightarrow> shared s' = shared s \<and> stack s' = stack s \<and> born s' = born s
     \<and> lock_poisoned s' = lock_poisoned s \<and> clock s' = clock s \<and> ticks s' = ticks s"

lemma only_frees_trans: "only_frees s s1 \<Longrightarrow> only_frees s1 s2 \<Longrightarrow> only_frees s s2"
  by (simp add: only_frees_def)

lemma only_frees_refl: "only_frees s s"
  by (simp add: only_frees_def)

lemma only_freesD:
  assumes "only_frees s s'"
  shows "shared s' = shared s" "stack s' = stack s" "born s' = born s" "lock_poisoned s' = lock_poisoned s"
    "clock s' = clock s" "ticks s' = ticks s"
  using assms by (simp_all add: only_frees_def)

section \<open>Lemmas: moving references\<close>

lemma arc_invD:
  assumes "arc_inv E L s"
  shows "hm_wf (shared s)" "hm_wf (stack s)" "\<not> lock_poisoned s"
    "heap s a = (if refs L s a = 0 then None else Some (born s ! a, refs L s a))"
    "refs L s a \<noteq> 0 \<Longrightarrow> a < length (born s)"
    "(h, b) \<in> set (shared s) \<Longrightarrow> meta_id (meta (born s ! b)) = h"
    "mset (released s) = image_mset (erased E s) (mset_set (dead L s))"
  using assms by (auto simp: arc_inv_def)

text \<open>A change that only moves references between the map, the stacks and the operation.\<close>

lemma arc_inv_move:
  assumes "arc_inv E L s" and "\<And>a. refs L' s' a = refs L s a"
    and "heap s' = heap s" "born s' = born s" "released s' = released s" "lock_poisoned s' = lock_poisoned s"
    and "hm_wf (shared s')" "hm_wf (stack s')"
    and "\<And>h a. (h, a) \<in> set (shared s') \<Longrightarrow> meta_id (meta (born s ! a)) = h"
  shows "arc_inv E L' s'"
proof -
  have "dead L' s' = dead L s" and "erased E s' = erased E s"
    using assms by (auto simp: dead_def erased_def)
  then show ?thesis
    using assms by (auto simp: arc_inv_def)
qed

lemma arc_inv_insert:
  assumes "arc_inv E (a # L) s" and "hm_insert h a (shared s) = (old, m)"
    and "meta_id (meta (born s ! a)) = h"
  shows "arc_inv E ((case old of None \<Rightarrow> [] | Some b \<Rightarrow> [b]) @ L) (s\<lparr>shared := m\<rparr>)"
proof (rule arc_inv_move [OF assms(1)])
  note wf = arc_invD(1) [OF assms(1)]
  have m: "m = snd (hm_insert h a (shared s))" and old: "old = hm_get h (shared s)"
    using assms(2) hm.fst_insert [of h a "shared s"] by auto
  show "refs ((case old of None \<Rightarrow> [] | Some b \<Rightarrow> [b]) @ L) (s\<lparr>shared := m\<rparr>) x = refs (a # L) s x" for x
    using count_values_remove [OF wf, of x h]
    by (simp add: refs_def m old values_insert count_opt_list)
  show "hm_wf (shared (s\<lparr>shared := m\<rparr>))"
    by (simp add: m hm.wf_insert [OF wf])
  show "meta_id (meta (born s ! b)) = k" if "(k, b) \<in> set (shared (s\<lparr>shared := m\<rparr>))" for k b
    using that assms(3) arc_invD(6) [OF assms(1)] by (auto simp: m hm_insert_def)
qed (use arc_invD(2) [OF assms(1)] in simp_all)

lemma arc_inv_remove:
  assumes "arc_inv E L s" and "hm_remove h (shared s) = (old, m)"
  shows "arc_inv E ((case old of None \<Rightarrow> [] | Some b \<Rightarrow> [b]) @ L) (s\<lparr>shared := m\<rparr>)"
proof (rule arc_inv_move [OF assms(1)])
  note wf = arc_invD(1) [OF assms(1)]
  have m: "m = snd (hm_remove h (shared s))" and old: "old = hm_get h (shared s)"
    using assms(2) hm.fst_remove [of h "shared s"] by auto
  show "refs ((case old of None \<Rightarrow> [] | Some b \<Rightarrow> [b]) @ L) (s\<lparr>shared := m\<rparr>) x = refs L s x" for x
    using count_values_remove [OF wf, of x h] by (simp add: refs_def m old count_opt_list)
  show "hm_wf (shared (s\<lparr>shared := m\<rparr>))"
    by (simp add: m hm.wf_remove [OF wf])
  show "meta_id (meta (born s ! b)) = k" if "(k, b) \<in> set (shared (s\<lparr>shared := m\<rparr>))" for k b
    using that arc_invD(6) [OF assms(1)] by (auto simp: m hm_remove_def)
qed (use arc_invD(2) [OF assms(1)] in simp_all)

lemma arc_inv_take:
  "arc_inv E L s \<Longrightarrow> arc_inv E (hm_values (shared s) @ L) (s\<lparr>shared := []\<rparr>)"
  by (rule arc_inv_move [of E L s]) (auto simp: refs_def hm.wf_empty dest: arc_invD(2))

lemma arc_inv_put:
  assumes "arc_inv E (hm_values m @ L) s" and "shared s = []" and "hm_wf m"
    and "\<And>h a. (h, a) \<in> set m \<Longrightarrow> meta_id (meta (born s ! a)) = h"
  shows "arc_inv E L (s\<lparr>shared := m\<rparr>)"
  by (rule arc_inv_move [OF assms(1)]) (use assms arc_invD(2) [OF assms(1)] in \<open>auto simp: refs_def\<close>)

lemma arc_inv_push:
  assumes "arc_inv E (a # L) s" and "hm_get t (stack s) = None"
  shows "arc_inv E L (s\<lparr>stack := (t, a) # stack s\<rparr>)"
  by (rule arc_inv_move [OF assms(1)])
    (use assms(2) arc_invD(1,2,6) [OF assms(1)] in \<open>auto simp: refs_def hm_wf_def hm_get_def map_of_eq_None_iff\<close>)

lemma arc_inv_pop:
  assumes "arc_inv E L s" and "hm_get t (stack s) = Some a"
  shows "arc_inv E (a # L) (s\<lparr>stack := snd (hm_remove t (stack s))\<rparr>)"
proof (rule arc_inv_move [OF assms(1)])
  note wf = arc_invD(2) [OF assms(1)]
  show "refs (a # L) (s\<lparr>stack := snd (hm_remove t (stack s))\<rparr>) x = refs L s x" for x
    using count_values_remove [OF wf, of x t] assms(2) by (simp add: refs_def)
qed (use arc_invD(1,2,6) [OF assms(1)] hm.wf_remove in \<open>simp_all\<close>)

section \<open>Lemmas: the primitives\<close>

lemma Arc_deref_inv:
  assumes "arc_inv E L s" and "refs L s a \<noteq> 0"
  shows "Arc_deref a s = (Ok (born s ! a), s)"
  using arc_invD(4) [OF assms(1), of a] assms(2) by (simp add: Arc_deref_def)

lemma Arc_new_inv:
  assumes "arc_inv E L s"
  shows "arc_inv E (length (born s) # L)
      (s\<lparr>heap := (heap s)(length (born s) \<mapsto> (rec, 1)), born := born s @ [rec]\<rparr>)" (is "arc_inv E (?n # L) ?s'")
proof -
  note inv = arc_invD [OF assms]
  have fresh: "refs L s ?n = 0" using inv(5) [of ?n] by auto
  have "dead (?n # L) ?s' = dead L s"
    using fresh by (auto simp: dead_def less_Suc_eq)
  moreover have "image_mset (erased E ?s') (mset_set (dead L s)) = image_mset (erased E s) (mset_set (dead L s))"
    by (rule image_mset_cong) (auto simp: dead_def erased_def nth_append)
  moreover have "b < ?n" if "(h, b) \<in> set (shared s)" for h b
  proof -
    have "b \<in> set (hm_values (shared s))" using that by (force simp: hm_values_def)
    then have "refs L s b \<noteq> 0" by (simp add: refs_def count_list_0_iff)
    then show ?thesis by (rule inv(5))
  qed
  ultimately show ?thesis
    using assms fresh inv(5) unfolding arc_inv_def
    by (auto simp: nth_append less_Suc_eq split: if_splits)
qed

lemma Arc_clone_inv:
  assumes "arc_inv E L s" and "refs L s a \<noteq> 0"
  shows "\<exists>s'. Arc_clone a s = (Ok a, s') \<and> arc_inv E (a # L) s' \<and> s' = s\<lparr>heap := heap s'\<rparr>"
proof -
  let ?s' = "s\<lparr>heap := (heap s)(a \<mapsto> (born s ! a, Suc (refs L s a)))\<rparr>"
  have "dead (a # L) ?s' = dead L s"
    using assms(2) by (auto simp: dead_def)
  then have "arc_inv E (a # L) ?s'"
    using assms arc_invD(5) [OF assms] unfolding arc_inv_def by auto
  then show ?thesis
    using arc_invD(4) [OF assms(1), of a] assms(2) by (auto simp: Arc_clone_def)
qed

lemma Arc_drop_last_inv:
  assumes "arc_inv E (a # L) s" and "refs L s a = 0"
  shows "arc_inv E L ((KeyRecord_drop E (born s ! a) s)\<lparr>heap := (heap s)(a := None)\<rparr>)" (is "arc_inv E L ?s'")
proof -
  note inv = arc_invD [OF assms(1)]
  have a: "a < length (born s)" using inv(5) [of a] by simp
  then have "dead L ?s' = insert a (dead (a # L) s)" "a \<notin> dead (a # L) s" "finite (dead (a # L) s)"
    using assms(2) by (auto simp: dead_def split: if_splits)
  then have "mset_set (dead L ?s') = add_mset a (mset_set (dead (a # L) s))"
    by simp
  moreover have "erased E ?s' = erased E s" by (simp add: erased_def fun_eq_iff)
  ultimately have "mset (released ?s') = image_mset (erased E ?s') (mset_set (dead L ?s'))"
    using inv(7) by (simp add: erased_def)
  moreover have "heap ?s' x = (if refs L s x = 0 then None else Some (born s ! x, refs L s x))" for x
    using inv(4) [of x] assms(2) by (simp split: if_splits)
  moreover have "x < length (born s)" if "refs L s x \<noteq> 0" for x
    using inv(5) [of x] that by simp
  ultimately show ?thesis
    using inv(1-3,6) unfolding arc_inv_def by auto
qed

lemma Arc_drop_inv:
  assumes "arc_inv E (a # L) s"
  shows "\<exists>s'. Arc_drop E a s = (Ok (), s') \<and> arc_inv E L s'
     \<and> only_frees s s'"
proof -
  note inv = arc_invD [OF assms]
  have h: "heap s a = Some (born s ! a, Suc (refs L s a))" using inv(4) [of a] by simp
  show ?thesis
  proof (cases "refs L s a = 0")
    case True
    then show ?thesis
      using h Arc_drop_last_inv [OF assms True]
      by (simp add: Arc_drop_def only_frees_def)
  next
    case False
    let ?s' = "s\<lparr>heap := (heap s)(a \<mapsto> (born s ! a, refs L s a))\<rparr>"
    have "dead L ?s' = dead (a # L) s"
      using False by (auto simp: dead_def)
    moreover have "x < length (born s)" if "refs L s x \<noteq> 0" for x
      using inv(5) [of x] that by simp
    moreover have "heap ?s' x = (if refs L s x = 0 then None else Some (born s ! x, refs L s x))" for x
      using inv(4) [of x] False by simp
    ultimately have "arc_inv E L ?s'"
      using inv(1-3,6,7) unfolding arc_inv_def by auto
    then show ?thesis using h False
      by (simp add: Arc_drop_def only_frees_def)
  qed
qed

section \<open>Lemmas: lists of references\<close>

lemma refs_append: "refs (as @ L) s a = refs L s a + count_list as a"
  by (simp add: refs_def)

lemma arc_inv_mset:
  assumes "mset L = mset L'"
  shows "arc_inv E L s = arc_inv E L' s"
proof -
  have "refs L s = refs L' s"
    using assms by (auto simp: refs_def fun_eq_iff simp flip: count_mset)
  then show ?thesis by (simp add: arc_inv_def dead_def)
qed

lemma Arc_drop_all_inv:
  "arc_inv E (as @ L) s \<Longrightarrow> \<exists>s'. Arc_drop_all E as s = (Ok (), s') \<and> arc_inv E L s'
     \<and> only_frees s s'"
proof (induction as arbitrary: s)
  case (Cons a as)
  obtain s1 where s1: "Arc_drop E a s = (Ok (), s1)" "arc_inv E (as @ L) s1"
    "only_frees s s1"
    using Arc_drop_inv [of E a "as @ L" s] Cons.prems by auto
  obtain s2 where "Arc_drop_all E as s1 = (Ok (), s2)" "arc_inv E L s2"
    "only_frees s1 s2"
    using Cons.IH [OF s1(2)] by blast
  then show ?case
    using s1 by (auto simp: bindM_def intro: only_frees_trans)
qed (simp add: returnM_def only_frees_refl)

lemma Arc_deref_all_inv:
  "arc_inv E L s \<Longrightarrow> \<forall>a \<in> set as. refs L s a \<noteq> 0 \<Longrightarrow>
   Arc_deref_all as s = (Ok (map ((!) (born s)) as), s)"
  by (induction as) (auto simp: returnM_def bindM_def Arc_deref_inv)

lemma arc_retain_inv:
  "arc_inv E (hm_values m @ L) s \<Longrightarrow>
   \<exists>s'. arc_retain E now m s = (Ok (filter (\<lambda>(h, a). now < delete_after (meta (born s ! a))) m), s')
     \<and> arc_inv E (hm_values (filter (\<lambda>(h, a). now < delete_after (meta (born s ! a))) m) @ L) s'
     \<and> only_frees s s'"
proof (induction E now m arbitrary: s L rule: arc_retain.induct)
  case (2 E now h a m)
  have d: "Arc_deref a s = (Ok (born s ! a), s)"
    using Arc_deref_inv [OF "2.prems"] by (simp add: refs_def)
  show ?case
  proof (cases "now < delete_after (meta (born s ! a))")
    case True
    have "arc_inv E (hm_values m @ a # L) s"
      using "2.prems" arc_inv_mset [of "hm_values ((h, a) # m) @ L" "hm_values m @ a # L" E s] by simp
    then obtain s' where s': "arc_retain E now m s
        = (Ok (filter (\<lambda>(h, a). now < delete_after (meta (born s ! a))) m), s')"
      "arc_inv E (hm_values (filter (\<lambda>(h, a). now < delete_after (meta (born s ! a))) m) @ a # L) s'"
      "only_frees s s'"
      using "2.IH"(1) [of _ "a # L" s] True by blast
    have "arc_inv E (a # hm_values (filter (\<lambda>(h, a). now < delete_after (meta (born s ! a))) m) @ L) s'"
      by (rule arc_inv_mset [THEN iffD1, OF _ s'(2)]) simp
    then show ?thesis
      using s'(1,3) d True by (simp add: bindM_def returnM_def)
  next
    case False
    obtain s1 where s1: "Arc_drop E a s = (Ok (), s1)" "arc_inv E (hm_values m @ L) s1"
      "only_frees s s1"
      using Arc_drop_inv [of E a "hm_values m @ L" s] "2.prems" by auto
    have "born s1 = born s" by (rule only_freesD(3) [OF s1(3)])
    then obtain s2 where "arc_retain E now m s1
        = (Ok (filter (\<lambda>(h, a). now < delete_after (meta (born s ! a))) m), s2)"
      "arc_inv E (hm_values (filter (\<lambda>(h, a). now < delete_after (meta (born s ! a))) m) @ L) s2"
      "only_frees s1 s2"
      using "2.IH"(2) [OF _ s1(2)] False by auto
    then show ?thesis
      using s1 d False by (auto simp: bindM_def intro: only_frees_trans)
  qed
qed (simp add: returnM_def only_frees_refl)

section \<open>Lemmas: the operations\<close>

lemma shared_refs: "(h, a) \<in> set (shared s) \<Longrightarrow> refs L s a \<noteq> 0"
  by (force simp: refs_def count_list_0_iff hm_values_def)

lemma held_refs: "held t s = Some a \<Longrightarrow> refs L s a \<noteq> 0"
  using hm_get_value [of t "stack s" a] by (simp add: held_def refs_def)

lemma keys_abs: "keys (abs_registry s) = map (\<lambda>(h, a). (h, born s ! a)) (shared s)"
  "poisoned (abs_registry s) = lock_poisoned s"
  by (simp_all add: abs_registry_def)

lemma abs_registry_eq:
  "shared s' = shared s \<Longrightarrow> born s' = born s \<Longrightarrow> lock_poisoned s' = lock_poisoned s \<Longrightarrow>
   abs_registry s' = abs_registry s"
  by (simp add: abs_registry_def)

lemma abs_registry_wf:
  assumes "arc_inv E L s"
  shows "registry_wf (abs_registry s)"
proof -
  have "map fst (keys (abs_registry s)) = map fst (shared s)"
    by (auto simp: keys_abs)
  then have "hm_wf (keys (abs_registry s))"
    using arc_invD(1) [OF assms] by (simp add: hm_wf_def)
  then show ?thesis
    using arc_invD(3,6) [OF assms] by (auto simp: registry_wf_def keys_abs)
qed

lemma lookup_abs: "lookup (abs_registry s) h = map_option ((!) (born s)) (hm_get h (shared s))"
  by (simp add: lookup_def hm_get_def keys_abs map_of_map)

lemma filter_abs:
  "filter (\<lambda>(h, rec). p h rec) (map (\<lambda>(h, a). (h, f a)) m) = map (\<lambda>(h, a). (h, f a)) (filter (\<lambda>(h, a). p h (f a)) m)"
  by (induction m) auto

lemma arc_add_key_inv:
  assumes "arc_inv E [] s"
  shows "\<exists>s'. arc_add_key E rec s = (Ok (), s') \<and> arc_inv E [] s' \<and> stack s' = stack s
     \<and> born s' = born s @ [rec] \<and> clock s' = clock s \<and> ticks s' = ticks s \<and> \<not> lock_poisoned s'
     \<and> keys (abs_registry s') = snd (hm_insert (meta_id (meta rec)) rec (keys (abs_registry s)))"
proof -
  let ?n = "length (born s)" and ?h = "meta_id (meta rec)"
  let ?s1 = "s\<lparr>heap := (heap s)(?n \<mapsto> (rec, 1)), born := born s @ [rec]\<rparr>"
  obtain old m where ins: "hm_insert ?h ?n (shared s) = (old, m)" by fastforce
  have "arc_inv E ((case old of None \<Rightarrow> [] | Some b \<Rightarrow> [b]) @ []) (?s1\<lparr>shared := m\<rparr>)"
    by (rule arc_inv_insert [OF Arc_new_inv [OF assms]]) (use ins in auto)
  then obtain s' where s': "Arc_drop_all E (case old of None \<Rightarrow> [] | Some b \<Rightarrow> [b]) (?s1\<lparr>shared := m\<rparr>) = (Ok (), s')"
    "arc_inv E [] s'" "only_frees (?s1\<lparr>shared := m\<rparr>) s'"
    using Arc_drop_all_inv by blast
  have "arc_add_key E rec s = (Ok (), s')"
    using s'(1) ins arc_invD(3) [OF assms] by (simp add: arc_add_key_def bindM_def Arc_new_def)
  moreover have "b < ?n" if "(j, b) \<in> set (shared s)" for j b
    using arc_invD(5) [OF assms] shared_refs [OF that] by blast
  then have "map (\<lambda>(j, b). (j, (born s @ [rec]) ! b)) (filter (\<lambda>(j, b). j \<noteq> ?h) (shared s))
      = map (\<lambda>(j, b). (j, born s ! b)) (filter (\<lambda>(j, b). j \<noteq> ?h) (shared s))"
    by (auto simp: nth_append)
  then have "keys (abs_registry s') = snd (hm_insert ?h rec (keys (abs_registry s)))"
    using ins by (auto simp: keys_abs only_freesD [OF s'(3)] hm_insert_def
        filter_abs [of "\<lambda>j _. j \<noteq> ?h"])
  ultimately show ?thesis
    using s'(2) only_freesD [OF s'(3)] arc_invD(3) [OF s'(2)] by auto
qed

lemma arc_remove_key_inv:
  assumes "arc_inv E [] s"
  shows "\<exists>s'. arc_remove_key h s = (Ok (hm_get h (shared s)), s')
     \<and> arc_inv E (case hm_get h (shared s) of None \<Rightarrow> [] | Some a \<Rightarrow> [a]) s'
     \<and> stack s' = stack s \<and> born s' = born s \<and> clock s' = clock s \<and> ticks s' = ticks s \<and> \<not> lock_poisoned s'
     \<and> keys (abs_registry s') = snd (hm_remove h (keys (abs_registry s)))"
proof -
  obtain old m where rem: "hm_remove h (shared s) = (old, m)" by fastforce
  then have old: "old = hm_get h (shared s)" and m: "m = filter (\<lambda>(j, a). j \<noteq> h) (shared s)"
    by (simp_all add: hm_remove_def hm_get_def)
  have "arc_inv E (case old of None \<Rightarrow> [] | Some b \<Rightarrow> [b]) (s\<lparr>shared := m\<rparr>)"
    using arc_inv_remove [OF assms rem] by simp
  then show ?thesis
    using rem arc_invD(3) [OF assms] by (simp add: arc_remove_key_def old keys_abs m
        hm_remove_def [of h "map _ _"] filter_abs [of "\<lambda>j _. j \<noteq> h"])
qed

lemma arc_remove_all_keys_inv:
  assumes "arc_inv E [] s"
  shows "\<exists>s'. arc_remove_all_keys E s = (Ok (), s') \<and> arc_inv E [] s' \<and> stack s' = stack s
     \<and> born s' = born s \<and> clock s' = clock s \<and> ticks s' = ticks s \<and> \<not> lock_poisoned s' \<and> keys (abs_registry s') = []"
proof -
  obtain s' where s': "Arc_drop_all E (hm_values (shared s)) (s\<lparr>shared := []\<rparr>) = (Ok (), s')"
    "arc_inv E [] s'" "only_frees (s\<lparr>shared := []\<rparr>) s'"
    using Arc_drop_all_inv [OF arc_inv_take [OF assms]] by blast
  then show ?thesis
    using arc_invD(3) [OF assms] only_freesD [OF s'(3)] by (simp add: arc_remove_all_keys_def keys_abs)
qed

lemma arc_reaper_sweep_inv:
  assumes "arc_inv E [] s"
  shows "\<exists>s'. arc_reaper_sweep E s = (Ok (), s') \<and> arc_inv E [] s' \<and> stack s' = stack s
     \<and> born s' = born s \<and> clock s' = clock s \<and> ticks s' = Suc (ticks s) \<and> \<not> lock_poisoned s'
     \<and> keys (abs_registry s') = hm_retain (\<lambda>rec. clock s (ticks s) < delete_after (meta rec)) (keys (abs_registry s))"
proof -
  let ?s1 = "s\<lparr>ticks := Suc (ticks s)\<rparr>" and ?now = "clock s (ticks s)"
  let ?m = "filter (\<lambda>(h, a). ?now < delete_after (meta (born s ! a))) (shared s)"
  have i1: "arc_inv E [] ?s1"
    by (rule arc_inv_move [OF assms]) (use arc_invD [OF assms] in \<open>auto simp: refs_def\<close>)
  have b1: "born (?s1\<lparr>shared := []\<rparr>) = born s" by simp
  obtain s' where s': "arc_retain E ?now (shared ?s1) (?s1\<lparr>shared := []\<rparr>) = (Ok ?m, s')"
    "arc_inv E (hm_values ?m @ []) s'" "only_frees (?s1\<lparr>shared := []\<rparr>) s'"
    using arc_retain_inv [OF arc_inv_take [OF i1], of ?now, unfolded b1] by auto
  have "arc_inv E [] (s'\<lparr>shared := ?m\<rparr>)"
  proof (rule arc_inv_put [OF s'(2)])
    show "shared s' = []" by (simp add: only_freesD [OF s'(3)])
    show "hm_wf ?m"
      using arc_invD(1) [OF assms] by (simp add: hm_wf_def distinct_map_fst_filter)
    show "meta_id (meta (born s' ! a)) = h" if "(h, a) \<in> set ?m" for h a
      using that arc_invD(6) [OF assms] by (simp add: only_freesD [OF s'(3)])
  qed
  then show ?thesis
    using s'(1) arc_invD(3) [OF assms] only_freesD [OF s'(3)]
    by (simp add: arc_reaper_sweep_def bindM_def [of "arc_retain E _ _"] updateM_def keys_abs hm_retain_def
        filter_abs [of "\<lambda>_ rec. ?now < delete_after (meta rec)"])
qed

text \<open>The pointer a lookup hands out.\<close>

definition live_arc :: "KeyHandle \<Rightarrow> arc_world \<Rightarrow> arc option" where
  "live_arc h s = (case hm_get h (shared s) of
       None \<Rightarrow> None
     | Some a \<Rightarrow> if clock s (ticks s) < delete_after (meta (born s ! a)) then Some a else None)"

lemma live_arc_abs: "map_option ((!) (born s)) (live_arc h s) = unexpired (clock s (ticks s)) (lookup (abs_registry s) h)"
  by (auto simp: live_arc_def lookup_abs unexpired_def split: option.splits)

lemma arc_get_key_inv:
  assumes "arc_inv E [] s"
  shows "\<exists>s'. arc_get_key h s = (Ok (live_arc h s), s') \<and> arc_inv E (case live_arc h s of None \<Rightarrow> [] | Some a \<Rightarrow> [a]) s'
     \<and> stack s' = stack s \<and> born s' = born s \<and> shared s' = shared s \<and> clock s' = clock s
     \<and> ticks s' = (if hm_get h (shared s) = None then ticks s else Suc (ticks s)) \<and> \<not> lock_poisoned s'"
proof (cases "hm_get h (shared s)")
  case None
  then show ?thesis
    using assms arc_invD(3) [OF assms] by (simp add: arc_get_key_def live_arc_def)
next
  case (Some a)
  let ?s1 = "s\<lparr>ticks := Suc (ticks s)\<rparr>"
  have refs: "refs [] s a \<noteq> 0"
    by (rule shared_refs [OF map_of_SomeD]) (use Some in \<open>simp add: hm_get_def\<close>)
  have d: "Arc_deref a s = (Ok (born s ! a), s)"
    by (rule Arc_deref_inv [OF assms refs])
  have i1: "arc_inv E [] ?s1"
    by (rule arc_inv_move [OF assms]) (use arc_invD [OF assms] in \<open>auto simp: refs_def\<close>)
  moreover have "refs [] ?s1 a \<noteq> 0" using refs by (simp add: refs_def)
  ultimately obtain s' where s': "Arc_clone a ?s1 = (Ok a, s')" "arc_inv E [a] s'" "s' = ?s1\<lparr>heap := heap s'\<rparr>"
    using Arc_clone_inv by blast
  have "born s' = born s" "shared s' = shared s" "stack s' = stack s" "clock s' = clock s"
    "ticks s' = Suc (ticks s)" "lock_poisoned s' = lock_poisoned s"
    by (subst s'(3), simp)+
  then show ?thesis
    using s'(1,2) i1 d Some arc_invD(3) [OF assms]
    by (simp add: arc_get_key_def live_arc_def bindM_def [of "Arc_deref a"] bindM_def [of "Arc_clone a"] returnM_def)
qed

lemma arc_list_all_keys_inv:
  assumes "arc_inv E [] s"
  shows "arc_list_all_keys offset limit s = list_all_keys offset limit (abs_registry s) s"
proof -
  let ?s1 = "s\<lparr>ticks := Suc (ticks s)\<rparr>"
  have i1: "arc_inv E [] ?s1"
    by (rule arc_inv_move [OF assms]) (use arc_invD [OF assms] in \<open>auto simp: refs_def\<close>)
  have "\<forall>a \<in> set (hm_values (shared s)). refs [] ?s1 a \<noteq> 0"
    by (simp add: refs_def count_list_0_iff)
  then have "Arc_deref_all (hm_values (shared s)) ?s1 = (Ok (map ((!) (born s)) (hm_values (shared s))), ?s1)"
    using Arc_deref_all_inv [OF i1] by simp
  moreover have "map ((!) (born s)) (hm_values (shared s)) = hm_values (keys (abs_registry s))"
    by (auto simp: hm_values_def keys_abs)
  ultimately show ?thesis
    using arc_invD(3) [OF assms]
    by (simp add: arc_list_all_keys_def list_all_keys_def keys_abs(2) bindM_def [of "Arc_deref_all _"]
        live_records_def Let_def)
qed

section \<open>Lemmas: the steps\<close>

lemma abs_registry_keys:
  "\<not> lock_poisoned s' \<Longrightarrow> keys (abs_registry s') = ks \<Longrightarrow> \<not> lock_poisoned s \<Longrightarrow>
   abs_registry s' = (abs_registry s)\<lparr>keys := ks\<rparr>"
  by (simp add: abs_registry_def)

lemma push_inv:
  assumes "arc_inv E (case r of None \<Rightarrow> [] | Some a \<Rightarrow> [a]) s" and "held t s = None"
  shows "\<exists>s'. push t r s = (Ok (RArc r), s') \<and> arc_inv E [] s' \<and> shared s' = shared s \<and> born s' = born s
     \<and> clock s' = clock s \<and> ticks s' = ticks s \<and> lock_poisoned s' = lock_poisoned s \<and> held t s' = r
     \<and> (\<forall>t'. t' \<noteq> t \<longrightarrow> held t' s' = held t' s)"
  using assms arc_inv_push [of E _ "[]" s t] by (cases r) (auto simp: push_def held_def hm_get_def)

lemma held_other: "t' \<noteq> t \<Longrightarrow> hm_get t' (snd (hm_remove t m)) = hm_get t' m"
  by (simp add: hm_get_def hm_remove_def map_of_filter_key)

lemma registry_run_single: "registry_run E [op] reg = registry_step E op reg"
proof -
  have "registry_run E [] = returnM" by (rule ext) simp
  then show ?thesis by (metis bindM_basic(5) registry_run.simps(2))
qed

declare registry_run.simps(2) [simp del]

text \<open>What a step does, in one statement: it succeeds, keeps the invariant, and is the sequential operation.\<close>

definition step_ok :: "('s, 'r, 'p) env \<Rightarrow> thread \<Rightarrow> thread_op \<Rightarrow> arc_world \<Rightarrow> arc_world \<Rightarrow> bool" where
  "step_ok E t op s s' \<longleftrightarrow> arc_inv E [] s' \<and> clock s' = clock s \<and> ticks s \<le> ticks s'
     \<and> born s' = born s @ added_records (history_op op)
     \<and> (\<exists>m. registry_run E (history_op op) (abs_registry s) s = (Ok (abs_registry s'), m)
          \<and> clock m = clock s \<and> ticks m \<le> ticks s')
     \<and> (\<forall>t'. t' \<noteq> t \<longrightarrow> held t' s' = held t' s)"

lemma exec_add_ok:
  assumes "arc_inv E [] s"
  shows "\<exists>v s'. arc_exec E t (TAdd rec) s = (Ok v, s') \<and> step_ok E t (TAdd rec) s s'"
proof -
  obtain s' where s': "arc_add_key E rec s = (Ok (), s')" "arc_inv E [] s'" "stack s' = stack s"
    "born s' = born s @ [rec]" "clock s' = clock s" "ticks s' = ticks s" "\<not> lock_poisoned s'"
    "keys (abs_registry s') = snd (hm_insert (meta_id (meta rec)) rec (keys (abs_registry s)))"
    using arc_add_key_inv [OF assms] by blast
  note abs = abs_registry_keys [OF s'(7,8) arc_invD(3) [OF assms]]
  show ?thesis
    using s' arc_invD(3) [OF assms] abs
    by (auto simp: step_ok_def registry_run_single bindM_def [of "arc_add_key E rec"] returnM_def held_def add_key_def keys_abs(2)
        split: prod.splits)
qed

lemma exec_remove_ok:
  assumes "arc_inv E [] s" and "held t s = None"
  shows "\<exists>v s'. arc_exec E t (TRemove h) s = (Ok v, s') \<and> step_ok E t (TRemove h) s s'"
proof -
  obtain s1 where s1: "arc_remove_key h s = (Ok (hm_get h (shared s)), s1)"
    "arc_inv E (case hm_get h (shared s) of None \<Rightarrow> [] | Some a \<Rightarrow> [a]) s1"
    "stack s1 = stack s" "born s1 = born s" "clock s1 = clock s" "ticks s1 = ticks s" "\<not> lock_poisoned s1"
    "keys (abs_registry s1) = snd (hm_remove h (keys (abs_registry s)))"
    using arc_remove_key_inv [OF assms(1)] by blast
  obtain s' where s': "push t (hm_get h (shared s)) s1 = (Ok (RArc (hm_get h (shared s))), s')" "arc_inv E [] s'"
    "shared s' = shared s1" "born s' = born s1" "clock s' = clock s1" "ticks s' = ticks s1"
    "lock_poisoned s' = lock_poisoned s1" "\<forall>t'. t' \<noteq> t \<longrightarrow> held t' s' = held t' s1"
    using push_inv [OF s1(2)] assms(2) s1(3) by (auto simp: held_def)
  have "abs_registry s' = (abs_registry s)\<lparr>keys := snd (hm_remove h (keys (abs_registry s)))\<rparr>"
    using abs_registry_keys [OF s1(7,8) arc_invD(3) [OF assms(1)]] abs_registry_eq [OF s'(3,4,7)] by simp
  then show ?thesis
    using s1 s' arc_invD(3) [OF assms(1)]
    by (auto simp: step_ok_def registry_run_single bindM_def [of "arc_remove_key h"] bindM_def [of "remove_key h _"] returnM_def
        held_def remove_key_def keys_abs(2) split: prod.splits)
qed

lemma exec_find_ok:
  assumes "arc_inv E [] s" and "held t s = None"
  shows "\<exists>s'. arc_exec E t (TFind h) s = (Ok (RArc (live_arc h s)), s') \<and> step_ok E t (TFind h) s s'
     \<and> held t s' = live_arc h s"
proof -
  obtain s1 where s1: "arc_get_key h s = (Ok (live_arc h s), s1)"
    "arc_inv E (case live_arc h s of None \<Rightarrow> [] | Some a \<Rightarrow> [a]) s1"
    "stack s1 = stack s" "born s1 = born s" "shared s1 = shared s" "clock s1 = clock s"
    "ticks s1 = (if hm_get h (shared s) = None then ticks s else Suc (ticks s))" "\<not> lock_poisoned s1"
    using arc_get_key_inv [OF assms(1)] by blast
  obtain s' where s': "push t (live_arc h s) s1 = (Ok (RArc (live_arc h s)), s')" "arc_inv E [] s'"
    "shared s' = shared s1" "born s' = born s1" "clock s' = clock s1" "ticks s' = ticks s1"
    "lock_poisoned s' = lock_poisoned s1" "held t s' = live_arc h s"
    "\<forall>t'. t' \<noteq> t \<longrightarrow> held t' s' = held t' s1"
    using push_inv [OF s1(2)] assms(2) s1(3) by (auto simp: held_def)
  have abs: "abs_registry s' = abs_registry s"
    using s1 s' arc_invD(3) [OF assms(1)] by (simp add: abs_registry_def)
  have "hm_get h (keys (abs_registry s)) = map_option ((!) (born s)) (hm_get h (shared s))"
    using lookup_abs [of s h] by (simp add: lookup_def)
  then show ?thesis
    using s1 s' abs arc_invD(3) [OF assms(1)]
    by (auto simp: step_ok_def registry_run_single bindM_def [of "arc_get_key h"] bindM_def [of "bindM _ _"] returnM_def
        held_def get_key_def keys_abs(2) split: option.splits)
qed

lemma exec_use_ok:
  assumes "arc_inv E [] s" and "held t s = Some a"
  shows "arc_exec E t TUse s = (Ok (RRecord (born s ! a)), s)"
  using Arc_deref_inv [OF assms(1) held_refs [OF assms(2)]] assms(2) by (simp add: bindM_def returnM_def)

lemma exec_drop_ok:
  assumes "arc_inv E [] s" and "held t s = Some a"
  shows "\<exists>v s'. arc_exec E t TDrop s = (Ok v, s') \<and> step_ok E t TDrop s s' \<and> held t s' = None"
proof -
  let ?s1 = "s\<lparr>stack := snd (hm_remove t (stack s))\<rparr>"
  obtain s' where s': "Arc_drop E a ?s1 = (Ok (), s')" "arc_inv E [] s'" "only_frees ?s1 s'"
    using Arc_drop_inv [OF arc_inv_pop [OF assms(1)]] assms(2) by (auto simp: held_def)
  have "abs_registry s' = abs_registry s"
    by (rule abs_registry_eq) (simp_all add: only_freesD [OF s'(3)])
  moreover have "held t s' = None"
    using only_freesD(2) [OF s'(3)] hm.get_remove_same [OF arc_invD(2) [OF assms(1)]] by (simp add: held_def)
  ultimately show ?thesis
    using s' only_freesD [OF s'(3)] assms(2)
    by (simp add: step_ok_def bindM_def returnM_def held_def held_other)
qed

lemma exec_clear_ok:
  assumes "arc_inv E [] s"
  shows "\<exists>v s'. arc_exec E t TClear s = (Ok v, s') \<and> step_ok E t TClear s s'"
proof -
  obtain s' where s': "arc_remove_all_keys E s = (Ok (), s')" "arc_inv E [] s'" "stack s' = stack s"
    "born s' = born s" "clock s' = clock s" "ticks s' = ticks s" "\<not> lock_poisoned s'" "keys (abs_registry s') = []"
    using arc_remove_all_keys_inv [OF assms] by blast
  note abs = abs_registry_keys [OF s'(7,8) arc_invD(3) [OF assms]]
  show ?thesis
    using s' arc_invD(3) [OF assms] abs
    by (simp add: step_ok_def registry_run_single bindM_def [of "arc_remove_all_keys E"] returnM_def held_def remove_all_keys_def keys_abs(2))
qed

lemma exec_sweep_ok:
  assumes "arc_inv E [] s"
  shows "\<exists>v s'. arc_exec E t TSweep s = (Ok v, s') \<and> step_ok E t TSweep s s'"
proof -
  obtain s' where s': "arc_reaper_sweep E s = (Ok (), s')" "arc_inv E [] s'" "stack s' = stack s"
    "born s' = born s" "clock s' = clock s" "ticks s' = Suc (ticks s)" "\<not> lock_poisoned s'"
    "keys (abs_registry s') = hm_retain (\<lambda>rec. clock s (ticks s) < delete_after (meta rec)) (keys (abs_registry s))"
    using arc_reaper_sweep_inv [OF assms] by blast
  note abs = abs_registry_keys [OF s'(7,8) arc_invD(3) [OF assms]]
  show ?thesis
    using s' arc_invD(3) [OF assms] abs
    by (simp add: step_ok_def registry_run_single bindM_def [of "arc_reaper_sweep E"] returnM_def held_def reaper_sweep_def keys_abs(2))
qed

lemma exec_list_ok:
  assumes "arc_inv E [] s"
  shows "\<exists>v s'. arc_exec E t (TList offset limit) s = (Ok v, s') \<and> step_ok E t (TList offset limit) s s'"
proof -
  let ?s' = "s\<lparr>ticks := Suc (ticks s)\<rparr>"
  have "arc_inv E [] ?s'"
    by (rule arc_inv_move [OF assms]) (use arc_invD [OF assms] in \<open>auto simp: refs_def\<close>)
  moreover have "abs_registry ?s' = abs_registry s"
    by (rule abs_registry_eq) simp_all
  ultimately show ?thesis
    by (simp add: bindM_def arc_list_all_keys_inv [OF assms] list_all_keys_eq [OF abs_registry_wf [OF assms]]
        returnM_def step_ok_def held_def)
qed

lemma arc_exec_ok:
  assumes "arc_inv E [] s" and "enabled t op s"
  shows "\<exists>v s'. arc_exec E t op s = (Ok v, s') \<and> step_ok E t op s s'"
proof (cases op)
  case TUse
  then obtain a where "held t s = Some a" using assms(2) by auto
  then show ?thesis
    using exec_use_ok [OF assms(1)] assms(1) TUse by (simp add: step_ok_def returnM_def)
next
  case TDrop
  then show ?thesis using exec_drop_ok [OF assms(1), of t] assms(2) by auto
next
  case (TFind h)
  then show ?thesis using exec_find_ok [OF assms(1), of t h] assms(2) by auto
next
  case (TRemove h)
  then show ?thesis using exec_remove_ok [OF assms(1), of t h] assms(2) by auto
qed (use exec_add_ok [OF assms(1)] exec_clear_ok [OF assms(1)] exec_sweep_ok [OF assms(1)]
    exec_list_ok [OF assms(1)] in \<open>simp_all only:\<close>)

end
