(* ===== verification/Arc_Properties.thy ===== *)
theory Arc_Properties
  imports Arc_Registry Reference_Env
begin

text \<open>
  What holds of the registry that threads share: no use after free, refinement of the map, every key erased
  exactly once, and a key in use is not disturbed by its destruction.
\<close>

section \<open>Histories\<close>

lemma arc_step_inv:
  assumes "arc_inv E [] s" and "arc_step E t ops s s'"
  shows "arc_inv E [] s' \<and> clock s' = clock s \<and> born s' = born s @ added_records ops
     \<and> (\<exists>m. registry_run E ops (abs_registry s) s = (Ok (abs_registry s'), m) \<and> clock m = clock s
          \<and> ticks m \<le> ticks s') \<and> (\<forall>t'. t' \<noteq> t \<longrightarrow> held t' s' = held t' s)"
  using assms(2)
proof (cases rule: arc_step.cases)
  case (arc_exec op r)
  then show ?thesis
    using arc_exec_ok [OF assms(1), of t op] by (auto simp: step_ok_def)
next
  case (arc_other i j k)
  have "arc_inv E [] s'"
    by (rule arc_inv_move [OF assms(1)]) (use arc_other arc_invD [OF assms(1)] in \<open>auto simp: refs_def\<close>)
  moreover have "abs_registry s' = abs_registry s"
    by (rule abs_registry_eq) (simp_all add: arc_other)
  ultimately show ?thesis
    using arc_other by (auto simp: returnM_def held_def)
qed

lemma arc_started_inv: "arc_started s \<Longrightarrow> arc_inv E [] s"
  by (auto simp: arc_started_def arc_inv_def refs_def dead_def hm_wf_def)

interpretation arc_sys: invariant_system arc_started "any_thread E" "arc_inv E []"
  for E :: "('s, 'r, 'p) env"
  by unfold_locales (auto simp: any_thread_def arc_started_inv dest: arc_step_inv)

lemma added_records_append: "added_records (ops @ ops') = added_records ops @ added_records ops'"
  by (induction ops rule: added_records.induct) simp_all

lemma map_run_append: "map_run (ops @ ops') = fold map_step ops' (map_run ops)"
  by (simp add: map_run_def)

lemma history_reachable: "arc_history E ops s \<Longrightarrow> reachable arc_started (any_thread E) s"
  by (induction rule: arc_history.induct) (auto simp: any_thread_def intro: reachable_init reachable_step)

lemmas history_inv = arc_sys.reachable_inv [OF history_reachable]

lemma history_born: "arc_history E ops s \<Longrightarrow> born s = added_records ops"
proof (induction rule: arc_history.induct)
  case (history_step ops s t new s')
  then show ?case
    using arc_step_inv [OF history_inv [OF history_step(1)] history_step(2)] by (simp add: added_records_append)
qed (simp add: arc_started_def)

lemma stands_for_later:
  assumes "hist.stands_for reg m M" and "clock s = clock m" and "ticks m \<le> ticks s"
  shows "hist.stands_for reg s M"
  using assms monoD [of "clock m" "ticks m" "ticks s"] agree_from_later [of _ "lookup reg" M]
  by (auto simp: hist.stands_for_def)

lemma history_stands_for:
  "arc_history E ops s \<Longrightarrow> mono (clock s) \<Longrightarrow> hist.stands_for (abs_registry s) s (map_run ops)"
proof (induction rule: arc_history.induct)
  case (history_start s)
  then show ?case
    using abs_registry_wf [OF arc_started_inv [OF history_start(1)]]
    by (auto simp: hist.stands_for_def map_run_def lookup_abs arc_started_def agree_from_def hm_get_def)
next
  case (history_step ops s t new s')
  obtain m where m: "registry_run E new (abs_registry s) s = (Ok (abs_registry s'), m)" "clock m = clock s"
    "ticks m \<le> ticks s'" and c: "clock s' = clock s"
    using arc_step_inv [OF history_inv [OF history_step(1)] history_step(2)] by blast
  have "hist.stands_for (abs_registry s') m (map_run (ops @ new))"
    using registry_run_simulates [of "abs_registry s" s "map_run ops" E new] history_step c m(1)
    by (simp add: map_run_append)
  then show ?case
    by (rule stands_for_later) (simp_all add: m c)
qed

lemma others_keep:
  assumes "(other_threads E t)\<^sup>*\<^sup>* s s'" and "arc_inv E [] s"
  shows "arc_inv E [] s' \<and> held t s' = held t s \<and> (\<exists>more. born s' = born s @ more)"
  using assms
proof (induction rule: rtranclp_induct)
  case (step y z)
  obtain t' ops where "t' \<noteq> t" "arc_step E t' ops y z"
    using step(2) by (auto simp: other_threads_def)
  then show ?case
    using arc_step_inv [of E y t' ops z] step(3,4) by auto
qed simp

section \<open>A concrete run\<close>

text \<open>
  One key is added; thread 1 looks it up; thread 2 removes it and ends its call; thread 1 ends its call.
\<close>

definition ref_arc_start :: arc_world where
  "ref_arc_start = \<lparr>clock = ref_clock, ticks = 0, draws = 0, syscalls = 0, released = [],
     heap = Map.empty, shared = [], lock_poisoned = False, stack = [], born = []\<rparr>"

fun arc_run :: "(thread \<times> thread_op) list \<Rightarrow> arc_world \<Rightarrow> arc_world" where
  "arc_run [] s = s"
| "arc_run ((t, op) # ops) s = arc_run ops (snd (arc_exec ref_env t op s))"

abbreviation (input) ref_arc_record :: KeyRecord where
  "ref_arc_record \<equiv> ref_record (Binding ref_suite (ref_public 5))"

definition ref_arc_found :: arc_world where
  "ref_arc_found = arc_run [(1, TAdd ref_arc_record), (1, TFind ref_handle)] ref_arc_start"

definition ref_arc_removed :: arc_world where
  "ref_arc_removed = arc_run [(2, TRemove ref_handle), (2, TDrop)] ref_arc_found"

definition ref_arc_done :: arc_world where
  "ref_arc_done = arc_run [(1, TDrop)] ref_arc_removed"

lemmas arc_eval = arc_add_key_def arc_remove_key_def arc_get_key_def Arc_new_def Arc_deref_def Arc_clone_def
  Arc_drop_def push_def held_def hm_insert_def hm_remove_def hm_get_def bindM_def returnM_def Instant_now_def

lemma ref_arc_worlds:
  "ref_arc_found = ref_arc_start\<lparr>heap := [0 \<mapsto> (ref_arc_record, Suc (Suc 0))], shared := [(ref_handle, 0)],
     stack := [(1, 0)], born := [ref_arc_record], ticks := 1\<rparr>"
  "ref_arc_removed = ref_arc_found\<lparr>heap := [0 \<mapsto> (ref_arc_record, Suc 0)], shared := []\<rparr>"
  "ref_arc_done = ref_arc_removed\<lparr>heap := Map.empty, stack := [], released := [replicate 32 0]\<rparr>"
proof -
  show f: "ref_arc_found = ref_arc_start\<lparr>heap := [0 \<mapsto> (ref_arc_record, Suc (Suc 0))], shared := [(ref_handle, 0)],
     stack := [(1, 0)], born := [ref_arc_record], ticks := 1\<rparr>"
    by (simp add: ref_arc_found_def ref_arc_start_def arc_eval ref_record_def ref_clock_def nanos_per_sec_def)
  show r: "ref_arc_removed = ref_arc_found\<lparr>heap := [0 \<mapsto> (ref_arc_record, Suc 0)], shared := []\<rparr>"
    by (simp add: ref_arc_removed_def f ref_arc_start_def arc_eval)
  show "ref_arc_done = ref_arc_removed\<lparr>heap := Map.empty, stack := [], released := [replicate 32 0]\<rparr>"
    by (simp add: ref_arc_done_def r f ref_arc_start_def arc_eval KeyRecord_drop_def Vault_drop_def ref_env_def
        ref_record_def fun_eq_iff)
qed

lemma run_history:
  "arc_history E ops s \<Longrightarrow> enabled t op s \<Longrightarrow> arc_history E (ops @ history_op op) (snd (arc_exec E t op s))"
  by (metis arc_exec history_step prod.collapse)

lemma run_other: "enabled t' op s \<Longrightarrow> t' \<noteq> t \<Longrightarrow> other_threads E t s (snd (arc_exec E t' op s))"
  unfolding other_threads_def by (metis arc_exec prod.collapse)

lemma ref_arc_found_history: "arc_history ref_env [OpAdd ref_arc_record, OpFind ref_handle] ref_arc_found"
proof -
  have "arc_history ref_env [] ref_arc_start"
    by (rule history_start) (simp add: arc_started_def ref_arc_start_def)
  then have add: "arc_history ref_env [OpAdd ref_arc_record] (snd (arc_exec ref_env 1 (TAdd ref_arc_record) ref_arc_start))"
    using run_history [of ref_env "[]" ref_arc_start 1 "TAdd ref_arc_record"] by simp
  have en: "enabled 1 (TFind ref_handle) (snd (arc_exec ref_env 1 (TAdd ref_arc_record) ref_arc_start))"
    by (simp add: arc_eval ref_arc_start_def)
  show ?thesis
    using run_history [OF add en] by (simp add: ref_arc_found_def del: arc_exec.simps)
qed

lemma ref_arc_removed_history:
  "(other_threads ref_env 1)\<^sup>*\<^sup>* ref_arc_found ref_arc_removed"
  "arc_history ref_env [OpAdd ref_arc_record, OpFind ref_handle, OpRemove ref_handle] ref_arc_removed"
proof -
  let ?s = "snd (arc_exec ref_env 2 (TRemove ref_handle) ref_arc_found)"
  have en: "enabled 2 (TRemove ref_handle) ref_arc_found" "enabled 2 TDrop ?s"
    by (simp_all add: ref_arc_worlds(1) ref_arc_start_def arc_eval)
  have removed: "ref_arc_removed = snd (arc_exec ref_env 2 TDrop ?s)"
    by (simp add: ref_arc_removed_def del: arc_exec.simps)
  have "other_threads ref_env 1 ref_arc_found ?s" "other_threads ref_env 1 ?s ref_arc_removed"
    unfolding removed by (rule run_other; use en in simp)+
  then show "(other_threads ref_env 1)\<^sup>*\<^sup>* ref_arc_found ref_arc_removed"
    by (meson converse_rtranclp_into_rtranclp r_into_rtranclp)
  show "arc_history ref_env [OpAdd ref_arc_record, OpFind ref_handle, OpRemove ref_handle] ref_arc_removed"
    using run_history [OF run_history [OF ref_arc_found_history en(1)] en(2)] removed by (simp del: arc_exec.simps)
qed

lemma ref_arc_done_history:
  "arc_history ref_env [OpAdd ref_arc_record, OpFind ref_handle, OpRemove ref_handle] ref_arc_done"
proof -
  have en: "enabled 1 TDrop ref_arc_removed"
    by (simp add: ref_arc_worlds(1,2) ref_arc_start_def held_def hm_get_def)
  show ?thesis
    using run_history [OF ref_arc_removed_history(2) en] by (simp add: ref_arc_done_def del: arc_exec.simps)
qed

section \<open>Properties\<close>

text \<open>
  C19. No use after free, no double free and no panic. Whatever threads have looked up, removed, added, cleared
  and dropped before, in any interleaving with each other and with the reaper, every operation a thread may
  take next succeeds; none dereferences, clones or drops a pointer whose record is gone.
\<close>

theorem shared_registry_safe:
  assumes "reachable arc_started (any_thread E) s" and "enabled t op s"
  shows "\<exists>v s'. arc_exec E t op s = (Ok v, s')"
  using arc_exec_ok [OF arc_sys.reachable_inv [OF assms(1)] assms(2)] by blast

theorem shared_registry_safe_witness:
  "\<exists>v s'. arc_exec ref_env 1 TUse ref_arc_removed = (Ok v, s')"
  by (rule shared_registry_safe [OF history_reachable [OF ref_arc_removed_history(2)]])
    (simp add: ref_arc_worlds(1,2) held_def hm_get_def)

text \<open>
  C17. The shared registry refines a map with deadlines. After any interleaving of threads with the history
  \<open>ops\<close> of registry operations, a lookup finds what the map of that history holds for the handle if its
  deadline has not passed, and nothing otherwise, and the pointer it hands out dereferences to that record.
\<close>

theorem shared_registry_refines_map:
  assumes "arc_history E ops s" and "mono (clock s)" and "held t s = None"
  shows "case unexpired (clock s (ticks s)) (map_run ops h) of
      None \<Rightarrow> \<exists>s'. arc_exec E t (TFind h) s = (Ok (RArc None), s')
    | Some rec \<Rightarrow> \<exists>a s'. arc_exec E t (TFind h) s = (Ok (RArc (Some a)), s')
        \<and> arc_exec E t TUse s' = (Ok (RRecord rec), s')"
proof -
  note inv = history_inv [OF assms(1)]
  obtain s' where s': "arc_exec E t (TFind h) s = (Ok (RArc (live_arc h s)), s')" "step_ok E t (TFind h) s s'"
    "held t s' = live_arc h s"
    using exec_find_ok [OF inv assms(3)] by blast
  have found: "unexpired (clock s (ticks s)) (map_run ops h) = map_option ((!) (born s)) (live_arc h s)"
    using history_stands_for [OF assms(1,2)] by (simp add: live_arc_abs hist.stands_for_def agree_from_def)
  have "arc_exec E t TUse s' = (Ok (RRecord (born s ! a)), s')" if "live_arc h s = Some a" for a
    using exec_use_ok [of E s' t a] s'(2,3) that by (simp add: step_ok_def)
  then show ?thesis
    using s'(1) by (cases "live_arc h s") (auto simp: found simp del: arc_exec.simps)
qed

theorem shared_registry_refines_map_witness:
  "\<exists>a s'. arc_exec ref_env 2 (TFind ref_handle) ref_arc_found = (Ok (RArc (Some a)), s')
     \<and> arc_exec ref_env 2 TUse s' = (Ok (RRecord ref_arc_record), s')"
proof -
  have "mono (clock ref_arc_found)" and held: "held 2 ref_arc_found = None"
    by (simp_all add: ref_arc_worlds(1) ref_arc_start_def held_def hm_get_def ref_clock_def monoI)
  moreover have "unexpired (clock ref_arc_found (ticks ref_arc_found))
      (map_run [OpAdd ref_arc_record, OpFind ref_handle] ref_handle) = Some ref_arc_record"
    by (simp add: ref_arc_worlds(1) ref_arc_start_def map_run_def ref_record_def ref_clock_def nanos_per_sec_def)
  ultimately show ?thesis
    using shared_registry_refines_map [OF ref_arc_found_history, of 2 ref_handle] by (simp del: arc_exec.simps)
qed



text \<open>
  C20. A key in use stays. A thread that holds a record, found or removed, reads the same record after any steps
  of the other threads: destruction, clearing or reaping of the key in the meantime do not touch it.
\<close>

theorem held_key_stays:
  assumes "reachable arc_started (any_thread E) s" and "held t s = Some a"
    and "(other_threads E t)\<^sup>*\<^sup>* s s'"
  shows "\<exists>rec. arc_exec E t TUse s = (Ok (RRecord rec), s) \<and> arc_exec E t TUse s' = (Ok (RRecord rec), s')"
proof -
  note inv = arc_sys.reachable_inv [OF assms(1)]
  obtain more where inv': "arc_inv E [] s'" and held: "held t s' = Some a" and born: "born s' = born s @ more"
    using others_keep [OF assms(3) inv] assms(2) by auto
  have "a < length (born s)"
    using arc_invD(5) [OF inv] held_refs [OF assms(2)] by blast
  then show ?thesis
    using exec_use_ok [OF inv assms(2)] exec_use_ok [OF inv' held] born by (simp add: nth_append)
qed

theorem held_key_stays_witness:
  "shared ref_arc_removed = []
     \<and> (\<exists>rec. arc_exec ref_env 1 TUse ref_arc_found = (Ok (RRecord rec), ref_arc_found)
          \<and> arc_exec ref_env 1 TUse ref_arc_removed = (Ok (RRecord rec), ref_arc_removed))"
proof -
  have "held 1 ref_arc_found = Some 0" and "shared ref_arc_removed = []"
    by (simp_all add: ref_arc_worlds(1,2) held_def hm_get_def)
  then show ?thesis
    using held_key_stays [OF history_reachable [OF ref_arc_found_history] _ ref_arc_removed_history(1)] by blast
qed

end
