(* ===== verification/Service_States.thy ===== *)
theory Service_States
  imports Transition_Systems Kps_Core Ws_Core
begin

text \<open>
  The two custody cores as transition systems. A step is a call of an exported function by a caller
  that respects its safety section, a wake-up of the reaper thread, or a write of the caller to its own
  memory; steps interleave in any order. Each registry operation holds the lock of the registry for its
  whole duration, so a call that uses the registry once is atomic with respect to the reaper.

  The locale \<open>invariant_system\<close> gives invariants of reachable states from invariants of steps; both
  cores are instances.
\<close>

section \<open>Steps of a core\<close>

definition started :: "'e world \<Rightarrow> bool" where
  "started w \<longleftrightarrow> w = init_world (clock w) (mem w)"

inductive kps_step :: "('s, 'r, 'p) env \<Rightarrow> KpsKeyInfo world \<Rightarrow> KpsKeyInfo world \<Rightarrow> bool" for E where
  kps_call: "kps_safe c w \<Longrightarrow> kps_run E c w = (r, w') \<Longrightarrow> kps_step E w w'"
| kps_enumerate: "enumerate_safe p n es out_has_more w \<Longrightarrow>
    key_manager_enumerate_kem_keys E p n offset out_has_more w = (v, w') \<Longrightarrow> kps_step E w w'"
| kps_telemetry: "valid_buf p n w \<Longrightarrow> key_manager_init_telemetry_ffi p n w = (u, w') \<Longrightarrow> kps_step E w w'"
| kps_reaper: "kps_step E w (static_reaper_wakeup E w)"
| kps_caller: "kps_step E w (w\<lparr>mem := m\<rparr>)"

inductive ws_step :: "('s, 'r, 'p) env \<Rightarrow> WsKeyInfo world \<Rightarrow> WsKeyInfo world \<Rightarrow> bool" for E where
  ws_call: "ws_safe c w \<Longrightarrow> ws_run E c w = (r, w') \<Longrightarrow> ws_step E w w'"
| ws_enumerate: "enumerate_safe p n es out_has_more w \<Longrightarrow>
    key_manager_enumerate_binding_keys E p n offset out_has_more w = (v, w') \<Longrightarrow> ws_step E w w'"
| ws_telemetry: "valid_buf p n w \<Longrightarrow> key_manager_init_telemetry_ffi p n w = (u, w') \<Longrightarrow> ws_step E w w'"
| ws_reaper: "ws_step E w (static_reaper_wakeup E w)"
| ws_caller: "ws_step E w (w\<lparr>mem := m\<rparr>)"

text \<open>The log: every event is made of fixed strings and a service name that is not empty.\<close>

definition log_clean :: "'e world \<Rightarrow> bool" where
  "log_clean w \<longleftrightarrow> SERVICE_NAME (TELEMETRY w) \<noteq> Some []
     \<and> (\<forall>e \<in> set (events w). \<exists>service. service \<noteq> [] \<and> sanitized service e)"

inductive_cases kps_stepE: "kps_step E w w'"
inductive_cases ws_stepE: "ws_step E w w'"

section \<open>Steps outside the calls\<close>

lemma contents_Ready: "contents w h = Some rec \<Longrightarrow> \<exists>reg. KEY_REGISTRY w = Ready reg"
  by (auto simp: contents_def split: lazy_registry.splits)

lemma reaper_wakeup_eq:
  assumes "core_inv P w" and "KEY_REGISTRY w = Ready reg"
  shows "\<exists>reg' recs. static_reaper_wakeup E w
       = (drop_all E recs (w\<lparr>ticks := Suc (ticks w)\<rparr>))\<lparr>KEY_REGISTRY := Ready reg'\<rparr>
     \<and> registry_wf reg' \<and> lookup reg' = (\<lambda>h. unexpired (clock w (ticks w)) (contents w h))"
proof -
  have wf: "registry_wf reg"
    using assms by (simp add: core_inv_def)
  obtain reg' w' where sweep: "reaper_sweep E reg w = (Ok reg', w')" and wf': "registry_wf reg'"
    and l: "lookup reg' = (\<lambda>h. unexpired (clock w (ticks w)) (lookup reg h))"
    using reg.sweep_spec [OF wf, of E w] by blast
  have w': "w' = drop_all E (filter (expired (clock w (ticks w))) (hm_values (keys reg))) (w\<lparr>ticks := Suc (ticks w)\<rparr>)"
    using sweep wf by (simp add: reaper_sweep_def registry_wf_def returnM_def)
  have "static_reaper_wakeup E w = w'\<lparr>KEY_REGISTRY := Ready reg'\<rparr>"
    using sweep assms(2) by (simp add: static_reaper_wakeup_def bindM_def returnM_def)
  then show ?thesis
    using w' wf' l assms(2) by (auto simp: contents_def)
qed

lemma reaper_wakeup_core_inv:
  assumes "zeroize_spec E" and "core_inv P w"
  shows "core_inv P (static_reaper_wakeup E w)"
proof (cases "KEY_REGISTRY w")
  case (Ready reg)
  obtain reg' recs where eq: "static_reaper_wakeup E w
       = (drop_all E recs (w\<lparr>ticks := Suc (ticks w)\<rparr>))\<lparr>KEY_REGISTRY := Ready reg'\<rparr>"
    and "registry_wf reg'" and l: "lookup reg' = (\<lambda>h. unexpired (clock w (ticks w)) (contents w h))"
    using reaper_wakeup_eq [OF assms(2) Ready] by blast
  moreover have "core_inv P (drop_all E recs (w\<lparr>ticks := Suc (ticks w)\<rparr>))"
    using core_inv_same [of "w\<lparr>ticks := Suc (ticks w)\<rparr>" w P] assms by (simp add: core_inv_drop)
  ultimately show ?thesis
    using core_inv_contents [OF assms(2)] by (auto simp: unexpired_eq_Some intro!: core_inv_registry)
qed (use assms in \<open>simp_all add: static_reaper_wakeup_def\<close>)

lemma reaper_wakeup_contents:
  assumes "core_inv P w"
  shows "contents (static_reaper_wakeup E w) h = unexpired (clock w (ticks w)) (contents w h)"
proof (cases "KEY_REGISTRY w")
  case (Ready reg)
  then show ?thesis
    using reaper_wakeup_eq [OF assms Ready, of E] by auto
qed (simp_all add: static_reaper_wakeup_def contents_def)

lemma reaper_wakeup_log:
  assumes "core_inv P w"
  shows "log_clean (static_reaper_wakeup E w) = log_clean w"
proof (cases "KEY_REGISTRY w")
  case (Ready reg)
  then show ?thesis
    using reaper_wakeup_eq [OF assms Ready, of E] by (auto simp: log_clean_def)
qed (simp_all add: static_reaper_wakeup_def)

lemma init_telemetry_step:
  assumes "key_manager_init_telemetry_ffi p n w = (u, w')"
  shows "core_inv P w' = core_inv P w" "contents w' = contents w" "log_clean w \<Longrightarrow> log_clean w'"
proof -
  have "w' = w \<or> (\<exists>a. w' = w\<lparr>TELEMETRY := key_manager_init_telemetry a (TELEMETRY w)\<rparr>)"
    using assms by (auto simp: key_manager_init_telemetry_ffi_def from_raw_parts_def
        split: if_splits option.splits obj.splits)
  then show "core_inv P w' = core_inv P w" "contents w' = contents w" "log_clean w \<Longrightarrow> log_clean w'"
    using init_service_name_nonempty [of "TELEMETRY w"] core_inv_same [of w' w P]
    by (auto simp: contents_def log_clean_def get_service_name_def init_telemetry_SERVICE_NAME
        split: option.splits)
qed

lemma log_clean_more:
  assumes "log_clean w" and "TELEMETRY w' = TELEMETRY w" and "events w' = events w @ new"
    and "\<forall>e \<in> set new. sanitized (get_service_name (TELEMETRY w)) e"
  shows "log_clean w'"
proof -
  have "get_service_name (TELEMETRY w) \<noteq> []"
    using assms(1) by (auto simp: log_clean_def get_service_name_def split: option.splits)
  then show ?thesis
    using assms by (auto simp: log_clean_def)
qed

lemma started_inv: "started w \<Longrightarrow> core_inv P w \<and> log_clean w"
  unfolding started_def using core_inv_init [of P "clock w" "mem w"]
  by (metis (no_types, lifting) custody.select_convs world.select_convs empty_iff init_world_def
      list.set(1) log_clean_def option.distinct(1) telemetry.select_convs(1) telemetry_default_def)

section \<open>Invariants of reachable states\<close>

lemma kps_run_inv:
  assumes "hpke_spec E" and "uuid_spec E" and "zeroize_spec E" and "prost_spec E"
    and "core_inv (kps_record E) w" and "log_clean w" and "kps_safe c w" and "kps_run E c w = (r, w')"
  shows "core_inv (kps_record E) w' \<and> log_clean w'"
proof -
  obtain s where r: "r = Returns s"
    using kps_body_defined [OF assms(7), of E] assms(8) ffi_call_defined [of "kps_body E c" w "kps_operation c"]
    by (cases r) (auto simp: kps_run_body defined_at_def)
  have "core_inv (kps_record E) w'"
    using ffi_call_keeps [OF kps_body_keeps [OF assms(1-4)] core_inv_events assms(5)] assms(8)
    by (simp add: kps_run_body)
  then show ?thesis
    using kps.log_sanitized [of c E w s w'] kps.log_after(1) [of c E w s w'] assms(8) r
      log_clean_more [OF assms(6)] by (auto simp: kps_run_body)
qed

lemma kps_enumerate_inv:
  assumes "hpke_spec E" and "uuid_spec E" and "zeroize_spec E" and "prost_spec E"
    and "core_inv (kps_record E) w" and "log_clean w" and "enumerate_safe p n es out_has_more w"
    and "key_manager_enumerate_kem_keys E p n offset out_has_more w = (r, w')"
  shows "core_inv (kps_record E) w' \<and> log_clean w'"
proof -
  note call = assms(8) [unfolded key_manager_enumerate_kem_keys_def]
  obtain v where r: "r = Returns v"
    using enumerate_kem_keys_body_defined [OF assms(7), of E offset] call
      ffi_call_i32_defined [of "enumerate_kem_keys_body E p n offset out_has_more" w EnumerateKemKeys]
    by (cases r) (auto simp: defined_at_def)
  have "core_inv (kps_record E) w'"
    by (rule ffi_call_i32_keeps [OF kps_bodies_keep(5) [OF assms(1-4)] core_inv_events assms(5) call])
  then show ?thesis
    using enumerate_kem.log_sanitized [OF call [unfolded r]] enumerate_kem.telemetry_after [OF call [unfolded r]]
      log_clean_more [OF assms(6)] by auto
qed

lemma ws_run_inv:
  assumes "hpke_spec E" and "uuid_spec E" and "zeroize_spec E" and "prost_spec E"
    and "core_inv (ws_record E) w" and "log_clean w" and "ws_safe c w" and "ws_run E c w = (r, w')"
  shows "core_inv (ws_record E) w' \<and> log_clean w'"
proof -
  obtain s where r: "r = Returns s"
    using ws_body_defined [OF assms(7), of E] assms(8) ffi_call_defined [of "ws_body E c" w "ws_operation c"]
    by (cases r) (auto simp: ws_run_body defined_at_def)
  have "core_inv (ws_record E) w'"
    using ffi_call_keeps [OF ws_body_keeps [OF assms(1-4)] core_inv_events assms(5)] assms(8)
    by (simp add: ws_run_body)
  then show ?thesis
    using ws.log_sanitized [of c E w s w'] ws.log_after(1) [of c E w s w'] assms(8) r
      log_clean_more [OF assms(6)] by (auto simp: ws_run_body)
qed

lemma ws_enumerate_inv:
  assumes "hpke_spec E" and "uuid_spec E" and "zeroize_spec E" and "prost_spec E"
    and "core_inv (ws_record E) w" and "log_clean w" and "enumerate_safe p n es out_has_more w"
    and "key_manager_enumerate_binding_keys E p n offset out_has_more w = (r, w')"
  shows "core_inv (ws_record E) w' \<and> log_clean w'"
proof -
  note call = assms(8) [unfolded key_manager_enumerate_binding_keys_def]
  obtain v where r: "r = Returns v"
    using enumerate_binding_keys_body_defined [OF assms(7), of E offset] call
      ffi_call_i32_defined [of "enumerate_binding_keys_body E p n offset out_has_more" w EnumerateBindingKeys]
    by (cases r) (auto simp: defined_at_def)
  have "core_inv (ws_record E) w'"
    by (rule ffi_call_i32_keeps [OF ws_bodies_keep(6) [OF assms(1-4)] core_inv_events assms(5) call])
  then show ?thesis
    using enumerate_binding.log_sanitized [OF call [unfolded r]] enumerate_binding.telemetry_after [OF call [unfolded r]]
      log_clean_more [OF assms(6)] by auto
qed

lemma mem_step_inv: "core_inv P w \<and> log_clean w \<Longrightarrow> core_inv P (w\<lparr>mem := m\<rparr>) \<and> log_clean (w\<lparr>mem := m\<rparr>)"
  using mem_stable_core_inv [of P] by (auto simp: mem_stable_def log_clean_def)

text \<open>The environments the crates are built with: what the invariants need of them.\<close>

definition crates_spec :: "('s, 'r, 'p) env \<Rightarrow> bool" where
  "crates_spec E \<longleftrightarrow> hpke_spec E \<and> uuid_spec E \<and> zeroize_spec E \<and> prost_spec E"

lemma kps_step_inv:
  assumes "crates_spec E" and "core_inv (kps_record E) w \<and> log_clean w" and "kps_step E w w'"
  shows "core_inv (kps_record E) w' \<and> log_clean w'"
proof -
  note crates = assms(1) [unfolded crates_spec_def]
  note inv = assms(2) [THEN conjunct1] assms(2) [THEN conjunct2]
  from assms(3) show ?thesis
  proof (rule kps_stepE)
    fix c r
    assume "kps_safe c w" and "kps_run E c w = (r, w')"
    then show ?thesis using kps_run_inv inv crates by blast
  next
    fix p n es out_has_more offset v
    assume "enumerate_safe p n es out_has_more w"
      and "key_manager_enumerate_kem_keys E p n offset out_has_more w = (v, w')"
    then show ?thesis using kps_enumerate_inv inv crates by blast
  next
    fix p n u
    assume "key_manager_init_telemetry_ffi p n w = (u, w')"
    then show ?thesis using init_telemetry_step inv by metis
  next
    assume "w' = static_reaper_wakeup E w"
    then show ?thesis using reaper_wakeup_core_inv reaper_wakeup_log inv crates by metis
  next
    fix m
    assume "w' = w\<lparr>mem := m\<rparr>"
    then show ?thesis using mem_step_inv assms(2) by blast
  qed
qed

lemma ws_step_inv:
  assumes "crates_spec E" and "core_inv (ws_record E) w \<and> log_clean w" and "ws_step E w w'"
  shows "core_inv (ws_record E) w' \<and> log_clean w'"
proof -
  note crates = assms(1) [unfolded crates_spec_def]
  note inv = assms(2) [THEN conjunct1] assms(2) [THEN conjunct2]
  from assms(3) show ?thesis
  proof (rule ws_stepE)
    fix c r
    assume "ws_safe c w" and "ws_run E c w = (r, w')"
    then show ?thesis using ws_run_inv inv crates by blast
  next
    fix p n es out_has_more offset v
    assume "enumerate_safe p n es out_has_more w"
      and "key_manager_enumerate_binding_keys E p n offset out_has_more w = (v, w')"
    then show ?thesis using ws_enumerate_inv inv crates by blast
  next
    fix p n u
    assume "key_manager_init_telemetry_ffi p n w = (u, w')"
    then show ?thesis using init_telemetry_step inv by metis
  next
    assume "w' = static_reaper_wakeup E w"
    then show ?thesis using reaper_wakeup_core_inv reaper_wakeup_log inv crates by metis
  next
    fix m
    assume "w' = w\<lparr>mem := m\<rparr>"
    then show ?thesis using mem_step_inv assms(2) by blast
  qed
qed

interpretation kps_sys: invariant_system started "kps_step E"
    "\<lambda>w. crates_spec E \<longrightarrow> core_inv (kps_record E) w \<and> log_clean w"
  for E :: "('s, 'r, 'p) env"
  by unfold_locales (auto dest: started_inv kps_step_inv)

interpretation ws_sys: invariant_system started "ws_step E"
    "\<lambda>w. crates_spec E \<longrightarrow> core_inv (ws_record E) w \<and> log_clean w"
  for E :: "('s, 'r, 'p) env"
  by unfold_locales (auto dest: started_inv ws_step_inv)

section \<open>Properties\<close>

lemma ref_crates: "crates_spec ref_env"
  by (simp add: crates_spec_def ref_hpke_spec ref_uuid_spec ref_zeroize_spec ref_prost_spec)

lemma ref_world_started: "started (ref_world es)"
  by (simp add: started_def ref_world_def init_world_def)

text \<open>
  C15. In every state the key protection core can reach, whatever calls, reaper wake-ups and telemetry
  initialisations came before: each stored record is filed under its own handle, is a KEM key of a
  supported suite bound to a 32-byte public key, and holds the two halves of one generated key pair; every
  region of secret memory that was given back was zeroed; and every event in the log is sanitized.
\<close>

theorem kps_reachable_invariant:
  assumes "crates_spec E" and "reachable started (kps_step E) w"
  shows "(\<forall>h rec. contents w h = Some rec \<longrightarrow> meta_id (meta rec) = h
        \<and> (\<exists>algo k b n. spec (meta rec) = KemWithBindingPub algo k b \<and> suite_supported E algo
             \<and> length (PublicKey_as_bytes b) = 32 \<and> key_pair E n = (k, get_private_key rec)))
     \<and> (\<forall>region \<in> set (released w). \<forall>b \<in> set region. b = 0)
     \<and> (\<forall>e \<in> set (events w). \<exists>service. service \<noteq> [] \<and> sanitized service e)"
proof -
  have inv: "core_inv (kps_record E) w" and log: "log_clean w"
    using kps_sys.reachable_inv [OF assms(2)] assms(1) by auto
  have "meta_id (meta rec) = h \<and> (\<exists>algo k b n. spec (meta rec) = KemWithBindingPub algo k b
      \<and> suite_supported E algo \<and> length (PublicKey_as_bytes b) = 32 \<and> key_pair E n = (k, get_private_key rec))"
    if c: "contents w h = Some rec" for h rec
  proof -
    obtain reg where "KEY_REGISTRY w = Ready reg" using contents_Ready [OF c] by blast
    then have "meta_id (meta rec) = h"
      using inv c reg.content_id [of reg h rec] by (simp add: core_inv_def contents_def)
    then show ?thesis
      using core_inv_contents [OF inv c] kps_record_spec [of E rec]
      by (auto simp: kps_record_def record_ok_def own_public_key_def)
  qed
  then show ?thesis
    using inv log by (auto simp: core_inv_def log_clean_def)
qed

theorem kps_reachable_invariant_witness:
  "\<exists>w. reachable started (kps_step ref_env) w \<and> events w \<noteq> []
     \<and> (\<forall>e \<in> set (events w). \<exists>service. service \<noteq> [] \<and> sanitized service e)"
proof -
  let ?w = "ref_world ([] :: KpsKeyInfo list)"
  obtain w' where run: "kps_run ref_env (DestroyKem 0) (?w\<lparr>mem := [0 \<mapsto> Bytes (replicate 16 0)]\<rparr>)
      = (Returns InvalidArgument, w')" and ev: "events w' \<noteq> []"
    by (simp add: kps_run_body ffi_call_def ffi_call_with_reporter_def is_null_def
      destroy_kem_key_body_def errM_def telemetry_report_failure_def)
  have "kps_step ref_env (?w\<lparr>mem := [0 \<mapsto> Bytes (replicate 16 0)]\<rparr>) w'"
    by (rule kps_call [OF _ run]) (simp add: valid_buf_def)
  moreover have "reachable started (kps_step ref_env) (?w\<lparr>mem := [0 \<mapsto> Bytes (replicate 16 0)]\<rparr>)"
    by (rule reachable_step [of _ _ ?w]) (rule reachable_init, rule ref_world_started, rule kps_caller)
  ultimately have r: "reachable started (kps_step ref_env) w'"
    by (rule reachable_step [rotated])
  show ?thesis
    using kps_reachable_invariant [OF ref_crates r] r ev by blast
qed



end
