(* ===== verification/Key_Lifetime.thy ===== *)
theory Key_Lifetime
  imports Service_States
begin

text \<open>
  How a key is lost. A stored key stays what it is through every step of its core, except for the
  two ways it may go: it is destroyed on request, or its deadline passes and the reaper runs. The only
  other possibility is that a fresh random handle collides with it.
\<close>

section \<open>A key that is kept\<close>

definition holds_key :: "(KeyRecord \<Rightarrow> bool) \<Rightarrow> KeyHandle \<Rightarrow> KeyRecord \<Rightarrow> 'z custody_scheme \<Rightarrow> bool" where
  "holds_key P h rec w \<longleftrightarrow> core_inv P w \<and> contents w h = Some rec"

lemma holds_key_usable: "holds_key P h rec w \<Longrightarrow> usable E w"
  by (auto simp: holds_key_def dest!: contents_Ready intro: usable_Ready)

lemma holds_key_stable:
  assumes "zeroize_spec E"
  shows "machine_stable E (holds_key P h rec :: 'z custody_scheme \<Rightarrow> bool)"
  unfolding machine_stable_def
proof (intro allI impI)
  fix w w' :: "'z custody_scheme" and zs
  assume w: "holds_key P h rec w" and same: "machine.more w' = machine.more w"
    and adv: "advances w w'" and rel: "released w' = released w @ map (zeroize E) zs"
  have "contents w' = contents w"
    by (rule contents_frame) (rule machine_more_custody(1) [OF same])
  moreover have "core_inv P w'"
    using machine_stable_core_inv [OF assms, of P] w same adv rel
    unfolding machine_stable_def holds_key_def by blast
  ultimately show "holds_key P h rec w'"
    using w by (simp add: holds_key_def)
qed

lemma holds_key_mem_stable: "mem_stable (holds_key P h rec)"
  using mem_stable_core_inv [of P] by (auto simp: mem_stable_def holds_key_def)

lemma holds_key_ticks: "holds_key P h rec w \<Longrightarrow> holds_key P h rec ((forced w)\<lparr>ticks := t\<rparr>)"
  using core_inv_same [of "(forced w)\<lparr>ticks := t\<rparr>" "forced w" P]
    contents_frame [of "(forced w)\<lparr>ticks := t\<rparr>" "forced w"]
  by (simp add: holds_key_def core_inv_forced)

lemma holds_key_reads:
  "keeps UNIV (holds_key P h rec) (static_get_key E k)"
  "keeps UNIV (holds_key P h rec) (static_list_all_keys E offset limit)"
proof -
  have eq: "snd (static_get_key E k w) = (forced w)\<lparr>ticks := (if contents w k = None then ticks w else Suc (ticks w))\<rparr>"
    "snd (static_list_all_keys E offset limit w) = (forced w)\<lparr>ticks := Suc (ticks w)\<rparr>"
    if "holds_key P h rec w" for w
    using that static_get_key_eq [of P w E k] static_list_all_keys_eq [of P w E offset limit]
      holds_key_usable [OF that, of E] by (simp_all add: holds_key_def)
  show "keeps UNIV (holds_key P h rec) (static_get_key E k)"
    "keeps UNIV (holds_key P h rec) (static_list_all_keys E offset limit)"
    by (simp_all add: keeps_alt eq holds_key_ticks)
qed

lemma holds_key_add:
  assumes "zeroize_spec E" and "holds_key P h rec w" and "meta_id (meta new) \<noteq> h"
  shows "contents (snd (static_add_key E new w)) h = Some rec"
  using assms(2,3) added_props(2) [OF registry_of_wf, of P w new]
  by (simp add: static_add_key_eq [of P w E] holds_key_usable [OF assms(2)] holds_key_def)

text \<open>Generating a key leaves the others alone, whatever becomes of the call.\<close>

lemma create_and_add_others:
  fixes w :: "'e world"
  assumes "hpke_spec E" and "zeroize_spec E" and "holds_key P h rec w" and "Uuid_new_v4 E (Suc (draws w)) \<noteq> h"
    and "create_and_add E algo d mk w = (r, w')"
  shows "contents w' h = Some rec"
proof -
  obtain c v where create: "create_key_internal E algo d mk w = (c, v)"
    by fastforce
  have v: "holds_key P h rec v"
  proof -
    note keep = keeps_create [OF holds_key_stable [OF assms(2)], of P h rec algo d mk]
    show ?thesis by (rule keepsD [OF keep assms(3) create])
  qed
  show ?thesis
  proof (cases c)
    case (Ok new)
    have "meta_id (meta new) \<noteq> h"
      using create_key_internal_Ok(2) [OF assms(1) create [unfolded Ok]] assms(4) by simp
    then have "contents (snd (static_add_key E new v)) h = Some rec"
      by (rule holds_key_add [OF assms(2) v])
    then show ?thesis
      using assms(5) create Ok
      by (auto simp: create_and_add_def bindM_def returnM_def split: outcome.splits prod.splits)
  qed (use assms(5) create v in \<open>auto simp: create_and_add_def bindM_def holds_key_def\<close>)
qed

text \<open>
  What holds after the common part of both closures, whether it succeeded or not, and does not speak of the caller's
  memory, holds at the end of the call.
\<close>

lemma write_key_keeps:
  assumes "mem_stable Q" and "Q w"
    and "(if b then errM InvalidArgument else bindM (copy_from_slice s x) (\<lambda>_. copy_from_slice t y)) w = (r, w')"
  shows "Q w'"
proof -
  have "keeps UNIV Q (if b then errM InvalidArgument else bindM (copy_from_slice s x) (\<lambda>_. copy_from_slice t y))"
    by (intro keeps_rules keeps_writes assms(1)) auto
  from keepsD [OF this assms(2,3)] show ?thesis .
qed

lemma bindM_keeps:
  assumes "\<And>r v. m w = (r, v) \<Longrightarrow> Q v" and "\<And>a v r v'. Q v \<Longrightarrow> f a v = (r, v') \<Longrightarrow> Q v'" and "bindM m f w = (r, w')"
  shows "Q w'"
  using assms(3) assms(1) [of "fst (m w)" "snd (m w)"] assms(2)
  by (auto simp: bindM_def split: outcome.splits prod.splits)

lemma ffi_call_contents: "contents (snd (ffi_call op body w)) = contents (snd (body w))"
  by (auto simp: ffi_call_def ffi_call_with_reporter_def telemetry_report_failure_def run_panic_hook_def
      split: outcome.splits prod.splits)

lemma ffi_call_i32_contents: "contents (snd (ffi_call_i32 op body w)) = contents (snd (body w))"
  by (auto simp: ffi_call_i32_def ffi_call_i32_with_reporter_def telemetry_report_failure_def run_panic_hook_def
      split: outcome.splits prod.splits)

section \<open>The calls\<close>

lemma generate_kem_after:
  fixes w :: "'e world"
  assumes "hpke_spec E" and "generate_kem_safe a al b bl u p pl w" and "mem_stable Q" and "Q w"
    and "\<And>algo d mk s v. create_and_add E algo d mk w = (s, v) \<Longrightarrow> Q v"
    and "generate_kem_keypair_body E a al b bl e u p pl w = (r, w')"
  shows "Q w'"
proof (cases "generate_kem_present a al b bl u p")
  case True
  have gen: "Q v" if "generate_kem_keypair_internal E algo x e w = (s, v)" for algo x s v
    using that assms(4,5) by (auto simp: generate_kem_keypair_internal_eq [OF assms(1)] split: if_splits)
  show ?thesis
    using assms(6,4) unfolding generate_kem_keypair_body_eq [OF True assms(2)]
    by (auto split: if_splits option.splits elim!: bindM_keeps [rotated 2]
        intro: gen write_key_keeps [OF assms(3)])
next
  case False
  then show ?thesis
    using assms(4,6) by (auto simp: generate_kem_keypair_body_def generate_kem_present_def errM_def split: if_splits)
qed

lemma generate_binding_after:
  fixes w :: "'e world"
  assumes "hpke_spec E" and "generate_binding_safe a al u p pl w" and "mem_stable Q" and "Q w"
    and "\<And>algo d mk s v. create_and_add E algo d mk w = (s, v) \<Longrightarrow> Q v"
    and "generate_binding_keypair_body E a al e u p pl w = (r, w')"
  shows "Q w'"
proof (cases "generate_binding_present a al u p")
  case True
  have gen: "Q v" if "generate_binding_keypair_internal E algo e w = (s, v)" for algo s v
    using that assms(5) by (simp add: generate_binding_keypair_internal_eq [OF assms(1)])
  show ?thesis
    using assms(6,4) unfolding generate_binding_keypair_body_eq [OF True assms(2)]
    by (auto split: if_splits option.splits elim!: bindM_keeps [rotated 2]
        intro: gen write_key_keeps [OF assms(3)])
next
  case False
  then show ?thesis
    using assms(4,6) by (auto simp: generate_binding_keypair_body_def generate_binding_present_def errM_def split: if_splits)
qed

lemma mem_stable_contents: "mem_stable (\<lambda>w. contents w h = x)"
  by (simp add: mem_stable_def)

text \<open>A removal of another handle.\<close>

lemma remove_others:
  assumes "holds_key P h rec w" and "k \<noteq> h"
    and "bindM (static_remove_key E k) (\<lambda>old. bindM (ok_orM old NotFound)
        (\<lambda>rec. updateM (KeyRecord_drop E rec))) w = (r, w')"
  shows "contents w' h = Some rec"
proof -
  have inv: "core_inv P w" and "contents w h = Some rec"
    using assms(1) by (simp_all add: holds_key_def)
  then have "lookup (removed k (registry_of w)) h = Some rec"
    using removed_props(2) [OF registry_of_wf [OF inv], of k] assms(2) by simp
  then show ?thesis
    using assms(3) by (auto simp: static_remove_key_bind [OF inv holds_key_usable [OF assms(1)]] split: option.splits)
qed

lemma kps_body_others:
  fixes w :: "'e world"
  assumes "hpke_spec E" and "zeroize_spec E" and "holds_key P h rec w" and "Uuid_new_v4 E (Suc (draws w)) \<noteq> h"
    and "kps_safe c w" and "kps_body E c w = (r, w')" and "\<And>u. c = DestroyKem u \<Longrightarrow> h \<noteq> Uuid (buf u 16 w)"
  shows "contents w' h = Some rec"
proof -
  note stable = holds_key_stable [OF assms(2), of P h rec] holds_key_mem_stable [of P h rec]
  have get: "yields UNIV (holds_key P h rec) (\<lambda>r. \<forall>x. r = Some x \<longrightarrow> True) (static_get_key E k)" for k
    by (rule yields_True [OF holds_key_reads(1)]) simp
  show ?thesis
  proof (cases c)
    case (GenerateKem a al b bl e u p pl)
    then show ?thesis
      using generate_kem_after [OF assms(1) _ mem_stable_contents _ create_and_add_others [OF assms(1-4)]]
        assms(3,5,6) by (simp add: holds_key_def)
  next
    case (DestroyKem u)
    show ?thesis
    proof (cases "is_null u")
      case True
      then show ?thesis
        using assms(3,6) DestroyKem by (simp add: destroy_kem_key_body_def errM_def holds_key_def)
    next
      case False
      then show ?thesis
        using assms(5-7) DestroyKem remove_others [OF assms(3), of "Uuid (buf u 16 w)" E r w']
          destroy_kem_key_body_eq [OF False, of w E] by simp
    qed
  next
    case (DecapSeal u e el a al oe oel oc ocl)
    have "keeps UNIV (holds_key P h rec) (kps_body E c)"
      unfolding DecapSeal kps_body.simps by (rule keeps_decap_and_seal_body [OF stable get]) auto
    then show ?thesis using keepsD assms(3,6) by (fastforce simp: holds_key_def)
  next
    case (GetKem u k kl b bl a al r)
    have "keeps UNIV (holds_key P h rec) (kps_body E c)"
      unfolding GetKem kps_body.simps by (rule keeps_get_kem_key_body [OF stable get]) auto
    then show ?thesis using keepsD assms(3,6) by (fastforce simp: holds_key_def)
  qed
qed

lemma ws_body_others:
  fixes w :: "'e world"
  assumes "hpke_spec E" and "zeroize_spec E" and "holds_key P h rec w" and "Uuid_new_v4 E (Suc (draws w)) \<noteq> h"
    and "ws_safe c w" and "ws_body E c w = (r, w')" and "\<And>u. c = DestroyBinding u \<Longrightarrow> h \<noteq> Uuid (buf u 16 w)"
    and "c \<noteq> DestroyAll"
  shows "contents w' h = Some rec"
proof -
  note stable = holds_key_stable [OF assms(2), of P h rec] holds_key_mem_stable [of P h rec]
  have get: "yields UNIV (holds_key P h rec) (\<lambda>r. \<forall>x. r = Some x \<longrightarrow> True) (static_get_key E k)" for k
    by (rule yields_True [OF holds_key_reads(1)]) simp
  show ?thesis
  proof (cases c)
    case (GenerateBinding a al e u p pl)
    then show ?thesis
      using generate_binding_after [OF assms(1) _ mem_stable_contents _ create_and_add_others [OF assms(1-4)]]
        assms(3,5,6) by (simp add: holds_key_def)
  next
    case (DestroyBinding u)
    show ?thesis
    proof (cases "is_null u")
      case True
      then show ?thesis
        using assms(3,6) DestroyBinding by (simp add: destroy_binding_key_body_def errM_def holds_key_def)
    next
      case False
      then show ?thesis
        using assms(5-7) DestroyBinding remove_others [OF assms(3), of "Uuid (buf u 16 w)" E r w']
          destroy_binding_key_body_eq [OF False, of w E] by simp
    qed
  next
    case (OpenSealed u e el ct cl a al p pl)
    have "keeps UNIV (holds_key P h rec) (ws_body E c)"
      unfolding OpenSealed ws_body.simps by (rule keeps_open_body [OF stable get]) auto
    then show ?thesis using keepsD assms(3,6) by (fastforce simp: holds_key_def)
  next
    case (GetBinding u p pl a al)
    have "keeps UNIV (holds_key P h rec) (ws_body E c)"
      unfolding GetBinding ws_body.simps by (rule keeps_get_binding_key_body [OF stable get]) auto
    then show ?thesis using keepsD assms(3,6) by (fastforce simp: holds_key_def)
  qed (use assms(8) in simp)
qed

lemma holds_key_list:
  "yields UNIV (holds_key P h rec) (\<lambda>r. InternalError \<in> (UNIV :: Status set) \<or> Q r)
      (static_list_all_keys E off lim)"
  by (rule yields_True [OF holds_key_reads(2)]) simp

lemma enumerate_kem_others:
  assumes "zeroize_spec E" and "holds_key P h rec w"
  shows "contents (snd (key_manager_enumerate_kem_keys E p n offset out_has_more w)) h = Some rec"
proof -
  have "keeps UNIV (holds_key P h rec) (enumerate_kem_keys_body E p n offset out_has_more)"
    by (rule keeps_enumerate_kem_keys_body [OF holds_key_stable [OF assms(1)] holds_key_mem_stable holds_key_list]) simp
  then show ?thesis
    using assms(2) by (simp add: key_manager_enumerate_kem_keys_def ffi_call_i32_contents keeps_alt holds_key_def)
qed

lemma enumerate_binding_others:
  assumes "zeroize_spec E" and "holds_key P h rec w"
  shows "contents (snd (key_manager_enumerate_binding_keys E p n offset out_has_more w)) h = Some rec"
proof -
  have "keeps UNIV (holds_key P h rec) (enumerate_binding_keys_body E p n offset out_has_more)"
    by (rule keeps_enumerate_binding_keys_body [OF holds_key_stable [OF assms(1)] holds_key_mem_stable holds_key_list]) simp
  then show ?thesis
    using assms(2) by (simp add: key_manager_enumerate_binding_keys_def ffi_call_i32_contents keeps_alt holds_key_def)
qed

section \<open>Properties\<close>

lemma ref_fresh_uuid: "Uuid_new_v4 ref_env (Suc 0) \<noteq> ref_handle"
  by (simp add: ref_env_def ref_handle_def)

text \<open>
  No key of the key protection core is lost or replaced by accident. In any step (any call with any
  result, any enumeration, any reaper wake-up), a key whose deadline has not passed stays in the registry
  with the same record, unless the step is the destruction of that very handle, or the random handle of a
  new key collides with it.
\<close>

theorem kps_key_survives:
  assumes "crates_spec E" and "core_inv (kps_record E) w" and "kps_step E w w'"
    and "contents w h = Some rec" and "clock w (ticks w) < delete_after (meta rec)"
    and "Uuid_new_v4 E (Suc (draws w)) \<noteq> h"
  shows "contents w' h = Some rec
     \<or> (\<exists>u. h = Uuid (buf u 16 w) \<and> w' = snd (key_manager_destroy_kem_key E u w))"
proof -
  have specs: "hpke_spec E" "zeroize_spec E"
    using assms(1) by (simp_all add: crates_spec_def)
  have held: "holds_key (kps_record E) h rec w"
    using assms(2,4) by (simp add: holds_key_def)
  from assms(3) show ?thesis
  proof (rule kps_stepE)
    fix c r assume safe: "kps_safe c w" and run: "kps_run E c w = (r, w')"
    show ?thesis
    proof (cases "\<exists>u. c = DestroyKem u \<and> h = Uuid (buf u 16 w)")
      case True
      then show ?thesis using run by auto
    next
      case False
      then have "contents (snd (kps_body E c w)) h = Some rec"
        using kps_body_others [OF specs held assms(6) safe] by (metis prod.collapse)
      then show ?thesis
        using run ffi_call_contents [of "kps_operation c" "kps_body E c" w] by (simp add: kps_run_body)
    qed
  next
    fix p n es out_has_more offset v
    assume "key_manager_enumerate_kem_keys E p n offset out_has_more w = (v, w')"
    then show ?thesis
      using enumerate_kem_others [OF specs(2) held, of p n offset out_has_more] by simp
  next
    fix p n u
    assume "key_manager_init_telemetry_ffi p n w = (u, w')"
    then show ?thesis using init_telemetry_step(2) assms(4) by metis
  next
    assume "w' = static_reaper_wakeup E w"
    then show ?thesis using reaper_wakeup_contents [OF assms(2), of E h] assms(4,5) by simp
  qed (use assms(4) in simp)
qed

theorem kps_key_survives_witness:
  "contents (static_reaper_wakeup ref_env (ref_stored ref_kem_spec ([] :: KpsKeyInfo list))) ref_handle
     = Some (ref_record ref_kem_spec)
   \<or> (\<exists>u. ref_handle = Uuid (buf u 16 (ref_stored ref_kem_spec ([] :: KpsKeyInfo list)))
       \<and> static_reaper_wakeup ref_env (ref_stored ref_kem_spec ([] :: KpsKeyInfo list))
         = snd (key_manager_destroy_kem_key ref_env u (ref_stored ref_kem_spec ([] :: KpsKeyInfo list))))"
  by (rule kps_key_survives [OF ref_crates ref_kem_stored_inv kps_reaper])
    (simp_all add: ref_stored_contents ref_clock_def nanos_per_sec_def ref_fresh_uuid)

text \<open>
  Nor is a key of the workload core: a binding key whose deadline has not passed stays as it is in any
  step, unless the step destroys that handle or destroys all keys, or a new random handle collides with it.
\<close>

theorem ws_key_survives:
  assumes "crates_spec E" and "core_inv (ws_record E) w" and "ws_step E w w'"
    and "contents w h = Some rec" and "clock w (ticks w) < delete_after (meta rec)"
    and "Uuid_new_v4 E (Suc (draws w)) \<noteq> h"
  shows "contents w' h = Some rec
     \<or> (\<exists>u. h = Uuid (buf u 16 w) \<and> w' = snd (key_manager_destroy_binding_key E u w))
     \<or> w' = snd (key_manager_destroy_all_binding_keys E w)"
proof -
  have specs: "hpke_spec E" "zeroize_spec E"
    using assms(1) by (simp_all add: crates_spec_def)
  have held: "holds_key (ws_record E) h rec w"
    using assms(2,4) by (simp add: holds_key_def)
  from assms(3) show ?thesis
  proof (rule ws_stepE)
    fix c r assume safe: "ws_safe c w" and run: "ws_run E c w = (r, w')"
    show ?thesis
    proof (cases "(\<exists>u. c = DestroyBinding u \<and> h = Uuid (buf u 16 w)) \<or> c = DestroyAll")
      case True
      then show ?thesis using run by auto
    next
      case False
      then have "contents (snd (ws_body E c w)) h = Some rec"
        using ws_body_others [OF specs held assms(6) safe] by (metis prod.collapse)
      then show ?thesis
        using run ffi_call_contents [of "ws_operation c" "ws_body E c" w] by (simp add: ws_run_body)
    qed
  next
    fix p n es out_has_more offset v
    assume "key_manager_enumerate_binding_keys E p n offset out_has_more w = (v, w')"
    then show ?thesis
      using enumerate_binding_others [OF specs(2) held, of p n offset out_has_more] by simp
  next
    fix p n u
    assume "key_manager_init_telemetry_ffi p n w = (u, w')"
    then show ?thesis using init_telemetry_step(2) assms(4) by metis
  next
    assume "w' = static_reaper_wakeup E w"
    then show ?thesis using reaper_wakeup_contents [OF assms(2), of E h] assms(4,5) by simp
  qed (use assms(4) in simp)
qed

theorem ws_key_survives_witness:
  "contents (static_reaper_wakeup ref_env (ref_stored ref_binding_spec ([] :: WsKeyInfo list))) ref_handle
     = Some (ref_record ref_binding_spec)
   \<or> (\<exists>u. ref_handle = Uuid (buf u 16 (ref_stored ref_binding_spec ([] :: WsKeyInfo list)))
       \<and> static_reaper_wakeup ref_env (ref_stored ref_binding_spec ([] :: WsKeyInfo list))
         = snd (key_manager_destroy_binding_key ref_env u (ref_stored ref_binding_spec ([] :: WsKeyInfo list))))
   \<or> static_reaper_wakeup ref_env (ref_stored ref_binding_spec ([] :: WsKeyInfo list))
       = snd (key_manager_destroy_all_binding_keys ref_env (ref_stored ref_binding_spec ([] :: WsKeyInfo list)))"
  by (rule ws_key_survives [OF ref_crates ref_binding_stored_inv ws_reaper])
    (simp_all add: ref_stored_contents ref_clock_def nanos_per_sec_def ref_fresh_uuid)

end
