(* ===== verification/No_Panic.thy ===== *)
theory No_Panic
  imports Service_States
begin

text \<open>
  Absence of panics. Every \<^verbatim>\<open>unwrap\<close>, \<^verbatim>\<open>expect\<close>, slice copy and lock acquisition of the cores can panic in the
  model. Here it is shown that none does, as long as the kernel starts the reaper thread and maps secret memory
  in the size that was asked for: locks are never poisoned, lengths always fit.

  The triple \<open>quiet I R m\<close> says that \<open>m\<close> keeps \<open>I\<close>, does not panic and returns values that satisfy \<open>R\<close>.
  \<open>calm\<close> is the invariant of a core whose static registry was not poisoned.
\<close>

section \<open>Triples\<close>

definition quiet :: "('s \<Rightarrow> bool) \<Rightarrow> ('a \<Rightarrow> bool) \<Rightarrow> ('e, 's, 'a) rust \<Rightarrow> bool" where
  "quiet I R m \<longleftrightarrow> hoare I m (\<lambda>r s. I s \<and> r \<noteq> Panicked \<and> (\<forall>a. r = Ok a \<longrightarrow> R a))"

definition calm :: "(KeyRecord \<Rightarrow> bool) \<Rightarrow> 'z custody_scheme \<Rightarrow> bool" where
  "calm P w \<longleftrightarrow> core_inv P w \<and> KEY_REGISTRY w \<noteq> LazyPoisoned"

definition threads_granted :: "('s, 'r, 'p) env \<Rightarrow> bool" where
  "threads_granted E \<longleftrightarrow> (\<forall>i. sys_thread_spawn E i)"

named_theorems quiet_rules \<open>computations that do not panic\<close>

lemma quiet_alt:
  "quiet I R m \<longleftrightarrow> (\<forall>s. I s \<longrightarrow> I (snd (m s)) \<and> fst (m s) \<noteq> Panicked \<and> (\<forall>a. fst (m s) = Ok a \<longrightarrow> R a))"
  by (simp add: quiet_def hoare_def)

lemma quietI_yields:
  assumes "yields ES I R m" and "\<And>s. I s \<Longrightarrow> fst (m s) \<noteq> Panicked"
  shows "quiet I R m"
  using assms by (simp add: quiet_alt yields_def hoare_def)

lemma quietI_keeps:
  assumes "keeps ES I m" and "\<And>s. I s \<Longrightarrow> fst (m s) \<noteq> Panicked"
  shows "quiet I (\<lambda>_. True) m"
  using assms by (simp add: quiet_alt keeps_alt)

lemma quiet_weaken: "quiet I R m \<Longrightarrow> (\<And>a. R a \<Longrightarrow> R' a) \<Longrightarrow> quiet I R' m"
  by (simp add: quiet_alt)

lemma quiet_bindM:
  assumes "quiet I R m" and "\<And>a. R a \<Longrightarrow> quiet I R' (f a)"
  shows "quiet I R' (bindM m f)"
  unfolding quiet_alt
proof (intro allI impI)
  fix s assume s: "I s"
  obtain r t where m: "m s = (r, t)" by fastforce
  have t: "I t" "r \<noteq> Panicked" "\<And>a. r = Ok a \<Longrightarrow> R a"
    using assms(1) s m by (auto simp: quiet_alt dest: spec [of _ s])
  show "I (snd (bindM m f s)) \<and> fst (bindM m f s) \<noteq> Panicked \<and> (\<forall>a. fst (bindM m f s) = Ok a \<longrightarrow> R' a)"
    using t m assms(2) by (cases r) (auto simp: bindM_def quiet_alt)
qed

lemma quiet_basic [quiet_rules]:
  "R a \<Longrightarrow> quiet I R (returnM a)"
  "quiet I R (errM e)"
  "quiet I (\<lambda>a. x = Some a) (ok_orM x e)"
  "(\<And>s. I s \<Longrightarrow> I (f s)) \<Longrightarrow> quiet I (\<lambda>_. True) (updateM f)"
  by (simp_all add: quiet_alt basicM_defs ok_orM_def split: option.splits)

lemma quiet_if: "(b \<Longrightarrow> quiet I R m) \<Longrightarrow> (\<not> b \<Longrightarrow> quiet I R m') \<Longrightarrow> quiet I R (if b then m else m')"
  by simp

section \<open>Primitives\<close>

lemma quiet_memory [quiet_rules]:
  "quiet I (\<lambda>_. True) (from_raw_parts p len)"
  "quiet I (\<lambda>s. slice_len s = unat len) (from_raw_parts_mut p len)"
  "quiet I (\<lambda>_. True) (entries_from_raw_parts_mut p len)"
  "quiet I (\<lambda>_. True) (deref_usize p)" "quiet I (\<lambda>_. True) (deref_u64 p)"
  by (auto simp: quiet_alt from_raw_parts_def from_raw_parts_mut_def entries_from_raw_parts_mut_def
      deref_usize_def deref_u64_def bindM_def returnM_def split: option.splits obj.splits)

lemma quiet_writes:
  assumes "mem_stable I"
  shows "slice_len s = length src \<Longrightarrow> quiet I (\<lambda>_. True) (copy_from_slice s src)"
    and "n \<le> slice_len s \<Longrightarrow> length src = n \<Longrightarrow> quiet I (\<lambda>_. True) (copy_prefix_from_slice s n src)"
    and "quiet I (\<lambda>_. True) (store p v)" and "quiet I (\<lambda>_. True) (set_entry s i x)"
  by (auto simp: copy_from_slice_def copy_prefix_from_slice_def store_def set_entry_def
      write_bytes_def assms [unfolded mem_stable_def] intro!: quiet_basic(4) split: option.splits obj.splits)

lemma quiet_crypto:
  assumes "machine_stable E I"
  shows "quiet I (\<lambda>_. True) (decaps E key enc)" "quiet I (\<lambda>_. True) (hpke_open E key enc ct aad algo)"
    "quiet I (\<lambda>_. True) (hpke_seal E pub pt aad algo)" "quiet I (\<lambda>_. True) Instant_now"
    "quiet I (\<lambda>b. length (PublicKey_as_bytes b) = 32) (PublicKey_try_from bs)"
proof -
  show "quiet I (\<lambda>_. True) (decaps E key enc)"
    by (rule quietI_keeps [OF keeps_crypto(1) [OF assms]]) (rule crypto_never_undefined)
  show "quiet I (\<lambda>_. True) (hpke_open E key enc ct aad algo)"
    by (rule quietI_keeps [OF keeps_crypto(2) [OF assms]]) (rule crypto_never_undefined)
  show "quiet I (\<lambda>_. True) (hpke_seal E pub pt aad algo)"
    by (rule quietI_keeps [OF keeps_crypto(3) [OF assms]]) (rule crypto_never_undefined)
  show "quiet I (\<lambda>_. True) Instant_now"
    by (rule quietI_keeps [OF keeps_crypto(4) [OF assms]]) (simp add: Instant_now_def)
  show "quiet I (\<lambda>b. length (PublicKey_as_bytes b) = 32) (PublicKey_try_from bs)"
    by (auto simp: quiet_alt PublicKey_try_from_eq)
qed

lemma quiet_create:
  assumes "hpke_spec E" and "uuid_spec E" and "secretmem_spec E" and "machine_stable E I"
  shows "quiet I (\<lambda>rec. record_ok E rec \<and> (\<exists>k. spec (meta rec) = KemWithBindingPub algo k b)) (create_bound_kem_key E algo b d)"
    and "quiet I (\<lambda>rec. record_ok E rec \<and> (\<exists>k. spec (meta rec) = Binding algo k)) (create_binding_key E algo d)"
proof -
  have np: "fst (create_key_internal E algo d mk s) \<noteq> Panicked" for mk and s :: "'z machine_scheme"
    using create_key_internal_always(6) [OF assms(1) _ assms(3), of algo d mk s] by (metis prod.collapse)
  show "quiet I (\<lambda>rec. record_ok E rec \<and> (\<exists>k. spec (meta rec) = KemWithBindingPub algo k b)) (create_bound_kem_key E algo b d)"
    by (rule quietI_yields [OF yields_create(1) [OF assms(1,2,4)]])
      (simp add: create_bound_kem_key_cases np errM_def)
  show "quiet I (\<lambda>rec. record_ok E rec \<and> (\<exists>k. spec (meta rec) = Binding algo k)) (create_binding_key E algo d)"
    by (rule quietI_yields [OF yields_create(2) [OF assms(1,2,4)]]) (simp add: create_binding_key_def np)
qed

section \<open>The static registry\<close>

lemma calm_usable: "threads_granted E \<Longrightarrow> calm P w \<Longrightarrow> core_inv P w \<and> usable E w"
  by (auto simp: calm_def usable_def threads_granted_def split: lazy_registry.splits)

lemma calm_machine_stable: "zeroize_spec E \<Longrightarrow> machine_stable E (calm P)"
  using machine_stable_core_inv [of E P] unfolding machine_stable_def calm_def
  by (metis machine_more_custody(1))

lemma calm_mem_stable: "mem_stable (calm P)"
  by (simp add: mem_stable_def calm_def core_inv_def contents_def)

lemma forced_not_poisoned: "KEY_REGISTRY w \<noteq> LazyPoisoned \<Longrightarrow> KEY_REGISTRY (forced w) \<noteq> LazyPoisoned"
  by (simp add: forced_def split: lazy_registry.splits)

lemma quiet_ready:
  fixes m :: "('x, 'z custody_scheme, 'a) rust"
  assumes "threads_granted E" and y: "yields UNIV (core_inv P) R m"
    and ok: "\<And>w. core_inv P w \<Longrightarrow> usable E w \<Longrightarrow> KEY_REGISTRY w \<noteq> LazyPoisoned \<Longrightarrow>
        (\<exists>a. fst (m w) = Ok a) \<and> KEY_REGISTRY (snd (m w)) \<noteq> LazyPoisoned"
  shows "quiet (calm P) R m"
  unfolding quiet_alt
proof (intro allI impI)
  fix w :: "'z custody_scheme"
  assume c: "calm P w"
  have i: "core_inv P w" "usable E w" "KEY_REGISTRY w \<noteq> LazyPoisoned"
    using calm_usable [OF assms(1) c] c by (simp_all add: calm_def)
  show "calm P (snd (m w)) \<and> fst (m w) \<noteq> Panicked \<and> (\<forall>a. fst (m w) = Ok a \<longrightarrow> R a)"
    using ok [OF i] y i(1) by (auto simp: yields_def hoare_def calm_def)
qed

lemma quiet_static:
  assumes "threads_granted E" and "zeroize_spec E"
  shows "P rec \<Longrightarrow> quiet (calm P) (\<lambda>_. True) (static_add_key E rec)"
    and "quiet (calm P) (\<lambda>_. True) (static_remove_key E h)"
    and "quiet (calm P) (\<lambda>_. True) (static_remove_all_keys E)"
    and "quiet (calm P) (\<lambda>r. \<forall>rec. r = Some rec \<longrightarrow> P rec) (static_get_key E h)"
    and "quiet (calm P) (\<lambda>r. \<forall>m \<in> set (fst r). \<exists>rec. P rec \<and> meta rec = m) (static_list_all_keys E off lim)"
proof -
  note ready = quiet_ready [OF assms(1)]
  show "quiet (calm P) (\<lambda>_. True) (static_add_key E rec)" if "P rec"
    by (rule ready [OF yields_True [OF keeps_static_add_key [where P = P, OF assms(2) that]]])
      (simp_all add: static_add_key_eq)
  show "quiet (calm P) (\<lambda>_. True) (static_remove_key E h)"
    by (rule ready [OF yields_True [OF keeps_static_remove_key]]) (simp_all add: static_remove_key_eq)
  show "quiet (calm P) (\<lambda>_. True) (static_remove_all_keys E)"
  proof (rule ready [OF yields_True [OF keeps_static_remove_all_keys [OF assms(2)]]])
    fix w :: "'z custody_scheme"
    assume "core_inv P w" and "usable E w"
    then show "(\<exists>a. fst (static_remove_all_keys E w) = Ok a) \<and> KEY_REGISTRY (snd (static_remove_all_keys E w)) \<noteq> LazyPoisoned"
      using static_remove_all_keys_eq [of P w E] by auto
  qed simp
  show "quiet (calm P) (\<lambda>r. \<forall>rec. r = Some rec \<longrightarrow> P rec) (static_get_key E h)"
    by (rule ready [OF yields_static_get_key]) (simp add: static_get_key_eq forced_not_poisoned)
  show "quiet (calm P) (\<lambda>r. \<forall>m \<in> set (fst r). \<exists>rec. P rec \<and> meta rec = m) (static_list_all_keys E off lim)"
    by (rule ready [OF yields_static_list_all_keys]) (simp add: static_list_all_keys_eq forced_not_poisoned)
qed

section \<open>The closures of the key protection core\<close>

lemma record_ok_handle: "record_ok E rec \<Longrightarrow> length (as_bytes (meta_id (meta rec))) = 16"
  by (simp add: record_ok_def)

lemma quiet_generate_kem_keypair_body:
  assumes "hpke_spec E" "uuid_spec E" "zeroize_spec E" "secretmem_spec E" "threads_granted E"
  shows "quiet (calm (kps_record E)) (\<lambda>_. True) (generate_kem_keypair_body E algo_ptr algo_len binding_pubkey
     binding_pubkey_len expiry_secs out_uuid out_pubkey out_pubkey_len :: (Status, 'e world, unit) rust)"
proof -
  note ms = calm_machine_stable [OF assms(3)]
  have add: "quiet (calm (kps_record E)) (\<lambda>(h, pk). length (as_bytes h) = 16)
      (generate_kem_keypair_internal E algo b e :: (Status, 'e world, uuid \<times> PublicKey) rust)"
    if "length (PublicKey_as_bytes b) = 32" for algo b e
    unfolding generate_kem_keypair_internal_def Let_def
    by (rule quiet_bindM [OF quiet_create(1) [OF assms(1,2,4) ms]])
      (use that in \<open>auto simp: kps_record_def record_ok_handle
        intro!: quiet_bindM [OF quiet_static(1) [OF assms(5,3)]] quiet_basic\<close>)
  show ?thesis
    unfolding generate_kem_keypair_body_def
    by (intro quiet_if quiet_basic(2) quiet_bindM [OF quiet_memory(1)] quiet_bindM [OF quiet_memory(2)]
        quiet_bindM [OF quiet_crypto(5) [OF ms]] quiet_bindM [OF quiet_basic(3)] quiet_bindM [OF add])
      (auto intro!: quiet_basic(2) quiet_bindM [OF quiet_writes(1) [OF calm_mem_stable]] quiet_writes(1) [OF calm_mem_stable])
qed

lemma quiet_destroy_kem_key_body:
  assumes "zeroize_spec E" "threads_granted E"
  shows "quiet (calm P) (\<lambda>_. True) (destroy_kem_key_body E uuid_bytes :: (Status, 'e world, unit) rust)"
  unfolding destroy_kem_key_body_def
  by (intro quiet_if quiet_basic(2) quiet_bindM [OF quiet_memory(1)] quiet_bindM [OF quiet_basic(3)]
      quiet_bindM [OF quiet_static(2) [OF assms(2,1)]] quiet_basic(4)
      machine_stable_drop [OF calm_machine_stable [OF assms(1)]])

lemma quiet_decap_and_seal_body:
  assumes "zeroize_spec E" "threads_granted E"
  shows "quiet (calm P) (\<lambda>_. True) (decap_and_seal_body E uuid_bytes encapsulated_key encapsulated_key_len aad aad_len
     out_encapsulated_key out_encapsulated_key_len out_ciphertext out_ciphertext_len :: (Status, 'e world, unit) rust)"
proof -
  note ms = calm_machine_stable [OF assms(1)]
  have internal: "quiet (calm P) (\<lambda>_. True) (decap_and_seal_internal E u e a o1 o2 :: (Status, 'e world, unit) rust)"
    for u e a o1 o2
    unfolding decap_and_seal_internal_def
    by (intro quiet_bindM [OF quiet_static(4) [OF assms(2,1)]] quiet_bindM [OF quiet_basic(3)])
      (auto split: KeySpec.splits prod.splits
        intro!: quiet_basic(2) quiet_bindM [OF quiet_crypto(1) [OF ms]] quiet_bindM [OF quiet_crypto(3) [OF ms]]
          quiet_bindM [OF quiet_writes(1) [OF calm_mem_stable]] quiet_writes(1) [OF calm_mem_stable])
  have aad: "quiet (calm P) (\<lambda>_. True) (if b then from_raw_parts aad aad_len else returnM [] :: (Status, 'e world, bytes) rust)"
    for b by (simp add: quiet_rules)
  show ?thesis
    unfolding decap_and_seal_body_def
    by (intro quiet_if quiet_basic(2) quiet_bindM [OF quiet_memory(1)] quiet_bindM [OF quiet_memory(2)]
        quiet_bindM [OF aad] quiet_bindM [OF quiet_basic(3)] internal)
qed

lemma quiet_get_kem_key_body:
  assumes "zeroize_spec E" "threads_granted E"
  shows "quiet (calm P) (\<lambda>_. True) (get_kem_key_body E uuid_bytes out_kem_pubkey out_kem_pubkey_len out_binding_pubkey
     out_binding_pubkey_len out_algo out_algo_len out_remaining_lifespan_secs :: (Status, 'e world, unit) rust)"
proof -
  note ms = calm_machine_stable [OF assms(1)]
  have internal: "quiet (calm P) (\<lambda>_. True) (get_kem_key_internal E u :: (Status, 'e world, _) rust)" for u
    unfolding get_kem_key_internal_def Let_def
    by (intro quiet_bindM [OF quiet_static(4) [OF assms(2,1)]] quiet_bindM [OF quiet_basic(3)])
      (auto split: KeySpec.splits intro!: quiet_basic quiet_bindM [OF quiet_crypto(4) [OF ms]] simp del: bindM_Instant_now)
  show ?thesis
    unfolding get_kem_key_body_def Let_def
    by (intro quiet_if quiet_basic(2) quiet_bindM [OF quiet_memory(1)] quiet_bindM [OF quiet_memory(2)]
        quiet_bindM [OF quiet_memory(4)] quiet_bindM [OF quiet_memory(5)] quiet_bindM [OF quiet_basic(3)]
        quiet_bindM [OF internal])
      (auto split: prod.splits intro!: quiet_basic(2) quiet_bindM [OF quiet_writes(1) [OF calm_mem_stable]]
        quiet_bindM [OF quiet_writes(2) [OF calm_mem_stable]] quiet_bindM [OF quiet_writes(3) [OF calm_mem_stable]]
        quiet_writes(3) [OF calm_mem_stable])
qed

lemma quiet_fill_kem_entries:
  assumes "zeroize_spec E"
  shows "quiet (calm P) (\<lambda>_. True) (fill_kem_entries E entries i metas)"
proof (induction metas arbitrary: i)
  case (Cons m metas)
  then show ?case
    by (auto simp: Let_def split: KeySpec.splits simp del: bindM_Instant_now
        intro!: quiet_basic quiet_bindM [OF quiet_crypto(4) [OF calm_machine_stable [OF assms]]]
          quiet_bindM [OF quiet_writes(4) [OF calm_mem_stable]])
qed (simp add: quiet_basic)

lemma quiet_enumerate_kem_keys_body:
  assumes "zeroize_spec E" "threads_granted E"
  shows "quiet (calm P) (\<lambda>_. True) (enumerate_kem_keys_body E out_entries max_entries offset out_has_more)"
proof -
  have internal: "quiet (calm P) (\<lambda>_. True) (enumerate_kem_keys_internal E entries off)" for entries off
    unfolding enumerate_kem_keys_internal_def Let_def
    by (rule quiet_bindM [OF quiet_static(5) [OF assms(2,1)]])
      (auto split: prod.splits intro!: quiet_bindM [OF quiet_fill_kem_entries [OF assms(1)]] quiet_basic)
  show ?thesis
    unfolding enumerate_kem_keys_body_def
    by (intro quiet_if quiet_basic(2) quiet_bindM [OF quiet_memory(3)] quiet_bindM [OF internal])
      (auto split: option.splits intro!: quiet_basic quiet_bindM [OF quiet_writes(3) [OF calm_mem_stable]])
qed

lemma quiet_kps_body:
  assumes "crates_spec E" "secretmem_spec E" "threads_granted E"
  shows "quiet (calm (kps_record E)) (\<lambda>_. True) (kps_body E c :: (Status, 'e world, unit) rust)"
  using assms by (cases c) (simp_all add: crates_spec_def quiet_generate_kem_keypair_body quiet_destroy_kem_key_body
      quiet_decap_and_seal_body quiet_get_kem_key_body)

section \<open>The closures of the workload core\<close>

lemma quiet_generate_binding_keypair_body:
  assumes "hpke_spec E" "uuid_spec E" "zeroize_spec E" "secretmem_spec E" "threads_granted E"
  shows "quiet (calm (ws_record E)) (\<lambda>_. True) (generate_binding_keypair_body E algo_ptr algo_len expiry_secs
     out_uuid out_pubkey out_pubkey_len :: (Status, 'e world, unit) rust)"
proof -
  note ms = calm_machine_stable [OF assms(3)]
  have add: "quiet (calm (ws_record E)) (\<lambda>(h, pk). length (as_bytes h) = 16)
      (generate_binding_keypair_internal E algo e :: (Status, 'e world, uuid \<times> PublicKey) rust)" for algo e
    unfolding generate_binding_keypair_internal_def Let_def
    by (rule quiet_bindM [OF quiet_create(2) [OF assms(1,2,4) ms]])
      (auto simp: ws_record_def record_ok_handle
        intro!: quiet_bindM [OF quiet_static(1) [OF assms(5,3)]] quiet_basic)
  show ?thesis
    unfolding generate_binding_keypair_body_def
    by (intro quiet_if quiet_basic(2) quiet_bindM [OF quiet_memory(1)] quiet_bindM [OF quiet_memory(2)]
        quiet_bindM [OF quiet_basic(3)] quiet_bindM [OF add])
      (auto intro!: quiet_basic(2) quiet_bindM [OF quiet_writes(1) [OF calm_mem_stable]] quiet_writes(1) [OF calm_mem_stable])
qed

lemma quiet_destroy_binding_bodies:
  assumes "zeroize_spec E" "threads_granted E"
  shows "quiet (calm P) (\<lambda>_. True) (destroy_binding_key_body E uuid_bytes :: (Status, 'e world, unit) rust)"
    and "quiet (calm P) (\<lambda>_. True) (destroy_all_binding_keys_body E :: (Status, 'e world, unit) rust)"
proof -
  show "quiet (calm P) (\<lambda>_. True) (destroy_binding_key_body E uuid_bytes :: (Status, 'e world, unit) rust)"
    unfolding destroy_binding_key_body_def
    by (intro quiet_if quiet_basic(2) quiet_bindM [OF quiet_memory(1)] quiet_bindM [OF quiet_basic(3)]
        quiet_bindM [OF quiet_static(2) [OF assms(2,1)]] quiet_basic(4)
        machine_stable_drop [OF calm_machine_stable [OF assms(1)]])
  show "quiet (calm P) (\<lambda>_. True) (destroy_all_binding_keys_body E :: (Status, 'e world, unit) rust)"
    unfolding destroy_all_binding_keys_body_def
    by (rule quiet_bindM [OF quiet_static(3) [OF assms(2,1)]]) (rule quiet_basic(1), rule TrueI)
qed

lemma quiet_open_body:
  assumes "zeroize_spec E" "threads_granted E"
  shows "quiet (calm P) (\<lambda>_. True) (open_body E uuid_bytes enc enc_len ciphertext ciphertext_len aad aad_len
     out_plaintext out_plaintext_len :: (Status, 'e world, unit) rust)"
proof -
  note ms = calm_machine_stable [OF assms(1)]
  have internal: "quiet (calm P) (\<lambda>_. True) (open_internal E u e c a :: (Status, 'e world, SecretBox) rust)" for u e c a
    unfolding open_internal_def
    by (intro quiet_bindM [OF quiet_static(4) [OF assms(2,1)]] quiet_bindM [OF quiet_basic(3)])
      (auto split: KeySpec.splits intro!: quiet_basic(2) quiet_crypto(2) [OF ms])
  have aad: "quiet (calm P) (\<lambda>_. True) (if b then from_raw_parts aad aad_len else returnM [] :: (Status, 'e world, bytes) rust)"
    for b by (simp add: quiet_rules)
  show ?thesis
    unfolding open_body_def
    by (intro quiet_if quiet_basic(2) quiet_bindM [OF quiet_memory(1)] quiet_bindM [OF quiet_memory(2)]
        quiet_bindM [OF aad] quiet_bindM [OF quiet_basic(3)] quiet_bindM [OF internal] quiet_writes(1) [OF calm_mem_stable])
      auto
qed

lemma quiet_get_binding_key_body:
  assumes "zeroize_spec E" "threads_granted E"
  shows "quiet (calm P) (\<lambda>_. True) (get_binding_key_body E uuid_bytes out_pubkey out_pubkey_len out_algo out_algo_len
     :: (Status, 'e world, unit) rust)"
proof -
  have internal: "quiet (calm P) (\<lambda>_. True) (get_binding_key_internal E u :: (Status, 'e world, _) rust)" for u
    unfolding get_binding_key_internal_def
    by (intro quiet_bindM [OF quiet_static(4) [OF assms(2,1)]] quiet_bindM [OF quiet_basic(3)])
      (auto split: KeySpec.splits intro!: quiet_basic)
  show ?thesis
    unfolding get_binding_key_body_def Let_def
    by (intro quiet_if quiet_basic(2) quiet_bindM [OF quiet_memory(1)] quiet_bindM [OF quiet_memory(2)]
        quiet_bindM [OF quiet_memory(4)] quiet_bindM [OF quiet_basic(3)] quiet_bindM [OF internal])
      (auto split: prod.splits intro!: quiet_basic(2) quiet_bindM [OF quiet_writes(1) [OF calm_mem_stable]]
        quiet_bindM [OF quiet_writes(2) [OF calm_mem_stable]] quiet_writes(3) [OF calm_mem_stable])
qed

lemma quiet_fill_binding_entries:
  assumes "zeroize_spec E"
  shows "quiet (calm P) (\<lambda>_. True) (fill_binding_entries E entries i metas)"
proof (induction metas arbitrary: i)
  case (Cons m metas)
  then show ?case
    by (auto simp: Let_def split: KeySpec.splits simp del: bindM_Instant_now
        intro!: quiet_basic quiet_bindM [OF quiet_crypto(4) [OF calm_machine_stable [OF assms]]]
          quiet_bindM [OF quiet_writes(4) [OF calm_mem_stable]])
qed (simp add: quiet_basic)

lemma quiet_enumerate_binding_keys_body:
  assumes "zeroize_spec E" "threads_granted E"
  shows "quiet (calm P) (\<lambda>_. True) (enumerate_binding_keys_body E out_entries max_entries offset out_has_more)"
proof -
  have internal: "quiet (calm P) (\<lambda>_. True) (enumerate_binding_keys_internal E entries off)" for entries off
    unfolding enumerate_binding_keys_internal_def Let_def
    by (rule quiet_bindM [OF quiet_static(5) [OF assms(2,1)]])
      (auto split: prod.splits intro!: quiet_bindM [OF quiet_fill_binding_entries [OF assms(1)]] quiet_basic)
  show ?thesis
    unfolding enumerate_binding_keys_body_def
    by (intro quiet_if quiet_basic(2) quiet_bindM [OF quiet_memory(3)] quiet_bindM [OF internal])
      (auto split: option.splits intro!: quiet_basic quiet_bindM [OF quiet_writes(3) [OF calm_mem_stable]])
qed

lemma quiet_ws_body:
  assumes "crates_spec E" "secretmem_spec E" "threads_granted E"
  shows "quiet (calm (ws_record E)) (\<lambda>_. True) (ws_body E c :: (Status, 'e world, unit) rust)"
  using assms by (cases c) (simp_all add: crates_spec_def quiet_generate_binding_keypair_body
      quiet_destroy_binding_bodies quiet_open_body quiet_get_binding_key_body)

section \<open>Reachable states\<close>

lemma quiet_keeps: "quiet I R m \<Longrightarrow> keeps UNIV I m"
  by (simp add: quiet_alt keeps_alt)

lemma calm_events: "calm P w \<Longrightarrow> calm P (w\<lparr>events := ev\<rparr>)"
  by (simp add: calm_def core_inv_events)

lemma calm_reaper: "zeroize_spec E \<Longrightarrow> calm P w \<Longrightarrow> calm P (static_reaper_wakeup E w)"
  using reaper_wakeup_core_inv [of E P w] reaper_wakeup_eq [of P w _ E]
  by (cases "KEY_REGISTRY w") (auto simp: calm_def static_reaper_wakeup_def)

lemma calm_telemetry:
  assumes "key_manager_init_telemetry_ffi p n w = (u, w')" and "calm P w"
  shows "calm P w'"
proof -
  have "KEY_REGISTRY w' = KEY_REGISTRY w"
    using assms(1) by (auto simp: key_manager_init_telemetry_ffi_def from_raw_parts_def
        split: if_splits option.splits obj.splits)
  then show ?thesis
    using assms(2) init_telemetry_step(1) [OF assms(1)] by (simp add: calm_def)
qed

lemma calm_started: "started w \<Longrightarrow> calm P w"
  using started_inv [of w P] by (auto simp: calm_def started_def init_world_def dest: arg_cong [where f = KEY_REGISTRY])

definition host_spec :: "('s, 'r, 'p) env \<Rightarrow> bool" where
  "host_spec E \<longleftrightarrow> crates_spec E \<and> secretmem_spec E \<and> threads_granted E"

lemma host_specD:
  assumes "host_spec E"
  shows "crates_spec E" "secretmem_spec E" "threads_granted E" "zeroize_spec E"
  using assms by (simp_all add: host_spec_def crates_spec_def)

lemma kps_step_calm:
  assumes "host_spec E" and "calm (kps_record E) w" and "kps_step E w w'"
  shows "calm (kps_record E) w'"
  using assms(3)
proof (cases rule: kps_step.cases)
  case (kps_call c r)
  then show ?thesis
    using ffi_call_keeps [OF quiet_keeps [OF quiet_kps_body [OF host_specD(1-3) [OF assms(1)]]] calm_events assms(2)]
    by (simp add: kps_run_body)
next
  case (kps_enumerate p n es out_has_more offset v)
  then show ?thesis
    using ffi_call_i32_keeps [OF quiet_keeps [OF quiet_enumerate_kem_keys_body [OF host_specD(4,3) [OF assms(1)]]]
        calm_events assms(2)] by (simp add: key_manager_enumerate_kem_keys_def)
next
  case (kps_telemetry p n u)
  then show ?thesis using calm_telemetry assms(2) by blast
next
  case kps_reaper
  then show ?thesis using calm_reaper [OF host_specD(4) [OF assms(1)] assms(2)] by simp
next
  case (kps_caller m)
  then show ?thesis using calm_mem_stable assms(2) by (auto simp: mem_stable_def)
qed

lemma ws_step_calm:
  assumes "host_spec E" and "calm (ws_record E) w" and "ws_step E w w'"
  shows "calm (ws_record E) w'"
  using assms(3)
proof (cases rule: ws_step.cases)
  case (ws_call c r)
  then show ?thesis
    using ffi_call_keeps [OF quiet_keeps [OF quiet_ws_body [OF host_specD(1-3) [OF assms(1)]]] calm_events assms(2)]
    by (simp add: ws_run_body)
next
  case (ws_enumerate p n es out_has_more offset v)
  then show ?thesis
    using ffi_call_i32_keeps [OF quiet_keeps [OF quiet_enumerate_binding_keys_body [OF host_specD(4,3) [OF assms(1)]]]
        calm_events assms(2)] by (simp add: key_manager_enumerate_binding_keys_def)
next
  case (ws_telemetry p n u)
  then show ?thesis using calm_telemetry assms(2) by blast
next
  case ws_reaper
  then show ?thesis using calm_reaper [OF host_specD(4) [OF assms(1)] assms(2)] by simp
next
  case (ws_caller m)
  then show ?thesis using calm_mem_stable assms(2) by (auto simp: mem_stable_def)
qed

interpretation kps_calm: invariant_system started "kps_step E" "\<lambda>w. host_spec E \<longrightarrow> calm (kps_record E) w"
  for E :: "('s, 'r, 'p) env"
  by unfold_locales (auto simp: calm_started dest: kps_step_calm)

interpretation ws_calm: invariant_system started "ws_step E" "\<lambda>w. host_spec E \<longrightarrow> calm (ws_record E) w"
  for E :: "('s, 'r, 'p) env"
  by unfold_locales (auto simp: calm_started dest: ws_step_calm)

text \<open>A body that is defined, does not panic and fails only as listed, under the wrapper.\<close>

lemma ffi_call_answers:
  assumes "quiet I (\<lambda>_. True) body" and "keeps ES J body" and "I w" and "J w" and "defined_at body w"
  shows "\<exists>s w'. ffi_call op body w = (Returns s, w') \<and> s \<in> insert Success ES"
proof (cases "body w")
  case (Pair r w')
  have "r \<noteq> Panicked" "r \<noteq> Undefined" "\<And>e. r = Err e \<Longrightarrow> e \<in> ES"
    using assms Pair keeps_ErrD [OF assms(2,4)] by (auto simp: quiet_alt defined_at_def)
  then show ?thesis
    using Pair by (cases r) (auto simp: ffi_call_def ffi_call_with_reporter_def)
qed

lemma ffi_call_i32_answers:
  assumes "quiet I (\<lambda>_. True) body" and "keeps {} J body" and "I w" and "J w" and "defined_at body w"
  shows "\<exists>v w'. ffi_call_i32 op body w = (Returns v, w') \<and> body w = (Ok v, w')"
proof (cases "body w")
  case (Pair r w')
  have "r \<noteq> Panicked" "r \<noteq> Undefined" "\<And>e. r \<noteq> Err e"
    using assms Pair keeps_ErrD [OF assms(2,4)] by (auto simp: quiet_alt defined_at_def)
  then show ?thesis
    using Pair by (cases r) (auto simp: ffi_call_i32_def ffi_call_i32_with_reporter_def)
qed

lemma enumerate_keeps_no_error:
  assumes "crates_spec E" and "\<not> is_null p"
  shows "keeps {} (core_inv (kps_record E)) (enumerate_kem_keys_body E p n offset out_has_more)"
    and "keeps {} (core_inv (ws_record E)) (enumerate_binding_keys_body E p n offset out_has_more)"
proof -
  note crates = assms(1) [unfolded crates_spec_def]
  have ms: "machine_stable E (core_inv P)" for P :: "KeyRecord \<Rightarrow> bool"
    using machine_stable_core_inv crates by blast
  have "keeps {} (core_inv (kps_record E)) (enumerate_kem_keys_internal E entries off)" for entries off
    unfolding enumerate_kem_keys_internal_def Let_def
    by (rule keeps_bindM_yields [OF yields_static_list_all_keys])
      (use crates in \<open>auto split: prod.splits intro!: keeps_rules keeps_fill_kem_entries [OF ms mem_stable_core_inv]\<close>)
  then show "keeps {} (core_inv (kps_record E)) (enumerate_kem_keys_body E p n offset out_has_more)"
    unfolding enumerate_kem_keys_body_def using assms(2)
    by (auto split: option.splits intro!: keeps_rules keeps_writes [OF mem_stable_core_inv])
  have "keeps {} (core_inv (ws_record E)) (enumerate_binding_keys_internal E entries off)" for entries off
    unfolding enumerate_binding_keys_internal_def Let_def
    by (rule keeps_bindM_yields [OF yields_static_list_all_keys])
      (use crates in \<open>auto split: prod.splits intro!: keeps_rules keeps_fill_binding_entries [OF ms mem_stable_core_inv]\<close>)
  then show "keeps {} (core_inv (ws_record E)) (enumerate_binding_keys_body E p n offset out_has_more)"
    unfolding enumerate_binding_keys_body_def using assms(2)
    by (auto split: option.splits intro!: keeps_rules keeps_writes [OF mem_stable_core_inv])
qed

section \<open>Properties\<close>

lemma ref_host: "host_spec ref_env"
proof -
  have "threads_granted ref_env" by (simp add: threads_granted_def ref_env_def)
  then show ?thesis by (simp only: host_spec_def ref_crates ref_secretmem_spec)
qed

text \<open>
  C24. The key protection core always answers. In every state it can reach, every call whose pointers are as
  the safety sections ask returns; nothing panics, no lock is ever poisoned, and the status is \<^verbatim>\<open>Success\<close> or one of
  seven errors, never \<^verbatim>\<open>InternalError\<close>. Enumeration with a valid array returns and reports no failure. The host is
  assumed to start the reaper thread and to map secret memory in the size that was asked for.
\<close>

theorem kps_always_answers:
  assumes "host_spec E" and "reachable started (kps_step E) w"
  shows "(kps_safe c w \<longrightarrow> (\<exists>s w'. kps_run E c w = (Returns s, w')
        \<and> s \<in> {Success, InvalidArgument, NotFound, UnsupportedAlgorithm, CryptoError, InvalidKey,
          DecapsulationFailure, EncryptionFailure}))
   \<and> (enumerate_safe p n es out_has_more w \<and> \<not> is_null p \<longrightarrow>
        (\<exists>v w'. key_manager_enumerate_kem_keys E p n offset out_has_more w = (Returns v, w') \<and> events w' = events w))"
proof (intro conjI impI)
  have calm: "calm (kps_record E) w"
    using kps_calm.reachable_inv [OF assms(2)] assms(1) by blast
  then have inv: "core_inv (kps_record E) w" by (simp add: calm_def)
  note crates = host_specD(1) [OF assms(1), unfolded crates_spec_def]
  show "\<exists>s w'. kps_run E c w = (Returns s, w')
      \<and> s \<in> {Success, InvalidArgument, NotFound, UnsupportedAlgorithm, CryptoError, InvalidKey,
          DecapsulationFailure, EncryptionFailure}" if "kps_safe c w"
    using ffi_call_answers [OF quiet_kps_body [OF host_specD(1-3) [OF assms(1)]] kps_body_keeps calm inv
        kps_body_defined [OF that], of "kps_operation c"] crates by (simp add: kps_run_body)
  show "\<exists>v w'. key_manager_enumerate_kem_keys E p n offset out_has_more w = (Returns v, w') \<and> events w' = events w"
    if arr: "enumerate_safe p n es out_has_more w \<and> \<not> is_null p"
  proof -
    obtain v w' where "key_manager_enumerate_kem_keys E p n offset out_has_more w = (Returns v, w')"
      and "enumerate_kem_keys_body E p n offset out_has_more w = (Ok v, w')"
      using ffi_call_i32_answers [OF quiet_enumerate_kem_keys_body [OF host_specD(4,3) [OF assms(1)]]
          enumerate_keeps_no_error(1) [OF host_specD(1) [OF assms(1)]] calm inv
          enumerate_kem_keys_body_defined [OF arr [THEN conjunct1]]] arr
      unfolding key_manager_enumerate_kem_keys_def by blast
    then show ?thesis using enumerate_kem.log_untouched by blast
  qed
qed

theorem kps_always_answers_witness:
  "\<exists>s w'. kps_run ref_env (DestroyKem 2) (ref_world ([] :: KpsKeyInfo list)) = (Returns s, w')
     \<and> s \<in> {Success, InvalidArgument, NotFound, UnsupportedAlgorithm, CryptoError, InvalidKey,
          DecapsulationFailure, EncryptionFailure}"
proof -
  have "reachable started (kps_step ref_env) (ref_world ([] :: KpsKeyInfo list))"
    by (rule reachable_init) (rule ref_world_started)
  moreover have "kps_safe (DestroyKem 2) (ref_world ([] :: KpsKeyInfo list))"
    by (simp add: valid_buf_def ref_mem_def)
  ultimately show ?thesis
    using kps_always_answers [OF ref_host, of "ref_world ([] :: KpsKeyInfo list)" "DestroyKem 2"] by blast
qed

text \<open>
  C25. The workload core always answers too: in every state it can reach, a call with valid pointers returns
  \<^verbatim>\<open>Success\<close> or one of five errors, never \<^verbatim>\<open>InternalError\<close>, and enumeration reports no failure.
\<close>

theorem ws_always_answers:
  assumes "host_spec E" and "reachable started (ws_step E) w"
  shows "(ws_safe c w \<longrightarrow> (\<exists>s w'. ws_run E c w = (Returns s, w')
        \<and> s \<in> {Success, InvalidArgument, NotFound, UnsupportedAlgorithm, CryptoError, DecryptionFailure}))
   \<and> (enumerate_safe p n es out_has_more w \<and> \<not> is_null p \<longrightarrow>
        (\<exists>v w'. key_manager_enumerate_binding_keys E p n offset out_has_more w = (Returns v, w') \<and> events w' = events w))"
proof (intro conjI impI)
  have calm: "calm (ws_record E) w"
    using ws_calm.reachable_inv [OF assms(2)] assms(1) by blast
  then have inv: "core_inv (ws_record E) w" by (simp add: calm_def)
  note crates = host_specD(1) [OF assms(1), unfolded crates_spec_def]
  show "\<exists>s w'. ws_run E c w = (Returns s, w')
      \<and> s \<in> {Success, InvalidArgument, NotFound, UnsupportedAlgorithm, CryptoError, DecryptionFailure}" if "ws_safe c w"
    using ffi_call_answers [OF quiet_ws_body [OF host_specD(1-3) [OF assms(1)]] ws_body_keeps calm inv
        ws_body_defined [OF that], of "ws_operation c"] crates by (simp add: ws_run_body)
  show "\<exists>v w'. key_manager_enumerate_binding_keys E p n offset out_has_more w = (Returns v, w') \<and> events w' = events w"
    if arr: "enumerate_safe p n es out_has_more w \<and> \<not> is_null p"
  proof -
    obtain v w' where "key_manager_enumerate_binding_keys E p n offset out_has_more w = (Returns v, w')"
      and "enumerate_binding_keys_body E p n offset out_has_more w = (Ok v, w')"
      using ffi_call_i32_answers [OF quiet_enumerate_binding_keys_body [OF host_specD(4,3) [OF assms(1)]]
          enumerate_keeps_no_error(2) [OF host_specD(1) [OF assms(1)]] calm inv
          enumerate_binding_keys_body_defined [OF arr [THEN conjunct1]]] arr
      unfolding key_manager_enumerate_binding_keys_def by blast
    then show ?thesis using enumerate_binding.log_untouched by blast
  qed
qed

theorem ws_always_answers_witness:
  "\<exists>s w'. ws_run ref_env (DestroyBinding 2) (ref_world ([] :: WsKeyInfo list)) = (Returns s, w')
     \<and> s \<in> {Success, InvalidArgument, NotFound, UnsupportedAlgorithm, CryptoError, DecryptionFailure}"
proof -
  have "reachable started (ws_step ref_env) (ref_world ([] :: WsKeyInfo list))"
    by (rule reachable_init) (rule ref_world_started)
  moreover have "ws_safe (DestroyBinding 2) (ref_world ([] :: WsKeyInfo list))"
    by (simp add: valid_buf_def ref_mem_def)
  ultimately show ?thesis
    using ws_always_answers [OF ref_host, of "ref_world ([] :: WsKeyInfo list)" "DestroyBinding 2"] by blast
qed



end
