(* ===== verification/Confidentiality.thy ===== *)
theory Confidentiality
  imports No_Panic
begin

text \<open>
  What a call can learn of the private keys. Two worlds are \<open>same_but K\<close> if they differ only in the
  private keys of stored records whose handle is not in \<open>K\<close> (and in the regions already given back):
  same handles, same metadata, same clock, draws, log and caller's memory. \<open>low K R m m'\<close> is the
  two-run triple: from such worlds, \<open>m\<close> and \<open>m'\<close> end in such worlds with outcomes related by \<open>R\<close>.
  The two theorems say that no call of a core, enumeration or wake-up of the reaper depends on a private
  key other than the one a decapsulation or an opening names.
\<close>

section \<open>Worlds that differ in private keys\<close>

definition same_record :: "KeyHandle set \<Rightarrow> KeyHandle \<times> KeyRecord \<Rightarrow> KeyHandle \<times> KeyRecord \<Rightarrow> bool" where
  "same_record K x y \<longleftrightarrow> fst x = fst y \<and> meta (snd x) = meta (snd y) \<and> (fst x \<in> K \<longrightarrow> snd x = snd y)"

definition same_registry :: "KeyHandle set \<Rightarrow> KeyRegistry \<Rightarrow> KeyRegistry \<Rightarrow> bool" where
  "same_registry K reg reg' \<longleftrightarrow> list_all2 (same_record K) (keys reg) (keys reg') \<and> poisoned reg = poisoned reg'"

fun same_static :: "KeyHandle set \<Rightarrow> lazy_registry \<Rightarrow> lazy_registry \<Rightarrow> bool" where
  "same_static K Uninit s = (s = Uninit)"
| "same_static K LazyPoisoned s = (s = LazyPoisoned)"
| "same_static K (Ready reg) s = (case s of Ready reg' \<Rightarrow> same_registry K reg reg' | _ \<Rightarrow> False)"

definition same_but :: "KeyHandle set \<Rightarrow> 'e world \<Rightarrow> 'e world \<Rightarrow> bool" where
  "same_but K w v \<longleftrightarrow> clock w = clock v \<and> ticks w = ticks v \<and> draws w = draws v \<and> syscalls w = syscalls v
     \<and> same_static K (KEY_REGISTRY w) (KEY_REGISTRY v)
     \<and> TELEMETRY w = TELEMETRY v \<and> events w = events v \<and> mem w = mem v"

fun rel_out :: "('a \<Rightarrow> 'b \<Rightarrow> bool) \<Rightarrow> ('e, 'a) outcome \<Rightarrow> ('e, 'b) outcome \<Rightarrow> bool" where
  "rel_out R (Ok a) r = (case r of Ok b \<Rightarrow> R a b | _ \<Rightarrow> False)"
| "rel_out R (Err e) r = (r = Err e)"
| "rel_out R Panicked r = (r = Panicked)"
| "rel_out R Undefined r = (r = Undefined)"

definition low_at :: "KeyHandle set \<Rightarrow> ('a \<Rightarrow> 'b \<Rightarrow> bool) \<Rightarrow> ('x, 'e world, 'a) rust \<Rightarrow> ('x, 'e world, 'b) rust \<Rightarrow>
    'e world \<Rightarrow> 'e world \<Rightarrow> bool" where
  "low_at K R m m' w v \<longleftrightarrow> rel_out R (fst (m w)) (fst (m' v)) \<and> same_but K (snd (m w)) (snd (m' v))"

definition low :: "KeyHandle set \<Rightarrow> ('a \<Rightarrow> 'b \<Rightarrow> bool) \<Rightarrow> ('x, 'e world, 'a) rust \<Rightarrow> ('x, 'e world, 'b) rust \<Rightarrow> bool" where
  "low K R m m' \<longleftrightarrow> (\<forall>w v. same_but K w v \<longrightarrow> low_at K R m m' w v)"

section \<open>Lemmas: two-run triples\<close>

named_theorems low_rules \<open>computations that two runs share\<close>

lemma rel_out_cases:
  assumes "rel_out R r r'"
  obtains a b where "r = Ok a" "r' = Ok b" "R a b" | e where "r = Err e" "r' = Err e"
    | "r = Panicked" "r' = Panicked" | "r = Undefined" "r' = Undefined"
  using assms by (cases r; cases r') auto

lemma rel_out_eq [simp]: "rel_out (=) r r' \<longleftrightarrow> r = r'"
  by (cases r; cases r') auto

lemma rel_out_Ok [simp]: "rel_out R (Ok a) (Ok b) \<longleftrightarrow> R a b"
  by simp

lemma lowI: "(\<And>w v. same_but K w v \<Longrightarrow> low_at K R m m' w v) \<Longrightarrow> low K R m m'"
  by (simp add: low_def)

lemma low_bindM:
  fixes m :: "('x, 'e world, 'a) rust" and m' :: "('x, 'e world, 'b) rust"
  assumes "low K R m m'" and "\<And>a b. R a b \<Longrightarrow> low K S (f a) (f' b)"
  shows "low K S (bindM m f) (bindM m' f')"
proof (rule lowI)
  fix w v :: "'e world"
  assume "same_but K w v"
  then have "rel_out R (fst (m w)) (fst (m' v))" and s: "same_but K (snd (m w)) (snd (m' v))"
    using assms(1) by (auto simp: low_def low_at_def)
  then show "low_at K S (bindM m f) (bindM m' f') w v"
    by (cases "m w"; cases "m' v"; elim rel_out_cases)
      (use assms(2) in \<open>auto simp: low_at_def low_def bindM_def\<close>)
qed

text \<open>The rule for a computation whose result both runs share.\<close>

lemma low_bind: "low K (=) m m \<Longrightarrow> (\<And>a. low K S (f a) (f' a)) \<Longrightarrow> low K S (bindM m f) (bindM m f')"
  by (rule low_bindM [where R = "(=)"]) auto

lemma low_basic [low_rules]:
  "R a b \<Longrightarrow> low K R (returnM a) (returnM b)"
  "low K R (errM e) (errM e)" "low K R panicM panicM"
  "low K (=) (ok_orM x e) (ok_orM x e)"
  by (auto simp: low_def low_at_def basicM_defs ok_orM_def split: option.splits)

lemma low_updateM: "(\<And>w v. same_but K w v \<Longrightarrow> same_but K (f w) (g v)) \<Longrightarrow> low K (=) (updateM f) (updateM g)"
  by (simp add: low_def low_at_def updateM_def)

lemma low_ok_or: "rel_option R x y \<Longrightarrow> low K R (ok_orM x e) (ok_orM y e)"
  by (cases x; cases y) (auto intro: low_basic)

lemma low_if [low_rules]:
  "(b \<Longrightarrow> low K R m m') \<Longrightarrow> (\<not> b \<Longrightarrow> low K R n n') \<Longrightarrow> low K R (if b then m else n) (if b then m' else n')"
  by simp

lemma low_map_errM:
  fixes m :: "('x, 'e world, 'a) rust" and m' :: "('x, 'e world, 'b) rust"
  assumes "low K R m m'"
  shows "low K R (map_errM f m) (map_errM f m')"
proof (rule lowI)
  fix w v :: "'e world"
  assume "same_but K w v"
  then have "low_at K R m m' w v"
    using assms by (simp add: low_def)
  then show "low_at K R (map_errM f m) (map_errM f m') w v"
    unfolding low_at_def by (elim conjE rel_out_cases; cases "m w"; cases "m' v") (auto simp: map_errM_def)
qed

lemma low_unwindM:
  fixes m :: "('x, 'e world, 'a) rust" and m' :: "('x, 'e world, 'b) rust"
  assumes "low K R m m'" and "\<And>w v. same_but K w v \<Longrightarrow> same_but K (f w) (g v)"
  shows "low K R (unwindM f m) (unwindM g m')"
proof (rule lowI)
  fix w v :: "'e world"
  assume "same_but K w v"
  then have "low_at K R m m' w v"
    using assms by (simp add: low_def)
  then show "low_at K R (unwindM f m) (unwindM g m') w v"
    unfolding low_at_def
    by (elim conjE rel_out_cases; cases "m w"; cases "m' v") (auto simp: unwindM_def assms(2))
qed

section \<open>Lemmas: primitives\<close>

lemma same_butD:
  assumes "same_but K w v"
  shows "clock w = clock v" "ticks w = ticks v" "draws w = draws v" "syscalls w = syscalls v"
    "same_static K (KEY_REGISTRY w) (KEY_REGISTRY v)" "TELEMETRY w = TELEMETRY v" "events w = events v" "mem w = mem v"
  using assms by (simp_all add: same_but_def)

lemma low_memory [low_rules]:
  "low K (=) (from_raw_parts p len) (from_raw_parts p len)"
  "low K (=) (from_raw_parts_mut p len) (from_raw_parts_mut p len)"
  "low K (=) (entries_from_raw_parts_mut p len) (entries_from_raw_parts_mut p len)"
  "low K (=) (deref_usize p) (deref_usize p)" "low K (=) (deref_u64 p) (deref_u64 p)"
  by (auto simp: low_def low_at_def from_raw_parts_def from_raw_parts_mut_def entries_from_raw_parts_mut_def
      same_butD(8) deref_usize_def deref_u64_def bindM_def returnM_def split: option.splits obj.splits)

lemma low_writes [low_rules]:
  "low K (=) (copy_from_slice s src) (copy_from_slice s src)"
  "low K (=) (copy_prefix_from_slice s n src) (copy_prefix_from_slice s n src)"
  "low K (=) (store p x) (store p x)" "low K (=) (set_entry s i y) (set_entry s i y)"
  by (auto simp: low_def low_at_def copy_from_slice_def copy_prefix_from_slice_def store_def set_entry_def
      write_bytes_def same_but_def updateM_def panicM_def split: option.splits obj.splits)

lemma low_machine [low_rules]:
  "low K (=) Instant_now Instant_now" "low K (=) draw draw" "low K (=) syscall syscall"
  by (auto simp: low_def low_at_def machine_defs same_but_def)

lemma same_but_drop:
  assumes "same_but K w v"
  shows "same_but K (drop_all E recs w) (drop_all E recs' v)"
    "same_but K (KeyRecord_drop E rec w) (KeyRecord_drop E rec' v)"
    "same_but K (Vault_drop E vt w) (Vault_drop E vt' v)"
proof -
  show "same_but K (drop_all E recs w) (drop_all E recs' v)"
    "same_but K (KeyRecord_drop E rec w) (KeyRecord_drop E rec' v)"
    using assms by (simp_all add: same_but_def)
  show "same_but K (Vault_drop E vt w) (Vault_drop E vt' v)"
    using assms by (simp add: same_but_def Vault_drop_def)
qed

lemmas low_drop [low_rules] = low_updateM [OF same_but_drop(1)] low_updateM [OF same_but_drop(2)]
  low_updateM [OF same_but_drop(3)]

section \<open>Lemmas: creating keys\<close>

lemma low_keypair [low_rules]: "low K (=) (generate_keypair E alg) (generate_keypair E alg)"
  by (cases alg) (auto simp: generate_keypair_def x25519_generate_keypair_def simp del: bindM_draw
      split: option.splits prod.splits intro!: low_bind low_rules)

lemma low_Vault_new [low_rules]: "low K (=) (Vault_new E data) (Vault_new E data)"
  by (auto simp: Vault_new_def simp del: bindM_syscall split: option.splits intro!: low_bind low_rules)

lemma low_create_key_internal [low_rules]:
  "low K (=) (create_key_internal E algo expiry mk) (create_key_internal E algo expiry mk)"
  by (auto simp: create_key_internal_def Let_def simp del: bindM_draw bindM_Instant_now bindM_updateM
      split: option.splits intro!: low_bind low_rules low_map_errM)

lemma low_create [low_rules]:
  "low K (=) (create_binding_key E algo d) (create_binding_key E algo d)"
  "low K (=) (create_bound_kem_key E algo b d) (create_bound_kem_key E algo b d)"
  by (auto simp: create_binding_key_def create_bound_kem_key_def split: PublicKey.splits option.splits
      KemAlgorithm.splits intro!: low_rules)

section \<open>Lemmas: the registry\<close>

lemma same_recordI: "meta r = meta r' \<Longrightarrow> (h \<in> K \<Longrightarrow> r = r') \<Longrightarrow> same_record K (h, r) (h, r')"
  by (simp add: same_record_def)

lemma same_keys_get:
  "list_all2 (same_record K) ks ks' \<Longrightarrow>
    rel_option (\<lambda>r r'. same_record K (h, r) (h, r')) (map_of ks h) (map_of ks' h)"
  by (induction ks ks' rule: list_all2_induct) (auto simp: same_record_def)

lemma same_keys_filter:
  "list_all2 (same_record K) ks ks' \<Longrightarrow> (\<And>x. p x = q (fst x) (meta (snd x))) \<Longrightarrow>
    list_all2 (same_record K) (filter p ks) (filter p ks')"
  by (induction ks ks' rule: list_all2_induct) (auto simp: same_record_def)

lemma same_keys_meta:
  "list_all2 (same_record K) ks ks' \<Longrightarrow> map meta (hm_values ks) = map meta (hm_values ks')"
  by (induction ks ks' rule: list_all2_induct) (auto simp: same_record_def hm_values_def)

lemma map_insort_key: "map g (insort_key (\<lambda>x. f (g x)) x xs) = insort_key f (g x) (map g xs)"
  by (induction xs) auto

lemma map_sort_key: "map g (sort_key (\<lambda>x. f (g x)) xs) = sort_key f (map g xs)"
  by (induction xs) (auto simp: map_insort_key)

text \<open>The page of a listing is a function of the metadata.\<close>

lemma same_live:
  assumes "same_registry K reg reg'"
  shows "map meta (live_records now reg) = map meta (live_records now reg')"
proof -
  have "map meta (live_records now r) = filter (\<lambda>m. now < delete_after m) (map meta (hm_values (keys r)))" for r
    by (simp add: live_records_def filter_map o_def)
  then show ?thesis
    using same_keys_meta [of K "keys reg" "keys reg'"] assms by (simp add: same_registry_def)
qed

lemma same_listing:
  assumes "same_registry K reg reg'"
  shows "map meta (sort_key listing_key (live_records now reg)) = map meta (sort_key listing_key (live_records now reg'))"
    and "length (live_records now reg) = length (live_records now reg')"
proof -
  have "listing_key = (\<lambda>rec. (\<lambda>m. (created_at m, meta_id m)) (meta rec))"
    by (simp add: fun_eq_iff listing_key_def)
  then have "map meta (sort_key listing_key xs) = sort_key (\<lambda>m. (created_at m, meta_id m)) (map meta xs)" for xs
    by (simp add: map_sort_key [symmetric])
  then show "map meta (sort_key listing_key (live_records now reg)) = map meta (sort_key listing_key (live_records now reg'))"
    using same_live [OF assms] by simp
  show "length (live_records now reg) = length (live_records now reg')"
    using arg_cong [OF same_live [OF assms], of length] by simp
qed

lemma low_force_registry: "low K (same_registry K) (force_registry E) (force_registry E)"
proof (rule lowI)
  fix w v :: "'e world"
  assume s: "same_but K w v"
  note d = same_butD [OF s]
  show "low_at K (same_registry K) (force_registry E) (force_registry E) w v"
    using s d(5) by (cases "KEY_REGISTRY w"; cases "KEY_REGISTRY v")
      (auto simp: low_at_def force_registry_def basicM_defs d(4) same_but_def same_registry_def KeyRegistry_default_def)
qed

lemma low_set_registry:
  "same_registry K reg reg' \<Longrightarrow> low K (=) (updateM (KEY_REGISTRY_update (\<lambda>_. Ready reg)))
     (updateM (KEY_REGISTRY_update (\<lambda>_. Ready reg')))"
  by (rule low_updateM) (simp add: same_but_def)

lemma same_registry_update:
  assumes "same_registry K reg reg'"
  shows "same_registry K (reg\<lparr>keys := (h, rec) # filter (\<lambda>(j, v). j \<noteq> h) (keys reg)\<rparr>)
       (reg'\<lparr>keys := (h, rec) # filter (\<lambda>(j, v). j \<noteq> h) (keys reg')\<rparr>)"
    "same_registry K (reg\<lparr>keys := filter (\<lambda>(j, v). j \<noteq> h) (keys reg)\<rparr>)
       (reg'\<lparr>keys := filter (\<lambda>(j, v). j \<noteq> h) (keys reg')\<rparr>)"
    "same_registry K (reg\<lparr>keys := hm_retain (\<lambda>key. now < delete_after (meta key)) (keys reg)\<rparr>)
       (reg'\<lparr>keys := hm_retain (\<lambda>key. now < delete_after (meta key)) (keys reg')\<rparr>)"
proof -
  have f: "list_all2 (same_record K) (filter (\<lambda>(j, v). j \<noteq> h) (keys reg)) (filter (\<lambda>(j, v). j \<noteq> h) (keys reg'))"
    using assms by (intro same_keys_filter [where q = "\<lambda>j m. j \<noteq> h"]) (auto simp: same_registry_def)
  show "same_registry K (reg\<lparr>keys := (h, rec) # filter (\<lambda>(j, v). j \<noteq> h) (keys reg)\<rparr>)
       (reg'\<lparr>keys := (h, rec) # filter (\<lambda>(j, v). j \<noteq> h) (keys reg')\<rparr>)"
    "same_registry K (reg\<lparr>keys := filter (\<lambda>(j, v). j \<noteq> h) (keys reg)\<rparr>)
       (reg'\<lparr>keys := filter (\<lambda>(j, v). j \<noteq> h) (keys reg')\<rparr>)"
    using f assms by (auto simp: same_registry_def same_record_def [of K "(h, rec)"])
  show "same_registry K (reg\<lparr>keys := hm_retain (\<lambda>key. now < delete_after (meta key)) (keys reg)\<rparr>)
       (reg'\<lparr>keys := hm_retain (\<lambda>key. now < delete_after (meta key)) (keys reg')\<rparr>)"
    using assms same_keys_filter [where q = "\<lambda>j m. now < delete_after m", of K "keys reg" "keys reg'"]
    by (auto simp: same_registry_def hm_retain_def)
qed

lemma same_registry_poisoned: "same_registry K reg reg' \<Longrightarrow> poisoned reg = poisoned reg'"
  by (simp add: same_registry_def)

lemma low_add_key:
  assumes "same_registry K reg reg'"
  shows "low K (same_registry K) (add_key E rec reg) (add_key E rec reg')"
  unfolding add_key_def hm_insert_def same_registry_poisoned [OF assms] prod.case
  by (intro low_if low_unwindM low_basic same_but_drop low_bindM [OF low_drop(1)] same_registry_update(1) assms)

lemma low_static_add_key [low_rules]: "low K (=) (static_add_key E rec) (static_add_key E rec)"
  unfolding static_add_key_def
  by (intro low_bindM [OF low_unwindM [OF low_force_registry]] low_bindM [OF low_add_key] low_set_registry same_but_drop)

lemma low_static_remove_key:
  "low K (rel_option (\<lambda>r r'. meta r = meta r')) (static_remove_key E h) (static_remove_key E h)"
proof -
  have rem: "low K (\<lambda>(old, reg) (old', reg'). rel_option (\<lambda>r r'. meta r = meta r') old old' \<and> same_registry K reg reg')
      (remove_key h reg) (remove_key h reg')" if "same_registry K reg reg'" for reg reg'
    unfolding remove_key_def hm_remove_def same_registry_poisoned [OF that] prod.case
    using same_registry_update(2) [OF that] same_keys_get [of K "keys reg" "keys reg'" h] that
    by (intro low_if low_basic) (auto simp: same_registry_def same_record_def elim!: option.rel_mono_strong)
  show ?thesis
    unfolding static_remove_key_def
    by (intro low_bindM [OF low_force_registry] low_bindM [OF rem])
      (auto simp del: bindM_updateM intro!: low_bindM [OF low_set_registry] low_basic)
qed

lemma low_static_remove_all_keys [low_rules]: "low K (=) (static_remove_all_keys E) (static_remove_all_keys E)"
proof -
  have rem: "low K (same_registry K) (remove_all_keys E reg) (remove_all_keys E reg')" if "same_registry K reg reg'" for reg reg'
    unfolding remove_all_keys_def same_registry_poisoned [OF that]
    by (intro low_if low_basic low_bindM [OF low_drop(1)]) (use that in \<open>auto simp: same_registry_def\<close>)
  show ?thesis
    unfolding static_remove_all_keys_def by (intro low_bindM [OF low_force_registry] low_bindM [OF rem] low_set_registry)
qed

lemma low_static_get_key:
  "low K (rel_option (\<lambda>r r'. same_record K (h, r) (h, r'))) (static_get_key E h) (static_get_key E h)"
proof -
  have "low K (rel_option (\<lambda>r r'. same_record K (h, r) (h, r'))) (get_key h reg) (get_key h reg')"
    if "same_registry K reg reg'" for reg reg'
    using same_keys_get [of K "keys reg" "keys reg'" h] that
    by (auto simp: get_key_def hm_get_def same_registry_def same_record_def simp del: bindM_Instant_now
        split: option.splits intro!: low_bind low_rules)
  then show ?thesis
    unfolding static_get_key_def by (intro low_bindM [OF low_force_registry])
qed

lemma low_static_list_all_keys [low_rules]:
  "low K (=) (static_list_all_keys E offset limit) (static_list_all_keys E offset limit)"
proof -
  have "low K (=) (list_all_keys offset limit reg) (list_all_keys offset limit reg')"
    if "same_registry K reg reg'" for reg reg'
    unfolding list_all_keys_def Let_def same_registry_poisoned [OF that]
    by (intro low_if low_bind low_basic low_machine)
      (simp add: same_listing [OF that] take_map [symmetric] drop_map [symmetric])
  then show ?thesis
    unfolding static_list_all_keys_def by (intro low_bindM [OF low_force_registry])
qed

section \<open>Lemmas: the closures of the key protection core\<close>

lemma low_decaps [low_rules]: "low K (=) (decaps E key enc) (decaps E key enc)"
  by (auto simp: decaps_def decaps_internal_def x25519_decaps_internal_def labeled_expand_def Let_def
      split: PrivateKey.splits X25519PrivateKey.splits option.splits intro!: low_bind low_rules)

lemma low_hpke_open [low_rules]: "low K (=) (hpke_open E key enc ct aad algo) (hpke_open E key enc ct aad algo)"
  by (auto simp: hpke_open_def hpke_open_internal_def x25519_hpke_open_internal_def
      split: PrivateKey.splits option.splits intro!: low_bind low_rules)

lemma low_hpke_seal [low_rules]: "low K (=) (hpke_seal E pub pt aad algo) (hpke_seal E pub pt aad algo)"
  by (auto simp: hpke_seal_def hpke_seal_internal_def x25519_hpke_seal_internal_def simp del: bindM_draw
      split: PublicKey.splits option.splits prod.splits intro!: low_bind low_rules)

text \<open>After a lookup the two runs have records with the same metadata, and the same record for a handle in \<open>K\<close>.\<close>

lemma low_found:
  assumes "\<And>r r'. same_record K (h, r) (h, r') \<Longrightarrow> low K S (f r) (f' r')"
  shows "low K S (bindM (static_get_key E h) (\<lambda>found. bindM (ok_orM found e) f))
    (bindM (static_get_key E h) (\<lambda>found. bindM (ok_orM found e) f'))"
  by (intro low_bindM [OF low_static_get_key] low_bindM [OF low_ok_or] assms)

lemma low_generate_kem_keypair_body:
  "low K (=) (generate_kem_keypair_body E a al b bl e u p pl) (generate_kem_keypair_body E a al b bl e u p pl)"
proof -
  have pub: "low K (=) (PublicKey_try_from bs) (PublicKey_try_from bs)" for bs
    by (auto simp: PublicKey_try_from_def split: option.splits intro!: low_bind low_rules)
  have "low K (=) (generate_kem_keypair_internal E algo bp e) (generate_kem_keypair_internal E algo bp e)" for algo bp
    by (auto simp: generate_kem_keypair_internal_def Let_def simp del: bindM_updateM split: KeySpec.splits
        intro!: low_bind low_rules)
  then show ?thesis
    unfolding generate_kem_keypair_body_def by (auto intro!: low_bind low_rules pub)
qed

lemma low_destroy_kem_key_body: "low K (=) (destroy_kem_key_body E u) (destroy_kem_key_body E u)"
  unfolding destroy_kem_key_body_def
  by (intro low_if low_basic low_bind low_memory low_bindM [OF low_static_remove_key] low_bindM [OF low_ok_or] low_drop)

lemma low_get_kem_key_body: "low K (=) (get_kem_key_body E u k kl b bl a al r) (get_kem_key_body E u k kl b bl a al r)"
proof -
  have "low K (=) (get_kem_key_internal E uuid) (get_kem_key_internal E uuid)" for uuid
    unfolding get_kem_key_internal_def
    by (rule low_found) (auto simp: same_record_def Let_def simp del: bindM_Instant_now split: KeySpec.splits
        intro!: low_bind low_rules)
  then show ?thesis
    unfolding get_kem_key_body_def Let_def by (auto intro!: low_bind low_rules)
qed

lemma low_decap_and_seal_internal:
  assumes "uuid \<in> K"
  shows "low K (=) (decap_and_seal_internal E uuid enc aad oe oc) (decap_and_seal_internal E uuid enc aad oe oc)"
  unfolding decap_and_seal_internal_def
  by (rule low_found) (use assms in \<open>auto simp: same_record_def split: KeySpec.splits intro!: low_bind low_rules\<close>)

text \<open>Pointwise rules: a read leaves the state as it is and shows the same bytes to both runs.\<close>

lemma low_at_read:
  assumes "same_but K w v" and "valid_buf p n w \<Longrightarrow> low_at K S (f (buf p n w)) (f' (buf p n w)) w v"
  shows "low_at K S (bindM (from_raw_parts p n) f) (bindM (from_raw_parts p n) f') w v"
proof (cases "valid_buf p n w")
  case True
  moreover have "valid_buf p n v" "buf p n v = buf p n w"
    using True same_butD(8) [OF assms(1)] by (simp_all add: valid_buf_def buf_def)
  ultimately show ?thesis
    using assms(2) by (simp add: low_at_def bindM_def from_raw_parts_valid)
next
  case False
  then have "from_raw_parts p n w = (Undefined, w)" "from_raw_parts p n v = (Undefined, v)"
    using same_butD(8) [OF assms(1)]
    by (auto simp: valid_buf_def from_raw_parts_def split: option.splits obj.splits if_splits)
  then show ?thesis
    using assms(1) by (simp add: low_at_def bindM_def)
qed

lemma low_atI: "low K R m m' \<Longrightarrow> same_but K w v \<Longrightarrow> low_at K R m m' w v"
  by (simp add: low_def)

lemma low_uuid:
  assumes "Uuid bs \<in> K" and "\<And>uuid. uuid \<in> K \<Longrightarrow> low K S (f uuid) (f uuid)"
  shows "low K S (bindM (ok_orM (Uuid_from_slice bs) e) f) (bindM (ok_orM (Uuid_from_slice bs) e) f)"
  by (cases "length bs = 16") (simp_all add: Uuid_from_slice_def try_into_array_def assms low_basic)

text \<open>The reads that open a closure, without the one of the handle.\<close>

lemma low_aad: "low K (=) (if b then from_raw_parts p n else returnM []) (if b then from_raw_parts p n else returnM [])"
  by (intro low_rules refl)

lemmas low_reads = low_bind [OF low_memory(1)] low_bind [OF low_memory(2)] low_bind [OF low_aad]

lemma low_at_if:
  "same_but K w v \<Longrightarrow> (\<not> b \<Longrightarrow> low_at K R m m w v) \<Longrightarrow> low_at K R (if b then errM e else m) (if b then errM e else m) w v"
  by (simp add: low_atI low_basic)

lemma low_at_decap_and_seal_body:
  assumes "same_but K w v" and "Uuid (buf u 16 w) \<in> K"
  shows "low_at K (=) (decap_and_seal_body E u e el a al oe oel oc ocl) (decap_and_seal_body E u e el a al oe oel oc ocl) w v"
  unfolding decap_and_seal_body_def
  by (intro low_at_if low_at_read low_atI [OF _ assms(1)] low_reads low_uuid assms low_decap_and_seal_internal)

section \<open>Lemmas: the closures of the workload core\<close>

lemma low_generate_binding_keypair_body:
  "low K (=) (generate_binding_keypair_body E a al e u p pl) (generate_binding_keypair_body E a al e u p pl)"
proof -
  have "low K (=) (generate_binding_keypair_internal E algo e) (generate_binding_keypair_internal E algo e)" for algo
    by (auto simp: generate_binding_keypair_internal_def Let_def simp del: bindM_updateM split: KeySpec.splits
        intro!: low_bind low_rules)
  then show ?thesis
    unfolding generate_binding_keypair_body_def by (auto intro!: low_bind low_rules)
qed

lemma low_destroy_binding_key_body: "low K (=) (destroy_binding_key_body E u) (destroy_binding_key_body E u)"
  unfolding destroy_binding_key_body_def
  by (intro low_if low_basic low_bind [OF low_memory(1)] low_bind [OF low_basic(4)] low_bindM [OF low_static_remove_key]
      low_bindM [OF low_ok_or] low_drop)

lemma low_destroy_all_binding_keys_body: "low K (=) (destroy_all_binding_keys_body E) (destroy_all_binding_keys_body E)"
  unfolding destroy_all_binding_keys_body_def by (rule low_bind [OF low_static_remove_all_keys]) (simp add: low_basic)

lemma low_get_binding_key_body: "low K (=) (get_binding_key_body E u p pl a al) (get_binding_key_body E u p pl a al)"
proof -
  have "low K (=) (get_binding_key_internal E uuid) (get_binding_key_internal E uuid)" for uuid
    unfolding get_binding_key_internal_def
    by (rule low_found) (auto simp: same_record_def split: KeySpec.splits intro!: low_rules)
  then show ?thesis
    unfolding get_binding_key_body_def Let_def by (auto intro!: low_bind low_rules)
qed

lemma low_open_internal:
  assumes "uuid \<in> K"
  shows "low K (=) (open_internal E uuid enc ct aad) (open_internal E uuid enc ct aad)"
  unfolding open_internal_def
  by (rule low_found) (use assms in \<open>auto simp: same_record_def split: KeySpec.splits intro!: low_rules\<close>)

lemma low_at_open_body:
  assumes "same_but K w v" and "Uuid (buf u 16 w) \<in> K"
  shows "low_at K (=) (open_body E u e el c cl a al p pl) (open_body E u e el c cl a al p pl) w v"
  unfolding open_body_def
  by (intro low_at_if low_at_read low_atI [OF _ assms(1)] low_reads low_uuid assms low_bind [OF low_open_internal]
      low_if low_basic low_writes)

section \<open>Lemmas: enumeration, the reaper and the wrappers\<close>

lemma low_fill [low_rules]:
  "low K (=) (fill_kem_entries E s i metas) (fill_kem_entries E s i metas)"
  "low K (=) (fill_binding_entries E s' i metas) (fill_binding_entries E s' i metas)"
  by (induction metas arbitrary: i)
    (auto simp: Let_def simp del: bindM_Instant_now split: KeySpec.splits intro!: low_bind low_rules)

lemma low_enumerate:
  "low K (=) (enumerate_kem_keys_body E p n offset has_more) (enumerate_kem_keys_body E p n offset has_more)"
  "low K (=) (enumerate_binding_keys_body E p n offset has_more) (enumerate_binding_keys_body E p n offset has_more)"
  unfolding enumerate_kem_keys_body_def enumerate_kem_keys_internal_def enumerate_binding_keys_body_def
    enumerate_binding_keys_internal_def Let_def
  by (auto split: option.splits intro!: low_bind low_rules)

lemma same_but_events: "same_but K w v \<Longrightarrow> same_but K (w\<lparr>events := ev\<rparr>) (v\<lparr>events := ev\<rparr>)"
  by (simp add: same_but_def)

lemma low_at_cases:
  assumes "low_at K (=) body body w v"
  obtains r w' v' where "body w = (r, w')" "body v = (r, v')" "same_but K w' v'" "TELEMETRY w' = TELEMETRY v'" "events w' = events v'"
proof
  show "body w = (fst (body w), snd (body w))" "body v = (fst (body w), snd (body v))"
    and s: "same_but K (snd (body w)) (snd (body v))"
    using assms by (simp_all add: low_at_def prod_eq_iff)
  show "TELEMETRY (snd (body w)) = TELEMETRY (snd (body v))" "events (snd (body w)) = events (snd (body v))"
    by (rule same_butD [OF s])+
qed

lemma ffi_call_low:
  assumes "low_at K (=) body body w v"
  shows "fst (ffi_call op body w) = fst (ffi_call op body v) \<and> same_but K (snd (ffi_call op body w)) (snd (ffi_call op body v))"
proof (rule low_at_cases [OF assms])
  fix r w' v'
  assume a: "body w = (r, w')" "body v = (r, v')" "same_but K w' v'" "TELEMETRY w' = TELEMETRY v'" "events w' = events v'"
  then show ?thesis
    by (cases r) (simp_all add: ffi_call_def ffi_call_with_reporter_def telemetry_report_failure_def run_panic_hook_def same_but_events)
qed

lemma ffi_call_i32_low:
  assumes "low_at K (=) body body w v"
  shows "fst (ffi_call_i32 op body w) = fst (ffi_call_i32 op body v) \<and> same_but K (snd (ffi_call_i32 op body w)) (snd (ffi_call_i32 op body v))"
proof (rule low_at_cases [OF assms])
  fix r w' v'
  assume a: "body w = (r, w')" "body v = (r, v')" "same_but K w' v'" "TELEMETRY w' = TELEMETRY v'" "events w' = events v'"
  then show ?thesis
    by (cases r) (simp_all add: ffi_call_i32_def ffi_call_i32_with_reporter_def telemetry_report_failure_def run_panic_hook_def same_but_events)
qed

lemma same_but_telemetry:
  assumes "same_but K w v"
  shows "fst (key_manager_init_telemetry_ffi p n w) = fst (key_manager_init_telemetry_ffi p n v)
    \<and> same_but K (snd (key_manager_init_telemetry_ffi p n w)) (snd (key_manager_init_telemetry_ffi p n v))"
proof -
  have "from_raw_parts p n w = (r, w') \<Longrightarrow> from_raw_parts p n v = (r, v) \<and> w' = w" for r w'
    using same_butD(8) [OF assms] by (auto simp: from_raw_parts_def split: if_splits option.splits obj.splits)
  moreover have "same_but K (w\<lparr>TELEMETRY := t (TELEMETRY w)\<rparr>) (v\<lparr>TELEMETRY := t (TELEMETRY v)\<rparr>)" for t
    using assms by (simp add: same_but_def)
  ultimately show ?thesis
    using assms by (cases "from_raw_parts p n w"; cases "fst (from_raw_parts p n w)")
      (fastforce simp: key_manager_init_telemetry_ffi_def)+
qed

lemma same_but_reaper:
  assumes "same_but K w v"
  shows "same_but K (static_reaper_wakeup E w) (static_reaper_wakeup E v)"
proof (cases "KEY_REGISTRY w")
  case (Ready reg)
  then obtain reg' where v: "KEY_REGISTRY v = Ready reg'" and s: "same_registry K reg reg'"
    using same_butD(5) [OF assms] by (auto split: lazy_registry.splits)
  have "low K (same_registry K) (reaper_sweep E reg) (reaper_sweep E reg')"
    unfolding reaper_sweep_def same_registry_poisoned [OF s]
    by (intro low_bind low_machine low_if low_basic low_bindM [OF low_drop(1)] same_registry_update(3) s)
  then have "low_at K (\<lambda>x y. same_registry K (snd x) (snd y)) (reaper_loop E [False] reg) (reaper_loop E [False] reg') w v"
    using assms by (auto intro!: low_atI low_bindM [where R = "same_registry K"] low_basic)
  then show ?thesis
    using Ready v unfolding low_at_def static_reaper_wakeup_def
    by (elim conjE rel_out_cases; cases "reaper_loop E [False] reg w"; cases "reaper_loop E [False] reg' v")
      (auto simp: same_but_def)
next
  case Uninit
  then show ?thesis
    using same_butD(5) [OF assms] assms by (auto simp: static_reaper_wakeup_def)
next
  case LazyPoisoned
  then show ?thesis
    using same_butD(5) [OF assms] assms by (auto simp: static_reaper_wakeup_def)
qed

section \<open>Sessions\<close>

text \<open>
  What happens to a core, as data: a call, an enumeration, the initialisation of telemetry, a wake-up of the
  reaper, and new contents of the caller's memory. The reply is what the caller gets back.
\<close>

datatype ('c, 'e) input =
    Call 'c
  | Enumerate ptr usize usize "ptr option"
  | InitTelemetry ptr usize
  | ReaperWakes
  | CallerWrites "ptr \<Rightarrow> 'e obj option"

datatype reply = StatusReply "Status ffi_result" | CountReply "i32 ffi_result" | UnitReply "unit ffi_result" | NoReply

fun kps_reply :: "('s, 'r, 'p) env \<Rightarrow> (kps_call, KpsKeyInfo) input \<Rightarrow> KpsKeyInfo world \<Rightarrow> reply \<times> KpsKeyInfo world" where
  "kps_reply E (Call c) w = map_prod StatusReply id (kps_run E c w)"
| "kps_reply E (Enumerate p n offset has_more) w = map_prod CountReply id (key_manager_enumerate_kem_keys E p n offset has_more w)"
| "kps_reply E (InitTelemetry p n) w = map_prod UnitReply id (key_manager_init_telemetry_ffi p n w)"
| "kps_reply E ReaperWakes w = (NoReply, static_reaper_wakeup E w)"
| "kps_reply E (CallerWrites m) w = (NoReply, w\<lparr>mem := m\<rparr>)"

fun ws_reply :: "('s, 'r, 'p) env \<Rightarrow> (ws_call, WsKeyInfo) input \<Rightarrow> WsKeyInfo world \<Rightarrow> reply \<times> WsKeyInfo world" where
  "ws_reply E (Call c) w = map_prod StatusReply id (ws_run E c w)"
| "ws_reply E (Enumerate p n offset has_more) w = map_prod CountReply id (key_manager_enumerate_binding_keys E p n offset has_more w)"
| "ws_reply E (InitTelemetry p n) w = map_prod UnitReply id (key_manager_init_telemetry_ffi p n w)"
| "ws_reply E ReaperWakes w = (NoReply, static_reaper_wakeup E w)"
| "ws_reply E (CallerWrites m) w = (NoReply, w\<lparr>mem := m\<rparr>)"

text \<open>The handle whose private key an input asks the core to use is one of \<open>K\<close>.\<close>

fun kps_uses :: "KeyHandle set \<Rightarrow> (kps_call, KpsKeyInfo) input \<Rightarrow> KpsKeyInfo world \<Rightarrow> bool" where
  "kps_uses K (Call (DecapSeal u _ _ _ _ _ _ _ _)) w = (Uuid (buf u 16 w) \<in> K)"
| "kps_uses K _ w = True"

fun ws_uses :: "KeyHandle set \<Rightarrow> (ws_call, WsKeyInfo) input \<Rightarrow> WsKeyInfo world \<Rightarrow> bool" where
  "ws_uses K (Call (OpenSealed u _ _ _ _ _ _ _ _)) w = (Uuid (buf u 16 w) \<in> K)"
| "ws_uses K _ w = True"

lemma low_at_kps_body:
  assumes "same_but K w v" and "kps_uses K (Call c) w"
  shows "low_at K (=) (kps_body E c) (kps_body E c) w v"
  using assms by (cases c) (auto intro!: low_at_decap_and_seal_body intro: low_atI low_generate_kem_keypair_body
      low_destroy_kem_key_body low_get_kem_key_body)

lemma low_at_ws_body:
  assumes "same_but K w v" and "ws_uses K (Call c) w"
  shows "low_at K (=) (ws_body E c) (ws_body E c) w v"
  using assms by (cases c) (auto intro!: low_at_open_body intro: low_atI low_generate_binding_keypair_body
      low_destroy_binding_key_body low_destroy_all_binding_keys_body low_get_binding_key_body)

interpretation kps_low: indistinguishable "same_but K" "kps_reply E" "kps_uses K"
  for K and E :: "('s, 'r, 'p) env"
proof unfold_locales
  fix w v :: "KpsKeyInfo world" and i
  assume s: "same_but K w v" and u: "kps_uses K i w"
  show "fst (kps_reply E i w) = fst (kps_reply E i v) \<and> same_but K (snd (kps_reply E i w)) (snd (kps_reply E i v))"
  proof (cases i)
    case (Call c)
    then show ?thesis
      using ffi_call_low [OF low_at_kps_body [OF s, of c E]] u by (simp add: kps_run_body)
  next
    case (Enumerate p n offset has_more)
    then show ?thesis
      using ffi_call_i32_low [OF low_atI [OF low_enumerate(1) s]] by (simp add: key_manager_enumerate_kem_keys_def)
  next
    case (InitTelemetry p n)
    then show ?thesis
      using same_but_telemetry [OF s] by simp
  next
    case ReaperWakes
    then show ?thesis
      using same_but_reaper [OF s] by simp
  next
    case (CallerWrites m)
    then show ?thesis
      using s by (simp add: same_but_def)
  qed
qed

interpretation ws_low: indistinguishable "same_but K" "ws_reply E" "ws_uses K"
  for K and E :: "('s, 'r, 'p) env"
proof unfold_locales
  fix w v :: "WsKeyInfo world" and i
  assume s: "same_but K w v" and u: "ws_uses K i w"
  show "fst (ws_reply E i w) = fst (ws_reply E i v) \<and> same_but K (snd (ws_reply E i w)) (snd (ws_reply E i v))"
  proof (cases i)
    case (Call c)
    then show ?thesis
      using ffi_call_low [OF low_at_ws_body [OF s, of c E]] u by (simp add: ws_run_body)
  next
    case (Enumerate p n offset has_more)
    then show ?thesis
      using ffi_call_i32_low [OF low_atI [OF low_enumerate(2) s]] by (simp add: key_manager_enumerate_binding_keys_def)
  next
    case (InitTelemetry p n)
    then show ?thesis
      using same_but_telemetry [OF s] by simp
  next
    case ReaperWakes
    then show ?thesis
      using same_but_reaper [OF s] by simp
  next
    case (CallerWrites m)
    then show ?thesis
      using s by (simp add: same_but_def)
  qed
qed

section \<open>Properties\<close>

text \<open>Two worlds that differ in the private key of their second record, for the witnesses.\<close>

definition ref_two :: "KeySpec \<Rightarrow> byte \<Rightarrow> 'e world" where
  "ref_two sp b = (ref_stored sp [])\<lparr>KEY_REGISTRY := Ready \<lparr>keys = [(ref_handle, ref_record sp),
     (Uuid (replicate 16 1), (ref_record sp)\<lparr>private_key := \<lparr>mmap = replicate 32 b\<rparr>\<rparr>)], poisoned = False\<rparr>\<rparr>"

lemma ref_two_same: "same_but {ref_handle} (ref_two sp 1) (ref_two sp 2)"
  by (simp add: same_but_def ref_two_def same_registry_def same_record_def ref_handle_def)

lemma ref_two_differ: "(ref_two sp 1 :: 'e world) \<noteq> (ref_two sp 2 :: 'e world)"
proof
  assume "(ref_two sp 1 :: 'e world) = (ref_two sp 2 :: 'e world)"
  then have "KEY_REGISTRY (ref_two sp 1 :: 'e world) = KEY_REGISTRY (ref_two sp 2 :: 'e world)"
    by simp
  then show False
    by (simp add: ref_two_def ref_record_def)
qed

lemma ref_two_buf: "Uuid (buf 2 16 (ref_two sp b)) = ref_handle"
  by (simp add: buf_def ref_two_def ref_mem_def ref_handle_def)

text \<open>
  C22. What a caller of the key protection core observes does not depend on private keys it does not use.
  Let two worlds agree on everything but the private keys of records whose handles are outside \<open>K\<close>,
  and let a session of calls, enumerations, telemetry initialisations, reaper wake-ups and memory writes
  decapsulate only under handles in \<open>K\<close>. Then every reply is the same in both worlds, the caller's
  memory and the log end the same, and the worlds still differ only in those private keys.
\<close>

theorem kps_private_keys_hidden:
  fixes w v :: "KpsKeyInfo world"
  assumes "same_but K w v" and "throughout (kps_uses K) (kps_reply E) inputs w"
  shows "fst (session (kps_reply E) inputs w) = fst (session (kps_reply E) inputs v)
    \<and> mem (snd (session (kps_reply E) inputs w)) = mem (snd (session (kps_reply E) inputs v))
    \<and> events (snd (session (kps_reply E) inputs w)) = events (snd (session (kps_reply E) inputs v))
    \<and> same_but K (snd (session (kps_reply E) inputs w)) (snd (session (kps_reply E) inputs v))"
  using kps_low.session_replies [OF assms] same_butD(7,8) by blast

theorem kps_private_keys_hidden_witness:
  "let inputs = [Call (DecapSeal 2 4 32 0 0 3 32 5 48), Enumerate 10 0 0 None, ReaperWakes, Call (DestroyKem 2)];
       w = ref_two ref_kem_spec 1; v = ref_two ref_kem_spec 2
   in same_but {ref_handle} w v \<and> w \<noteq> v
    \<and> fst (session (kps_reply ref_env) inputs w) = fst (session (kps_reply ref_env) inputs v)"
proof -
  let ?inputs = "[Call (DecapSeal 2 4 32 0 0 3 32 5 48), Enumerate 10 0 0 None, ReaperWakes, Call (DestroyKem 2)]"
  have "throughout (kps_uses {ref_handle}) (kps_reply ref_env) ?inputs (ref_two ref_kem_spec 1)"
    by (simp add: ref_two_buf)
  from kps_private_keys_hidden [OF ref_two_same this] show ?thesis
    unfolding Let_def using ref_two_same ref_two_differ by blast
qed

text \<open>
  C23. The same for the workload core, where the calls that use a private key are those of
  \<^verbatim>\<open>key_manager_open\<close>.
\<close>

theorem ws_private_keys_hidden:
  fixes w v :: "WsKeyInfo world"
  assumes "same_but K w v" and "throughout (ws_uses K) (ws_reply E) inputs w"
  shows "fst (session (ws_reply E) inputs w) = fst (session (ws_reply E) inputs v)
    \<and> mem (snd (session (ws_reply E) inputs w)) = mem (snd (session (ws_reply E) inputs v))
    \<and> events (snd (session (ws_reply E) inputs w)) = events (snd (session (ws_reply E) inputs v))
    \<and> same_but K (snd (session (ws_reply E) inputs w)) (snd (session (ws_reply E) inputs v))"
  using ws_low.session_replies [OF assms] same_butD(7,8) by blast

theorem ws_private_keys_hidden_witness:
  "let inputs = [Call (OpenSealed 2 4 32 5 48 0 0 3 32), Enumerate 10 0 0 None, ReaperWakes, Call DestroyAll];
       w = ref_two ref_binding_spec 1; v = ref_two ref_binding_spec 2
   in same_but {ref_handle} w v \<and> w \<noteq> v
    \<and> fst (session (ws_reply ref_env) inputs w) = fst (session (ws_reply ref_env) inputs v)"
proof -
  let ?inputs = "[Call (OpenSealed 2 4 32 5 48 0 0 3 32), Enumerate 10 0 0 None, ReaperWakes, Call DestroyAll]"
  have "throughout (ws_uses {ref_handle}) (ws_reply ref_env) ?inputs (ref_two ref_binding_spec 1)"
    by (simp add: ref_two_buf)
  from ws_private_keys_hidden [OF ref_two_same this] show ?thesis
    unfolding Let_def using ref_two_same ref_two_differ by blast
qed

end
