(* ===== verification/Fuzz_Targets.thy ===== *)
theory Fuzz_Targets
  imports Confidentiality
begin

text \<open>
  The two fuzz targets, \<^verbatim>\<open>workload_service/key_custody_core/fuzz/fuzz_targets/fuzz_open.rs\<close> and
  \<^verbatim>\<open>key_protection_service/key_custody_core/fuzz/fuzz_targets/fuzz_decap_seal.rs\<close>. Each splits its input into arguments,
  makes one key on the first input that is long enough (\<^verbatim>\<open>OnceLock::get_or_init\<close>), and calls one exported function.
  The state of a target is that cell and the world of the core. The arrays of the target and the parts of its input
  that it passes on are objects of the caller's memory, each at an address of its own; the addresses are fixed, because
  a new input gets new arrays and nothing else points to the old ones.

  A fuzzer reports undefined behaviour and, through its panic hook, a panic, which the exported functions turn into
  \<^verbatim>\<open>InternalError\<close>. The theorems say what a fuzzing campaign of any length can find.
\<close>

section \<open>Targets\<close>

datatype fuzz_result = TooShort | SetupFailed | Crashed | Finished Status

definition fuzz_algorithm :: HpkeAlgorithm where
  "fuzz_algorithm = \<lparr>kem = kem_as_i32 DhkemX25519HkdfSha256, kdf = kdf_as_i32 HkdfSha256, aead = aead_as_i32 Aes256Gcm\<rparr>"

text \<open>The split of an input: encapsulated key, additional data, and what is left.\<close>

definition split_input :: "bytes \<Rightarrow> (bytes \<times> bytes \<times> bytes) option" where
  "split_input data =
     (if length data < 3 then None
      else
        let enc_len = min (unat (data ! 0)) 128;
            aad_len = min (unat (data ! 1) * 256 + unat (data ! 2)) 1024;
            rest = drop 3 data
        in if length rest < enc_len + aad_len then None
           else Some (take enc_len rest, take aad_len (drop enc_len rest), drop (enc_len + aad_len) rest))"

definition get_or_init :: "'a option \<Rightarrow> ('w \<Rightarrow> 'a ffi_result \<times> 'w) \<Rightarrow> 'w \<Rightarrow> 'a ffi_result \<times> 'w" where
  "get_or_init cell f w = (case cell of Some a \<Rightarrow> (Returns a, w) | None \<Rightarrow> f w)"

definition open_setup :: "('s, 'r, 'p) env \<Rightarrow> WsKeyInfo world \<Rightarrow> bytes option ffi_result \<times> WsKeyInfo world" where
  "open_setup E w =
     (let algo_bytes = encode_to_vec E fuzz_algorithm;
          w1 = w\<lparr>mem := (mem w)(1 \<mapsto> Bytes algo_bytes, 2 \<mapsto> Bytes (replicate 16 0), 3 \<mapsto> Bytes (replicate 32 0))\<rparr>
      in case key_manager_generate_binding_keypair E 1 (word_of_nat (length algo_bytes)) 3600 2 3 32 w1 of
           (Returns s, w2) \<Rightarrow> (Returns (if s = Success then Some (buf 2 16 w2) else None), w2)
         | (UndefinedBehaviour, w2) \<Rightarrow> (UndefinedBehaviour, w2))"

definition fuzz_open :: "('s, 'r, 'p) env \<Rightarrow> bytes \<Rightarrow> bytes option option \<times> WsKeyInfo world \<Rightarrow>
    fuzz_result \<times> bytes option option \<times> WsKeyInfo world" where
  "fuzz_open E data st =
     (case split_input data of
        None \<Rightarrow> (TooShort, st)
      | Some (enc, aad, ciphertext) \<Rightarrow>
          (case get_or_init (fst st) (open_setup E) (snd st) of
             (UndefinedBehaviour, w) \<Rightarrow> (Crashed, None, w)
           | (Returns None, w) \<Rightarrow> (SetupFailed, Some None, w)
           | (Returns (Some uuid), w) \<Rightarrow>
               (case key_manager_open E 4 5 (word_of_nat (length enc)) 6 (word_of_nat (length ciphertext))
                       7 (word_of_nat (length aad)) 8 (word_of_nat (length ciphertext))
                       (w\<lparr>mem := (mem w)(4 \<mapsto> Bytes uuid, 5 \<mapsto> Bytes enc, 6 \<mapsto> Bytes ciphertext, 7 \<mapsto> Bytes aad,
                           8 \<mapsto> Bytes (replicate (length ciphertext) 0))\<rparr>) of
                  (Returns s, w') \<Rightarrow> (Finished s, Some (Some uuid), w')
                | (UndefinedBehaviour, w') \<Rightarrow> (Crashed, Some (Some uuid), w'))))"

definition decap_seal_setup :: "('s, 'r, 'p) env \<Rightarrow> KpsKeyInfo world \<Rightarrow> bytes option ffi_result \<times> KpsKeyInfo world" where
  "decap_seal_setup E w =
     (let algo_bytes = encode_to_vec E fuzz_algorithm;
          w1 = w\<lparr>mem := (mem w)(1 \<mapsto> Bytes algo_bytes, 2 \<mapsto> Bytes (replicate 16 0), 3 \<mapsto> Bytes (replicate 32 0),
                  9 \<mapsto> Bytes (replicate 32 7))\<rparr>
      in case key_manager_generate_kem_keypair E 1 (word_of_nat (length algo_bytes)) 9 32 3600 2 3 32 w1 of
           (Returns s, w2) \<Rightarrow> (Returns (if s = Success then Some (buf 2 16 w2) else None), w2)
         | (UndefinedBehaviour, w2) \<Rightarrow> (UndefinedBehaviour, w2))"

definition fuzz_decap_seal :: "('s, 'r, 'p) env \<Rightarrow> bytes \<Rightarrow> bytes option option \<times> KpsKeyInfo world \<Rightarrow>
    fuzz_result \<times> bytes option option \<times> KpsKeyInfo world" where
  "fuzz_decap_seal E data st =
     (case split_input data of
        None \<Rightarrow> (TooShort, st)
      | Some (encapsulated_key, aad, _) \<Rightarrow>
          (case get_or_init (fst st) (decap_seal_setup E) (snd st) of
             (UndefinedBehaviour, w) \<Rightarrow> (Crashed, None, w)
           | (Returns None, w) \<Rightarrow> (SetupFailed, Some None, w)
           | (Returns (Some uuid), w) \<Rightarrow>
               (case key_manager_decap_and_seal E 4 5 (word_of_nat (length encapsulated_key))
                       7 (word_of_nat (length aad)) 8 32 10 48
                       (w\<lparr>mem := (mem w)(4 \<mapsto> Bytes uuid, 5 \<mapsto> Bytes encapsulated_key, 7 \<mapsto> Bytes aad,
                           8 \<mapsto> Bytes (replicate 32 0), 10 \<mapsto> Bytes (replicate 48 0))\<rparr>) of
                  (Returns s, w') \<Rightarrow> (Finished s, Some (Some uuid), w')
                | (UndefinedBehaviour, w') \<Rightarrow> (Crashed, Some (Some uuid), w'))))"

text \<open>A campaign: inputs, and wake-ups of the reaper thread the first key has started.\<close>

datatype fuzz_event = FuzzInput bytes | FuzzReaper

fun open_campaign :: "('s, 'r, 'p) env \<Rightarrow> fuzz_event \<Rightarrow> bytes option option \<times> WsKeyInfo world \<Rightarrow>
    fuzz_result \<times> bytes option option \<times> WsKeyInfo world" where
  "open_campaign E (FuzzInput data) st = fuzz_open E data st"
| "open_campaign E FuzzReaper st = (TooShort, fst st, static_reaper_wakeup E (snd st))"

fun decap_seal_campaign :: "('s, 'r, 'p) env \<Rightarrow> fuzz_event \<Rightarrow> bytes option option \<times> KpsKeyInfo world \<Rightarrow>
    fuzz_result \<times> bytes option option \<times> KpsKeyInfo world" where
  "decap_seal_campaign E (FuzzInput data) st = fuzz_decap_seal E data st"
| "decap_seal_campaign E FuzzReaper st = (TooShort, fst st, static_reaper_wakeup E (snd st))"

section \<open>Lemmas: calls\<close>

text \<open>The cell holds a handle of 16 bytes, and the core is calm.\<close>

definition fuzz_inv :: "(KeyRecord \<Rightarrow> bool) \<Rightarrow> bytes option option \<times> 'e world \<Rightarrow> bool" where
  "fuzz_inv P st \<longleftrightarrow> (\<forall>uuid. fst st = Some (Some uuid) \<longrightarrow> length uuid = 16) \<and> calm P (snd st)"

lemma unat_word_of_nat_le: "unat (word_of_nat n :: usize) \<le> n"
  by (simp add: unat_of_nat take_bit_eq_mod)

lemma valid_buf_object: "mem w p = Some (Bytes bs) \<Longrightarrow> unat n \<le> length bs \<Longrightarrow> valid_buf p n w"
  by (simp add: valid_buf_def)

lemma calm_mem: "calm P w \<Longrightarrow> calm P (w\<lparr>mem := m\<rparr>)"
  by (simp add: calm_def core_inv_same [of "w\<lparr>mem := m\<rparr>" w])

text \<open>A safe call of a calm core returns one of the listed statuses and leaves the core calm.\<close>

lemma ws_call_calm:
  assumes "host_spec E" and "calm (ws_record E) w" and "ws_safe c w"
  obtains s w' where "ws_run E c w = (Returns s, w')" "s \<noteq> InternalError" "calm (ws_record E) w'"
proof -
  have inv: "core_inv (ws_record E) w"
    using assms(2) by (simp add: calm_def)
  note q = quiet_ws_body [OF host_specD(1-3) [OF assms(1)]]
  obtain s w' where run: "ws_run E c w = (Returns s, w')"
    and "s \<in> {Success, InvalidArgument, NotFound, UnsupportedAlgorithm, CryptoError, DecryptionFailure}"
    using ffi_call_answers [OF q ws_body_keeps assms(2) inv ws_body_defined [OF assms(3)], of "ws_operation c"]
      host_specD(1) [OF assms(1), unfolded crates_spec_def] by (auto simp: ws_run_body)
  moreover have "calm (ws_record E) w'"
    using ffi_call_keeps [OF quiet_keeps [OF q] calm_events assms(2)] run by (simp add: ws_run_body)
  ultimately show thesis
    using that by blast
qed

lemma kps_call_calm:
  assumes "host_spec E" and "calm (kps_record E) w" and "kps_safe c w"
  obtains s w' where "kps_run E c w = (Returns s, w')" "s \<noteq> InternalError" "calm (kps_record E) w'"
proof -
  have inv: "core_inv (kps_record E) w"
    using assms(2) by (simp add: calm_def)
  note q = quiet_kps_body [OF host_specD(1-3) [OF assms(1)]]
  obtain s w' where run: "kps_run E c w = (Returns s, w')"
    and "s \<in> {Success, InvalidArgument, NotFound, UnsupportedAlgorithm, CryptoError, InvalidKey,
          DecapsulationFailure, EncryptionFailure}"
    using ffi_call_answers [OF q kps_body_keeps assms(2) inv kps_body_defined [OF assms(3)], of "kps_operation c"]
      host_specD(1) [OF assms(1), unfolded crates_spec_def] by (auto simp: kps_run_body)
  moreover have "calm (kps_record E) w'"
    using ffi_call_keeps [OF quiet_keeps [OF q] calm_events assms(2)] run by (simp add: kps_run_body)
  ultimately show thesis
    using that by blast
qed

lemma length_buf_written:
  assumes "valid_buf p len w" and "q \<noteq> p" and "mem w' = write_mem q src' (write_mem p src (mem w))"
  shows "length (buf p len w') = unat len"
  using assms by (auto simp: valid_buf_def buf_def write_mem_def overwrite_def min_def split: option.splits obj.splits)

text \<open>The setup of a target: no undefined behaviour, and a handle of 16 bytes when it succeeds.\<close>

lemma open_setup_calm:
  assumes "host_spec E" and "calm (ws_record E) w"
  obtains u w' where "open_setup E w = (Returns u, w')" "calm (ws_record E) w'" "\<And>uuid. u = Some uuid \<Longrightarrow> length uuid = 16"
proof -
  let ?n = "word_of_nat (length (encode_to_vec E fuzz_algorithm)) :: usize"
  let ?w = "w\<lparr>mem := (mem w)(1 \<mapsto> Bytes (encode_to_vec E fuzz_algorithm), 2 \<mapsto> Bytes (replicate 16 0),
    3 \<mapsto> Bytes (replicate 32 0))\<rparr>"
  note crates = host_specD(1) [OF assms(1), unfolded crates_spec_def]
  have safe: "generate_binding_safe 1 ?n 2 3 32 ?w"
    by (simp add: generate_binding_safe_def valid_buf_def unat_word_of_nat_le)
  have calm: "calm (ws_record E) ?w"
    using assms(2) by (rule calm_mem)
  obtain s w' where run: "key_manager_generate_binding_keypair E 1 ?n 3600 2 3 32 ?w = (Returns s, w')"
    and calm': "calm (ws_record E) w'"
    by (rule ws_call_calm [OF assms(1) calm, of "GenerateBinding 1 ?n 3600 2 3 32"]) (use safe in auto)
  have "length (buf 2 16 w') = 16" if "s = Success"
  proof -
    have body: "generate_binding_keypair_body E 1 ?n 3600 2 3 32 ?w = (Ok (), w')"
      using run that by (simp add: key_manager_generate_binding_keypair_def generate_binding.success_iff)
    have mem': "\<exists>h pk. mem w' = write_mem 3 pk (write_mem 2 h (mem ?w))"
      by (rule generate_binding_keypair_body_Ok [OF _ _ _ safe body, of "ws_record E"]) (use crates calm in \<open>auto simp: calm_def\<close>)
    show ?thesis
      using mem' length_buf_written [of 2 16 ?w 3 w'] by (auto simp: valid_buf_def)
  qed
  then show thesis
    using run calm' by (intro that [of "if s = Success then Some (buf 2 16 w') else None" w'])
      (auto simp: open_setup_def Let_def split: if_splits)
qed

lemma decap_seal_setup_calm:
  assumes "host_spec E" and "calm (kps_record E) w"
  obtains u w' where "decap_seal_setup E w = (Returns u, w')" "calm (kps_record E) w'"
    "\<And>uuid. u = Some uuid \<Longrightarrow> length uuid = 16"
proof -
  let ?n = "word_of_nat (length (encode_to_vec E fuzz_algorithm)) :: usize"
  let ?w = "w\<lparr>mem := (mem w)(1 \<mapsto> Bytes (encode_to_vec E fuzz_algorithm), 2 \<mapsto> Bytes (replicate 16 0),
    3 \<mapsto> Bytes (replicate 32 0), 9 \<mapsto> Bytes (replicate 32 7))\<rparr>"
  note crates = host_specD(1) [OF assms(1), unfolded crates_spec_def]
  have safe: "generate_kem_safe 1 ?n 9 32 2 3 32 ?w"
    by (simp add: generate_kem_safe_def valid_buf_def unat_word_of_nat_le)
  have calm: "calm (kps_record E) ?w"
    using assms(2) by (rule calm_mem)
  obtain s w' where run: "key_manager_generate_kem_keypair E 1 ?n 9 32 3600 2 3 32 ?w = (Returns s, w')"
    and calm': "calm (kps_record E) w'"
    by (rule kps_call_calm [OF assms(1) calm, of "GenerateKem 1 ?n 9 32 3600 2 3 32"]) (use safe in auto)
  have "length (buf 2 16 w') = 16" if "s = Success"
  proof -
    have body: "generate_kem_keypair_body E 1 ?n 9 32 3600 2 3 32 ?w = (Ok (), w')"
      using run that by (simp add: key_manager_generate_kem_keypair_def generate_kem.success_iff)
    have mem': "\<exists>h pk. mem w' = write_mem 3 pk (write_mem 2 h (mem ?w))"
      by (rule generate_kem_keypair_body_Ok [OF _ _ _ safe body, of "kps_record E"]) (use crates calm in \<open>auto simp: calm_def\<close>)
    show ?thesis
      using mem' length_buf_written [of 2 16 ?w 3 w'] by (auto simp: valid_buf_def)
  qed
  then show thesis
    using run calm' by (intro that [of "if s = Success then Some (buf 2 16 w') else None" w'])
      (auto simp: decap_seal_setup_def Let_def split: if_splits)
qed

text \<open>One input.\<close>

lemma fuzz_open_calm:
  assumes "host_spec E" and "fuzz_inv (ws_record E) st"
  shows "fst (fuzz_open E data st) \<notin> {Crashed, Finished InternalError} \<and> fuzz_inv (ws_record E) (snd (fuzz_open E data st))"
proof (cases "split_input data")
  case (Some args)
  obtain enc aad ct where args: "args = (enc, aad, ct)"
    by (cases args)
  obtain u w where cell: "get_or_init (fst st) (open_setup E) (snd st) = (Returns u, w)" and w: "calm (ws_record E) w"
    and u: "\<And>uuid. u = Some uuid \<Longrightarrow> length uuid = 16"
    using assms open_setup_calm [OF assms(1), of "snd st"]
    by (cases "fst st") (auto simp: get_or_init_def fuzz_inv_def)
  show ?thesis
  proof (cases u)
    case (Some uuid)
    let ?c = "OpenSealed 4 5 (word_of_nat (length enc)) 6 (word_of_nat (length ct)) 7 (word_of_nat (length aad))
      8 (word_of_nat (length ct))"
    let ?w = "w\<lparr>mem := (mem w)(4 \<mapsto> Bytes uuid, 5 \<mapsto> Bytes enc, 6 \<mapsto> Bytes ct, 7 \<mapsto> Bytes aad,
      8 \<mapsto> Bytes (replicate (length ct) 0))\<rparr>"
    have "ws_safe ?c ?w"
      using u [OF Some] by (simp add: open_safe_def valid_buf_def unat_word_of_nat_le)
    then obtain s w' where "ws_run E ?c ?w = (Returns s, w')" "s \<noteq> InternalError" "calm (ws_record E) w'"
      using ws_call_calm [OF assms(1) calm_mem [OF w]] by metis
    then show ?thesis
      using cell Some u \<open>split_input data = Some args\<close> args by (auto simp: fuzz_open_def fuzz_inv_def)
  qed (use cell w \<open>split_input data = Some args\<close> args in \<open>auto simp: fuzz_open_def fuzz_inv_def\<close>)
qed (use assms in \<open>auto simp: fuzz_open_def\<close>)

lemma fuzz_decap_seal_calm:
  assumes "host_spec E" and "fuzz_inv (kps_record E) st"
  shows "fst (fuzz_decap_seal E data st) \<notin> {Crashed, Finished InternalError}
    \<and> fuzz_inv (kps_record E) (snd (fuzz_decap_seal E data st))"
proof (cases "split_input data")
  case (Some args)
  obtain enc aad ct where args: "args = (enc, aad, ct)"
    by (cases args)
  obtain u w where cell: "get_or_init (fst st) (decap_seal_setup E) (snd st) = (Returns u, w)"
    and w: "calm (kps_record E) w" and u: "\<And>uuid. u = Some uuid \<Longrightarrow> length uuid = 16"
    using assms decap_seal_setup_calm [OF assms(1), of "snd st"]
    by (cases "fst st") (auto simp: get_or_init_def fuzz_inv_def)
  show ?thesis
  proof (cases u)
    case (Some uuid)
    let ?c = "DecapSeal 4 5 (word_of_nat (length enc)) 7 (word_of_nat (length aad)) 8 32 10 48"
    let ?w = "w\<lparr>mem := (mem w)(4 \<mapsto> Bytes uuid, 5 \<mapsto> Bytes enc, 7 \<mapsto> Bytes aad, 8 \<mapsto> Bytes (replicate 32 0),
      10 \<mapsto> Bytes (replicate 48 0))\<rparr>"
    have "kps_safe ?c ?w"
      using u [OF Some] by (simp add: decap_safe_def valid_buf_def unat_word_of_nat_le)
    then obtain s w' where "kps_run E ?c ?w = (Returns s, w')" "s \<noteq> InternalError" "calm (kps_record E) w'"
      using kps_call_calm [OF assms(1) calm_mem [OF w]] by metis
    then show ?thesis
      using cell Some u \<open>split_input data = Some args\<close> args by (auto simp: fuzz_decap_seal_def fuzz_inv_def)
  qed (use cell w \<open>split_input data = Some args\<close> args in \<open>auto simp: fuzz_decap_seal_def fuzz_inv_def\<close>)
qed (use assms in \<open>auto simp: fuzz_decap_seal_def\<close>)

section \<open>Lemmas: opening with a buffer of the length of the ciphertext\<close>

text \<open>RFC 9180 with AES-256-GCM: a ciphertext is 16 bytes longer than its plaintext.\<close>

definition aead_open_spec :: "('s, 'r, 'p) env \<Rightarrow> bool" where
  "aead_open_spec E \<longleftrightarrow> (\<forall>ctx ct aad pt. RecipientContext_open E ctx ct aad = Some pt \<longrightarrow> length ct = length pt + 16)"

lemma hpke_open_length:
  assumes "aead_open_spec E" and "hpke_open E key enc ct aad algo m = (Ok pt, m')"
  shows "length ct = length (as_slice pt) + 16"
  using assms by (auto simp: hpke_open_def hpke_open_internal_def x25519_hpke_open_internal_def aead_open_spec_def basicM_defs
      ok_orM_def bindM_def SecretBox_new_def split: PrivateKey.splits option.splits if_splits)

lemma open_wrong_length:
  fixes w :: "'e world"
  assumes "host_spec E" and "aead_open_spec E" and "calm (ws_record E) w"
    and safe: "open_safe u enc enc_len ct n aad aad_len out n w" and "length (buf ct n w) = unat n"
  shows "open_body E u enc enc_len ct n aad aad_len out n w \<noteq> (Ok (), w')"
proof
  assume body: "open_body E u enc enc_len ct n aad aad_len out n w = (Ok (), w')"
  then have present: "open_present u enc ct out n"
    by (auto simp: open_body_def open_present_def errM_def split: if_splits)
  note ready = calm_usable [OF host_specD(3) [OF assms(1)] assms(3)]
  have "\<exists>rec pt (v :: 'e world) v'. hpke_open E (get_private_key rec) (buf enc enc_len w) (buf ct n w) (aad_buf aad aad_len w)
        (spec_algo (spec (meta rec))) v = (Ok pt, v') \<and> length (as_slice pt) = unat n"
    using body unfolding open_body_eq [OF conjunct1 [OF ready] conjunct2 [OF ready] present safe refl]
    by (fastforce simp: bindM_eq_Ok errM_def split: option.splits if_splits)
  then show False
    using hpke_open_length [OF assms(2)] assms(5) by fastforce
qed

lemma fuzz_open_not_success:
  assumes "host_spec E" and "aead_open_spec E" and "fuzz_inv (ws_record E) st" and "length data < 2 ^ 64"
  shows "fst (fuzz_open E data st) \<noteq> Finished Success"
proof
  assume finished: "fst (fuzz_open E data st) = Finished Success"
  then obtain enc aad ct where args: "split_input data = Some (enc, aad, ct)"
    by (auto simp: fuzz_open_def split: option.splits)
  obtain u w where cell: "get_or_init (fst st) (open_setup E) (snd st) = (Returns u, w)" and w: "calm (ws_record E) w"
    and u: "\<And>uuid. u = Some uuid \<Longrightarrow> length uuid = 16"
    using assms(3) open_setup_calm [OF assms(1), of "snd st"]
    by (cases "fst st") (auto simp: get_or_init_def fuzz_inv_def)
  let ?w = "\<lambda>uuid. w\<lparr>mem := (mem w)(4 \<mapsto> Bytes uuid, 5 \<mapsto> Bytes enc, 6 \<mapsto> Bytes ct, 7 \<mapsto> Bytes aad,
      8 \<mapsto> Bytes (replicate (length ct) 0))\<rparr>"
  let ?n = "word_of_nat (length ct) :: usize"
  obtain uuid w' where uuid: "u = Some uuid"
    and "key_manager_open E 4 5 (word_of_nat (length enc)) 6 ?n 7 (word_of_nat (length aad)) 8 ?n (?w uuid)
       = (Returns Success, w')"
    using finished args cell
    by (cases u) (auto simp: fuzz_open_def split: prod.splits ffi_result.splits)
  then have body: "open_body E 4 5 (word_of_nat (length enc)) 6 ?n 7 (word_of_nat (length aad)) 8 ?n (?w uuid) = (Ok (), w')"
    by (simp add: key_manager_open_def open_entry.success_iff)
  have len: "unat ?n = length ct"
    using args assms(4) by (auto simp: split_input_def Let_def unat_of_nat take_bit_nat_eq_self split: if_splits)
  have "open_safe 4 5 (word_of_nat (length enc)) 6 ?n 7 (word_of_nat (length aad)) 8 ?n (?w uuid)"
    using u [OF uuid] by (simp add: open_safe_def valid_buf_def unat_word_of_nat_le)
  moreover have "length (buf 6 ?n (?w uuid)) = unat ?n"
    using len by (auto simp: buf_def)
  ultimately show False
    using open_wrong_length [OF assms(1,2) calm_mem [OF w]] body by blast
qed

section \<open>Properties\<close>



text \<open>
  What \<^verbatim>\<open>fuzz_open\<close> cannot reach. It passes an output buffer of the length of the ciphertext, and
  \<^verbatim>\<open>key_manager_open\<close> accepts only the exact length of the plaintext, which is 16 bytes less. So no input ever
  makes the call return \<^verbatim>\<open>Success\<close>: the copy of the plaintext to the caller is never fuzzed, not even with a ciphertext
  that opens.
\<close>

theorem fuzz_open_never_succeeds:
  assumes "host_spec E" and "aead_open_spec E" and "started w"
    and "list_all (\<lambda>i. case i of FuzzInput data \<Rightarrow> length data < 2 ^ 64 | FuzzReaper \<Rightarrow> True) evs"
  shows "Finished Success \<notin> set (fst (session (open_campaign E) evs (None, w)))"
proof -
  have "list_all (\<lambda>r. r \<noteq> Finished Success) (fst (session (open_campaign E) evs (None, w)))"
  proof (rule session_replies_all [where I = "fuzz_inv (ws_record E)"])
    show "fuzz_inv (ws_record E) (None, w)"
      using assms(3) calm_started by (auto simp: fuzz_inv_def)
    show "fst (open_campaign E i st) \<noteq> Finished Success \<and> fuzz_inv (ws_record E) (snd (open_campaign E i st))"
      if "i \<in> set evs" and "fuzz_inv (ws_record E) st" for i st
      using assms(4) [unfolded list_all_iff, rule_format, OF that(1)] that(2) fuzz_open_calm [OF assms(1) that(2)]
        fuzz_open_not_success [OF assms(1,2) that(2)] calm_reaper [OF host_specD(4) [OF assms(1)]]
      by (cases i) (auto simp: fuzz_inv_def)
  qed
  then show ?thesis
    by (auto simp: list_all_iff)
qed

theorem fuzz_open_never_succeeds_witness:
  "Finished Success \<notin> set (fst (session (open_campaign ref_env) [FuzzInput [2, 0, 1, 5, 6, 7, 8], FuzzReaper] (None, ref_world [])))"
proof -
  have "aead_open_spec ref_env"
    by (auto simp: aead_open_spec_def ref_env_def split: if_splits)
  then show ?thesis
    using fuzz_open_never_succeeds [OF ref_host _ ref_world_started, of "[FuzzInput [2, 0, 1, 5, 6, 7, 8], FuzzReaper]"] by simp
qed

end
