(* ===== verification/Key_History.thy ===== *)
theory Key_History
  imports Key_Lifetime No_Panic
begin

text \<open>
  Handles over whole histories of a core. \<open>evolves\<close> is what any number of steps can do to the registry: a key
  stays, goes, or is new under a handle that was drawn on the way. It is reflexive and transitive and every step of both
  cores is contained in it, so it describes histories. As long as the random handles that were drawn are
  different, it follows that a handle names one key for ever: it never comes back once its key is gone, and a key that is not
  destroyed is there until its deadline.
\<close>

section \<open>Histories\<close>

definition evolves :: "('s, 'r, 'p) env \<Rightarrow> 'z custody_scheme \<Rightarrow> 'z custody_scheme \<Rightarrow> bool" where
  "evolves E w w' \<longleftrightarrow> advances w w' \<and> (\<forall>h. contents w' h = contents w h \<or> contents w' h = None
     \<or> (\<exists>n. draws w \<le> n \<and> n < draws w' \<and> h = Uuid_new_v4 E n))"

text \<open>Steps that do not destroy a given key.\<close>

definition kps_spares :: "('s, 'r, 'p) env \<Rightarrow> KeyHandle \<Rightarrow> KpsKeyInfo world \<Rightarrow> KpsKeyInfo world \<Rightarrow> bool" where
  "kps_spares E h w w' \<longleftrightarrow> kps_step E w w'
     \<and> (\<forall>u. h = Uuid (buf u 16 w) \<longrightarrow> w' \<noteq> snd (key_manager_destroy_kem_key E u w))"

definition ws_spares :: "('s, 'r, 'p) env \<Rightarrow> KeyHandle \<Rightarrow> WsKeyInfo world \<Rightarrow> WsKeyInfo world \<Rightarrow> bool" where
  "ws_spares E h w w' \<longleftrightarrow> ws_step E w w'
     \<and> (\<forall>u. h = Uuid (buf u 16 w) \<longrightarrow> w' \<noteq> snd (key_manager_destroy_binding_key E u w))
     \<and> w' \<noteq> snd (key_manager_destroy_all_binding_keys E w)"

section \<open>Lemmas: evolution\<close>

lemma evolves_refl: "evolves E w w"
  by (simp add: evolves_def)

lemma evolves_trans:
  assumes "evolves E a b" and "evolves E b c"
  shows "evolves E a c"
proof -
  have adv: "draws a \<le> draws b" "draws b \<le> draws c" and "advances a c"
    using assms advances_trans by (auto simp: evolves_def advances_def)
  moreover have "contents c h = contents a h \<or> contents c h = None \<or> (\<exists>n. draws a \<le> n \<and> n < draws c \<and> h = Uuid_new_v4 E n)" for h
    using assms adv unfolding evolves_def by (metis le_trans less_le_trans)
  ultimately show ?thesis
    by (simp add: evolves_def)
qed

lemma evolves_frame:
  assumes "evolves E w v" and "contents v' = contents v" and "advances v v'"
  shows "evolves E w v'"
  using evolves_trans [OF assms(1), of v'] assms(2,3) by (simp add: evolves_def)

lemma mem_stable_evolves: "mem_stable (evolves E w)"
  by (auto simp: mem_stable_def advances_def elim!: evolves_frame)

lemma ffi_call_evolves: "evolves E w (snd (body w)) \<Longrightarrow> evolves E w (snd (ffi_call op body w))"
  by (rule evolves_frame, assumption)
    (auto simp: ffi_call_contents ffi_call_def ffi_call_with_reporter_def telemetry_report_failure_def run_panic_hook_def
      advances_def split: outcome.splits prod.splits)

lemma ffi_call_i32_evolves: "evolves E w (snd (body w)) \<Longrightarrow> evolves E w (snd (ffi_call_i32 op body w))"
  by (rule evolves_frame, assumption)
    (auto simp: ffi_call_i32_contents ffi_call_i32_def ffi_call_i32_with_reporter_def telemetry_report_failure_def
      run_panic_hook_def advances_def split: outcome.splits prod.splits)

text \<open>The predicate the closures keep that only read the registry: calm, and evolved from a given state.\<close>

definition evolved :: "('s, 'r, 'p) env \<Rightarrow> (KeyRecord \<Rightarrow> bool) \<Rightarrow> 'z custody_scheme \<Rightarrow> 'z custody_scheme \<Rightarrow> bool" where
  "evolved E P w0 w \<longleftrightarrow> calm P w \<and> evolves E w0 w"

lemma evolved_stable: "zeroize_spec E \<Longrightarrow> machine_stable E (evolved E P w0)"
  using calm_machine_stable [of E P] unfolding machine_stable_def evolved_def
  by (metis contents_frame evolves_frame machine_more_custody(1))

lemma evolved_mem_stable: "mem_stable (evolved E P w0)"
  using calm_mem_stable [of P] mem_stable_evolves [of E w0] by (auto simp: mem_stable_def evolved_def)

lemma advances_forced: "advances w (forced w)" "advances w ((forced w)\<lparr>ticks := Suc (ticks w)\<rparr>)"
    "advances w ((forced w)\<lparr>ticks := ticks w\<rparr>)"
  by (auto simp: advances_def forced_def split: lazy_registry.splits)

lemma evolved_reads:
  assumes "threads_granted E" and "zeroize_spec E"
  shows "keeps UNIV (evolved E P w0) (static_get_key E k)"
    and "keeps UNIV (evolved E P w0) (static_list_all_keys E offset limit)"
proof -
  have calm: "calm P (snd (static_get_key E k w))" "calm P (snd (static_list_all_keys E offset limit w))" if "calm P w" for w
    by (rule keepsD [OF quiet_keeps [OF quiet_static(4) [OF assms]] that prod.collapse [symmetric]]
        keepsD [OF quiet_keeps [OF quiet_static(5) [OF assms]] that prod.collapse [symmetric]])+
  have "evolves E w0 (snd (static_get_key E k w))" "evolves E w0 (snd (static_list_all_keys E offset limit w))"
    if "evolved E P w0 w" for w
    using that calm_usable [OF assms(1), of P w] static_get_key_eq [of P w E k] static_list_all_keys_eq [of P w E offset limit]
      contents_frame [of "(forced w)\<lparr>ticks := _\<rparr>" "forced w"]
    by (auto simp: evolved_def advances_forced elim!: evolves_frame)
  then show "keeps UNIV (evolved E P w0) (static_get_key E k)"
    and "keeps UNIV (evolved E P w0) (static_list_all_keys E offset limit)"
    using calm by (auto simp: keeps_alt evolved_def)
qed

lemma create_and_add_evolves:
  fixes w :: "'e world"
  assumes "host_spec E" and "calm P w" and "create_and_add E algo d mk w = (r, w')"
  shows "evolves E w w'"
proof -
  note crates = host_specD(1) [OF assms(1), unfolded crates_spec_def]
  obtain c v where create: "create_key_internal E algo d mk w = (c, v)"
    by fastforce
  have "evolved E P w v"
    using keepsD [OF keeps_create [OF evolved_stable] _ create, of P w] crates assms(2) evolves_refl
    by (auto simp: evolved_def)
  then have v: "calm P v" "evolves E w v"
    by (simp_all add: evolved_def)
  show ?thesis
  proof (cases c)
    case (Ok rec)
    note ready = calm_usable [OF host_specD(3) [OF assms(1)] v(1)]
    note made = create_key_internal_Ok [OF _ create [unfolded Ok]]
    have w': "w' = snd (static_add_key E rec v)"
      using assms(3) create Ok ready by (auto simp: create_and_add_def bindM_def returnM_def static_add_key_eq)
    have "contents w' = (contents v)(meta_id (meta rec) \<mapsto> rec)" and adv: "advances v w'"
      using w' ready added_props(2) [OF registry_of_wf, of P v rec] advances_forced(1) [of v]
      by (auto simp: static_add_key_eq [of P v E] advances_def)
    moreover have "meta_id (meta rec) = Uuid_new_v4 E (Suc (draws w))" "draws v = draws w + 2"
      using made(2,7) crates by simp_all
    moreover have "contents v = contents w"
      using made(9) crates machine_more_custody(1) contents_frame by metis
    ultimately show ?thesis
      using v(2) advances_trans [of w v w']
      by (auto simp: evolves_def advances_def intro: exI [of _ "Suc (draws w)"])
  qed (use assms(3) create v in \<open>auto simp: create_and_add_def bindM_def\<close>)
qed

lemma remove_evolves:
  assumes "threads_granted E" and "calm P w"
    and "bindM (static_remove_key E k) (\<lambda>old. bindM (ok_orM old NotFound)
        (\<lambda>rec. updateM (KeyRecord_drop E rec))) w = (r, w')"
  shows "evolves E w w'"
proof -
  note ready = calm_usable [OF assms(1,2)]
  have "contents w' = (contents w)(k := None) \<and> advances w w'"
    using assms(3) removed_props(2) [OF registry_of_wf, of P w k] ready advances_forced(1) [of w]
    by (auto simp: static_remove_key_bind [OF conjunct1 [OF ready] conjunct2 [OF ready]] advances_def split: option.splits)
  then show ?thesis
    by (simp add: evolves_def)
qed

text \<open>Every step of a calm core is an evolution.\<close>

lemma kps_body_evolves:
  fixes w :: "'e world"
  assumes "host_spec E" and "calm (kps_record E) w" and "kps_safe c w"
  shows "evolves E w (snd (kps_body E c w))"
proof -
  note h = host_specD [OF assms(1)]
  note stable = evolved_stable [OF h(4), of "kps_record E" w] evolved_mem_stable [of E "kps_record E" w]
  have get: "yields UNIV (evolved E (kps_record E) w) (\<lambda>r. \<forall>x. r = Some x \<longrightarrow> True) (static_get_key E k)" for k
    by (rule yields_True [OF evolved_reads(1) [OF h(3,4)]]) simp
  have now: "evolved E (kps_record E) w w"
    using assms(2) by (simp add: evolved_def evolves_refl)
  have reads: "evolves E w (snd (kps_body E c w))" if "keeps UNIV (evolved E (kps_record E) w) (kps_body E c)"
    using that now by (simp add: keeps_alt evolved_def)
  show ?thesis
  proof (cases c)
    case (GenerateKem a al b bl e u p pl)
    have "evolves E w w'" if "generate_kem_keypair_body E a al b bl e u p pl w = (r, w')" for r w'
      by (rule generate_kem_after [OF _ _ mem_stable_evolves evolves_refl create_and_add_evolves [OF assms(1,2)] that])
        (use h(1) assms(3) GenerateKem in \<open>auto simp: crates_spec_def\<close>)
    from this [OF prod.collapse [symmetric]] show ?thesis
      using GenerateKem by simp
  next
    case (DestroyKem u)
    then show ?thesis
      using remove_evolves [OF h(3) assms(2) prod.collapse [symmetric]] destroy_kem_key_body_eq [of u w E] assms(3) evolves_refl
      by (cases "is_null u") (auto simp: destroy_kem_key_body_def [of E u] errM_def)
  next
    case (DecapSeal u e el a al oe oel oc ocl)
    show ?thesis
      by (rule reads, unfold DecapSeal kps_body.simps, rule keeps_decap_and_seal_body [OF stable get]) auto
  next
    case (GetKem u k kl b bl a al r)
    show ?thesis
      by (rule reads, unfold GetKem kps_body.simps, rule keeps_get_kem_key_body [OF stable get]) auto
  qed
qed

lemma ws_body_evolves:
  fixes w :: "'e world"
  assumes "host_spec E" and "calm (ws_record E) w" and "ws_safe c w"
  shows "evolves E w (snd (ws_body E c w))"
proof -
  note h = host_specD [OF assms(1)]
  note stable = evolved_stable [OF h(4), of "ws_record E" w] evolved_mem_stable [of E "ws_record E" w]
  have get: "yields UNIV (evolved E (ws_record E) w) (\<lambda>r. \<forall>x. r = Some x \<longrightarrow> True) (static_get_key E k)" for k
    by (rule yields_True [OF evolved_reads(1) [OF h(3,4)]]) simp
  have now: "evolved E (ws_record E) w w"
    using assms(2) by (simp add: evolved_def evolves_refl)
  have reads: "evolves E w (snd (ws_body E c w))" if "keeps UNIV (evolved E (ws_record E) w) (ws_body E c)"
    using that now by (simp add: keeps_alt evolved_def)
  show ?thesis
  proof (cases c)
    case (GenerateBinding a al e u p pl)
    have "evolves E w w'" if "generate_binding_keypair_body E a al e u p pl w = (r, w')" for r w'
      by (rule generate_binding_after [OF _ _ mem_stable_evolves evolves_refl create_and_add_evolves [OF assms(1,2)] that])
        (use h(1) assms(3) GenerateBinding in \<open>auto simp: crates_spec_def\<close>)
    from this [OF prod.collapse [symmetric]] show ?thesis
      using GenerateBinding by simp
  next
    case (DestroyBinding u)
    then show ?thesis
      using remove_evolves [OF h(3) assms(2) prod.collapse [symmetric]] destroy_binding_key_body_eq [of u w E] assms(3) evolves_refl
      by (cases "is_null u") (auto simp: destroy_binding_key_body_def [of E u] errM_def)
  next
    case DestroyAll
    note ready = calm_usable [OF h(3) assms(2)]
    obtain recs where "static_remove_all_keys E w = (Ok (), (drop_all E recs (forced w))\<lparr>KEY_REGISTRY := Ready KeyRegistry_default\<rparr>)"
      using static_remove_all_keys_eq [OF conjunct1 [OF ready] conjunct2 [OF ready]] by blast
    then show ?thesis
      using DestroyAll advances_forced(1) [of w]
      by (simp add: destroy_all_binding_keys_body_def bindM_def returnM_def evolves_def advances_def)
  next
    case (OpenSealed u e el ct cl a al p pl)
    show ?thesis
      by (rule reads, unfold OpenSealed ws_body.simps, rule keeps_open_body [OF stable get]) auto
  next
    case (GetBinding u p pl a al)
    show ?thesis
      by (rule reads, unfold GetBinding ws_body.simps, rule keeps_get_binding_key_body [OF stable get]) auto
  qed
qed

lemma enumerate_evolves:
  assumes "host_spec E"
  shows "calm (kps_record E) w \<Longrightarrow> evolves E w (snd (key_manager_enumerate_kem_keys E p n offset out_has_more w))"
    and "calm (ws_record E) v \<Longrightarrow> evolves E v (snd (key_manager_enumerate_binding_keys E p n offset out_has_more v))"
proof -
  note h = host_specD [OF assms]
  have list: "yields UNIV (evolved E P w0) (\<lambda>r. InternalError \<in> (UNIV :: Status set) \<or> Q r) (static_list_all_keys E off lim)"
    for P w0 Q off lim
    by (rule yields_True [OF evolved_reads(2) [OF h(3,4)]]) simp
  have "keeps UNIV (evolved E P w0) (enumerate_kem_keys_body E p n offset out_has_more)" for P w0
    by (rule keeps_enumerate_kem_keys_body [OF evolved_stable [OF h(4)] evolved_mem_stable list]) simp
  then show "evolves E w (snd (key_manager_enumerate_kem_keys E p n offset out_has_more w))" if "calm (kps_record E) w"
    using that unfolding key_manager_enumerate_kem_keys_def
    by (intro ffi_call_i32_evolves) (auto simp: keeps_alt evolved_def evolves_refl)
  have "keeps UNIV (evolved E P w0) (enumerate_binding_keys_body E p n offset out_has_more)" for P w0
    by (rule keeps_enumerate_binding_keys_body [OF evolved_stable [OF h(4)] evolved_mem_stable list]) simp
  then show "evolves E v (snd (key_manager_enumerate_binding_keys E p n offset out_has_more v))" if "calm (ws_record E) v"
    using that unfolding key_manager_enumerate_binding_keys_def
    by (intro ffi_call_i32_evolves) (auto simp: keeps_alt evolved_def evolves_refl)
qed

lemma telemetry_evolves: "key_manager_init_telemetry_ffi p n w = (u, w') \<Longrightarrow> evolves E w w'"
  using init_telemetry_step(2) [of p n w u w']
  by (auto simp: evolves_def advances_def key_manager_init_telemetry_ffi_def from_raw_parts_def
      split: if_splits option.splits obj.splits)

lemma reaper_evolves:
  assumes "core_inv P w"
  shows "evolves E w (static_reaper_wakeup E w)"
proof -
  have "advances w (static_reaper_wakeup E w)"
  proof (cases "KEY_REGISTRY w")
    case (Ready reg)
    then show ?thesis
      using reaper_wakeup_eq [OF assms Ready, of E] by (auto simp: advances_def)
  qed (simp_all add: static_reaper_wakeup_def)
  then show ?thesis
    using reaper_wakeup_contents [OF assms, of E] by (auto simp: evolves_def unexpired_def split: option.splits)
qed

lemma reaper_draws: "core_inv P w \<Longrightarrow> draws (static_reaper_wakeup E w) = draws w"
  using reaper_wakeup_eq [of P w _ E] by (cases "KEY_REGISTRY w") (fastforce simp: static_reaper_wakeup_def)+

lemma kps_step_evolves:
  assumes "host_spec E" and "calm (kps_record E) w" and "kps_step E w w'"
  shows "evolves E w w'"
  using assms(3)
proof (cases rule: kps_step.cases)
  case (kps_call c r)
  then show ?thesis
    using ffi_call_evolves [of E w "kps_body E c" "kps_operation c"] kps_body_evolves [OF assms(1,2), of c]
    by (simp add: kps_run_body)
next
  case (kps_enumerate p n es out_has_more offset v)
  then show ?thesis using enumerate_evolves(1) [OF assms(1,2)] by (metis snd_conv)
next
  case (kps_telemetry p n u)
  then show ?thesis using telemetry_evolves by blast
next
  case kps_reaper
  then show ?thesis using reaper_evolves assms(2) by (auto simp: calm_def)
next
  case (kps_caller m)
  then show ?thesis using mem_stable_evolves [of E w] evolves_refl [of E w] by (auto simp: mem_stable_def)
qed

lemma ws_step_evolves:
  assumes "host_spec E" and "calm (ws_record E) w" and "ws_step E w w'"
  shows "evolves E w w'"
  using assms(3)
proof (cases rule: ws_step.cases)
  case (ws_call c r)
  then show ?thesis
    using ffi_call_evolves [of E w "ws_body E c" "ws_operation c"] ws_body_evolves [OF assms(1,2), of c]
    by (simp add: ws_run_body)
next
  case (ws_enumerate p n es out_has_more offset v)
  then show ?thesis using enumerate_evolves(2) [OF assms(1,2)] by (metis snd_conv)
next
  case (ws_telemetry p n u)
  then show ?thesis using telemetry_evolves by blast
next
  case ws_reaper
  then show ?thesis using reaper_evolves assms(2) by (auto simp: calm_def)
next
  case (ws_caller m)
  then show ?thesis using mem_stable_evolves [of E w] evolves_refl [of E w] by (auto simp: mem_stable_def)
qed

section \<open>The life of a handle\<close>

text \<open>
  What follows for a core whose steps are evolutions: the handles in its registry were all drawn, so a handle that is
  drawn later is another one.
\<close>

locale custody_history =
  fixes E :: "('s, 'r, 'p) env" and init :: "'e world \<Rightarrow> bool" and step :: "'e world \<Rightarrow> 'e world \<Rightarrow> bool"
  assumes init_contents: "init w \<Longrightarrow> contents w = Map.empty"
    and step_evolves: "host_spec E \<Longrightarrow> reachable init step w \<Longrightarrow> step w w' \<Longrightarrow> evolves E w w'"
begin

lemma steps_evolve:
  assumes "host_spec E" and "step\<^sup>*\<^sup>* w w'" and "reachable init step w"
  shows "evolves E w w' \<and> reachable init step w'"
  using assms(2)
proof (induction rule: rtranclp_induct)
  case (step y z)
  then show ?case
    using step_evolves [OF assms(1), of y z] evolves_trans [of E w y z] reachable_step by metis
qed (simp add: evolves_refl assms(3))

lemma handle_drawn:
  assumes "host_spec E" and "reachable init step w" and "contents w h = Some rec"
  shows "\<exists>n < draws w. h = Uuid_new_v4 E n"
  using assms(2,3)
proof (induction arbitrary: rec rule: reachable.induct)
  case (reachable_init w)
  then show ?case by (simp add: init_contents)
next
  case (reachable_step w w')
  then have e: "evolves E w w'"
    using step_evolves [OF assms(1)] by blast
  then have "contents w h = Some rec \<or> (\<exists>n < draws w'. h = Uuid_new_v4 E n)"
    using reachable_step.prems unfolding evolves_def by (metis option.distinct(1))
  then show ?case
    using reachable_step.IH e unfolding evolves_def advances_def by (metis less_le_trans)
qed

lemma handle_kept:
  assumes "host_spec E" and "inj_on (Uuid_new_v4 E) {..<draws w'}" and "n < draws w" and "evolves E w w'"
  shows "contents w' (Uuid_new_v4 E n) = contents w (Uuid_new_v4 E n) \<or> contents w' (Uuid_new_v4 E n) = None"
proof -
  have "m = n" if "m < draws w'" and "Uuid_new_v4 E n = Uuid_new_v4 E m" for m
    using inj_onD [OF assms(2) that(2)] that(1) assms(3,4) by (auto simp: evolves_def advances_def)
  then show ?thesis
    using assms(3,4) unfolding evolves_def by (metis not_less)
qed

lemma one_key:
  assumes "host_spec E" and "reachable init step w" and "contents w h = Some rec"
    and "step\<^sup>*\<^sup>* w w'" and "step\<^sup>*\<^sup>* w' w''" and "inj_on (Uuid_new_v4 E) {..<draws w''}"
  shows "contents w' h \<in> {Some rec, None} \<and> (contents w' h = None \<longrightarrow> contents w'' h = None)"
proof -
  obtain n where n: "n < draws w" "h = Uuid_new_v4 E n"
    using handle_drawn [OF assms(1-3)] by blast
  have e: "evolves E w w'" "evolves E w' w''"
    using steps_evolve [OF assms(1,4,2)] steps_evolve [OF assms(1,5)] by auto
  then have d: "draws w \<le> draws w'" "draws w' \<le> draws w''"
    by (auto simp: evolves_def advances_def)
  have "inj_on (Uuid_new_v4 E) {..<draws w'}"
    using assms(6) d(2) by (auto elim: inj_on_subset)
  then show ?thesis
    using handle_kept [OF assms(1) _ n(1) e(1)] handle_kept [OF assms(1,6) _ e(2), of n] n d assms(3) by auto
qed

end

lemma started_contents: "started w \<Longrightarrow> contents w = Map.empty"
  unfolding started_def using contents_frame [of w "init_world (clock w) (mem w)"]
  by (metis (no_types, lifting) contents_def custody.select_convs(1) init_world_def lazy_registry.simps(8))

interpretation kps_history: custody_history E started "kps_step E"
  for E :: "('s, 'r, 'p) env"
  by unfold_locales (use started_contents kps_step_evolves kps_calm.reachable_inv in blast)+

interpretation ws_history: custody_history E started "ws_step E"
  for E :: "('s, 'r, 'p) env"
  by unfold_locales (use started_contents ws_step_evolves ws_calm.reachable_inv in blast)+

text \<open>A key that is spared lives until its deadline.\<close>

lemma kps_spared_lives:
  assumes "host_spec E" and "reachable started (kps_step E) w" and "contents w h = Some rec" and "mono (clock w)"
    and "(kps_spares E h)\<^sup>*\<^sup>* w w'" and "clock w (ticks w') < delete_after (meta rec)"
    and "inj_on (Uuid_new_v4 E) {..Suc (draws w')}"
  shows "contents w' h = Some rec"
  using assms(5-7)
proof (induction rule: rtranclp_induct)
  case (step y z)
  have "(kps_step E)\<^sup>*\<^sup>* w y"
    using step.hyps(1) by (rule rtranclp_mono [THEN predicate2D, rotated]) (auto simp: kps_spares_def)
  then have y: "evolves E w y" "reachable started (kps_step E) y"
    using kps_history.steps_evolve [OF assms(1) _ assms(2)] by auto
  have st: "kps_step E y z"
    using step.hyps(2) by (simp add: kps_spares_def)
  have calm: "calm (kps_record E) y"
    using kps_calm.reachable_inv [OF y(2)] assms(1) by blast
  have z: "clock y = clock w" "ticks y \<le> ticks z" "draws y \<le> draws z" "draws w \<le> draws y"
    using y(1) kps_step_evolves [OF assms(1) calm st] by (auto simp: evolves_def advances_def)
  have live: "clock w (ticks y) < delete_after (meta rec)"
    using monoD [OF assms(4) z(2)] step.prems(1) by simp
  have inj: "inj_on (Uuid_new_v4 E) {..Suc (draws y)}"
    using step.prems(2) z(3) by (auto elim: inj_on_subset)
  then have "contents y h = Some rec"
    using step.IH live by blast
  obtain n where "n < draws w" "h = Uuid_new_v4 E n"
    using kps_history.handle_drawn [OF assms(1-3)] by blast
  then have "Uuid_new_v4 E (Suc (draws y)) \<noteq> h"
    using inj_onD [OF inj, of n "Suc (draws y)"] z(4) by auto
  then show ?case
    using kps_key_survives [OF host_specD(1) [OF assms(1)] _ st \<open>contents y h = Some rec\<close>] calm live z(1) step.hyps(2)
    by (auto simp: calm_def kps_spares_def)
qed (use assms(3) in simp)

text \<open>A key that is spared lives until its deadline.\<close>

lemma ws_spared_lives:
  assumes "host_spec E" and "reachable started (ws_step E) w" and "contents w h = Some rec" and "mono (clock w)"
    and "(ws_spares E h)\<^sup>*\<^sup>* w w'" and "clock w (ticks w') < delete_after (meta rec)"
    and "inj_on (Uuid_new_v4 E) {..Suc (draws w')}"
  shows "contents w' h = Some rec"
  using assms(5-7)
proof (induction rule: rtranclp_induct)
  case (step y z)
  have "(ws_step E)\<^sup>*\<^sup>* w y"
    using step.hyps(1) by (rule rtranclp_mono [THEN predicate2D, rotated]) (auto simp: ws_spares_def)
  then have y: "evolves E w y" "reachable started (ws_step E) y"
    using ws_history.steps_evolve [OF assms(1) _ assms(2)] by auto
  have st: "ws_step E y z"
    using step.hyps(2) by (simp add: ws_spares_def)
  have calm: "calm (ws_record E) y"
    using ws_calm.reachable_inv [OF y(2)] assms(1) by blast
  have z: "clock y = clock w" "ticks y \<le> ticks z" "draws y \<le> draws z" "draws w \<le> draws y"
    using y(1) ws_step_evolves [OF assms(1) calm st] by (auto simp: evolves_def advances_def)
  have live: "clock w (ticks y) < delete_after (meta rec)"
    using monoD [OF assms(4) z(2)] step.prems(1) by simp
  have inj: "inj_on (Uuid_new_v4 E) {..Suc (draws y)}"
    using step.prems(2) z(3) by (auto elim: inj_on_subset)
  then have "contents y h = Some rec"
    using step.IH live by blast
  obtain n where "n < draws w" "h = Uuid_new_v4 E n"
    using ws_history.handle_drawn [OF assms(1-3)] by blast
  then have "Uuid_new_v4 E (Suc (draws y)) \<noteq> h"
    using inj_onD [OF inj, of n "Suc (draws y)"] z(4) by auto
  then show ?case
    using ws_key_survives [OF host_specD(1) [OF assms(1)] _ st \<open>contents y h = Some rec\<close>] calm live z(1) step.hyps(2)
    by (auto simp: calm_def ws_spares_def)
qed (use assms(3) in simp)

section \<open>Properties\<close>

text \<open>A reachable state with a key, for the witnesses.\<close>

lemma create_and_add_counters:
  fixes w :: "'e world"
  assumes "hpke_spec E" and "core_inv P w" and "create_and_add E algo d mk w = (Ok x, w')"
  shows "ticks w' = Suc (ticks w)" "draws w' = draws w + 2" "clock w' = clock w"
proof -
  obtain rec v where create: "create_key_internal E algo d mk w = (Ok rec, v)" and add: "static_add_key E rec v = (Ok (), w')"
    using assms(3) by (auto simp: create_and_add_def bindM_eq_Ok returnM_def)
  note made = create_key_internal_Ok [OF assms(1) create]
  have "core_inv P v"
    using assms(2) made(8,9) machine_more_custody(1) [of v w] core_inv_same [of v w P] by simp
  from static_add_key_Ok(2-4) [OF this add] show "ticks w' = Suc (ticks w)" "draws w' = draws w + 2" "clock w' = clock w"
    using made(5-7) by simp_all
qed

lemma ref_fresh: "n \<le> 5 \<Longrightarrow> inj_on (Uuid_new_v4 ref_env) {..n}" "n \<le> 5 \<Longrightarrow> inj_on (Uuid_new_v4 ref_env) {..<n}"
  by (auto simp: inj_on_def ref_env_def replicate_eq_replicate word_unat_eq_iff unat_of_nat take_bit_nat_def)

lemma ref_kem_made:
  obtains w h rec where "reachable started (kps_step ref_env) w" "contents w h = Some rec" "clock w = ref_clock"
    "ticks w = 1" "draws w = 2" "delete_after (meta rec) = 60 * nanos_per_sec"
proof -
  let ?w = "ref_world ([] :: KpsKeyInfo list)"
  obtain h pk v where make: "create_and_add ref_env ref_suite (Duration_from_secs 60) (\<lambda>a pk. KemWithBindingPub a pk
         (X25519_public (X25519PublicKey (buf 4 32 ?w)))) ?w = (Ok (h, pk), v)"
    and body: "generate_kem_keypair_body ref_env 11 12 4 32 60 2 3 32 ?w
       = (Ok (), v\<lparr>mem := write_mem 3 (PublicKey_as_bytes pk) (write_mem 2 (as_bytes h) (mem ?w))\<rparr>)"
    using generate_kem_keypair_body_run [OF ref_hpke_spec ref_uuid_spec ref_secretmem_spec ref_world_inv
        ref_generate_kem_args(1) ref_generate_kem_args(2) _ ref_decode_buf ref_suite_supported
        ref_vault_granted ref_world_granted, of "[] :: KpsKeyInfo list"] by (auto simp: ref_bufs)
  let ?v = "v\<lparr>mem := write_mem 3 (PublicKey_as_bytes pk) (write_mem 2 (as_bytes h) (mem ?w))\<rparr>"
  have "kps_run ref_env (GenerateKem 11 12 4 32 60 2 3 32) ?w = (Returns Success, ?v)"
    using body by (simp add: kps_run_body ffi_call_def ffi_call_with_reporter_def)
  then have "kps_step ref_env ?w ?v"
    using ref_generate_kem_args(2) by (intro kps_call [of "GenerateKem 11 12 4 32 60 2 3 32"]) simp_all
  then have reach: "reachable started (kps_step ref_env) ?v"
    using reachable_step [OF reachable_init [of started, OF ref_world_started]] by blast
  note counters = create_and_add_counters [OF ref_hpke_spec ref_world_inv make]
  obtain rec where "contents v = (contents ?w)(h \<mapsto> rec)" "meta rec = new_metadata ref_env ref_suite (Duration_from_secs 60)
      (\<lambda>a pk. KemWithBindingPub a pk (X25519_public (X25519PublicKey (buf 4 32 ?w)))) ?w"
    using create_and_add_Ok(1) [OF ref_hpke_spec ref_world_inv _ make] by (auto simp: own_public_key_def)
  then show thesis
    using reach counters
    by (intro that [of ?v h rec]) (auto simp: new_metadata_def ref_clock_def Duration_from_secs_def)
qed

lemma ref_binding_made:
  obtains w h rec where "reachable started (ws_step ref_env) w" "contents w h = Some rec" "clock w = ref_clock"
    "ticks w = 1" "draws w = 2" "delete_after (meta rec) = 60 * nanos_per_sec"
proof -
  let ?w = "ref_world ([] :: WsKeyInfo list)"
  obtain h pk v where make: "create_and_add ref_env ref_suite (Duration_from_secs 60) Binding ?w = (Ok (h, pk), v)"
    and body: "generate_binding_keypair_body ref_env 11 12 60 2 3 32 ?w
       = (Ok (), v\<lparr>mem := write_mem 3 (PublicKey_as_bytes pk) (write_mem 2 (as_bytes h) (mem ?w))\<rparr>)"
    using generate_binding_keypair_body_run [OF ref_hpke_spec ref_uuid_spec ref_secretmem_spec ref_world_inv
        ref_generate_binding_args(1) ref_generate_binding_args(2) ref_decode_buf ref_suite_supported
        ref_vault_granted ref_world_granted, of "[] :: WsKeyInfo list"] by (auto simp: ref_bufs)
  let ?v = "v\<lparr>mem := write_mem 3 (PublicKey_as_bytes pk) (write_mem 2 (as_bytes h) (mem ?w))\<rparr>"
  have "ws_run ref_env (GenerateBinding 11 12 60 2 3 32) ?w = (Returns Success, ?v)"
    using body by (simp add: ws_run_body ffi_call_def ffi_call_with_reporter_def)
  then have "ws_step ref_env ?w ?v"
    using ref_generate_binding_args(2) by (intro ws_call [of "GenerateBinding 11 12 60 2 3 32"]) simp_all
  then have reach: "reachable started (ws_step ref_env) ?v"
    using reachable_step [OF reachable_init [of started, OF ref_world_started]] by blast
  note counters = create_and_add_counters [OF ref_hpke_spec ref_world_inv make]
  obtain rec where "contents v = (contents ?w)(h \<mapsto> rec)" "meta rec = new_metadata ref_env ref_suite (Duration_from_secs 60) Binding ?w"
    using create_and_add_Ok(1) [OF ref_hpke_spec ref_world_inv _ make] by (auto simp: own_public_key_def)
  then show thesis
    using reach counters
    by (intro that [of ?v h rec]) (auto simp: new_metadata_def ref_clock_def Duration_from_secs_def)
qed

text \<open>
  C31. The life of a KEM key, over any history of the key protection core in which the random handles drawn so far are
  different. A handle that names a key in some reachable state names this key, with the same record, in all later
  states until it is gone, and then never names a key again. As long as no call destroys it, it is there at every
  state whose clock has not reached its deadline, whatever else happens in between.
\<close>

theorem kps_key_history:
  assumes "host_spec E" and "reachable started (kps_step E) w" and "contents w h = Some rec"
  shows "((kps_step E)\<^sup>*\<^sup>* w w' \<and> (kps_step E)\<^sup>*\<^sup>* w' w'' \<and> inj_on (Uuid_new_v4 E) {..<draws w''} \<longrightarrow>
        contents w' h \<in> {Some rec, None} \<and> (contents w' h = None \<longrightarrow> contents w'' h = None))
    \<and> ((kps_spares E h)\<^sup>*\<^sup>* w w' \<and> mono (clock w) \<and> clock w (ticks w') < delete_after (meta rec)
        \<and> inj_on (Uuid_new_v4 E) {..Suc (draws w')} \<longrightarrow> contents w' h = Some rec)"
  using kps_history.one_key [OF assms] kps_spared_lives [OF assms] by blast

theorem kps_key_history_witness:
  "\<exists>w h rec. reachable started (kps_step ref_env) w \<and> contents w h = Some rec
     \<and> contents (static_reaper_wakeup ref_env w) h \<in> {Some rec, None}"
proof -
  obtain w h rec where w: "reachable started (kps_step ref_env) w" "contents w h = Some rec" "draws w = 2"
    by (rule ref_kem_made)
  let ?v = "static_reaper_wakeup ref_env w"
  have reap: "(kps_step ref_env)\<^sup>*\<^sup>* w ?v"
    using kps_reaper by blast
  have inv: "core_inv (kps_record ref_env) w"
    using kps_calm.reachable_inv [OF w(1)] ref_host by (simp add: calm_def)
  have "inj_on (Uuid_new_v4 ref_env) {..<draws ?v}"
    using ref_fresh(2) [of 2] w(3) by (simp add: reaper_draws [OF inv])
  then show ?thesis
    using kps_key_history [OF ref_host w(1,2), of ?v ?v] reap w(1,2) by blast
qed

text \<open>
  C32. The life of a binding key, over any history of the workload core: its handle names it until it is gone and
  nothing afterwards, and it is there until its deadline unless a call destroys it or all keys.
\<close>

theorem ws_key_history:
  assumes "host_spec E" and "reachable started (ws_step E) w" and "contents w h = Some rec"
  shows "((ws_step E)\<^sup>*\<^sup>* w w' \<and> (ws_step E)\<^sup>*\<^sup>* w' w'' \<and> inj_on (Uuid_new_v4 E) {..<draws w''} \<longrightarrow>
        contents w' h \<in> {Some rec, None} \<and> (contents w' h = None \<longrightarrow> contents w'' h = None))
    \<and> ((ws_spares E h)\<^sup>*\<^sup>* w w' \<and> mono (clock w) \<and> clock w (ticks w') < delete_after (meta rec)
        \<and> inj_on (Uuid_new_v4 E) {..Suc (draws w')} \<longrightarrow> contents w' h = Some rec)"
  using ws_history.one_key [OF assms] ws_spared_lives [OF assms] by blast

theorem ws_key_history_witness:
  "\<exists>w h rec. reachable started (ws_step ref_env) w \<and> contents w h = Some rec
     \<and> contents (static_reaper_wakeup ref_env w) h \<in> {Some rec, None}"
proof -
  obtain w h rec where w: "reachable started (ws_step ref_env) w" "contents w h = Some rec" "draws w = 2"
    by (rule ref_binding_made)
  let ?v = "static_reaper_wakeup ref_env w"
  have reap: "(ws_step ref_env)\<^sup>*\<^sup>* w ?v"
    using ws_reaper by blast
  have inv: "core_inv (ws_record ref_env) w"
    using ws_calm.reachable_inv [OF w(1)] ref_host by (simp add: calm_def)
  have "inj_on (Uuid_new_v4 ref_env) {..<draws ?v}"
    using ref_fresh(2) [of 2] w(3) by (simp add: reaper_draws [OF inv])
  then show ?thesis
    using ws_key_history [OF ref_host w(1,2), of ?v ?v] reap w(1,2) by blast
qed


end
