(* ===== verification/Test_Harness.thy ===== *)
theory Test_Harness
  imports Key_History Fuzz_Targets Key_Release
begin

text \<open>
  What the unit tests of the custody cores are made of. A test is a computation over the world of a core: its local
  arrays are objects of the caller's memory, an exported function is called and its result is taken, \<^verbatim>\<open>assert!\<close>,
  \<^verbatim>\<open>unwrap\<close> and \<^verbatim>\<open>expect\<close> panic, and the guard \<^verbatim>\<open>KeyCleanup\<close> removes the key at the end of its scope, after a panic
  too. A test passes if it returns.

  \<open>testbed\<close> collects what the tests rely on: documented behaviour of the libraries, a kernel that grants memory and
  threads, and that public keys that are generated are not all zeros. \<open>brisk\<close> says that the tests are over
  before a minute has passed.

  Tests are verified with the weakest precondition \<open>ends\<close>. The assertion \<open>bench\<close> describes the world in the middle of a test: at
  most \<open>k\<close> keys, all under random handles, the objects of the test and the keys it has made.
\<close>

section \<open>Tests\<close>

definition assertM :: "bool \<Rightarrow> (Status, 'w, unit) rust" where
  "assertM b = (if b then returnM () else panicM)"

definition callM :: "('w \<Rightarrow> 'a ffi_result \<times> 'w) \<Rightarrow> (Status, 'w, 'a) rust" where
  "callM f w = (case f w of (Returns a, w') \<Rightarrow> (Ok a, w') | (UndefinedBehaviour, w') \<Rightarrow> (Undefined, w'))"

definition unwrapM :: "(Status, 'w, 'a) rust \<Rightarrow> (Status, 'w, 'a) rust" where
  "unwrapM m w = (case m w of (Err _, w') \<Rightarrow> (Panicked, w') | (r, w') \<Rightarrow> (r, w'))"

text \<open>A local array or cell is an object of its own, and is read by its name.\<close>

definition array :: "ptr \<Rightarrow> bytes \<Rightarrow> (Status, 'e world, unit) rust" where
  "array p bs = store p (Bytes bs)"

definition read_array :: "ptr \<Rightarrow> (Status, 'e world, bytes) rust" where
  "read_array p w = (case mem w p of Some (Bytes bs) \<Rightarrow> (Ok bs, w) | _ \<Rightarrow> (Undefined, w))"

definition deref_bool :: "ptr \<Rightarrow> (Status, 'e world, bool) rust" where
  "deref_bool p w = (case mem w p of Some (BoolCell b) \<Rightarrow> (Ok b, w) | _ \<Rightarrow> (Undefined, w))"

definition read_entries :: "ptr \<Rightarrow> (Status, 'e world, 'e list) rust" where
  "read_entries p w = (case mem w p of Some (Entries es) \<Rightarrow> (Ok es, w) | _ \<Rightarrow> (Undefined, w))"

text \<open>\<^verbatim>\<open>&array[..n]\<close>, which panics out of range.\<close>

definition slice_to :: "nat \<Rightarrow> bytes \<Rightarrow> (Status, 'w, bytes) rust" where
  "slice_to n bs = (if n \<le> length bs then returnM (take n bs) else panicM)"

text \<open>
  \<^verbatim>\<open>for i in 0..n\<close> over the entries of an enumeration, with a check and a \<^verbatim>\<open>break\<close> at the first one that is found; an
  index out of range panics.
\<close>

fun scan_entries :: "('e \<Rightarrow> bool) \<Rightarrow> ('e \<Rightarrow> (Status, 'w, unit) rust) \<Rightarrow> nat \<Rightarrow> 'e list \<Rightarrow> (Status, 'w, bool) rust" where
  "scan_entries found check 0 es = returnM False"
| "scan_entries found check (Suc n) [] = panicM"
| "scan_entries found check (Suc n) (e # es) =
     (if found e then bindM (check e) (\<lambda>_. returnM True) else scan_entries found check n es)"

definition KeyCleanup_drop :: "('s, 'r, 'p) env \<Rightarrow> KeyHandle \<Rightarrow> (Status, 'z custody_scheme, unit) rust" where
  "KeyCleanup_drop E h =
     bindM (static_remove_key E h) (\<lambda>old.
     updateM (drop_all E (case old of None \<Rightarrow> [] | Some rec \<Rightarrow> [rec])))"

definition with_cleanup :: "('s, 'r, 'p) env \<Rightarrow> KeyHandle \<Rightarrow> (Status, 'z custody_scheme, unit) rust \<Rightarrow>
    (Status, 'z custody_scheme, unit) rust" where
  "with_cleanup E h m w =
     (case m w of
        (Undefined, w') \<Rightarrow> (Undefined, w')
      | (r, w') \<Rightarrow> (case KeyCleanup_drop E h w' of (Ok _, w'') \<Rightarrow> (r, w'') | (s, w'') \<Rightarrow> (s, w'')))"

section \<open>What tests rely on\<close>

text \<open>The version of a random UUID is in the upper half of its seventh byte.\<close>

definition is_v4 :: "uuid \<Rightarrow> bool" where
  "is_v4 h \<longleftrightarrow> length (as_bytes h) = 16 \<and> unat (as_bytes h ! 6) div 16 = 4"

text \<open>
  \<^verbatim>\<open>x25519::PrivateKey::compute_shared_key\<close> fails only for a public key of small order, which no generated and no
  encapsulated key is.
\<close>

definition exchange_spec :: "('s, 'r, 'p) env \<Rightarrow> bool" where
  "exchange_spec E \<longleftrightarrow>
     (\<forall>k i j. compute_shared_key E (snd (Kem_generate_keypair E k i)) (fst (Kem_generate_keypair E k j)) \<noteq> None)
   \<and> (\<forall>k i p pk info n ctx enc. SenderContext_new E p pk info n = Some (ctx, enc) \<longrightarrow>
        compute_shared_key E (snd (Kem_generate_keypair E k i)) enc \<noteq> None)"

definition testbed :: "('s, 'r, 'p) env \<Rightarrow> bool" where
  "testbed E \<longleftrightarrow> host_spec E \<and> x25519_spec E \<and> hkdf_spec E \<and> exchange_spec E
     \<and> (\<forall>i n. vault_granted E i n)
     \<and> encode_to_vec E fuzz_algorithm \<noteq> [] \<and> HpkeAlgorithm_decode E [0xFF, 0xFF] = None
     \<and> (\<forall>n. is_v4 (Uuid_new_v4 E n))
     \<and> (\<forall>k n. fst (Kem_generate_keypair E k n) \<noteq> replicate 32 0)"

definition brisk :: "'z machine_scheme \<Rightarrow> bool" where
  "brisk w \<longleftrightarrow> mono (clock w) \<and> (\<forall>i j. clock w i < clock w j + 60 * nanos_per_sec)
     \<and> (\<forall>i. (clock w i + 3600 * nanos_per_sec) div nanos_per_sec \<le> i64_max)"

lemma testbedD:
  assumes "testbed E"
  shows "host_spec E" "hpke_spec E" "uuid_spec E" "zeroize_spec E" "prost_spec E" "secretmem_spec E"
    "x25519_spec E" "hkdf_spec E" "exchange_spec E" "vault_granted E i n"
    "encode_to_vec E fuzz_algorithm \<noteq> []" "HpkeAlgorithm_decode E [0xFF, 0xFF] = None"
    "is_v4 (Uuid_new_v4 E n)" "fst (Kem_generate_keypair E k n) \<noteq> replicate 32 0" "threads_granted E"
  using assms by (simp_all add: testbed_def host_spec_def crates_spec_def)

lemma not_v4: "\<not> is_v4 (Uuid (replicate 16 0))" "\<not> is_v4 (Uuid (replicate 16 42))"
  by (simp_all add: is_v4_def)

lemma algorithm_decodes:
  assumes "prost_spec E"
  shows "HpkeAlgorithm_decode E (encode_to_vec E a) = Some a" "length (encode_to_vec E a) \<le> 33"
    "suite_supported E fuzz_algorithm"
  using assms by (simp_all add: prost_spec_def suite_supported_def fuzz_algorithm_def)

lemma algorithm_len:
  assumes "prost_spec E"
  shows "unat (word_of_nat (length (encode_to_vec E a)) :: usize) = length (encode_to_vec E a)"
  using algorithm_decodes(2) [OF assms, of a] by (simp add: unat_of_nat take_bit_nat_eq_self)

section \<open>The bench\<close>

definition hour_left :: "KeyRecord \<Rightarrow> 'z machine_scheme \<Rightarrow> bool" where
  "hour_left rec w \<longleftrightarrow> (\<exists>t < ticks w. delete_after (meta rec) = clock w t + 3600 * nanos_per_sec)"

definition poised :: "(KeyRecord \<Rightarrow> bool) \<Rightarrow> nat \<Rightarrow> (KeyHandle \<rightharpoonup> KeyRecord) \<Rightarrow> 'z custody_scheme \<Rightarrow> bool" where
  "poised P k K w \<longleftrightarrow> calm P w \<and> brisk w \<and> K \<subseteq>\<^sub>m contents w
     \<and> finite (dom (contents w)) \<and> card (dom (contents w)) \<le> k \<and> (\<forall>h \<in> dom (contents w). is_v4 h)
     \<and> (\<forall>rec \<in> ran K. hour_left rec w)"

definition bench :: "(KeyRecord \<Rightarrow> bool) \<Rightarrow> nat \<Rightarrow> (ptr \<rightharpoonup> 'e obj) \<Rightarrow> (KeyHandle \<rightharpoonup> KeyRecord) \<Rightarrow> 'e world \<Rightarrow> bool" where
  "bench P k M K w \<longleftrightarrow> poised P k K w \<and> M \<subseteq>\<^sub>m mem w"

definition ends :: "(Status, 'w, 'a) rust \<Rightarrow> ((Status, 'a) outcome \<Rightarrow> 'w \<Rightarrow> bool) \<Rightarrow> 'w \<Rightarrow> bool" where
  "ends m Q w \<longleftrightarrow> Q (fst (m w)) (snd (m w))"

text \<open>How a test should end: it returns, and the core is ready for the next one.\<close>

definition clean :: "(KeyRecord \<Rightarrow> bool) \<Rightarrow> nat \<Rightarrow> (Status, unit) outcome \<Rightarrow> 'z custody_scheme \<Rightarrow> bool" where
  "clean P k r w \<longleftrightarrow> r = Ok () \<and> poised P k Map.empty w"

text \<open>A test passes after any others, as long as they have left fewer than 30 keys behind.\<close>

definition passes :: "(KeyRecord \<Rightarrow> bool) \<Rightarrow> (Status, 'e world, unit) rust \<Rightarrow> bool" where
  "passes P test \<longleftrightarrow> (\<forall>k w. k < 30 \<longrightarrow> poised P k Map.empty w \<longrightarrow> ends test (clean P (Suc k)) w)"

lemma poised_started: "started w \<Longrightarrow> brisk w \<Longrightarrow> poised P k Map.empty w"
  by (simp add: poised_def calm_started started_contents)

lemma poised_weaken: "poised P k K w \<Longrightarrow> k \<le> k' \<Longrightarrow> K' \<subseteq>\<^sub>m K \<Longrightarrow> poised P k' K' w"
proof -
  assume "poised P k K w" and "k \<le> k'" and K': "K' \<subseteq>\<^sub>m K"
  moreover have "ran K' \<subseteq> ran K"
    using K' by (force simp: ran_def map_le_def dom_def)
  ultimately show ?thesis
    using map_le_trans [OF K'] by (auto simp: poised_def)
qed

lemma poised_calm: "poised P k K w \<Longrightarrow> calm P w"
  by (simp add: poised_def)

lemma hour_left_advances: "hour_left rec w \<Longrightarrow> advances w v \<Longrightarrow> hour_left rec v"
  by (auto simp: hour_left_def advances_def intro: less_le_trans)

lemma brisk_advances: "brisk w \<Longrightarrow> advances w v \<Longrightarrow> brisk v"
  by (simp add: brisk_def advances_def)

lemma poised_contents:
  assumes "poised P k K w" and "calm P v" and "advances w v" and "contents v = contents w"
  shows "poised P k K v"
  using assms hour_left_advances [OF _ assms(3)] brisk_advances [OF _ assms(3)] by (auto simp: poised_def)

lemma poised_key:
  assumes "poised P k K w" and "K h = Some rec"
  shows "contents w h = Some rec" "clock w i + 3540 * nanos_per_sec < delete_after (meta rec)"
    "delete_after (meta rec) \<le> clock w (ticks w) + 3600 * nanos_per_sec"
    "unexpired (clock w i) (contents w h) = Some rec" "P rec"
proof -
  show contents: "contents w h = Some rec"
    using assms by (auto simp: poised_def map_le_def dom_def)
  obtain t where t: "t < ticks w" "delete_after (meta rec) = clock w t + 3600 * nanos_per_sec"
    using assms ranI [of K h rec] by (auto simp: poised_def hour_left_def)
  have brisk: "mono (clock w)" "clock w i < clock w t + 60 * nanos_per_sec"
    using assms(1) by (auto simp: poised_def brisk_def)
  show live: "clock w i + 3540 * nanos_per_sec < delete_after (meta rec)"
    using brisk(2) t(2) by linarith
  show "delete_after (meta rec) \<le> clock w (ticks w) + 3600 * nanos_per_sec"
    using monoD [OF brisk(1), of t "ticks w"] t by linarith
  show "unexpired (clock w i) (contents w h) = Some rec"
    using contents live by (simp add: unexpired_eq_Some)
  show "P rec"
    using assms(1) core_inv_contents [OF _ contents, of P] by (simp add: poised_def calm_def)
qed

lemma poised_unknown: "poised P k K w \<Longrightarrow> \<not> is_v4 h \<Longrightarrow> contents w h = None"
  by (auto simp: poised_def)

text \<open>Steps that leave the registry alone.\<close>

lemma poised_machine_stable: "zeroize_spec E \<Longrightarrow> machine_stable E (poised P k K)"
  using calm_machine_stable [of E P] unfolding machine_stable_def
  by (metis contents_frame machine_more_custody(1) poised_calm poised_contents)

lemma poised_mem_stable: "mem_stable (poised P k K :: 'e world \<Rightarrow> bool)"
proof -
  have "poised P k K (w\<lparr>mem := f\<rparr>)" if "poised P k K w" for w :: "'e world" and f
    by (rule poised_contents [OF that])
      (use calm_mem_stable [of P] poised_calm [OF that] in \<open>auto simp: mem_stable_def advances_def\<close>)
  then show ?thesis
    by (simp add: mem_stable_def)
qed

lemma poised_events: "poised P k K w \<Longrightarrow> poised P k K (w\<lparr>events := ev\<rparr>)"
  by (rule poised_contents) (auto simp: advances_def calm_events poised_calm)

lemma poised_reads:
  assumes "threads_granted E" and "zeroize_spec E"
  shows "keeps UNIV (poised P k K) (static_get_key E h)"
    and "keeps UNIV (poised P k K) (static_list_all_keys E offset limit)"
proof -
  have "calm P (snd (static_get_key E h w)) \<and> calm P (snd (static_list_all_keys E offset limit w))" if "calm P w" for w
    using keepsD [OF quiet_keeps [OF quiet_static(4) [OF assms]] that prod.collapse [symmetric]]
      keepsD [OF quiet_keeps [OF quiet_static(5) [OF assms]] that prod.collapse [symmetric]] by blast
  moreover have "advances w (snd (static_get_key E h w)) \<and> contents (snd (static_get_key E h w)) = contents w
      \<and> advances w (snd (static_list_all_keys E offset limit w))
      \<and> contents (snd (static_list_all_keys E offset limit w)) = contents w" if "calm P w" for w
    using calm_usable [OF assms(1) that] static_get_key_eq [of P w E h] static_list_all_keys_eq [of P w E offset limit]
      contents_frame [of "(forced w)\<lparr>ticks := _\<rparr>" "forced w"] by (auto simp: advances_forced)
  ultimately show "keeps UNIV (poised P k K) (static_get_key E h)"
    and "keeps UNIV (poised P k K) (static_list_all_keys E offset limit)"
    by (auto simp: keeps_alt intro: poised_contents dest: poised_calm)
qed

lemma poised_remove:
  assumes "poised P k K w" and "calm P v" and "advances w v" and "contents v = (contents w)(h := None)"
  shows "poised P k (K(h := None)) v"
proof -
  have "card (dom (contents w) - {h}) \<le> card (dom (contents w))"
    using assms(1) by (intro card_mono) (auto simp: poised_def)
  moreover have "K(h := None) \<subseteq>\<^sub>m (contents w)(h := None)" "ran (K(h := None)) \<subseteq> ran K"
    using assms(1) by (auto simp: poised_def map_le_def ran_def)
  ultimately show ?thesis
    using assms hour_left_advances [OF _ assms(3)] brisk_advances [OF _ assms(3)] by (auto simp: poised_def)
qed

lemma poised_add:
  assumes "poised P k K w" and "calm P v" and "advances w v" and "contents v = (contents w)(h \<mapsto> rec)"
    and "is_v4 h" and "hour_left rec v"
  shows "poised P (Suc k) (K(h \<mapsto> rec)) v"
proof -
  have "card (insert h (dom (contents w))) \<le> Suc (card (dom (contents w)))"
    by (rule card_insert_le_m1) (use assms(1) in \<open>auto simp: poised_def\<close>)
  moreover have "K(h \<mapsto> rec) \<subseteq>\<^sub>m (contents w)(h \<mapsto> rec)"
    using assms(1) by (auto simp: poised_def intro: map_le_upd)
  moreover have "ran (K(h \<mapsto> rec)) \<subseteq> insert rec (ran K)"
    by (auto simp: ran_def)
  ultimately show ?thesis
    using assms hour_left_advances [OF _ assms(3)] brisk_advances [OF _ assms(3)] by (auto simp: poised_def)
qed

section \<open>Lemmas: running a test\<close>

lemma ends_bindI: "m w = (Ok a, v) \<Longrightarrow> ends (f a) Q v \<Longrightarrow> ends (bindM m f) Q w"
  by (simp add: ends_def bindM_def)

lemma ends_assert: "b \<Longrightarrow> ends (f ()) Q w \<Longrightarrow> ends (bindM (assertM b) f) Q w"
  by (simp add: ends_def assertM_def bindM_def returnM_def)

lemma ends_slice: "n \<le> length bs \<Longrightarrow> ends (f (take n bs)) Q w \<Longrightarrow> ends (bindM (slice_to n bs) f) Q w"
  by (simp add: ends_def slice_to_def bindM_def returnM_def)

lemma ends_last: "bench P k M K w \<Longrightarrow> b \<Longrightarrow> k \<le> k' \<Longrightarrow> ends (assertM b) (clean P k') w"
  using poised_weaken [of P k K w k' Map.empty] by (simp add: ends_def assertM_def returnM_def clean_def bench_def)

lemma ends_unwrap:
  assumes "m w = (Ok a, v)" and "ends (f a) Q v"
  shows "ends (bindM (unwrapM m) f) Q w"
  using assms by (simp add: ends_def bindM_def unwrapM_def)

lemma bench_mem: "bench P k M K w \<Longrightarrow> M p = Some x \<Longrightarrow> mem w p = Some x"
  by (force simp: bench_def map_le_def dom_def)

lemma bench_unknown: "bench P k M K w \<Longrightarrow> \<not> is_v4 h \<Longrightarrow> contents w h = None"
  by (auto simp: bench_def intro: poised_unknown)

lemma bench_store: "bench P k M K w \<Longrightarrow> bench P k (M(p \<mapsto> x)) K (w\<lparr>mem := (mem w)(p \<mapsto> x)\<rparr>)"
  using poised_mem_stable [of P k K] by (auto simp: bench_def mem_stable_def intro: map_le_upd)

lemma ends_store:
  assumes "bench P k M K w" and "\<And>v. bench P k (M(p \<mapsto> x)) K v \<Longrightarrow> ends (f ()) Q v"
  shows "ends (bindM (store p x) f) Q w"
  using assms(2) [OF bench_store [OF assms(1)]] by (simp add: store_def ends_def)

lemma ends_array:
  assumes "bench P k M K w" and "\<And>v. bench P k (M(p \<mapsto> Bytes bs)) K v \<Longrightarrow> ends (f ()) Q v"
  shows "ends (bindM (array p bs) f) Q w"
  using ends_store [OF assms(1), of p "Bytes bs" f Q] assms(2) by (simp add: array_def)

text \<open>The byte array a test has at an address.\<close>

definition arr :: "(ptr \<rightharpoonup> 'e obj) \<Rightarrow> ptr \<Rightarrow> bytes" where
  "arr M p = (case M p of Some (Bytes bs) \<Rightarrow> bs | _ \<Rightarrow> [])"

definition is_arr :: "(ptr \<rightharpoonup> 'e obj) \<Rightarrow> ptr \<Rightarrow> nat \<Rightarrow> bool" where
  "is_arr M p n \<longleftrightarrow> p \<noteq> 0 \<and> (\<exists>bs. M p = Some (Bytes bs) \<and> length bs = n)"

lemma arr_simps [simp]:
  "arr (M(p \<mapsto> x)) q = (if p = q then (case x of Bytes bs \<Rightarrow> bs | _ \<Rightarrow> []) else arr M q)"
  "is_arr (M(p \<mapsto> x)) q n \<longleftrightarrow> q \<noteq> 0 \<and> (if p = q then (case x of Bytes bs \<Rightarrow> length bs = n | _ \<Rightarrow> False) else is_arr M q n)"
  by (auto simp: arr_def is_arr_def split: obj.splits)

lemma is_arrD:
  assumes "bench P k M K w" and "is_arr M p n"
  shows "mem w p = Some (Bytes (arr M p))" "length (arr M p) = n" "\<not> is_null p" "M p = Some (Bytes (arr M p))"
    "unat l \<le> n \<Longrightarrow> valid_buf p l w" "unat l = n \<Longrightarrow> buf p l w = arr M p"
  using assms bench_mem [OF assms(1)] by (auto simp: is_arr_def arr_def is_null_def valid_buf_def buf_def)

lemma ends_reads:
  assumes "bench P k M K w"
  shows "M p = Some (Bytes bs) \<Longrightarrow> ends (f bs) Q w \<Longrightarrow> ends (bindM (read_array p) f) Q w"
    and "M p = Some (UsizeCell n) \<Longrightarrow> ends (g n) Q w \<Longrightarrow> ends (bindM (deref_usize p) g) Q w"
    and "M p = Some (U64Cell u) \<Longrightarrow> ends (h u) Q w \<Longrightarrow> ends (bindM (deref_u64 p) h) Q w"
    and "M p = Some (BoolCell b) \<Longrightarrow> ends (i b) Q w \<Longrightarrow> ends (bindM (deref_bool p) i) Q w"
    and "M p = Some (Entries es) \<Longrightarrow> ends (j es) Q w \<Longrightarrow> ends (bindM (read_entries p) j) Q w"
  using bench_mem [OF assms, of p]
  by (simp_all add: ends_def bindM_def read_array_def deref_usize_def deref_u64_def deref_bool_def read_entries_def)

lemma ends_cleanup:
  assumes "testbed E" and "ends m (clean P k) w"
  shows "ends (with_cleanup E h m) (clean P k) w"
proof -
  note granted = testbedD(15,4) [OF assms(1)]
  obtain v where m: "m w = (Ok (), v)" and v: "poised P k Map.empty v"
    using assms(2) by (cases "m w") (auto simp: ends_def clean_def)
  note ready = calm_usable [OF granted(1) poised_calm [OF v]]
  let ?old = "case contents v h of None \<Rightarrow> [] | Some rec \<Rightarrow> [rec]"
  let ?v = "drop_all E ?old ((forced v)\<lparr>KEY_REGISTRY := Ready (removed h (registry_of v))\<rparr>)"
  have run: "KeyCleanup_drop E h v = (Ok (), ?v)"
    using static_remove_key_eq [OF conjunct1 [OF ready] conjunct2 [OF ready], of h]
    by (simp add: KeyCleanup_drop_def bindM_def updateM_def)
  have "calm P ?v"
    using keepsD [OF quiet_keeps [OF quiet_static(2) [OF granted, of P h]] poised_calm [OF v]]
      static_remove_key_eq [OF conjunct1 [OF ready] conjunct2 [OF ready], of h] core_inv_drop [OF granted(2)]
    by (fastforce simp: calm_def)
  moreover have "contents ?v = (contents v)(h := None)"
    using removed_props(2) [OF registry_of_wf [OF conjunct1 [OF ready]], of h] contents_frame [of ?v]
    by (auto simp: fun_eq_iff contents_def)
  moreover have "advances v ?v"
    using advances_forced(1) [of v] by (simp add: advances_def)
  ultimately have "poised P k Map.empty ?v"
    using poised_remove [OF v, of ?v h] by simp
  then show ?thesis
    by (simp add: ends_def with_cleanup_def m run clean_def)
qed

lemma ends_cleanup_undefined:
  "ends m (\<lambda>r _. r = Undefined) w \<Longrightarrow> ends (with_cleanup E h m) (\<lambda>r _. r = Undefined) w"
  by (cases "m w") (simp add: ends_def with_cleanup_def)

text \<open>A search through the entries of an enumeration.\<close>

lemma scan_entries_found:
  assumes "\<exists>e \<in> set (take n es). found e" and "n \<le> length es"
    and "\<And>e. e \<in> set (take n es) \<Longrightarrow> found e \<Longrightarrow> check e w = (Ok (), w)"
  shows "scan_entries found check n es w = (Ok True, w)"
  using assms
proof (induction found check n es rule: scan_entries.induct)
  case (3 found check n e es)
  then show ?case
    by (cases "found e") (auto simp: bindM_def returnM_def)
qed auto

lemma ends_scan:
  assumes "\<exists>e \<in> set (take n es). found e" and "n \<le> length es"
    and "\<And>e. e \<in> set (take n es) \<Longrightarrow> found e \<Longrightarrow> check e w = (Ok (), w)" and "ends (f True) Q w"
  shows "ends (bindM (scan_entries found check n es) f) Q w"
  using scan_entries_found [OF assms(1,2), of check w] assms(3,4) by (simp add: ends_def bindM_def)

section \<open>Lemmas: calls\<close>

lemma poised_mem: "poised P k K (w\<lparr>mem := m\<rparr>) \<longleftrightarrow> poised P k K (w :: 'e world)"
proof
  assume "poised P k K (w\<lparr>mem := m\<rparr>)"
  from poised_mem_stable [unfolded mem_stable_def, rule_format, OF this, of "mem w"] show "poised P k K w"
    by simp
qed (rule poised_mem_stable [unfolded mem_stable_def, rule_format])

lemma ends_call_ok:
  assumes "body w = (Ok (), v)" and "poised P k K v" and "M \<subseteq>\<^sub>m mem v"
    and "\<And>u. bench P k M K u \<Longrightarrow> ends (f Success) Q u"
  shows "ends (bindM (callM (ffi_call op body)) f) Q w"
  using assms(4) [of v] assms(1-3)
  by (auto simp: bench_def ffi_call_def ffi_call_with_reporter_def callM_def intro!: ends_bindI [of _ _ Success v])

lemma ends_call_err:
  assumes "bench P k M K w" and "body w = (Err s, v)" and "mem v = mem w" and "poised P k' K' v"
    and "\<And>u. bench P k' M K' u \<Longrightarrow> ends (f s) Q u"
  shows "ends (bindM (callM (ffi_call op body)) f) Q w"
proof -
  let ?u = "telemetry_report_failure \<lparr>operation = op, status = s, kind = ErrorKind\<rparr> v"
  have "bench P k' M K' ?u"
    using assms(1,3) poised_events [OF assms(4)] by (simp add: bench_def telemetry_report_failure_def)
  then show ?thesis
    using assms(2,5) by (intro ends_bindI [of _ _ s ?u]) (simp_all add: ffi_call_def ffi_call_with_reporter_def callM_def)
qed

lemma ends_call_i32:
  "body w = (Ok n, v) \<Longrightarrow> ends (f n) Q v \<Longrightarrow> ends (bindM (callM (ffi_call_i32 op body)) f) Q w"
  by (simp add: ends_def bindM_def callM_def ffi_call_i32_def ffi_call_i32_with_reporter_def)

lemma ends_call_i32_err:
  assumes "bench P k M K w" and "body w = (Err s, w)" and "\<And>v. bench P k M K v \<Longrightarrow> ends (f (- status_as_i32 s)) Q v"
  shows "ends (bindM (callM (ffi_call_i32 op body)) f) Q w"
proof -
  let ?v = "telemetry_report_failure \<lparr>operation = op, status = s, kind = ErrorKind\<rparr> w"
  have "bench P k M K ?v"
    using assms(1) poised_events by (auto simp: bench_def telemetry_report_failure_def)
  then show ?thesis
    using assms(2,3) by (intro ends_bindI [of _ _ "- status_as_i32 s" ?v])
      (simp_all add: callM_def ffi_call_i32_def ffi_call_i32_with_reporter_def)
qed

lemma ends_call_undefined:
  "fst (body w) = Undefined \<Longrightarrow> ends (bindM (callM (ffi_call op body)) f) (\<lambda>r _. r = Undefined) w"
  by (cases "body w") (simp add: ends_def bindM_def callM_def ffi_call_def ffi_call_with_reporter_def)

lemma create_and_add_granted:
  assumes "testbed E" and "poised P k K w"
  shows "core_inv P w" "vault_granted E (syscalls w) 32" "usable E (w\<lparr>syscalls := n\<rparr>)" "usable E w"
    "(clock w (ticks w) + Duration_from_secs 3600) div nanos_per_sec \<le> i64_max"
proof -
  note ready = calm_usable [OF testbedD(15) [OF assms(1)] poised_calm [OF assms(2)]]
  show "core_inv P w" "usable E w"
    using ready by simp_all
  then show "usable E (w\<lparr>syscalls := n\<rparr>)"
    using testbedD(15) [OF assms(1)] by (auto simp: usable_def threads_granted_def split: lazy_registry.splits)
  show "vault_granted E (syscalls w) 32"
    by (rule testbedD(10) [OF assms(1)])
  show "(clock w (ticks w) + Duration_from_secs 3600) div nanos_per_sec \<le> i64_max"
    using assms(2) by (simp add: poised_def brisk_def Duration_from_secs_def)
qed

text \<open>The destruction of a key, in both cores.\<close>

lemma ends_destroy:
  assumes "testbed E" and "bench P k M K w" and "is_arr M p 16"
    and body: "\<not> is_null p \<Longrightarrow> valid_buf p 16 w \<Longrightarrow> body w = bindM (static_remove_key E (Uuid (buf p 16 w))) (\<lambda>old.
        bindM (ok_orM old NotFound) (\<lambda>rec. updateM (KeyRecord_drop E rec))) w"
    and "K (Uuid (arr M p)) = None \<Longrightarrow> contents w (Uuid (arr M p)) = None"
    and "\<And>v. bench P k M (K(Uuid (arr M p) := None)) v \<Longrightarrow> contents v (Uuid (arr M p)) = None \<Longrightarrow>
      ends (f (if K (Uuid (arr M p)) = None then NotFound else Success)) Q v"
  shows "ends (bindM (callM (ffi_call op body)) f) Q w"
proof -
  note spec = testbedD [OF assms(1)]
  note arr = is_arrD [OF assms(2,3)]
  let ?h = "Uuid (arr M p)"
  let ?m = "bindM (static_remove_key E ?h) (\<lambda>old. bindM (ok_orM old NotFound) (\<lambda>rec. updateM (KeyRecord_drop E rec)))"
  have w: "poised P k K w" "M \<subseteq>\<^sub>m mem w"
    using assms(2) by (simp_all add: bench_def)
  note granted = create_and_add_granted [OF assms(1) w(1)]
  have run: "body w = ?m w"
    using body arr(3) arr(5) [of 16] arr(6) [of 16] by simp
  have "contents w ?h = None \<longleftrightarrow> K ?h = None"
    using assms(5) poised_key(1) [OF w(1), of ?h] by (cases "K ?h") auto
  then obtain v where call: "ffi_call op body w = (Returns (if K ?h = None then NotFound else Success), v)"
    and v: "contents v = (contents w)(?h := None)" "mem v = mem w"
    using ffi_call_remove [of P w E body ?h op, OF granted(1,4) spec(4) run] by auto
  have "quiet (calm P) (\<lambda>_. True) ?m"
    using machine_stable_drop [OF calm_machine_stable [OF spec(4)]]
    by (intro quiet_bindM [OF quiet_static(2) [OF spec(15,4)]] quiet_bindM [OF quiet_basic(3)] quiet_basic(4)) blast
  moreover have same: "ffi_call op ?m w = ffi_call op body w"
    by (simp add: ffi_call_def ffi_call_with_reporter_def run)
  ultimately have "calm P v"
    using ffi_call_keeps [OF quiet_keeps calm_events poised_calm [OF w(1)], of "\<lambda>_. True" ?m op] call by auto
  moreover have "evolves E w v"
    using ffi_call_evolves [of E w ?m op] remove_evolves [OF spec(15) poised_calm [OF w(1)] prod.collapse [symmetric], of ?h] same call
    by simp
  ultimately have "bench P k M (K(?h := None)) v"
    using poised_remove [OF w(1), of v ?h] v w(2) by (simp add: bench_def evolves_def)
  then show ?thesis
    using assms(6) [of v] v(1) by (intro ends_bindI [of _ _ _ v]) (simp_all add: callM_def call)
qed

text \<open>A key made in a test: its handle, its public key and its record.\<close>

lemma create_and_add_poised:
  fixes w :: "'e world"
  assumes "testbed E" and "poised P k K w" and own: "\<And>a pk. own_public_key (mk a pk) = pk"
    and algo: "\<And>a pk. spec_algo (mk a pk) = a"
    and P: "\<And>rec pk. record_ok E rec \<Longrightarrow> spec (meta rec) = mk fuzz_algorithm pk \<Longrightarrow> P rec"
    and gen: "create_and_add E fuzz_algorithm (Duration_from_secs 3600) mk w = (Ok (h, pk), v)"
  obtains id bs rec where "h = Uuid id" "pk = X25519_public (X25519PublicKey bs)" "length id = 16" "id \<noteq> replicate 16 0"
    "length bs = 32" "bs \<noteq> replicate 32 0" "mem v = mem w" "poised P (Suc k) (K(h \<mapsto> rec)) v"
    "spec (meta rec) = mk fuzz_algorithm pk" "meta_id (meta rec) = h"
proof -
  note spec = testbedD [OF assms(1)]
  note calm = poised_calm [OF assms(2)]
  have inv: "core_inv P w"
    using calm by (simp add: calm_def)
  note made = create_and_add_Ok [OF spec(2) inv own gen]
  obtain rec where rec: "contents v = (contents w)(h \<mapsto> rec)"
    "meta rec = new_metadata E fuzz_algorithm (Duration_from_secs 3600) mk w"
    using made(1) by blast
  obtain r u where create: "create_key_internal E fuzz_algorithm (Duration_from_secs 3600) mk w = (Ok r, u)"
    and add: "static_add_key E r u = (Ok (), v)"
    using gen by (auto simp: create_and_add_def bindM_eq_Ok returnM_def)
  have "P r"
    using P [OF create_key_internal_record_ok [OF spec(2,3) algo own create]] create_key_internal_Ok(2) [OF spec(2) create] by auto
  moreover have "core_inv P u"
    using keepsD [OF keeps_create [OF calm_machine_stable [OF spec(4)]] calm create] by (simp add: calm_def)
  ultimately have "core_inv P v"
    using keepsD [OF keeps_static_add_key [OF spec(4)] _ add, of P] by blast
  moreover have "KEY_REGISTRY v \<noteq> LazyPoisoned"
    using made(6) by (auto simp: usable_def)
  moreover have "advances w v"
    using create_and_add_evolves [OF spec(1) calm gen] by (simp add: evolves_def)
  moreover have "hour_left rec v"
    using create_and_add_counters [OF spec(2) inv gen] rec(2)
    by (auto simp: hour_left_def new_metadata_def Duration_from_secs_def intro!: exI [of _ "ticks w"])
  moreover have v4: "is_v4 h"
    using made(2) spec(13) by simp
  ultimately have "poised P (Suc k) (K(h \<mapsto> rec)) v"
    using rec(1) by (intro poised_add [OF assms(2)]) (simp_all add: calm_def)
  moreover have "as_bytes h \<noteq> replicate 16 0"
    using v4 not_v4(1) by (metis uuid.collapse)
  ultimately show thesis
    using rec(2) made(2,3,5) v4 spec(14) own length_keypair_public [OF spec(2)]
    by (intro that [of "as_bytes h" "fst (Kem_generate_keypair E X25519HkdfSha256_Kem (draws w))" rec])
      (auto simp: is_v4_def new_metadata_def key_pair_def)
qed

lemma small_i32:
  assumes "n < 2 ^ 31"
  shows "sint (word_of_nat n :: i32) = int n" "unat (scast (word_of_nat n :: i32) :: usize) = n"
proof -
  show sint: "sint (word_of_nat n :: i32) = int n"
    using assms by (simp add: signed_of_nat signed_take_bit_int_eq_self)
  have "(scast (word_of_nat n :: i32) :: usize) = word_of_nat n"
    by (metis sint of_int_of_nat_eq scast_eq)
  then show "unat (scast (word_of_nat n :: i32) :: usize) = n"
    using assms by (simp add: unat_of_nat take_bit_nat_eq_self)
qed

lemma ends_public_key: "length bs = 32 \<Longrightarrow> ends (f (X25519_public (X25519PublicKey bs))) Q w \<Longrightarrow>
   ends (bindM (unwrapM (PublicKey_try_from bs)) f) Q w"
  by (rule ends_unwrap [of _ w "X25519_public (X25519PublicKey bs)" w]) (simp_all add: PublicKey_try_from_eq)

text \<open>Cryptography in a test draws randomness and nothing else.\<close>

lemma bench_draws: "bench P k M K w \<Longrightarrow> draws w \<le> d \<Longrightarrow> bench P k M K (w\<lparr>draws := d\<rparr>)"
proof -
  assume w: "bench P k M K w" and "draws w \<le> d"
  then have "poised P k K w" "advances w (w\<lparr>draws := d\<rparr>)"
    by (simp_all add: bench_def advances_def)
  moreover have "KEY_REGISTRY (w\<lparr>draws := d\<rparr>) = KEY_REGISTRY w" by simp
  moreover from this have "contents (w\<lparr>draws := d\<rparr>) = contents w" by (rule contents_frame)
  moreover have "calm P (w\<lparr>draws := d\<rparr>)"
    using poised_calm [OF \<open>poised P k K w\<close>] core_inv_same [of "w\<lparr>draws := d\<rparr>" w P] by (simp add: calm_def)
  ultimately show ?thesis
    using w by (auto simp: bench_def intro: poised_contents)
qed

lemma ends_generate_keypair:
  assumes "testbed E" and "bench P k M K w"
    and "\<And>v n pk sk. bench P k M K v \<Longrightarrow> key_pair E n = (pk, sk) \<Longrightarrow> length (PublicKey_as_bytes pk) = 32 \<Longrightarrow>
      ends (f (pk, sk)) Q v"
  shows "ends (bindM (unwrapM (generate_keypair E DhkemX25519HkdfSha256)) f) Q w"
proof (rule ends_unwrap)
  note spec = testbedD [OF assms(1)]
  let ?n = "draws w"
  show "generate_keypair E DhkemX25519HkdfSha256 w = (Ok (key_pair E ?n), w\<lparr>draws := Suc ?n\<rparr>)"
    by (simp add: generate_keypair_def bindM_def returnM_def key_pair_def PrivateKey_from_def
        x25519_generate_keypair_eq [OF spec(2) prod.collapse [symmetric]])
  show "ends (f (key_pair E ?n)) Q (w\<lparr>draws := Suc ?n\<rparr>)"
    using assms(3) [OF bench_draws [OF assms(2)] prod.collapse [symmetric]] length_key_pair [OF spec(2)] by simp
qed

lemma ends_encap:
  assumes "testbed E" and "bench P k M K w" and "key_pair E n = (pk, sk)"
    and "\<And>v ss enc. bench P k M K v \<Longrightarrow> length enc = 32 \<Longrightarrow> encap E pk w = (Ok (ss, enc), v) \<Longrightarrow> ends (f (ss, enc)) Q v"
  shows "ends (bindM (unwrapM (encap E pk)) f) Q w"
proof -
  note spec = testbedD [OF assms(1)]
  let ?kp = "Kem_generate_keypair E X25519HkdfSha256_Kem"
  let ?sk = "snd (?kp (draws w))"
  have pk: "pk = X25519_public (X25519PublicKey (fst (?kp n)))"
    using assms(3) by (auto simp: key_pair_def)
  obtain dh where dh: "compute_shared_key E ?sk (fst (?kp n)) = Some dh"
    using spec(9) by (fastforce simp: exchange_spec_def)
  moreover have "rfc_ExtractAndExpand E dh c \<noteq> None" for c
    using expand_exists [OF spec(8)] by (simp add: rfc_ExtractAndExpand_def rfc_LabeledExpand_def Let_def)
  ultimately obtain ss where run: "encap E pk w = (Ok (ss, to_public E ?sk), w\<lparr>draws := Suc (draws w)\<rparr>)"
    by (fastforce simp: pk encap_def encap_internal_def x25519_encap_internal_random [OF spec(2,7)]
        x25519_encap_internal_eq length_keypair_private [OF spec(2)] split: option.splits)
  have "length (to_public E ?sk) = 32"
    using spec(7) length_keypair_private [OF spec(2)] by (simp add: x25519_spec_def)
  then show ?thesis
    using assms(4) [OF bench_draws [OF assms(2)] _ run] by (intro ends_unwrap [of "encap E pk", OF run]) simp
qed

lemma ends_seal:
  assumes "testbed E" and "bench P k M K w" and "key_pair E n = (pk, sk)"
    and "\<And>v enc ct. bench P k M K v \<Longrightarrow> length enc = 32 \<Longrightarrow> length ct = length (as_slice pt) + 16 \<Longrightarrow>
      (\<And>u. hpke_open E sk enc ct aad fuzz_algorithm (u :: 'e world) = (Ok pt, u)) \<Longrightarrow>
      (\<And>i. compute_shared_key E (snd (Kem_generate_keypair E X25519HkdfSha256_Kem i)) enc \<noteq> None) \<Longrightarrow> ends (f (enc, ct)) Q v"
  shows "ends (bindM (unwrapM (hpke_seal E pk pt aad fuzz_algorithm)) f) Q (w :: 'e world)"
proof -
  note spec = testbedD [OF assms(1)]
  note suite = algorithm_decodes(3) [OF spec(5)]
  obtain enc ct v where run: "hpke_seal E pk pt aad fuzz_algorithm w = (Ok (enc, ct), v)"
    and len: "length enc = 32" "length ct = length (as_slice pt) + 16"
    using hpke_seal_total [OF spec(2) suite, of n pt aad w] assms(3) by auto
  have "bench P k M K v"
    using crypto_frame(3) [of E pk pt aad fuzz_algorithm w] run bench_draws [OF assms(2)] by auto
  moreover have "hpke_open E sk enc ct aad fuzz_algorithm u = (Ok pt, u)" for u :: "'e world"
    using open_seal_pair [OF spec(2) suite assms(3) run, of u] by simp
  moreover have "compute_shared_key E (snd (Kem_generate_keypair E X25519HkdfSha256_Kem i)) enc \<noteq> None" for i
    using run spec(9) unfolding exchange_spec_def hpke_seal_def hpke_seal_internal_def x25519_hpke_seal_internal_def
    by (auto simp: basicM_defs split: PublicKey.splits option.splits if_splits prod.splits)
  ultimately have "ends (f (enc, ct)) Q v"
    by (intro assms(4) len)
  then show ?thesis
    by (intro ends_unwrap [of "hpke_seal E pk pt aad fuzz_algorithm", OF run])
qed

text \<open>The number of keys that an enumeration finds.\<close>

lemma listing_bounded:
  assumes "poised P k K w"
  shows "length (listing now w) \<le> k"
proof -
  have inv: "core_inv P w"
    using poised_calm [OF assms] by (simp add: calm_def)
  have "set (listing now w) \<subseteq> (the \<circ> contents w) ` dom (contents w)"
    using listing_props(3) [OF inv] by (force simp: unexpired_eq_Some)
  then have "card (set (listing now w)) \<le> card (dom (contents w))"
    using assms by (intro surj_card_le) (auto simp: poised_def)
  then show ?thesis
    using assms distinct_card [OF listing_props(2) [OF inv, of now]] by (simp add: poised_def)
qed

lemma listing_key_in: "poised P k K w \<Longrightarrow> K h = Some rec \<Longrightarrow> rec \<in> set (listing (clock w i) w)"
  using poised_key(4) [of P k K w h rec i] listing_props(3) [of P w "clock w i"] poised_calm [of P k K w]
  by (auto simp: calm_def)

lemma poised_handle: "poised P k K w \<Longrightarrow> contents w h = Some rec \<Longrightarrow> meta_id (meta rec) = h"
  by (auto simp: poised_def calm_def contents_def core_inv_def registry_wf_def lookup_def hm_get_def split: lazy_registry.splits
      dest!: map_of_SomeD)

lemma listing_handle:
  assumes "poised P k K w" and "rec \<in> set (listing now w)"
  shows "contents w (meta_id (meta rec)) = Some rec" "P rec"
proof -
  have inv: "core_inv P w"
    using poised_calm [OF assms(1)] by (simp add: calm_def)
  obtain h where h: "contents w h = Some rec"
    using assms(2) listing_props(3) [OF inv] by (auto simp: unexpired_eq_Some)
  then show "contents w (meta_id (meta rec)) = Some rec" "P rec"
    using poised_handle [OF assms(1) h] core_inv_contents [OF inv h] by simp_all
qed

section \<open>Lemmas: suites\<close>

lemma passesI:
  assumes "\<And>k w. k < 30 \<Longrightarrow> bench P k Map.empty Map.empty w \<Longrightarrow> ends test (clean P (Suc k)) w"
  shows "passes P test"
  using assms by (simp add: passes_def bench_def)

lemma suite_passes:
  assumes "list_all (passes P) tests" and "length tests + k \<le> 30" and "poised P k Map.empty w"
  shows "list_all (\<lambda>r. r = Ok ()) (fst (session (\<lambda>test. test) tests w))"
  using assms
proof (induction tests arbitrary: k w)
  case (Cons test tests)
  have "ends test (clean P (Suc k)) w"
    using Cons.prems by (simp add: passes_def)
  then have "fst (test w) = Ok ()" "poised P (Suc k) Map.empty (snd (test w))"
    by (simp_all add: ends_def clean_def)
  then show ?case
    using Cons.IH [of "Suc k" "snd (test w)"] Cons.prems by (auto split: prod.splits)
qed simp

end
