(* ===== verification/Kps_Tests.thy ===== *)
theory Kps_Tests
  imports Test_Harness
begin

text \<open>
  The unit tests of the key protection core, \<^verbatim>\<open>mod tests\<close> of \<^verbatim>\<open>key_protection_service/key_custody_core/src/lib.rs\<close>, one
  definition for each. The arrays of a test are at fixed addresses: the encoded suite at 1, the handle at 2, the public
  key at 3, the binding key at 4, and the rest from 5 on.
\<close>

section \<open>Tests\<close>

text \<open>Most tests begin with the generation of a key; this is that part of them.\<close>

definition kps_test_generate :: "('s, 'r, 'p) env \<Rightarrow> bytes \<Rightarrow> nat \<Rightarrow> (Status, KpsKeyInfo world, Status) rust" where
  "kps_test_generate E binding_pubkey pubkey_len =
     bindM (array 4 binding_pubkey) (\<lambda>_.
     bindM (array 2 (replicate 16 0)) (\<lambda>_.
     bindM (array 3 (replicate pubkey_len 0)) (\<lambda>_.
     let algo_bytes = encode_to_vec E fuzz_algorithm in
     bindM (array 1 algo_bytes) (\<lambda>_.
     callM (key_manager_generate_kem_keypair E 1 (word_of_nat (length algo_bytes)) 4 (word_of_nat (length binding_pubkey))
       3600 2 3 (word_of_nat pubkey_len))))))"

definition test_create_kem_key_success_and_zeroization :: "('s, 'r, 'p) env \<Rightarrow> (Status, KpsKeyInfo world, unit) rust" where
  "test_create_kem_key_success_and_zeroization E =
     bindM (unwrapM (PublicKey_try_from (replicate 32 1))) (\<lambda>binding_pubkey.
     bindM (unwrapM (generate_kem_keypair_internal E fuzz_algorithm binding_pubkey 3600)) (\<lambda>(id, _).
     with_cleanup E id (assertM (as_bytes id \<noteq> replicate 16 0))))"

definition test_generate_kem_keypair_ffi_success :: "('s, 'r, 'p) env \<Rightarrow> (Status, KpsKeyInfo world, unit) rust" where
  "test_generate_kem_keypair_ffi_success E =
     bindM (kps_test_generate E (replicate 32 1) 32) (\<lambda>result.
     bindM (assertM (result = Success)) (\<lambda>_.
     bindM (read_array 2) (\<lambda>uuid_bytes.
     with_cleanup E (Uuid uuid_bytes) (
       bindM (assertM (uuid_bytes \<noteq> replicate 16 0)) (\<lambda>_.
       bindM (read_array 3) (\<lambda>pubkey_bytes.
       bindM (assertM (length pubkey_bytes = 32)) (\<lambda>_.
       assertM (take 32 pubkey_bytes \<noteq> replicate 32 0))))))))"

definition test_generate_kem_keypair_invalid_algo :: "('s, 'r, 'p) env \<Rightarrow> (Status, KpsKeyInfo world, unit) rust" where
  "test_generate_kem_keypair_invalid_algo E =
     bindM (array 4 (replicate 32 1)) (\<lambda>_.
     bindM (array 2 (replicate 16 0)) (\<lambda>_.
     bindM (array 3 (replicate 32 0)) (\<lambda>_.
     bindM (array 1 [0xFF, 0xFF]) (\<lambda>_.
     bindM (callM (key_manager_generate_kem_keypair E 1 2 4 32 3600 2 3 32)) (\<lambda>result.
     bindM (assertM (result = InvalidArgument)) (\<lambda>_.
     bindM (read_array 2) (\<lambda>uuid_bytes.
     assertM (uuid_bytes = replicate 16 0))))))))"

definition test_generate_kem_keypair_invalid_pubkey_len :: "('s, 'r, 'p) env \<Rightarrow> (Status, KpsKeyInfo world, unit) rust" where
  "test_generate_kem_keypair_invalid_pubkey_len E =
     bindM (kps_test_generate E (replicate 32 1) 64) (\<lambda>result.
     bindM (assertM (result = InvalidArgument)) (\<lambda>_.
     bindM (read_array 2) (\<lambda>uuid_bytes.
     bindM (assertM (uuid_bytes = replicate 16 0)) (\<lambda>_.
     bindM (read_array 3) (\<lambda>pubkey_bytes.
     assertM (take 32 pubkey_bytes = replicate 32 0))))))"

definition test_generate_kem_keypair_null_binding_key :: "('s, 'r, 'p) env \<Rightarrow> (Status, KpsKeyInfo world, unit) rust" where
  "test_generate_kem_keypair_null_binding_key E =
     bindM (array 2 (replicate 16 0)) (\<lambda>_.
     let algo_bytes = encode_to_vec E fuzz_algorithm in
     bindM (array 1 algo_bytes) (\<lambda>_.
     bindM (callM (key_manager_generate_kem_keypair E 1 (word_of_nat (length algo_bytes)) 0 32 3600 2 0 0)) (\<lambda>result.
     assertM (result = InvalidArgument))))"

definition test_generate_kem_keypair_empty_binding_key_len :: "('s, 'r, 'p) env \<Rightarrow> (Status, KpsKeyInfo world, unit) rust" where
  "test_generate_kem_keypair_empty_binding_key_len E =
     bindM (array 4 (replicate 32 1)) (\<lambda>_.
     bindM (array 2 (replicate 16 0)) (\<lambda>_.
     let algo_bytes = encode_to_vec E fuzz_algorithm in
     bindM (array 1 algo_bytes) (\<lambda>_.
     bindM (callM (key_manager_generate_kem_keypair E 1 (word_of_nat (length algo_bytes)) 4 0 3600 2 0 0)) (\<lambda>result.
     assertM (result = InvalidArgument)))))"

definition test_destroy_kem_key_success :: "('s, 'r, 'p) env \<Rightarrow> (Status, KpsKeyInfo world, unit) rust" where
  "test_destroy_kem_key_success E =
     bindM (kps_test_generate E (replicate 32 1) 32) (\<lambda>res.
     bindM (assertM (res = Success)) (\<lambda>_.
     bindM (read_array 2) (\<lambda>uuid_bytes.
     with_cleanup E (Uuid uuid_bytes) (
       bindM (callM (key_manager_destroy_kem_key E 2)) (\<lambda>result.
       bindM (assertM (result = Success)) (\<lambda>_.
       bindM (callM (key_manager_destroy_kem_key E 2)) (\<lambda>result.
       assertM (result = NotFound))))))))"

definition test_destroy_kem_key_not_found :: "('s, 'r, 'p) env \<Rightarrow> (Status, KpsKeyInfo world, unit) rust" where
  "test_destroy_kem_key_not_found E =
     bindM (array 2 (replicate 16 0)) (\<lambda>_.
     bindM (callM (key_manager_destroy_kem_key E 2)) (\<lambda>result.
     assertM (result = NotFound)))"

definition test_destroy_kem_key_null_ptr :: "('s, 'r, 'p) env \<Rightarrow> (Status, KpsKeyInfo world, unit) rust" where
  "test_destroy_kem_key_null_ptr E =
     bindM (callM (key_manager_destroy_kem_key E 0)) (\<lambda>result. assertM (result = InvalidArgument))"

definition test_enumerate_kem_keys_null_pointers :: "('s, 'r, 'p) env \<Rightarrow> (Status, KpsKeyInfo world, unit) rust" where
  "test_enumerate_kem_keys_null_pointers E =
     bindM (callM (key_manager_enumerate_kem_keys E 0 10 0 None)) (\<lambda>result.
     assertM (result = - status_as_i32 InvalidArgument))"

definition test_enumerate_kem_keys_after_generate :: "('s, 'r, 'p) env \<Rightarrow> (Status, KpsKeyInfo world, unit) rust" where
  "test_enumerate_kem_keys_after_generate E =
     bindM (kps_test_generate E (replicate 32 7) 32) (\<lambda>rc.
     bindM (assertM (rc = Success)) (\<lambda>_.
     bindM (read_array 2) (\<lambda>uuid_bytes.
     with_cleanup E (Uuid uuid_bytes) (
       bindM (store 10 (Entries (replicate 100 KpsKeyInfo_default))) (\<lambda>_.
       bindM (store 9 (BoolCell False)) (\<lambda>_.
       bindM (callM (key_manager_enumerate_kem_keys E 10 100 0 (Some 9))) (\<lambda>rc.
       bindM (assertM (1 \<le> sint rc)) (\<lambda>_.
       bindM (read_entries 10) (\<lambda>entries.
       bindM (scan_entries (\<lambda>e. kps_uuid e = uuid_bytes) (\<lambda>e.
           bindM (slice_to (unat (kps_algorithm_len e)) (kps_algorithm e)) (\<lambda>encoded_algo.
           bindM (unwrapM (ok_orM (HpkeAlgorithm_decode E encoded_algo) InvalidArgument))
             (\<lambda>decoded_algo.
           bindM (assertM (kem decoded_algo = kem_as_i32 DhkemX25519HkdfSha256)) (\<lambda>_.
           bindM (assertM (kps_pub_key_len e = 32)) (\<lambda>_.
           assertM (kps_remaining_lifespan_secs e > 0))))))
         (unat (scast rc :: usize)) entries) (\<lambda>found.
       assertM found))))))))))"

definition test_enumerate_kem_keys_has_more :: "('s, 'r, 'p) env \<Rightarrow> (Status, KpsKeyInfo world, unit) rust" where
  "test_enumerate_kem_keys_has_more E =
     bindM (kps_test_generate E (replicate 32 7) 32) (\<lambda>_.
     bindM (read_array 2) (\<lambda>uuid_bytes.
     with_cleanup E (Uuid uuid_bytes) (
       bindM (store 10 (Entries (replicate 100 KpsKeyInfo_default))) (\<lambda>_.
       bindM (store 9 (BoolCell False)) (\<lambda>_.
       bindM (callM (key_manager_enumerate_kem_keys E 10 0 0 (Some 9))) (\<lambda>rc.
       bindM (assertM (rc = 0)) (\<lambda>_.
       bindM (deref_bool 9) (\<lambda>has_more.
       bindM (assertM has_more) (\<lambda>_.
       bindM (store 9 (BoolCell True)) (\<lambda>_.
       bindM (callM (key_manager_enumerate_kem_keys E 10 100 0 (Some 9))) (\<lambda>rc.
       bindM (assertM (1 \<le> sint rc)) (\<lambda>_.
       bindM (deref_bool 9) (\<lambda>has_more.
       assertM (\<not> has_more))))))))))))))"

definition test_decap_and_seal_success :: "('s, 'r, 'p) env \<Rightarrow> (Status, KpsKeyInfo world, unit) rust" where
  "test_decap_and_seal_success E =
     bindM (unwrapM (generate_keypair E DhkemX25519HkdfSha256)) (\<lambda>(binding_pk, binding_sk).
     bindM (kps_test_generate E (PublicKey_as_bytes binding_pk) 32) (\<lambda>_.
     bindM (read_array 2) (\<lambda>uuid_bytes.
     with_cleanup E (Uuid uuid_bytes) (
       bindM (array 6 (byte_string ''test_aad'')) (\<lambda>_.
       bindM (read_array 3) (\<lambda>kem_pubkey_bytes.
       bindM (unwrapM (PublicKey_try_from kem_pubkey_bytes)) (\<lambda>pub_key_obj.
       bindM (unwrapM (encap E pub_key_obj)) (\<lambda>(client_shared_secret, client_enc).
       bindM (array 5 client_enc) (\<lambda>_.
       bindM (array 7 (replicate 32 0)) (\<lambda>_.
       bindM (array 8 (replicate 48 0)) (\<lambda>_.
       bindM (callM (key_manager_decap_and_seal E 2 5 (word_of_nat (length client_enc)) 6 8 7 32 8 48)) (\<lambda>result.
       bindM (assertM (result = Success)) (\<lambda>_.
       bindM (read_array 7) (\<lambda>out_enc_key.
       bindM (read_array 8) (\<lambda>out_ct.
       bindM (unwrapM (hpke_open E binding_sk out_enc_key out_ct (byte_string ''test_aad'') fuzz_algorithm))
         (\<lambda>recovered_shared_secret.
       bindM (assertM (length (as_slice recovered_shared_secret) = 32)) (\<lambda>_.
       assertM (as_slice recovered_shared_secret = as_slice client_shared_secret))))))))))))))))))"

definition test_decap_and_seal_invalid_uuid :: "('s, 'r, 'p) env \<Rightarrow> (Status, KpsKeyInfo world, unit) rust" where
  "test_decap_and_seal_invalid_uuid E =
     bindM (array 7 (replicate 32 0)) (\<lambda>_.
     bindM (array 8 (replicate 48 0)) (\<lambda>_.
     bindM (array 2 (replicate 16 0)) (\<lambda>_.
     bindM (array 5 (replicate 32 0)) (\<lambda>_.
     bindM (callM (key_manager_decap_and_seal E 2 5 32 0 0 7 32 8 48)) (\<lambda>result.
     assertM (result = NotFound))))))"

definition test_decap_and_seal_null_args :: "('s, 'r, 'p) env \<Rightarrow> (Status, KpsKeyInfo world, unit) rust" where
  "test_decap_and_seal_null_args E =
     bindM (array 7 (replicate 32 0)) (\<lambda>_.
     bindM (callM (key_manager_decap_and_seal E 0 0 0 0 0 7 32 0 0)) (\<lambda>result.
     assertM (result = InvalidArgument)))"

definition test_decap_and_seal_decaps_fail :: "('s, 'r, 'p) env \<Rightarrow> (Status, KpsKeyInfo world, unit) rust" where
  "test_decap_and_seal_decaps_fail E =
     bindM (unwrapM (generate_keypair E DhkemX25519HkdfSha256)) (\<lambda>(binding_pk, _).
     bindM (kps_test_generate E (PublicKey_as_bytes binding_pk) 32) (\<lambda>res.
     bindM (assertM (res = Success)) (\<lambda>_.
     bindM (read_array 2) (\<lambda>uuid_bytes.
     with_cleanup E (Uuid uuid_bytes) (
       bindM (array 7 (replicate 32 0)) (\<lambda>_.
       bindM (array 8 (replicate 48 0)) (\<lambda>_.
       bindM (array 5 (replicate 31 0)) (\<lambda>_.
       bindM (callM (key_manager_decap_and_seal E 2 5 31 0 0 7 32 8 48)) (\<lambda>result.
       assertM (result = DecapsulationFailure))))))))))"

definition test_decap_and_seal_buffer_too_small :: "('s, 'r, 'p) env \<Rightarrow> (Status, KpsKeyInfo world, unit) rust" where
  "test_decap_and_seal_buffer_too_small E =
     bindM (unwrapM (generate_keypair E DhkemX25519HkdfSha256)) (\<lambda>(binding_pk, _).
     bindM (kps_test_generate E (PublicKey_as_bytes binding_pk) 32) (\<lambda>res.
     bindM (assertM (res = Success)) (\<lambda>_.
     bindM (read_array 2) (\<lambda>uuid_bytes.
     with_cleanup E (Uuid uuid_bytes) (
       bindM (read_array 3) (\<lambda>kem_pubkey_bytes.
       bindM (unwrapM (PublicKey_try_from kem_pubkey_bytes)) (\<lambda>pub_key_obj.
       bindM (unwrapM (hpke_seal E pub_key_obj (SecretBox_new (byte_string ''secret'')) [] fuzz_algorithm)) (\<lambda>(client_enc, _).
       bindM (array 5 client_enc) (\<lambda>_.
       bindM (array 7 (replicate 31 0)) (\<lambda>_.
       bindM (array 8 (replicate 47 0)) (\<lambda>_.
       bindM (callM (key_manager_decap_and_seal E 2 5 (word_of_nat (length client_enc)) 0 0 7 31 8 47)) (\<lambda>result.
       assertM (result = InvalidArgument)))))))))))))"

text \<open>The arrays and cells that the lookup tests pass for the results.\<close>

definition kps_get_buffers :: "(Status, KpsKeyInfo world, unit) rust" where
  "kps_get_buffers =
     bindM (array 5 (replicate 32 0)) (\<lambda>_.
     bindM (array 6 (replicate 32 0)) (\<lambda>_.
     bindM (array 7 (replicate 128 0)) (\<lambda>_.
     bindM (store 8 (UsizeCell 128)) (\<lambda>_.
     store 9 (U64Cell 0)))))"

definition test_get_kem_key_success :: "('s, 'r, 'p) env \<Rightarrow> (Status, KpsKeyInfo world, unit) rust" where
  "test_get_kem_key_success E =
     bindM (kps_test_generate E (replicate 32 42) 32) (\<lambda>res.
     bindM (assertM (res = Success)) (\<lambda>_.
     bindM (read_array 2) (\<lambda>uuid_bytes.
     with_cleanup E (Uuid uuid_bytes) (
       bindM kps_get_buffers (\<lambda>_.
       bindM (callM (key_manager_get_kem_key E 2 5 32 6 32 7 8 9)) (\<lambda>result.
       bindM (assertM (result = Success)) (\<lambda>_.
       bindM (read_array 3) (\<lambda>generated_kem_pubkey_bytes.
       bindM (read_array 5) (\<lambda>retrieved_kem_pubkey_bytes.
       bindM (assertM (generated_kem_pubkey_bytes = retrieved_kem_pubkey_bytes)) (\<lambda>_.
       bindM (read_array 6) (\<lambda>retrieved_binding_pubkey_bytes.
       bindM (assertM (replicate 32 42 = retrieved_binding_pubkey_bytes)) (\<lambda>_.
       bindM (read_array 7) (\<lambda>retrieved_algo_bytes.
       bindM (deref_usize 8) (\<lambda>retrieved_algo_len.
       bindM (slice_to (unat retrieved_algo_len) retrieved_algo_bytes) (\<lambda>retrieved_algo.
       bindM (assertM (encode_to_vec E fuzz_algorithm = retrieved_algo)) (\<lambda>_.
       bindM (deref_u64 9) (\<lambda>remaining_lifespan_secs.
       bindM (assertM (remaining_lifespan_secs > 0)) (\<lambda>_.
       assertM (remaining_lifespan_secs \<le> 3600)))))))))))))))))))"

definition test_get_kem_key_not_found :: "('s, 'r, 'p) env \<Rightarrow> (Status, KpsKeyInfo world, unit) rust" where
  "test_get_kem_key_not_found E =
     bindM (array 2 (replicate 16 42)) (\<lambda>_.
     bindM kps_get_buffers (\<lambda>_.
     bindM (callM (key_manager_get_kem_key E 2 5 32 6 32 7 8 9)) (\<lambda>result.
     assertM (result = NotFound))))"

definition test_get_kem_key_invalid_buffer_len :: "('s, 'r, 'p) env \<Rightarrow> (Status, KpsKeyInfo world, unit) rust" where
  "test_get_kem_key_invalid_buffer_len E =
     bindM (kps_test_generate E (replicate 32 42) 32) (\<lambda>res.
     bindM (assertM (res = Success)) (\<lambda>_.
     bindM (read_array 2) (\<lambda>uuid_bytes.
     with_cleanup E (Uuid uuid_bytes) (
       bindM kps_get_buffers (\<lambda>_.
       bindM (callM (key_manager_get_kem_key E 2 5 31 6 32 7 8 9)) (\<lambda>result.
       bindM (assertM (result = InvalidArgument)) (\<lambda>_.
       bindM (callM (key_manager_get_kem_key E 2 5 32 6 33 7 8 9)) (\<lambda>result.
       assertM (result = InvalidArgument)))))))))"

section \<open>Lemmas: calls of the key protection core\<close>

text \<open>The arrays of a test after a generation.\<close>

abbreviation (input) kem_arrays :: "('s, 'r, 'p) env \<Rightarrow> (ptr \<rightharpoonup> 'e obj) \<Rightarrow> bytes \<Rightarrow> bytes \<Rightarrow> bytes \<Rightarrow> ptr \<rightharpoonup> 'e obj" where
  "kem_arrays E M b uid pk \<equiv> M(4 \<mapsto> Bytes b, 2 \<mapsto> Bytes uid, 3 \<mapsto> Bytes pk, 1 \<mapsto> Bytes (encode_to_vec E fuzz_algorithm))"

lemma generate_kem_run:
  assumes "testbed E" and w: "bench (kps_record E) k (kem_arrays E M b (replicate 16 0) (replicate n 0)) K w"
    and "length b = 32" and "n \<in> {32, 64}"
  obtains v uid bs rec where "generate_kem_keypair_body E 1 (word_of_nat (length (encode_to_vec E fuzz_algorithm))) 4
       (word_of_nat (length b)) 3600 2 3 (word_of_nat n) w =
       (if n \<noteq> 32 then (Err InvalidArgument, v) else (Ok (), v\<lparr>mem := (mem w)(2 \<mapsto> Bytes uid, 3 \<mapsto> Bytes bs)\<rparr>))"
    and "mem v = mem w" and "poised (kps_record E) (Suc k) (K(Uuid uid \<mapsto> rec)) v"
    and "length uid = 16" and "uid \<noteq> replicate 16 0" and "length bs = 32" and "bs \<noteq> replicate 32 0"
    and "spec (meta rec) = KemWithBindingPub fuzz_algorithm (X25519_public (X25519PublicKey bs)) (X25519_public (X25519PublicKey b))"
    and "meta_id (meta rec) = Uuid uid"
proof -
  note spec = testbedD [OF assms(1)]
  have p: "poised (kps_record E) k K w"
    using w by (simp add: bench_def)
  note granted = create_and_add_granted [OF assms(1) p]
  let ?a = "encode_to_vec E fuzz_algorithm"
  let ?al = "word_of_nat (length ?a) :: usize"
  let ?mk = "\<lambda>a pk. KemWithBindingPub a pk (X25519_public (X25519PublicKey b))"
  have algo: "unat ?al = length ?a" "length ?a \<noteq> 0"
    using algorithm_len [OF spec(5)] spec(11) by simp_all
  have n: "unat (word_of_nat n :: usize) = n" "(word_of_nat n :: usize) \<noteq> 32 \<longleftrightarrow> n \<noteq> 32"
    using assms(4) by auto
  have mem: "mem w 4 = Some (Bytes b)" "mem w 2 = Some (Bytes (replicate 16 0))" "mem w 3 = Some (Bytes (replicate n 0))"
    "mem w 1 = Some (Bytes ?a)"
    using bench_mem [OF w] by simp_all
  have bufs: "buf 4 (word_of_nat (length b)) w = b" "buf 1 ?al w = ?a"
    using mem algo assms(3) by (auto simp: buf_def)
  have present: "generate_kem_present 1 ?al 4 (word_of_nat (length b)) 2 3"
    using algo assms(3) by (auto simp: generate_kem_present_def is_null_def)
  have safe: "generate_kem_safe 1 ?al 4 (word_of_nat (length b)) 2 3 (word_of_nat n) w"
    using algo mem assms(3) n(1) by (simp add: generate_kem_safe_def valid_buf_def)
  obtain h pk v where gen: "create_and_add E fuzz_algorithm (Duration_from_secs 3600) ?mk w = (Ok (h, pk), v)"
    and body: "generate_kem_keypair_body E 1 ?al 4 (word_of_nat (length b)) 3600 2 3 (word_of_nat n) w =
       (if n \<noteq> 32 then (Err InvalidArgument, v)
        else (Ok (), v\<lparr>mem := write_mem 3 (PublicKey_as_bytes pk) (write_mem 2 (as_bytes h) (mem w))\<rparr>))"
    using generate_kem_keypair_body_run [OF spec(2,3,6) granted(1) present safe, of fuzz_algorithm 3600] assms(3)
      algorithm_decodes(1,3) [OF spec(5)] granted(2,3,5) bufs n(2) by auto
  obtain uid bs rec where made: "h = Uuid uid" "pk = X25519_public (X25519PublicKey bs)" "length uid = 16" "uid \<noteq> replicate 16 0"
    "length bs = 32" "bs \<noteq> replicate 32 0" "mem v = mem w" "poised (kps_record E) (Suc k) (K(h \<mapsto> rec)) v"
    "spec (meta rec) = ?mk fuzz_algorithm pk" "meta_id (meta rec) = h"
  proof (rule create_and_add_poised [OF assms(1) p _ _ _ gen])
    show "kps_record E r" if "record_ok E r" "spec (meta r) = ?mk fuzz_algorithm x" for r x
      using that assms(3) by (simp add: kps_record_def)
  qed (auto simp: own_public_key_def)
  have "write_mem 3 bs (write_mem 2 uid (mem w)) = (mem w)(2 \<mapsto> Bytes uid, 3 \<mapsto> Bytes bs)" if "n = 32"
    using mem made(3,5) that by (simp add: write_mem_def overwrite_def)
  then show thesis
    using that [of v uid bs rec] body made by auto
qed

lemma ends_kps_generate:
  assumes "testbed E" and "bench (kps_record E) k M K w" and "length b = 32"
    and "\<And>v uid bs rec. bench (kps_record E) (Suc k) (kem_arrays E M b uid bs) (K(Uuid uid \<mapsto> rec)) v \<Longrightarrow> length uid = 16 \<Longrightarrow>
      uid \<noteq> replicate 16 0 \<Longrightarrow> length bs = 32 \<Longrightarrow> bs \<noteq> replicate 32 0 \<Longrightarrow>
      spec (meta rec) = KemWithBindingPub fuzz_algorithm (X25519_public (X25519PublicKey bs)) (X25519_public (X25519PublicKey b)) \<Longrightarrow>
      meta_id (meta rec) = Uuid uid \<Longrightarrow> ends (f Success) Q v"
  shows "ends (bindM (kps_test_generate E b 32) f) Q w"
  unfolding kps_test_generate_def Let_def bindM_assoc
proof (rule ends_array [OF assms(2)], rule ends_array, assumption, rule ends_array, assumption, rule ends_array, assumption)
  fix v assume v: "bench (kps_record E) k (kem_arrays E M b (replicate 16 0) (replicate 32 0)) K v"
  obtain u uid bs rec where run: "generate_kem_keypair_body E 1 (word_of_nat (length (encode_to_vec E fuzz_algorithm))) 4
       (word_of_nat (length b)) 3600 2 3 (word_of_nat 32) v = (Ok (), u\<lparr>mem := (mem v)(2 \<mapsto> Bytes uid, 3 \<mapsto> Bytes bs)\<rparr>)"
    and p: "poised (kps_record E) (Suc k) (K(Uuid uid \<mapsto> rec)) u"
    and key: "length uid = 16" "uid \<noteq> replicate 16 0" "length bs = 32" "bs \<noteq> replicate 32 0"
      "spec (meta rec) = KemWithBindingPub fuzz_algorithm (X25519_public (X25519PublicKey bs)) (X25519_public (X25519PublicKey b))"
      "meta_id (meta rec) = Uuid uid"
    by (rule generate_kem_run [OF assms(1) v assms(3)]) simp_all
  show "ends (bindM (callM (key_manager_generate_kem_keypair E 1 (word_of_nat (length (encode_to_vec E fuzz_algorithm))) 4
         (word_of_nat (length b)) 3600 2 3 (word_of_nat 32))) f) Q v"
    unfolding key_manager_generate_kem_keypair_def
  proof (rule ends_call_ok, rule run)
    show "poised (kps_record E) (Suc k) (K(Uuid uid \<mapsto> rec)) (u\<lparr>mem := (mem v)(2 \<mapsto> Bytes uid, 3 \<mapsto> Bytes bs)\<rparr>)"
      using p by (simp add: poised_mem)
    show "kem_arrays E M b uid bs \<subseteq>\<^sub>m mem (u\<lparr>mem := (mem v)(2 \<mapsto> Bytes uid, 3 \<mapsto> Bytes bs)\<rparr>)"
      using v by (auto simp: bench_def map_le_def split: if_splits)
  qed (rule assms(4) [OF _ key])
qed

lemma ends_kps_generate_rejected:
  assumes "testbed E" and "bench (kps_record E) k M K w" and "length b = 32"
    and "\<And>v. bench (kps_record E) (Suc k) (kem_arrays E M b (replicate 16 0) (replicate 64 0)) Map.empty v \<Longrightarrow> ends (f InvalidArgument) Q v"
  shows "ends (bindM (kps_test_generate E b 64) f) Q w"
  unfolding kps_test_generate_def Let_def bindM_assoc
proof (rule ends_array [OF assms(2)], rule ends_array, assumption, rule ends_array, assumption, rule ends_array, assumption)
  fix v assume v: "bench (kps_record E) k (kem_arrays E M b (replicate 16 0) (replicate 64 0)) K v"
  obtain u uid rec where run: "generate_kem_keypair_body E 1 (word_of_nat (length (encode_to_vec E fuzz_algorithm))) 4
       (word_of_nat (length b)) 3600 2 3 (word_of_nat 64) v = (Err InvalidArgument, u)"
    and u: "mem u = mem v" "poised (kps_record E) (Suc k) (K(Uuid uid \<mapsto> rec)) u"
    by (rule generate_kem_run [OF assms(1) v assms(3)]) simp_all
  show "ends (bindM (callM (key_manager_generate_kem_keypair E 1 (word_of_nat (length (encode_to_vec E fuzz_algorithm))) 4
         (word_of_nat (length b)) 3600 2 3 (word_of_nat 64))) f) Q v"
    unfolding key_manager_generate_kem_keypair_def
    by (rule ends_call_err, rule v, rule run, rule u(1), rule poised_weaken [OF u(2) le_refl, of Map.empty], simp, rule assms(4))
qed

lemma ends_kps_destroy:
  assumes "testbed E" and "bench (kps_record E) k M K w" and "is_arr M p 16"
    and "K (Uuid (arr M p)) = None \<Longrightarrow> contents w (Uuid (arr M p)) = None"
    and "\<And>v. bench (kps_record E) k M (K(Uuid (arr M p) := None)) v \<Longrightarrow> contents v (Uuid (arr M p)) = None \<Longrightarrow>
      ends (f (if K (Uuid (arr M p)) = None then NotFound else Success)) Q v"
  shows "ends (bindM (callM (key_manager_destroy_kem_key E p)) f) Q w"
  unfolding key_manager_destroy_kem_key_def
  by (rule ends_destroy [OF assms(1-3) _ assms(4)], erule (1) destroy_kem_key_body_eq, assumption, rule assms(5))

text \<open>Calls that only read the registry.\<close>

lemma kps_reads_poised:
  fixes w v :: "'e world"
  assumes "testbed E"
  shows "poised P k K w \<Longrightarrow> poised P k K (snd (decap_and_seal_body E u e el a al oe oel oc ocl w))"
    and "poised P k K v \<Longrightarrow> poised P k K (snd (get_kem_key_body E u kp kl b bl a' al' s v))"
    and "poised P k K x \<Longrightarrow> poised P k K (snd (enumerate_kem_keys_body E p n offset q x))"
proof -
  note spec = testbedD [OF assms]
  note stable = poised_machine_stable [OF spec(4)] poised_mem_stable
  have get: "yields UNIV (poised P k K) (\<lambda>r. \<forall>x. r = Some x \<longrightarrow> True) (static_get_key E h)" for h
    by (rule yields_True [OF poised_reads(1) [OF spec(15,4)]]) simp
  have list: "yields UNIV (poised P k K) (\<lambda>r. InternalError \<in> (UNIV :: Status set) \<or> R r) (static_list_all_keys E off lim)" for R off lim
    by (rule yields_True [OF poised_reads(2) [OF spec(15,4)]]) simp
  have "keeps UNIV (poised P k K) (decap_and_seal_body E u e el a al oe oel oc ocl :: (Status, 'e world, unit) rust)"
    by (rule keeps_decap_and_seal_body [OF stable get]) auto
  then show "poised P k K w \<Longrightarrow> poised P k K (snd (decap_and_seal_body E u e el a al oe oel oc ocl w))"
    by (simp add: keeps_alt)
  have "keeps UNIV (poised P k K) (get_kem_key_body E u kp kl b bl a' al' s :: (Status, 'e world, unit) rust)"
    by (rule keeps_get_kem_key_body [OF stable get]) auto
  then show "poised P k K v \<Longrightarrow> poised P k K (snd (get_kem_key_body E u kp kl b bl a' al' s v))"
    by (simp add: keeps_alt)
  have "keeps UNIV (poised P k K) (enumerate_kem_keys_body E p n offset q)"
    by (rule keeps_enumerate_kem_keys_body [OF stable list]) simp
  then show "poised P k K x \<Longrightarrow> poised P k K (snd (enumerate_kem_keys_body E p n offset q x))"
    by (simp add: keeps_alt)
qed

text \<open>Calls that a test expects to fail.\<close>

lemma ends_kps_fails:
  assumes "bench (kps_record E) k M K w" and "fst (kps_body E c w) = Err s" and "poised (kps_record E) k K (snd (kps_body E c w))"
    and "\<And>u. bench (kps_record E) k M K u \<Longrightarrow> ends (f s) Q u"
  shows "ends (bindM (callM (ffi_call (kps_operation c) (kps_body E c))) f) Q w"
proof -
  have run: "kps_body E c w = (Err s, snd (kps_body E c w))"
    using assms(2) by (metis prod.collapse)
  have "mem (snd (kps_body E c w)) = mem w"
    using kps_body_writes [of E c] run unfolding writes_on_success_def by blast
  then show ?thesis
    by (rule ends_call_err [of _ _ _ _ w "kps_body E c", OF assms(1) run _ assms(3)]) (rule assms(4))
qed

lemma ends_kps_decap_fails:
  assumes "testbed E" and "bench (kps_record E) k M K w" and "fst (decap_and_seal_body E u e el a al oe oel oc ocl w) = Err s"
    and "\<And>v. bench (kps_record E) k M K v \<Longrightarrow> ends (f s) Q v"
  shows "ends (bindM (callM (key_manager_decap_and_seal E u e el a al oe oel oc ocl)) f) Q w"
  using ends_kps_fails [of E k M K w "DecapSeal u e el a al oe oel oc ocl" s f Q] assms(2-4)
    kps_reads_poised(1) [OF assms(1), of "kps_record E" k K w]
  by (simp add: key_manager_decap_and_seal_def bench_def)

lemma ends_kps_get_fails:
  assumes "testbed E" and "bench (kps_record E) k M K w" and "fst (get_kem_key_body E u kp kl b bl a al s w) = Err e"
    and "\<And>v. bench (kps_record E) k M K v \<Longrightarrow> ends (f e) Q v"
  shows "ends (bindM (callM (key_manager_get_kem_key E u kp kl b bl a al s)) f) Q w"
  using ends_kps_fails [of E k M K w "GetKem u kp kl b bl a al s" e f Q] assms(2-4)
    kps_reads_poised(2) [OF assms(1), of "kps_record E" k K w]
  by (simp add: key_manager_get_kem_key_def bench_def)

lemma ends_kps_generate_fails:
  assumes "bench (kps_record E) k M K w" and "generate_kem_keypair_body E a al b bl e u p pl w = (Err s, w)"
    and "\<And>v. bench (kps_record E) k M K v \<Longrightarrow> ends (f s) Q v"
  shows "ends (bindM (callM (key_manager_generate_kem_keypair E a al b bl e u p pl)) f) Q w"
  using ends_kps_fails [of E k M K w "GenerateKem a al b bl e u p pl" s f Q] assms
  by (simp add: key_manager_generate_kem_keypair_def bench_def)

text \<open>A key of the test in the registry.\<close>

lemma kps_test_key:
  assumes "testbed E" and "bench (kps_record E) k M K w" and "is_arr M p 16" and "K (Uuid (arr M p)) = Some rec"
  shows "unexpired (clock w i) (contents w (Uuid (buf p 16 w))) = Some rec" "kps_record E rec" "valid_buf p 16 w"
    "core_inv (kps_record E) w" "usable E w"
proof -
  have w: "poised (kps_record E) k K w"
    using assms(2) by (simp add: bench_def)
  show "unexpired (clock w i) (contents w (Uuid (buf p 16 w))) = Some rec" "kps_record E rec"
    using poised_key(4,5) [OF w assms(4)] is_arrD(6) [OF assms(2,3), of 16] by simp_all
  show "valid_buf p 16 w"
    using is_arrD(5) [OF assms(2,3), of 16] by simp
  show "core_inv (kps_record E) w" "usable E w"
    using create_and_add_granted [OF assms(1) w] by simp_all
qed

lemma ends_kps_decap:
  assumes "testbed E" and w: "bench (kps_record E) k M K w" and "K (Uuid (arr M 2)) = Some rec"
    and arrs: "is_arr M 2 16" "is_arr M 5 32" "is_arr M 6 8" "is_arr M 7 32" "is_arr M 8 48"
    and sp: "spec (meta rec) = KemWithBindingPub fuzz_algorithm kem_pk (X25519_public (X25519PublicKey (PublicKey_as_bytes bpk)))"
    and bpk: "key_pair E n = (bpk, bsk)"
    and enc: "encap E kem_pk m = (Ok (ss, client_enc), m')" "arr M 5 = client_enc" and aad: "arr M 6 = aad"
    and "\<And>v enc ct. bench (kps_record E) k (M(7 \<mapsto> Bytes enc, 8 \<mapsto> Bytes ct)) K v \<Longrightarrow> length (as_slice ss) = 32 \<Longrightarrow>
      (\<And>u. hpke_open E bsk enc ct aad fuzz_algorithm (u :: 'e world) = (Ok ss, u)) \<Longrightarrow> ends (f Success) Q v"
  shows "ends (bindM (callM (key_manager_decap_and_seal E 2 5 32 6 8 7 32 8 48)) f) Q (w :: 'e world)"
proof -
  note spec = testbedD [OF assms(1)]
  note key = kps_test_key [OF assms(1,2) arrs(1) assms(3)]
  note arr = is_arrD [OF w arrs(1)] is_arrD [OF w arrs(2)] is_arrD [OF w arrs(3)] is_arrD [OF w arrs(4)] is_arrD [OF w arrs(5)]
  have sp': "spec (meta rec) = KemWithBindingPub fuzz_algorithm kem_pk (fst (key_pair E n))"
    using sp bpk by (auto simp: key_pair_def)
  have present: "decap_present 2 5 32 7 32 8 48"
    by (simp add: decap_present_def is_null_def)
  have safe: "decap_safe 2 5 32 6 8 7 32 8 48 w"
    using arr(5,11,17,23,29) by (simp add: decap_safe_def)
  have found: "contents w (Uuid (buf 2 16 w)) = Some rec" "clock w (ticks w) < delete_after (meta rec)"
    using key(1) [of "ticks w"] by (simp_all add: unexpired_eq_Some)
  have bufs: "buf 5 32 w = arr M 5" "aad_buf 6 8 w = arr M 6"
    using arr(12,18) by (simp_all add: aad_buf_def is_null_def)
  obtain w' v u where call: "key_manager_decap_and_seal E 2 5 32 6 8 7 32 8 48 w = (Returns Success, w')"
    and seal: "hpke_seal E (fst (key_pair E n)) ss (arr M 6) fuzz_algorithm (v :: 'e world) = (Ok (buf 7 32 w', buf 8 48 w'), u)"
    and ss: "length (as_slice ss) = 32" and "suite_supported E fuzz_algorithm"
    and mem: "mem w' = write_mem 8 (buf 8 48 w') (write_mem 7 (buf 7 32 w') (mem w))"
    using decap_seals_secret [OF spec(2,7,8) key(4,5) present safe found sp' enc(1) [folded enc(2), folded bufs(1)]] bufs(2) by metis
  note open' = open_seal_pair [OF spec(2) \<open>suite_supported E fuzz_algorithm\<close> prod.collapse [symmetric] seal]
  have "decap_and_seal_body E 2 5 32 6 8 7 32 8 48 w = (Ok (), w')"
    using call by (simp add: key_manager_decap_and_seal_def decap_and_seal.success_iff)
  then have "poised (kps_record E) k K w'"
    using kps_reads_poised(1) [OF assms(1), of "kps_record E" k K w] w by (auto simp: bench_def) (metis snd_conv)
  moreover have "mem w' = (mem w)(7 \<mapsto> Bytes (buf 7 32 w'), 8 \<mapsto> Bytes (buf 8 48 w'))"
    using open' [of w] ss arr(19,20,25,26) by (subst mem) (simp add: write_mem_def overwrite_def)
  ultimately have "bench (kps_record E) k (M(7 \<mapsto> Bytes (buf 7 32 w'), 8 \<mapsto> Bytes (buf 8 48 w'))) K w'"
    using w by (auto simp: bench_def intro: map_le_upd)
  then show ?thesis
    using assms(14) ss open' bpk aad by (intro ends_bindI [of _ _ Success w']) (auto simp: callM_def call)
qed

lemma kps_remaining_secs:
  assumes "poised (kps_record E) k K w" and "K h = Some rec"
  shows "0 < Duration_as_secs (saturating_duration_since (delete_after (meta rec)) (clock w i))"
    and "ticks w \<le> i \<Longrightarrow> Duration_as_secs (saturating_duration_since (delete_after (meta rec)) (clock w i)) \<le> 3600"
proof -
  let ?secs = "Duration_as_secs (saturating_duration_since (delete_after (meta rec)) (clock w i))"
  have secs: "unat ?secs = (delete_after (meta rec) - clock w i) div nanos_per_sec"
    by (rule remaining_secs_fit) (use poised_key(5) [OF assms] in \<open>simp add: kps_record_def record_ok_def\<close>)
  have "nanos_per_sec \<le> delete_after (meta rec) - clock w i"
    using poised_key(2) [OF assms, of i] by linarith
  then show "0 < ?secs"
    by (simp add: word_less_nat_alt secs div_greater_zero_iff nanos_per_sec_def)
  assume "ticks w \<le> i"
  then have "clock w (ticks w) \<le> clock w i"
    using assms(1) by (simp add: poised_def brisk_def monoD)
  then have "delete_after (meta rec) - clock w i \<le> 3600 * nanos_per_sec"
    using poised_key(3) [OF assms] by linarith
  from div_le_mono [OF this, of nanos_per_sec] show "?secs \<le> 3600"
    by (simp add: word_le_nat_alt secs nanos_per_sec_def)
qed

lemma ends_kps_get:
  assumes "testbed E" and w: "bench (kps_record E) k M K w" and "K (Uuid (arr M 2)) = Some rec"
    and arrs: "is_arr M 2 16" "is_arr M 5 32" "is_arr M 6 32" "is_arr M 7 128" and cells: "M 8 = Some (UsizeCell 128)" "M 9 = Some (U64Cell 0)"
    and "spec (meta rec) = KemWithBindingPub fuzz_algorithm (X25519_public (X25519PublicKey kem_pk)) (X25519_public (X25519PublicKey b))"
    and "length kem_pk = 32" and "length b = 32"
    and "\<And>v secs rest. bench (kps_record E) k (M(5 \<mapsto> Bytes kem_pk, 6 \<mapsto> Bytes b, 7 \<mapsto> Bytes (encode_to_vec E fuzz_algorithm @ rest),
        8 \<mapsto> UsizeCell (word_of_nat (length (encode_to_vec E fuzz_algorithm))), 9 \<mapsto> U64Cell secs)) K v \<Longrightarrow>
      0 < secs \<Longrightarrow> secs \<le> 3600 \<Longrightarrow> ends (f Success) Q v"
  shows "ends (bindM (callM (key_manager_get_kem_key E 2 5 32 6 32 7 8 9)) f) Q w"
proof -
  note spec = testbedD [OF assms(1)]
  note key = kps_test_key [OF assms(1,2) arrs(1) assms(3)]
  note arr = is_arrD [OF w arrs(1)] is_arrD [OF w arrs(2)] is_arrD [OF w arrs(3)] is_arrD [OF w arrs(4)]
  have p: "poised (kps_record E) k K w"
    using w by (simp add: bench_def)
  have present: "get_kem_present 2 5 32 6 32 7 8 9"
    by (simp add: get_kem_present_def is_null_def)
  have mem: "mem w 8 = Some (UsizeCell 128)" "mem w 9 = Some (U64Cell 0)"
    using bench_mem [OF w] cells by simp_all
  have safe: "get_kem_safe 2 5 32 6 32 7 8 9 w"
    using arr(5,11,17,23) mem by (simp add: get_kem_safe_def)
  let ?a = "encode_to_vec E fuzz_algorithm"
  let ?secs = "Duration_as_secs (saturating_duration_since (delete_after (meta rec)) (clock w (Suc (ticks w))))"
  have fit: "length ?a \<le> 33"
    by (rule algorithm_decodes(2) [OF spec(5)])
  have run: "get_kem_key_body E 2 5 32 6 32 7 8 9 w = (Ok (), snd (get_kem_key_body E 2 5 32 6 32 7 8 9 w))"
    and "mem (snd (get_kem_key_body E 2 5 32 6 32 7 8 9 w)) = (mem w)(5 \<mapsto> Bytes kem_pk, 6 \<mapsto> Bytes b,
       7 \<mapsto> Bytes (?a @ drop (length ?a) (arr M 7)), 8 \<mapsto> UsizeCell (word_of_nat (length ?a)), 9 \<mapsto> U64Cell ?secs)"
    using key(1) [of "ticks w"] assms(10-12) fit arr(7,8,13,14,19,20)
    by (simp_all add: get_kem_key_body_eq [OF key(4,5) present safe refl mem(1)] Let_def write_mem_def overwrite_def)
  moreover have "poised (kps_record E) k K (snd (get_kem_key_body E 2 5 32 6 32 7 8 9 w))"
    by (rule kps_reads_poised(2) [OF assms(1) p])
  ultimately have v: "bench (kps_record E) k (M(5 \<mapsto> Bytes kem_pk, 6 \<mapsto> Bytes b, 7 \<mapsto> Bytes (?a @ drop (length ?a) (arr M 7)),
      8 \<mapsto> UsizeCell (word_of_nat (length ?a)), 9 \<mapsto> U64Cell ?secs)) K (snd (get_kem_key_body E 2 5 32 6 32 7 8 9 w))"
    using w by (auto simp: bench_def intro!: map_le_upd)
  have "0 < ?secs" "?secs \<le> 3600"
    using kps_remaining_secs [OF p assms(3)] by simp_all
  then show ?thesis
    using assms(13) [OF v] run
    by (intro ends_bindI [of _ _ Success "snd (get_kem_key_body E 2 5 32 6 32 7 8 9 w)"])
      (simp_all add: callM_def key_manager_get_kem_key_def get_kem.success_iff [THEN iffD2])
qed

text \<open>What an enumeration tells about the keys of the test.\<close>

lemma ends_kps_enumerate:
  assumes "testbed E" and w: "bench (kps_record E) k M K w" and "M 10 = Some (Entries es)"
    and "unat n \<le> length es" and "k < 2 ^ 31"
    and "\<And>v infos total. bench (kps_record E) k (M(10 \<mapsto> Entries (infos @ drop (length infos) es), 9 \<mapsto> BoolCell (length infos < total))) K v \<Longrightarrow>
      length infos = min (unat n) total \<Longrightarrow> total \<le> k \<Longrightarrow> (K \<noteq> Map.empty \<Longrightarrow> 0 < total) \<Longrightarrow>
      (\<And>h rec. K h = Some rec \<Longrightarrow> total \<le> unat n \<Longrightarrow> \<exists>info \<in> set infos. kps_uuid info = as_bytes h) \<Longrightarrow>
      (\<And>h rec info. K h = Some rec \<Longrightarrow> info \<in> set infos \<Longrightarrow> kps_uuid info = as_bytes h \<Longrightarrow>
         \<exists>secs > 0. info = kps_key_info h (encode_to_vec E (spec_algo (spec (meta rec)))) (PublicKey_as_bytes (kem_public_key (spec (meta rec))))
            (PublicKey_as_bytes (binding_public_key (spec (meta rec)))) secs) \<Longrightarrow>
      ends (f (word_of_nat (length infos))) Q v"
  shows "ends (bindM (callM (key_manager_enumerate_kem_keys E 10 n 0 (Some 9))) f) Q w"
proof -
  note spec = testbedD [OF assms(1)]
  have p: "poised (kps_record E) k K w"
    using w by (simp add: bench_def)
  note granted = create_and_add_granted [OF assms(1) p]
  let ?all = "listing (clock w (ticks w)) w"
  let ?page = "take (unat n) ?all"
  let ?infos = "kem_infos E (clock w) (Suc (ticks w)) (map meta ?page)"
  have small: "length ?all \<le> k" "length ?all < 2 ^ 64"
    using listing_bounded [OF p, of "clock w (ticks w)"] assms(5) by simp_all
  have safe: "enumerate_safe 10 n es (Some 9) w"
    using bench_mem [OF w assms(3)] assms(4) by (simp add: enumerate_safe_def)
  let ?v = "snd (enumerate_kem_keys_body E 10 n 0 (Some 9) w)"
  have eq: "enumerate_kem_keys_body E 10 n 0 (Some 9) w = (Ok (word_of_nat (length ?page)), ?v)"
    and mem: "mem ?v = (mem w)(10 \<mapsto> Entries (?infos @ drop (length ?page) es), 9 \<mapsto> BoolCell (length ?page < length ?all))"
    using enumerate_kem_keys_body_eq [OF spec(5,2) granted(1,4) _ safe refl small(2) refl, of 0] by (simp_all add: is_null_def)
  have "poised (kps_record E) k K ?v"
    by (rule kps_reads_poised(3) [OF assms(1) p])
  then have v: "bench (kps_record E) k (M(10 \<mapsto> Entries (?infos @ drop (length ?infos) es), 9 \<mapsto> BoolCell (length ?infos < length ?all))) K ?v"
    using w mem by (auto simp: bench_def intro!: map_le_upd)
  have info: "\<exists>j < length ?page. info = kem_info E (clock w (Suc (ticks w) + j)) (meta (?page ! j))"
    if "info \<in> set ?infos" for info
    using that by (auto simp: kem_infos_def)
  have uuid: "kps_uuid (kem_info E t (meta rec)) = as_bytes (meta_id (meta rec))" if "kps_record E rec" for t rec
    using that by (simp add: kem_info_def kps_key_info_def KpsKeyInfo_default_def overwrite_def kps_record_def record_ok_def)
  have "ends (f (word_of_nat (length ?infos))) Q ?v"
  proof (rule assms(6) [OF v])
    show "length ?infos = min (unat n) (length ?all)" "length ?all \<le> k"
      using small by simp_all
    show "0 < length ?all" if ne: "K \<noteq> Map.empty"
    proof -
      obtain h rec where "K h = Some rec"
        using ne by (auto simp: fun_eq_iff)
      from listing_key_in [OF p this, of "ticks w"] show ?thesis
        by (auto intro: length_pos_if_in_set)
    qed
    show "\<exists>info \<in> set ?infos. kps_uuid info = as_bytes h" if key: "K h = Some rec" and "length ?all \<le> unat n" for h rec
    proof -
      have "rec \<in> set ?page"
        using listing_key_in [OF p key, of "ticks w"] that(2) by simp
      then obtain j where j: "j < length ?page" "?page ! j = rec"
        by (auto simp: in_set_conv_nth)
      have "kem_info E (clock w (Suc (ticks w) + j)) (meta rec) \<in> set ?infos"
        using j by (auto simp: kem_infos_def)
      moreover have "meta_id (meta rec) = h"
        by (rule poised_handle [OF p poised_key(1) [OF p key]])
      ultimately show ?thesis
        using uuid poised_key(5) [OF p key] by blast
    qed
    show "\<exists>secs > 0. info = kps_key_info h (encode_to_vec E (spec_algo (spec (meta rec)))) (PublicKey_as_bytes (kem_public_key (spec (meta rec))))
            (PublicKey_as_bytes (binding_public_key (spec (meta rec)))) secs"
      if key: "K h = Some rec" and listed: "info \<in> set ?infos" and "kps_uuid info = as_bytes h" for h rec info
    proof -
      obtain j where j: "j < length ?page" "info = kem_info E (clock w (Suc (ticks w) + j)) (meta (?page ! j))"
        using info [OF listed] by blast
      have "?page ! j \<in> set ?all"
        using j(1) by (meson in_set_takeD nth_mem)
      note entry = listing_handle [OF p this]
      have "as_bytes (meta_id (meta (?page ! j))) = as_bytes h"
        using that(3) uuid [OF entry(2)] j(2) by simp
      then have h: "meta_id (meta (?page ! j)) = h"
        by (simp add: uuid.expand)
      then have "?page ! j = rec"
        using entry(1) poised_key(1) [OF p key] by simp
      then show ?thesis
        using h j(2) kps_remaining_secs(1) [OF p key] by (auto simp: kem_info_def)
    qed
  qed
  then show ?thesis
    using ends_call_i32 [of "enumerate_kem_keys_body E 10 n 0 (Some 9)", OF eq, of f Q] by (simp add: key_manager_enumerate_kem_keys_def)
qed

section \<open>Lemmas: the tests pass\<close>

lemma create_internal_passes:
  assumes "testbed E"
  shows "passes (kps_record E) (test_create_kem_key_success_and_zeroization E)"
proof (rule passesI)
  fix k and w :: "KpsKeyInfo world" assume "bench (kps_record E) k Map.empty Map.empty w"
  then have w: "poised (kps_record E) k Map.empty w"
    by (simp add: bench_def)
  note spec = testbedD [OF assms]
  let ?mk = "\<lambda>a pk. KemWithBindingPub a pk (X25519_public (X25519PublicKey (replicate 32 1)))"
  obtain h pk v where gen: "create_and_add E fuzz_algorithm (Duration_from_secs 3600) ?mk w = (Ok (h, pk), v)"
    using create_and_add_total [OF spec(2,6) create_and_add_granted(1) [OF assms w] algorithm_decodes(3) [OF spec(5)]]
      create_and_add_granted(2,3,5) [OF assms w] by blast
  obtain i rec where v: "h = Uuid i" "i \<noteq> replicate 16 0" "poised (kps_record E) (Suc k) (Map.empty(h \<mapsto> rec)) v"
  proof (rule create_and_add_poised [OF assms w _ _ _ gen])
    show "kps_record E r" if "record_ok E r" "spec (meta r) = ?mk fuzz_algorithm x" for r x
      using that by (simp add: kps_record_def)
  qed (auto simp: own_public_key_def)
  have "generate_kem_keypair_internal E fuzz_algorithm (X25519_public (X25519PublicKey (replicate 32 1))) 3600 w = (Ok (h, pk), v)"
    using gen suite_supported_kem [OF algorithm_decodes(3) [OF spec(5)]]
    by (simp add: generate_kem_keypair_internal_eq [OF spec(2)])
  moreover have "ends (with_cleanup E h (assertM (as_bytes h \<noteq> replicate 16 0))) (clean (kps_record E) (Suc k)) v"
    by (rule ends_cleanup [OF assms], rule ends_last [of _ "Suc k" Map.empty]) (use v in \<open>simp_all add: bench_def\<close>)
  ultimately show "ends (test_create_kem_key_success_and_zeroization E) (clean (kps_record E) (Suc k)) w"
    unfolding test_create_kem_key_success_and_zeroization_def
    by (intro ends_unwrap [of _ w "X25519_public (X25519PublicKey (replicate 32 1))" w] ends_unwrap [of _ w "(h, pk)" v])
      (simp_all add: PublicKey_try_from_eq)
qed

lemma generate_passes:
  assumes "testbed E"
  shows "passes (kps_record E) (test_generate_kem_keypair_ffi_success E)"
    and "passes (kps_record E) (test_generate_kem_keypair_invalid_pubkey_len E)"
    and "passes (kps_record E) (test_generate_kem_keypair_null_binding_key E)"
    and "passes (kps_record E) (test_generate_kem_keypair_empty_binding_key_len E)"
  subgoal
    unfolding test_generate_kem_keypair_ffi_success_def
    by (rule passesI, rule ends_kps_generate [OF assms], assumption, simp, rule ends_assert, simp,
        rule ends_reads(1), assumption, simp, rule ends_cleanup [OF assms], rule ends_assert, simp,
        rule ends_reads(1), assumption, simp, rule ends_assert, simp, rule ends_last, assumption) simp_all
  subgoal
    unfolding test_generate_kem_keypair_invalid_pubkey_len_def
    by (rule passesI, rule ends_kps_generate_rejected [OF assms], assumption, simp, rule ends_assert, simp,
        rule ends_reads(1), assumption, simp, rule ends_assert, simp, rule ends_reads(1), assumption, simp,
        rule ends_last, assumption) simp_all
  subgoal
    unfolding test_generate_kem_keypair_null_binding_key_def Let_def
    by (rule passesI, (rule ends_array, assumption)+, rule ends_kps_generate_fails, assumption,
        simp add: generate_kem_keypair_body_def is_null_def errM_def, rule ends_last, assumption) simp_all
  subgoal
    unfolding test_generate_kem_keypair_empty_binding_key_len_def Let_def
    by (rule passesI, (rule ends_array, assumption)+, rule ends_kps_generate_fails, assumption,
        simp add: generate_kem_keypair_body_def is_null_def errM_def, rule ends_last, assumption) simp_all
  done

lemma generate_invalid_algo_passes:
  assumes "testbed E"
  shows "passes (kps_record E) (test_generate_kem_keypair_invalid_algo E)"
proof -
  have "generate_kem_keypair_body E 1 2 4 32 3600 2 3 32 w = (Err InvalidArgument, w)"
    if w: "bench P k (M(4 \<mapsto> Bytes (replicate 32 1), 2 \<mapsto> Bytes (replicate 16 0), 3 \<mapsto> Bytes (replicate 32 0),
        1 \<mapsto> Bytes [0xFF, 0xFF])) K w" for P k M K and w :: "KpsKeyInfo world"
  proof -
    have "mem w 4 = Some (Bytes (replicate 32 1))" "mem w 2 = Some (Bytes (replicate 16 0))" "mem w 3 = Some (Bytes (replicate 32 0))"
      "mem w 1 = Some (Bytes [0xFF, 0xFF])"
      using bench_mem [OF w] by simp_all
    then show ?thesis
      using testbedD(12) [OF assms]
      by (subst generate_kem_keypair_body_eq)
        (simp_all add: generate_kem_present_def generate_kem_safe_def is_null_def valid_buf_def buf_def)
  qed
  note rejected = this
  show ?thesis
    unfolding test_generate_kem_keypair_invalid_algo_def
    by (rule passesI, (rule ends_array, assumption)+, rule ends_kps_generate_fails, assumption, erule rejected, rule ends_assert, simp,
        rule ends_reads(1), assumption, simp, rule ends_last, assumption) simp_all
qed

lemma destroy_passes:
  assumes "testbed E"
  shows "passes (kps_record E) (test_destroy_kem_key_success E)"
    and "passes (kps_record E) (test_destroy_kem_key_not_found E)"
    and "passes (kps_record E) (test_destroy_kem_key_null_ptr E)"
  subgoal
    unfolding test_destroy_kem_key_success_def
    by (rule passesI, rule ends_kps_generate [OF assms], assumption, simp, rule ends_assert, simp,
        rule ends_reads(1), assumption, simp, rule ends_cleanup [OF assms],
        rule ends_kps_destroy [OF assms], assumption, simp, simp, simp, rule ends_assert, simp,
        rule ends_kps_destroy [OF assms], assumption, simp, simp, simp, rule ends_last, assumption) simp_all
  subgoal
    unfolding test_destroy_kem_key_not_found_def
    by (rule passesI, rule ends_array, assumption, rule ends_kps_destroy [OF assms], assumption, simp,
        rule bench_unknown, assumption, simp add: not_v4, simp, rule ends_last, assumption) simp_all
  subgoal
    unfolding test_destroy_kem_key_null_ptr_def key_manager_destroy_kem_key_def
    by (rule passesI, rule ends_call_err, assumption, simp add: destroy_kem_key_body_def is_null_def errM_def, simp,
        simp add: bench_def, rule ends_last, assumption) simp_all
  done

text \<open>Lookups of handles that were never drawn, and calls that are rejected.\<close>

lemma lookup_unknown:
  assumes "testbed E" and w: "bench (kps_record E) k M K w" and "is_arr M 2 16" and "\<not> is_v4 (Uuid (arr M 2))"
  shows "is_arr M 5 32 \<Longrightarrow> is_arr M 7 32 \<Longrightarrow> is_arr M 8 48 \<Longrightarrow> fst (decap_and_seal_body E 2 5 32 0 0 7 32 8 48 w) = Err NotFound"
    and "is_arr M 5 32 \<Longrightarrow> is_arr M 6 32 \<Longrightarrow> is_arr M 7 128 \<Longrightarrow> M 8 = Some (UsizeCell 128) \<Longrightarrow> M 9 = Some (U64Cell 0) \<Longrightarrow>
      fst (get_kem_key_body E 2 5 32 6 32 7 8 9 w) = Err NotFound"
proof -
  have "poised (kps_record E) k K w"
    using w by (simp add: bench_def)
  note granted = create_and_add_granted [OF assms(1) this]
  have found: "contents w (Uuid (buf 2 16 w)) = None" and uuid: "valid_buf 2 16 w"
    using bench_unknown [OF w assms(4)] is_arrD(5,6) [OF w assms(3), of 16] by simp_all
  show "fst (decap_and_seal_body E 2 5 32 0 0 7 32 8 48 w) = Err NotFound"
    if "is_arr M 5 32" "is_arr M 7 32" "is_arr M 8 48"
    using found uuid is_arrD(5) [OF w that(1), of 32] is_arrD(5) [OF w that(2), of 32] is_arrD(5) [OF w that(3), of 48]
    by (subst decap_and_seal_body_eq [OF granted(1,4) _ _ refl])
      (simp_all add: decap_present_def decap_safe_def is_null_def)
  show "fst (get_kem_key_body E 2 5 32 6 32 7 8 9 w) = Err NotFound"
    if "is_arr M 5 32" "is_arr M 6 32" "is_arr M 7 128" "M 8 = Some (UsizeCell 128)" "M 9 = Some (U64Cell 0)"
    using found uuid is_arrD(5) [OF w that(1), of 32] is_arrD(5) [OF w that(2), of 32] is_arrD(5) [OF w that(3), of 128]
      bench_mem [OF w that(4)] bench_mem [OF w that(5)]
    by (subst get_kem_key_body_eq [OF granted(1,4) _ _ refl])
      (simp_all add: get_kem_present_def get_kem_safe_def is_null_def)
qed

lemma lookup_passes:
  assumes "testbed E"
  shows "passes (kps_record E) (test_decap_and_seal_invalid_uuid E)"
    and "passes (kps_record E) (test_decap_and_seal_null_args E)"
    and "passes (kps_record E) (test_get_kem_key_not_found E)"
    and "passes (kps_record E) (test_get_kem_key_success E)"
  subgoal
    unfolding test_decap_and_seal_invalid_uuid_def
    by (rule passesI, (rule ends_array, assumption)+, rule ends_kps_decap_fails [OF assms], assumption,
        rule lookup_unknown(1) [OF assms], assumption, simp, simp add: not_v4, simp, simp, simp, rule ends_last, assumption) simp_all
  subgoal
    unfolding test_decap_and_seal_null_args_def
    by (rule passesI, rule ends_array, assumption, rule ends_kps_decap_fails [OF assms], assumption,
        simp add: decap_and_seal_body_def is_null_def errM_def, rule ends_last, assumption) simp_all
  subgoal
    unfolding test_get_kem_key_not_found_def kps_get_buffers_def bindM_assoc
    by (rule passesI, (rule ends_array ends_store, assumption)+, rule ends_kps_get_fails [OF assms], assumption,
        rule lookup_unknown(2) [OF assms], assumption, simp, simp add: not_v4, simp, simp, simp, simp, simp, rule ends_last, assumption) simp_all
  subgoal
    unfolding test_get_kem_key_success_def kps_get_buffers_def bindM_assoc
    by (rule passesI, rule ends_kps_generate [OF assms], assumption, simp, rule ends_assert, simp,
        rule ends_reads(1), assumption, simp, rule ends_cleanup [OF assms], (rule ends_array ends_store, assumption)+,
        rule ends_kps_get [OF assms], assumption, simp, simp, simp, simp, simp, simp, simp, simp, simp, simp,
        rule ends_assert, simp, rule ends_reads(1), assumption, simp, rule ends_reads(1), assumption, simp, rule ends_assert, simp,
        rule ends_reads(1), assumption, simp, rule ends_assert, simp, rule ends_reads(1), assumption, simp,
        rule ends_reads(2), assumption, simp, rule ends_slice, simp add: algorithm_len [OF testbedD(5) [OF assms]],
        rule ends_assert, simp add: algorithm_len [OF testbedD(5) [OF assms]],
        rule ends_reads(3), assumption, simp, rule ends_assert, simp, rule ends_last, assumption) simp_all
  done

text \<open>Decapsulation by a key of the test.\<close>

lemma key_pair_bytes: "key_pair E n = (pk, sk) \<Longrightarrow> X25519_public (X25519PublicKey (PublicKey_as_bytes pk)) = fst (key_pair E n)"
  by (auto simp: key_pair_def)

lemma decap_rejected:
  assumes "testbed E" and w: "bench (kps_record E) k M K w" and key: "K (Uuid (arr M 2)) = Some rec" and arr2: "is_arr M 2 16"
    and sp: "spec (meta rec) = KemWithBindingPub fuzz_algorithm pk (X25519_public (X25519PublicKey (PublicKey_as_bytes bpk)))"
    and bpk: "key_pair E n = (bpk, bsk)"
  shows "is_arr M 5 31 \<Longrightarrow> is_arr M 7 32 \<Longrightarrow> is_arr M 8 48 \<Longrightarrow> fst (decap_and_seal_body E 2 5 31 0 0 7 32 8 48 w) = Err DecapsulationFailure"
    and "is_arr M 5 32 \<Longrightarrow> is_arr M 7 31 \<Longrightarrow> is_arr M 8 47 \<Longrightarrow>
      (\<And>i. compute_shared_key E (snd (Kem_generate_keypair E X25519HkdfSha256_Kem i)) (arr M 5) \<noteq> None) \<Longrightarrow>
      fst (decap_and_seal_body E 2 5 32 0 0 7 31 8 47 w) = Err InvalidArgument"
proof -
  note spec = testbedD [OF assms(1)]
  note found = kps_test_key [OF assms(1) w arr2 key]
  obtain i where sk: "get_private_key rec = PrivateKey_from (SecretBox (snd (Kem_generate_keypair E X25519HkdfSha256_Kem i)))"
    using found(2) by (auto simp: kps_record_def record_ok_def key_pair_def dest: sym)
  have len: "length (snd (Kem_generate_keypair E X25519HkdfSha256_Kem i)) = 32"
    by (rule length_keypair_private [OF spec(2)])
  show "fst (decap_and_seal_body E 2 5 31 0 0 7 32 8 48 w) = Err DecapsulationFailure"
    if "is_arr M 5 31" "is_arr M 7 32" "is_arr M 8 48"
    using found(1) [of "ticks w"] found(3) is_arrD [OF w that(1)] is_arrD(5) [OF w that(2), of 32] is_arrD(5) [OF w that(3), of 48] len
    by (subst decap_and_seal_body_eq [OF found(4,5) _ _ refl])
      (simp_all add: decap_present_def decap_safe_def is_null_def reseal_def bindM_def sk decaps_def decaps_internal_def
        PrivateKey_from_def x25519_decaps_internal_rfc)
  show "fst (decap_and_seal_body E 2 5 32 0 0 7 31 8 47 w) = Err InvalidArgument"
    if arrs: "is_arr M 5 32" "is_arr M 7 31" "is_arr M 8 47"
      and dh: "\<And>i. compute_shared_key E (snd (Kem_generate_keypair E X25519HkdfSha256_Kem i)) (arr M 5) \<noteq> None"
  proof -
    let ?v = "looked_up (Uuid (buf 2 16 w)) w"
    obtain dh where "compute_shared_key E (snd (Kem_generate_keypair E X25519HkdfSha256_Kem i)) (arr M 5) = Some dh"
      using dh by blast
    then obtain ss where dec: "decaps E (get_private_key rec) (arr M 5) ?v = (Ok ss, ?v)"
      using is_arrD(2) [OF w arrs(1)] len expand_exists [OF spec(8)]
      by (fastforce simp: sk decaps_def decaps_internal_def PrivateKey_from_def x25519_decaps_internal_rfc
          rfc_ExtractAndExpand_def rfc_LabeledExpand_def Let_def split: option.splits)
    obtain enc ct v where seal: "hpke_seal E (fst (key_pair E n)) ss [] fuzz_algorithm ?v = (Ok (enc, ct), v)" and "length enc = 32"
      using hpke_seal_total [OF spec(2) algorithm_decodes(3) [OF spec(5)], of n ss "[]" ?v] by blast
    then show ?thesis
      using found(1) [of "ticks w"] found(3) is_arrD [OF w arrs(1)] is_arrD(5) [OF w arrs(2), of 31] is_arrD(5) [OF w arrs(3), of 47] sp key_pair_bytes [OF bpk] dec
      by (subst decap_and_seal_body_eq [OF found(4,5) _ _ refl])
        (simp_all add: decap_present_def decap_safe_def is_null_def reseal_def bindM_def errM_def aad_buf_def)
  qed
qed

lemma kps_test_pair:
  assumes "bench (kps_record E) k M K w" and "spec (meta rec) = KemWithBindingPub a pk b" and "rec \<in> ran K"
  obtains n sk where "key_pair E n = (pk, sk)"
proof -
  obtain h where "K h = Some rec"
    using assms(3) by (auto simp: ran_def)
  then have "kps_record E rec"
    using assms(1) poised_key(5) by (auto simp: bench_def)
  then show thesis
    using that assms(2) by (auto simp: kps_record_def record_ok_def own_public_key_def)
qed

lemma ends_kps_encap:
  assumes "testbed E" and "bench (kps_record E) k M K w" and "spec (meta rec) = KemWithBindingPub a pk b" and "rec \<in> ran K"
    and "\<And>v ss enc. bench (kps_record E) k M K v \<Longrightarrow> length enc = 32 \<Longrightarrow> encap E pk w = (Ok (ss, enc), v) \<Longrightarrow> ends (f (ss, enc)) Q v"
  shows "ends (bindM (unwrapM (encap E pk)) f) Q w"
proof -
  obtain n sk where "key_pair E n = (pk, sk)"
    by (rule kps_test_pair [OF assms(2-4)])
  then show ?thesis
    by (rule ends_encap [OF assms(1,2)]) (rule assms(5))
qed

lemma ends_kps_seal:
  assumes "testbed E" and "bench (kps_record E) k M K (w :: 'e world)" and "spec (meta rec) = KemWithBindingPub a pk b" and "rec \<in> ran K"
    and "\<And>v enc ct. bench (kps_record E) k M K v \<Longrightarrow> length enc = 32 \<Longrightarrow>
      (\<And>i. compute_shared_key E (snd (Kem_generate_keypair E X25519HkdfSha256_Kem i)) enc \<noteq> None) \<Longrightarrow> ends (f (enc, ct)) Q v"
  shows "ends (bindM (unwrapM (hpke_seal E pk pt aad fuzz_algorithm)) f) Q w"
proof -
  obtain n sk where "key_pair E n = (pk, sk)"
    by (rule kps_test_pair [OF assms(2-4)])
  then show ?thesis
    by (rule ends_seal [OF assms(1,2)]) (rule assms(5))
qed

lemma decap_passes:
  assumes "testbed E"
  shows "passes (kps_record E) (test_decap_and_seal_decaps_fail E)"
    and "passes (kps_record E) (test_decap_and_seal_buffer_too_small E)"
    and "passes (kps_record E) (test_decap_and_seal_success E)"
  subgoal
    unfolding test_decap_and_seal_decaps_fail_def
    by (rule passesI, rule ends_generate_keypair [OF assms], assumption, simp only: prod.case,
        rule ends_kps_generate [OF assms], assumption, assumption, rule ends_assert, simp,
        rule ends_reads(1), assumption, simp, rule ends_cleanup [OF assms], (rule ends_array, assumption)+,
        rule ends_kps_decap_fails [OF assms], assumption, rule decap_rejected(1) [OF assms], assumption, simp, simp,
        assumption, assumption, simp, simp, simp, rule ends_last, assumption) simp_all
  subgoal
    unfolding test_decap_and_seal_buffer_too_small_def
    by (rule passesI, rule ends_generate_keypair [OF assms], assumption, simp only: prod.case,
        rule ends_kps_generate [OF assms], assumption, assumption, rule ends_assert, simp,
        rule ends_reads(1), assumption, simp, rule ends_cleanup [OF assms], rule ends_reads(1), assumption, simp,
        rule ends_public_key, simp, rule ends_kps_seal [OF assms], assumption, assumption, simp, simp only: prod.case,
        (rule ends_array, assumption)+,
        simp (no_asm_simp), rule ends_kps_decap_fails [OF assms], assumption, rule decap_rejected(2) [OF assms], assumption, simp, simp,
        assumption, assumption, simp, simp, simp, simp, rule ends_last, assumption) simp_all
  subgoal
    unfolding test_decap_and_seal_success_def
    by (rule passesI, rule ends_generate_keypair [OF assms], assumption, simp only: prod.case,
        rule ends_kps_generate [OF assms], assumption, assumption,
        rule ends_reads(1), assumption, simp, rule ends_cleanup [OF assms], rule ends_array, assumption, rule ends_reads(1), assumption, simp,
        rule ends_public_key, simp, rule ends_kps_encap [OF assms], assumption, assumption, simp, simp only: prod.case,
        (rule ends_array, assumption)+,
        simp (no_asm_simp), rule ends_kps_decap [OF assms], assumption, simp, simp, simp, simp add: byte_string_def, simp, simp,
       assumption, assumption, assumption, simp, simp, rule ends_assert, simp, rule ends_reads(1), assumption, simp,
       rule ends_reads(1), assumption, simp, rule ends_unwrap, assumption, rule ends_assert, simp, rule ends_last, assumption) simp_all
  done

lemma kem_entry_checked:
  assumes "testbed E" and "e = kps_key_info h (encode_to_vec E fuzz_algorithm) pk b secs" and "length pk = 32" and "0 < secs"
  shows "bindM (slice_to (unat (kps_algorithm_len e)) (kps_algorithm e)) (\<lambda>encoded_algo.
           bindM (unwrapM (ok_orM (HpkeAlgorithm_decode E encoded_algo) InvalidArgument))
       (\<lambda>decoded_algo. bindM (assertM (kem decoded_algo = kem_as_i32 DhkemX25519HkdfSha256)) (\<lambda>_.
       bindM (assertM (kps_pub_key_len e = 32)) (\<lambda>_. assertM (kps_remaining_lifespan_secs e > 0))))) w = (Ok (), w)"
proof -
  note prost = testbedD(5) [OF assms(1)]
  have "take (unat (kps_algorithm_len e)) (kps_algorithm e) = encode_to_vec E fuzz_algorithm"
    "unat (kps_algorithm_len e) \<le> length (kps_algorithm e)"
    by (simp_all add: assms(2) kps_key_info_def overwrite_def algorithm_len [OF prost])
  then show ?thesis
    using assms(2-4) algorithm_decodes(1) [OF prost]
    by (simp add: bindM_def slice_to_def unwrapM_def ok_orM_def assertM_def returnM_def kps_key_info_def fuzz_algorithm_def)
qed

text \<open>The search of a test finds its key.\<close>

lemma ends_kem_scan:
  assumes "testbed E" and len: "length infos = min (unat (100 :: usize)) tot" "tot \<le> k" "k \<le> 30"
    and found: "\<And>h rec. K h = Some rec \<Longrightarrow> tot \<le> unat (100 :: usize) \<Longrightarrow> \<exists>info \<in> set infos. kps_uuid info = as_bytes h"
    and info: "\<And>h rec info. K h = Some rec \<Longrightarrow> info \<in> set infos \<Longrightarrow> kps_uuid info = as_bytes h \<Longrightarrow>
         \<exists>secs > 0. info = kps_key_info h (encode_to_vec E (spec_algo (spec (meta rec)))) (PublicKey_as_bytes (kem_public_key (spec (meta rec))))
            (PublicKey_as_bytes (binding_public_key (spec (meta rec)))) secs"
    and key: "K (Uuid uid) = Some rec" "spec (meta rec) = KemWithBindingPub fuzz_algorithm (X25519_public (X25519PublicKey bs)) b" "length bs = 32"
    and "ends (f True) Q w"
  shows "ends (bindM (scan_entries (\<lambda>e. kps_uuid e = uid) (\<lambda>e.
           bindM (slice_to (unat (kps_algorithm_len e)) (kps_algorithm e)) (\<lambda>encoded_algo.
           bindM (unwrapM (ok_orM (HpkeAlgorithm_decode E encoded_algo) InvalidArgument))
             (\<lambda>decoded_algo.
           bindM (assertM (kem decoded_algo = kem_as_i32 DhkemX25519HkdfSha256)) (\<lambda>_.
           bindM (assertM (kps_pub_key_len e = 32)) (\<lambda>_.
           assertM (kps_remaining_lifespan_secs e > 0))))))
         (unat (scast (word_of_nat (length infos) :: i32) :: usize)) (infos @ rest)) f) Q w"
proof (rule ends_scan)
  have n: "unat (scast (word_of_nat (length infos) :: i32) :: usize) = length infos"
    by (rule small_i32(2)) (use len in simp)
  show "\<exists>e \<in> set (take (unat (scast (word_of_nat (length infos) :: i32) :: usize)) (infos @ rest)). kps_uuid e = uid"
    unfolding n using found [OF key(1)] len by simp
  show "unat (scast (word_of_nat (length infos) :: i32) :: usize) \<le> length (infos @ rest)"
    by (simp add: n)
  fix e assume "e \<in> set (take (unat (scast (word_of_nat (length infos) :: i32) :: usize)) (infos @ rest))" "kps_uuid e = uid"
  then obtain secs where "0 < secs" "e = kps_key_info (Uuid uid) (encode_to_vec E fuzz_algorithm) bs (PublicKey_as_bytes b) secs"
    using info [OF key(1), of e] key(2) by (auto simp: n)
  then show "bindM (slice_to (unat (kps_algorithm_len e)) (kps_algorithm e)) (\<lambda>encoded_algo.
           bindM (unwrapM (ok_orM (HpkeAlgorithm_decode E encoded_algo) InvalidArgument))
       (\<lambda>decoded_algo. bindM (assertM (kem decoded_algo = kem_as_i32 DhkemX25519HkdfSha256)) (\<lambda>_.
       bindM (assertM (kps_pub_key_len e = 32)) (\<lambda>_. assertM (kps_remaining_lifespan_secs e > 0))))) w = (Ok (), w)"
    by (intro kem_entry_checked [OF assms(1) _ key(3)])
qed (fact assms)

lemma enumerate_passes:
  assumes "testbed E"
  shows "passes (kps_record E) (test_enumerate_kem_keys_null_pointers E)"
    and "passes (kps_record E) (test_enumerate_kem_keys_has_more E)"
    and "passes (kps_record E) (test_enumerate_kem_keys_after_generate E)"
  subgoal
    unfolding test_enumerate_kem_keys_null_pointers_def key_manager_enumerate_kem_keys_def
    by (rule passesI,
        rule ends_call_i32_err, assumption, simp add: enumerate_kem_keys_body_def is_null_def errM_def, rule ends_last, assumption) simp_all
  subgoal
    unfolding test_enumerate_kem_keys_has_more_def
    by (rule passesI, rule ends_kps_generate [OF assms], assumption, simp,
        rule ends_reads(1), assumption, simp, rule ends_cleanup [OF assms], (rule ends_store, assumption)+,
        rule ends_kps_enumerate [OF assms], assumption, simp, simp, simp,
        rule ends_assert, simp, rule ends_reads(4), assumption, simp, rule ends_assert, simp, rule ends_store, assumption,
        rule ends_kps_enumerate [OF assms], assumption, simp, simp, simp,
        rule ends_assert, simp add: small_i32, rule ends_reads(4), assumption, simp, rule ends_last, assumption) simp_all
  subgoal
    unfolding test_enumerate_kem_keys_after_generate_def
    by (rule passesI, rule ends_kps_generate [OF assms], assumption, simp, rule ends_assert, simp,
        rule ends_reads(1), assumption, simp, rule ends_cleanup [OF assms], (rule ends_store, assumption)+,
        rule ends_kps_enumerate [OF assms], assumption, simp, simp, simp, rule ends_assert, simp add: small_i32,
        rule ends_reads(5), assumption, simp,
        rule ends_kem_scan [OF assms], assumption, assumption, simp, assumption, assumption, simp, assumption, simp,
       rule ends_last, assumption) simp_all
  done

section \<open>The suite\<close>

text \<open>All tests but \<^verbatim>\<open>test_get_kem_key_invalid_buffer_len\<close>, which is treated below.\<close>

definition kps_tests :: "('s, 'r, 'p) env \<Rightarrow> (Status, KpsKeyInfo world, unit) rust list" where
  "kps_tests E =
     [test_create_kem_key_success_and_zeroization E, test_generate_kem_keypair_ffi_success E,
      test_generate_kem_keypair_invalid_algo E, test_generate_kem_keypair_invalid_pubkey_len E,
      test_generate_kem_keypair_null_binding_key E, test_generate_kem_keypair_empty_binding_key_len E,
      test_destroy_kem_key_success E, test_destroy_kem_key_not_found E, test_destroy_kem_key_null_ptr E,
      test_enumerate_kem_keys_null_pointers E, test_enumerate_kem_keys_after_generate E, test_enumerate_kem_keys_has_more E,
      test_decap_and_seal_success E, test_decap_and_seal_invalid_uuid E, test_decap_and_seal_null_args E,
      test_decap_and_seal_decaps_fail E, test_decap_and_seal_buffer_too_small E,
      test_get_kem_key_success E, test_get_kem_key_not_found E]"

lemma kps_tests_pass: "testbed E \<Longrightarrow> list_all (passes (kps_record E)) (kps_tests E)"
  by (simp add: kps_tests_def create_internal_passes generate_passes generate_invalid_algo_passes destroy_passes lookup_passes
      decap_passes enumerate_passes)

text \<open>
  The last test passes a length of 33 for an array of 32 bytes. \<^verbatim>\<open>slice::from_raw_parts_mut\<close> makes a slice that is longer
  than the object, before any length is compared.
\<close>

lemma get_kem_rejected:
  assumes "testbed E" and w: "bench (kps_record E) k M K w" and key: "K (Uuid (arr M 2)) = Some rec" and arr2: "is_arr M 2 16"
    and arrs: "is_arr M 5 32" "is_arr M 6 32" "is_arr M 7 128" and cells: "M 8 = Some (UsizeCell 128)" "M 9 = Some (U64Cell 0)"
    and "spec (meta rec) = KemWithBindingPub fuzz_algorithm (X25519_public (X25519PublicKey bs)) b" and "length bs = 32"
  shows "fst (get_kem_key_body E 2 5 31 6 32 7 8 9 w) = Err InvalidArgument"
proof -
  note found = kps_test_key [OF assms(1) w arr2 key]
  show ?thesis
    using found(1) [of "ticks w"] found(3) is_arrD(5) [OF w arrs(1), of 31] is_arrD(5) [OF w arrs(2), of 32] is_arrD(5) [OF w arrs(3), of 128]
      bench_mem [OF w cells(1)] bench_mem [OF w cells(2)] assms(10,11)
    by (subst get_kem_key_body_eq [OF found(4,5) _ _ refl])
      (simp_all add: get_kem_present_def get_kem_safe_def is_null_def Let_def)
qed

lemma get_kem_overlong:
  assumes w: "bench P k M K w" and "is_arr M 2 16" and "is_arr M 5 32" and "is_arr M 6 32"
  shows "fst (get_kem_key_body E 2 5 32 6 33 7 8 9 w) = Undefined"
proof -
  have "valid_buf 2 16 w" "valid_buf 5 32 w"
    using is_arrD(5) [OF w assms(2), of 16] is_arrD(5) [OF w assms(3), of 32] by simp_all
  moreover have "from_raw_parts_mut 6 33 w = (Undefined, w)"
    using is_arrD(1,2) [OF w assms(4)] by (simp add: from_raw_parts_mut_def from_raw_parts_def bindM_def)
  ultimately show ?thesis
    by (simp add: get_kem_key_body_def is_null_def bindM_def from_raw_parts_valid from_raw_parts_mut_valid)
qed

lemma invalid_buffer_undefined:
  assumes "testbed E" and "bench (kps_record E) k Map.empty Map.empty w"
  shows "ends (test_get_kem_key_invalid_buffer_len E) (\<lambda>r _. r = Undefined) w"
  unfolding test_get_kem_key_invalid_buffer_len_def kps_get_buffers_def bindM_assoc
  by (rule ends_kps_generate [OF assms], simp, rule ends_assert, simp, rule ends_reads(1), assumption, simp,
      rule ends_cleanup_undefined, (rule ends_array ends_store, assumption)+, rule ends_kps_get_fails [OF assms(1)], assumption,
      rule get_kem_rejected [OF assms(1)], assumption, simp, simp, simp, simp, simp, simp, simp, assumption, assumption,
      rule ends_assert, simp, unfold key_manager_get_kem_key_def, rule ends_call_undefined, rule get_kem_overlong, assumption) simp_all

end
