(* ===== verification/Ws_Tests.thy ===== *)
theory Ws_Tests
  imports Test_Harness
begin

text \<open>
  The unit tests of the workload core, \<^verbatim>\<open>mod tests\<close> of \<^verbatim>\<open>workload_service/key_custody_core/src/lib.rs\<close>, one definition for
  each. The arrays of a test are at fixed addresses: the encoded suite at 1, the handle at 2, the public key at 3, and the
  rest from 5 on.
\<close>

section \<open>Tests\<close>

definition ws_test_generate :: "('s, 'r, 'p) env \<Rightarrow> nat \<Rightarrow> (Status, WsKeyInfo world, Status) rust" where
  "ws_test_generate E pubkey_len =
     bindM (array 2 (replicate 16 0)) (\<lambda>_.
     bindM (array 3 (replicate pubkey_len 0)) (\<lambda>_.
     let algo_bytes = encode_to_vec E fuzz_algorithm in
     bindM (array 1 algo_bytes) (\<lambda>_.
     callM (key_manager_generate_binding_keypair E 1 (word_of_nat (length algo_bytes)) 3600 2 3 (word_of_nat pubkey_len)))))"

definition test_create_binding_keypair_internal_success :: "('s, 'r, 'p) env \<Rightarrow> (Status, WsKeyInfo world, unit) rust" where
  "test_create_binding_keypair_internal_success E =
     bindM (unwrapM (generate_binding_keypair_internal E fuzz_algorithm 3600)) (\<lambda>(id, _).
     with_cleanup E id (assertM (as_bytes id \<noteq> replicate 16 0)))"

definition test_generate_binding_keypair_ffi_success :: "('s, 'r, 'p) env \<Rightarrow> (Status, WsKeyInfo world, unit) rust" where
  "test_generate_binding_keypair_ffi_success E =
     bindM (ws_test_generate E 32) (\<lambda>result.
     bindM (assertM (result = Success)) (\<lambda>_.
     bindM (read_array 2) (\<lambda>uuid_bytes.
     with_cleanup E (Uuid uuid_bytes) (
       bindM (assertM (uuid_bytes \<noteq> replicate 16 0)) (\<lambda>_.
       bindM (read_array 3) (\<lambda>pubkey_bytes.
       bindM (assertM (length pubkey_bytes = 32)) (\<lambda>_.
       assertM (take 32 pubkey_bytes \<noteq> replicate 32 0))))))))"

definition test_generate_binding_keypair_invalid_algo :: "('s, 'r, 'p) env \<Rightarrow> (Status, WsKeyInfo world, unit) rust" where
  "test_generate_binding_keypair_invalid_algo E =
     bindM (array 2 (replicate 16 0)) (\<lambda>_.
     bindM (array 3 (replicate 32 0)) (\<lambda>_.
     bindM (array 1 [0xFF, 0xFF]) (\<lambda>_.
     bindM (callM (key_manager_generate_binding_keypair E 1 2 3600 2 3 32)) (\<lambda>result.
     bindM (assertM (result = InvalidArgument)) (\<lambda>_.
     bindM (read_array 2) (\<lambda>uuid_bytes.
     assertM (uuid_bytes = replicate 16 0)))))))"

definition test_generate_binding_keypair_null_uuid_ptr :: "('s, 'r, 'p) env \<Rightarrow> (Status, WsKeyInfo world, unit) rust" where
  "test_generate_binding_keypair_null_uuid_ptr E =
     (let algo_bytes = encode_to_vec E fuzz_algorithm in
      bindM (array 1 algo_bytes) (\<lambda>_.
      bindM (callM (key_manager_generate_binding_keypair E 1 (word_of_nat (length algo_bytes)) 3600 0 0 0)) (\<lambda>result.
      assertM (result = InvalidArgument))))"

definition test_generate_binding_keypair_invalid_pubkey_len :: "('s, 'r, 'p) env \<Rightarrow> (Status, WsKeyInfo world, unit) rust" where
  "test_generate_binding_keypair_invalid_pubkey_len E =
     bindM (ws_test_generate E 64) (\<lambda>result.
     bindM (assertM (result = InvalidArgument)) (\<lambda>_.
     bindM (read_array 2) (\<lambda>uuid_bytes.
     bindM (assertM (uuid_bytes = replicate 16 0)) (\<lambda>_.
     bindM (read_array 3) (\<lambda>pubkey_bytes.
     assertM (take 32 pubkey_bytes = replicate 32 0))))))"

definition test_destroy_binding_key_success :: "('s, 'r, 'p) env \<Rightarrow> (Status, WsKeyInfo world, unit) rust" where
  "test_destroy_binding_key_success E =
     bindM (ws_test_generate E 32) (\<lambda>res.
     bindM (assertM (res = Success)) (\<lambda>_.
     bindM (read_array 2) (\<lambda>uuid_bytes.
     with_cleanup E (Uuid uuid_bytes) (
       bindM (callM (key_manager_destroy_binding_key E 2)) (\<lambda>result.
       bindM (assertM (result = Success)) (\<lambda>_.
       bindM (callM (key_manager_destroy_binding_key E 2)) (\<lambda>result.
       assertM (result = NotFound))))))))"

definition test_destroy_binding_key_not_found :: "('s, 'r, 'p) env \<Rightarrow> (Status, WsKeyInfo world, unit) rust" where
  "test_destroy_binding_key_not_found E =
     bindM (array 2 (replicate 16 0)) (\<lambda>_.
     bindM (callM (key_manager_destroy_binding_key E 2)) (\<lambda>result.
     assertM (result = NotFound)))"

definition test_destroy_binding_key_null_ptr :: "('s, 'r, 'p) env \<Rightarrow> (Status, WsKeyInfo world, unit) rust" where
  "test_destroy_binding_key_null_ptr E =
     bindM (callM (key_manager_destroy_binding_key E 0)) (\<lambda>result. assertM (result = InvalidArgument))"

definition test_key_manager_open_success :: "('s, 'r, 'p) env \<Rightarrow> (Status, WsKeyInfo world, unit) rust" where
  "test_key_manager_open_success E =
     bindM (ws_test_generate E 32) (\<lambda>_.
     bindM (read_array 2) (\<lambda>uuid_bytes.
     with_cleanup E (Uuid uuid_bytes) (
       let PT = byte_string ''secret message''; AAD = byte_string ''test aad'' in
       bindM (read_array 3) (\<lambda>pubkey_bytes.
       bindM (unwrapM (PublicKey_try_from pubkey_bytes)) (\<lambda>pub_key.
       bindM (unwrapM (hpke_seal E pub_key (SecretBox_new PT) AAD fuzz_algorithm)) (\<lambda>(enc, ct).
       bindM (array 5 (replicate (length PT) 0)) (\<lambda>_.
       bindM (array 6 enc) (\<lambda>_.
       bindM (array 7 ct) (\<lambda>_.
       bindM (array 8 AAD) (\<lambda>_.
       bindM (callM (key_manager_open E 2 6 (word_of_nat (length enc)) 7 (word_of_nat (length ct)) 8
           (word_of_nat (length AAD)) 5 (word_of_nat (length PT)))) (\<lambda>result.
       bindM (assertM (result = Success)) (\<lambda>_.
       bindM (read_array 5) (\<lambda>out_pt.
       assertM (out_pt = PT))))))))))))))"

definition test_key_manager_open_invalid_uuid :: "('s, 'r, 'p) env \<Rightarrow> (Status, WsKeyInfo world, unit) rust" where
  "test_key_manager_open_invalid_uuid E =
     bindM (array 2 (replicate 16 0)) (\<lambda>_.
     bindM (array 5 (replicate 64 0)) (\<lambda>_.
     bindM (array 6 (replicate 32 0)) (\<lambda>_.
     bindM (array 7 (replicate 32 0)) (\<lambda>_.
     bindM (array 8 (replicate 8 0)) (\<lambda>_.
     bindM (callM (key_manager_open E 2 6 32 7 32 8 8 5 64)) (\<lambda>result.
     assertM (result = NotFound)))))))"

definition test_key_manager_open_buffer_too_small :: "('s, 'r, 'p) env \<Rightarrow> (Status, WsKeyInfo world, unit) rust" where
  "test_key_manager_open_buffer_too_small E =
     bindM (ws_test_generate E 32) (\<lambda>res.
     bindM (assertM (res = Success)) (\<lambda>_.
     bindM (read_array 2) (\<lambda>uuid_bytes.
     with_cleanup E (Uuid uuid_bytes) (
       bindM (read_array 3) (\<lambda>pubkey_bytes.
       bindM (unwrapM (PublicKey_try_from pubkey_bytes)) (\<lambda>pub_key.
       bindM (unwrapM (hpke_seal E pub_key (SecretBox_new (byte_string ''secret message'')) [] fuzz_algorithm)) (\<lambda>(enc, ct).
       bindM (array 5 (replicate 5 0)) (\<lambda>_.
       bindM (array 6 enc) (\<lambda>_.
       bindM (array 7 ct) (\<lambda>_.
       bindM (array 8 []) (\<lambda>_.
       bindM (callM (key_manager_open E 2 6 (word_of_nat (length enc)) 7 (word_of_nat (length ct)) 8 0 5 5)) (\<lambda>result.
       bindM (assertM (result = InvalidArgument)) (\<lambda>_.
       bindM (read_array 5) (\<lambda>out_pt.
       assertM (out_pt = replicate 5 0)))))))))))))))"

definition test_key_manager_enumerate_binding_keys_success :: "('s, 'r, 'p) env \<Rightarrow> (Status, WsKeyInfo world, unit) rust" where
  "test_key_manager_enumerate_binding_keys_success E =
     bindM (ws_test_generate E 32) (\<lambda>result.
     bindM (assertM (result = Success)) (\<lambda>_.
     bindM (read_array 2) (\<lambda>uuid_bytes.
     with_cleanup E (Uuid uuid_bytes) (
       bindM (store 10 (Entries (replicate 32 WsKeyInfo_default))) (\<lambda>_.
       bindM (store 9 (BoolCell False)) (\<lambda>_.
       bindM (callM (key_manager_enumerate_binding_keys E 10 32 0 (Some 9))) (\<lambda>enum_result.
       bindM (assertM (1 \<le> sint enum_result)) (\<lambda>_.
       bindM (read_entries 10) (\<lambda>out_entries.
       bindM (scan_entries (\<lambda>e. ws_uuid e = uuid_bytes) (\<lambda>_. returnM ()) (unat (scast enum_result :: usize)) out_entries) (\<lambda>found_uuid.
       assertM found_uuid))))))))))"

definition test_get_binding_key_success :: "('s, 'r, 'p) env \<Rightarrow> (Status, WsKeyInfo world, unit) rust" where
  "test_get_binding_key_success E =
     bindM (ws_test_generate E 32) (\<lambda>res.
     bindM (assertM (res = Success)) (\<lambda>_.
     bindM (read_array 2) (\<lambda>uuid_bytes.
     with_cleanup E (Uuid uuid_bytes) (
       bindM (array 5 (replicate 32 0)) (\<lambda>_.
       bindM (array 7 (replicate 64 0)) (\<lambda>_.
       bindM (store 8 (UsizeCell 64)) (\<lambda>_.
       bindM (callM (key_manager_get_binding_key E 2 5 32 7 8)) (\<lambda>result.
       bindM (assertM (result = Success)) (\<lambda>_.
       bindM (read_array 3) (\<lambda>generated_pubkey_bytes.
       bindM (read_array 5) (\<lambda>retrieved_pubkey_bytes.
       bindM (assertM (generated_pubkey_bytes = retrieved_pubkey_bytes)) (\<lambda>_.
       bindM (read_array 7) (\<lambda>retrieved_algo_bytes.
       bindM (deref_usize 8) (\<lambda>retrieved_algo_len.
       bindM (slice_to (unat retrieved_algo_len) retrieved_algo_bytes) (\<lambda>retrieved_algo.
       assertM (encode_to_vec E fuzz_algorithm = retrieved_algo))))))))))))))))"

definition test_get_binding_key_not_found :: "('s, 'r, 'p) env \<Rightarrow> (Status, WsKeyInfo world, unit) rust" where
  "test_get_binding_key_not_found E =
     bindM (array 2 (replicate 16 42)) (\<lambda>_.
     bindM (array 5 (replicate 32 0)) (\<lambda>_.
     bindM (array 7 (replicate 64 0)) (\<lambda>_.
     bindM (store 8 (UsizeCell 64)) (\<lambda>_.
     bindM (callM (key_manager_get_binding_key E 2 5 32 7 8)) (\<lambda>result.
     assertM (result = NotFound))))))"

section \<open>Lemmas: calls of the workload core\<close>

abbreviation (input) ws_arrays :: "('s, 'r, 'p) env \<Rightarrow> (ptr \<rightharpoonup> 'e obj) \<Rightarrow> bytes \<Rightarrow> bytes \<Rightarrow> ptr \<rightharpoonup> 'e obj" where
  "ws_arrays E M uid pk \<equiv> M(2 \<mapsto> Bytes uid, 3 \<mapsto> Bytes pk, 1 \<mapsto> Bytes (encode_to_vec E fuzz_algorithm))"

lemma generate_binding_run:
  assumes "testbed E" and w: "bench (ws_record E) k (ws_arrays E M (replicate 16 0) (replicate n 0)) K w" and "n \<in> {32, 64}"
  obtains v uid bs rec where "generate_binding_keypair_body E 1 (word_of_nat (length (encode_to_vec E fuzz_algorithm))) 3600 2 3 (word_of_nat n) w =
       (if n \<noteq> 32 then (Err InvalidArgument, v) else (Ok (), v\<lparr>mem := (mem w)(2 \<mapsto> Bytes uid, 3 \<mapsto> Bytes bs)\<rparr>))"
    and "mem v = mem w" and "poised (ws_record E) (Suc k) (K(Uuid uid \<mapsto> rec)) v"
    and "length uid = 16" and "uid \<noteq> replicate 16 0" and "length bs = 32" and "bs \<noteq> replicate 32 0"
    and "spec (meta rec) = Binding fuzz_algorithm (X25519_public (X25519PublicKey bs))" and "meta_id (meta rec) = Uuid uid"
proof -
  note spec = testbedD [OF assms(1)]
  have p: "poised (ws_record E) k K w"
    using w by (simp add: bench_def)
  note granted = create_and_add_granted [OF assms(1) p]
  let ?a = "encode_to_vec E fuzz_algorithm"
  let ?al = "word_of_nat (length ?a) :: usize"
  have algo: "unat ?al = length ?a" "length ?a \<noteq> 0"
    using algorithm_len [OF spec(5)] spec(11) by simp_all
  have n: "unat (word_of_nat n :: usize) = n" "(word_of_nat n :: usize) \<noteq> 32 \<longleftrightarrow> n \<noteq> 32"
    using assms(3) by auto
  have mem: "mem w 2 = Some (Bytes (replicate 16 0))" "mem w 3 = Some (Bytes (replicate n 0))" "mem w 1 = Some (Bytes ?a)"
    using bench_mem [OF w] by simp_all
  have buf: "buf 1 ?al w = ?a"
    using mem algo by (auto simp: buf_def)
  have present: "generate_binding_present 1 ?al 2 3"
    using algo by (auto simp: generate_binding_present_def is_null_def)
  have safe: "generate_binding_safe 1 ?al 2 3 (word_of_nat n) w"
    using algo mem n(1) by (simp add: generate_binding_safe_def valid_buf_def)
  obtain h pk v where gen: "create_and_add E fuzz_algorithm (Duration_from_secs 3600) Binding w = (Ok (h, pk), v)"
    and body: "generate_binding_keypair_body E 1 ?al 3600 2 3 (word_of_nat n) w =
       (if n \<noteq> 32 then (Err InvalidArgument, v)
        else (Ok (), v\<lparr>mem := write_mem 3 (PublicKey_as_bytes pk) (write_mem 2 (as_bytes h) (mem w))\<rparr>))"
    using generate_binding_keypair_body_run [OF spec(2,3,6) granted(1) present safe, of fuzz_algorithm 3600]
      algorithm_decodes(1,3) [OF spec(5)] granted(2,3,5) buf n(2) by auto
  obtain uid bs rec where made: "h = Uuid uid" "pk = X25519_public (X25519PublicKey bs)" "length uid = 16" "uid \<noteq> replicate 16 0"
    "length bs = 32" "bs \<noteq> replicate 32 0" "mem v = mem w" "poised (ws_record E) (Suc k) (K(h \<mapsto> rec)) v"
    "spec (meta rec) = Binding fuzz_algorithm pk" "meta_id (meta rec) = h"
    by (rule create_and_add_poised [OF assms(1) p _ _ _ gen]) (auto simp: own_public_key_def ws_record_def)
  have "write_mem 3 bs (write_mem 2 uid (mem w)) = (mem w)(2 \<mapsto> Bytes uid, 3 \<mapsto> Bytes bs)" if "n = 32"
    using mem made(3,5) that by (simp add: write_mem_def overwrite_def)
  then show thesis
    using that [of v uid bs rec] body made by auto
qed

lemma ends_ws_generate:
  assumes "testbed E" and "bench (ws_record E) k M K w"
    and "\<And>v uid bs rec. bench (ws_record E) (Suc k) (ws_arrays E M uid bs) (K(Uuid uid \<mapsto> rec)) v \<Longrightarrow> length uid = 16 \<Longrightarrow>
      uid \<noteq> replicate 16 0 \<Longrightarrow> length bs = 32 \<Longrightarrow> bs \<noteq> replicate 32 0 \<Longrightarrow>
      spec (meta rec) = Binding fuzz_algorithm (X25519_public (X25519PublicKey bs)) \<Longrightarrow> meta_id (meta rec) = Uuid uid \<Longrightarrow>
      ends (f Success) Q v"
  shows "ends (bindM (ws_test_generate E 32) f) Q w"
  unfolding ws_test_generate_def Let_def bindM_assoc
proof (rule ends_array [OF assms(2)], rule ends_array, assumption, rule ends_array, assumption)
  fix v assume v: "bench (ws_record E) k (ws_arrays E M (replicate 16 0) (replicate 32 0)) K v"
  obtain u uid bs rec where run: "generate_binding_keypair_body E 1 (word_of_nat (length (encode_to_vec E fuzz_algorithm))) 3600 2 3
       (word_of_nat 32) v = (Ok (), u\<lparr>mem := (mem v)(2 \<mapsto> Bytes uid, 3 \<mapsto> Bytes bs)\<rparr>)"
    and p: "poised (ws_record E) (Suc k) (K(Uuid uid \<mapsto> rec)) u"
    and key: "length uid = 16" "uid \<noteq> replicate 16 0" "length bs = 32" "bs \<noteq> replicate 32 0"
      "spec (meta rec) = Binding fuzz_algorithm (X25519_public (X25519PublicKey bs))" "meta_id (meta rec) = Uuid uid"
    by (rule generate_binding_run [OF assms(1) v]) simp_all
  show "ends (bindM (callM (key_manager_generate_binding_keypair E 1 (word_of_nat (length (encode_to_vec E fuzz_algorithm))) 3600 2 3
         (word_of_nat 32))) f) Q v"
    unfolding key_manager_generate_binding_keypair_def
  proof (rule ends_call_ok, rule run)
    show "poised (ws_record E) (Suc k) (K(Uuid uid \<mapsto> rec)) (u\<lparr>mem := (mem v)(2 \<mapsto> Bytes uid, 3 \<mapsto> Bytes bs)\<rparr>)"
      using p by (simp add: poised_mem)
    show "ws_arrays E M uid bs \<subseteq>\<^sub>m mem (u\<lparr>mem := (mem v)(2 \<mapsto> Bytes uid, 3 \<mapsto> Bytes bs)\<rparr>)"
      using v by (auto simp: bench_def map_le_def split: if_splits)
  qed (rule assms(3) [OF _ key])
qed

lemma ends_ws_generate_rejected:
  assumes "testbed E" and "bench (ws_record E) k M K w"
    and "\<And>v. bench (ws_record E) (Suc k) (ws_arrays E M (replicate 16 0) (replicate 64 0)) Map.empty v \<Longrightarrow> ends (f InvalidArgument) Q v"
  shows "ends (bindM (ws_test_generate E 64) f) Q w"
  unfolding ws_test_generate_def Let_def bindM_assoc
proof (rule ends_array [OF assms(2)], rule ends_array, assumption, rule ends_array, assumption)
  fix v assume v: "bench (ws_record E) k (ws_arrays E M (replicate 16 0) (replicate 64 0)) K v"
  obtain u uid rec where run: "generate_binding_keypair_body E 1 (word_of_nat (length (encode_to_vec E fuzz_algorithm))) 3600 2 3
       (word_of_nat 64) v = (Err InvalidArgument, u)"
    and u: "mem u = mem v" "poised (ws_record E) (Suc k) (K(Uuid uid \<mapsto> rec)) u"
    by (rule generate_binding_run [OF assms(1) v]) simp_all
  show "ends (bindM (callM (key_manager_generate_binding_keypair E 1 (word_of_nat (length (encode_to_vec E fuzz_algorithm))) 3600 2 3
         (word_of_nat 64))) f) Q v"
    unfolding key_manager_generate_binding_keypair_def
    by (rule ends_call_err, rule v, rule run, rule u(1), rule poised_weaken [OF u(2) le_refl, of Map.empty], simp, rule assms(3))
qed

lemma ends_ws_destroy:
  assumes "testbed E" and "bench (ws_record E) k M K w" and "is_arr M p 16"
    and "K (Uuid (arr M p)) = None \<Longrightarrow> contents w (Uuid (arr M p)) = None"
    and "\<And>v. bench (ws_record E) k M (K(Uuid (arr M p) := None)) v \<Longrightarrow> contents v (Uuid (arr M p)) = None \<Longrightarrow>
      ends (f (if K (Uuid (arr M p)) = None then NotFound else Success)) Q v"
  shows "ends (bindM (callM (key_manager_destroy_binding_key E p)) f) Q w"
  unfolding key_manager_destroy_binding_key_def
  by (rule ends_destroy [OF assms(1-3) _ assms(4)], erule (1) destroy_binding_key_body_eq, assumption, rule assms(5))

text \<open>Calls that only read the registry.\<close>

lemma ws_reads_poised:
  fixes w v :: "'e world"
  assumes "testbed E"
  shows "poised P k K w \<Longrightarrow> poised P k K (snd (open_body E u e el c cl a al p pl w))"
    and "poised P k K v \<Longrightarrow> poised P k K (snd (get_binding_key_body E u p pl a' al' v))"
    and "poised P k K x \<Longrightarrow> poised P k K (snd (enumerate_binding_keys_body E p n offset q x))"
proof -
  note spec = testbedD [OF assms]
  note stable = poised_machine_stable [OF spec(4)] poised_mem_stable
  have get: "yields UNIV (poised P k K) (\<lambda>r. \<forall>x. r = Some x \<longrightarrow> True) (static_get_key E h)" for h
    by (rule yields_True [OF poised_reads(1) [OF spec(15,4)]]) simp
  have list: "yields UNIV (poised P k K) (\<lambda>r. InternalError \<in> (UNIV :: Status set) \<or> R r) (static_list_all_keys E off lim)" for R off lim
    by (rule yields_True [OF poised_reads(2) [OF spec(15,4)]]) simp
  have "keeps UNIV (poised P k K) (open_body E u e el c cl a al p pl :: (Status, 'e world, unit) rust)"
    by (rule keeps_open_body [OF stable get]) auto
  then show "poised P k K w \<Longrightarrow> poised P k K (snd (open_body E u e el c cl a al p pl w))"
    by (simp add: keeps_alt)
  have "keeps UNIV (poised P k K) (get_binding_key_body E u p pl a' al' :: (Status, 'e world, unit) rust)"
    by (rule keeps_get_binding_key_body [OF stable get]) auto
  then show "poised P k K v \<Longrightarrow> poised P k K (snd (get_binding_key_body E u p pl a' al' v))"
    by (simp add: keeps_alt)
  have "keeps UNIV (poised P k K) (enumerate_binding_keys_body E p n offset q)"
    by (rule keeps_enumerate_binding_keys_body [OF stable list]) simp
  then show "poised P k K x \<Longrightarrow> poised P k K (snd (enumerate_binding_keys_body E p n offset q x))"
    by (simp add: keeps_alt)
qed

lemma ends_ws_fails:
  assumes "bench (ws_record E) k M K w" and "fst (ws_body E c w) = Err s" and "poised (ws_record E) k K (snd (ws_body E c w))"
    and "\<And>u. bench (ws_record E) k M K u \<Longrightarrow> ends (f s) Q u"
  shows "ends (bindM (callM (ffi_call (ws_operation c) (ws_body E c))) f) Q w"
proof -
  have run: "ws_body E c w = (Err s, snd (ws_body E c w))"
    using assms(2) by (metis prod.collapse)
  have "mem (snd (ws_body E c w)) = mem w"
    using ws_body_writes [of E c] run unfolding writes_on_success_def by blast
  then show ?thesis
    by (rule ends_call_err [of _ _ _ _ w "ws_body E c", OF assms(1) run _ assms(3)]) (rule assms(4))
qed

lemma ends_ws_open_fails:
  assumes "testbed E" and "bench (ws_record E) k M K w" and "fst (open_body E u e el c cl a al p pl w) = Err s"
    and "\<And>v. bench (ws_record E) k M K v \<Longrightarrow> ends (f s) Q v"
  shows "ends (bindM (callM (key_manager_open E u e el c cl a al p pl)) f) Q w"
  using ends_ws_fails [of E k M K w "OpenSealed u e el c cl a al p pl" s f Q] assms(2-4)
    ws_reads_poised(1) [OF assms(1), of "ws_record E" k K w]
  by (simp add: key_manager_open_def bench_def)

lemma ends_ws_get_fails:
  assumes "testbed E" and "bench (ws_record E) k M K w" and "fst (get_binding_key_body E u p pl a al w) = Err e"
    and "\<And>v. bench (ws_record E) k M K v \<Longrightarrow> ends (f e) Q v"
  shows "ends (bindM (callM (key_manager_get_binding_key E u p pl a al)) f) Q w"
  using ends_ws_fails [of E k M K w "GetBinding u p pl a al" e f Q] assms(2-4)
    ws_reads_poised(2) [OF assms(1), of "ws_record E" k K w]
  by (simp add: key_manager_get_binding_key_def bench_def)

lemma ends_ws_generate_fails:
  assumes "bench (ws_record E) k M K w" and "generate_binding_keypair_body E a al e u p pl w = (Err s, w)"
    and "\<And>v. bench (ws_record E) k M K v \<Longrightarrow> ends (f s) Q v"
  shows "ends (bindM (callM (key_manager_generate_binding_keypair E a al e u p pl)) f) Q w"
  using ends_ws_fails [of E k M K w "GenerateBinding a al e u p pl" s f Q] assms
  by (simp add: key_manager_generate_binding_keypair_def bench_def)

lemma ws_test_key:
  assumes "testbed E" and "bench (ws_record E) k M K w" and "is_arr M p 16" and "K (Uuid (arr M p)) = Some rec"
  shows "unexpired (clock w i) (contents w (Uuid (buf p 16 w))) = Some rec" "ws_record E rec" "valid_buf p 16 w"
    "core_inv (ws_record E) w" "usable E w"
proof -
  have w: "poised (ws_record E) k K w"
    using assms(2) by (simp add: bench_def)
  show "unexpired (clock w i) (contents w (Uuid (buf p 16 w))) = Some rec" "ws_record E rec"
    using poised_key(4,5) [OF w assms(4)] is_arrD(6) [OF assms(2,3), of 16] by simp_all
  show "valid_buf p 16 w"
    using is_arrD(5) [OF assms(2,3), of 16] by simp
  show "core_inv (ws_record E) w" "usable E w"
    using create_and_add_granted [OF assms(1) w] by simp_all
qed

text \<open>Sealing to a key of the test: that key opens the result.\<close>

lemma ends_ws_seal:
  assumes "testbed E" and "bench (ws_record E) k M K (w :: 'e world)" and "spec (meta rec) = Binding a pk" and "rec \<in> ran K"
    and "\<And>v enc ct. bench (ws_record E) k M K v \<Longrightarrow> length enc = 32 \<Longrightarrow> length ct = length (as_slice pt) + 16 \<Longrightarrow>
      (\<And>u. hpke_open E (get_private_key rec) enc ct aad fuzz_algorithm (u :: 'e world) = (Ok pt, u)) \<Longrightarrow> ends (f (enc, ct)) Q v"
  shows "ends (bindM (unwrapM (hpke_seal E pk pt aad fuzz_algorithm)) f) Q w"
proof -
  obtain h where "K h = Some rec"
    using assms(4) by (auto simp: ran_def)
  then have "ws_record E rec"
    using assms(2) poised_key(5) by (auto simp: bench_def)
  then obtain n where "key_pair E n = (pk, get_private_key rec)"
    using assms(3) by (auto simp: ws_record_def record_ok_def own_public_key_def)
  then show ?thesis
    by (rule ends_seal [OF assms(1,2)]) (rule assms(5))
qed

lemma ends_ws_open:
  assumes "testbed E" and w: "bench (ws_record E) k M K (w :: 'e world)" and key: "K (Uuid (arr M 2)) = Some rec"
    and arrs: "is_arr M 2 16" "is_arr M 6 32" "is_arr M 7 30" "is_arr M 8 8" "is_arr M 5 14"
    and sp: "spec (meta rec) = Binding fuzz_algorithm pk"
    and opens: "\<And>u :: 'e world. hpke_open E (get_private_key rec) enc ct aad fuzz_algorithm u = (Ok pt, u)" "length (as_slice pt) = 14"
    and bufs: "arr M 6 = enc" "arr M 7 = ct" "arr M 8 = aad"
    and cont: "\<And>v. bench (ws_record E) k (M(5 \<mapsto> Bytes (as_slice pt))) K v \<Longrightarrow> ends (f Success) Q v"
  shows "ends (bindM (callM (key_manager_open E 2 6 32 7 30 8 8 5 14)) f) Q w"
proof -
  note found = ws_test_key [OF assms(1,2) arrs(1) key]
  note arr = is_arrD [OF w arrs(2)] is_arrD [OF w arrs(3)] is_arrD [OF w arrs(4)] is_arrD [OF w arrs(5)]
  let ?v = "snd (open_body E 2 6 32 7 30 8 8 5 14 w)"
  have "open_present 2 6 7 5 14" "open_safe 2 6 32 7 30 8 8 5 14 w"
    using found(3) arr(5,11,17,23) by (simp_all add: open_present_def open_safe_def is_null_def)
  note eq = open_body_eq [OF found(4,5) this refl]
  have "write_mem 5 (as_slice pt) (mem w) = (mem w)(5 \<mapsto> Bytes (as_slice pt))"
    using arr(19,20) opens(2) by (simp add: write_mem_def overwrite_def)
  then have run: "open_body E 2 6 32 7 30 8 8 5 14 w = (Ok (), ?v)" and mem: "mem ?v = (mem w)(5 \<mapsto> Bytes (as_slice pt))"
    using found(1) [of "ticks w"] arr(6,12,18) opens sp bufs
    by (simp_all add: eq aad_buf_def is_null_def bindM_def updateM_def)
  have "poised (ws_record E) k K ?v"
    using ws_reads_poised(1) [OF assms(1), of "ws_record E" k K w] w by (simp add: bench_def)
  moreover have "M(5 \<mapsto> Bytes (as_slice pt)) \<subseteq>\<^sub>m mem ?v"
    using w mem by (simp add: bench_def map_le_upd)
  ultimately show ?thesis
    unfolding key_manager_open_def by (rule ends_call_ok [of "open_body E 2 6 32 7 30 8 8 5 14", OF run]) (rule cont)
qed

lemma open_rejected:
  assumes "testbed E" and w: "bench (ws_record E) k M K (w :: 'e world)"
    and arrs: "is_arr M 2 16" "is_arr M 6 32"
  shows "is_arr M 7 32 \<Longrightarrow> is_arr M 8 8 \<Longrightarrow> is_arr M 5 64 \<Longrightarrow> \<not> is_v4 (Uuid (arr M 2)) \<Longrightarrow>
      fst (open_body E 2 6 32 7 32 8 8 5 64 w) = Err NotFound"
    and "K (Uuid (arr M 2)) = Some rec \<Longrightarrow> is_arr M 7 30 \<Longrightarrow> is_arr M 5 5 \<Longrightarrow> spec (meta rec) = Binding fuzz_algorithm pk \<Longrightarrow>
      (\<And>u :: 'e world. hpke_open E (get_private_key rec) enc ct [] fuzz_algorithm u = (Ok pt, u)) \<Longrightarrow> length (as_slice pt) = 14 \<Longrightarrow>
      arr M 6 = enc \<Longrightarrow> arr M 7 = ct \<Longrightarrow> fst (open_body E 2 6 32 7 30 8 0 5 5 w) = Err InvalidArgument"
proof -
  have "poised (ws_record E) k K w"
    using w by (simp add: bench_def)
  note granted = create_and_add_granted [OF assms(1) this]
  have uuid: "valid_buf 2 16 w" "buf 2 16 w = arr M 2" "valid_buf 6 32 w" "buf 6 32 w = arr M 6"
    using is_arrD(5,6) [OF w arrs(1), of 16] is_arrD(5,6) [OF w arrs(2), of 32] by simp_all
  show "fst (open_body E 2 6 32 7 32 8 8 5 64 w) = Err NotFound"
    if "is_arr M 7 32" "is_arr M 8 8" "is_arr M 5 64" "\<not> is_v4 (Uuid (arr M 2))"
    using uuid is_arrD(5) [OF w that(1), of 32] is_arrD(5) [OF w that(2), of 8] is_arrD(5) [OF w that(3), of 64] bench_unknown [OF w that(4)]
    by (subst open_body_eq [OF granted(1,4) _ _ refl]) (simp_all add: open_present_def open_safe_def is_null_def)
  show "fst (open_body E 2 6 32 7 30 8 0 5 5 w) = Err InvalidArgument"
    if key: "K (Uuid (arr M 2)) = Some rec" and "is_arr M 7 30" and "is_arr M 5 5" and "spec (meta rec) = Binding fuzz_algorithm pk"
      and opens: "\<And>u :: 'e world. hpke_open E (get_private_key rec) enc ct [] fuzz_algorithm u = (Ok pt, u)" and "length (as_slice pt) = 14"
      and "arr M 6 = enc" and "arr M 7 = ct"
    using uuid is_arrD(5,6) [OF w that(2), of 30] is_arrD(5) [OF w that(3), of 5] ws_test_key(1) [OF assms(1,2) arrs(1) key, of "ticks w"]
      that(4,6-8) opens
    by (subst open_body_eq [OF granted(1,4) _ _ refl])
      (simp_all add: open_present_def open_safe_def is_null_def aad_buf_def buf_def [of 8] valid_buf_def [of 8] bindM_def errM_def)
qed

lemma ends_ws_get:
  assumes "testbed E" and w: "bench (ws_record E) k M K w" and key: "K (Uuid (arr M 2)) = Some rec"
    and arrs: "is_arr M 2 16" "is_arr M 5 32" "is_arr M 7 64" and cell: "M 8 = Some (UsizeCell 64)"
    and sp: "spec (meta rec) = Binding fuzz_algorithm (X25519_public (X25519PublicKey bs))" and "length bs = 32"
    and cont: "\<And>v rest. bench (ws_record E) k (M(5 \<mapsto> Bytes bs, 7 \<mapsto> Bytes (encode_to_vec E fuzz_algorithm @ rest),
        8 \<mapsto> UsizeCell (word_of_nat (length (encode_to_vec E fuzz_algorithm))))) K v \<Longrightarrow> ends (f Success) Q v"
  shows "ends (bindM (callM (key_manager_get_binding_key E 2 5 32 7 8)) f) Q w"
proof -
  note found = ws_test_key [OF assms(1,2) arrs(1) key]
  note arr = is_arrD [OF w arrs(2)] is_arrD [OF w arrs(3)]
  let ?a = "encode_to_vec E fuzz_algorithm"
  let ?v = "snd (get_binding_key_body E 2 5 32 7 8 w)"
  have mem8: "mem w 8 = Some (UsizeCell 64)"
    by (rule bench_mem [OF w cell])
  have "get_binding_present 2 5 32 7 8" "get_binding_safe 2 5 32 7 8 w"
    using found(3) arr(5,11) mem8 by (simp_all add: get_binding_present_def get_binding_safe_def is_null_def)
  note eq = get_binding_key_body_eq [OF found(4,5) this refl mem8]
  have run: "get_binding_key_body E 2 5 32 7 8 w = (Ok (), ?v)"
    and mem: "mem ?v = (mem w)(5 \<mapsto> Bytes bs, 7 \<mapsto> Bytes (?a @ drop (length ?a) (arr M 7)), 8 \<mapsto> UsizeCell (word_of_nat (length ?a)))"
    using found(1) [of "ticks w"] sp assms(9) algorithm_decodes(2) [OF testbedD(5) [OF assms(1)], of fuzz_algorithm] arr(1,2,7,8)
    by (simp_all add: eq Let_def write_mem_def overwrite_def)
  have "poised (ws_record E) k K ?v"
    using ws_reads_poised(2) [OF assms(1), of "ws_record E" k K w] w by (simp add: bench_def)
  moreover have "M(5 \<mapsto> Bytes bs, 7 \<mapsto> Bytes (?a @ drop (length ?a) (arr M 7)), 8 \<mapsto> UsizeCell (word_of_nat (length ?a))) \<subseteq>\<^sub>m mem ?v"
    using w unfolding mem by (auto simp: bench_def intro!: map_le_upd)
  ultimately show ?thesis
    unfolding key_manager_get_binding_key_def by (rule ends_call_ok [of "get_binding_key_body E 2 5 32 7 8", OF run]) (rule cont)
qed

lemma ends_ws_enumerate:
  assumes "testbed E" and w: "bench (ws_record E) k M K w" and "M 10 = Some (Entries es)" and "length es = 32" and "k \<le> 30"
    and "\<And>v infos. bench (ws_record E) k (M(10 \<mapsto> Entries (infos @ drop (length infos) es), 9 \<mapsto> BoolCell False)) K v \<Longrightarrow>
      length infos \<le> k \<Longrightarrow> (\<And>h rec. K h = Some rec \<Longrightarrow> \<exists>info \<in> set infos. ws_uuid info = as_bytes h) \<Longrightarrow>
      ends (f (word_of_nat (length infos))) Q v"
  shows "ends (bindM (callM (key_manager_enumerate_binding_keys E 10 32 0 (Some 9))) f) Q w"
proof -
  note spec = testbedD [OF assms(1)]
  have p: "poised (ws_record E) k K w"
    using w by (simp add: bench_def)
  note granted = create_and_add_granted [OF assms(1) p]
  let ?all = "listing (clock w (ticks w)) w"
  let ?infos = "binding_infos E (clock w) (Suc (ticks w)) (map meta ?all)"
  let ?v = "snd (enumerate_binding_keys_body E 10 32 0 (Some 9) w)"
  have few: "length ?all \<le> k" "length ?all < 2 ^ 64" "length ?all \<le> 32"
    using listing_bounded [OF p, of "clock w (ticks w)"] assms(5) by simp_all
  have safe: "enumerate_safe 10 32 es (Some 9) w"
    using bench_mem [OF w assms(3)] assms(4) by (simp add: enumerate_safe_def)
  have eq: "enumerate_binding_keys_body E 10 32 0 (Some 9) w = (Ok (word_of_nat (length ?infos)), ?v)"
    and mem: "mem ?v = (mem w)(10 \<mapsto> Entries (?infos @ drop (length ?infos) es), 9 \<mapsto> BoolCell False)"
    using enumerate_binding_keys_body_eq [OF spec(5,2) granted(1,4) _ safe refl few(2) refl, of 0] few(3) by (simp_all add: is_null_def)
  have "poised (ws_record E) k K ?v"
    by (rule ws_reads_poised(3) [OF assms(1) p])
  then have v: "bench (ws_record E) k (M(10 \<mapsto> Entries (?infos @ drop (length ?infos) es), 9 \<mapsto> BoolCell False)) K ?v"
    using w unfolding bench_def mem by (auto intro!: map_le_upd)
  have "ends (f (word_of_nat (length ?infos))) Q ?v"
  proof (rule assms(6) [OF v])
    show "length ?infos \<le> k"
      using few(1) by simp
    fix h rec assume key: "K h = Some rec"
    have rec: "ws_record E rec" and h: "meta_id (meta rec) = h"
      using poised_key(5) [OF p key] poised_handle [OF p poised_key(1) [OF p key]] by simp_all
    obtain j where "j < length ?all" "?all ! j = rec"
      using listing_key_in [OF p key, of "ticks w"] by (auto simp: in_set_conv_nth)
    then have "binding_info E (clock w (Suc (ticks w) + j)) (meta rec) \<in> set ?infos"
      by (auto simp: binding_infos_def)
    moreover have "ws_uuid (binding_info E t (meta rec)) = as_bytes h" for t
      using rec h by (simp add: binding_info_def ws_key_info_def WsKeyInfo_default_def overwrite_def ws_record_def record_ok_def)
    ultimately show "\<exists>info \<in> set ?infos. ws_uuid info = as_bytes h"
      by blast
  qed
  then show ?thesis
    using ends_call_i32 [of "enumerate_binding_keys_body E 10 32 0 (Some 9)", OF eq, of f Q] by (simp add: key_manager_enumerate_binding_keys_def)
qed

section \<open>Lemmas: the workload tests pass\<close>

lemma ws_create_internal_passes:
  assumes "testbed E"
  shows "passes (ws_record E) (test_create_binding_keypair_internal_success E)"
proof (rule passesI)
  fix k and w :: "WsKeyInfo world" assume "bench (ws_record E) k Map.empty Map.empty w"
  then have w: "poised (ws_record E) k Map.empty w"
    by (simp add: bench_def)
  note spec = testbedD [OF assms]
  obtain h pk v where gen: "create_and_add E fuzz_algorithm (Duration_from_secs 3600) Binding w = (Ok (h, pk), v)"
    using create_and_add_total [OF spec(2,6) create_and_add_granted(1) [OF assms w] algorithm_decodes(3) [OF spec(5)]]
      create_and_add_granted(2,3,5) [OF assms w] by blast
  obtain i rec where v: "h = Uuid i" "i \<noteq> replicate 16 0" "poised (ws_record E) (Suc k) (Map.empty(h \<mapsto> rec)) v"
    by (rule create_and_add_poised [OF assms w _ _ _ gen]) (auto simp: own_public_key_def ws_record_def)
  have "ends (with_cleanup E h (assertM (as_bytes h \<noteq> replicate 16 0))) (clean (ws_record E) (Suc k)) v"
    by (rule ends_cleanup [OF assms], rule ends_last [of _ "Suc k" Map.empty]) (use v in \<open>simp_all add: bench_def\<close>)
  then show "ends (test_create_binding_keypair_internal_success E) (clean (ws_record E) (Suc k)) w"
    unfolding test_create_binding_keypair_internal_success_def
    by (intro ends_unwrap [of _ w "(h, pk)" v]) (simp_all add: generate_binding_keypair_internal_eq [OF spec(2)] gen)
qed

lemma ws_generate_passes:
  assumes "testbed E"
  shows "passes (ws_record E) (test_generate_binding_keypair_ffi_success E)"
    and "passes (ws_record E) (test_generate_binding_keypair_invalid_pubkey_len E)"
    and "passes (ws_record E) (test_generate_binding_keypair_null_uuid_ptr E)"
  subgoal
    unfolding test_generate_binding_keypair_ffi_success_def
    by (rule passesI, rule ends_ws_generate [OF assms], assumption, rule ends_assert, simp,
        rule ends_reads(1), assumption, simp, rule ends_cleanup [OF assms], rule ends_assert, simp,
        rule ends_reads(1), assumption, simp, rule ends_assert, simp, rule ends_last, assumption) simp_all
  subgoal
    unfolding test_generate_binding_keypair_invalid_pubkey_len_def
    by (rule passesI, rule ends_ws_generate_rejected [OF assms], assumption, rule ends_assert, simp,
        rule ends_reads(1), assumption, simp, rule ends_assert, simp, rule ends_reads(1), assumption, simp,
        rule ends_last, assumption) simp_all
  subgoal
    unfolding test_generate_binding_keypair_null_uuid_ptr_def Let_def
    by (rule passesI, (rule ends_array, assumption)+, rule ends_ws_generate_fails, assumption,
        simp add: generate_binding_keypair_body_def is_null_def errM_def, rule ends_last, assumption) simp_all
  done

lemma ws_generate_invalid_algo_passes:
  assumes "testbed E"
  shows "passes (ws_record E) (test_generate_binding_keypair_invalid_algo E)"
proof -
  have "generate_binding_keypair_body E 1 2 3600 2 3 32 w = (Err InvalidArgument, w)"
    if w: "bench P k (M(2 \<mapsto> Bytes (replicate 16 0), 3 \<mapsto> Bytes (replicate 32 0), 1 \<mapsto> Bytes [0xFF, 0xFF])) K w"
    for P k M K and w :: "WsKeyInfo world"
  proof -
    have "mem w 2 = Some (Bytes (replicate 16 0))" "mem w 3 = Some (Bytes (replicate 32 0))" "mem w 1 = Some (Bytes [0xFF, 0xFF])"
      using bench_mem [OF w] by simp_all
    then show ?thesis
      using testbedD(12) [OF assms]
      by (subst generate_binding_keypair_body_eq)
        (simp_all add: generate_binding_present_def generate_binding_safe_def is_null_def valid_buf_def buf_def)
  qed
  note rejected = this
  show ?thesis
    unfolding test_generate_binding_keypair_invalid_algo_def
    by (rule passesI, (rule ends_array, assumption)+, rule ends_ws_generate_fails, assumption, erule rejected, rule ends_assert, simp,
        rule ends_reads(1), assumption, simp, rule ends_last, assumption) simp_all
qed

lemma ws_destroy_passes:
  assumes "testbed E"
  shows "passes (ws_record E) (test_destroy_binding_key_success E)"
    and "passes (ws_record E) (test_destroy_binding_key_not_found E)"
    and "passes (ws_record E) (test_destroy_binding_key_null_ptr E)"
  subgoal
    unfolding test_destroy_binding_key_success_def
    by (rule passesI, rule ends_ws_generate [OF assms], assumption, rule ends_assert, simp,
        rule ends_reads(1), assumption, simp, rule ends_cleanup [OF assms],
        rule ends_ws_destroy [OF assms], assumption, simp, simp, simp, rule ends_assert, simp,
        rule ends_ws_destroy [OF assms], assumption, simp, simp, simp, rule ends_last, assumption) simp_all
  subgoal
    unfolding test_destroy_binding_key_not_found_def
    by (rule passesI, rule ends_array, assumption, rule ends_ws_destroy [OF assms], assumption, simp,
        rule bench_unknown, assumption, simp add: not_v4, simp, rule ends_last, assumption) simp_all
  subgoal
    unfolding test_destroy_binding_key_null_ptr_def key_manager_destroy_binding_key_def
    by (rule passesI, rule ends_call_err, assumption, simp add: destroy_binding_key_body_def is_null_def errM_def, simp,
        simp add: bench_def, rule ends_last, assumption) simp_all
  done

lemma test_strings [simp]:
  "length (byte_string ''secret message'') = 14" "length (byte_string ''test aad'') = 8"
  by (simp_all add: byte_string_def)

lemma open_passes:
  assumes "testbed E"
  shows "passes (ws_record E) (test_key_manager_open_success E)"
    and "passes (ws_record E) (test_key_manager_open_invalid_uuid E)"
    and "passes (ws_record E) (test_key_manager_open_buffer_too_small E)"
  subgoal
    unfolding test_key_manager_open_success_def Let_def
    by (rule passesI, rule ends_ws_generate [OF assms], assumption,
        rule ends_reads(1), assumption, simp, rule ends_cleanup [OF assms], rule ends_reads(1), assumption, simp,
        rule ends_public_key, simp, rule ends_ws_seal [OF assms], assumption, assumption, simp, simp only: prod.case,
        (rule ends_array, assumption)+,
        simp (no_asm_simp), rule ends_ws_open [OF assms], assumption, simp, simp, simp, simp, simp, simp,
        assumption, assumption, simp, simp, simp, simp, rule ends_assert, simp, rule ends_reads(1), assumption, simp,
        rule ends_last, assumption) simp_all
  subgoal
    unfolding test_key_manager_open_invalid_uuid_def
    by (rule passesI, (rule ends_array, assumption)+, rule ends_ws_open_fails [OF assms], assumption,
        rule open_rejected(1) [OF assms], assumption, simp, simp, simp, simp, simp, simp add: not_v4, rule ends_last, assumption) simp_all
  subgoal
    unfolding test_key_manager_open_buffer_too_small_def
    by (rule passesI, rule ends_ws_generate [OF assms], assumption, rule ends_assert, simp,
        rule ends_reads(1), assumption, simp, rule ends_cleanup [OF assms], rule ends_reads(1), assumption, simp,
        rule ends_public_key, simp, rule ends_ws_seal [OF assms], assumption, assumption, simp, simp only: prod.case,
        (rule ends_array, assumption)+,
        simp (no_asm_simp), rule ends_ws_open_fails [OF assms], assumption,
        rule open_rejected(2) [OF assms], assumption, simp, simp, simp, simp, simp,
        assumption, assumption, simp, simp, simp, rule ends_assert, simp, rule ends_reads(1), assumption, simp,
        rule ends_last, assumption) simp_all
  done

lemma get_binding_unknown:
  assumes "testbed E" and w: "bench (ws_record E) k M K w" and "is_arr M 2 16" and "\<not> is_v4 (Uuid (arr M 2))"
    and "is_arr M 5 32" "is_arr M 7 64" "M 8 = Some (UsizeCell 64)"
  shows "fst (get_binding_key_body E 2 5 32 7 8 w) = Err NotFound"
proof -
  have "poised (ws_record E) k K w"
    using w by (simp add: bench_def)
  note granted = create_and_add_granted [OF assms(1) this]
  have found: "contents w (Uuid (buf 2 16 w)) = None" and uuid: "valid_buf 2 16 w"
    using bench_unknown [OF w assms(4)] is_arrD(5,6) [OF w assms(3), of 16] by simp_all
  then show ?thesis
    using is_arrD(5) [OF w assms(5), of 32] is_arrD(5) [OF w assms(6), of 64] bench_mem [OF w assms(7)]
    by (subst get_binding_key_body_eq [OF granted(1,4) _ _ refl])
      (simp_all add: get_binding_present_def get_binding_safe_def is_null_def)
qed

lemma listed_positive:
  assumes "length infos \<le> k" "k \<le> 30" 
    and "\<And>h rec. K h = Some rec \<Longrightarrow> \<exists>info \<in> set infos. ws_uuid info = as_bytes h" and "K (Uuid uid) = Some rec"
  shows "1 \<le> sint (word_of_nat (length infos) :: i32)"
  using assms(1,2) assms(3) [OF assms(4)] by (cases infos) (auto simp: small_i32 simp del: of_nat_Suc)

lemma ends_ws_scan:
  assumes len: "length infos \<le> k" "k \<le> 30" 
    and "\<And>h rec. K h = Some rec \<Longrightarrow> \<exists>info \<in> set infos. ws_uuid info = as_bytes h" and "K (Uuid uid) = Some rec"
    and "ends (f True) Q w"
  shows "ends (bindM (scan_entries (\<lambda>e. ws_uuid e = uid) (\<lambda>_. returnM ())
           (unat (scast (word_of_nat (length infos) :: i32) :: usize)) (infos @ rest)) f) Q w"
proof (rule ends_scan)
  have n: "unat (scast (word_of_nat (length infos) :: i32) :: usize) = length infos"
    by (rule small_i32(2)) (use len in simp)
  show "\<exists>e \<in> set (take (unat (scast (word_of_nat (length infos) :: i32) :: usize)) (infos @ rest)). ws_uuid e = uid"
    unfolding n using assms(3) [OF assms(4)] by simp
  show "unat (scast (word_of_nat (length infos) :: i32) :: usize) \<le> length (infos @ rest)"
    by (simp add: n)
qed (use assms(5) in \<open>simp_all add: returnM_def\<close>)

lemma ws_lookup_passes:
  assumes "testbed E"
  shows "passes (ws_record E) (test_get_binding_key_not_found E)"
    and "passes (ws_record E) (test_get_binding_key_success E)"
    and "passes (ws_record E) (test_key_manager_enumerate_binding_keys_success E)"
  subgoal
    unfolding test_get_binding_key_not_found_def
    by (rule passesI, (rule ends_array ends_store, assumption)+, rule ends_ws_get_fails [OF assms], assumption,
        rule get_binding_unknown [OF assms], assumption, simp, simp add: not_v4, simp, simp, simp, rule ends_last, assumption) simp_all
  subgoal
    unfolding test_get_binding_key_success_def
    by (rule passesI, rule ends_ws_generate [OF assms], assumption, rule ends_assert, simp,
        rule ends_reads(1), assumption, simp, rule ends_cleanup [OF assms], (rule ends_array ends_store, assumption)+,
        rule ends_ws_get [OF assms], assumption, simp, simp, simp, simp, simp, simp, simp,
        rule ends_assert, simp, rule ends_reads(1), assumption, simp, rule ends_reads(1), assumption, simp, rule ends_assert, simp,
        rule ends_reads(1), assumption, simp, rule ends_reads(2), assumption, simp, rule ends_slice,
        simp add: algorithm_len [OF testbedD(5) [OF assms]], rule ends_last, assumption)
      (simp_all add: algorithm_len [OF testbedD(5) [OF assms]])
  subgoal
    unfolding test_key_manager_enumerate_binding_keys_success_def
    by (rule passesI, rule ends_ws_generate [OF assms], assumption, rule ends_assert, simp,
        rule ends_reads(1), assumption, simp, rule ends_cleanup [OF assms], (rule ends_store, assumption)+,
        rule ends_ws_enumerate [OF assms], assumption, simp, simp, simp, rule ends_assert, rule listed_positive, assumption, simp, assumption, rule fun_upd_same,
        rule ends_reads(5), assumption, simp,
        rule ends_ws_scan, assumption, simp, assumption, simp,
        rule ends_last, assumption) simp_all
  done

section \<open>The workload suite\<close>

definition ws_tests :: "('s, 'r, 'p) env \<Rightarrow> (Status, WsKeyInfo world, unit) rust list" where
  "ws_tests E =
     [test_create_binding_keypair_internal_success E, test_generate_binding_keypair_ffi_success E,
      test_generate_binding_keypair_invalid_algo E, test_generate_binding_keypair_null_uuid_ptr E,
      test_generate_binding_keypair_invalid_pubkey_len E, test_destroy_binding_key_success E,
      test_destroy_binding_key_not_found E, test_destroy_binding_key_null_ptr E,
      test_key_manager_open_success E, test_key_manager_open_invalid_uuid E, test_key_manager_open_buffer_too_small E,
      test_key_manager_enumerate_binding_keys_success E, test_get_binding_key_success E, test_get_binding_key_not_found E]"

lemma ws_tests_pass: "testbed E \<Longrightarrow> list_all (passes (ws_record E)) (ws_tests E)"
  by (simp add: ws_tests_def ws_create_internal_passes ws_generate_passes ws_generate_invalid_algo_passes ws_destroy_passes
      open_passes ws_lookup_passes)

end
