(* ===== verification/Registry_Tests.thy ===== *)
theory Registry_Tests
  imports Test_Harness
begin

text \<open>
  The unit tests of the key registry, \<^verbatim>\<open>mod tests\<close> of \<^verbatim>\<open>km_common/src/key_types.rs\<close>. A test has a registry of its own, a local
  variable that is dropped at the end. After a failed assertion a test is over, and the model stops there.

  A \<^emph>\<open>spy\<close> is a second mapping of the file behind a vault. While the vault is there it shows what the vault holds; after the
  vault is dropped it shows what was in the region when it was unmapped.
\<close>

section \<open>Tests\<close>

definition expectM :: "('f, 'w, 'a) rust \<Rightarrow> ('e, 'w, 'a) rust" where
  "expectM m w = (case m w of
      (Ok a, w') \<Rightarrow> (Ok a, w') | (Err _, w') \<Rightarrow> (Panicked, w') | (Panicked, w') \<Rightarrow> (Panicked, w') | (Undefined, w') \<Rightarrow> (Undefined, w'))"

definition is_nil :: "uuid \<Rightarrow> bool" where
  "is_nil h \<longleftrightarrow> as_bytes h = replicate 16 0"

definition read_keys :: "KeyRegistry \<Rightarrow> ('e, 'w, (KeyHandle, KeyRecord) hash_map) rust" where
  "read_keys reg = (if poisoned reg then panicM else returnM (keys reg))"

definition KeyRegistry_drop :: "('s, 'r, 'p) env \<Rightarrow> KeyRegistry \<Rightarrow> ('e, 'z machine_scheme, unit) rust" where
  "KeyRegistry_drop E reg = updateM (drop_all E (hm_values (keys reg)))"

definition spy_map :: "('s, 'r, 'p) env \<Rightarrow> Vault \<Rightarrow> ('e, 'z machine_scheme, bytes) rust" where
  "spy_map E v = bindM syscall (\<lambda>i.
     case sys_map_mut E i (length (mmap v)) of None \<Rightarrow> panicM | Some _ \<Rightarrow> returnM (mmap v))"

definition spy_read :: "('e, 'z machine_scheme, bytes) rust" where
  "spy_read m = (Ok (last (released m)), m)"

definition test_create_binding_key_success :: "('s, 'r, 'p) env \<Rightarrow> (Status, 'z machine_scheme, unit) rust" where
  "test_create_binding_key_success E =
     bindM (unwrapM (create_binding_key E fuzz_algorithm (Duration_from_secs 3600))) (\<lambda>record.
     bindM (assertM (\<not> is_nil (meta_id (meta record)))) (\<lambda>_.
     bindM (assertM (created_at (meta record) < delete_after (meta record))) (\<lambda>_.
     bindM (case spec (meta record) of
        Binding a pk \<Rightarrow>
          bindM (assertM (kem a = kem fuzz_algorithm)) (\<lambda>_.
          assertM (length (PublicKey_as_bytes pk) = 32))
      | _ \<Rightarrow> panicM) (\<lambda>_.
     updateM (KeyRecord_drop E record)))))"

definition test_create_bound_kem_success :: "('s, 'r, 'p) env \<Rightarrow> (Status, 'z machine_scheme, unit) rust" where
  "test_create_bound_kem_success E =
     bindM (unwrapM (PublicKey_try_from (replicate 32 42))) (\<lambda>binding_pubkey.
     bindM (unwrapM (create_bound_kem_key E fuzz_algorithm binding_pubkey (Duration_from_secs 3600))) (\<lambda>record.
     bindM (case spec (meta record) of
        KemWithBindingPub a kpk bpk \<Rightarrow>
          bindM (assertM (kem a = kem fuzz_algorithm)) (\<lambda>_.
          bindM (assertM (length (PublicKey_as_bytes kpk) = 32)) (\<lambda>_.
          assertM (bpk = binding_pubkey)))
      | _ \<Rightarrow> panicM) (\<lambda>_.
     updateM (KeyRecord_drop E record))))"

definition test_add_key :: "('s, 'r, 'p) env \<Rightarrow> (Status, 'z machine_scheme, unit) rust" where
  "test_add_key E =
     bindM (unwrapM (create_binding_key E fuzz_algorithm (Duration_from_secs 3600))) (\<lambda>record.
     let id = meta_id (meta record) in
     bindM (add_key E record KeyRegistry_default) (\<lambda>registry.
     bindM (read_keys registry) (\<lambda>keys.
     bindM (assertM (hm_get id keys \<noteq> None)) (\<lambda>_.
     bindM (case hm_get id keys of None \<Rightarrow> panicM | Some record \<Rightarrow> assertM (meta_id (meta record) = id)) (\<lambda>_.
     KeyRegistry_drop E registry)))))"

definition test_remove_key :: "('s, 'r, 'p) env \<Rightarrow> (Status, 'z machine_scheme, unit) rust" where
  "test_remove_key E =
     bindM (unwrapM (create_binding_key E fuzz_algorithm (Duration_from_secs 3600))) (\<lambda>record.
     let id = meta_id (meta record) in
     bindM (add_key E record KeyRegistry_default) (\<lambda>registry.
     bindM (remove_key id registry) (\<lambda>(removed, registry).
     bindM (expectM (ok_orM removed NotFound)) (\<lambda>removed.
     let len = length (as_slice (get_secret (private_key removed))) in
     bindM syscall (\<lambda>_.
     bindM (spy_map E (private_key removed)) (\<lambda>spy.
     bindM (assertM (take len spy = as_slice (get_secret (private_key removed)))) (\<lambda>_.
     bindM (assertM (\<not> list_all (\<lambda>b. b = 0) (take len spy))) (\<lambda>_.
     bindM (updateM (KeyRecord_drop E removed)) (\<lambda>_.
     bindM spy_read (\<lambda>spy.
     bindM (assertM (list_all (\<lambda>b. b = 0) (take len spy))) (\<lambda>_.
     bindM (remove_key id registry) (\<lambda>(removed, registry).
     bindM (assertM (removed = None)) (\<lambda>_.
     KeyRegistry_drop E registry)))))))))))))"

definition test_get_key_liveness :: "('s, 'r, 'p) env \<Rightarrow> (Status, 'z machine_scheme, unit) rust" where
  "test_get_key_liveness E =
     bindM (unwrapM (create_binding_key E fuzz_algorithm (Duration_from_secs 0))) (\<lambda>record.
     let id = meta_id (meta record) in
     bindM (add_key E record KeyRegistry_default) (\<lambda>registry.
     bindM (get_key id registry) (\<lambda>found.
     bindM (assertM (found = None)) (\<lambda>_.
     bindM (unwrapM (create_binding_key E fuzz_algorithm (Duration_from_secs 3600))) (\<lambda>record2.
     let id2 = meta_id (meta record2) in
     bindM (add_key E record2 registry) (\<lambda>registry.
     bindM (get_key id2 registry) (\<lambda>found2.
     bindM (assertM (found2 \<noteq> None)) (\<lambda>_.
     KeyRegistry_drop E registry))))))))"

text \<open>
  The reaper thread wakes up \<open>early\<close> times while the test sleeps for a second, \<open>late\<close> times while it sleeps for six, and
  once more after the stop signal is set, when the test joins it.
\<close>

definition test_reaper_functionality :: "nat \<Rightarrow> nat \<Rightarrow> ('s, 'r, 'p) env \<Rightarrow> (Status, 'z machine_scheme, unit) rust" where
  "test_reaper_functionality early late E =
     bindM (unwrapM (PublicKey_try_from (replicate 32 42))) (\<lambda>binding_pubkey.
     bindM (unwrapM (create_bound_kem_key E fuzz_algorithm binding_pubkey (Duration_from_secs 4))) (\<lambda>kem_record.
     bindM (unwrapM (create_binding_key E fuzz_algorithm (Duration_from_secs 4))) (\<lambda>binding_record.
     let kem_id = meta_id (meta kem_record); binding_id = meta_id (meta binding_record) in
     bindM (add_key E kem_record KeyRegistry_default) (\<lambda>registry.
     bindM (add_key E binding_record registry) (\<lambda>registry.
     bindM (reaper_loop E (replicate early False) registry) (\<lambda>(_, registry).
     bindM (get_key kem_id registry) (\<lambda>found.
     bindM (assertM (found \<noteq> None)) (\<lambda>_.
     bindM (get_key binding_id registry) (\<lambda>found.
     bindM (assertM (found \<noteq> None)) (\<lambda>_.
     bindM (reaper_loop E (replicate late False) registry) (\<lambda>(_, registry).
     bindM (read_keys registry) (\<lambda>keys.
     bindM (assertM (hm_get kem_id keys = None)) (\<lambda>_.
     bindM (assertM (hm_get binding_id keys = None)) (\<lambda>_.
     bindM (reaper_loop E [True] registry) (\<lambda>(ended, registry).
     bindM (assertM ended) (\<lambda>_.
     KeyRegistry_drop E registry))))))))))))))))"

definition test_list_all_keys_filters_expired :: "('s, 'r, 'p) env \<Rightarrow> (Status, 'z machine_scheme, unit) rust" where
  "test_list_all_keys_filters_expired E =
     bindM (unwrapM (create_binding_key E fuzz_algorithm (Duration_from_secs 0))) (\<lambda>record1.
     bindM (unwrapM (create_binding_key E fuzz_algorithm (Duration_from_secs 3600))) (\<lambda>record2.
     let id2 = meta_id (meta record2) in
     bindM (add_key E record1 KeyRegistry_default) (\<lambda>registry.
     bindM (add_key E record2 registry) (\<lambda>registry.
     bindM (list_all_keys 0 10 registry) (\<lambda>(keys, total_count).
     bindM (assertM (total_count = 1)) (\<lambda>_.
     bindM (assertM (length keys = 1)) (\<lambda>_.
     bindM (case keys of [] \<Rightarrow> panicM | key # _ \<Rightarrow> assertM (meta_id key = id2)) (\<lambda>_.
     KeyRegistry_drop E registry))))))))"

section \<open>Lemmas\<close>

text \<open>A key that a test makes, in a machine that grants what is asked for.\<close>

definition test_record :: "('s, 'r, 'p) env \<Rightarrow> u64 \<Rightarrow> (HpkeAlgorithm \<Rightarrow> PublicKey \<Rightarrow> KeySpec) \<Rightarrow> 'z machine_scheme \<Rightarrow> KeyRecord \<Rightarrow> bool" where
  "test_record E s mk m rec \<longleftrightarrow>
     created_at (meta rec) = clock m (ticks m) \<and> delete_after (meta rec) = clock m (ticks m) + Duration_from_secs s
   \<and> is_v4 (meta_id (meta rec))
   \<and> (\<exists>pk. spec (meta rec) = mk fuzz_algorithm (X25519_public (X25519PublicKey pk)) \<and> length pk = 32)
   \<and> (\<exists>n. mmap (private_key rec) = snd (Kem_generate_keypair E X25519HkdfSha256_Kem n))"

lemma ends_create:
  fixes m :: "'z machine_scheme"
  assumes "testbed E" and "brisk m" and "unat s \<le> 3600"
    and "\<And>rec m'. test_record E s mk m rec \<Longrightarrow> clock m' = clock m \<Longrightarrow> ticks m' = Suc (ticks m) \<Longrightarrow>
      brisk (m' :: 'z machine_scheme) \<Longrightarrow> 2 \<le> syscalls m' \<Longrightarrow> ends (f rec) Q m'"
  shows "ends (bindM (unwrapM (create_key_internal E fuzz_algorithm (Duration_from_secs s) mk)) f) Q m"
proof -
  note spec = testbedD [OF assms(1)]
  have "(clock m (ticks m) + Duration_from_secs s) div nanos_per_sec \<le> (clock m (ticks m) + 3600 * nanos_per_sec) div nanos_per_sec"
    using assms(3) by (intro div_le_mono) (simp add: Duration_from_secs_def)
  also have "\<dots> \<le> i64_max"
    using assms(2) by (simp add: brisk_def)
  finally obtain rec m' where run: "create_key_internal E fuzz_algorithm (Duration_from_secs s) mk m = (Ok rec, m')"
    and calls: "syscalls m' = syscalls m + 3"
    using create_key_internal_total [OF spec(2,6) algorithm_decodes(3) [OF spec(5)] spec(10)] by blast
  note ok = create_key_internal_Ok [OF spec(2) run]
  have "mmap (private_key rec) = snd (Kem_generate_keypair E X25519HkdfSha256_Kem (draws m))"
    using ok(3) by (simp add: get_private_key_def PrivateKey_from_def get_secret_def SecretBox_new_def)
  then have "test_record E s mk m rec"
    using ok(2) spec(13) length_keypair_public [OF spec(2)] by (auto simp: test_record_def)
  moreover have "brisk m'"
    using assms(2) ok(6) by (simp add: brisk_def)
  ultimately have "ends (f rec) Q m'"
    using ok(5,6) calls by (intro assms(4)) simp_all
  then show ?thesis
    by (intro ends_unwrap [of _ m rec m'] run)
qed

lemma Duration_from_secs_numeral: "Duration_from_secs 3600 = 3600 * nanos_per_sec" "Duration_from_secs 0 = 0" "Duration_from_secs 4 = 4 * nanos_per_sec"
  by (simp_all add: Duration_from_secs_def)

lemmas test_eval = ends_def bindM_def assertM_def returnM_def updateM_def KeyRegistry_drop_def KeyRegistry_default_def
  read_keys_def hm_get_def Duration_from_secs_numeral test_record_def

lemma record_age:
  assumes "test_record E s mk m rec" and "brisk m"
  shows "s = 0 \<Longrightarrow> ticks m \<le> i \<Longrightarrow> \<not> clock m i < delete_after (meta rec)"
    and "s = 3600 \<Longrightarrow> clock m i < delete_after (meta rec)"
  subgoal
    using assms monoD [of "clock m" "ticks m" i] by (auto simp: test_record_def brisk_def Duration_from_secs_numeral)
  subgoal
    using assms(1) assms(2) [unfolded brisk_def, THEN conjunct2, THEN conjunct1, rule_format, of i "ticks m"]
    by (auto simp: test_record_def Duration_from_secs_numeral)
  done

lemma create_passes:
  fixes m :: "'z machine_scheme"
  assumes "testbed E" and "brisk m"
  shows "ends (test_create_binding_key_success E) (\<lambda>r _. r = Ok ()) m"
    and "ends (test_create_bound_kem_success E) (\<lambda>r _. r = Ok ()) m"
  subgoal
    unfolding test_create_binding_key_success_def create_binding_key_def
    by (rule ends_create [OF assms]) (auto simp: test_eval nanos_per_sec_def is_nil_def is_v4_def)
  subgoal
    unfolding test_create_bound_kem_success_def
    apply (rule ends_public_key, simp)
    using suite_supported_kem [OF algorithm_decodes(3) [OF testbedD(5) [OF assms(1)]]]
    apply (simp only: create_bound_kem_key_cases simp_thms if_True)
    by (rule ends_create [OF assms]) (auto simp: test_eval)
  done

text \<open>Operations on a registry whose lock is not poisoned.\<close>

lemma ends_add:
  assumes "\<not> poisoned reg" and "\<And>m'. clock m' = clock m \<Longrightarrow> ticks m' = ticks m \<Longrightarrow> syscalls m' = syscalls m \<Longrightarrow> brisk m' = brisk m \<Longrightarrow>
      ends (f (reg\<lparr>keys := (meta_id (meta rec), rec) # filter (\<lambda>(h, _). h \<noteq> meta_id (meta rec)) (keys reg)\<rparr>)) Q m'"
  shows "ends (bindM (add_key E rec reg) f) Q m"
  using assms(1) assms(2) [of "drop_all E (case hm_get (meta_id (meta rec)) (keys reg) of None \<Rightarrow> [] | Some r \<Rightarrow> [r]) m"]
  by (simp add: add_key_def hm_insert_def hm_get_def ends_def bindM_def updateM_def returnM_def brisk_def)

lemma ends_get:
  assumes "\<not> poisoned reg" and "hm_get h (keys reg) = Some rec"
    and "\<And>m'. clock m' = clock m \<Longrightarrow> ticks m' = Suc (ticks m) \<Longrightarrow> brisk m' = brisk m \<Longrightarrow>
      ends (f (if clock m (ticks m) < delete_after (meta rec) then Some rec else None)) Q m'"
  shows "ends (bindM (get_key h reg) f) Q m"
  using assms(1,2) assms(3) [of "m\<lparr>ticks := Suc (ticks m)\<rparr>"]
  by (simp add: get_key_def ends_def bindM_def Instant_now_def returnM_def brisk_def)

lemma reaper_rounds:
  fixes m :: "'z machine_scheme"
  assumes "\<not> poisoned reg"
  obtains m' :: "'z machine_scheme" where "reaper_loop E (replicate n False) reg m = (Ok (False,
      reg\<lparr>keys := filter (\<lambda>(_, rec). \<forall>i < n. clock m (ticks m + i) < delete_after (meta rec)) (keys reg)\<rparr>), m')"
    and "clock m' = clock m" and "ticks m' = ticks m + n"
  using assms
proof (induction n arbitrary: reg m thesis)
  case (Suc n)
  let ?now = "clock m (ticks m)"
  let ?reg = "reg\<lparr>keys := hm_retain (\<lambda>key. ?now < delete_after (meta key)) (keys reg)\<rparr>"
  let ?m = "drop_all E (filter (expired ?now) (hm_values (keys reg))) (m\<lparr>ticks := Suc (ticks m)\<rparr>)"
  obtain m' where "reaper_loop E (replicate n False) ?reg ?m = (Ok (False,
      ?reg\<lparr>keys := filter (\<lambda>(_, rec). \<forall>i < n. clock ?m (ticks ?m + i) < delete_after (meta rec)) (keys ?reg)\<rparr>), m')"
    and m': "clock m' = clock ?m" "ticks m' = ticks ?m + n"
    by (rule Suc.IH [of ?reg ?m]) (use Suc.prems(2) in simp_all)
  moreover have "filter (\<lambda>(_, rec). \<forall>i < n. clock m (Suc (ticks m) + i) < delete_after (meta rec)) (keys ?reg)
      = filter (\<lambda>(_, rec). \<forall>i < Suc n. clock m (ticks m + i) < delete_after (meta rec)) (keys reg)"
    by (auto simp: hm_retain_def less_Suc_eq_0_disj split_beta intro!: filter_cong)
  moreover have "reaper_sweep E reg m = (Ok ?reg, ?m)"
    using Suc.prems(2) by (simp add: reaper_sweep_def Instant_now_def updateM_def returnM_def bindM_def)
  ultimately have "reaper_loop E (replicate (Suc n) False) reg m = (Ok (False,
      reg\<lparr>keys := filter (\<lambda>(_, rec). \<forall>i < Suc n. clock m (ticks m + i) < delete_after (meta rec)) (keys reg)\<rparr>), m')"
    by (simp add: bindM_def)
  then show thesis
    by (rule Suc.prems(1)) (use m' in simp_all)
qed (simp add: returnM_def)

lemma ends_reaper:
  fixes m :: "'z machine_scheme"
  assumes "\<not> poisoned reg" and "\<And>m' :: 'z machine_scheme. clock m' = clock m \<Longrightarrow> ticks m' = ticks m + n \<Longrightarrow> ends (f (False, reg')) Q m'"
    and "(\<forall>(h, rec) \<in> set (keys reg). \<forall>i < n. clock m (ticks m + i) < delete_after (meta rec)) \<and> reg' = reg
      \<or> (\<forall>(h, rec) \<in> set (keys reg). \<exists>i < n. \<not> clock m (ticks m + i) < delete_after (meta rec)) \<and> reg' = reg\<lparr>keys := []\<rparr>"
  shows "ends (bindM (reaper_loop E (replicate n False) reg) f) Q m"
proof -
  have "reg\<lparr>keys := filter (\<lambda>(_, rec). \<forall>i < n. clock m (ticks m + i) < delete_after (meta rec)) (keys reg)\<rparr> = reg'"
    using assms(3)
  proof (elim disjE conjE)
    assume "\<forall>(h, rec) \<in> set (keys reg). \<forall>i < n. clock m (ticks m + i) < delete_after (meta rec)"
    then have "filter (\<lambda>(_, rec). \<forall>i < n. clock m (ticks m + i) < delete_after (meta rec)) (keys reg) = keys reg"
      by (intro filter_True) (simp add: split_beta)
    moreover assume "reg' = reg"
    ultimately show ?thesis by simp
  next
    assume "\<forall>(h, rec) \<in> set (keys reg). \<exists>i < n. \<not> clock m (ticks m + i) < delete_after (meta rec)"
    then have "filter (\<lambda>(_, rec). \<forall>i < n. clock m (ticks m + i) < delete_after (meta rec)) (keys reg) = []"
      by (intro filter_False) (force simp: split_beta)
    moreover assume "reg' = reg\<lparr>keys := []\<rparr>"
    ultimately show ?thesis by simp
  qed
  moreover obtain m' where "reaper_loop E (replicate n False) reg m = (Ok (False,
      reg\<lparr>keys := filter (\<lambda>(_, rec). \<forall>i < n. clock m (ticks m + i) < delete_after (meta rec)) (keys reg)\<rparr>), m')"
    and "clock m' = clock m" "ticks m' = ticks m + n"
    by (rule reaper_rounds [OF assms(1)])
  ultimately show ?thesis
    using ends_bindI [of "reaper_loop E (replicate n False) reg" m "(False, reg')" m' f Q] assms(2) by simp
qed

lemma registry_passes:
  fixes m :: "'z machine_scheme"
  assumes "testbed E" and "brisk m"
  shows "ends (test_add_key E) (\<lambda>r _. r = Ok ()) m"
    and "ends (test_get_key_liveness E) (\<lambda>r _. r = Ok ()) m"
    and "ends (test_list_all_keys_filters_expired E) (\<lambda>r _. r = Ok ()) m"
  subgoal
    unfolding test_add_key_def create_binding_key_def Let_def
    by (rule ends_create [OF assms], simp, rule ends_add) (auto simp: test_eval)
  subgoal
    unfolding test_get_key_liveness_def create_binding_key_def Let_def
    by (rule ends_create [OF assms], simp, rule ends_add, simp add: KeyRegistry_default_def, rule ends_get,
        simp add: KeyRegistry_default_def, simp add: hm_get_def, rule ends_assert, simp add: record_age(1) assms(2),
        rule ends_create [OF assms(1)], simp, simp, rule ends_add, simp add: KeyRegistry_default_def, rule ends_get,
        simp add: KeyRegistry_default_def, simp add: hm_get_def, rule ends_assert, use record_age(2) in fastforce)
      (simp add: test_eval)
  subgoal
    unfolding test_list_all_keys_filters_expired_def create_binding_key_def Let_def
    apply (rule ends_create [OF assms], simp, rule ends_create [OF assms(1)], assumption, simp,
        rule ends_add, simp add: KeyRegistry_default_def, rule ends_add, simp add: KeyRegistry_default_def)
    subgoal for rec1 m1 rec2 m2 m3 m4
      using record_age(1) [of E 0 _ m rec1 "ticks m4"] record_age(2) [of E 3600 _ m1 rec2 "ticks m4"] assms(2)
      by (auto simp: test_eval list_all_keys_def live_records_def hm_values_def Instant_now_def Let_def)
    done
  done

lemma map_granted: "testbed E \<Longrightarrow> 2 \<le> i \<Longrightarrow> sys_map_mut E i n \<noteq> None"
  using testbedD(10) [of E "i - 2" n] Suc_diff_Suc [of 1 i] by (simp add: vault_granted_def numeral_2_eq_2)

lemma remove_passes:
  fixes m :: "'z machine_scheme"
  assumes "testbed E" and "\<And>n. snd (Kem_generate_keypair E X25519HkdfSha256_Kem n) \<noteq> replicate 32 0" and "brisk m"
  shows "ends (test_remove_key E) (\<lambda>r _. r = Ok ()) m"
  unfolding test_remove_key_def create_binding_key_def Let_def
  apply (rule ends_create [OF assms(1,3)], simp, rule ends_add, simp add: KeyRegistry_default_def)
  subgoal premises prems for rec m1 m2
  proof -
    obtain n where "mmap (private_key rec) = snd (Kem_generate_keypair E X25519HkdfSha256_Kem n)"
      using prems(1) by (auto simp: test_record_def)
    then have len: "length (mmap (private_key rec)) = 32" and "mmap (private_key rec) \<noteq> replicate 32 0"
      using length_keypair_private [OF testbedD(2) [OF assms(1)]] assms(2) by simp_all
    then have "\<not> list_all (\<lambda>b. b = 0) (mmap (private_key rec))"
      using replicate_eqI [of "mmap (private_key rec)" 32 0] by (auto simp: list_all_iff)
    moreover have "sys_map_mut E (Suc (syscalls m2)) 32 \<noteq> None"
      by (rule map_granted [OF assms(1)]) (use prems in simp)
    ultimately show ?thesis
      using len testbedD(4) [OF assms(1)]
      by (auto simp: test_eval remove_key_def hm_remove_def expectM_def ok_orM_def syscall_def spy_map_def spy_read_def get_secret_def
          zeroize_spec_def list_all_iff split: option.splits)
  qed
  done

text \<open>When the test with the reaper keeps to its timing: the lookups come before the first deadline, and the last wake-up after both.\<close>

definition paced :: "nat \<Rightarrow> nat \<Rightarrow> 'z machine_scheme \<Rightarrow> bool" where
  "paced early late m \<longleftrightarrow> 0 < late
     \<and> clock m (ticks m + early + 3) < clock m (ticks m) + 4 * nanos_per_sec
     \<and> clock m (ticks m + 1) + 4 * nanos_per_sec \<le> clock m (ticks m + early + 3 + late)"

lemma reaper_passes:
  fixes m :: "'z machine_scheme"
  assumes "testbed E" and "brisk m" and "paced early late m"
  shows "ends (test_reaper_functionality early late E) (\<lambda>r _. r = Ok ()) m"
  unfolding test_reaper_functionality_def create_binding_key_def Let_def
  apply (rule ends_public_key, simp)
  using suite_supported_kem [OF algorithm_decodes(3) [OF testbedD(5) [OF assms(1)]]]
  apply (simp only: create_bound_kem_key_cases simp_thms if_True)
  apply (rule ends_create [OF assms(1,2)], simp, rule ends_create [OF assms(1)], assumption, simp,
      rule ends_add, simp add: KeyRegistry_default_def, rule ends_add, simp add: KeyRegistry_default_def)
  subgoal premises prems for krec m1 brec m2 m3 m4
  proof -
    let ?reg = "\<lparr>keys = (meta_id (meta brec), brec) # filter (\<lambda>(h, _). h \<noteq> meta_id (meta brec)) [(meta_id (meta krec), krec)],
      poisoned = False\<rparr>"
    have due: "delete_after (meta krec) = clock m (ticks m) + 4 * nanos_per_sec"
      "delete_after (meta brec) = clock m (ticks m + 1) + 4 * nanos_per_sec"
      using prems by (auto simp: test_record_def Duration_from_secs_numeral)
    have m4: "clock m4 = clock m" "ticks m4 = ticks m + 2"
      using prems by simp_all
    have mono: "clock m i \<le> clock m j" if "i \<le> j" for i j
      using assms(2) that by (auto simp: brisk_def dest: monoD)
    have early: "clock m i < delete_after (meta rec)" if "i \<le> ticks m + early + 3" "rec \<in> {krec, brec}" for i rec
      using assms(3) mono [OF that(1)] mono [of "ticks m" "ticks m + 1"] that(2) due by (auto simp: paced_def)
    have "\<not> clock m (ticks m + early + 4 + (late - 1)) < delete_after (meta rec)" if "rec \<in> {krec, brec}" for rec
      using assms(3) mono [of "ticks m" "ticks m + 1"] that due by (auto simp: paced_def Suc_diff_Suc add.assoc)
    then have late: "\<exists>i < late. \<not> clock m (ticks m + early + 4 + i) < delete_after (meta rec)" if "rec \<in> {krec, brec}" for rec
      using that assms(3) by (intro exI [of _ "late - 1"]) (simp add: paced_def)
    have reg: "KeyRegistry_default\<lparr>keys := (meta_id (meta krec), krec) # filter (\<lambda>(h, _). h \<noteq> meta_id (meta krec)) (keys KeyRegistry_default),
        keys := (meta_id (meta brec), brec) # filter (\<lambda>(h, _). h \<noteq> meta_id (meta brec)) (keys (KeyRegistry_default
          \<lparr>keys := (meta_id (meta krec), krec) # filter (\<lambda>(h, _). h \<noteq> meta_id (meta krec)) (keys KeyRegistry_default)\<rparr>))\<rparr> = ?reg"
      by (simp add: KeyRegistry_default_def)
    have "\<exists>rec. hm_get h (keys ?reg) = Some rec \<and> rec \<in> {krec, brec}" if "h \<in> {meta_id (meta krec), meta_id (meta brec)}" for h
      using that by (auto simp: hm_get_def)
    then obtain kr br where found: "hm_get (meta_id (meta krec)) (keys ?reg) = Some kr" "kr \<in> {krec, brec}"
      "hm_get (meta_id (meta brec)) (keys ?reg) = Some br" "br \<in> {krec, brec}"
      by blast
    show ?thesis
      unfolding reg
      apply (rule ends_reaper [where reg' = ?reg], simp)
       apply (simp only: prod.case)
       apply (rule ends_get [OF _ found(1)], simp, rule ends_assert, use early m4 found in simp)
       apply (rule ends_get [OF _ found(3)], simp, rule ends_assert, use early m4 found in simp)
       apply (rule ends_reaper [where reg' = "?reg\<lparr>keys := []\<rparr>"], simp)
        apply (simp add: test_eval)
      subgoal for m5 m6 m7
        using late m4 by (intro disjI2) (auto simp: numeral_eq_Suc)
      subgoal
        using early m4 by (intro disjI1) auto
      done
  qed
  done

end
