(* ===== verification/Library_Tests.thy ===== *)
theory Library_Tests
  imports Registry_Tests
begin

text \<open>
  The other unit tests of \<^verbatim>\<open>km_common\<close>: cryptography (\<^verbatim>\<open>crypto.rs\<close>, \<^verbatim>\<open>crypto/x25519.rs\<close>), secret boxes
  (\<^verbatim>\<open>crypto/secret_box.rs\<close>), protected memory (\<^verbatim>\<open>protected_mem.rs\<close>), telemetry (\<^verbatim>\<open>telemetry.rs\<close>) and the wrapper of the
  exported functions (\<^verbatim>\<open>lib.rs\<close>).

  Left out are the tests whose expected values come from code that is a parameter here: the two vectors of RFC 9180, which need the
  curve and the hash function, the \<^verbatim>\<open>Debug\<close> output of the crate \<^verbatim>\<open>secrecy\<close>, the file system behind \<^verbatim>\<open>memfd_secret\<close>,
  and the JSON that a child process prints.
\<close>

unbundle bit_operations_syntax

section \<open>Tests of cryptography\<close>

text \<open>\<^verbatim>\<open>assert!(matches!(result, Err(status)))\<close>.\<close>

definition assert_errM :: "Status \<Rightarrow> (Status, 'w, 'a) rust \<Rightarrow> (Status, 'w, unit) rust" where
  "assert_errM s m w = (case m w of
      (Ok _, w') \<Rightarrow> (Panicked, w') | (Err e, w') \<Rightarrow> assertM (e = s) w' | (Panicked, w') \<Rightarrow> (Panicked, w') | (Undefined, w') \<Rightarrow> (Undefined, w'))"

definition test_sender :: "('s, 'r, 'p) env \<Rightarrow> PublicKey \<Rightarrow> (Status, 'z machine_scheme, 's \<times> bytes) rust" where
  "test_sender E pk_r = bindM draw (\<lambda>seed. expectM (ok_orM (SenderContext_new E hpke_params (PublicKey_as_bytes pk_r) [] seed) InternalError))"

definition test_decaps_wrapper :: "('s, 'r, 'p) env \<Rightarrow> (Status, 'z machine_scheme, unit) rust" where
  "test_decaps_wrapper E =
     bindM (unwrapM (generate_keypair E DhkemX25519HkdfSha256)) (\<lambda>(pk_r, sk_r).
     bindM (test_sender E pk_r) (\<lambda>(_, enc).
     bindM (unwrapM (decaps E sk_r enc)) (\<lambda>result.
     assertM (length (as_slice result) = 32))))"

definition test_decaps_unsupported :: "('s, 'r, 'p) env \<Rightarrow> (Status, 'z machine_scheme, unit) rust" where
  "test_decaps_unsupported E =
     bindM (unwrapM (generate_keypair E DhkemX25519HkdfSha256)) (\<lambda>(_, sk_r).
     let algo = \<lparr>kem = kem_as_i32 KemUnspecified, kdf = kdf_as_i32 HkdfSha256, aead = aead_as_i32 Aes256Gcm\<rparr> in
     assert_errM UnsupportedAlgorithm (hpke_open E sk_r (replicate 32 0) [] [] algo))"

definition test_hpke_open_success :: "('s, 'r, 'p) env \<Rightarrow> (Status, 'z machine_scheme, unit) rust" where
  "test_hpke_open_success E =
     bindM (unwrapM (generate_keypair E DhkemX25519HkdfSha256)) (\<lambda>(pk_r, sk_r).
     let pt = byte_string ''hello world''; aad = byte_string ''additional data'' in
     bindM (test_sender E pk_r) (\<lambda>(sender_ctx, enc).
     let ciphertext = SenderContext_seal E sender_ctx pt aad in
     bindM (unwrapM (hpke_open E sk_r enc ciphertext aad fuzz_algorithm)) (\<lambda>decrypted.
     assertM (as_slice decrypted = pt))))"

definition test_hpke_open_failure :: "('s, 'r, 'p) env \<Rightarrow> (Status, 'z machine_scheme, unit) rust" where
  "test_hpke_open_failure E =
     bindM (unwrapM (generate_keypair E DhkemX25519HkdfSha256)) (\<lambda>(pk_r, sk_r).
     let pt = byte_string ''hello world''; aad = byte_string ''additional data'' in
     bindM (test_sender E pk_r) (\<lambda>(sender_ctx, enc).
     let ciphertext = SenderContext_seal E sender_ctx pt aad;
         ciphertext = (case ciphertext of [] \<Rightarrow> [] | byte # rest \<Rightarrow> (byte XOR 1) # rest) in
     assert_errM DecryptionFailure (hpke_open E sk_r enc ciphertext aad fuzz_algorithm)))"

definition test_hpke_bad_aad :: "('s, 'r, 'p) env \<Rightarrow> (Status, 'z machine_scheme, unit) rust" where
  "test_hpke_bad_aad E =
     bindM (unwrapM (generate_keypair E DhkemX25519HkdfSha256)) (\<lambda>(pk_r, sk_r).
     let pt = byte_string ''hello world''; aad = byte_string ''foo'' in
     bindM (test_sender E pk_r) (\<lambda>(sender_ctx, enc).
     let ciphertext = SenderContext_seal E sender_ctx pt aad; tampered_aad = byte_string ''bar'' in
     assert_errM DecryptionFailure (hpke_open E sk_r enc ciphertext tampered_aad fuzz_algorithm)))"

definition test_hpke_seal_success :: "('s, 'r, 'p) env \<Rightarrow> (Status, 'z machine_scheme, unit) rust" where
  "test_hpke_seal_success E =
     bindM (unwrapM (generate_keypair E DhkemX25519HkdfSha256)) (\<lambda>(pk_r, sk_r).
     let pt = SecretBox_new (byte_string ''hello world''); aad = byte_string ''additional data'' in
     bindM (unwrapM (hpke_seal E pk_r pt aad fuzz_algorithm)) (\<lambda>(enc, ciphertext).
     bindM (unwrapM (hpke_open E sk_r enc ciphertext aad fuzz_algorithm)) (\<lambda>decrypted.
     assertM (as_slice decrypted = as_slice pt))))"

definition test_generate_kem_success :: "('s, 'r, 'p) env \<Rightarrow> (Status, 'z machine_scheme, unit) rust" where
  "test_generate_kem_success E =
     bindM (unwrapM (generate_keypair E DhkemX25519HkdfSha256)) (\<lambda>(pub_key, _).
     assertM (length (PublicKey_as_bytes pub_key) = 32))"

definition test_generate_hpke_success :: "('s, 'r, 'p) env \<Rightarrow> (Status, 'z machine_scheme, unit) rust" where
  "test_generate_hpke_success E =
     bindM (unwrapM (generate_keypair E DhkemX25519HkdfSha256)) (\<lambda>(pub_key, _).
     assertM (length (PublicKey_as_bytes pub_key) = 32))"

definition test_generate_hpke_unsupported :: "('s, 'r, 'p) env \<Rightarrow> (Status, 'z machine_scheme, unit) rust" where
  "test_generate_hpke_unsupported E = assert_errM UnsupportedAlgorithm (generate_keypair E KemUnspecified)"

definition test_expand :: "('s, 'r, 'p) env \<Rightarrow> 'p \<Rightarrow> bytes \<Rightarrow> nat \<Rightarrow> (Status, 'z machine_scheme, bytes) rust" where
  "test_expand E prk info len = expectM (ok_orM (expand_into E prk info len) InternalError)"

definition test_labeled_extract_and_expand :: "('s, 'r, 'p) env \<Rightarrow> (Status, 'z machine_scheme, unit) rust" where
  "test_labeled_extract_and_expand E =
     (let suite_id = byte_string ''KEM'' @ [0, 0x20]; salt = byte_string ''test_salt''; label = byte_string ''test_label'';
          ikm = byte_string ''test_ikm''; info = byte_string ''test_info'';
          prk = labeled_extract E salt label ikm suite_id;
          expected_labeled_ikm = concat [byte_string ''HPKE-v1'', suite_id, label, ikm];
          expected_prk = HkdfSha256_extract E expected_labeled_ikm salt in
      bindM (test_expand E prk (byte_string ''test'') 32) (\<lambda>prk_output.
      bindM (test_expand E expected_prk (byte_string ''test'') 32) (\<lambda>expected_prk_output.
      bindM (assertM (prk_output = expected_prk_output)) (\<lambda>_.
      let len = 32 in
      bindM (unwrapM (labeled_expand E prk label info suite_id len)) (\<lambda>result.
      let expected_labeled_info = concat [u16_to_be_bytes len, byte_string ''HPKE-v1'', suite_id, label, info] in
      bindM (test_expand E expected_prk expected_labeled_info (unat len)) (\<lambda>expected_result.
      bindM (assertM (as_slice result = expected_result)) (\<lambda>_.
      let len2 = 16 in
      bindM (unwrapM (labeled_expand E prk label info suite_id len2)) (\<lambda>result2.
      bindM (assertM (length (as_slice result2) = unat len2)) (\<lambda>_.
      let expected_labeled_info2 = concat [u16_to_be_bytes len2, byte_string ''HPKE-v1'', suite_id, label, info] in
      bindM (test_expand E expected_prk expected_labeled_info2 (unat len2)) (\<lambda>expected_result2.
      bindM (assertM (as_slice result2 = expected_result2)) (\<lambda>_.
      bindM (unwrapM (labeled_expand E prk label (byte_string ''other_info'') suite_id len)) (\<lambda>result3.
      bindM (assertM (as_slice result \<noteq> as_slice result3)) (\<lambda>_.
      bindM (unwrapM (labeled_expand E prk (byte_string ''other_label'') info suite_id len)) (\<lambda>result4.
      assertM (as_slice result \<noteq> as_slice result4)))))))))))))))"

section \<open>Tests of secret memory\<close>

definition test_secret_box_creation :: "(Status, 'w, unit) rust" where
  "test_secret_box_creation =
     (let data = [1, 2, 3, 4]; secret = SecretBox_new data in assertM (as_slice secret = data))"

definition test_secret_box_modification :: "(Status, 'w, unit) rust" where
  "test_secret_box_modification =
     (let data = [1, 2, 3, 4]; secret = SecretBox_new data in
      case as_mut_slice_set 0 99 secret of None \<Rightarrow> panicM | Some secret \<Rightarrow> assertM (as_slice secret = [99, 2, 3, 4]))"

definition test_secret_box_from_vec :: "(Status, 'w, unit) rust" where
  "test_secret_box_from_vec =
     (let data = [10, 11, 12]; secret = SecretBox_new data in assertM (as_slice secret = data))"

definition test_secret_box_as_ref :: "(Status, 'w, unit) rust" where
  "test_secret_box_as_ref =
     (let data = [20, 21, 22]; secret = SecretBox_new data; slice = as_slice secret in assertM (slice = data))"

text \<open>A vector that is made with a capacity of 64 has that many bytes or more; \<open>junk\<close> is what is in those after the contents.\<close>

definition test_secret_box_with_excess_capacity_preserves_contents :: "('s, 'r, 'p) env \<Rightarrow> bytes \<Rightarrow> (Status, 'w, unit) rust" where
  "test_secret_box_with_excess_capacity_preserves_contents E junk =
     (let data = \<lparr>elems = [1, 2, 3, 4], spare = junk\<rparr> in
      bindM (assertM (length (elems data) < capacity data)) (\<lambda>_.
      case SecretBox_new_alloc E data of (secret, _) \<Rightarrow> assertM (as_slice secret = [1, 2, 3, 4])))"

definition test_vault :: "('s, 'r, 'p) env \<Rightarrow> bytes \<Rightarrow> (Status, 'z machine_scheme, Vault) rust" where
  "test_vault E data = expectM (Vault_new E (SecretBox_new data))"

definition test_vault_creation_and_retrieval :: "('s, 'r, 'p) env \<Rightarrow> (Status, 'z machine_scheme, unit) rust" where
  "test_vault_creation_and_retrieval E =
     (let data = byte_string ''sensitive information'' in
      bindM (test_vault E data) (\<lambda>vault.
      bindM (assertM (as_slice (get_secret vault) = data)) (\<lambda>_.
      updateM (Vault_drop E vault))))"

definition test_vault_with_empty_data :: "('s, 'r, 'p) env \<Rightarrow> (Status, 'z machine_scheme, unit) rust" where
  "test_vault_with_empty_data E =
     bindM (test_vault E []) (\<lambda>vault.
     bindM (assertM (as_slice (get_secret vault) = [])) (\<lambda>_.
     updateM (Vault_drop E vault)))"

definition test_multiple_vaults :: "('s, 'r, 'p) env \<Rightarrow> (Status, 'z machine_scheme, unit) rust" where
  "test_multiple_vaults E =
     bindM (test_vault E (byte_string ''secret1'')) (\<lambda>v1.
     bindM (test_vault E (byte_string ''secret2'')) (\<lambda>v2.
     bindM (assertM (as_slice (get_secret v1) \<noteq> as_slice (get_secret v2))) (\<lambda>_.
     bindM (assertM (as_slice (get_secret v1) = byte_string ''secret1'')) (\<lambda>_.
     bindM (assertM (as_slice (get_secret v2) = byte_string ''secret2'')) (\<lambda>_.
     bindM (updateM (Vault_drop E v2)) (\<lambda>_.
     updateM (Vault_drop E v1)))))))"

definition test_large_vault :: "('s, 'r, 'p) env \<Rightarrow> (Status, 'z machine_scheme, unit) rust" where
  "test_large_vault E =
     (let data = replicate (1024 * 1024) 0; len = length data in
      bindM (test_vault E data) (\<lambda>vault.
      bindM (assertM (length (as_slice (get_secret vault)) = len)) (\<lambda>_.
      updateM (Vault_drop E vault))))"

definition test_zeroize_on_drop :: "('s, 'r, 'p) env \<Rightarrow> (Status, 'z machine_scheme, unit) rust" where
  "test_zeroize_on_drop E =
     (let data = byte_string ''secret to be zeroed'' in
      bindM (test_vault E data) (\<lambda>vault.
      bindM (spy_map E vault) (\<lambda>spy.
      bindM (assertM (spy = data)) (\<lambda>_.
      bindM (updateM (Vault_drop E vault)) (\<lambda>_.
      bindM spy_read (\<lambda>spy.
      assertM (list_all (\<lambda>b. b = 0) spy)))))))"

section \<open>Tests of telemetry and of the wrapper\<close>

text \<open>\<^verbatim>\<open>KccOperation::iter()\<close> and \<^verbatim>\<open>FailureKind::iter()\<close>, in the order of declaration.\<close>

definition KccOperation_iter :: "KccOperation list" where
  "KccOperation_iter =
     [GenerateKemKeypair, DestroyKemKey, EnumerateKemKeys, DecapAndSeal, GetKemKey, GenerateBindingKeypair, DestroyBindingKey,
      DestroyAllBindingKeys, Open, EnumerateBindingKeys, GetBindingKey]"

definition FailureKind_iter :: "FailureKind list" where
  "FailureKind_iter = [ErrorKind, PanicKind]"

fun forM :: "('a \<Rightarrow> 's \<Rightarrow> ('e, 'w, 's) rust) \<Rightarrow> 'a list \<Rightarrow> 's \<Rightarrow> ('e, 'w, 's) rust" where
  "forM f [] s = returnM s"
| "forM f (x # xs) s = bindM (f x s) (forM f xs)"

definition test_report_failure_does_not_panic :: "(Status, 'e world, unit) rust" where
  "test_report_failure_does_not_panic =
     updateM (telemetry_report_failure \<lparr>operation = Open, status = DecryptionFailure, kind = ErrorKind\<rparr>)"

text \<open>\<^verbatim>\<open>c.is_ascii_lowercase() || c.is_ascii_digit() || c == '_'\<close>.\<close>

definition is_snake :: "char \<Rightarrow> bool" where
  "is_snake c \<longleftrightarrow> (let n = of_char c :: nat in 97 \<le> n \<and> n \<le> 122 \<or> 48 \<le> n \<and> n \<le> 57 \<or> c = CHR ''_'')"

definition test_all_operations_descriptor_invariants :: "(Status, 'w, unit) rust" where
  "test_all_operations_descriptor_invariants =
     bindM (forM (\<lambda>op seen.
       let n = name (descriptor op) in
       bindM (assertM (n \<noteq> [])) (\<lambda>_.
       bindM (assertM (list_all is_snake n)) (\<lambda>_.
       bindM (assertM (n \<notin> set seen)) (\<lambda>_.
       returnM (n # seen))))) KccOperation_iter []) (\<lambda>_. returnM ())"

definition test_all_operations_report_failure_without_panicking :: "(Status, 'e world, unit) rust" where
  "test_all_operations_report_failure_without_panicking =
     forM (\<lambda>operation _.
       forM (\<lambda>kind _.
         updateM (telemetry_report_failure \<lparr>operation = operation, status = StatusUnspecified, kind = kind\<rparr>))
         FailureKind_iter ()) KccOperation_iter ()"

text \<open>The variable \<^verbatim>\<open>failure\<close> that the reporter of a test assigns to is at address 1, empty as long as it is \<^verbatim>\<open>None\<close>.\<close>

definition set_failure :: "Failure \<Rightarrow> Failure world \<Rightarrow> Failure world" where
  "set_failure event w = w\<lparr>mem := (mem w)(1 \<mapsto> Entries [event])\<rparr>"

definition ffi_success_does_not_report_a_failure :: "(Status, Failure world, unit) rust" where
  "ffi_success_does_not_report_a_failure =
     bindM (store 1 (Entries [])) (\<lambda>_.
     bindM (callM (ffi_call_with_reporter GenerateBindingKeypair (returnM ()) set_failure)) (\<lambda>status.
     bindM (assertM (status = Success)) (\<lambda>_.
     bindM (read_entries 1) (\<lambda>failure.
     assertM (failure = [])))))"

definition ffi_error_reports_one_typed_failure :: "(Status, Failure world, unit) rust" where
  "ffi_error_reports_one_typed_failure =
     bindM (store 1 (Entries [])) (\<lambda>_.
     bindM (callM (ffi_call_with_reporter Open (errM DecryptionFailure) set_failure)) (\<lambda>status.
     bindM (assertM (status = DecryptionFailure)) (\<lambda>_.
     bindM (read_entries 1) (\<lambda>failure.
     assertM (failure = [\<lparr>operation = Open, status = DecryptionFailure, kind = ErrorKind\<rparr>])))))"

section \<open>What the tests rely on\<close>

text \<open>
  AES-GCM: a change within one block, of the ciphertext or of the additional data, changes the tag. Key generation
  does not give the private key that is all zeros. The three expansions the test of labeled HKDF compares do not collide.
\<close>

definition authentic :: "('s, 'r, 'p) env \<Rightarrow> bool" where
  "authentic E \<longleftrightarrow> (\<forall>k n i ctx enc rcp.
     SenderContext_new E hpke_params (fst (Kem_generate_keypair E k n)) [] i = Some (ctx, enc) \<longrightarrow>
     RecipientContext_new E hpke_params (snd (Kem_generate_keypair E k n)) enc [] = Some rcp \<longrightarrow>
       (\<forall>pt aad c cs. SenderContext_seal E ctx pt aad = c # cs \<longrightarrow> RecipientContext_open E rcp ((c XOR 1) # cs) aad = None)
     \<and> (\<forall>pt aad aad'. length aad = length aad' \<longrightarrow> length aad \<le> 16 \<longrightarrow> aad \<noteq> aad' \<longrightarrow>
          RecipientContext_open E rcp (SenderContext_seal E ctx pt aad) aad' = None))"

definition test_info :: "string \<Rightarrow> string \<Rightarrow> bytes" where
  "test_info label info =
     concat [u16_to_be_bytes 32, byte_string ''HPKE-v1'', byte_string ''KEM'' @ [0, 0x20], byte_string label, byte_string info]"

definition no_collision :: "('s, 'r, 'p) env \<Rightarrow> bool" where
  "no_collision E \<longleftrightarrow> (\<forall>prk.
     expand_into E prk (test_info ''test_label'' ''test_info'') 32 \<noteq> expand_into E prk (test_info ''test_label'' ''other_info'') 32
   \<and> expand_into E prk (test_info ''test_label'' ''test_info'') 32 \<noteq> expand_into E prk (test_info ''other_label'' ''test_info'') 32)"

section \<open>Lemmas\<close>

text \<open>A test passes from any state of the machine.\<close>

abbreviation returns :: "(Status, 'w, unit) rust \<Rightarrow> 'w \<Rightarrow> bool" where
  "returns test w \<equiv> ends test (\<lambda>r _. r = Ok ()) w"

lemma returns_assert: "b \<Longrightarrow> returns (assertM b) w"
  by (simp add: ends_def assertM_def returnM_def)

lemma ends_keygen:
  assumes "hpke_spec E" and "\<And>n pk sk m'. Kem_generate_keypair E X25519HkdfSha256_Kem n = (pk, sk) \<Longrightarrow> length pk = 32 \<Longrightarrow> length sk = 32 \<Longrightarrow>
      ends (f (X25519_public (X25519PublicKey pk), PrivateKey_from (SecretBox sk))) Q m'"
  shows "ends (bindM (unwrapM (generate_keypair E DhkemX25519HkdfSha256)) f) Q m"
proof -
  obtain pk sk where kp: "Kem_generate_keypair E X25519HkdfSha256_Kem (draws m) = (pk, sk)"
    by fastforce
  moreover from this have "length pk = 32" "length sk = 32"
    using length_keypair_public [OF assms(1), of X25519HkdfSha256_Kem "draws m"]
      length_keypair_private [OF assms(1), of X25519HkdfSha256_Kem "draws m"] by simp_all
  ultimately show ?thesis
    using generate_keypair_eq [OF assms(1) kp] assms(2) by (intro ends_unwrap)
qed

lemma ends_sender:
  assumes "hpke_spec E" and "Kem_generate_keypair E X25519HkdfSha256_Kem n = (pk, sk)"
    and "\<And>i ctx enc rcp m'. SenderContext_new E hpke_params pk [] i = Some (ctx, enc) \<Longrightarrow> length enc = 32 \<Longrightarrow>
      RecipientContext_new E hpke_params sk enc [] = Some rcp \<Longrightarrow>
      (\<And>pt aad. RecipientContext_open E rcp (SenderContext_seal E ctx pt aad) aad = Some pt) \<Longrightarrow> ends (f (ctx, enc)) Q m'"
  shows "ends (bindM (test_sender E (X25519_public (X25519PublicKey pk))) f) Q m"
proof -
  obtain ctx enc where sender: "SenderContext_new E hpke_params pk [] (draws m) = Some (ctx, enc)"
    using sender_exists [OF assms(1), of hpke_params X25519HkdfSha256_Kem n "[]" "draws m"] assms(2) by auto
  moreover have "length enc = 32"
    by (rule length_enc [OF assms(1) sender])
  moreover obtain rcp where "RecipientContext_new E hpke_params sk enc [] = Some rcp"
    "\<And>pt aad. RecipientContext_open E rcp (SenderContext_seal E ctx pt aad) aad = Some pt"
    using hpke_open_seal [OF assms(1), of hpke_params X25519HkdfSha256_Kem n "[]" "draws m" ctx enc] assms(2) sender by auto
  ultimately have "ends (f (ctx, enc)) Q (m\<lparr>draws := Suc (draws m)\<rparr>)"
    by (rule assms(3))
  then show ?thesis
    using sender by (simp add: test_sender_def ends_def bindM_def draw_def expectM_def ok_orM_def returnM_def)
qed

lemma hpke_open_recipient:
  assumes "suite_supported E algo" and "RecipientContext_new E hpke_params sk enc [] = Some rcp"
  shows "hpke_open E (PrivateKey_from (SecretBox sk)) enc ct aad algo m =
     (case RecipientContext_open E rcp ct aad of None \<Rightarrow> Err DecryptionFailure | Some pt \<Rightarrow> Ok (SecretBox pt), m)"
  using assms by (simp add: hpke_open_def hpke_open_internal_def x25519_hpke_open_internal_def PrivateKey_from_def basicM_defs ok_orM_def
      SecretBox_new_def split: option.splits)

lemma returns_err: "fst (m w) = Err s \<Longrightarrow> returns (assert_errM s m) w"
  by (cases "m w") (simp add: ends_def assert_errM_def assertM_def returnM_def)

lemma decaps_ready:
  assumes "testbed E" and "Kem_generate_keypair E X25519HkdfSha256_Kem n = (pk, sk)"
    and "SenderContext_new E p pk info i = Some (ctx, enc)"
  shows "\<exists>ss. decaps E (PrivateKey_from (SecretBox sk)) enc m = (Ok ss, m) \<and> length (as_slice ss) = 32"
proof -
  note spec = testbedD [OF assms(1)]
  obtain dh where "compute_shared_key E sk enc = Some dh"
    using spec(9) assms(2,3) unfolding exchange_spec_def by (metis option.exhaust snd_conv)
  moreover have "length sk = 32" "length enc = 32"
    using length_keypair_private [OF spec(2), of X25519HkdfSha256_Kem n] assms(2) length_enc [OF spec(2) assms(3)] by simp_all
  moreover obtain ss where "rfc_ExtractAndExpand E dh (enc @ to_public E sk) = Some ss" "length ss = 32"
    using expand_exists [OF spec(8)] length_expand [OF spec(8)]
    by (fastforce simp: rfc_ExtractAndExpand_def rfc_LabeledExpand_def Let_def)
  ultimately show ?thesis
    by (simp add: decaps_def decaps_internal_def PrivateKey_from_def x25519_decaps_internal_rfc)
qed

lemma tampered:
  assumes "authentic E" and "Kem_generate_keypair E X25519HkdfSha256_Kem n = (pk, sk)"
    and "SenderContext_new E hpke_params pk [] i = Some (ctx, enc)" and "RecipientContext_new E hpke_params sk enc [] = Some rcp"
  shows "SenderContext_seal E ctx pt aad = c # cs \<Longrightarrow> RecipientContext_open E rcp ((c XOR 1) # cs) aad = None"
    and "length aad = length aad' \<Longrightarrow> length aad \<le> 16 \<Longrightarrow> aad \<noteq> aad' \<Longrightarrow>
      RecipientContext_open E rcp (SenderContext_seal E ctx pt aad) aad' = None"
  using assms(1) [unfolded authentic_def, rule_format, of X25519HkdfSha256_Kem n i ctx enc rcp] assms(2-4) by auto

lemma crypto_passes:
  assumes "testbed E" and "authentic E"
  shows "returns (test_decaps_wrapper E) m"
    and "returns (test_decaps_unsupported E) m"
    and "returns (test_hpke_open_success E) m"
    and "returns (test_hpke_open_failure E) m"
    and "returns (test_hpke_bad_aad E) m"
    and "returns (test_hpke_seal_success E) m"
    and "returns (test_generate_kem_success E) m"
    and "returns (test_generate_hpke_success E) m"
    and "returns (test_generate_hpke_unsupported E) m"
proof -
  note spec = testbedD [OF assms(1)]
  note suite = algorithm_decodes(3) [OF spec(5)]
  note opened = hpke_open_recipient [OF suite]
  show "returns (test_decaps_wrapper E) m"
    unfolding test_decaps_wrapper_def
    apply (rule ends_keygen [OF spec(2)], simp only: prod.case, rule ends_sender [OF spec(2)], assumption, simp only: prod.case)
    subgoal for n pk sk m1 i ctx enc rcp m2
      using decaps_ready [OF assms(1), of n pk sk hpke_params "[]" i ctx enc m2]
      by (auto intro!: ends_unwrap [of _ m2 _ m2] returns_assert)
    done
  show "returns (test_decaps_unsupported E) m"
    unfolding test_decaps_unsupported_def Let_def
    apply (rule ends_keygen [OF spec(2)], simp only: prod.case, rule returns_err)
    using spec(5) apply (simp add: hpke_open_def hpke_open_internal_def PrivateKey_from_def x25519_hpke_open_internal_def suite_supported_def prost_specD errM_def)
    done
  show "returns (test_hpke_open_success E) m"
    unfolding test_hpke_open_success_def Let_def
    by (rule ends_keygen [OF spec(2)], simp only: prod.case, rule ends_sender [OF spec(2)], assumption, simp only: prod.case,
        rule ends_unwrap, simp add: opened, rule returns_assert, simp)
  show "returns (test_hpke_open_failure E) m"
    unfolding test_hpke_open_failure_def Let_def
    apply (rule ends_keygen [OF spec(2)], simp only: prod.case, rule ends_sender [OF spec(2)], assumption, simp only: prod.case,
        rule returns_err)
    subgoal for n pk sk m1 i ctx enc rcp m2
      using tampered(1) [OF assms(2), of n pk sk i ctx enc rcp] length_seal [OF spec(2), of ctx "byte_string ''hello world''" "byte_string ''additional data''"]
      by (cases "SenderContext_seal E ctx (byte_string ''hello world'') (byte_string ''additional data'')") (auto simp: opened)
    done
  show "returns (test_hpke_bad_aad E) m"
    unfolding test_hpke_bad_aad_def Let_def
    apply (rule ends_keygen [OF spec(2)], simp only: prod.case, rule ends_sender [OF spec(2)], assumption, simp only: prod.case,
        rule returns_err)
    subgoal for n pk sk m1 i ctx enc rcp m2
      using tampered(2) [OF assms(2), of n pk sk i ctx enc rcp "byte_string ''foo''" "byte_string ''bar''"]
      by (simp add: opened byte_string_def)
    done
  show "returns (test_hpke_seal_success E) m"
    unfolding test_hpke_seal_success_def Let_def
    apply (rule ends_keygen [OF spec(2)], simp only: prod.case)
    subgoal for n pk sk m1
    proof -
      assume kp: "Kem_generate_keypair E X25519HkdfSha256_Kem n = (pk, sk)"
      then have pair: "key_pair E n = (X25519_public (X25519PublicKey pk), PrivateKey_from (SecretBox sk))"
        by (simp add: key_pair_def)
      let ?pt = "SecretBox_new (byte_string ''hello world'')" and ?aad = "byte_string ''additional data''"
      obtain enc ct m2 where run: "hpke_seal E (X25519_public (X25519PublicKey pk)) ?pt ?aad fuzz_algorithm m1 = (Ok (enc, ct), m2)"
        using hpke_seal_total [OF spec(2) suite, of n ?pt ?aad m1] pair by auto
      show ?thesis
        by (rule ends_unwrap, rule run, simp only: prod.case, rule ends_unwrap,
            rule conjunct1 [OF open_seal_pair [OF spec(2) suite pair run]], rule returns_assert, rule refl)
    qed
    done
  show "returns (test_generate_kem_success E) m" "returns (test_generate_hpke_success E) m"
    unfolding test_generate_kem_success_def test_generate_hpke_success_def
    by (rule ends_keygen [OF spec(2)], simp only: prod.case, rule returns_assert, simp)+
  show "returns (test_generate_hpke_unsupported E) m"
    unfolding test_generate_hpke_unsupported_def by (rule returns_err) (simp add: generate_keypair_def errM_def)
qed

lemma labeled_passes:
  assumes "hkdf_spec E" and "no_collision E"
  shows "returns (test_labeled_extract_and_expand E) m"
proof -
  have expand: "ends (bindM (test_expand E prk info n) f) Q w" if "\<And>out. expand_into E prk info n = Some out \<Longrightarrow> length out = n \<Longrightarrow> ends (f out) Q w"
    and "n \<le> 255 * 32" for prk info n f Q and w :: "'z machine_scheme"
    using expand_exists [OF assms(1) that(2), of prk info] that(1) length_expand [OF assms(1), of prk info n]
    by (auto simp: test_expand_def ends_def bindM_def expectM_def ok_orM_def returnM_def)
  have labeled: "ends (bindM (unwrapM (labeled_expand E prk label info suite n)) f) Q w"
    if "\<And>out. expand_into E prk (concat [u16_to_be_bytes n, byte_string ''HPKE-v1'', suite, label, info]) (unat n) = Some out \<Longrightarrow>
        length out = unat n \<Longrightarrow> ends (f (SecretBox_new out)) Q w" and "unat n \<le> 255 * 32" for prk label info suite n f Q and w :: "'z machine_scheme"
    using expand_exists [OF assms(1) that(2), of prk "concat [u16_to_be_bytes n, byte_string ''HPKE-v1'', suite, label, info]"] that(1)
      length_expand [OF assms(1), of prk _ "unat n"]
    by (auto simp: labeled_expand_def Let_def ends_def bindM_def unwrapM_def errM_def returnM_def)
  note differ = assms(2) [unfolded no_collision_def test_info_def]
  show ?thesis
    unfolding test_labeled_extract_and_expand_def Let_def
    apply (rule expand)
    apply (rule expand)
    apply (rule ends_assert)
    apply (simp add: labeled_extract_def Let_def)
    apply (rule labeled)
    apply (rule expand)
    apply (rule ends_assert)
    apply (simp add: labeled_extract_def Let_def)
    apply (rule labeled)
    apply (rule ends_assert, simp)
    apply (rule expand)
    apply (rule ends_assert)
    apply (simp add: labeled_extract_def Let_def)
    apply (rule labeled)
    apply (rule ends_assert)
    subgoal using differ by (simp add: labeled_extract_def Let_def) metis
    apply (rule labeled)
    apply (rule returns_assert)
    subgoal using differ by (simp add: labeled_extract_def Let_def) metis
    apply simp_all
    done
qed

lemma memory_passes:
  assumes "testbed E" and "60 \<le> length junk"
  shows "returns test_secret_box_creation w" and "returns test_secret_box_modification w" and "returns test_secret_box_from_vec w"
    and "returns test_secret_box_as_ref w" and "returns (test_secret_box_with_excess_capacity_preserves_contents E junk) w"
  subgoal by (simp add: test_secret_box_creation_def returns_assert)
  subgoal by (simp add: test_secret_box_modification_def as_mut_slice_set_def returns_assert)
  subgoal by (simp add: test_secret_box_from_vec_def returns_assert)
  subgoal by (simp add: test_secret_box_as_ref_def returns_assert)
  subgoal
    unfolding test_secret_box_with_excess_capacity_preserves_contents_def Let_def
    by (rule ends_assert) (use assms(2) in \<open>auto simp: capacity_def SecretBox_new_alloc_def intro: returns_assert\<close>)
  done

lemma ends_vault:
  assumes "testbed E" and "\<And>m'. 2 \<le> syscalls m' \<Longrightarrow> ends (f \<lparr>mmap = data\<rparr>) Q m'"
  shows "ends (bindM (test_vault E data) f) Q m"
  using Vault_new_total [OF testbedD(6,10) [OF assms(1)], of "SecretBox_new data" m] assms(2)
  by (simp add: test_vault_def ends_def bindM_def expectM_def)

lemma returns_update: "returns (updateM f) w"
  by (simp add: ends_def updateM_def)

lemma vault_passes:
  assumes "testbed E"
  shows "returns (test_vault_creation_and_retrieval E) m" and "returns (test_vault_with_empty_data E) m"
    and "returns (test_multiple_vaults E) m" and "returns (test_large_vault E) m" and "returns (test_zeroize_on_drop E) m"
  subgoal
    unfolding test_vault_creation_and_retrieval_def Let_def
    by (rule ends_vault [OF assms], rule ends_assert, simp add: get_secret_def, rule returns_update)
  subgoal
    unfolding test_vault_with_empty_data_def Let_def
    by (rule ends_vault [OF assms], rule ends_assert, simp add: get_secret_def, rule returns_update)
  subgoal
    unfolding test_multiple_vaults_def
    by (rule ends_vault [OF assms], rule ends_vault [OF assms], rule ends_assert, simp add: get_secret_def byte_string_def, rule ends_assert,
        simp add: get_secret_def, rule ends_assert, simp add: get_secret_def, rule ends_bindI, simp add: updateM_def, rule returns_update)
  subgoal
    unfolding test_large_vault_def Let_def
    by (rule ends_vault [OF assms], rule ends_assert, simp add: get_secret_def, rule returns_update)
  subgoal
    unfolding test_zeroize_on_drop_def Let_def
    apply (rule ends_vault [OF assms])
    subgoal for m'
      using map_granted [OF assms, of "syscalls m'" "length (byte_string ''secret to be zeroed'')"] testbedD(4) [OF assms]
      by (auto simp: ends_def bindM_def spy_map_def spy_read_def syscall_def assertM_def returnM_def updateM_def zeroize_spec_def list_all_iff
          split: option.splits)
    done
  done

lemma KccOperation_iter_all: "set KccOperation_iter = UNIV" "set FailureKind_iter = UNIV"
  unfolding KccOperation_iter_def FailureKind_iter_def using KccOperation.exhaust FailureKind.exhaust by auto

lemma telemetry_passes:
  shows "returns test_report_failure_does_not_panic w" and "returns test_all_operations_descriptor_invariants v"
    and "returns test_all_operations_report_failure_without_panicking w"
    and "returns ffi_success_does_not_report_a_failure u" and "returns ffi_error_reports_one_typed_failure u"
  subgoal by (simp add: test_report_failure_does_not_panic_def returns_update)
  subgoal
    by (simp add: test_all_operations_descriptor_invariants_def KccOperation_iter_def ends_def bindM_def assertM_def returnM_def is_snake_def)
  subgoal
    by (simp add: test_all_operations_report_failure_without_panicking_def KccOperation_iter_def FailureKind_iter_def ends_def bindM_def updateM_def returnM_def)
  subgoal
    by (simp add: ffi_success_does_not_report_a_failure_def ends_def bindM_def store_def updateM_def callM_def ffi_call_with_reporter_def returnM_def assertM_def read_entries_def)
  subgoal
    by (simp add: ffi_error_reports_one_typed_failure_def ends_def bindM_def store_def updateM_def callM_def ffi_call_with_reporter_def errM_def returnM_def assertM_def
        read_entries_def set_failure_def)
  done

section \<open>The suites\<close>

definition library_tests :: "('s, 'r, 'p) env \<Rightarrow> bytes \<Rightarrow> nat \<Rightarrow> nat \<Rightarrow> (Status, 'z machine_scheme, unit) rust list" where
  "library_tests E junk early late =
     [test_create_binding_key_success E, test_create_bound_kem_success E, test_add_key E, test_remove_key E,
      test_get_key_liveness E, test_reaper_functionality early late E, test_list_all_keys_filters_expired E,
      test_decaps_wrapper E, test_decaps_unsupported E, test_hpke_open_success E, test_hpke_open_failure E,
      test_hpke_bad_aad E, test_hpke_seal_success E, test_generate_kem_success E, test_generate_hpke_success E,
      test_generate_hpke_unsupported E, test_labeled_extract_and_expand E,
      test_secret_box_creation, test_secret_box_modification, test_secret_box_from_vec, test_secret_box_as_ref,
      test_secret_box_with_excess_capacity_preserves_contents E junk,
      test_vault_creation_and_retrieval E, test_vault_with_empty_data E, test_multiple_vaults E, test_large_vault E,
      test_zeroize_on_drop E, test_all_operations_descriptor_invariants]"

definition wrapper_tests :: "(Status, Failure world, unit) rust list" where
  "wrapper_tests =
     [test_report_failure_does_not_panic, test_all_operations_report_failure_without_panicking,
      ffi_success_does_not_report_a_failure, ffi_error_reports_one_typed_failure]"

lemma library_tests_return:
  assumes "testbed E" and "authentic E" and "no_collision E"
    and "\<And>n. snd (Kem_generate_keypair E X25519HkdfSha256_Kem n) \<noteq> replicate 32 0"
    and "60 \<le> length junk" and "brisk m" and "paced early late m"
  shows "list_all (\<lambda>test. returns test m) (library_tests E junk early late)"
    and "list_all (\<lambda>test. returns test w) wrapper_tests"
  by (simp_all add: library_tests_def wrapper_tests_def telemetry_passes create_passes [OF assms(1,6)] registry_passes [OF assms(1,6)]
      remove_passes [OF assms(1,4,6)] reaper_passes [OF assms(1,6,7)] crypto_passes [OF assms(1,2)]
      labeled_passes [OF testbedD(8) [OF assms(1)] assms(3)] memory_passes [OF assms(1,5)] vault_passes [OF assms(1)])

end
