(* ===== verification/Test_Properties.thy ===== *)
theory Test_Properties
  imports Kps_Tests Ws_Tests Library_Tests
begin

text \<open>
  What the unit tests of the two custody cores come to: they pass, one after the other in any order, and one of them is
  undefined behaviour before it gets to its last assertion. The witnesses run them in an environment that draws version 4
  handles.
\<close>

unbundle bit_operations_syntax

section \<open>A test run\<close>

text \<open>The reaper thread that the first key has started may wake up between two tests.\<close>

definition reaper_tick :: "('s, 'r, 'p) env \<Rightarrow> (Status, 'e world, unit) rust" where
  "reaper_tick E = updateM (static_reaper_wakeup E)"

lemma reaper_tick_passes:
  assumes "testbed E"
  shows "passes P (reaper_tick E)"
  unfolding passes_def
proof (intro allI impI)
  fix k and w :: "'e world" assume w: "poised P k Map.empty w"
  then have inv: "core_inv P w"
    by (simp add: poised_def calm_def)
  let ?v = "static_reaper_wakeup E w"
  have sub: "contents ?v \<subseteq>\<^sub>m contents w"
    using reaper_wakeup_contents [OF inv, of E] by (auto simp: map_le_def unexpired_def split: option.splits if_splits)
  then have "dom (contents ?v) \<subseteq> dom (contents w)"
    by (rule map_le_implies_dom_le)
  moreover from this have "card (dom (contents ?v)) \<le> card (dom (contents w))"
    using w by (intro card_mono) (auto simp: poised_def)
  moreover have "calm P ?v" "brisk ?v"
    using w calm_reaper [OF testbedD(4) [OF assms]] brisk_advances reaper_evolves [OF inv, of E]
    by (auto simp: poised_def evolves_def)
  ultimately have "poised P (Suc k) Map.empty ?v"
    using w by (auto simp: poised_def dest: finite_subset)
  then show "ends (reaper_tick E) (clean P (Suc k)) w"
    by (simp add: ends_def clean_def reaper_tick_def updateM_def)
qed

lemma suite_passes_started:
  assumes "testbed E" and "list_all (passes P) tests" and "started w" and "brisk w"
    and "set ts \<subseteq> insert (reaper_tick E) (set tests)" and "length ts \<le> 30"
  shows "list_all (\<lambda>r. r = Ok ()) (fst (session (\<lambda>test. test) ts w))"
proof (rule suite_passes [of P])
  show "list_all (passes P) ts"
    using assms(2,5) reaper_tick_passes [OF assms(1), of P] by (auto simp: list_all_iff)
qed (use assms poised_started [of w P 0] in auto)

section \<open>An environment for tests\<close>

definition test_tag :: "bytes \<Rightarrow> bytes \<Rightarrow> bytes" where
  "test_tag pt aad = map2 (+) (ref_pad 16 aad) (ref_pad 16 pt)"

definition test_env :: "(bytes, bytes, bytes) env" where
  "test_env = ref_env\<lparr>
     Uuid_new_v4 := \<lambda>n. Uuid (replicate 6 0 @ [64] @ replicate 9 (word_of_nat n)),
     Kem_generate_keypair := \<lambda>_ n. (1 # replicate 31 (word_of_nat n), 1 # replicate 31 (word_of_nat n)),
     SenderContext_seal := \<lambda>_ pt aad. pt @ test_tag pt aad,
     RecipientContext_open := \<lambda>_ ct aad.
       let n = length ct - 16 in if 16 \<le> length ct \<and> drop n ct = test_tag (take n ct) aad then Some (take n ct) else None,
     expand_into := \<lambda>_ info n. if n \<le> 255 * 32 then Some (ref_pad n (rev info)) else None\<rparr>"

lemma length_test_tag [simp]: "length (test_tag pt aad) = 16"
  by (simp add: test_tag_def)

lemma test_env_testbed: "testbed test_env"
proof -
  have "prost_spec test_env" "zeroize_spec test_env" "secretmem_spec test_env"
    using ref_specs by (simp_all add: test_env_def prost_spec_def zeroize_spec_def secretmem_spec_def)
  moreover have "uuid_spec test_env" "hkdf_spec test_env"
    by (auto simp: test_env_def uuid_spec_def hkdf_spec_def split: if_splits)
  moreover have "hpke_spec test_env"
    by (auto simp: test_env_def hpke_spec_def ref_env_def)
  moreover have "x25519_spec test_env"
    using ref_x25519_spec by (auto simp: test_env_def x25519_spec_def ref_env_def)
  moreover have "exchange_spec test_env"
    by (simp add: test_env_def exchange_spec_def ref_env_def)
  moreover have "vault_granted test_env i n" "threads_granted test_env" for i n
    by (simp_all add: test_env_def vault_granted_def threads_granted_def ref_env_def)
  moreover have "length (ref_encode fuzz_algorithm) = 12"
    by (simp add: ref_encode_def)
  then have "encode_to_vec test_env fuzz_algorithm \<noteq> []" "HpkeAlgorithm_decode test_env [0xFF, 0xFF] = None"
    by (auto simp: test_env_def ref_env_def ref_decode_def)
  moreover have "is_v4 (Uuid_new_v4 test_env n)" for n
    by (simp add: test_env_def is_v4_def nth_append)
  moreover have "hd (fst (Kem_generate_keypair test_env k n)) \<noteq> hd (replicate 32 0)" for k n
    by (simp add: test_env_def)
  then have "fst (Kem_generate_keypair test_env k n) \<noteq> replicate 32 0" for k n
    by metis
  ultimately show ?thesis
    by (simp add: testbed_def host_spec_def crates_spec_def)
qed

lemma test_tag_aad:
  assumes "test_tag pt aad = test_tag pt aad'" and "length aad = length aad'" and "length aad \<le> 16"
  shows "aad = aad'"
proof -
  have "ref_pad 16 aad ! i = ref_pad 16 aad' ! i" if "i < 16" for i
    using arg_cong [OF assms(1), of "\<lambda>bs. bs ! i"] that by (simp add: test_tag_def)
  then have "ref_pad 16 aad = ref_pad 16 aad'"
    by (intro nth_equalityI) simp_all
  from arg_cong [OF this, of "take (length aad)"] show ?thesis
    using assms(2,3) by (simp add: ref_pad_def)
qed

lemma xor_one_neq: "(c :: byte) XOR 1 \<noteq> c"
proof
  assume "c XOR 1 = c"
  from arg_cong [OF this, of "\<lambda>x. bit x 0"] show False
    by (simp add: bit_xor_iff bit_1_iff)
qed

lemma test_tag_flip: "test_tag ((c XOR 1) # pt) aad \<noteq> test_tag (c # pt) aad"
proof
  assume "test_tag ((c XOR 1) # pt) aad = test_tag (c # pt) aad"
  from arg_cong [OF this, of "\<lambda>bs. bs ! 0"] have "c XOR 1 = c"
    by (simp add: test_tag_def ref_pad_def)
  then show False
    using xor_one_neq by blast
qed

lemma test_env_authentic: "authentic test_env"
proof -
  have "RecipientContext_open test_env rcp ((c XOR 1) # cs) aad = None" if "pt @ test_tag pt aad = c # cs" for rcp pt aad c cs
  proof (cases pt)
    case Nil
    then have "(c XOR 1) # cs \<noteq> test_tag [] aad" "length ((c XOR 1) # cs) = 16"
      using that xor_one_neq [of c] length_test_tag [of "[]" aad] by auto
    then show ?thesis
      by (simp add: test_env_def Let_def del: length_Cons)
  next
    case (Cons b pt')
    then have cs: "cs = pt' @ test_tag (c # pt') aad"
      using that by auto
    show ?thesis
      using test_tag_flip [of c pt' aad] by (simp add: test_env_def Let_def cs)
  qed
  moreover have "RecipientContext_open test_env rcp (pt @ test_tag pt aad) aad' = None"
    if "length aad = length aad'" "length aad \<le> 16" "aad \<noteq> aad'" for rcp pt aad aad'
    using test_tag_aad that by (auto simp: test_env_def Let_def)
  ultimately show ?thesis
    by (simp add: authentic_def) (simp add: test_env_def)
qed

lemma test_env_no_collision: "no_collision test_env"
  by (simp add: no_collision_def test_env_def test_info_def ref_pad_def byte_string_def u16_to_be_bytes_def)

definition test_world :: "'e world" where
  "test_world = init_world (\<lambda>_. 0) Map.empty"

lemma test_world_ready: "started test_world" "brisk test_world"
  by (simp_all add: started_def brisk_def test_world_def init_world_def machine_init_def mono_def i64_max_def nanos_per_sec_def)

section \<open>Properties\<close>

text \<open>
  C28. The unit tests of both cores pass, in any order and any number of times up to 30 in a process, with the reaper
  waking up between them: for libraries with their documented behaviour and a kernel that grants memory and threads, each of the 19
  tests of the key protection core listed in \<open>kps_tests\<close> and each of the 14 tests of the workload core returns without a failed
  assertion, an \<^verbatim>\<open>unwrap\<close> of an error, another panic or undefined behaviour, and its guard leaves the core ready for the next test.
\<close>

theorem unit_tests_pass:
  assumes "testbed E"
    and "started w" and "brisk w" and "set ts \<subseteq> insert (reaper_tick E) (set (kps_tests E))" and "length ts \<le> 30"
    and "started v" and "brisk v" and "set us \<subseteq> insert (reaper_tick E) (set (ws_tests E))" and "length us \<le> 30"
  shows "list_all (\<lambda>r. r = Ok ()) (fst (session (\<lambda>test. test) ts w))
    \<and> list_all (\<lambda>r. r = Ok ()) (fst (session (\<lambda>test. test) us v))"
  using suite_passes_started [OF assms(1) kps_tests_pass assms(2-5)]
    suite_passes_started [OF assms(1) ws_tests_pass assms(6-9)] assms(1) by simp

theorem unit_tests_pass_witness:
  "list_all (\<lambda>r. r = Ok ()) (fst (session (\<lambda>test. test) (rev (kps_tests test_env)) test_world))
   \<and> list_all (\<lambda>r. r = Ok ()) (fst (session (\<lambda>test. test) (ws_tests test_env @ [reaper_tick test_env] @ ws_tests test_env) test_world))"
proof (rule unit_tests_pass [OF test_env_testbed test_world_ready _ _ test_world_ready])
  show "length (rev (kps_tests test_env)) \<le> 30"
    "length (ws_tests test_env @ [reaper_tick test_env] @ ws_tests test_env) \<le> 30"
    by (simp_all add: kps_tests_def ws_tests_def)
qed auto



text \<open>
  C30. The remaining test of the key protection core, \<^verbatim>\<open>test_get_kem_key_invalid_buffer_len\<close>, is undefined behaviour in every
  run: its last call announces a buffer of 33 bytes for an array of 32, and \<^verbatim>\<open>key_manager_get_kem_key\<close> makes a slice of it
  before it compares lengths, so the test never gets to its last assertion.
\<close>

theorem invalid_buffer_test_undefined:
  assumes "testbed E" and "started w" and "brisk w"
  shows "fst (test_get_kem_key_invalid_buffer_len E w) = Undefined"
  using invalid_buffer_undefined [OF assms(1), of 0 w] poised_started [OF assms(2,3)] by (simp add: bench_def ends_def)

theorem invalid_buffer_test_undefined_witness:
  "fst (test_get_kem_key_invalid_buffer_len test_env test_world) = Undefined"
  by (rule invalid_buffer_test_undefined [OF test_env_testbed test_world_ready])

end
