(* ===== verification/Interleaving.thy ===== *)
theory Interleaving
  imports Key_Release
begin

text \<open>
  The two calls that use a private key, \<^verbatim>\<open>key_manager_open\<close> and \<^verbatim>\<open>key_manager_decap_and_seal\<close>, when other threads run
  during the call. The registry is looked up once, under its lock, and the record that was found is held by reference until the
  call returns. So a call has two gaps: before the lookup, and between the lookup and the end. What the other threads do in
  them is an arbitrary change of the world, \<open>f\<close> in the first and \<open>g\<close> in the second, that leaves the buffers of the call alone.
  With nothing in the gaps these are the bodies of the cores.

  The theorem is linearizability: the call answers as if all of it had happened at the lookup.
\<close>

section \<open>Calls with gaps\<close>

definition open_interleaved :: "('e world \<Rightarrow> 'e world) \<Rightarrow> ('e world \<Rightarrow> 'e world) \<Rightarrow> ('s, 'r, 'p) env \<Rightarrow> ptr \<Rightarrow> ptr \<Rightarrow> usize \<Rightarrow>
    ptr \<Rightarrow> usize \<Rightarrow> ptr \<Rightarrow> usize \<Rightarrow> ptr \<Rightarrow> usize \<Rightarrow> (Status, 'e world, unit) rust" where
  "open_interleaved f g E uuid_bytes enc enc_len ciphertext ciphertext_len aad aad_len out_plaintext out_plaintext_len =
     (if is_null uuid_bytes \<or> is_null enc \<or> is_null ciphertext \<or> is_null out_plaintext \<or> out_plaintext_len = 0
      then errM InvalidArgument
      else
        bindM (from_raw_parts uuid_bytes 16) (\<lambda>uuid_slice.
        bindM (from_raw_parts enc enc_len) (\<lambda>enc_slice.
        bindM (from_raw_parts ciphertext ciphertext_len) (\<lambda>ct_slice.
        bindM (if \<not> is_null aad \<and> aad_len > 0 then from_raw_parts aad aad_len else returnM []) (\<lambda>aad_slice.
        bindM (from_raw_parts_mut out_plaintext out_plaintext_len) (\<lambda>out_plaintext_slice.
        bindM (ok_orM (Uuid_from_slice uuid_slice) InvalidArgument) (\<lambda>uuid.
        bindM (updateM f) (\<lambda>_.
        bindM (static_get_key E uuid) (\<lambda>found.
        bindM (updateM g) (\<lambda>_.
        bindM (ok_orM found NotFound) (\<lambda>record.
        bindM (case spec (meta record) of
            Binding algo _ \<Rightarrow> hpke_open E (get_private_key record) enc_slice ct_slice aad_slice algo
          | _ \<Rightarrow> errM InternalError) (\<lambda>pt.
        if unat out_plaintext_len \<noteq> length (as_slice pt) then errM InvalidArgument
        else copy_from_slice out_plaintext_slice (as_slice pt)))))))))))))"

definition decap_and_seal_interleaved :: "('e world \<Rightarrow> 'e world) \<Rightarrow> ('e world \<Rightarrow> 'e world) \<Rightarrow> ('s, 'r, 'p) env \<Rightarrow> ptr \<Rightarrow> ptr \<Rightarrow> usize \<Rightarrow>
    ptr \<Rightarrow> usize \<Rightarrow> ptr \<Rightarrow> usize \<Rightarrow> ptr \<Rightarrow> usize \<Rightarrow> (Status, 'e world, unit) rust" where
  "decap_and_seal_interleaved f g E uuid_bytes encapsulated_key encapsulated_key_len aad aad_len
       out_encapsulated_key out_encapsulated_key_len out_ciphertext out_ciphertext_len =
     (if is_null uuid_bytes \<or> is_null encapsulated_key \<or> encapsulated_key_len = 0
         \<or> is_null out_encapsulated_key \<or> out_encapsulated_key_len = 0
         \<or> is_null out_ciphertext \<or> out_ciphertext_len = 0
      then errM InvalidArgument
      else
        bindM (from_raw_parts uuid_bytes 16) (\<lambda>uuid_slice.
        bindM (from_raw_parts encapsulated_key encapsulated_key_len) (\<lambda>enc_key_slice.
        bindM (if \<not> is_null aad \<and> aad_len > 0 then from_raw_parts aad aad_len else returnM []) (\<lambda>aad_slice.
        bindM (from_raw_parts_mut out_encapsulated_key out_encapsulated_key_len) (\<lambda>out_enc_slice.
        bindM (from_raw_parts_mut out_ciphertext out_ciphertext_len) (\<lambda>out_ct_slice.
        bindM (ok_orM (Uuid_from_slice uuid_slice) InvalidArgument) (\<lambda>uuid.
        bindM (updateM f) (\<lambda>_.
        bindM (static_get_key E uuid) (\<lambda>found.
        bindM (updateM g) (\<lambda>_.
        bindM (ok_orM found NotFound) (\<lambda>key_record.
        case spec (meta key_record) of
          KemWithBindingPub hpke_algo _ binding_pk \<Rightarrow>
            bindM (decaps E (get_private_key key_record) enc_key_slice) (\<lambda>shared_secret.
            bindM (hpke_seal E binding_pk shared_secret aad_slice hpke_algo) (\<lambda>(enc, ct).
            if slice_len out_enc_slice \<noteq> length enc \<or> slice_len out_ct_slice \<noteq> length ct
            then errM InvalidArgument
            else
              bindM (copy_from_slice out_enc_slice enc) (\<lambda>_.
              copy_from_slice out_ct_slice ct)))
        | _ \<Rightarrow> errM InternalError)))))))))))"

text \<open>Other threads leave the buffers of a call alone.\<close>

definition leaves :: "ptr set \<Rightarrow> ('e world \<Rightarrow> 'e world) \<Rightarrow> bool" where
  "leaves ps f \<longleftrightarrow> (\<forall>w. \<forall>p \<in> ps. mem (f w) p = mem w p)"

section \<open>Lemmas\<close>

lemma bindM_updateM_id: "bindM (updateM (\<lambda>w. w)) k = k ()"
  by (simp add: fun_eq_iff bindM_def updateM_def)

text \<open>With nothing in the gaps.\<close>

lemma interleaved_alone:
  "open_interleaved (\<lambda>w. w) (\<lambda>w. w) E = open_body E"
  "decap_and_seal_interleaved (\<lambda>w. w) (\<lambda>w. w) E = decap_and_seal_body E"
  by (simp_all add: fun_eq_iff open_interleaved_def open_body_def open_internal_def decap_and_seal_interleaved_def
      decap_and_seal_body_def decap_and_seal_internal_def bindM_updateM_id bindM_assoc)

lemma leaves_buf:
  assumes "leaves ps f" and "p \<in> ps"
  shows "buf p n (f w) = buf p n w" "valid_buf p n (f w) = valid_buf p n w" "aad_buf p n (f w) = aad_buf p n w"
  using assms by (simp_all add: leaves_def buf_def valid_buf_def aad_buf_def)

lemma static_get_key_gap:
  assumes "core_inv P v" and "usable E v"
  shows "bindM (static_get_key E h) (\<lambda>found. bindM (updateM g) (\<lambda>_. bindM (ok_orM found NotFound) k)) v =
     (case unexpired (clock v (ticks v)) (contents v h) of
        None \<Rightarrow> (Err NotFound, g (looked_up h v))
      | Some rec \<Rightarrow> k rec (g (looked_up h v)))"
  by (simp add: bindM_def [of "static_get_key _ _"] static_get_key_eq [OF assms] bindM_def [of "updateM g"] updateM_def looked_up_def
      errM_def split: option.splits)

lemma open_interleaved_eq:
  assumes inv: "core_inv (ws_record E) (f w)" and "usable E (f w)"
    and "open_present uuid_bytes enc ciphertext out_plaintext out_plaintext_len"
    and safe: "open_safe uuid_bytes enc enc_len ciphertext ciphertext_len aad aad_len out_plaintext out_plaintext_len w"
    and h: "h = Uuid (buf uuid_bytes 16 w)"
  shows "open_interleaved f g E uuid_bytes enc enc_len ciphertext ciphertext_len aad aad_len out_plaintext out_plaintext_len w =
     (case unexpired (clock (f w) (ticks (f w))) (contents (f w) h) of
        None \<Rightarrow> (Err NotFound, g (looked_up h (f w)))
      | Some rec \<Rightarrow>
          bindM (hpke_open E (get_private_key rec) (buf enc enc_len w) (buf ciphertext ciphertext_len w)
              (aad_buf aad aad_len w) (spec_algo (spec (meta rec))))
            (\<lambda>pt. if unat out_plaintext_len \<noteq> length (as_slice pt) then errM InvalidArgument
               else updateM (\<lambda>v. v\<lparr>mem := write_mem out_plaintext (as_slice pt) (mem v)\<rparr>)) (g (looked_up h (f w))))"
proof -
  have len: "length (buf uuid_bytes 16 w) = 16"
    using safe buf_length [of uuid_bytes 16 w] by (simp add: open_safe_def)
  have "open_interleaved f g E uuid_bytes enc enc_len ciphertext ciphertext_len aad aad_len out_plaintext out_plaintext_len w =
     bindM (static_get_key E h) (\<lambda>found.
        bindM (updateM g) (\<lambda>_.
        bindM (ok_orM found NotFound) (\<lambda>record.
        bindM (case spec (meta record) of
            Binding algo _ \<Rightarrow> hpke_open E (get_private_key record) (buf enc enc_len w) (buf ciphertext ciphertext_len w) (aad_buf aad aad_len w) algo
          | _ \<Rightarrow> errM InternalError) (\<lambda>pt.
        if unat out_plaintext_len \<noteq> length (as_slice pt) then errM InvalidArgument
        else copy_from_slice (SliceMut out_plaintext (unat out_plaintext_len)) (as_slice pt))))) (f w)"
    using assms(3) safe aad_slice_eq [of aad aad_len w] len h
    by (simp add: open_interleaved_def open_present_def open_safe_def
        bindM_def [of "from_raw_parts _ _"] bindM_def [of "from_raw_parts_mut _ _"]
        bindM_def [of "if _ then _ else _"] from_raw_parts_valid from_raw_parts_mut_valid
        Uuid_from_slice_def try_into_array_def bindM_def [of "updateM f"] updateM_def)
  then show ?thesis
    unfolding static_get_key_gap [OF inv assms(2)]
    by (auto simp: write_simps split: option.splits dest!: ws_found_kind [OF inv] intro!: arg_cong2 [where f = bindM, THEN fun_cong] ext)
qed

lemma decap_and_seal_interleaved_eq:
  assumes inv: "core_inv (kps_record E) (f w)" and "usable E (f w)"
    and "decap_present uuid_bytes encapsulated_key encapsulated_key_len
       out_encapsulated_key out_encapsulated_key_len out_ciphertext out_ciphertext_len"
    and safe: "decap_safe uuid_bytes encapsulated_key encapsulated_key_len aad aad_len
       out_encapsulated_key out_encapsulated_key_len out_ciphertext out_ciphertext_len w"
    and h: "h = Uuid (buf uuid_bytes 16 w)"
  shows "decap_and_seal_interleaved f g E uuid_bytes encapsulated_key encapsulated_key_len aad aad_len
       out_encapsulated_key out_encapsulated_key_len out_ciphertext out_ciphertext_len w =
     (case unexpired (clock (f w) (ticks (f w))) (contents (f w) h) of
        None \<Rightarrow> (Err NotFound, g (looked_up h (f w)))
      | Some rec \<Rightarrow>
          bindM (reseal E rec (buf encapsulated_key encapsulated_key_len w) (aad_buf aad aad_len w))
            (\<lambda>(enc, ct).
               if unat out_encapsulated_key_len \<noteq> length enc \<or> unat out_ciphertext_len \<noteq> length ct
               then errM InvalidArgument
               else updateM (\<lambda>v. v\<lparr>mem := write_mem out_ciphertext ct
                       (write_mem out_encapsulated_key enc (mem v))\<rparr>)) (g (looked_up h (f w))))"
proof -
  have len: "length (buf uuid_bytes 16 w) = 16"
    using safe buf_length [of uuid_bytes 16 w] by (simp add: decap_safe_def)
  have "decap_and_seal_interleaved f g E uuid_bytes encapsulated_key encapsulated_key_len aad aad_len
       out_encapsulated_key out_encapsulated_key_len out_ciphertext out_ciphertext_len w =
     bindM (static_get_key E h) (\<lambda>found.
        bindM (updateM g) (\<lambda>_.
        bindM (ok_orM found NotFound) (\<lambda>key_record.
        case spec (meta key_record) of
          KemWithBindingPub hpke_algo _ binding_pk \<Rightarrow>
            bindM (decaps E (get_private_key key_record) (buf encapsulated_key encapsulated_key_len w)) (\<lambda>shared_secret.
            bindM (hpke_seal E binding_pk shared_secret (aad_buf aad aad_len w) hpke_algo) (\<lambda>(enc, ct).
            if slice_len (SliceMut out_encapsulated_key (unat out_encapsulated_key_len)) \<noteq> length enc
               \<or> slice_len (SliceMut out_ciphertext (unat out_ciphertext_len)) \<noteq> length ct
            then errM InvalidArgument
            else
              bindM (copy_from_slice (SliceMut out_encapsulated_key (unat out_encapsulated_key_len)) enc) (\<lambda>_.
              copy_from_slice (SliceMut out_ciphertext (unat out_ciphertext_len)) ct)))
        | _ \<Rightarrow> errM InternalError))) (f w)"
    using assms(3) safe aad_slice_eq [of aad aad_len w] len h
    by (simp add: decap_and_seal_interleaved_def decap_present_def decap_safe_def
        bindM_def [of "from_raw_parts _ _"] bindM_def [of "from_raw_parts_mut _ _"]
        bindM_def [of "if _ then _ else _"] from_raw_parts_valid from_raw_parts_mut_valid
        Uuid_from_slice_def try_into_array_def bindM_def [of "updateM f"] updateM_def)
  then show ?thesis
    unfolding static_get_key_gap [OF inv assms(2)]
    by (auto simp: write_simps reseal_def bindM_assoc split: option.splits dest!: kps_found_kind [OF inv]
        intro!: arg_cong2 [where f = bindM, THEN fun_cong] ext)
qed

text \<open>Opening reads nothing of the world; resealing draws once and is otherwise a function of its arguments.\<close>

lemma hpke_open_state: "hpke_open E sk enc ct aad algo m = (fst (hpke_open E sk enc ct aad algo m'), m)"
  by (cases sk) (simp add: hpke_open_def hpke_open_internal_def x25519_hpke_open_internal_def basicM_defs ok_orM_def bindM_def
      split: option.splits)

lemma draws_same: "draws m = d \<Longrightarrow> m\<lparr>draws := d\<rparr> = m"
  by (cases m) simp

lemma hpke_seal_state:
  assumes "draws m = draws m'"
  shows "\<exists>d. hpke_seal E pk pt aad algo m = (fst (hpke_seal E pk pt aad algo m'), m\<lparr>draws := d\<rparr>)"
proof (cases pk)
  case (X25519_public k)
  show ?thesis
  proof (cases "suite_supported E algo")
    case True
    then have "hpke_seal E pk pt aad algo m = (fst (hpke_seal E pk pt aad algo m'), m\<lparr>draws := Suc (draws m)\<rparr>)"
      using assms X25519_public
      by (simp add: hpke_seal_def hpke_seal_internal_def x25519_hpke_seal_internal_def errM_def returnM_def split: option.splits)
    then show ?thesis ..
  next
    case False
    then have "hpke_seal E pk pt aad algo m = (fst (hpke_seal E pk pt aad algo m'), m\<lparr>draws := draws m\<rparr>)"
      using X25519_public by (simp add: hpke_seal_def hpke_seal_internal_def x25519_hpke_seal_internal_def errM_def draws_same)
    then show ?thesis ..
  qed
qed

lemma reseal_state:
  assumes "draws m = draws m'"
  shows "\<exists>d. reseal E rec enc aad m = (fst (reseal E rec enc aad m'), m\<lparr>draws := d\<rparr>)"
proof -
  obtain r where dec: "decaps E (get_private_key rec) enc m = (r, m)" "decaps E (get_private_key rec) enc m' = (r, m')"
    using decaps_state [of E "get_private_key rec" enc m m'] decaps_state [of E "get_private_key rec" enc m' m'] by metis
  show ?thesis
  proof (cases r)
    case (Ok ss)
    then show ?thesis
      using hpke_seal_state [OF assms] by (simp add: reseal_def bindM_def dec)
  qed (auto simp: reseal_def bindM_def dec draws_same intro!: exI [of _ "draws m"])
qed

lemma write_mem_same: "m p = m' p \<Longrightarrow> write_mem p src m p = write_mem p src m' p"
  by (simp add: write_mem_def split: option.splits obj.splits)

lemma write_mem_frame: "p \<noteq> q \<Longrightarrow> write_mem p src m q = m q"
  by (simp add: write_mem_def split: option.splits obj.splits)

lemma open_linearizes:
  assumes "core_inv (ws_record E) (f w)" and "usable E (f w)"
    and "open_safe u e el c cl a al p pl w" and f: "leaves {u, e, c, a, p} f" and g: "leaves {u, e, c, a, p} g"
  shows "fst (open_interleaved f g E u e el c cl a al p pl w) = fst (open_body E u e el c cl a al p pl (f w))
    \<and> mem (snd (open_interleaved f g E u e el c cl a al p pl w)) p = mem (snd (open_body E u e el c cl a al p pl (f w))) p"
proof (cases "open_present u e c p pl")
  case True
  have bufs: "buf u 16 (f w) = buf u 16 w" "buf e el (f w) = buf e el w" "buf c cl (f w) = buf c cl w" "aad_buf a al (f w) = aad_buf a al w"
    "open_safe u e el c cl a al p pl (f w)"
    using leaves_buf [OF f] assms(3) by (simp_all add: open_safe_def)
  let ?h = "Uuid (buf u 16 w)"
  have mem: "mem (g (looked_up ?h (f w))) p = mem (looked_up ?h (f w)) p"
    using g by (simp add: leaves_def)
  show ?thesis
  proof (cases "unexpired (clock (f w) (ticks (f w))) (contents (f w) ?h)")
    case None
    then show ?thesis
      using mem by (simp add: open_interleaved_eq [where f = f, OF assms(1,2) True assms(3) refl]
          open_body_eq [OF assms(1,2) True bufs(5) refl] bufs(1-4))
  next
    case (Some rec)
    obtain r where "hpke_open E (get_private_key rec) (buf e el w) (buf c cl w) (aad_buf a al w) (spec_algo (spec (meta rec))) v = (r, v)"
      for v :: "'a world"
      using hpke_open_state by blast
    then show ?thesis
      using Some mem write_mem_same [of "mem (g (looked_up ?h (f w)))" p "mem (looked_up ?h (f w))"]
      by (cases r) (simp_all add: open_interleaved_eq [where f = f, OF assms(1,2) True assms(3) refl]
          open_body_eq [OF assms(1,2) True bufs(5) refl] bufs(1-4) bindM_def errM_def updateM_def)
  qed
next
  case False
  then show ?thesis
    using f by (auto simp: open_interleaved_def open_body_def open_present_def errM_def leaves_def)
qed

lemma decap_and_seal_linearizes:
  assumes "core_inv (kps_record E) (f w)" and "usable E (f w)"
    and "decap_safe u e el a al oe oel oc ocl w" and f: "leaves {u, e, a, oe, oc} f" and g: "leaves {u, e, a, oe, oc} g"
  shows "\<exists>d. fst (decap_and_seal_interleaved f g E u e el a al oe oel oc ocl w)
       = fst (decap_and_seal_body E u e el a al oe oel oc ocl ((f w)\<lparr>draws := d\<rparr>))
    \<and> (\<forall>p \<in> {oe, oc}. mem (snd (decap_and_seal_interleaved f g E u e el a al oe oel oc ocl w)) p
       = mem (snd (decap_and_seal_body E u e el a al oe oel oc ocl ((f w)\<lparr>draws := d\<rparr>))) p)"
proof (cases "decap_present u e el oe oel oc ocl")
  case True
  let ?h = "Uuid (buf u 16 w)"
  let ?g = "g (looked_up ?h (f w))"
  let ?w = "(f w)\<lparr>draws := draws ?g\<rparr>"
  have leaves: "leaves {u, e, a, oe, oc} (\<lambda>v. (f v)\<lparr>draws := draws ?g\<rparr>)"
    using f by (simp add: leaves_def)
  have bufs: "buf u 16 ?w = buf u 16 w" "buf e el ?w = buf e el w" "aad_buf a al ?w = aad_buf a al w"
    "decap_safe u e el a al oe oel oc ocl ?w"
    using leaves_buf [OF leaves, of _ _ w] assms(3) by (simp_all add: decap_safe_def)
  have same: "contents ?w = contents (f w)"
    by (rule contents_frame) simp
  have inv: "core_inv (kps_record E) ?w" "usable E ?w"
    using assms(1,2) same by (simp_all add: core_inv_def usable_def split: lazy_registry.splits)
  have mem: "mem ?g q = mem (looked_up ?h ?w) q" if "q \<in> {oe, oc}" for q
    using g that by (auto simp: leaves_def)
  note eqs = decap_and_seal_interleaved_eq [where f = f, OF assms(1,2) True assms(3) refl] decap_and_seal_body_eq [OF inv True bufs(4) refl]
    bufs(1-3) same
  show ?thesis
  proof (cases "unexpired (clock (f w) (ticks (f w))) (contents (f w) ?h)")
    case None
    then show ?thesis
      using mem by (intro exI [of _ "draws ?g"]) (simp add: eqs)
  next
    case (Some rec)
    obtain r d d' where reseal: "reseal E rec (buf e el w) (aad_buf a al w) ?g = (r, ?g\<lparr>draws := d\<rparr>)"
      "reseal E rec (buf e el w) (aad_buf a al w) (looked_up ?h ?w) = (r, (looked_up ?h ?w)\<lparr>draws := d'\<rparr>)"
      using reseal_state [of ?g "looked_up ?h ?w"] reseal_state [of "looked_up ?h ?w" "looked_up ?h ?w"] by fastforce
    have "write_mem oc ct (write_mem oe enc (mem ?g)) q = write_mem oc ct (write_mem oe enc (mem (looked_up ?h ?w))) q"
      if "q \<in> {oe, oc}" for enc ct q
      using that mem assms(3) write_mem_same [of "mem ?g" oe "mem (looked_up ?h ?w)" enc]
        write_mem_same [of "write_mem oe enc (mem ?g)" oc "write_mem oe enc (mem (looked_up ?h ?w))" ct]
      by (auto simp: write_mem_frame decap_safe_def)
    then show ?thesis
      using Some mem reseal
      by (intro exI [of _ "draws ?g"]) (cases r, auto simp: eqs bindM_def errM_def updateM_def)
  qed
next
  case False
  then show ?thesis
    using f by (auto simp: decap_and_seal_interleaved_def decap_and_seal_body_def decap_present_def errM_def leaves_def)
qed

section \<open>Property\<close>



end
