(* ===== verification/Cgo.thy ===== *)
theory Cgo
  imports Key_History Key_Release
begin

text \<open>
  How the Go servers reach the custody cores: \<^verbatim>\<open>km_common/proto/status.go\<close>,
  \<^verbatim>\<open>key_protection_service/key_custody_core/kps_key_custody_core_cgo.go\<close> and
  \<^verbatim>\<open>workload_service/key_custody_core/ws_key_custody_core_cgo.go\<close>. A wrapper lays out local arrays, passes their
  addresses to an exported function of the core and reads them afterwards. Here the arrays of a call are the objects of
  the caller's memory during the call, at the addresses 10, 20, 30 and so on; indexing an empty slice panics.

  Go code returns a value and an error; in the model it is a computation with errors of type \<open>go_error\<close>. An error keeps what
  \<^verbatim>\<open>errors.Is\<close> can see: the status it was made of and what it wraps. The text of messages is left out. The
  libraries the servers call are the parameter \<open>go_env\<close>; \<open>go_libs_spec\<close> is the behaviour they document.
\<close>

section \<open>Libraries\<close>

text \<open>\<^verbatim>\<open>google.golang.org/protobuf/proto\<close> and \<^verbatim>\<open>github.com/google/uuid\<close>.\<close>

record go_env =
  proto_Marshal :: "HpkeAlgorithm option \<Rightarrow> bytes option"
  proto_Unmarshal :: "bytes \<Rightarrow> HpkeAlgorithm option"
  uuid_FromBytes :: "bytes \<Rightarrow> uuid option"
  uuid_Parse :: "string \<Rightarrow> uuid option"
  uuid_String :: "uuid \<Rightarrow> string"

text \<open>
  The wire format is the one \<^verbatim>\<open>prost\<close> reads and writes, and a message without populated fields is zero bytes long. A
  \<^verbatim>\<open>uuid.UUID\<close> is an array of 16 bytes, \<^verbatim>\<open>String\<close> prints 36 characters, and \<^verbatim>\<open>Parse\<close> reads them.
\<close>

definition no_algorithm :: HpkeAlgorithm where
  "no_algorithm = \<lparr>kem = 0, kdf = 0, aead = 0\<rparr>"

definition go_libs_spec :: "('s, 'r, 'p) env \<Rightarrow> 'g go_env_scheme \<Rightarrow> bool" where
  "go_libs_spec E G \<longleftrightarrow>
     (\<forall>a. a \<noteq> no_algorithm \<longrightarrow> (\<exists>bs. proto_Marshal G (Some a) = Some bs \<and> bs \<noteq> [] \<and> length bs \<le> 33
        \<and> HpkeAlgorithm_decode E bs = Some a))
   \<and> proto_Marshal G (Some no_algorithm) = Some [] \<and> proto_Marshal G None = Some []
   \<and> (\<forall>a. proto_Unmarshal G (encode_to_vec E a) = Some a)
   \<and> (\<forall>bs. length bs = 16 \<longrightarrow> uuid_FromBytes G bs = Some (Uuid bs))
   \<and> (\<forall>u. length (as_bytes u) = 16 \<longrightarrow> uuid_Parse G (uuid_String G u) = Some u)
   \<and> (\<forall>s u. uuid_Parse G s = Some u \<longrightarrow> length (as_bytes u) = 16)
   \<and> (\<forall>u. length (uuid_String G u) = 36)"

section \<open>Errors\<close>

datatype code =
    OK | Canceled | Unknown | Code_InvalidArgument | DeadlineExceeded | Code_NotFound | Code_AlreadyExists
  | Code_PermissionDenied | ResourceExhausted | FailedPrecondition | Aborted | OutOfRange | Unimplemented
  | Internal | Unavailable | DataLoss | Code_Unauthenticated

text \<open>
  \<^verbatim>\<open>FFIStatus\<close> of \<^verbatim>\<open>status.go\<close>, whose code is any \<^verbatim>\<open>int32\<close>; an error of \<^verbatim>\<open>fmt.Errorf\<close> without and with \<^verbatim>\<open>%w\<close>;
  \<^verbatim>\<open>errors.Join\<close>; and a gRPC status.
\<close>

datatype go_error =
    FFIStatus i32
  | Errorf
  | Wrapped go_error
  | Joined "go_error list"
  | GrpcStatus code

fun FFIStatus_Is :: "i32 \<Rightarrow> Status \<Rightarrow> bool" where
  "FFIStatus_Is c target = (c = status_as_i32 target)"

fun errors_Is :: "go_error \<Rightarrow> Status \<Rightarrow> bool" where
  "errors_Is (FFIStatus c) target = FFIStatus_Is c target"
| "errors_Is Errorf target = False"
| "errors_Is (Wrapped e) target = errors_Is e target"
| "errors_Is (Joined es) target = (\<exists>e \<in> set es. errors_Is e target)"
| "errors_Is (GrpcStatus c) target = False"

definition ToStatus :: "i32 \<Rightarrow> go_error option" where
  "ToStatus e = (if e = status_as_i32 Success then None else Some (FFIStatus e))"

text \<open>A function that returns only an error, and \<^verbatim>\<open>if err != nil { return err }\<close> on the way.\<close>

definition go_result :: "go_error option \<Rightarrow> (go_error, 'w, unit) rust" where
  "go_result e = (case e of None \<Rightarrow> returnM () | Some err \<Rightarrow> errM err)"

text \<open>\<^verbatim>\<open>return zero, keymanager.Status(rc).ToStatus()\<close>.\<close>

definition ffi_failure :: "Status \<Rightarrow> 'a \<Rightarrow> (go_error, 'w, 'a) rust" where
  "ffi_failure rc zero = bindM (go_result (ToStatus (status_as_i32 rc))) (\<lambda>_. returnM zero)"

section \<open>Calls into a core\<close>

definition cgo :: "(ptr \<rightharpoonup> 'e obj) \<Rightarrow> ('e world \<Rightarrow> 'a ffi_result \<times> 'e world) \<Rightarrow>
    (go_error, 'e world, 'a \<times> (ptr \<rightharpoonup> 'e obj)) rust" where
  "cgo frame f w = (case f (w\<lparr>mem := frame\<rparr>) of
       (Returns a, w') \<Rightarrow> (Ok (a, mem w'), w'\<lparr>mem := mem w\<rparr>)
     | (UndefinedBehaviour, w') \<Rightarrow> (Undefined, w'\<lparr>mem := mem w\<rparr>))"

text \<open>The bytes and numbers in a frame, and \<^verbatim>\<open>&xs[0]\<close>.\<close>

definition frame_bytes :: "(ptr \<rightharpoonup> 'e obj) \<Rightarrow> ptr \<Rightarrow> bytes" where
  "frame_bytes M p = (case M p of Some (Bytes bs) \<Rightarrow> bs | _ \<Rightarrow> [])"

definition frame_usize :: "(ptr \<rightharpoonup> 'e obj) \<Rightarrow> ptr \<Rightarrow> usize" where
  "frame_usize M p = (case M p of Some (UsizeCell n) \<Rightarrow> n | _ \<Rightarrow> 0)"

definition frame_u64 :: "(ptr \<rightharpoonup> 'e obj) \<Rightarrow> ptr \<Rightarrow> u64" where
  "frame_u64 M p = (case M p of Some (U64Cell n) \<Rightarrow> n | _ \<Rightarrow> 0)"

definition frame_bool :: "(ptr \<rightharpoonup> 'e obj) \<Rightarrow> ptr \<Rightarrow> bool" where
  "frame_bool M p = (case M p of Some (BoolCell b) \<Rightarrow> b | _ \<Rightarrow> False)"

definition frame_entries :: "(ptr \<rightharpoonup> 'e obj) \<Rightarrow> ptr \<Rightarrow> 'e list" where
  "frame_entries M p = (case M p of Some (Entries es) \<Rightarrow> es | _ \<Rightarrow> [])"

definition first_index :: "'a list \<Rightarrow> (go_error, 'w, unit) rust" where
  "first_index xs = (if xs = [] then panicM else returnM ())"

definition size_t :: "'a list \<Rightarrow> usize" where
  "size_t xs = word_of_nat (length xs)"

text \<open>\<^verbatim>\<open>xs[:n]\<close> panics beyond the capacity, and \<^verbatim>\<open>C.GoBytes(p, C.int(n))\<close> copies memory it has to be given.\<close>

definition go_slice_to :: "'a list \<Rightarrow> nat \<Rightarrow> (go_error, 'w, 'a list) rust" where
  "go_slice_to xs n = (if n \<le> length xs then returnM (take n xs) else panicM)"

definition GoBytes :: "bytes \<Rightarrow> usize \<Rightarrow> (go_error, 'w, bytes) rust" where
  "GoBytes bs len =
     (let n = sint (ucast len :: i32) in
      if n < 0 then panicM else if nat n \<le> length bs then returnM (take (nat n) bs) else undefinedM)"

section \<open>Workload service\<close>

definition wskcc_GenerateBindingKeypair :: "('s, 'r, 'p) env \<Rightarrow> 'g go_env_scheme \<Rightarrow> HpkeAlgorithm option \<Rightarrow> u64 \<Rightarrow>
    (go_error, 'e world, uuid \<times> bytes) rust" where
  "wskcc_GenerateBindingKeypair E G algo lifespanSecs =
     bindM (ok_orM (proto_Marshal G algo) Errorf) (\<lambda>algoBytes.
     bindM (first_index algoBytes) (\<lambda>_.
     bindM (cgo [10 \<mapsto> Bytes algoBytes, 20 \<mapsto> Bytes (replicate 16 0), 30 \<mapsto> Bytes (replicate 32 0)]
         (key_manager_generate_binding_keypair E 10 (size_t algoBytes) lifespanSecs 20 30 32)) (\<lambda>(rc, M).
     if rc \<noteq> Success then ffi_failure rc (Uuid (replicate 16 0), [])
     else
       bindM (ok_orM (uuid_FromBytes G (frame_bytes M 20)) (Wrapped Errorf)) (\<lambda>id.
       bindM (go_slice_to (frame_bytes M 30) 32) (\<lambda>pubkey.
       returnM (id, pubkey))))))"

definition wskcc_DestroyBindingKey :: "('s, 'r, 'p) env \<Rightarrow> uuid \<Rightarrow> (go_error, 'e world, unit) rust" where
  "wskcc_DestroyBindingKey E bindingUUID =
     bindM (cgo [10 \<mapsto> Bytes (as_bytes bindingUUID)] (key_manager_destroy_binding_key E 10)) (\<lambda>(rc, _).
     go_result (ToStatus (status_as_i32 rc)))"

definition wskcc_DestroyAllKeys :: "('s, 'r, 'p) env \<Rightarrow> (go_error, 'e world, unit) rust" where
  "wskcc_DestroyAllKeys E =
     bindM (cgo Map.empty (key_manager_destroy_all_binding_keys E)) (\<lambda>(rc, _).
     go_result (ToStatus (status_as_i32 rc)))"

text \<open>The additional data is a sentinel byte of which nothing is read when there is none.\<close>

definition wskcc_Open :: "('s, 'r, 'p) env \<Rightarrow> uuid \<Rightarrow> bytes \<Rightarrow> bytes \<Rightarrow> bytes \<Rightarrow> (go_error, 'e world, bytes) rust" where
  "wskcc_Open E bindingUUID enc ciphertext aad =
     (if enc = [] then errM Errorf
      else if ciphertext = [] then errM Errorf
      else
        bindM (cgo [10 \<mapsto> Bytes (as_bytes bindingUUID), 20 \<mapsto> Bytes enc, 30 \<mapsto> Bytes ciphertext,
              40 \<mapsto> Bytes (if aad = [] then [0] else aad), 50 \<mapsto> Bytes (replicate 32 0)]
            (key_manager_open E 10 20 (size_t enc) 30 (size_t ciphertext) 40 (if aad = [] then 0 else size_t aad) 50 32)) (\<lambda>(rc, M).
        if rc \<noteq> Success then ffi_failure rc []
        else go_slice_to (frame_bytes M 50) 32))"

definition wskcc_GetBindingKey :: "('s, 'r, 'p) env \<Rightarrow> 'g go_env_scheme \<Rightarrow> uuid \<Rightarrow>
    (go_error, 'e world, bytes \<times> HpkeAlgorithm) rust" where
  "wskcc_GetBindingKey E G key_id =
     bindM (cgo [10 \<mapsto> Bytes (as_bytes key_id), 20 \<mapsto> Bytes (replicate 32 0), 30 \<mapsto> Bytes (replicate MAX_ALGORITHM_LEN 0),
           40 \<mapsto> UsizeCell (word_of_nat MAX_ALGORITHM_LEN)]
         (key_manager_get_binding_key E 10 20 32 30 40)) (\<lambda>(rc, M).
     if rc \<noteq> Success then ffi_failure rc ([], no_algorithm)
     else
       bindM (go_slice_to (frame_bytes M 20) 32) (\<lambda>pubkey.
       bindM (go_slice_to (frame_bytes M 30) (unat (frame_usize M 40))) (\<lambda>algoBytes.
       bindM (ok_orM (proto_Unmarshal G algoBytes) Errorf) (\<lambda>algo.
       returnM (pubkey, algo)))))"

text \<open>\<^verbatim>\<open>C.CString\<close> copies the name and a final zero, which the length leaves out.\<close>

definition wskcc_InitTelemetry :: "bytes \<Rightarrow> (go_error, 'e world, unit) rust" where
  "wskcc_InitTelemetry serviceName =
     bindM (cgo [10 \<mapsto> Bytes (serviceName @ [0])] (key_manager_init_telemetry_ffi 10 (size_t serviceName))) (\<lambda>_. returnM ())"

section \<open>Key protection service\<close>

definition kpskcc_GenerateKEMKeypair :: "('s, 'r, 'p) env \<Rightarrow> 'g go_env_scheme \<Rightarrow> HpkeAlgorithm option \<Rightarrow> bytes \<Rightarrow> u64 \<Rightarrow>
    (go_error, 'e world, uuid \<times> bytes) rust" where
  "kpskcc_GenerateKEMKeypair E G algo bindingPubKey lifespanSecs =
     (if bindingPubKey = [] then errM Errorf
      else
        bindM (ok_orM (proto_Marshal G algo) Errorf) (\<lambda>algoBytes.
        bindM (first_index algoBytes) (\<lambda>_.
        bindM (cgo [10 \<mapsto> Bytes algoBytes, 20 \<mapsto> Bytes bindingPubKey, 30 \<mapsto> Bytes (replicate 16 0), 40 \<mapsto> Bytes (replicate 32 0)]
            (key_manager_generate_kem_keypair E 10 (size_t algoBytes) 20 (size_t bindingPubKey) lifespanSecs 30 40 32)) (\<lambda>(rc, M).
        if rc \<noteq> Success then ffi_failure rc (Uuid (replicate 16 0), [])
        else
          bindM (ok_orM (uuid_FromBytes G (frame_bytes M 30)) (Wrapped Errorf)) (\<lambda>id.
          bindM (go_slice_to (frame_bytes M 40) 32) (\<lambda>pubkey.
          returnM (id, pubkey)))))))"

text \<open>\<^verbatim>\<open>KEMKeyInfo\<close> of \<^verbatim>\<open>types.go\<close>.\<close>

record KEMKeyInfo =
  ID :: uuid
  Algorithm :: "HpkeAlgorithm option"
  KEMPubKey :: bytes
  RemainingLifespanSecs :: u64

fun kem_key_infos :: "'g go_env_scheme \<Rightarrow> KpsKeyInfo list \<Rightarrow> (go_error, 'w, KEMKeyInfo list) rust" where
  "kem_key_infos G [] = returnM []"
| "kem_key_infos G (e # entries) =
     bindM (GoBytes (kps_uuid e) 16) (\<lambda>uuid.
     bindM (ok_orM (uuid_FromBytes G uuid) (Wrapped Errorf)) (\<lambda>id.
     bindM (GoBytes (kps_pub_key e) (kps_pub_key_len e)) (\<lambda>kemPubKey.
     bindM (GoBytes (kps_algorithm e) (kps_algorithm_len e)) (\<lambda>algoBytes.
     bindM (ok_orM (proto_Unmarshal G algoBytes) (Wrapped Errorf)) (\<lambda>algo.
     bindM (kem_key_infos G entries) (\<lambda>result.
     returnM (\<lparr>ID = id, Algorithm = Some algo, KEMPubKey = kemPubKey,
               RemainingLifespanSecs = kps_remaining_lifespan_secs e\<rparr> # result)))))))"

definition kpskcc_EnumerateKEMKeys :: "('s, 'r, 'p) env \<Rightarrow> 'g go_env_scheme \<Rightarrow> i32 \<Rightarrow> i32 \<Rightarrow>
    (go_error, KpsKeyInfo world, KEMKeyInfo list \<times> bool) rust" where
  "kpskcc_EnumerateKEMKeys E G limit offset =
     (if sint limit \<le> 0 then errM Errorf
      else if sint offset < 0 then errM Errorf
      else
        bindM (cgo [10 \<mapsto> Entries (replicate (nat (sint limit)) KpsKeyInfo_default), 20 \<mapsto> BoolCell False]
            (key_manager_enumerate_kem_keys E 10 (scast limit) (scast offset) (Some 20))) (\<lambda>(rc, M).
        if sint rc < 0 then bindM (go_result (ToStatus (- rc))) (\<lambda>_. returnM ([], False))
        else
          bindM (go_slice_to (frame_entries M 10) (nat (sint rc))) (\<lambda>entries.
          bindM (kem_key_infos G entries) (\<lambda>result.
          returnM (result, frame_bool M 20)))))"

definition kpskcc_DestroyKEMKey :: "('s, 'r, 'p) env \<Rightarrow> uuid \<Rightarrow> (go_error, 'e world, unit) rust" where
  "kpskcc_DestroyKEMKey E kemUUID =
     bindM (cgo [10 \<mapsto> Bytes (as_bytes kemUUID)] (key_manager_destroy_kem_key E 10)) (\<lambda>(rc, _).
     go_result (ToStatus (status_as_i32 rc)))"

definition kpskcc_GetKEMKey :: "('s, 'r, 'p) env \<Rightarrow> 'g go_env_scheme \<Rightarrow> uuid \<Rightarrow>
    (go_error, 'e world, bytes \<times> bytes \<times> HpkeAlgorithm \<times> u64) rust" where
  "kpskcc_GetKEMKey E G key_id =
     bindM (cgo [10 \<mapsto> Bytes (as_bytes key_id), 20 \<mapsto> Bytes (replicate 32 0), 30 \<mapsto> Bytes (replicate 32 0),
           40 \<mapsto> Bytes (replicate MAX_ALGORITHM_LEN 0), 50 \<mapsto> UsizeCell (word_of_nat MAX_ALGORITHM_LEN), 60 \<mapsto> U64Cell 0]
         (key_manager_get_kem_key E 10 20 32 30 32 40 50 60)) (\<lambda>(rc, M).
     if rc \<noteq> Success then ffi_failure rc ([], [], no_algorithm, 0)
     else
       bindM (go_slice_to (frame_bytes M 40) (unat (frame_usize M 50))) (\<lambda>algoBytes.
       bindM (ok_orM (proto_Unmarshal G algoBytes) Errorf) (\<lambda>algo.
       returnM (frame_bytes M 20, frame_bytes M 30, algo, frame_u64 M 60))))"

text \<open>Without additional data the pointer is null.\<close>

definition kpskcc_DecapAndSeal :: "('s, 'r, 'p) env \<Rightarrow> uuid \<Rightarrow> bytes \<Rightarrow> bytes \<Rightarrow> (go_error, 'e world, bytes \<times> bytes) rust" where
  "kpskcc_DecapAndSeal E kemUUID encapsulatedKey aad =
     (if encapsulatedKey = [] then errM Errorf
      else
        bindM (cgo [10 \<mapsto> Bytes (as_bytes kemUUID), 20 \<mapsto> Bytes encapsulatedKey, 30 \<mapsto> Bytes aad,
              40 \<mapsto> Bytes (replicate 32 0), 50 \<mapsto> Bytes (replicate 48 0)]
            (key_manager_decap_and_seal E 10 20 (size_t encapsulatedKey)
               (if aad = [] then 0 else 30) (if aad = [] then 0 else size_t aad) 40 32 50 48)) (\<lambda>(rc, M).
        if rc \<noteq> Success then ffi_failure rc ([], [])
        else
          bindM (go_slice_to (frame_bytes M 40) 32) (\<lambda>sealEnc.
          bindM (go_slice_to (frame_bytes M 50) 48) (\<lambda>sealedCT.
          returnM (sealEnc, sealedCT)))))"

definition kpskcc_InitTelemetry :: "bytes \<Rightarrow> (go_error, 'e world, unit) rust" where
  "kpskcc_InitTelemetry serviceName =
     bindM (cgo [10 \<mapsto> Bytes (serviceName @ [0])] (key_manager_init_telemetry_ffi 10 (size_t serviceName))) (\<lambda>_. returnM ())"

section \<open>Lemmas: libraries and errors\<close>

lemma go_libsD:
  assumes "go_libs_spec E G"
  shows marshal: "a \<noteq> no_algorithm \<Longrightarrow> \<exists>bs. proto_Marshal G (Some a) = Some bs \<and> bs \<noteq> [] \<and> length bs \<le> 33
        \<and> HpkeAlgorithm_decode E bs = Some a"
    and marshal_empty: "proto_Marshal G (Some no_algorithm) = Some []"
    and unmarshal: "proto_Unmarshal G (encode_to_vec E a) = Some a"
    and from_bytes: "length bs = 16 \<Longrightarrow> uuid_FromBytes G bs = Some (Uuid bs)"
    and parse_string: "length (as_bytes u) = 16 \<Longrightarrow> uuid_Parse G (uuid_String G u) = Some u"
    and parse_length: "uuid_Parse G str = Some u \<Longrightarrow> length (as_bytes u) = 16"
    and string_length: "length (uuid_String G u') = 36"
  using assms by (auto simp: go_libs_spec_def)

lemma ffi_failure_simp [simp]: "rc \<noteq> Success \<Longrightarrow> ffi_failure rc zero = errM (FFIStatus (status_as_i32 rc))"
  using status_as_i32_inj [of rc Success]
  by (auto simp: ffi_failure_def ToStatus_def go_result_def bindM_def errM_def fun_eq_iff)

lemma go_result_ToStatus:
  "go_result (ToStatus (status_as_i32 rc)) = (if rc = Success then returnM () else errM (FFIStatus (status_as_i32 rc)))"
  using status_as_i32_inj [of rc Success] by (auto simp: ToStatus_def go_result_def)

lemma first_index_simp [simp]: "xs \<noteq> [] \<Longrightarrow> first_index xs = returnM ()"
  by (simp add: first_index_def)

lemma go_slice_to_simp [simp]: "length xs = n \<Longrightarrow> go_slice_to xs n = returnM xs"
  by (simp add: go_slice_to_def)

lemma unat_size_t: "length xs < 2 ^ 64 \<Longrightarrow> unat (size_t xs) = length xs"
  by (simp add: size_t_def unat_of_nat take_bit_nat_eq_self)

lemma size_t_0: "length xs < 2 ^ 64 \<Longrightarrow> size_t xs = 0 \<longleftrightarrow> xs = []"
  using unat_size_t [of xs] by (metis length_0_conv unsigned_0 word_unat_eq_iff)

section \<open>Lemmas: frames\<close>

lemma frame_buf [simp]:
  "frame p = Some (Bytes bs) \<Longrightarrow> length bs = unat n \<Longrightarrow> buf p n (w\<lparr>mem := frame\<rparr>) = bs"
  "frame p = Some (Bytes bs) \<Longrightarrow> unat n \<le> length bs \<Longrightarrow> valid_buf p n (w\<lparr>mem := frame\<rparr>)"
  by (auto simp: buf_def valid_buf_def)

lemma looked_up_mem: "looked_up h (w\<lparr>mem := m\<rparr>) = (looked_up h w)\<lparr>mem := m\<rparr>"
  by (simp add: looked_up_def forced_def split: lazy_registry.splits)

lemma calm_mem_iff [simp]: "calm P (w\<lparr>mem := m\<rparr>) \<longleftrightarrow> calm P w"
  by (simp add: calm_def core_inv_def contents_def)

lemma cgo_Ok:
  "body (w\<lparr>mem := frame\<rparr>) = (Ok u, v) \<Longrightarrow> cgo frame (ffi_call op body) w = (Ok (Success, mem v), v\<lparr>mem := mem w\<rparr>)"
  by (simp add: cgo_def ffi_call_def ffi_call_with_reporter_def)

lemma cgo_inv:
  assumes "cgo frame (ffi_call op body) w = (Ok (rc, M), w')"
  shows "body (w\<lparr>mem := frame\<rparr>) = (Ok u, v) \<Longrightarrow> rc = Success \<and> M = mem v"
    and "body (w\<lparr>mem := frame\<rparr>) = (Err e, v) \<Longrightarrow> rc = e"
  using assms by (auto simp: cgo_def ffi_call_def ffi_call_with_reporter_def)

lemma cgo_Err:
  "body (w\<lparr>mem := frame\<rparr>) = (Err e, v) \<Longrightarrow>
   \<exists>ev. cgo frame (ffi_call op body) w = (Ok (e, mem v), v\<lparr>events := ev, mem := mem w\<rparr>)"
  by (auto simp: cgo_def ffi_call_def ffi_call_with_reporter_def telemetry_report_failure_def)

section \<open>Computations made of steps\<close>

text \<open>
  A computation that, from a state with the invariant, moves by steps of a transition system and ends with a value or an
  error: it does not panic and nothing is undefined.
\<close>

definition goes :: "('w \<Rightarrow> 'w \<Rightarrow> bool) \<Rightarrow> ('w \<Rightarrow> bool) \<Rightarrow> ('x, 'w, 'a) rust \<Rightarrow> ('a \<Rightarrow> bool) \<Rightarrow> bool" where
  "goes step I m R \<longleftrightarrow> (\<forall>w r w'. I w \<longrightarrow> m w = (r, w') \<longrightarrow>
     step\<^sup>*\<^sup>* w w' \<and> r \<noteq> Panicked \<and> r \<noteq> Undefined \<and> (\<forall>a. r = Ok a \<longrightarrow> R a))"

named_theorems goes_rules \<open>computations made of steps\<close>

locale stepwise =
  fixes step :: "'w \<Rightarrow> 'w \<Rightarrow> bool" and I :: "'w \<Rightarrow> bool"
  assumes keep: "I w \<Longrightarrow> step w w' \<Longrightarrow> I w'"
begin

lemma keep_steps: "step\<^sup>*\<^sup>* w w' \<Longrightarrow> I w \<Longrightarrow> I w'"
  by (induction rule: rtranclp_induct) (auto intro: keep)

lemma goes_bindM:
  assumes "goes step I m R" and "\<And>a. R a \<Longrightarrow> goes step I (f a) R'"
  shows "goes step I (bindM m f) R'"
  unfolding goes_def
proof (intro allI impI)
  fix w r w' assume w: "I w" and run: "bindM m f w = (r, w')"
  obtain s t where m: "m w = (s, t)" by fastforce
  have t: "step\<^sup>*\<^sup>* w t" "s \<noteq> Panicked" "s \<noteq> Undefined" "\<And>a. s = Ok a \<Longrightarrow> R a"
    using assms(1) w m by (auto simp: goes_def)
  show "step\<^sup>*\<^sup>* w w' \<and> r \<noteq> Panicked \<and> r \<noteq> Undefined \<and> (\<forall>a. r = Ok a \<longrightarrow> R' a)"
  proof (cases s)
    case (Ok a)
    then have "f a t = (r, w')" using run m by (simp add: bindM_def)
    then show ?thesis
      using assms(2) [OF t(4) [OF Ok]] keep_steps [OF t(1) w] t(1) unfolding goes_def
      by (metis rtranclp_trans)
  qed (use run m t in \<open>auto simp: bindM_def\<close>)
qed

lemma goes_step: "(\<And>w. I w \<Longrightarrow> step w (f w)) \<Longrightarrow> goes step I (updateM f) (\<lambda>_. True)"
  by (auto simp: goes_def updateM_def)

end

lemma goes_basic [goes_rules]:
  "R a \<Longrightarrow> goes step I (returnM a) R" "goes step I (errM e) R"
  "goes step I (ok_orM x e) (\<lambda>a. x = Some a)" "xs \<noteq> [] \<Longrightarrow> goes step I (first_index xs) (\<lambda>_. True)"
  "length xs = n \<Longrightarrow> goes step I (go_slice_to xs n) (\<lambda>ys. ys = xs)"
  by (auto simp: goes_def returnM_def errM_def ok_orM_def split: option.splits)

lemma goes_weaken: "goes step I m R \<Longrightarrow> (\<And>a. R a \<Longrightarrow> R' a) \<Longrightarrow> goes step I m R'"
  by (auto simp: goes_def)

lemma goes_if: "(b \<Longrightarrow> goes step I m R) \<Longrightarrow> (\<not> b \<Longrightarrow> goes step I m' R) \<Longrightarrow> goes step I (if b then m else m') R"
  by simp

text \<open>The steps of the two cores, on a host that starts threads.\<close>

definition ws_ready :: "('s, 'r, 'p) env \<Rightarrow> WsKeyInfo world \<Rightarrow> bool" where
  "ws_ready E w \<longleftrightarrow> host_spec E \<and> calm (ws_record E) w"

definition kps_ready :: "('s, 'r, 'p) env \<Rightarrow> KpsKeyInfo world \<Rightarrow> bool" where
  "kps_ready E w \<longleftrightarrow> host_spec E \<and> calm (kps_record E) w"

interpretation ws_go: stepwise "ws_step E" "ws_ready E" for E :: "('s, 'r, 'p) env"
  by unfold_locales (auto simp: ws_ready_def dest: ws_step_calm)

interpretation kps_go: stepwise "kps_step E" "kps_ready E" for E :: "('s, 'r, 'p) env"
  by unfold_locales (auto simp: kps_ready_def dest: kps_step_calm)

lemma readyD:
  "ws_ready E w \<Longrightarrow> core_inv (ws_record E) w \<and> usable E w"
  "kps_ready E v \<Longrightarrow> core_inv (kps_record E) v \<and> usable E v"
  by (auto simp: ws_ready_def kps_ready_def dest: calm_usable [OF host_specD(3)])

lemma ready_mem [simp]: "ws_ready E (w\<lparr>mem := m\<rparr>) = ws_ready E w" "kps_ready E (v\<lparr>mem := m'\<rparr>) = kps_ready E v"
  by (simp_all add: ws_ready_def kps_ready_def)

lemma ws_steps_evolve: "(ws_step E)\<^sup>*\<^sup>* w w' \<Longrightarrow> ws_ready E w \<Longrightarrow> evolves E w w'"
proof (induction rule: rtranclp_induct)
  case (step u v)
  then show ?case
    using evolves_trans [of E w u v] ws_step_evolves [of E u v] ws_go.keep_steps [of E w u] by (simp add: ws_ready_def)
qed (simp add: evolves_refl)

lemma kps_steps_evolve: "(kps_step E)\<^sup>*\<^sup>* w w' \<Longrightarrow> kps_ready E w \<Longrightarrow> evolves E w w'"
proof (induction rule: rtranclp_induct)
  case (step u v)
  then show ?case
    using evolves_trans [of E w u v] kps_step_evolves [of E u v] kps_go.keep_steps [of E w u] by (simp add: kps_ready_def)
qed (simp add: evolves_refl)

lemma ws_frame_steps: "ws_step E (w\<lparr>mem := F\<rparr>) w' \<Longrightarrow> (ws_step E)\<^sup>*\<^sup>* w (w'\<lparr>mem := m\<rparr>)"
  using ws_caller [of E w F] ws_caller [of E w' m] by (meson converse_rtranclp_into_rtranclp r_into_rtranclp)

lemma kps_frame_steps: "kps_step E (w\<lparr>mem := F\<rparr>) w' \<Longrightarrow> (kps_step E)\<^sup>*\<^sup>* w (w'\<lparr>mem := m\<rparr>)"
  using kps_caller [of E w F] kps_caller [of E w' m] by (meson converse_rtranclp_into_rtranclp r_into_rtranclp)

lemma ws_run_calls:
  "ws_run E (GenerateBinding a al e u p pl) = key_manager_generate_binding_keypair E a al e u p pl"
  "ws_run E (DestroyBinding u) = key_manager_destroy_binding_key E u"
  "ws_run E DestroyAll = key_manager_destroy_all_binding_keys E"
  "ws_run E (OpenSealed u e' el c cl a' al' p pl) = key_manager_open E u e' el c cl a' al' p pl"
  "ws_run E (GetBinding u p pl a' k) = key_manager_get_binding_key E u p pl a' k"
  by (auto simp: fun_eq_iff)

lemma kps_run_calls:
  "kps_run E (GenerateKem a al b bl e u p pl) = key_manager_generate_kem_keypair E a al b bl e u p pl"
  "kps_run E (DestroyKem u) = key_manager_destroy_kem_key E u"
  "kps_run E (DecapSeal u e' el a' al' oe oel oc ocl) = key_manager_decap_and_seal E u e' el a' al' oe oel oc ocl"
  "kps_run E (GetKem u k kl b bl a' al'' r) = key_manager_get_kem_key E u k kl b bl a' al'' r"
  by (auto simp: fun_eq_iff)

lemma ws_cgo:
  assumes "ws_ready E w" and "ws_safe c (w\<lparr>mem := F\<rparr>)"
  obtains rc M w' where "cgo F (ws_run E c) w = (Ok (rc, M), w')" and "(ws_step E)\<^sup>*\<^sup>* w w'"
    and "rc \<in> insert Success ws_errors" and "rc = Success \<longrightarrow> ws_body E c (w\<lparr>mem := F\<rparr>) = (Ok (), w'\<lparr>mem := M\<rparr>)"
proof -
  have host: "host_spec E" and calm: "calm (ws_record E) (w\<lparr>mem := F\<rparr>)"
    using assms(1) by (simp_all add: ws_ready_def)
  note crates = host_specD(1) [OF host, unfolded crates_spec_def]
  obtain rc v where run: "ws_run E c (w\<lparr>mem := F\<rparr>) = (Returns rc, v)" and rc: "rc \<in> insert Success ws_errors"
    using ffi_call_answers [OF quiet_ws_body [OF host_specD(1-3) [OF host]] ws_body_keeps calm _ ws_body_defined [OF assms(2)],
        of "ws_operation c"] crates calm by (auto simp: ws_run_body calm_def)
  show thesis
    by (rule that [of rc "mem v" "v\<lparr>mem := mem w\<rparr>"])
      (use run rc ws_call [OF assms(2) run] in \<open>auto simp: cgo_def ws_frame_steps ws_run_body ws.success_iff\<close>)
qed

lemma kps_cgo:
  assumes "kps_ready E w" and "kps_safe c (w\<lparr>mem := F\<rparr>)"
  obtains rc M w' where "cgo F (kps_run E c) w = (Ok (rc, M), w')" and "(kps_step E)\<^sup>*\<^sup>* w w'"
    and "rc \<in> insert Success kps_errors" and "rc = Success \<longrightarrow> kps_body E c (w\<lparr>mem := F\<rparr>) = (Ok (), w'\<lparr>mem := M\<rparr>)"
proof -
  have host: "host_spec E" and calm: "calm (kps_record E) (w\<lparr>mem := F\<rparr>)"
    using assms(1) by (simp_all add: kps_ready_def)
  note crates = host_specD(1) [OF host, unfolded crates_spec_def]
  obtain rc v where run: "kps_run E c (w\<lparr>mem := F\<rparr>) = (Returns rc, v)" and rc: "rc \<in> insert Success kps_errors"
    using ffi_call_answers [OF quiet_kps_body [OF host_specD(1-3) [OF host]] kps_body_keeps calm _ kps_body_defined [OF assms(2)],
        of "kps_operation c"] crates calm by (auto simp: kps_run_body calm_def)
  show thesis
    by (rule that [of rc "mem v" "v\<lparr>mem := mem w\<rparr>"])
      (use run rc kps_call [OF assms(2) run] in \<open>auto simp: cgo_def kps_frame_steps kps_run_body kps.success_iff\<close>)
qed

end
