(* ===== verification/Cgo_Calls.thy ===== *)
theory Cgo_Calls
  imports Cgo
begin

text \<open>
  What the functions of the two cgo wrappers return. Each lays out its arrays as the safety section of the function it calls
  asks, so nothing is undefined, and the cores do not panic; a status other than success becomes an \<^verbatim>\<open>FFIStatus\<close>. The
  lemmas give, for each wrapper, the steps of the core it makes and its result in terms of the registry.
\<close>

section \<open>Results\<close>

abbreviation (input) ffi_err :: "Status \<Rightarrow> (go_error, 'a) outcome" where
  "ffi_err st \<equiv> Err (FFIStatus (status_as_i32 st))"

text \<open>A generated key, as the caller of a wrapper sees it.\<close>

definition made_key :: "('s, 'r, 'p) env \<Rightarrow> HpkeAlgorithm \<Rightarrow> u64 \<Rightarrow> (HpkeAlgorithm \<Rightarrow> PublicKey \<Rightarrow> KeySpec) \<Rightarrow>
    uuid \<Rightarrow> bytes \<Rightarrow> 'e world \<Rightarrow> 'e world \<Rightarrow> bool" where
  "made_key E algo l mk h pk w w' \<longleftrightarrow>
     (\<exists>rec. contents w' = (contents w)(h \<mapsto> rec) \<and> meta rec = new_metadata E algo (Duration_from_secs l) mk w
        \<and> get_private_key rec = snd (key_pair E (draws w)))
   \<and> h = Uuid_new_v4 E (Suc (draws w)) \<and> pk = PublicKey_as_bytes (fst (key_pair E (draws w)))
   \<and> draws w' = draws w + 2 \<and> clock w' = clock w \<and> ticks w' = Suc (ticks w)"

lemma create_and_add_draws:
  fixes w :: "'e world"
  assumes "hpke_spec E" and "core_inv P w" and "create_and_add E algo d mk w = (Ok (h, pk), w')"
  shows "draws w' = draws w + 2 \<and> clock w' = clock w \<and> ticks w' = Suc (ticks w)"
proof -
  obtain rec v where create: "create_key_internal E algo d mk w = (Ok rec, v)" and add: "static_add_key E rec v = (Ok (), w')"
    using assms(3) by (auto simp: create_and_add_def bindM_eq_Ok returnM_def)
  note made = create_key_internal_Ok [OF assms(1) create]
  have "core_inv P v"
    using assms(2) made(8,9) machine_more_custody(1) [of v w] core_inv_same [of v w P] by simp
  then show ?thesis
    using static_add_key_Ok(2-4) [OF _ add] made by simp
qed

lemma new_metadata_mem [simp]: "new_metadata E algo d mk (w\<lparr>mem := m\<rparr>) = new_metadata E algo d mk (w :: 'e world)"
  by (simp add: new_metadata_def)

lemma made_key_lengths:
  assumes "host_spec E" and "made_key E algo l mk h pk w w'"
  shows "length (as_bytes h) = 16" and "length pk = 32"
  using assms length_key_pair [of E] by (auto simp: made_key_def host_spec_def crates_spec_def uuid_spec_def)

text \<open>What is left of a frame after a successful generation.\<close>

lemma written_frame:
  assumes "M = write_mem q pk (write_mem p h F)" and "F p = Some (Bytes bs)" and "F q = Some (Bytes cs)" and "p \<noteq> q"
    and "length h = length bs" and "length pk = length cs"
  shows "frame_bytes M p = h" and "frame_bytes M q = pk"
  using assms by (auto simp: frame_bytes_def write_mem_def overwrite_def)

section \<open>Workload service\<close>

lemma wskcc_GenerateBindingKeypair_run:
  assumes "ws_ready E w" and "go_libs_spec E G" and "algo \<noteq> no_algorithm"
  obtains r w' where "wskcc_GenerateBindingKeypair E G (Some algo) l w = (r, w')" and "(ws_step E)\<^sup>*\<^sup>* w w'"
    and "(\<exists>rc. r = ffi_err rc) \<or> (\<exists>h pk. r = Ok (h, pk) \<and> made_key E algo l Binding h pk w w')"
proof -
  note crates = host_specD(1) [of E, unfolded crates_spec_def] and inv = readyD(1)
  obtain bs where bs: "proto_Marshal G (Some algo) = Some bs" "bs \<noteq> []" "length bs \<le> 33" "HpkeAlgorithm_decode E bs = Some algo"
    using marshal [OF assms(2,3)] by blast
  have len: "unat (size_t bs) = length bs"
    using bs(3) by (intro unat_size_t) simp
  let ?F = "[10 \<mapsto> Bytes bs, 20 \<mapsto> Bytes (replicate 16 0), 30 \<mapsto> Bytes (replicate 32 0)] :: ptr \<rightharpoonup> WsKeyInfo obj"
  let ?c = "GenerateBinding 10 (size_t bs) l 20 30 32"
  have safe: "ws_safe ?c (w\<lparr>mem := ?F\<rparr>)"
    by (simp add: generate_binding_safe_def len)
  obtain rc M w' where cgo: "cgo ?F (ws_run E ?c) w = (Ok (rc, M), w')" and steps: "(ws_step E)\<^sup>*\<^sup>* w w'"
    and errors: "rc \<in> insert Success ws_errors"
    and body: "rc = Success \<longrightarrow> ws_body E ?c (w\<lparr>mem := ?F\<rparr>) = (Ok (), w'\<lparr>mem := M\<rparr>)"
    by (rule ws_cgo [OF assms(1) safe])
  have run: "wskcc_GenerateBindingKeypair E G (Some algo) l w =
      (if rc \<noteq> Success then ffi_failure rc (Uuid (replicate 16 0), [])
       else bindM (ok_orM (uuid_FromBytes G (frame_bytes M 20)) (Wrapped Errorf)) (\<lambda>id.
            bindM (go_slice_to (frame_bytes M 30) 32) (\<lambda>pubkey. returnM (id, pubkey)))) w'"
    using cgo bs(1,2) unfolding wskcc_GenerateBindingKeypair_def ws_run_calls
    by (simp add: ok_orM_def [of "Some _"] bindM_def [of "cgo _ _"])
  show thesis
  proof (cases "rc = Success")
    case False
    then show thesis
      using that [OF _ steps, of "ffi_err rc"] run by (auto simp: errM_def)
  next
    case True
    note spec = crates [OF assms(1) [unfolded ws_ready_def, THEN conjunct1]]
    have core: "core_inv (ws_record E) (w\<lparr>mem := ?F\<rparr>)"
      using inv [of E "w\<lparr>mem := ?F\<rparr>"] assms(1) by simp
    have ok: "generate_binding_keypair_body E 10 (size_t bs) l 20 30 32 (w\<lparr>mem := ?F\<rparr>) = (Ok (), w'\<lparr>mem := M\<rparr>)"
      using body True by simp
    obtain h pk x where gen: "create_and_add E algo (Duration_from_secs l) Binding (w\<lparr>mem := ?F\<rparr>) = (Ok (h, pk), x)"
      and x: "w'\<lparr>mem := M\<rparr> = x\<lparr>mem := write_mem 30 (PublicKey_as_bytes pk) (write_mem 20 (as_bytes h) ?F)\<rparr>"
      by (rule generate_binding_keypair_body_Ok [OF _ _ core _ ok]) (use spec safe bs(4) len in auto)
    note made = create_and_add_Ok [OF _ core own_public_key_Binding gen]
    have "contents w' = contents x" "draws w' = draws x" "clock w' = clock x" "ticks w' = ticks x"
      using arg_cong [OF x, of contents] arg_cong [OF x, of draws] arg_cong [OF x, of clock] arg_cong [OF x, of ticks] by simp_all
    then have key: "made_key E algo l Binding h (PublicKey_as_bytes pk) w w'"
      using made(1-3) spec create_and_add_draws [OF _ core gen] by (simp add: made_key_def)
    note lens = made_key_lengths [OF assms(1) [unfolded ws_ready_def, THEN conjunct1] key]
    have M: "M = write_mem 30 (PublicKey_as_bytes pk) (write_mem 20 (as_bytes h) ?F)"
      using arg_cong [OF x, of mem] by simp
    have frames: "frame_bytes M 20 = as_bytes h" "frame_bytes M 30 = PublicKey_as_bytes pk"
      using written_frame [OF M, of "replicate 16 0" "replicate 32 0"] lens by simp_all
    have "wskcc_GenerateBindingKeypair E G (Some algo) l w = (Ok (h, PublicKey_as_bytes pk), w')"
      using run True lens by (simp add: frames from_bytes [OF assms(2)] ok_orM_def bindM_def returnM_def)
    then show thesis
      using that [OF _ steps] key by blast
  qed
qed

text \<open>A removal, as both wrappers call it.\<close>

lemma cgo_remove:
  fixes w :: "'e world"
  assumes "core_inv P w" and "usable E w" and "zeroize_spec E"
    and "body (w\<lparr>mem := F\<rparr>) = bindM (static_remove_key E h) (\<lambda>old. bindM (ok_orM old NotFound)
        (\<lambda>rec. updateM (KeyRecord_drop E rec))) (w\<lparr>mem := F\<rparr>)"
  shows "\<exists>w'. bindM (cgo F (ffi_call op body)) (\<lambda>(rc, _). go_result (ToStatus (status_as_i32 rc))) w
       = (if contents w h = None then ffi_err NotFound else Ok (), w')
     \<and> contents w' = (contents w)(h := None)"
proof -
  have inv: "core_inv P (w\<lparr>mem := F\<rparr>)" and use: "usable E (w\<lparr>mem := F\<rparr>)"
    using assms(1,2) mem_stable_core_inv [of P] by (auto simp: mem_stable_def usable_def split: lazy_registry.splits)
  obtain v where "ffi_call op body (w\<lparr>mem := F\<rparr>) = (Returns (if contents w h = None then NotFound else Success), v)"
    and "contents v = (contents w)(h := None)"
    using ffi_call_remove [OF inv use assms(3), of body h op] assms(4) by auto
  then show ?thesis
    by (auto simp: bindM_def cgo_def go_result_ToStatus returnM_def errM_def)
qed

lemma wskcc_DestroyBindingKey_run:
  assumes "ws_ready E w" and "length (as_bytes h) = 16"
  obtains w' where "wskcc_DestroyBindingKey E h w = (if contents w h = None then ffi_err NotFound else Ok (), w')"
    and "(ws_step E)\<^sup>*\<^sup>* w w'" and "contents w' = (contents w)(h := None)"
proof -
  let ?F = "[10 \<mapsto> Bytes (as_bytes h)] :: ptr \<rightharpoonup> WsKeyInfo obj"
  have valid: "valid_buf 10 16 (w\<lparr>mem := ?F\<rparr>)" "buf 10 16 (w\<lparr>mem := ?F\<rparr>) = as_bytes h"
    using assms(2) by simp_all
  obtain w' where run: "wskcc_DestroyBindingKey E h w = (if contents w h = None then ffi_err NotFound else Ok (), w')"
    and "contents w' = (contents w)(h := None)"
    using cgo_remove [of "ws_record E" w E "destroy_binding_key_body E 10" ?F h DestroyBindingKey] readyD(1) [OF assms(1)]
      destroy_binding_key_body_eq [of 10 "w\<lparr>mem := ?F\<rparr>" E] valid assms(1)
    by (auto simp: wskcc_DestroyBindingKey_def key_manager_destroy_binding_key_def is_null_def ws_ready_def host_specD)
  moreover obtain rc M v where "cgo ?F (ws_run E (DestroyBinding 10)) w = (Ok (rc, M), v)" and "(ws_step E)\<^sup>*\<^sup>* w v"
    by (rule ws_cgo [OF assms(1), of "DestroyBinding 10" ?F]) (use valid in auto)
  moreover from this have "v = w'"
    using run by (auto simp: wskcc_DestroyBindingKey_def ws_run_calls bindM_def go_result_ToStatus returnM_def errM_def
        split: if_splits)
  ultimately show thesis
    using that by blast
qed

lemma wskcc_DestroyAllKeys_run:
  assumes "ws_ready E w"
  obtains w' where "wskcc_DestroyAllKeys E w = (Ok (), w')" and "(ws_step E)\<^sup>*\<^sup>* w w'" and "contents w' = Map.empty"
proof -
  obtain rc M v where cgo: "cgo Map.empty (ws_run E DestroyAll) w = (Ok (rc, M), v)" and steps: "(ws_step E)\<^sup>*\<^sup>* w v"
    by (rule ws_cgo [OF assms, of DestroyAll Map.empty]) auto
  let ?w = "w\<lparr>mem := Map.empty\<rparr>"
  have "core_inv (ws_record E) ?w \<and> usable E ?w"
    using readyD(1) [of E ?w] assms by simp
  then obtain recs where "static_remove_all_keys E ?w
      = (Ok (), (drop_all E recs (forced ?w))\<lparr>KEY_REGISTRY := Ready KeyRegistry_default\<rparr>)"
    using static_remove_all_keys_eq by blast
  then have "rc = Success" "contents v = Map.empty"
    using cgo by (auto simp: ws_run_calls cgo_def key_manager_destroy_all_binding_keys_def ffi_call_def
        ffi_call_with_reporter_def destroy_all_binding_keys_body_def bindM_def returnM_def fun_eq_iff)
  then show thesis
    using that [OF _ steps] cgo by (simp add: wskcc_DestroyAllKeys_def ws_run_calls bindM_def go_result_ToStatus returnM_def)
qed

text \<open>
  \<^verbatim>\<open>Open\<close> looks the key up and opens with it. Slices of a Go program are shorter than \<open>2 ^ 63\<close>.
\<close>

lemma wskcc_Open_run:
  assumes "ws_ready E w" and "length (as_bytes h) = 16" and "enc \<noteq> []" and "ct \<noteq> []"
    and "length enc < 2 ^ 63" and "length ct < 2 ^ 63" and "length aad < 2 ^ 63"
  obtains r w' v where "wskcc_Open E h enc ct aad w = (r, w')" and "(ws_step E)\<^sup>*\<^sup>* w w'"
    and "r = (case unexpired (clock w (ticks w)) (contents w h) of None \<Rightarrow> ffi_err NotFound
       | Some rec \<Rightarrow> (case fst (hpke_open E (get_private_key rec) enc ct aad (spec_algo (spec (meta rec))) (v :: WsKeyInfo world)) of
            Ok pt \<Rightarrow> if length (as_slice pt) = 32 then Ok (as_slice pt) else ffi_err InvalidArgument
          | Err e \<Rightarrow> ffi_err e | Panicked \<Rightarrow> Panicked | Undefined \<Rightarrow> Undefined))"
proof -
  let ?F = "[10 \<mapsto> Bytes (as_bytes h), 20 \<mapsto> Bytes enc, 30 \<mapsto> Bytes ct, 40 \<mapsto> Bytes (if aad = [] then [0] else aad),
      50 \<mapsto> Bytes (replicate 32 0)] :: ptr \<rightharpoonup> WsKeyInfo obj"
  let ?al = "if aad = [] then 0 else size_t aad" and ?w = "w\<lparr>mem := ?F\<rparr>"
  let ?c = "OpenSealed 10 20 (size_t enc) 30 (size_t ct) 40 ?al 50 32"
  have len: "unat (size_t enc) = length enc" "unat (size_t ct) = length ct" "unat (size_t aad) = length aad"
    using assms(5-7) by (simp_all add: unat_size_t)
  have safe: "open_safe 10 20 (size_t enc) 30 (size_t ct) 40 ?al 50 32 ?w"
    using assms(2) len by (simp add: open_safe_def)
  have present: "open_present 10 20 30 50 32"
    by (simp add: open_present_def is_null_def)
  have bufs: "buf 10 16 ?w = as_bytes h" "buf 20 (size_t enc) ?w = enc" "buf 30 (size_t ct) ?w = ct"
    "aad_buf 40 ?al ?w = aad"
    using assms(2) len by (auto simp: aad_buf_def is_null_def buf_def [of _ 0])
  have h: "h = Uuid (buf 10 16 ?w)"
    by (simp add: bufs)
  obtain rc M w' where cgo: "cgo ?F (ws_run E ?c) w = (Ok (rc, M), w')" and steps: "(ws_step E)\<^sup>*\<^sup>* w w'"
    by (rule ws_cgo [OF assms(1), of ?c ?F]) (use safe in auto)
  have run: "wskcc_Open E h enc ct aad w = (if rc \<noteq> Success then ffi_failure rc [] else go_slice_to (frame_bytes M 50) 32) w'"
    using cgo assms(3,4) unfolding wskcc_Open_def ws_run_calls by (simp add: bindM_def [of "cgo _ _"])
  note ready = readyD(1) [of E ?w, simplified, OF assms(1)]
  note eq = open_body_eq [OF conjunct1 [OF ready] conjunct2 [OF ready] present safe h, unfolded bufs]
  let ?v = "looked_up h ?w"
  note inv = cgo_inv [OF cgo [unfolded ws_run_calls key_manager_open_def]]
  have errors: "r = ffi_err e \<Longrightarrow> e \<noteq> Success \<Longrightarrow> rc = e \<Longrightarrow> wskcc_Open E h enc ct aad w = (r, w')" for r e
    using run by (simp add: errM_def)
  show thesis
  proof (cases "unexpired (clock w (ticks w)) (contents w h)")
    case None
    from eq None have "open_body E 10 20 (size_t enc) 30 (size_t ct) 40 ?al 50 32 ?w = (Err NotFound, ?v)"
      by simp
    from errors [OF refl _ inv(2) [OF this]] show thesis
      by (rule that [OF _ steps, of _ ?v]) (simp_all add: None)
  next
    case (Some rec)
    let ?open = "hpke_open E (get_private_key rec) enc ct aad (spec_algo (spec (meta rec))) ?v"
    have same: "snd ?open = ?v" by (rule crypto_frame(2))
    show thesis
    proof (cases "fst ?open")
      case (Ok pt)
      then have opened: "?open = (Ok pt, ?v)" using same by (metis prod.collapse)
      show thesis
      proof (cases "length (as_slice pt) = 32")
        case True
        then have "open_body E 10 20 (size_t enc) 30 (size_t ct) 40 ?al 50 32 ?w
            = (Ok (), ?v\<lparr>mem := write_mem 50 (as_slice pt) ?F\<rparr>)"
          by (simp add: eq Some bindM_def [of "hpke_open _ _ _ _ _ _"] opened updateM_def)
        from inv(1) [OF this] have rc: "rc = Success" and M: "M = write_mem 50 (as_slice pt) ?F"
          by simp_all
        from True have "frame_bytes M 50 = as_slice pt"
          by (simp add: M frame_bytes_def write_mem_def overwrite_def)
        then have res: "wskcc_Open E h enc ct aad w = (Ok (as_slice pt), w')"
          using True by (simp add: run rc returnM_def)
        show thesis
          by (rule that [OF res steps, of ?v]) (simp add: Some Ok True)
      next
        case False
        then have "open_body E 10 20 (size_t enc) 30 (size_t ct) 40 ?al 50 32 ?w = (Err InvalidArgument, ?v)"
          by (simp add: eq Some bindM_def [of "hpke_open _ _ _ _ _ _"] opened errM_def)
        from inv(2) [OF this] have "rc = InvalidArgument" .
        from errors [OF refl _ this] show thesis
          by (rule that [OF _ steps, of _ ?v]) (simp_all add: Some Ok False)
      qed
    next
      case (Err e)
      then have "?open = (Err e, ?v)" using same by (metis prod.collapse)
      then have "open_body E 10 20 (size_t enc) 30 (size_t ct) 40 ?al 50 32 ?w = (Err e, ?v)"
        by (simp add: eq Some bindM_def [of "hpke_open _ _ _ _ _ _"])
      from inv(2) [OF this] have "rc = e" and "e \<noteq> Success"
        using hpke_open_errors [OF Err] by auto
      from errors [OF refl this(2,1)] show thesis
        by (rule that [OF _ steps, of _ ?v]) (simp add: Some Err)
    qed (simp_all add: crypto_never_undefined)
  qed
qed

lemma wskcc_GetBindingKey_run:
  assumes "ws_ready E w" and "go_libs_spec E G" and "length (as_bytes h) = 16"
  obtains w' where "wskcc_GetBindingKey E G h w =
      (case unexpired (clock w (ticks w)) (contents w h) of None \<Rightarrow> ffi_err NotFound
       | Some rec \<Rightarrow> Ok (PublicKey_as_bytes (binding_public_key (spec (meta rec))), spec_algo (spec (meta rec))), w')"
    and "(ws_step E)\<^sup>*\<^sup>* w w'"
proof -
  let ?F = "[10 \<mapsto> Bytes (as_bytes h), 20 \<mapsto> Bytes (replicate 32 0), 30 \<mapsto> Bytes (replicate 128 0),
      40 \<mapsto> UsizeCell 128] :: ptr \<rightharpoonup> WsKeyInfo obj"
  let ?w = "w\<lparr>mem := ?F\<rparr>" and ?c = "GetBinding 10 20 32 30 40"
  have safe: "get_binding_safe 10 20 32 30 40 ?w" and present: "get_binding_present 10 20 32 30 40"
    using assms(3) by (simp_all add: get_binding_safe_def get_binding_present_def is_null_def)
  have h: "h = Uuid (buf 10 16 ?w)"
    using assms(3) by simp
  obtain rc M w' where cgo: "cgo ?F (ws_run E ?c) w = (Ok (rc, M), w')" and steps: "(ws_step E)\<^sup>*\<^sup>* w w'"
    by (rule ws_cgo [OF assms(1), of ?c ?F]) (use safe in auto)
  have run: "wskcc_GetBindingKey E G h w =
      (if rc \<noteq> Success then ffi_failure rc ([], no_algorithm)
       else bindM (go_slice_to (frame_bytes M 20) 32) (\<lambda>pubkey.
            bindM (go_slice_to (frame_bytes M 30) (unat (frame_usize M 40))) (\<lambda>algoBytes.
            bindM (ok_orM (proto_Unmarshal G algoBytes) Errorf) (\<lambda>algo. returnM (pubkey, algo))))) w'"
    using cgo unfolding wskcc_GetBindingKey_def ws_run_calls by (simp add: bindM_def [of "cgo _ _"] MAX_ALGORITHM_LEN_def)
  note ready = readyD(1) [of E ?w, simplified, OF assms(1)]
  note inv = cgo_inv [OF cgo [unfolded ws_run_calls key_manager_get_binding_key_def]]
  have n: "mem ?w 40 = Some (UsizeCell 128)" by simp
  note eq = get_binding_key_body_eq [OF conjunct1 [OF ready] conjunct2 [OF ready] present safe h n]
  show thesis
  proof (cases "unexpired (clock w (ticks w)) (contents w h)")
    case None
    then have "get_binding_key_body E 10 20 32 30 40 ?w = (Err NotFound, looked_up h ?w)"
      by (simp add: eq)
    from inv(2) [OF this] show thesis
      by (intro that [OF _ steps]) (simp add: run None errM_def)
  next
    case (Some rec)
    let ?pk = "PublicKey_as_bytes (binding_public_key (spec (meta rec)))" and ?algo = "spec_algo (spec (meta rec))"
    have host: "prost_spec E" "hpke_spec E"
      using assms(1) by (simp_all add: ws_ready_def host_spec_def crates_spec_def)
    have "ws_record E rec"
      using core_inv_contents [OF conjunct1 [OF ready], of h rec] Some by (simp add: unexpired_eq_Some)
    then have pk: "length ?pk = 32"
      using record_ok_length [OF host(2), of rec]
      by (auto simp: ws_record_def own_public_key_def split: KeySpec.splits)
    have algo: "length (encode_to_vec E ?algo) \<le> 33"
      by (rule length_encode [OF host(1)])
    then have unat: "unat (word_of_nat (length (encode_to_vec E ?algo)) :: usize) = length (encode_to_vec E ?algo)"
      by (simp add: unat_of_nat take_bit_nat_eq_self)
    have "get_binding_key_body E 10 20 32 30 40 ?w = (Ok (), (looked_up h ?w)\<lparr>mem :=
        (write_mem 30 (encode_to_vec E ?algo) (write_mem 20 ?pk ?F))(40 \<mapsto> UsizeCell (word_of_nat (length (encode_to_vec E ?algo))))\<rparr>)"
      using pk algo by (simp add: eq Some Let_def)
    from inv(1) [OF this] have rc: "rc = Success" and M: "M = (write_mem 30 (encode_to_vec E ?algo) (write_mem 20 ?pk ?F))
        (40 \<mapsto> UsizeCell (word_of_nat (length (encode_to_vec E ?algo))))"
      by simp_all
    have "frame_bytes M 20 = ?pk" "unat (frame_usize M 40) = length (encode_to_vec E ?algo)"
      "take (length (encode_to_vec E ?algo)) (frame_bytes M 30) = encode_to_vec E ?algo"
      "length (encode_to_vec E ?algo) \<le> length (frame_bytes M 30)"
      using pk algo unat by (simp_all add: M frame_bytes_def frame_usize_def write_mem_def overwrite_def)
    then show thesis
      by (intro that [OF _ steps]) (simp add: run rc Some pk go_slice_to_def [of _ "length _"] unmarshal [OF assms(2)]
          ok_orM_def returnM_def)
  qed
qed

section \<open>Key protection service\<close>

abbreviation (input) bound_to :: "bytes \<Rightarrow> HpkeAlgorithm \<Rightarrow> PublicKey \<Rightarrow> KeySpec" where
  "bound_to bpk \<equiv> \<lambda>a pk. KemWithBindingPub a pk (X25519_public (X25519PublicKey bpk))"

lemma kpskcc_GenerateKEMKeypair_run:
  assumes "kps_ready E w" and "go_libs_spec E G" and "algo \<noteq> no_algorithm" and "bpk \<noteq> []" and "length bpk < 2 ^ 63"
  obtains r w' where "kpskcc_GenerateKEMKeypair E G (Some algo) bpk l w = (r, w')" and "(kps_step E)\<^sup>*\<^sup>* w w'"
    and "(\<exists>rc. r = ffi_err rc) \<or> (\<exists>h pk. r = Ok (h, pk) \<and> made_key E algo l (bound_to bpk) h pk w w')"
proof -
  have host: "host_spec E" using assms(1) by (simp add: kps_ready_def)
  note crates = host_specD(1) [OF host, unfolded crates_spec_def]
  obtain bs where bs: "proto_Marshal G (Some algo) = Some bs" "bs \<noteq> []" "length bs \<le> 33" "HpkeAlgorithm_decode E bs = Some algo"
    using marshal [OF assms(2,3)] by blast
  have len: "unat (size_t bs) = length bs" "unat (size_t bpk) = length bpk"
    using bs(3) assms(5) by (simp_all add: unat_size_t)
  let ?F = "[10 \<mapsto> Bytes bs, 20 \<mapsto> Bytes bpk, 30 \<mapsto> Bytes (replicate 16 0), 40 \<mapsto> Bytes (replicate 32 0)] :: ptr \<rightharpoonup> KpsKeyInfo obj"
  let ?c = "GenerateKem 10 (size_t bs) 20 (size_t bpk) l 30 40 32"
  have safe: "generate_kem_safe 10 (size_t bs) 20 (size_t bpk) 30 40 32 (w\<lparr>mem := ?F\<rparr>)"
    by (simp add: generate_kem_safe_def len)
  obtain rc M w' where cgo: "cgo ?F (kps_run E ?c) w = (Ok (rc, M), w')" and steps: "(kps_step E)\<^sup>*\<^sup>* w w'"
    and body: "rc = Success \<longrightarrow> kps_body E ?c (w\<lparr>mem := ?F\<rparr>) = (Ok (), w'\<lparr>mem := M\<rparr>)"
    by (rule kps_cgo [OF assms(1), of ?c ?F]) (use safe in auto)
  have run: "kpskcc_GenerateKEMKeypair E G (Some algo) bpk l w =
      (if rc \<noteq> Success then ffi_failure rc (Uuid (replicate 16 0), [])
       else bindM (ok_orM (uuid_FromBytes G (frame_bytes M 30)) (Wrapped Errorf)) (\<lambda>id.
            bindM (go_slice_to (frame_bytes M 40) 32) (\<lambda>pubkey. returnM (id, pubkey)))) w'"
    using cgo bs(1,2) assms(4) unfolding kpskcc_GenerateKEMKeypair_def kps_run_calls
    by (simp add: ok_orM_def [of "Some _"] bindM_def [of "cgo _ _"])
  show thesis
  proof (cases "rc = Success")
    case False
    then show thesis
      using that [OF _ steps, of "ffi_err rc"] run by (auto simp: errM_def)
  next
    case True
    have core: "core_inv (kps_record E) (w\<lparr>mem := ?F\<rparr>)"
      using readyD(2) [of E "w\<lparr>mem := ?F\<rparr>"] assms(1) by simp
    have ok: "generate_kem_keypair_body E 10 (size_t bs) 20 (size_t bpk) l 30 40 32 (w\<lparr>mem := ?F\<rparr>) = (Ok (), w'\<lparr>mem := M\<rparr>)"
      using body True by simp
    obtain h pk x where gen: "create_and_add E algo (Duration_from_secs l) (bound_to bpk) (w\<lparr>mem := ?F\<rparr>) = (Ok (h, pk), x)"
      and x: "w'\<lparr>mem := M\<rparr> = x\<lparr>mem := write_mem 40 (PublicKey_as_bytes pk) (write_mem 30 (as_bytes h) ?F)\<rparr>"
      by (rule generate_kem_keypair_body_Ok [OF _ _ core safe ok]) (use crates bs(4) len in auto)
    have own: "own_public_key (bound_to bpk a k) = k" for a k
      by (simp add: own_public_key_def)
    note made = create_and_add_Ok [OF _ core own gen]
    have "contents w' = contents x" "draws w' = draws x" "clock w' = clock x" "ticks w' = ticks x"
      using arg_cong [OF x, of contents] arg_cong [OF x, of draws] arg_cong [OF x, of clock] arg_cong [OF x, of ticks] by simp_all
    then have key: "made_key E algo l (bound_to bpk) h (PublicKey_as_bytes pk) w w'"
      using made(1-3) crates create_and_add_draws [OF _ core gen] by (simp add: made_key_def)
    note lens = made_key_lengths [OF host key]
    have M: "M = write_mem 40 (PublicKey_as_bytes pk) (write_mem 30 (as_bytes h) ?F)"
      using arg_cong [OF x, of mem] by simp
    have frames: "frame_bytes M 30 = as_bytes h" "frame_bytes M 40 = PublicKey_as_bytes pk"
      using written_frame [OF M, of "replicate 16 0" "replicate 32 0"] lens by simp_all
    have "kpskcc_GenerateKEMKeypair E G (Some algo) bpk l w = (Ok (h, PublicKey_as_bytes pk), w')"
      using run True lens by (simp add: frames from_bytes [OF assms(2)] ok_orM_def bindM_def returnM_def)
    then show thesis
      using that [OF _ steps] key by blast
  qed
qed

lemma kpskcc_DestroyKEMKey_run:
  assumes "kps_ready E w" and "length (as_bytes h) = 16"
  obtains w' where "kpskcc_DestroyKEMKey E h w = (if contents w h = None then ffi_err NotFound else Ok (), w')"
    and "(kps_step E)\<^sup>*\<^sup>* w w'" and "contents w' = (contents w)(h := None)"
proof -
  let ?F = "[10 \<mapsto> Bytes (as_bytes h)] :: ptr \<rightharpoonup> KpsKeyInfo obj"
  have valid: "valid_buf 10 16 (w\<lparr>mem := ?F\<rparr>)" "buf 10 16 (w\<lparr>mem := ?F\<rparr>) = as_bytes h"
    using assms(2) by simp_all
  obtain w' where run: "kpskcc_DestroyKEMKey E h w = (if contents w h = None then ffi_err NotFound else Ok (), w')"
    and "contents w' = (contents w)(h := None)"
    using cgo_remove [of "kps_record E" w E "destroy_kem_key_body E 10" ?F h DestroyKemKey] readyD(2) [OF assms(1)]
      destroy_kem_key_body_eq [of 10 "w\<lparr>mem := ?F\<rparr>" E] valid assms(1)
    by (auto simp: kpskcc_DestroyKEMKey_def key_manager_destroy_kem_key_def is_null_def kps_ready_def host_specD)
  moreover obtain rc M v where "cgo ?F (kps_run E (DestroyKem 10)) w = (Ok (rc, M), v)" and "(kps_step E)\<^sup>*\<^sup>* w v"
    by (rule kps_cgo [OF assms(1), of "DestroyKem 10" ?F]) (use valid in auto)
  moreover from this have "v = w'"
    using run by (auto simp: kpskcc_DestroyKEMKey_def kps_run_calls bindM_def go_result_ToStatus returnM_def errM_def
        split: if_splits)
  ultimately show thesis
    using that by blast
qed

lemma reseal_answers:
  "fst (reseal E rec enc aad v) \<noteq> Panicked" "fst (reseal E rec enc aad v) \<noteq> Undefined"
  "fst (reseal E rec enc aad v) = Err e \<Longrightarrow> e \<noteq> Success"
  using decaps_errors [of E "get_private_key rec" enc v e] hpke_seal_errors [of E _ _ aad _ v e]
    crypto_never_undefined(1,2) [of E "get_private_key rec" enc v] crypto_never_undefined(5,6) [of E _ _ aad _ v]
    crypto_frame(1) [of E "get_private_key rec" enc v]
  by (auto simp: reseal_def bindM_def split: prod.splits outcome.splits)

lemma reseal_mem: "mem (snd (reseal E rec enc aad v)) = mem v" for v :: "'e world"
proof -
  obtain s where dec: "decaps E (get_private_key rec) enc v = (s, v)"
    using crypto_frame(1) by (metis prod.collapse)
  have "mem (snd (hpke_seal E pub pt aad algo v)) = mem v" for pub pt algo
    using crypto_frame(3) [of E pub pt aad algo v] by auto
  then show ?thesis
    by (simp add: reseal_def bindM_def dec split: outcome.splits)
qed

lemma kpskcc_DecapAndSeal_run:
  assumes "kps_ready E w" and "length (as_bytes h) = 16" and "enc \<noteq> []" and "length enc < 2 ^ 63" and "length aad < 2 ^ 63"
  obtains r w' v where "kpskcc_DecapAndSeal E h enc aad w = (r, w')" and "(kps_step E)\<^sup>*\<^sup>* w w'"
    and "r = (case unexpired (clock w (ticks w)) (contents w h) of None \<Rightarrow> ffi_err NotFound
       | Some rec \<Rightarrow> (case fst (reseal E rec enc aad (v :: KpsKeyInfo world)) of
            Ok (e, c) \<Rightarrow> if length e = 32 \<and> length c = 48 then Ok (e, c) else ffi_err InvalidArgument
          | Err s \<Rightarrow> ffi_err s | Panicked \<Rightarrow> Panicked | Undefined \<Rightarrow> Undefined))"
proof -
  let ?F = "[10 \<mapsto> Bytes (as_bytes h), 20 \<mapsto> Bytes enc, 30 \<mapsto> Bytes aad, 40 \<mapsto> Bytes (replicate 32 0),
      50 \<mapsto> Bytes (replicate 48 0)] :: ptr \<rightharpoonup> KpsKeyInfo obj"
  let ?a = "if aad = [] then 0 else 30" and ?al = "if aad = [] then 0 else size_t aad" and ?w = "w\<lparr>mem := ?F\<rparr>"
  let ?c = "DecapSeal 10 20 (size_t enc) ?a ?al 40 32 50 48"
  have len: "unat (size_t enc) = length enc" "unat (size_t aad) = length aad"
    using assms(4,5) by (simp_all add: unat_size_t)
  have safe: "decap_safe 10 20 (size_t enc) ?a ?al 40 32 50 48 ?w"
    using assms(2) len by (simp add: decap_safe_def is_null_def)
  have present: "decap_present 10 20 (size_t enc) 40 32 50 48"
    using assms(3,4) size_t_0 [of enc] by (simp add: decap_present_def is_null_def)
  have bufs: "buf 10 16 ?w = as_bytes h" "buf 20 (size_t enc) ?w = enc" "aad_buf ?a ?al ?w = aad"
    using assms(2) len by (auto simp: aad_buf_def is_null_def)
  have h: "h = Uuid (buf 10 16 ?w)"
    by (simp add: bufs)
  obtain rc M w' where cgo: "cgo ?F (kps_run E ?c) w = (Ok (rc, M), w')" and steps: "(kps_step E)\<^sup>*\<^sup>* w w'"
    by (rule kps_cgo [OF assms(1), of ?c ?F]) (use safe in auto)
  have run: "kpskcc_DecapAndSeal E h enc aad w =
      (if rc \<noteq> Success then ffi_failure rc ([], [])
       else bindM (go_slice_to (frame_bytes M 40) 32) (\<lambda>sealEnc.
            bindM (go_slice_to (frame_bytes M 50) 48) (\<lambda>sealedCT. returnM (sealEnc, sealedCT)))) w'"
    using cgo assms(3) unfolding kpskcc_DecapAndSeal_def kps_run_calls by (simp add: bindM_def [of "cgo _ _"])
  note ready = readyD(2) [of E ?w, simplified, OF assms(1)]
  note eq = decap_and_seal_body_eq [OF conjunct1 [OF ready] conjunct2 [OF ready] present safe h, unfolded bufs]
  let ?v = "looked_up h ?w" and ?body = "decap_and_seal_body E 10 20 (size_t enc) ?a ?al 40 32 50 48 ?w"
  note inv = cgo_inv [OF cgo [unfolded kps_run_calls key_manager_decap_and_seal_def]]
  have errors: "kpskcc_DecapAndSeal E h enc aad w = (ffi_err e, w')" if "e \<noteq> Success" and "?body = (Err e, u)" for e u
    using run that(1) inv(2) [OF that(2)] by (simp add: errM_def)
  show thesis
  proof (cases "unexpired (clock w (ticks w)) (contents w h)")
    case None
    from errors [of NotFound ?v] None eq show thesis
      by (intro that [OF _ steps, of _ ?v]) simp_all
  next
    case (Some rec)
    obtain s u where re: "reseal E rec enc aad ?v = (s, u)" by fastforce
    note answers = reseal_answers [of E rec enc aad ?v, unfolded re fst_conv]
    have u: "mem u = ?F"
      using reseal_mem [of E rec enc aad ?v] by (simp add: re)
    show thesis
    proof (cases s)
      case (Ok p)
      obtain e c where p: "p = (e, c)" by fastforce
      show thesis
      proof (cases "length e = 32 \<and> length c = 48")
        case True
        then have "?body = (Ok (), u\<lparr>mem := write_mem 50 c (write_mem 40 e ?F)\<rparr>)"
          by (simp add: eq Some bindM_def [of "reseal _ _ _ _"] re Ok p updateM_def u)
        from inv(1) [OF this] have rc: "rc = Success" and M: "M = write_mem 50 c (write_mem 40 e ?F)"
          by simp_all
        have "frame_bytes M 40 = e" "frame_bytes M 50 = c"
          using written_frame [OF M, of "replicate 32 0" "replicate 48 0"] True by simp_all
        then have res: "kpskcc_DecapAndSeal E h enc aad w = (Ok (e, c), w')"
          using True by (simp add: run rc returnM_def)
        show thesis
          by (rule that [OF res steps, of ?v]) (use True in \<open>simp add: Some re Ok p\<close>)
      next
        case False
        then have "?body = (Err InvalidArgument, u)"
          by (auto simp: eq Some bindM_def [of "reseal _ _ _ _"] re Ok p errM_def)
        from errors [OF _ this] False show thesis
          by (intro that [OF _ steps, of _ ?v]) (simp_all add: Some re Ok p)
      qed
    next
      case (Err e)
      then have "?body = (Err e, u)"
        by (simp add: eq Some bindM_def [of "reseal _ _ _ _"] re)
      from errors [OF answers(3) [OF Err] this] show thesis
        by (intro that [OF _ steps, of _ ?v]) (simp_all add: Some re Err)
    qed (use answers in simp_all)
  qed
qed

lemma kpskcc_GetKEMKey_run:
  assumes "kps_ready E w" and "go_libs_spec E G" and "length (as_bytes h) = 16"
  obtains w' where "kpskcc_GetKEMKey E G h w =
      (case unexpired (clock w (ticks w)) (contents w h) of None \<Rightarrow> ffi_err NotFound
       | Some rec \<Rightarrow> Ok (PublicKey_as_bytes (kem_public_key (spec (meta rec))),
           PublicKey_as_bytes (binding_public_key (spec (meta rec))), spec_algo (spec (meta rec)),
           Duration_as_secs (saturating_duration_since (delete_after (meta rec)) (clock w (Suc (ticks w))))), w')"
    and "(kps_step E)\<^sup>*\<^sup>* w w'"
proof -
  let ?F = "[10 \<mapsto> Bytes (as_bytes h), 20 \<mapsto> Bytes (replicate 32 0), 30 \<mapsto> Bytes (replicate 32 0),
      40 \<mapsto> Bytes (replicate 128 0), 50 \<mapsto> UsizeCell 128, 60 \<mapsto> U64Cell 0] :: ptr \<rightharpoonup> KpsKeyInfo obj"
  let ?w = "w\<lparr>mem := ?F\<rparr>" and ?c = "GetKem 10 20 32 30 32 40 50 60"
  have safe: "get_kem_safe 10 20 32 30 32 40 50 60 ?w" and present: "get_kem_present 10 20 32 30 32 40 50 60"
    using assms(3) by (simp_all add: get_kem_safe_def get_kem_present_def is_null_def)
  have h: "h = Uuid (buf 10 16 ?w)"
    using assms(3) by simp
  obtain rc M w' where cgo: "cgo ?F (kps_run E ?c) w = (Ok (rc, M), w')" and steps: "(kps_step E)\<^sup>*\<^sup>* w w'"
    by (rule kps_cgo [OF assms(1), of ?c ?F]) (use safe in auto)
  have run: "kpskcc_GetKEMKey E G h w =
      (if rc \<noteq> Success then ffi_failure rc ([], [], no_algorithm, 0)
       else bindM (go_slice_to (frame_bytes M 40) (unat (frame_usize M 50))) (\<lambda>algoBytes.
            bindM (ok_orM (proto_Unmarshal G algoBytes) Errorf) (\<lambda>algo.
            returnM (frame_bytes M 20, frame_bytes M 30, algo, frame_u64 M 60)))) w'"
    using cgo unfolding kpskcc_GetKEMKey_def kps_run_calls by (simp add: bindM_def [of "cgo _ _"] MAX_ALGORITHM_LEN_def)
  note ready = readyD(2) [of E ?w, simplified, OF assms(1)]
  note inv = cgo_inv [OF cgo [unfolded kps_run_calls key_manager_get_kem_key_def]]
  have n: "mem ?w 50 = Some (UsizeCell 128)" by simp
  note eq = get_kem_key_body_eq [OF conjunct1 [OF ready] conjunct2 [OF ready] present safe h n]
  show thesis
  proof (cases "unexpired (clock w (ticks w)) (contents w h)")
    case None
    then have "get_kem_key_body E 10 20 32 30 32 40 50 60 ?w = (Err NotFound, looked_up h ?w)"
      by (simp add: eq)
    from inv(2) [OF this] show thesis
      by (intro that [OF _ steps]) (simp add: run None errM_def)
  next
    case (Some rec)
    let ?k = "PublicKey_as_bytes (kem_public_key (spec (meta rec)))" and ?b = "PublicKey_as_bytes (binding_public_key (spec (meta rec)))"
    let ?algo = "encode_to_vec E (spec_algo (spec (meta rec)))"
    let ?secs = "Duration_as_secs (saturating_duration_since (delete_after (meta rec)) (clock w (Suc (ticks w))))"
    have host: "prost_spec E" "hpke_spec E"
      using assms(1) by (simp_all add: kps_ready_def host_spec_def crates_spec_def)
    have "kps_record E rec"
      using core_inv_contents [OF conjunct1 [OF ready], of h rec] Some by (simp add: unexpired_eq_Some)
    then have pk: "length ?k = 32" "length ?b = 32"
      using record_ok_length [OF host(2), of rec]
      by (auto simp: kps_record_def own_public_key_def split: KeySpec.splits)
    have algo: "length ?algo \<le> 33"
      by (rule length_encode [OF host(1)])
    then have unat: "unat (word_of_nat (length ?algo) :: usize) = length ?algo"
      by (simp add: unat_of_nat take_bit_nat_eq_self)
    let ?M = "(write_mem 40 ?algo (write_mem 30 ?b (write_mem 20 ?k ?F)))
        (50 \<mapsto> UsizeCell (word_of_nat (length ?algo)), 60 \<mapsto> U64Cell ?secs)"
    have "get_kem_key_body E 10 20 32 30 32 40 50 60 ?w = (Ok (), (looked_up h ?w)\<lparr>ticks := ticks w + 2, mem := ?M\<rparr>)"
      using pk algo by (simp add: eq Some Let_def)
    from inv(1) [OF this] have rc: "rc = Success" and M: "M = ?M"
      by simp_all
    have "frame_bytes M 20 = ?k" "frame_bytes M 30 = ?b" "unat (frame_usize M 50) = length ?algo" "frame_u64 M 60 = ?secs"
      "take (length ?algo) (frame_bytes M 40) = ?algo" "length ?algo \<le> length (frame_bytes M 40)"
      using pk algo unat by (simp_all add: M frame_bytes_def frame_usize_def frame_u64_def write_mem_def overwrite_def)
    then show thesis
      by (intro that [OF _ steps]) (simp add: run rc Some go_slice_to_def unmarshal [OF assms(2)] ok_orM_def returnM_def)
  qed
qed

text \<open>Enumeration. A positive \<^verbatim>\<open>int32\<close> is the same number as a \<^verbatim>\<open>size_t\<close>, and an entry is read back as it was written.\<close>

lemma unat_scast: "0 \<le> sint n \<Longrightarrow> unat (scast n :: usize) = nat (sint n)" for n :: i32
proof -
  assume n: "0 \<le> sint n"
  have "sint n < 2 ^ 31"
    using sint_lt [of n] by simp
  with n have "uint (scast n :: usize) = sint n"
    unfolding scast_eq by (simp only: uint_word_of_int) (simp add: take_bit_int_eq_self flip: take_bit_eq_mod)
  then show ?thesis
    by (simp add: unat_eq_nat_uint)
qed

lemma GoBytes_prefix:
  assumes "length src \<le> length dst" and "length src < 2 ^ 31"
  shows "GoBytes (overwrite src dst) (word_of_nat (length src)) = returnM src"
proof -
  have "sint (word_of_nat (length src) :: i32) = int (length src)"
    using assms(2) by (simp add: signed_of_nat signed_take_bit_int_eq_self)
  moreover have "(ucast (word_of_nat (length src) :: usize) :: i32) = word_of_nat (length src)"
    using assms(2) by (simp add: unsigned_of_nat take_bit_nat_eq_self)
  ultimately show ?thesis
    using assms(1) by (simp add: GoBytes_def Let_def overwrite_def)
qed

definition listed_key :: "instant \<Rightarrow> KeyMetadata \<Rightarrow> KEMKeyInfo" where
  "listed_key now m = \<lparr>ID = meta_id m, Algorithm = Some (spec_algo (spec m)), KEMPubKey = PublicKey_as_bytes (kem_public_key (spec m)),
     RemainingLifespanSecs = Duration_as_secs (saturating_duration_since (delete_after m) now)\<rparr>"

definition listed_keys :: "(nat \<Rightarrow> instant) \<Rightarrow> nat \<Rightarrow> KeyMetadata list \<Rightarrow> KEMKeyInfo list" where
  "listed_keys c t metas = map (\<lambda>j. listed_key (c (t + j)) (metas ! j)) [0..<length metas]"

lemma listed_keys_simps [simp]:
  "listed_keys c t [] = []"
  "listed_keys c t (m # metas) = listed_key (c t) m # listed_keys c (Suc t) metas"
  by (simp_all add: listed_keys_def upt_conv_Cons map_Suc_upt [symmetric] del: upt_Suc)

lemma kem_key_infos_eq:
  assumes "go_libs_spec E G" and "prost_spec E" and "hpke_spec E"
    and "list_all (\<lambda>m. \<exists>rec. kps_record E rec \<and> meta rec = m) metas"
  shows "kem_key_infos G (kem_infos E c t metas) = returnM (listed_keys c t metas)"
  using assms(4)
proof (induction metas arbitrary: t)
  case (Cons m metas)
  obtain rec where rec: "kps_record E rec" and m: "meta rec = m"
    using Cons.prems by auto
  have pk: "length (PublicKey_as_bytes (kem_public_key (spec m))) = 32" "length (as_bytes (meta_id m)) = 16"
    using rec record_ok_length [OF assms(3), of rec] m
    by (auto simp: kps_record_def own_public_key_def record_ok_def split: KeySpec.splits)
  have algo: "length (encode_to_vec E (spec_algo (spec m))) \<le> 33"
    by (rule length_encode [OF assms(2)])
  let ?e = "kem_info E (c t) m"
  have bytes: "GoBytes (kps_uuid ?e) 16 = returnM (as_bytes (meta_id m))"
    "GoBytes (kps_pub_key ?e) (kps_pub_key_len ?e) = returnM (PublicKey_as_bytes (kem_public_key (spec m)))"
    "GoBytes (kps_algorithm ?e) (kps_algorithm_len ?e) = returnM (encode_to_vec E (spec_algo (spec m)))"
    using GoBytes_prefix [of "as_bytes (meta_id m)" "replicate 16 0"]
      GoBytes_prefix [of "PublicKey_as_bytes (kem_public_key (spec m))" "replicate 2048 0"]
      GoBytes_prefix [of "encode_to_vec E (spec_algo (spec m))" "replicate 128 0"] pk algo
    by (simp_all add: kem_info_def kps_key_info_def KpsKeyInfo_default_def MAX_PUBLIC_KEY_LEN_def MAX_ALGORITHM_LEN_def)
  have secs: "kps_remaining_lifespan_secs ?e = Duration_as_secs (saturating_duration_since (delete_after m) (c t))"
    by (simp add: kem_info_def kps_key_info_def)
  show ?case
    using pk Cons.IH [of "Suc t"] Cons.prems
    by (simp add: bytes secs from_bytes [OF assms(1)] unmarshal [OF assms(1)] ok_orM_def listed_key_def)
qed (simp add: returnM_def)

lemma live_page_records:
  assumes "kps_ready E w"
  shows "list_all (\<lambda>m. \<exists>rec. kps_record E rec \<and> meta rec = m) (map meta (take n (drop i (listing now w))))"
  using core_inv_contents [OF conjunct1 [OF readyD(2) [OF assms]]] listing_props(3) [OF conjunct1 [OF readyD(2) [OF assms]], of now]
  by (auto simp: list_all_iff unexpired_eq_Some dest!: in_set_takeD in_set_dropD) blast

lemma kpskcc_EnumerateKEMKeys_run:
  assumes "kps_ready E w" and "go_libs_spec E G" and "0 < sint limit" and "0 \<le> sint offset"
    and all: "all = listing (clock w (ticks w)) w" and "length all < 2 ^ 64"
    and page: "page = map meta (take (nat (sint limit)) (drop (nat (sint offset)) all))"
  obtains w' where "kpskcc_EnumerateKEMKeys E G limit offset w =
      (Ok (listed_keys (clock w) (Suc (ticks w)) page,
           nat (sint offset) + length page < length all), w')"
    and "(kps_step E)\<^sup>*\<^sup>* w w'"
proof -
  let ?F = "[10 \<mapsto> Entries (replicate (nat (sint limit)) KpsKeyInfo_default), 20 \<mapsto> BoolCell False] :: ptr \<rightharpoonup> KpsKeyInfo obj"
  let ?w = "w\<lparr>mem := ?F\<rparr>" and ?es = "replicate (nat (sint limit)) KpsKeyInfo_default"
  let ?body = "enumerate_kem_keys_body E 10 (scast limit) (scast offset) (Some 20)"
  have host: "prost_spec E" "hpke_spec E"
    using assms(1) by (simp_all add: kps_ready_def host_spec_def crates_spec_def)
  have nums: "unat (scast limit :: usize) = nat (sint limit)" "unat (scast offset :: usize) = nat (sint offset)"
    using assms(3,4) by (simp_all add: unat_scast)
  have safe: "enumerate_safe 10 (scast limit) ?es (Some 20) ?w"
    by (simp add: enumerate_safe_def nums)
  note ready = readyD(2) [of E ?w, simplified, OF assms(1)]
  have listing: "all = listing (clock ?w (ticks ?w)) ?w"
    by (simp add: all listing_def registry_of_def)
  have page': "page = map meta (take (unat (scast limit :: usize)) (drop (unat (scast offset :: usize)) all))"
    by (simp add: page nums)
  let ?infos = "kem_infos E (clock w) (Suc (ticks w)) page"
  define M where "M = ?F(10 \<mapsto> Entries (?infos @ drop (length page) ?es), 20 \<mapsto> BoolCell (nat (sint offset) + length page < length all))"
  define v where "v = (forced ?w)\<lparr>ticks := Suc (ticks w) + length page, mem := M\<rparr>"
  have body: "?body ?w = (Ok (word_of_nat (length page)), v)"
    using enumerate_kem_keys_body_eq [OF host conjunct1 [OF ready] conjunct2 [OF ready] _ safe listing assms(6) page']
    by (simp add: v_def M_def is_null_def nums)
  then have call: "key_manager_enumerate_kem_keys E 10 (scast limit) (scast offset) (Some 20) ?w
      = (Returns (word_of_nat (length page)), v)"
    by (simp add: key_manager_enumerate_kem_keys_def ffi_call_i32_def ffi_call_i32_with_reporter_def)
  let ?w' = "v\<lparr>mem := mem w\<rparr>"
  have steps: "(kps_step E)\<^sup>*\<^sup>* w ?w'"
    by (rule kps_frame_steps [OF kps_enumerate [OF safe call]])
  have len: "length page \<le> nat (sint limit)"
    by (simp add: page)
  moreover have "nat (sint limit) < 2 ^ 31"
    using sint_lt [of limit] assms(3) by simp
  ultimately have "length page < 2 ^ 31"
    by simp
  then have count: "sint (word_of_nat (length page) :: i32) = int (length page)"
    by (simp add: signed_of_nat signed_take_bit_int_eq_self)
  have entries: "take (length page) (frame_entries M 10) = ?infos" "length page \<le> length (frame_entries M 10)"
    "frame_bool M 20 = (nat (sint offset) + length page < length all)"
    using len by (simp_all add: M_def frame_entries_def frame_bool_def)
  note recs = live_page_records [OF assms(1), of "nat (sint limit)" "nat (sint offset)" "clock w (ticks w)", folded all, folded page]
  have "kpskcc_EnumerateKEMKeys E G limit offset w =
      (Ok (listed_keys (clock w) (Suc (ticks w)) page,
           nat (sint offset) + length page < length all), ?w')"
    using assms(3,4) call count entries
    by (simp add: kpskcc_EnumerateKEMKeys_def bindM_def [of "cgo _ _"] cgo_def go_slice_to_def
        kem_key_infos_eq [OF assms(2) host recs] returnM_def v_def)
  from that [OF this steps] show thesis .
qed

end
