(* ===== verification/Kps_Server.thy ===== *)
theory Kps_Server
  imports Cgo_Calls
begin

text \<open>
  The Go server of the key protection service: \<^verbatim>\<open>service.go\<close>, which delegates to the cgo wrapper,
  \<^verbatim>\<open>grpc_server.go\<close>, the handlers of the remote procedures, and the key claims of \<^verbatim>\<open>server.go\<close>. Messages are records with the
  fields of \<^verbatim>\<open>key_protection_service/proto/api.proto\<close>; a field that holds a message may be absent, and the generated getters
  give the zero value then. A \<^verbatim>\<open>KeyHandle\<close> is the string in it, and of the \<^verbatim>\<open>KemCiphertext\<close> of a decapsulation only the bytes are
  kept: no handler reads its algorithm. The rules that \<^verbatim>\<open>protovalidate\<close> enforces are those the \<^verbatim>\<open>.proto\<close> file declares.

  Handlers are computations that fail with a gRPC code. A handler that panics takes the process down: gRPC does not
  recover. Listening, serving and shutting down are not modelled.
\<close>

section \<open>Messages\<close>

record HpkePublicKey =
  hpke_algorithm :: "HpkeAlgorithm option"
  hpke_public_key :: bytes

record KemPublicKey =
  kem_algorithm :: i32
  kem_public_key_bytes :: bytes

record GenerateKEMKeypairRequest =
  gen_algo :: "HpkeAlgorithm option"
  gen_binding_pub_key :: "HpkePublicKey option"
  gen_lifespan_secs :: u64

record GenerateKEMKeypairResponse =
  gen_key_handle :: "string option"
  gen_kem_pub_key :: "KemPublicKey option"

record DecapAndSealRequest =
  decap_key_handle :: "string option"
  decap_ciphertext :: "bytes option"
  decap_aad :: bytes

record DecapAndSealResponse =
  seal_enc :: bytes
  sealed_ct :: bytes

record EnumerateKEMKeysRequest =
  enum_limit :: i32
  enum_offset :: i32

record KEMKeyInfoMsg =
  info_key_handle :: "string option"
  info_algorithm :: "HpkeAlgorithm option"
  info_kem_pub_key :: bytes
  info_remaining_lifespan_secs :: u64

record EnumerateKEMKeysResponse =
  enum_keys :: "KEMKeyInfoMsg list"
  enum_has_more :: bool

record KeyHandleRequest =
  req_key_handle :: "string option"

record GetKEMKeyResponse =
  got_kem_pub_key :: "KemPublicKey option"
  got_binding_pub_key :: "HpkePublicKey option"
  got_remaining_lifespan_secs :: u64

text \<open>The generated getters on a field that may be absent.\<close>

definition GetHandle :: "string option \<Rightarrow> string" where
  "GetHandle h = (case h of None \<Rightarrow> [] | Some s \<Rightarrow> s)"

definition GetKem :: "HpkeAlgorithm option \<Rightarrow> i32" where
  "GetKem a = (case a of None \<Rightarrow> 0 | Some algo \<Rightarrow> kem algo)"

definition GetHpkePublicKey :: "HpkePublicKey option \<Rightarrow> bytes" where
  "GetHpkePublicKey k = (case k of None \<Rightarrow> [] | Some key \<Rightarrow> hpke_public_key key)"

definition GetHpkeAlgorithm :: "HpkePublicKey option \<Rightarrow> HpkeAlgorithm option" where
  "GetHpkeAlgorithm k = (case k of None \<Rightarrow> None | Some key \<Rightarrow> hpke_algorithm key)"

definition GetKemPublicKey :: "KemPublicKey option \<Rightarrow> bytes" where
  "GetKemPublicKey k = (case k of None \<Rightarrow> [] | Some key \<Rightarrow> kem_public_key_bytes key)"

definition GetCiphertext :: "bytes option \<Rightarrow> bytes" where
  "GetCiphertext c = (case c of None \<Rightarrow> [] | Some bs \<Rightarrow> bs)"

section \<open>Service\<close>

definition Service_GenerateKEMKeypair :: "('s, 'r, 'p) env \<Rightarrow> 'g go_env_scheme \<Rightarrow> HpkeAlgorithm option \<Rightarrow> bytes \<Rightarrow> u64 \<Rightarrow>
    (go_error, KpsKeyInfo world, uuid \<times> bytes) rust" where
  "Service_GenerateKEMKeypair E G algo bindingPubKey lifespanSecs = kpskcc_GenerateKEMKeypair E G algo bindingPubKey lifespanSecs"

definition Service_DecapAndSeal :: "('s, 'r, 'p) env \<Rightarrow> uuid \<Rightarrow> bytes \<Rightarrow> bytes \<Rightarrow>
    (go_error, KpsKeyInfo world, bytes \<times> bytes) rust" where
  "Service_DecapAndSeal E kemUUID encapsulatedKey aad = kpskcc_DecapAndSeal E kemUUID encapsulatedKey aad"

definition Service_EnumerateKEMKeys :: "('s, 'r, 'p) env \<Rightarrow> 'g go_env_scheme \<Rightarrow> i32 \<Rightarrow> i32 \<Rightarrow>
    (go_error, KpsKeyInfo world, KEMKeyInfo list \<times> bool) rust" where
  "Service_EnumerateKEMKeys E G limit offset = kpskcc_EnumerateKEMKeys E G limit offset"

definition Service_DestroyKEMKey :: "('s, 'r, 'p) env \<Rightarrow> uuid \<Rightarrow> (go_error, KpsKeyInfo world, unit) rust" where
  "Service_DestroyKEMKey E kemUUID = kpskcc_DestroyKEMKey E kemUUID"

definition Service_GetKEMKey :: "('s, 'r, 'p) env \<Rightarrow> 'g go_env_scheme \<Rightarrow> uuid \<Rightarrow>
    (go_error, KpsKeyInfo world, bytes \<times> bytes \<times> HpkeAlgorithm \<times> u64) rust" where
  "Service_GetKEMKey E G key_id = kpskcc_GetKEMKey E G key_id"

section \<open>Status codes\<close>

text \<open>
  The map is iterated in an unspecified order, and the list stands for one of them. An error of the service is of
  one status, so that at most one entry matches.
\<close>

definition ffiErrorToGrpcCode :: "(Status \<times> code) list" where
  "ffiErrorToGrpcCode =
     [(NotFound, Code_NotFound), (InvalidArgument, Code_InvalidArgument), (UnsupportedAlgorithm, Code_InvalidArgument),
      (InvalidKey, Code_InvalidArgument), (PermissionDenied, Code_PermissionDenied),
      (Unauthenticated, Code_Unauthenticated), (AlreadyExists, Code_AlreadyExists)]"

definition grpcCodeFromError :: "go_error \<Rightarrow> code" where
  "grpcCodeFromError err =
     (case find (\<lambda>(target, _). errors_Is err target) ffiErrorToGrpcCode of Some (_, c) \<Rightarrow> c | None \<Rightarrow> Internal)"

section \<open>Handlers\<close>

text \<open>\<^verbatim>\<open>ValidationInterceptor\<close>, with the rules of the message at hand.\<close>

definition ValidationInterceptor :: "('m \<Rightarrow> bool) \<Rightarrow> 'm \<Rightarrow> ('m \<Rightarrow> (code, 'w, 'a) rust) \<Rightarrow> (code, 'w, 'a) rust" where
  "ValidationInterceptor valid req handler = (if valid req then handler req else errM Code_InvalidArgument)"

definition GenerateKEMKeypairRequest_rules :: "GenerateKEMKeypairRequest \<Rightarrow> bool" where
  "GenerateKEMKeypairRequest_rules req \<longleftrightarrow> gen_algo req \<noteq> None"

definition DecapAndSealRequest_rules :: "DecapAndSealRequest \<Rightarrow> bool" where
  "DecapAndSealRequest_rules req \<longleftrightarrow> decap_key_handle req \<noteq> None"

definition EnumerateKEMKeysRequest_rules :: "EnumerateKEMKeysRequest \<Rightarrow> bool" where
  "EnumerateKEMKeysRequest_rules req \<longleftrightarrow> 0 < sint (enum_limit req) \<and> sint (enum_limit req) \<le> 10000 \<and> 0 \<le> sint (enum_offset req)"

definition KeyHandleRequest_rules :: "KeyHandleRequest \<Rightarrow> bool" where
  "KeyHandleRequest_rules req \<longleftrightarrow> req_key_handle req \<noteq> None"

definition grpc_GenerateKEMKeypair :: "('s, 'r, 'p) env \<Rightarrow> 'g go_env_scheme \<Rightarrow> GenerateKEMKeypairRequest \<Rightarrow>
    (code, KpsKeyInfo world, GenerateKEMKeypairResponse) rust" where
  "grpc_GenerateKEMKeypair E G req =
     bindM (map_errM grpcCodeFromError (Service_GenerateKEMKeypair E G (gen_algo req)
         (GetHpkePublicKey (gen_binding_pub_key req)) (gen_lifespan_secs req))) (\<lambda>(key_id, pubKey).
     returnM \<lparr>gen_key_handle = Some (uuid_String G key_id),
              gen_kem_pub_key = Some \<lparr>kem_algorithm = GetKem (gen_algo req), kem_public_key_bytes = pubKey\<rparr>\<rparr>)"

definition grpc_DecapAndSeal :: "('s, 'r, 'p) env \<Rightarrow> 'g go_env_scheme \<Rightarrow> DecapAndSealRequest \<Rightarrow>
    (code, KpsKeyInfo world, DecapAndSealResponse) rust" where
  "grpc_DecapAndSeal E G req =
     bindM (ok_orM (uuid_Parse G (GetHandle (decap_key_handle req))) Code_InvalidArgument) (\<lambda>kemUUID.
     bindM (map_errM grpcCodeFromError (Service_DecapAndSeal E kemUUID (GetCiphertext (decap_ciphertext req)) (decap_aad req)))
       (\<lambda>(sealEnc, sealedCt).
     returnM \<lparr>seal_enc = sealEnc, sealed_ct = sealedCt\<rparr>))"

definition grpc_EnumerateKEMKeys :: "('s, 'r, 'p) env \<Rightarrow> 'g go_env_scheme \<Rightarrow> EnumerateKEMKeysRequest \<Rightarrow>
    (code, KpsKeyInfo world, EnumerateKEMKeysResponse) rust" where
  "grpc_EnumerateKEMKeys E G req =
     bindM (map_errM grpcCodeFromError (Service_EnumerateKEMKeys E G (enum_limit req) (enum_offset req))) (\<lambda>(keys, hasMore).
     returnM \<lparr>enum_keys = map (\<lambda>k. \<lparr>info_key_handle = Some (uuid_String G (ID k)), info_algorithm = Algorithm k,
                info_kem_pub_key = KEMPubKey k, info_remaining_lifespan_secs = RemainingLifespanSecs k\<rparr>) keys,
              enum_has_more = hasMore\<rparr>)"

definition grpc_DestroyKEMKey :: "('s, 'r, 'p) env \<Rightarrow> 'g go_env_scheme \<Rightarrow> KeyHandleRequest \<Rightarrow> (code, KpsKeyInfo world, unit) rust" where
  "grpc_DestroyKEMKey E G req =
     bindM (ok_orM (uuid_Parse G (GetHandle (req_key_handle req))) Code_InvalidArgument) (\<lambda>kemUUID.
     map_errM grpcCodeFromError (Service_DestroyKEMKey E kemUUID))"

definition grpc_GetKEMKey :: "('s, 'r, 'p) env \<Rightarrow> 'g go_env_scheme \<Rightarrow> KeyHandleRequest \<Rightarrow>
    (code, KpsKeyInfo world, GetKEMKeyResponse) rust" where
  "grpc_GetKEMKey E G req =
     bindM (ok_orM (uuid_Parse G (GetHandle (req_key_handle req))) Code_InvalidArgument) (\<lambda>kemUUID.
     bindM (map_errM grpcCodeFromError (Service_GetKEMKey E G kemUUID)) (\<lambda>(kemPubKey, bindingPubKey, algo, lifespan).
     returnM \<lparr>got_kem_pub_key = Some \<lparr>kem_algorithm = kem algo, kem_public_key_bytes = kemPubKey\<rparr>,
              got_binding_pub_key = Some \<lparr>hpke_algorithm = Some algo, hpke_public_key = bindingPubKey\<rparr>,
              got_remaining_lifespan_secs = lifespan\<rparr>))"

definition grpc_Heartbeat :: "string \<Rightarrow> (code, KpsKeyInfo world, string) rust" where
  "grpc_Heartbeat bootToken = returnM bootToken"

section \<open>Key claims\<close>

datatype KeyType = KeyTypeUnspecified | VmProtectionBinding | VmProtectionKey | UnknownKeyType i32

datatype KeyProtectionMechanism = MechanismUnspecified | Mechanism_DEFAULT | KEY_PROTECTION_VM | KEY_PROTECTION_VM_EMULATED
  | UnknownMechanism i32

datatype ServiceRole = RoleUnspecified | SERVICE_ROLE_WSD | SERVICE_ROLE_KPS | UnknownRole i32

record GetKeyClaimsRequest =
  claims_key_handle :: "string option"
  claims_key_type :: KeyType

text \<open>A \<^verbatim>\<open>time.Duration\<close> is an \<^verbatim>\<open>int64\<close> of nanoseconds, and a \<^verbatim>\<open>float64\<close> of a whole number is a whole number.\<close>

record VmKeyClaims =
  claims_kem_pub_key :: KemPublicKey
  claims_binding_pub_key :: HpkePublicKey
  RemainingLifespan :: "64 word"
  ExpirationTime :: int

datatype KeyClaims = VmProtectionBindingClaims HpkePublicKey | VmProtectionKeyClaims VmKeyClaims

text \<open>Conversion of a whole number to \<^verbatim>\<open>float64\<close>: 53 significant bits, rounded to even.\<close>

fun bit_length :: "nat \<Rightarrow> nat" where
  "bit_length n = (if n = 0 then 0 else Suc (bit_length (n div 2)))"

definition round_even :: "int \<Rightarrow> nat \<Rightarrow> int" where
  "round_even n k =
     (let q = n div 2 ^ k; r = n mod 2 ^ k in
      if 2 * r < 2 ^ k \<or> 2 * r = 2 ^ k \<and> even q then q * 2 ^ k else (q + 1) * 2 ^ k)"

definition float64 :: "int \<Rightarrow> int" where
  "float64 n = sgn n * round_even \<bar>n\<bar> (bit_length (nat \<bar>n\<bar>) - 53)"

definition maxDurationSeconds :: "64 word" where
  "maxDurationSeconds = (2 ^ 63 - 1) div 1000000000"

definition remaining_duration :: "u64 \<Rightarrow> 64 word" where
  "remaining_duration lifespan = (if lifespan > maxDurationSeconds then 2 ^ 63 - 1 else lifespan * 1000000000)"

definition expiration_time :: "int \<Rightarrow> u64 \<Rightarrow> int" where
  "expiration_time now lifespan = float64 (float64 now + float64 (uint lifespan))"

definition vm_key_claims :: "int \<Rightarrow> bytes \<times> bytes \<times> HpkeAlgorithm \<times> u64 \<Rightarrow> KeyClaims" where
  "vm_key_claims now = (\<lambda>(kemPubKey, bindingPubKey, algo, lifespan).
     VmProtectionKeyClaims
       \<lparr>claims_kem_pub_key = \<lparr>kem_algorithm = kem algo, kem_public_key_bytes = kemPubKey\<rparr>,
        claims_binding_pub_key = \<lparr>hpke_algorithm = Some algo, hpke_public_key = bindingPubKey\<rparr>,
        RemainingLifespan = remaining_duration lifespan,
        ExpirationTime = expiration_time now lifespan\<rparr>)"

definition kps_GetKeyClaims :: "('s, 'r, 'p) env \<Rightarrow> 'g go_env_scheme \<Rightarrow> KeyProtectionMechanism \<Rightarrow> ServiceRole \<Rightarrow> int \<Rightarrow>
    GetKeyClaimsRequest \<Rightarrow> (code, KpsKeyInfo world, KeyClaims) rust" where
  "kps_GetKeyClaims E G mode role now req =
     (if mode \<noteq> KEY_PROTECTION_VM \<or> role \<noteq> SERVICE_ROLE_KPS then errM Code_PermissionDenied
      else if claims_key_type req \<noteq> VmProtectionKey then errM Code_InvalidArgument
      else
        bindM (ok_orM (uuid_Parse G (GetHandle (claims_key_handle req))) Code_InvalidArgument) (\<lambda>kemUUID.
        bindM (map_errM grpcCodeFromError (Service_GetKEMKey E G kemUUID)) (\<lambda>key.
        returnM (vm_key_claims now key))))"

section \<open>Lemmas\<close>

lemma remaining_duration_exact:
  "sint (remaining_duration l) = (if uint l \<le> 9223372036 then uint l * 1000000000 else 9223372036854775807)"
proof -
  have max: "uint maxDurationSeconds = 9223372036"
    by (simp add: maxDurationSeconds_def uint_div_distrib uint_word_ariths)
  show ?thesis
  proof (cases "uint l \<le> 9223372036")
    case True
    then have "uint (l * 1000000000) = uint l * 1000000000"
      using uint_word_ariths(3) [of l 1000000000] uint_ge_0 [of l] by (simp add: mod_pos_pos_trivial)
    moreover have b: "0 \<le> uint l * 1000000000" "uint l * 1000000000 < 9223372036854775808"
      using True uint_ge_0 [of l] by linarith+
    have "signed_take_bit 63 (uint l * 1000000000) = uint l * 1000000000"
    proof (rule signed_take_bit_int_eq_self)
      have "- (2 ^ 63) \<le> (0 :: int)" by simp
      then show "- (2 ^ 63) \<le> uint l * 1000000000" using b(1) by (rule order_trans)
      show "uint l * 1000000000 < 2 ^ 63" using b(2) by simp
    qed
    ultimately show ?thesis
      using True max by (simp add: remaining_duration_def word_less_def sint_uint)
  next
    case False
    then show ?thesis
      using max by (simp add: remaining_duration_def word_less_def)
  qed
qed

end
