(* ===== verification/Ws_Server.thy ===== *)
theory Ws_Server
  imports Kps_Server
begin

text \<open>
  The Go server of the workload service, \<^verbatim>\<open>workload_service/server.go\<close> and \<^verbatim>\<open>proto_enums.go\<close>: the HTTP handlers, the
  client of a remote key protection service, key claims and the heartbeat. The state \<open>wsd\<close> is the Go struct \<^verbatim>\<open>Server\<close>
  together with the two custody cores its calls end in: the one linked into the process and the one of the key protection service,
  which is in the same process too or behind gRPC.

  A handler is one step here. It takes what it does not compute as arguments: the fate of its remote call, and readings of the wall
  clock. A response is its status and body; the text of error messages is left out. JSON is the parameter \<open>http_env\<close>. Sockets,
  serving and shutting down are not modelled.
\<close>

section \<open>Messages\<close>

record GenerateKeyRequest =
  gk_algorithm :: "AlgorithmDetails option"
  gk_lifespan :: u64

record KemCiphertext =
  ct_algorithm :: i32
  ct_ciphertext :: bytes

record DecapsRequest =
  dr_key_handle :: "string option"
  dr_ciphertext :: "KemCiphertext option"

record DestroyRequest =
  de_key_handle :: "string option"

record PubKeyInfo =
  pk_algorithm :: AlgorithmDetails
  pk_public_key :: bytes

record KeyInfo =
  ki_key_handle :: "string option"
  ki_pub_key :: PubKeyInfo
  ki_mechanism :: string
  ki_expiration_time :: int

record KemSharedSecret =
  ss_algorithm :: i32
  ss_secret :: bytes

text \<open>The responses; the one to a generated key has the fields of a \<^verbatim>\<open>KeyInfo\<close>.\<close>

datatype response_message =
    GenerateKeyResponse KeyInfo
  | DecapsResponse KemSharedSecret
  | EnumerateKeysResponse "KeyInfo list"
  | GetCapabilitiesResponse "SupportedAlgorithm list"

record http_env = go_env +
  unmarshal_GenerateKeyRequest :: "bytes \<Rightarrow> GenerateKeyRequest option"
  unmarshal_DecapsRequest :: "bytes \<Rightarrow> DecapsRequest option"
  unmarshal_DestroyRequest :: "bytes \<Rightarrow> DestroyRequest option"
  protojson_Marshal :: "response_message \<Rightarrow> bytes option"

text \<open>The length of a Go slice is an \<^verbatim>\<open>int\<close>.\<close>

definition json_spec :: "http_env \<Rightarrow> bool" where
  "json_spec G \<longleftrightarrow> (\<forall>bs req ct. unmarshal_DecapsRequest G bs = Some req \<longrightarrow> dr_ciphertext req = Some ct
     \<longrightarrow> length (ct_ciphertext ct) < 2 ^ 63)"

definition GenerateKeyRequest_rules :: "GenerateKeyRequest \<Rightarrow> bool" where
  "GenerateKeyRequest_rules req \<longleftrightarrow> gk_algorithm req \<noteq> None \<and> 0 < gk_lifespan req \<and> gk_lifespan req \<le> 9223372036854775807"

definition DecapsRequest_rules :: "DecapsRequest \<Rightarrow> bool" where
  "DecapsRequest_rules req \<longleftrightarrow> dr_key_handle req \<noteq> None \<and> dr_ciphertext req \<noteq> None"

definition DestroyRequest_rules :: "DestroyRequest \<Rightarrow> bool" where
  "DestroyRequest_rules req \<longleftrightarrow> de_key_handle req \<noteq> None"

fun response_rules :: "response_message \<Rightarrow> bool" where
  "response_rules (GenerateKeyResponse info) = (ki_key_handle info \<noteq> None)"
| "response_rules (EnumerateKeysResponse infos) = list_all (\<lambda>info. ki_key_handle info \<noteq> None) infos"
| "response_rules _ = True"

section \<open>Algorithms\<close>

definition SupportedKemAlgorithms :: "i32 list" where
  "SupportedKemAlgorithms = [kem_as_i32 DhkemX25519HkdfSha256]"

fun supported_loop :: "i32 \<Rightarrow> i32 list \<Rightarrow> bool" where
  "supported_loop k [] = False"
| "supported_loop k (supported # rest) = (if k = supported then True else supported_loop k rest)"

definition IsSupportedKemAlgorithm :: "i32 \<Rightarrow> bool" where
  "IsSupportedKemAlgorithm k = supported_loop k SupportedKemAlgorithms"

definition KemToHpkeAlgorithm :: "i32 \<Rightarrow> (go_error, 'w, HpkeAlgorithm) rust" where
  "KemToHpkeAlgorithm k =
     (if k = kem_as_i32 DhkemX25519HkdfSha256
      then returnM \<lparr>kem = k, kdf = kdf_as_i32 HkdfSha256, aead = aead_as_i32 Aes256Gcm\<rparr>
      else errM Errorf)"

definition GetKemId :: "AlgorithmDetails \<Rightarrow> i32" where
  "GetKemId a = (case details_params a of Some p \<Rightarrow> (case params p of Some (KemId k) \<Rightarrow> k | None \<Rightarrow> 0) | None \<Rightarrow> 0)"

definition kem_details :: "string \<Rightarrow> i32 \<Rightarrow> AlgorithmDetails" where
  "kem_details type kemId = \<lparr>algorithm_type = type, details_params = Some \<lparr>params = Some (KemId kemId)\<rparr>\<rparr>"

section \<open>Responses\<close>

datatype http_response = Response nat bytes | ErrorResponse nat | EmptyResponse nat

fun http_status :: "http_response \<Rightarrow> nat" where
  "http_status (Response c b) = c"
| "http_status (ErrorResponse c) = c"
| "http_status (EmptyResponse c) = c"

definition httpStatusFromError :: "go_error \<Rightarrow> nat" where
  "httpStatusFromError err =
     (if errors_Is err NotFound then 404
      else if errors_Is err InvalidArgument \<or> errors_Is err UnsupportedAlgorithm \<or> errors_Is err InvalidKey then 400
      else if errors_Is err PermissionDenied then 403
      else if errors_Is err Unauthenticated then 401
      else if errors_Is err AlreadyExists then 409
      else 500)"

definition writeError :: "nat \<Rightarrow> ('x, 'w, http_response) rust" where
  "writeError c = returnM (ErrorResponse c)"

definition writeJSON :: "http_env \<Rightarrow> response_message \<Rightarrow> nat \<Rightarrow> ('x, 'w, http_response) rust" where
  "writeJSON G v c =
     (if \<not> response_rules v then writeError 500
      else case protojson_Marshal G v of None \<Rightarrow> writeError 500 | Some b \<Rightarrow> returnM (Response c b))"

text \<open>\<^verbatim>\<open>if err != nil { writeError(...); return }\<close>, and a call whose error is kept for later.\<close>

definition or_respond :: "(go_error, 'w, 'a) rust \<Rightarrow> (go_error \<Rightarrow> nat) \<Rightarrow> ('a \<Rightarrow> (go_error, 'w, http_response) rust) \<Rightarrow>
    (go_error, 'w, http_response) rust" where
  "or_respond m bad f s = (case m s of (Ok a, t) \<Rightarrow> f a t | (Err e, t) \<Rightarrow> writeError (bad e) t
     | (Panicked, t) \<Rightarrow> (Panicked, t) | (Undefined, t) \<Rightarrow> (Undefined, t))"

definition attempt :: "(go_error, 'w, unit) rust \<Rightarrow> (go_error, 'w, go_error option) rust" where
  "attempt m s = (case m s of (Ok _, t) \<Rightarrow> (Ok None, t) | (Err e, t) \<Rightarrow> (Ok (Some e), t)
     | (Panicked, t) \<Rightarrow> (Panicked, t) | (Undefined, t) \<Rightarrow> (Undefined, t))"

definition errors_Join :: "go_error option list \<Rightarrow> go_error option" where
  "errors_Join es = (case concat (map (\<lambda>e. case e of None \<Rightarrow> [] | Some err \<Rightarrow> [err]) es) of [] \<Rightarrow> None | errs \<Rightarrow> Some (Joined errs))"

text \<open>A field of a message behind a pointer, which panics when it is nil, and a field of the server.\<close>

definition deref :: "'a option \<Rightarrow> (go_error, 'w, 'a) rust" where
  "deref p = (case p of None \<Rightarrow> panicM | Some a \<Rightarrow> returnM a)"

definition field :: "('w \<Rightarrow> 'a) \<Rightarrow> (go_error, 'w, 'a) rust" where
  "field f s = (Ok (f s), s)"

text \<open>\<^verbatim>\<open>readRequest\<close>: the body that was read, decoded and validated.\<close>

definition readRequest :: "(bytes \<Rightarrow> 'm option) \<Rightarrow> ('m \<Rightarrow> bool) \<Rightarrow> bytes option \<Rightarrow> (go_error, 'w, 'm) rust" where
  "readRequest unmarshal valid body =
     bindM (ok_orM body (Wrapped Errorf)) (\<lambda>bs.
     bindM (ok_orM (unmarshal bs) (Wrapped Errorf)) (\<lambda>req.
     if valid req then returnM req else errM (Wrapped Errorf)))"

section \<open>The server\<close>

datatype kps_impl = InProcess | Remote

record Server =
  keyProtectionService :: kps_impl
  kemToBindingMap :: "uuid \<rightharpoonup> uuid"
  mode :: KeyProtectionMechanism
  initialBackoff :: "64 word"
  maxBackoff :: "64 word"
  mechanism :: KeyProtectionMechanism

record wsd = Server +
  cachedToken :: string
  ws_core :: "WsKeyInfo world"
  kps_core :: "KpsKeyInfo world"

text \<open>
  The token is a local variable of \<^verbatim>\<open>startHeartbeat\<close>, which runs as long as the server does. \<^verbatim>\<open>NewServer\<close> and the choice of \<^verbatim>\<open>New\<close>, for sockets and a client connection that can be opened.
\<close>

definition NewServer :: "kps_impl \<Rightarrow> KeyProtectionMechanism \<Rightarrow> WsKeyInfo world \<Rightarrow> KpsKeyInfo world \<Rightarrow> wsd" where
  "NewServer kps m w k = \<lparr>keyProtectionService = kps, kemToBindingMap = Map.empty, mode = m,
     initialBackoff = 1 * 1000000000, maxBackoff = 128 * 1000000000, mechanism = KEY_PROTECTION_VM_EMULATED,
     cachedToken = [], ws_core = w, kps_core = k\<rparr>"

definition New :: "KeyProtectionMechanism \<Rightarrow> string \<Rightarrow> WsKeyInfo world \<Rightarrow> KpsKeyInfo world \<Rightarrow> go_error + wsd" where
  "New m kpsVMIP w k =
     (case m of
        KEY_PROTECTION_VM_EMULATED \<Rightarrow> Inr ((NewServer InProcess m w k)\<lparr>mechanism := m\<rparr>)
      | KEY_PROTECTION_VM \<Rightarrow>
          if kpsVMIP = [] then Inl Errorf else Inr ((NewServer Remote m w k)\<lparr>mechanism := m\<rparr>)
      | MechanismUnspecified \<Rightarrow> Inl Errorf
      | _ \<Rightarrow> Inl Errorf)"

definition LookupBindingUUID :: "uuid \<Rightarrow> (go_error, 'z Server_scheme, uuid option) rust" where
  "LookupBindingUUID kemUUID s = (Ok (kemToBindingMap s kemUUID), s)"

definition on_ws :: "(go_error, WsKeyInfo world, 'a) rust \<Rightarrow> (go_error, wsd, 'a) rust" where
  "on_ws m s = (case m (ws_core s) of (r, w) \<Rightarrow> (r, s\<lparr>ws_core := w\<rparr>))"

definition on_kps :: "(go_error, KpsKeyInfo world, 'a) rust \<Rightarrow> (go_error, wsd, 'a) rust" where
  "on_kps m s = (case m (kps_core s) of (r, w) \<Rightarrow> (r, s\<lparr>kps_core := w\<rparr>))"

section \<open>A remote key protection service\<close>

text \<open>
  What becomes of a remote call: it is delivered and answered, or the client gives up with a code before the request arrived or
  after it was served.
\<close>

datatype rpc_fate = Delivered | RequestLost code | ReplyLost code

definition rpc :: "rpc_fate \<Rightarrow> (code, 'w, 'a) rust \<Rightarrow> (go_error, 'w, 'a) rust" where
  "rpc fate handler =
     (case fate of
        Delivered \<Rightarrow> map_errM GrpcStatus handler
      | RequestLost c \<Rightarrow> errM (GrpcStatus c)
      | ReplyLost c \<Rightarrow> (\<lambda>s. case handler s of
            (Ok _, t) \<Rightarrow> (Err (GrpcStatus c), t)
          | (Err _, t) \<Rightarrow> (Err (GrpcStatus c), t)
          | (Panicked, t) \<Rightarrow> (Panicked, t)
          | (Undefined, t) \<Rightarrow> (Undefined, t)))"

definition grpcCodeToFfiStatus :: "code \<Rightarrow> Status option" where
  "grpcCodeToFfiStatus c =
     (case c of Code_NotFound \<Rightarrow> Some NotFound | Code_InvalidArgument \<Rightarrow> Some InvalidArgument
      | Code_PermissionDenied \<Rightarrow> Some PermissionDenied | Code_Unauthenticated \<Rightarrow> Some Unauthenticated
      | Code_AlreadyExists \<Rightarrow> Some AlreadyExists | _ \<Rightarrow> None)"

definition ffiStatusFromGrpcError :: "go_error \<Rightarrow> go_error option" where
  "ffiStatusFromGrpcError err =
     (case err of
        GrpcStatus c \<Rightarrow>
          if c = OK then None
          else (case grpcCodeToFfiStatus c of Some st \<Rightarrow> ToStatus (status_as_i32 st) | None \<Rightarrow> Some err)
      | _ \<Rightarrow> Some err)"

text \<open>\<^verbatim>\<open>if err != nil { return zero, ffiStatusFromGrpcError(err) }\<close> after a remote call.\<close>

definition after_rpc :: "(go_error, 'w, 'm) rust \<Rightarrow> 'a \<Rightarrow> ('m \<Rightarrow> (go_error, 'w, 'a) rust) \<Rightarrow> (go_error, 'w, 'a) rust" where
  "after_rpc m zero f s = (case m s of
       (Ok resp, t) \<Rightarrow> f resp t
     | (Err e, t) \<Rightarrow> (case ffiStatusFromGrpcError e of None \<Rightarrow> returnM zero t | Some err \<Rightarrow> errM err t)
     | (Panicked, t) \<Rightarrow> (Panicked, t)
     | (Undefined, t) \<Rightarrow> (Undefined, t))"

definition remote_GenerateKEMKeypair :: "('s, 'r, 'p) env \<Rightarrow> 'g go_env_scheme \<Rightarrow> rpc_fate \<Rightarrow> HpkeAlgorithm \<Rightarrow> bytes \<Rightarrow> u64 \<Rightarrow>
    (go_error, KpsKeyInfo world, uuid \<times> bytes) rust" where
  "remote_GenerateKEMKeypair E G fate algo bindingPubKey lifespanSecs =
     after_rpc (rpc fate (ValidationInterceptor GenerateKEMKeypairRequest_rules
         \<lparr>gen_algo = Some algo,
          gen_binding_pub_key = Some \<lparr>hpke_algorithm = Some algo, hpke_public_key = bindingPubKey\<rparr>,
          gen_lifespan_secs = lifespanSecs\<rparr> (grpc_GenerateKEMKeypair E G))) (Uuid (replicate 16 0), []) (\<lambda>resp.
     bindM (ok_orM (uuid_Parse G (GetHandle (gen_key_handle resp))) (Wrapped Errorf)) (\<lambda>key_id.
     returnM (key_id, GetKemPublicKey (gen_kem_pub_key resp))))"

fun remote_keys :: "'g go_env_scheme \<Rightarrow> KEMKeyInfoMsg list \<Rightarrow> (go_error, 'w, KEMKeyInfo list) rust" where
  "remote_keys G [] = returnM []"
| "remote_keys G (k # ks) =
     bindM (ok_orM (uuid_Parse G (GetHandle (info_key_handle k))) (Wrapped Errorf)) (\<lambda>key_id.
     bindM (remote_keys G ks) (\<lambda>keys.
     returnM (\<lparr>ID = key_id, Algorithm = info_algorithm k, KEMPubKey = info_kem_pub_key k,
               RemainingLifespanSecs = info_remaining_lifespan_secs k\<rparr> # keys)))"

definition remote_EnumerateKEMKeys :: "('s, 'r, 'p) env \<Rightarrow> 'g go_env_scheme \<Rightarrow> rpc_fate \<Rightarrow> i32 \<Rightarrow> i32 \<Rightarrow>
    (go_error, KpsKeyInfo world, KEMKeyInfo list \<times> bool) rust" where
  "remote_EnumerateKEMKeys E G fate limit offset =
     after_rpc (rpc fate (ValidationInterceptor EnumerateKEMKeysRequest_rules
         \<lparr>enum_limit = limit, enum_offset = offset\<rparr> (grpc_EnumerateKEMKeys E G))) ([], False) (\<lambda>resp.
     bindM (remote_keys G (enum_keys resp)) (\<lambda>keys.
     returnM (keys, enum_has_more resp)))"

definition remote_DestroyKEMKey :: "('s, 'r, 'p) env \<Rightarrow> 'g go_env_scheme \<Rightarrow> rpc_fate \<Rightarrow> uuid \<Rightarrow>
    (go_error, KpsKeyInfo world, unit) rust" where
  "remote_DestroyKEMKey E G fate kemUUID =
     after_rpc (rpc fate (ValidationInterceptor KeyHandleRequest_rules
         \<lparr>req_key_handle = Some (uuid_String G kemUUID)\<rparr> (grpc_DestroyKEMKey E G))) () returnM"

definition remote_DecapAndSeal :: "('s, 'r, 'p) env \<Rightarrow> 'g go_env_scheme \<Rightarrow> rpc_fate \<Rightarrow> uuid \<Rightarrow> bytes \<Rightarrow> bytes \<Rightarrow>
    (go_error, KpsKeyInfo world, bytes \<times> bytes) rust" where
  "remote_DecapAndSeal E G fate kemUUID encapsulatedKey aad =
     after_rpc (rpc fate (ValidationInterceptor DecapAndSealRequest_rules
         \<lparr>decap_key_handle = Some (uuid_String G kemUUID), decap_ciphertext = Some encapsulatedKey, decap_aad = aad\<rparr>
         (grpc_DecapAndSeal E G))) ([], []) (\<lambda>resp.
     returnM (seal_enc resp, sealed_ct resp))"

text \<open>The algorithm of the response is a pointer; the caller reads a missing one as an empty message.\<close>

definition remote_GetKEMKey :: "('s, 'r, 'p) env \<Rightarrow> 'g go_env_scheme \<Rightarrow> rpc_fate \<Rightarrow> uuid \<Rightarrow>
    (go_error, KpsKeyInfo world, bytes \<times> bytes \<times> HpkeAlgorithm \<times> u64) rust" where
  "remote_GetKEMKey E G fate key_id =
     after_rpc (rpc fate (ValidationInterceptor KeyHandleRequest_rules
         \<lparr>req_key_handle = Some (uuid_String G key_id)\<rparr> (grpc_GetKEMKey E G))) ([], [], no_algorithm, 0) (\<lambda>resp.
     returnM (GetKemPublicKey (got_kem_pub_key resp), GetHpkePublicKey (got_binding_pub_key resp),
        (case GetHpkeAlgorithm (got_binding_pub_key resp) of None \<Rightarrow> no_algorithm | Some algo \<Rightarrow> algo),
        got_remaining_lifespan_secs resp))"

text \<open>The interface \<^verbatim>\<open>KeyProtectionService\<close>, by the implementation the server holds.\<close>

definition by_service :: "(go_error, KpsKeyInfo world, 'a) rust \<Rightarrow> (go_error, KpsKeyInfo world, 'a) rust \<Rightarrow> (go_error, wsd, 'a) rust" where
  "by_service here there s = on_kps (case keyProtectionService s of InProcess \<Rightarrow> here | Remote \<Rightarrow> there) s"

section \<open>HTTP handlers\<close>

text \<open>\<^verbatim>\<open>%d\<close>, and the additional data that binds the ciphertext between the services to one decapsulation.\<close>

fun decimal :: "nat \<Rightarrow> string" where
  "decimal n = (if n < 10 then [char_of (48 + n)] else decimal (n div 10) @ [char_of (48 + n mod 10)])"

declare decimal.simps [simp del]

definition fmt_d :: "i32 \<Rightarrow> string" where
  "fmt_d k = (if sint k < 0 then ''-'' @ decimal (nat (- sint k)) else decimal (nat (sint k)))"

definition decapsAADContext :: "'g go_env_scheme \<Rightarrow> uuid \<Rightarrow> i32 \<Rightarrow> bytes" where
  "decapsAADContext G kemUUID algo =
     byte_string (''wsd:keys:decaps:v1:'' @ fmt_d algo @ '':'' @ uuid_String G kemUUID)"

text \<open>The generated \<^verbatim>\<open>String\<close> of the enumeration.\<close>

definition mechanism_String :: "KeyProtectionMechanism \<Rightarrow> string" where
  "mechanism_String m =
     (case m of MechanismUnspecified \<Rightarrow> ''KEY_PROTECTION_MECHANISM_UNSPECIFIED'' | Mechanism_DEFAULT \<Rightarrow> ''DEFAULT''
      | KEY_PROTECTION_VM \<Rightarrow> ''KEY_PROTECTION_VM'' | KEY_PROTECTION_VM_EMULATED \<Rightarrow> ''KEY_PROTECTION_VM_EMULATED''
      | UnknownMechanism n \<Rightarrow> fmt_d n)"

definition handleDecaps :: "('s, 'r, 'p) env \<Rightarrow> http_env \<Rightarrow> rpc_fate \<Rightarrow> bytes option \<Rightarrow> (go_error, wsd, http_response) rust" where
  "handleDecaps E G fate body =
     or_respond (readRequest (unmarshal_DecapsRequest G) DecapsRequest_rules body) (\<lambda>_. 400) (\<lambda>req.
     bindM (deref (dr_ciphertext req)) (\<lambda>ct.
     if \<not> IsSupportedKemAlgorithm (ct_algorithm ct) then writeError 400
     else
       bindM (deref (dr_key_handle req)) (\<lambda>handle.
       or_respond (ok_orM (uuid_Parse G handle) Errorf) (\<lambda>_. 400) (\<lambda>kemUUID.
       let encapsulatedKey = ct_ciphertext ct in
       if encapsulatedKey = [] then writeError 400
       else
         let aad = decapsAADContext G kemUUID (ct_algorithm ct) in
         bindM (LookupBindingUUID kemUUID) (\<lambda>bindingUUID.
         case bindingUUID of None \<Rightarrow> writeError 404
         | Some binding \<Rightarrow>
             or_respond (by_service (kpskcc_DecapAndSeal E kemUUID encapsulatedKey aad)
                 (remote_DecapAndSeal E G fate kemUUID encapsulatedKey aad)) httpStatusFromError (\<lambda>(sealEnc, sealedCT).
             or_respond (on_ws (wskcc_Open E binding sealEnc sealedCT aad)) httpStatusFromError (\<lambda>plaintext.
             writeJSON G (DecapsResponse \<lparr>ss_algorithm = ct_algorithm ct, ss_secret = plaintext\<rparr>) 200)))))))"

text \<open>\<^verbatim>\<open>s.kemToBindingMap[kemUUID] = bindingUUID\<close> and \<^verbatim>\<open>delete\<close>, each under the lock.\<close>

definition map_store :: "uuid \<Rightarrow> uuid \<Rightarrow> ('x, wsd, unit) rust" where
  "map_store kemUUID bindingUUID = updateM (\<lambda>s. s\<lparr>kemToBindingMap := (kemToBindingMap s)(kemUUID \<mapsto> bindingUUID)\<rparr>)"

definition map_delete :: "uuid \<Rightarrow> ('x, wsd, unit) rust" where
  "map_delete kemUUID = updateM (\<lambda>s. s\<lparr>kemToBindingMap := (kemToBindingMap s)(kemUUID := None)\<rparr>)"

text \<open>The argument \<open>now\<close> is \<^verbatim>\<open>time.Now().Unix()\<close>.\<close>

definition generateKEMKey :: "('s, 'r, 'p) env \<Rightarrow> http_env \<Rightarrow> rpc_fate \<Rightarrow> int \<Rightarrow> AlgorithmDetails \<Rightarrow> u64 \<Rightarrow>
    (go_error, wsd, http_response) rust" where
  "generateKEMKey E G fate now details lifespan =
     (if \<not> IsSupportedKemAlgorithm (GetKemId details) then writeError 400
      else
        or_respond (KemToHpkeAlgorithm (GetKemId details)) (\<lambda>_. 400) (\<lambda>algo.
        or_respond (on_ws (wskcc_GenerateBindingKeypair E G (Some algo) lifespan)) httpStatusFromError (\<lambda>(bindingUUID, bindingPubKey).
        or_respond (by_service (kpskcc_GenerateKEMKeypair E G (Some algo) bindingPubKey lifespan)
            (remote_GenerateKEMKeypair E G fate algo bindingPubKey lifespan)) httpStatusFromError (\<lambda>(kemUUID, kemPubKey).
        bindM (map_store kemUUID bindingUUID) (\<lambda>_.
        bindM (field mechanism) (\<lambda>m.
        writeJSON G (GenerateKeyResponse
          \<lparr>ki_key_handle = Some (uuid_String G kemUUID),
           ki_pub_key = \<lparr>pk_algorithm = kem_details (algorithm_type details) (GetKemId details), pk_public_key = kemPubKey\<rparr>,
           ki_mechanism = mechanism_String m,
           ki_expiration_time = expiration_time now lifespan\<rparr>) 200))))))"

definition handleGenerateKey :: "('s, 'r, 'p) env \<Rightarrow> http_env \<Rightarrow> rpc_fate \<Rightarrow> int \<Rightarrow> bytes option \<Rightarrow>
    (go_error, wsd, http_response) rust" where
  "handleGenerateKey E G fate now body =
     or_respond (readRequest (unmarshal_GenerateKeyRequest G) GenerateKeyRequest_rules body) (\<lambda>_. 400) (\<lambda>req.
     bindM (deref (gk_algorithm req)) (\<lambda>details.
     if algorithm_type details = ''kem'' then generateKEMKey E G fate now details (gk_lifespan req)
     else writeError 400))"

definition handleGetCapabilities :: "http_env \<Rightarrow> (go_error, wsd, http_response) rust" where
  "handleGetCapabilities G =
     writeJSON G (GetCapabilitiesResponse (map (\<lambda>algo. \<lparr>algorithm = Some (kem_details ''kem'' algo)\<rparr>) SupportedKemAlgorithms)) 200"

definition defaultEnumerateLimit :: i32 where
  "defaultEnumerateLimit = 10000"

text \<open>The clock is read for every key.\<close>

fun key_infos :: "'g go_env_scheme \<Rightarrow> KeyProtectionMechanism \<Rightarrow> (nat \<Rightarrow> int) \<Rightarrow> nat \<Rightarrow> KEMKeyInfo list \<Rightarrow> KeyInfo list" where
  "key_infos G m now i [] = []"
| "key_infos G m now i (key # rest) =
     \<lparr>ki_key_handle = Some (uuid_String G (ID key)),
      ki_pub_key = \<lparr>pk_algorithm = kem_details ''kem'' (GetKem (Algorithm key)), pk_public_key = KEMPubKey key\<rparr>,
      ki_mechanism = mechanism_String m,
      ki_expiration_time = expiration_time (now i) (RemainingLifespanSecs key)\<rparr> # key_infos G m now (Suc i) rest"

definition handleEnumerateKeys :: "('s, 'r, 'p) env \<Rightarrow> http_env \<Rightarrow> rpc_fate \<Rightarrow> (nat \<Rightarrow> int) \<Rightarrow> (go_error, wsd, http_response) rust" where
  "handleEnumerateKeys E G fate now =
     or_respond (by_service (kpskcc_EnumerateKEMKeys E G defaultEnumerateLimit 0)
         (remote_EnumerateKEMKeys E G fate defaultEnumerateLimit 0)) httpStatusFromError (\<lambda>(keys, _).
     bindM (field mechanism) (\<lambda>m.
     writeJSON G (EnumerateKeysResponse (key_infos G m now 0 keys)) 200))"

definition handleDestroy :: "('s, 'r, 'p) env \<Rightarrow> http_env \<Rightarrow> rpc_fate \<Rightarrow> bytes option \<Rightarrow> (go_error, wsd, http_response) rust" where
  "handleDestroy E G fate body =
     or_respond (readRequest (unmarshal_DestroyRequest G) DestroyRequest_rules body) (\<lambda>_. 400) (\<lambda>req.
     bindM (deref (de_key_handle req)) (\<lambda>handle.
     or_respond (ok_orM (uuid_Parse G handle) Errorf) (\<lambda>_. 400) (\<lambda>kemUUID.
     bindM (LookupBindingUUID kemUUID) (\<lambda>bindingUUID.
     case bindingUUID of None \<Rightarrow> writeError 404
     | Some binding \<Rightarrow>
         bindM (attempt (by_service (kpskcc_DestroyKEMKey E kemUUID) (remote_DestroyKEMKey E G fate kemUUID))) (\<lambda>errKps.
         bindM (attempt (on_ws (wskcc_DestroyBindingKey E binding))) (\<lambda>errWs.
         bindM (map_delete kemUUID) (\<lambda>_.
         case errors_Join [errKps, errWs] of
           Some err \<Rightarrow> writeError (httpStatusFromError err)
         | None \<Rightarrow> returnM (EmptyResponse 204))))))))"

text \<open>The routes of \<^verbatim>\<open>NewServer\<close>. A request carries what its handler is given: its body, and readings of the clock.\<close>

datatype http_request =
    PostGenerateKey int "bytes option"
  | PostDecap "bytes option"
  | GetCapabilities
  | GetKeys "nat \<Rightarrow> int"
  | PostDestroy "bytes option"

fun serve :: "('s, 'r, 'p) env \<Rightarrow> http_env \<Rightarrow> rpc_fate \<Rightarrow> http_request \<Rightarrow> (go_error, wsd, http_response) rust" where
  "serve E G fate (PostGenerateKey now body) = handleGenerateKey E G fate now body"
| "serve E G fate (PostDecap body) = handleDecaps E G fate body"
| "serve E G fate GetCapabilities = handleGetCapabilities G"
| "serve E G fate (GetKeys now) = handleEnumerateKeys E G fate now"
| "serve E G fate (PostDestroy body) = handleDestroy E G fate body"

section \<open>Key claims\<close>

definition handleGetBindingKeyClaims :: "('s, 'r, 'p) env \<Rightarrow> 'g go_env_scheme \<Rightarrow> uuid \<Rightarrow> (go_error, wsd, KeyClaims) rust" where
  "handleGetBindingKeyClaims E G key_id =
     bindM (LookupBindingUUID key_id) (\<lambda>bindingID.
     bindM (ok_orM bindingID Errorf) (\<lambda>binding.
     bindM (map_errM Wrapped (on_ws (wskcc_GetBindingKey E G binding))) (\<lambda>(pubKey, algo).
     returnM (VmProtectionBindingClaims \<lparr>hpke_algorithm = Some algo, hpke_public_key = pubKey\<rparr>))))"

definition handleGetKEMKeyClaims :: "('s, 'r, 'p) env \<Rightarrow> 'g go_env_scheme \<Rightarrow> rpc_fate \<Rightarrow> int \<Rightarrow> uuid \<Rightarrow> (go_error, wsd, KeyClaims) rust" where
  "handleGetKEMKeyClaims E G fate now key_id =
     bindM (map_errM Wrapped (by_service (kpskcc_GetKEMKey E G key_id) (remote_GetKEMKey E G fate key_id))) (\<lambda>key.
     returnM (vm_key_claims now key))"

definition GetKeyClaims :: "('s, 'r, 'p) env \<Rightarrow> 'g go_env_scheme \<Rightarrow> rpc_fate \<Rightarrow> int \<Rightarrow> GetKeyClaimsRequest \<Rightarrow>
    (go_error, wsd, KeyClaims) rust" where
  "GetKeyClaims E G fate now req =
     bindM (ok_orM (uuid_Parse G (GetHandle (claims_key_handle req))) (Wrapped Errorf)) (\<lambda>key_id.
     case claims_key_type req of
       VmProtectionBinding \<Rightarrow> map_errM Wrapped (handleGetBindingKeyClaims E G key_id)
     | VmProtectionKey \<Rightarrow>
         bindM (field mode) (\<lambda>m.
         if m = KEY_PROTECTION_VM then errM (GrpcStatus Code_InvalidArgument)
         else map_errM Wrapped (handleGetKEMKeyClaims E G fate now key_id))
     | _ \<Rightarrow> errM Errorf)"

section \<open>Heartbeat\<close>

definition cleanupState :: "('s, 'r, 'p) env \<Rightarrow> (go_error, wsd, unit) rust" where
  "cleanupState E =
     bindM (attempt (on_ws (wskcc_DestroyAllKeys E))) (\<lambda>_.
     updateM (\<lambda>s. s\<lparr>kemToBindingMap := Map.empty\<rparr>))"

text \<open>
  One call of \<^verbatim>\<open>performHeartbeat\<close>. What the world decides is given: \<open>reply n\<close> is the boot token that the attempt \<open>n\<close> returns, or
  that it fails, and \<open>cancelled n\<close> that the context is done during the wait after it. The result has the waits, signed numbers
  of nanoseconds; a loop that never ends has none.
\<close>

partial_function (option) heartbeat_loop :: "('s, 'r, 'p) env \<Rightarrow> (nat \<Rightarrow> string option) \<Rightarrow> (nat \<Rightarrow> bool) \<Rightarrow> 64 word \<Rightarrow> 64 word \<Rightarrow> nat \<Rightarrow> wsd \<Rightarrow>
    (64 word list \<times> (go_error, unit) outcome \<times> wsd) option" where
  "heartbeat_loop E reply cancelled maxB backoff n s =
     (case reply n of
        Some token \<Rightarrow>
          Some ([], bindM (if cachedToken s \<noteq> [] \<and> cachedToken s \<noteq> token then cleanupState E else returnM ())
            (\<lambda>_. updateM (\<lambda>s. s\<lparr>cachedToken := token\<rparr>)) s)
      | None \<Rightarrow>
          if cancelled n then Some ([backoff], returnM () s)
          else if maxB \<le>s backoff then Some ([backoff], cleanupState E s)
          else
            Option.bind (heartbeat_loop E reply cancelled maxB (if maxB <s backoff * 2 then maxB else backoff * 2) (Suc n) s)
              (\<lambda>(waits, result). Some (backoff # waits, result)))"

definition performHeartbeat :: "('s, 'r, 'p) env \<Rightarrow> (nat \<Rightarrow> string option) \<Rightarrow> (nat \<Rightarrow> bool) \<Rightarrow> wsd \<Rightarrow>
    (64 word list \<times> (go_error, unit) outcome \<times> wsd) option" where
  "performHeartbeat E reply cancelled s = heartbeat_loop E reply cancelled (maxBackoff s) (initialBackoff s) 0 s"

end
