(* ===== verification/Remote_Calls.thy ===== *)
theory Remote_Calls
  imports Ws_Server
begin

text \<open>
  A remote key protection service as the server sees it: a call that is delivered and answered gives the value of the same call
  in the process, and an error of the same HTTP status; a call whose request or reply is lost gives an error. The translations of
  errors in both directions, FFI status to gRPC code and back, are part of this.
\<close>

section \<open>Errors across the connection\<close>

text \<open>What a client makes of a code, and of the outcome of the same call in the process.\<close>

definition remote_error :: "code \<Rightarrow> go_error" where
  "remote_error c = (case ffiStatusFromGrpcError (GrpcStatus c) of Some e \<Rightarrow> e | None \<Rightarrow> Errorf)"

fun remote_view :: "(go_error, 'a) outcome \<Rightarrow> (go_error, 'a) outcome" where
  "remote_view (Err e) = Err (remote_error (grpcCodeFromError e))"
| "remote_view r = r"

text \<open>The codes of a lost call: a client library does not report a failure as \<^verbatim>\<open>OK\<close>.\<close>

fun real_fate :: "rpc_fate \<Rightarrow> bool" where
  "real_fate Delivered = True"
| "real_fate (RequestLost c) = (c \<noteq> OK)"
| "real_fate (ReplyLost c) = (c \<noteq> OK)"

definition via_rpc :: "rpc_fate \<Rightarrow> (go_error, 'w, 'a) rust \<Rightarrow> (go_error, 'w, 'a) rust" where
  "via_rpc fate m k =
     (case fate of
        Delivered \<Rightarrow> (remote_view (fst (m k)), snd (m k))
      | RequestLost c \<Rightarrow> (Err (remote_error c), k)
      | ReplyLost c \<Rightarrow> (case m k of
            (Ok _, t) \<Rightarrow> (Err (remote_error c), t)
          | (Err _, t) \<Rightarrow> (Err (remote_error c), t)
          | (Panicked, t) \<Rightarrow> (Panicked, t)
          | (Undefined, t) \<Rightarrow> (Undefined, t)))"

lemma grpcCode_not_OK [simp]: "grpcCodeFromError e \<noteq> OK"
  by (auto simp: grpcCodeFromError_def ffiErrorToGrpcCode_def split: option.splits if_splits)

lemma ffiStatus_not_nil: "c \<noteq> OK \<Longrightarrow> ffiStatusFromGrpcError (GrpcStatus c) = Some (remote_error c)"
  by (auto simp: remote_error_def ffiStatusFromGrpcError_def grpcCodeToFfiStatus_def ToStatus_def split: code.splits)

text \<open>A server that marshals what the service returned, and a client that unmarshals it.\<close>

lemma after_rpc_via:
  assumes "real_fate fate"
    and "H k = map_errM grpcCodeFromError (bindM m (\<lambda>a. returnM (marshalled a))) k"
    and "\<And>a t. m k = (Ok a, t) \<Longrightarrow> f (marshalled a) t = (Ok a, t)"
  shows "after_rpc (rpc fate H) zero f k = via_rpc fate m k"
proof (cases "m k")
  case (Pair r t)
  then show ?thesis
    using assms(1,3) by (cases fate; cases r)
      (auto simp: assms(2) after_rpc_def rpc_def via_rpc_def map_errM_def bindM_def returnM_def errM_def ffiStatus_not_nil)
qed

lemma http_status_across: "httpStatusFromError (remote_error (grpcCodeFromError (FFIStatus c))) = httpStatusFromError (FFIStatus c)"
  by (simp add: httpStatusFromError_def grpcCodeFromError_def ffiErrorToGrpcCode_def remote_error_def ffiStatusFromGrpcError_def
      grpcCodeToFfiStatus_def ToStatus_def)

lemma http_status_across_Errorf: "httpStatusFromError (remote_error (grpcCodeFromError Errorf)) = httpStatusFromError Errorf"
  by (simp add: httpStatusFromError_def grpcCodeFromError_def ffiErrorToGrpcCode_def remote_error_def ffiStatusFromGrpcError_def
      grpcCodeToFfiStatus_def ToStatus_def)

section \<open>The five procedures\<close>

lemma remote_DecapAndSeal_via:
  assumes "go_libs_spec E G" and "real_fate fate" and "length (as_bytes u) = 16"
  shows "remote_DecapAndSeal E G fate u enc aad k = via_rpc fate (kpskcc_DecapAndSeal E u enc aad) k"
  unfolding remote_DecapAndSeal_def
  by (rule after_rpc_via [OF assms(2), where marshalled = "\<lambda>(e, c). \<lparr>seal_enc = e, sealed_ct = c\<rparr>"])
    (auto simp: ValidationInterceptor_def DecapAndSealRequest_rules_def grpc_DecapAndSeal_def GetHandle_def GetCiphertext_def
      Service_DecapAndSeal_def parse_string [OF assms(1,3)] ok_orM_def returnM_def bindM_def map_errM_def
      split: outcome.splits prod.splits)

lemma remote_DestroyKEMKey_via:
  assumes "go_libs_spec E G" and "real_fate fate" and "length (as_bytes u) = 16"
  shows "remote_DestroyKEMKey E G fate u k = via_rpc fate (kpskcc_DestroyKEMKey E u) k"
  unfolding remote_DestroyKEMKey_def
  by (rule after_rpc_via [OF assms(2), where marshalled = "\<lambda>u. u"])
    (auto simp: ValidationInterceptor_def KeyHandleRequest_rules_def grpc_DestroyKEMKey_def GetHandle_def
      Service_DestroyKEMKey_def parse_string [OF assms(1,3)] ok_orM_def returnM_def bindM_def map_errM_def
      split: outcome.splits prod.splits)

lemma remote_GetKEMKey_via:
  assumes "go_libs_spec E G" and "real_fate fate" and "length (as_bytes u) = 16"
  shows "remote_GetKEMKey E G fate u k = via_rpc fate (kpskcc_GetKEMKey E G u) k"
  unfolding remote_GetKEMKey_def
  by (rule after_rpc_via [OF assms(2), where marshalled = "\<lambda>(kpk, bpk, algo, l).
        \<lparr>got_kem_pub_key = Some \<lparr>kem_algorithm = kem algo, kem_public_key_bytes = kpk\<rparr>,
         got_binding_pub_key = Some \<lparr>hpke_algorithm = Some algo, hpke_public_key = bpk\<rparr>, got_remaining_lifespan_secs = l\<rparr>"])
    (auto simp: ValidationInterceptor_def KeyHandleRequest_rules_def grpc_GetKEMKey_def GetHandle_def
      GetKemPublicKey_def GetHpkePublicKey_def GetHpkeAlgorithm_def
      Service_GetKEMKey_def parse_string [OF assms(1,3)] ok_orM_def returnM_def bindM_def map_errM_def
      split: outcome.splits prod.splits)

lemma remote_GenerateKEMKeypair_via:
  assumes "go_libs_spec E G" and "real_fate fate" and "kps_ready E k"
    and "algo \<noteq> no_algorithm" and "bpk \<noteq> []" and "length bpk < 2 ^ 63"
  shows "remote_GenerateKEMKeypair E G fate algo bpk l k = via_rpc fate (kpskcc_GenerateKEMKeypair E G (Some algo) bpk l) k"
  unfolding remote_GenerateKEMKeypair_def
proof (rule after_rpc_via [OF assms(2), where marshalled = "\<lambda>(h, pk).
        \<lparr>gen_key_handle = Some (uuid_String G h),
         gen_kem_pub_key = Some \<lparr>kem_algorithm = kem algo, kem_public_key_bytes = pk\<rparr>\<rparr>"], goal_cases)
  case 1
  then show ?case
    by (auto simp: ValidationInterceptor_def GenerateKEMKeypairRequest_rules_def grpc_GenerateKEMKeypair_def GetHpkePublicKey_def
        GetKem_def Service_GenerateKEMKeypair_def returnM_def bindM_def map_errM_def split: outcome.splits prod.splits)
next
  case (2 a t)
  obtain h pk where a: "a = (h, pk)" by fastforce
  have "host_spec E" using assms(3) by (simp add: kps_ready_def)
  have "length (as_bytes h) = 16"
    by (rule kpskcc_GenerateKEMKeypair_run [OF assms(3,1,4,5,6), of l])
      (use 2 a made_key_lengths(1) [OF \<open>host_spec E\<close>] in auto)
  then show ?case
    using parse_string [OF assms(1)] by (simp add: a GetHandle_def GetKemPublicKey_def ok_orM_def bindM_def returnM_def)
qed

lemma remote_keys_marshalled:
  assumes "go_libs_spec E G" and "list_all (\<lambda>i. length (as_bytes (ID i)) = 16) infos"
  shows "remote_keys G (map (\<lambda>i. \<lparr>info_key_handle = Some (uuid_String G (ID i)), info_algorithm = Algorithm i,
      info_kem_pub_key = KEMPubKey i, info_remaining_lifespan_secs = RemainingLifespanSecs i\<rparr>) infos) = returnM infos"
  using assms(2)
  by (induction infos)
    (auto simp: GetHandle_def parse_string [OF assms(1)] ok_orM_def bindM_def returnM_def fun_eq_iff)

text \<open>A registry whose live keys a 64-bit counter can count.\<close>

definition addressable :: "KpsKeyInfo world \<Rightarrow> bool" where
  "addressable k \<longleftrightarrow> length (listing (clock k (ticks k)) k) < 2 ^ 64"

lemma listed_keys_ids:
  assumes "list_all (\<lambda>m. \<exists>rec. kps_record E rec \<and> meta rec = m) metas"
  shows "list_all (\<lambda>i. length (as_bytes (ID i)) = 16) (listed_keys c t metas)"
  using assms by (induction metas arbitrary: t) (auto simp: listed_key_def kps_record_def record_ok_def)

lemma remote_EnumerateKEMKeys_via:
  assumes "go_libs_spec E G" and "real_fate fate" and "kps_ready E k" and "addressable k"
    and "0 < sint limit" and "sint limit \<le> 10000" and "0 \<le> sint offset"
  shows "remote_EnumerateKEMKeys E G fate limit offset k = via_rpc fate (kpskcc_EnumerateKEMKeys E G limit offset) k"
  unfolding remote_EnumerateKEMKeys_def
proof (rule after_rpc_via [OF assms(2), where marshalled = "\<lambda>(infos, more).
        \<lparr>enum_keys = map (\<lambda>i. \<lparr>info_key_handle = Some (uuid_String G (ID i)), info_algorithm = Algorithm i,
                info_kem_pub_key = KEMPubKey i, info_remaining_lifespan_secs = RemainingLifespanSecs i\<rparr>) infos,
              enum_has_more = more\<rparr>"], goal_cases)
  case 1
  then show ?case
    using assms(5-7)
    by (auto simp: ValidationInterceptor_def EnumerateKEMKeysRequest_rules_def grpc_EnumerateKEMKeys_def
        Service_EnumerateKEMKeys_def returnM_def bindM_def map_errM_def split: outcome.splits prod.splits)
next
  case (2 a t)
  obtain infos more where a: "a = (infos, more)" by fastforce
  have "list_all (\<lambda>i. length (as_bytes (ID i)) = 16) infos"
    by (rule kpskcc_EnumerateKEMKeys_run [OF assms(3,1,5,7) refl assms(4) [unfolded addressable_def] refl])
      (use 2 a listed_keys_ids [OF live_page_records [OF assms(3)]] in auto)
  then show ?case
    by (simp add: a remote_keys_marshalled [OF assms(1)] bindM_def returnM_def)
qed

section \<open>The service the server holds\<close>

definition via :: "kps_impl \<Rightarrow> rpc_fate \<Rightarrow> (go_error, 'w, 'a) rust \<Rightarrow> (go_error, 'w, 'a) rust" where
  "via impl fate m = (case impl of InProcess \<Rightarrow> m | Remote \<Rightarrow> via_rpc fate m)"

lemma by_service_via:
  assumes "there (kps_core s) = via_rpc fate here (kps_core s)"
  shows "by_service here there s = on_kps (via (keyProtectionService s) fate here) s"
  using assms by (simp add: by_service_def via_def on_kps_def split: kps_impl.split)

text \<open>Whatever becomes of the call, the service makes the steps of the call or none, and a value is the value of the call.\<close>

lemma via_cases:
  assumes "m k = (r, k')"
  obtains r' where "via impl fate m k = (r', k')" and "r' = r \<or> r' = remote_view r \<or> (\<exists>e. r' = Err e)"
  | e where "via impl fate m k = (Err e, k)"
  using assms by (cases impl; cases fate; cases r) (auto simp: via_def via_rpc_def)

lemma remote_view_simps [simp]:
  "remote_view r = Ok a \<longleftrightarrow> r = Ok a" "remote_view r = Panicked \<longleftrightarrow> r = Panicked" "remote_view r = Undefined \<longleftrightarrow> r = Undefined"
  by (cases r; simp)+

lemma via_Ok:
  assumes "via impl fate m k = (Ok a, k')"
  shows "m k = (Ok a, k')"
  using assms by (cases impl; cases fate; cases "m k"; cases "fst (m k)") (auto simp: via_def via_rpc_def)

lemma via_delivered:
  assumes "impl = InProcess \<or> fate = Delivered" and "m k = (Ok a, k')"
  shows "via impl fate m k = (Ok a, k')"
  using assms by (auto simp: via_def via_rpc_def split: kps_impl.split)

end
