(* ===== verification/Wsd_System.thy ===== *)
theory Wsd_System
  imports Remote_Calls
begin

text \<open>
  The workload service daemon as a transition system over its own map and the two custody cores. Everything a handler
  does is a sequence of moves: steps of a core, forgetting or making an entry of the map, a new boot token. The system
  steps are the handlers of any requests, the calls for key claims, heartbeats, anything the cores do on their own or for other callers, and a
  restart of the key protection service.
\<close>

section \<open>Moves\<close>

definition drawn :: "('s, 'r, 'p) env \<Rightarrow> 'e world \<Rightarrow> uuid \<Rightarrow> bool" where
  "drawn E w h \<longleftrightarrow> (\<exists>n < draws w. h = Uuid_new_v4 E n)"

text \<open>A key pair of the two services: if both keys are there, the one is bound to the other.\<close>

definition bound_records :: "KeyRecord \<Rightarrow> KeyRecord \<Rightarrow> bool" where
  "bound_records kr br \<longleftrightarrow> binding_public_key (spec (meta kr)) = own_public_key (spec (meta br))
     \<and> spec_algo (spec (meta kr)) = spec_algo (spec (meta br))"

definition paired :: "('s, 'r, 'p) env \<Rightarrow> wsd \<Rightarrow> uuid \<Rightarrow> uuid \<Rightarrow> bool" where
  "paired E s k b \<longleftrightarrow> drawn E (kps_core s) k \<and> drawn E (ws_core s) b
     \<and> (\<forall>kr br. contents (kps_core s) k = Some kr \<longrightarrow> contents (ws_core s) b = Some br \<longrightarrow> bound_records kr br)"

definition bindings_agree :: "('s, 'r, 'p) env \<Rightarrow> wsd \<Rightarrow> bool" where
  "bindings_agree E s \<longleftrightarrow> (\<forall>k b. kemToBindingMap s k = Some b \<longrightarrow> paired E s k b)"

definition wsd_ready :: "('s, 'r, 'p) env \<Rightarrow> wsd \<Rightarrow> bool" where
  "wsd_ready E s \<longleftrightarrow> ws_ready E (ws_core s) \<and> kps_ready E (kps_core s)
     \<and> (\<forall>k b. kemToBindingMap s k = Some b \<longrightarrow> length (as_bytes k) = 16 \<and> length (as_bytes b) = 16)"

inductive wsd_move :: "('s, 'r, 'p) env \<Rightarrow> wsd \<Rightarrow> wsd \<Rightarrow> bool" for E where
  move_ws: "ws_step E (ws_core s) w \<Longrightarrow> wsd_move E s (s\<lparr>ws_core := w\<rparr>)"
| move_kps: "kps_step E (kps_core s) k \<Longrightarrow> wsd_move E s (s\<lparr>kps_core := k\<rparr>)"
| move_restart: "kps_ready E k \<Longrightarrow> contents k = Map.empty \<Longrightarrow> draws (kps_core s) \<le> draws k \<Longrightarrow> wsd_move E s (s\<lparr>kps_core := k\<rparr>)"
| move_forget: "m \<subseteq>\<^sub>m kemToBindingMap s \<Longrightarrow> wsd_move E s (s\<lparr>kemToBindingMap := m\<rparr>)"
| move_pair: "paired E s k b \<Longrightarrow> wsd_move E s (s\<lparr>kemToBindingMap := (kemToBindingMap s)(k \<mapsto> b)\<rparr>)"
| move_token: "wsd_move E s (s\<lparr>cachedToken := t\<rparr>)"

inductive_cases wsd_moveE: "wsd_move E s s'"

lemma drawn_length: "host_spec E \<Longrightarrow> drawn E w h \<Longrightarrow> length (as_bytes h) = 16"
  by (auto simp: drawn_def host_spec_def crates_spec_def uuid_spec_def)

lemma map_le_Some: "m \<subseteq>\<^sub>m m' \<Longrightarrow> m k = Some v \<Longrightarrow> m' k = Some v"
  by (metis domI map_le_def)

lemma wsd_move_ready:
  assumes "wsd_ready E s" and "wsd_move E s s'"
  shows "wsd_ready E s'"
  using assms(2)
proof (cases rule: wsd_move.cases)
  case (move_ws w)
  then show ?thesis using assms(1) ws_go.keep by (fastforce simp: wsd_ready_def)
next
  case (move_kps k)
  then show ?thesis using assms(1) kps_go.keep by (fastforce simp: wsd_ready_def)
next
  case (move_forget m)
  then show ?thesis using assms(1) by (auto simp: wsd_ready_def dest: map_le_Some)
next
  case (move_pair k b)
  then show ?thesis using assms(1) by (auto simp: wsd_ready_def paired_def ws_ready_def dest: drawn_length [rotated])
qed (use assms(1) in \<open>auto simp: wsd_ready_def\<close>)

interpretation wsd_go: stepwise "wsd_move E" "wsd_ready E" for E :: "('s, 'r, 'p) env"
  by unfold_locales (rule wsd_move_ready)

lemma ws_moves: "(ws_step E)\<^sup>*\<^sup>* (ws_core s) w \<Longrightarrow> (wsd_move E)\<^sup>*\<^sup>* s (s\<lparr>ws_core := w\<rparr>)"
proof (induction rule: rtranclp_induct)
  case (step v w)
  then show ?case
    using wsd_move.move_ws [of E "s\<lparr>ws_core := v\<rparr>" w] by (simp add: rtranclp.rtrancl_into_rtrancl)
qed simp

lemma kps_moves: "(kps_step E)\<^sup>*\<^sup>* (kps_core s) k \<Longrightarrow> (wsd_move E)\<^sup>*\<^sup>* s (s\<lparr>kps_core := k\<rparr>)"
proof (induction rule: rtranclp_induct)
  case (step v w)
  then show ?case
    using wsd_move.move_kps [of E "s\<lparr>kps_core := v\<rparr>" w] by (simp add: rtranclp.rtrancl_into_rtrancl)
qed simp

section \<open>Moves keep the pairs\<close>

definition distinct_handles :: "('s, 'r, 'p) env \<Rightarrow> wsd \<Rightarrow> bool" where
  "distinct_handles E s \<longleftrightarrow> inj_on (Uuid_new_v4 E) {..<max (draws (ws_core s)) (draws (kps_core s))}"

lemma evolved_contents:
  assumes "evolves E w w'" and "drawn E w h" and "inj_on (Uuid_new_v4 E) {..<draws w'}"
  shows "contents w' h = contents w h \<or> contents w' h = None" and "drawn E w' h"
proof -
  obtain n where n: "n < draws w" "h = Uuid_new_v4 E n"
    using assms(2) by (auto simp: drawn_def)
  have le: "draws w \<le> draws w'"
    using assms(1) by (simp add: evolves_def advances_def)
  have new: "\<not> (draws w \<le> m \<and> m < draws w' \<and> h = Uuid_new_v4 E m)" for m
    using inj_onD [OF assms(3), of n m] n le by fastforce
  have "contents w' h = contents w h \<or> contents w' h = None \<or> (\<exists>m. draws w \<le> m \<and> m < draws w' \<and> h = Uuid_new_v4 E m)"
    using assms(1) by (simp add: evolves_def)
  with new show "contents w' h = contents w h \<or> contents w' h = None"
    by metis
  show "drawn E w' h"
    unfolding drawn_def using n le less_le_trans by blast
qed

lemma paired_evolves:
  assumes "paired E s k b" and "evolves E (ws_core s) w" and "evolves E (kps_core s) v"
    and "inj_on (Uuid_new_v4 E) {..<max (draws w) (draws v)}"
    and "ws_core s' = w" and "kps_core s' = v"
  shows "paired E s' k b"
proof -
  have "inj_on (Uuid_new_v4 E) {..<draws w}" "inj_on (Uuid_new_v4 E) {..<draws v}"
    using inj_on_subset [OF assms(4)] by auto
  note k = evolved_contents [OF assms(3) _ this(2), of k] and b = evolved_contents [OF assms(2) _ this(1), of b]
  show ?thesis
    using assms(1) k b by (auto simp: paired_def assms(5,6))
qed

lemma step_evolves:
  "ws_ready E w \<Longrightarrow> ws_step E w w' \<Longrightarrow> evolves E w w'" "kps_ready E k \<Longrightarrow> kps_step E k k' \<Longrightarrow> evolves E k k'"
  using ws_steps_evolve [OF r_into_rtranclp] kps_steps_evolve [OF r_into_rtranclp] by blast+

lemma wsd_move_draws:
  assumes "wsd_ready E s" and "wsd_move E s s'"
  shows "draws (ws_core s) \<le> draws (ws_core s')" and "draws (kps_core s) \<le> draws (kps_core s')"
  using assms(2) by (cases rule: wsd_move.cases;
      use assms(1) in \<open>auto simp: wsd_ready_def evolves_def advances_def dest!: step_evolves [rotated]\<close>)+

lemma wsd_move_bindings:
  assumes "wsd_ready E s" and "bindings_agree E s" and "wsd_move E s s'" and "distinct_handles E s'"
  shows "bindings_agree E s'"
  using assms(3)
proof (cases rule: wsd_move.cases)
  case (move_ws w)
  then have "evolves E (ws_core s) w"
    using assms(1) step_evolves(1) by (auto simp: wsd_ready_def)
  then show ?thesis
    using assms(2,4) move_ws paired_evolves [of E s _ _ w "kps_core s" s', OF _ _ evolves_refl]
    by (auto simp: bindings_agree_def distinct_handles_def)
next
  case (move_kps k)
  then have "evolves E (kps_core s) k"
    using assms(1) step_evolves(2) by (auto simp: wsd_ready_def)
  then show ?thesis
    using assms(2,4) move_kps paired_evolves [of E s _ _ "ws_core s" k s', OF _ evolves_refl]
    by (auto simp: bindings_agree_def distinct_handles_def)
next
  case (move_restart k)
  then have "drawn E k h" if "drawn E (kps_core s) h" for h
    using that by (auto simp: drawn_def intro: less_le_trans)
  then show ?thesis
    using assms(2) move_restart by (auto simp: bindings_agree_def paired_def)
next
  case (move_forget m)
  then show ?thesis
    using assms(2) by (auto simp: bindings_agree_def paired_def dest: map_le_Some)
qed (use assms(2) in \<open>auto simp: bindings_agree_def paired_def\<close>)

lemma wsd_moves_draws:
  assumes "(wsd_move E)\<^sup>*\<^sup>* s s'" and "wsd_ready E s"
  shows "draws (ws_core s) \<le> draws (ws_core s') \<and> draws (kps_core s) \<le> draws (kps_core s')"
  using assms
proof (induction rule: rtranclp_induct)
  case (step t u)
  then show ?case
    using wsd_move_draws [of E t u] wsd_go.keep_steps [of E s t] by (meson le_trans)
qed simp

lemma distinct_handles_before:
  assumes "distinct_handles E t" and "draws (ws_core s) \<le> draws (ws_core t)" and "draws (kps_core s) \<le> draws (kps_core t)"
  shows "distinct_handles E s"
  unfolding distinct_handles_def
  by (rule inj_on_subset [OF assms(1) [unfolded distinct_handles_def]]) (use assms(2,3) in auto)

lemma wsd_moves_bindings:
  assumes "(wsd_move E)\<^sup>*\<^sup>* s s'" and "wsd_ready E s" and "bindings_agree E s" and "distinct_handles E s'"
  shows "bindings_agree E s'"
  using assms
proof (induction rule: rtranclp_induct)
  case (step t u)
  have t: "wsd_ready E t"
    using wsd_go.keep_steps step.hyps(1) step.prems(1) by blast
  then have "distinct_handles E t"
    using distinct_handles_before [OF step.prems(3)] wsd_move_draws [OF t step.hyps(2)] by blast
  then show ?case
    using step wsd_move_bindings [OF t] by blast
qed simp

end
