(* ===== verification/Ws_Handlers.thy ===== *)
theory Ws_Handlers
  imports Wsd_System
begin

text \<open>
  The handlers of the workload service made of moves: none panics, nothing is undefined, and each changes the state
  only by steps of the cores and by entries of the map that belong together.
\<close>

section \<open>Calls\<close>

lemma goesI:
  assumes "\<And>w. I w \<Longrightarrow> \<exists>r w'. m w = (r, w') \<and> step\<^sup>*\<^sup>* w w' \<and> r \<noteq> Panicked \<and> r \<noteq> Undefined \<and> (\<forall>a. r = Ok a \<longrightarrow> R a)"
  shows "goes step I m R"
  using assms by (fastforce simp: goes_def)

lemma goesD:
  assumes "goes step I m R" and "I w" and "m w = (r, w')"
  shows "step\<^sup>*\<^sup>* w w'" and "r \<noteq> Panicked" and "r \<noteq> Undefined" and "\<And>a. r = Ok a \<Longrightarrow> R a"
  using assms by (auto simp: goes_def)

lemma goes_or_respond:
  assumes "goes (wsd_move E) (wsd_ready E) m R" and "\<And>a. R a \<Longrightarrow> goes (wsd_move E) (wsd_ready E) (f a) (\<lambda>_. True)"
  shows "goes (wsd_move E) (wsd_ready E) (or_respond m bad f) (\<lambda>_. True)"
proof (rule goesI)
  fix s assume s: "wsd_ready E s"
  obtain r t where m: "m s = (r, t)" by fastforce
  note run = goesD [OF assms(1) s m]
  show "\<exists>x s'. or_respond m bad f s = (x, s') \<and> (wsd_move E)\<^sup>*\<^sup>* s s' \<and> x \<noteq> Panicked \<and> x \<noteq> Undefined \<and> (\<forall>a. x = Ok a \<longrightarrow> True)"
  proof (cases r)
    case (Ok a)
    obtain x u where f: "f a t = (x, u)" by fastforce
    have "wsd_ready E t"
      using wsd_go.keep_steps run(1) s by blast
    then show ?thesis
      using goesD [OF assms(2) [OF run(4) [OF Ok]] _ f] run(1) f m Ok by (auto simp: or_respond_def)
  qed (use run m in \<open>auto simp: or_respond_def writeError_def returnM_def\<close>)
qed

lemma goes_attempt:
  "goes step I m R \<Longrightarrow> goes step I (attempt m) (\<lambda>_. True)"
  by (fastforce simp: goes_def attempt_def split: prod.splits outcome.splits)

lemma goes_on_ws:
  assumes "goes (ws_step E) (ws_ready E) m R"
  shows "goes (wsd_move E) (wsd_ready E) (on_ws m) R"
proof (rule goesI)
  fix s assume "wsd_ready E s"
  then have s: "ws_ready E (ws_core s)" by (simp add: wsd_ready_def)
  obtain r w where "m (ws_core s) = (r, w)" by fastforce
  with goesD [OF assms s this] show "\<exists>r s'. on_ws m s = (r, s') \<and> (wsd_move E)\<^sup>*\<^sup>* s s' \<and> r \<noteq> Panicked \<and> r \<noteq> Undefined
      \<and> (\<forall>a. r = Ok a \<longrightarrow> R a)"
    by (auto simp: on_ws_def intro: ws_moves)
qed

lemma goes_on_kps:
  assumes "goes (kps_step E) (kps_ready E) m R"
  shows "goes (wsd_move E) (wsd_ready E) (on_kps m) R"
proof (rule goesI)
  fix s assume "wsd_ready E s"
  then have s: "kps_ready E (kps_core s)" by (simp add: wsd_ready_def)
  obtain r w where "m (kps_core s) = (r, w)" by fastforce
  with goesD [OF assms s this] show "\<exists>r s'. on_kps m s = (r, s') \<and> (wsd_move E)\<^sup>*\<^sup>* s s' \<and> r \<noteq> Panicked \<and> r \<noteq> Undefined
      \<and> (\<forall>a. r = Ok a \<longrightarrow> R a)"
    by (auto simp: on_kps_def intro: kps_moves)
qed

lemma goes_via:
  assumes "goes step I m R"
  shows "goes step I (via impl fate m) R"
proof (rule goesI)
  fix k assume k: "I k"
  obtain r k' where m: "m k = (r, k')" by fastforce
  note run = goesD [OF assms k m]
  show "\<exists>r k'. via impl fate m k = (r, k') \<and> step\<^sup>*\<^sup>* k k' \<and> r \<noteq> Panicked \<and> r \<noteq> Undefined \<and> (\<forall>a. r = Ok a \<longrightarrow> R a)"
    by (rule via_cases [of m k r k' impl fate, OF m]) (use run in auto)
qed

lemma goes_by_service:
  assumes "goes (kps_step E) (kps_ready E) here R" and "\<And>k. kps_ready E k \<Longrightarrow> there k = via_rpc fate here k"
  shows "goes (wsd_move E) (wsd_ready E) (by_service here there) R"
proof (rule goesI)
  fix s assume s: "wsd_ready E s"
  then have "by_service here there s = on_kps (via (keyProtectionService s) fate here) s"
    by (intro by_service_via assms(2)) (simp add: wsd_ready_def)
  then show "\<exists>r s'. by_service here there s = (r, s') \<and> (wsd_move E)\<^sup>*\<^sup>* s s' \<and> r \<noteq> Panicked \<and> r \<noteq> Undefined
      \<and> (\<forall>a. r = Ok a \<longrightarrow> R a)"
    using goesD [OF goes_on_kps [OF goes_via [OF assms(1)]] s] by (metis prod.collapse)
qed

lemma goes_DecapAndSeal:
  assumes "length (as_bytes u) = 16" and "enc \<noteq> []" and "length enc < 2 ^ 63" and "length aad < 2 ^ 63"
  shows "goes (kps_step E) (kps_ready E) (kpskcc_DecapAndSeal E u enc aad) (\<lambda>(e, c). length e = 32 \<and> length c = 48)"
proof (rule goesI)
  fix k assume k: "kps_ready E k"
  show "\<exists>r k'. kpskcc_DecapAndSeal E u enc aad k = (r, k') \<and> (kps_step E)\<^sup>*\<^sup>* k k' \<and> r \<noteq> Panicked \<and> r \<noteq> Undefined
      \<and> (\<forall>a. r = Ok a \<longrightarrow> (case a of (e, c) \<Rightarrow> length e = 32 \<and> length c = 48))"
  proof (rule kpskcc_DecapAndSeal_run [OF k assms], goal_cases)
    case (1 r k' v)
    then show ?case
      using reseal_answers [of E _ enc aad v] by (auto split: option.splits outcome.splits if_splits)
  qed
qed

lemma goes_Open:
  assumes "length (as_bytes u) = 16" and "enc \<noteq> []" and "ct \<noteq> []"
    and "length enc < 2 ^ 63" and "length ct < 2 ^ 63" and "length aad < 2 ^ 63"
  shows "goes (ws_step E) (ws_ready E) (wskcc_Open E u enc ct aad) (\<lambda>pt. length pt = 32)"
proof (rule goesI)
  fix w assume w: "ws_ready E w"
  show "\<exists>r w'. wskcc_Open E u enc ct aad w = (r, w') \<and> (ws_step E)\<^sup>*\<^sup>* w w' \<and> r \<noteq> Panicked \<and> r \<noteq> Undefined
      \<and> (\<forall>a. r = Ok a \<longrightarrow> length a = 32)"
  proof (rule wskcc_Open_run [OF w assms], goal_cases)
    case (1 r w' v)
    then show ?case
      using crypto_never_undefined(3,4) [of E _ enc ct aad _ v] by (auto split: option.splits outcome.splits if_splits)
  qed
qed

lemma goes_destroy:
  assumes "length (as_bytes u) = 16"
  shows "goes (kps_step E) (kps_ready E) (kpskcc_DestroyKEMKey E u) (\<lambda>_. True)"
    and "goes (ws_step E) (ws_ready E) (wskcc_DestroyBindingKey E u) (\<lambda>_. True)"
  by (rule goesI, erule kpskcc_DestroyKEMKey_run [OF _ assms], simp)
    (rule goesI, erule wskcc_DestroyBindingKey_run [OF _ assms], simp)

lemma goes_destroy_all: "goes (ws_step E) (ws_ready E) (wskcc_DestroyAllKeys E) (\<lambda>_. True)"
  by (rule goesI, erule wskcc_DestroyAllKeys_run, simp)

lemma goes_get:
  assumes "go_libs_spec E G" and "length (as_bytes u) = 16"
  shows "goes (kps_step E) (kps_ready E) (kpskcc_GetKEMKey E G u) (\<lambda>_. True)"
    and "goes (ws_step E) (ws_ready E) (wskcc_GetBindingKey E G u) (\<lambda>_. True)"
  by (rule goesI, erule kpskcc_GetKEMKey_run [OF _ assms], simp split: option.splits)
    (rule goesI, erule wskcc_GetBindingKey_run [OF _ assms], simp split: option.splits)

section \<open>Handlers\<close>

lemma goes_readRequest:
  "goes step I (readRequest unmarshal valid body) (\<lambda>req. valid req \<and> (\<exists>bs. unmarshal bs = Some req))"
  by (auto simp: goes_def readRequest_def bindM_def ok_orM_def errM_def returnM_def split: option.splits if_splits)

lemma goes_deref: "p \<noteq> None \<Longrightarrow> goes step I (deref p) (\<lambda>a. p = Some a)"
  by (auto simp: goes_def deref_def returnM_def)

lemma goes_simple:
  "goes step I (writeError c) (\<lambda>_. True)" "goes step I (writeJSON G v c) (\<lambda>_. True)" "goes step I (field f) (\<lambda>_. True)"
  by (auto simp: goes_def writeJSON_def writeError_def returnM_def field_def split: option.splits if_splits)

lemma supported_kem: "IsSupportedKemAlgorithm k \<longleftrightarrow> k = kem_as_i32 DhkemX25519HkdfSha256"
  by (simp add: IsSupportedKemAlgorithm_def SupportedKemAlgorithms_def)

lemma length_aad:
  assumes "go_libs_spec E G"
  shows "length (decapsAADContext G u (kem_as_i32 DhkemX25519HkdfSha256)) = 57"
  using string_length [OF assms, of u]
  by (simp add: decapsAADContext_def byte_string_def fmt_d_def decimal.simps)

lemma goes_lookup:
  "goes (wsd_move E) (wsd_ready E) (LookupBindingUUID u) (\<lambda>b. b \<noteq> None \<longrightarrow> length (as_bytes (the b)) = 16)"
  by (auto simp: goes_def LookupBindingUUID_def wsd_ready_def)

text \<open>The interfaces the handlers rely on.\<close>

definition libs_spec :: "('s, 'r, 'p) env \<Rightarrow> http_env \<Rightarrow> bool" where
  "libs_spec E G \<longleftrightarrow> go_libs_spec E G \<and> json_spec G"

lemma goes_handleDecaps:
  assumes "libs_spec E G" and "real_fate fate"
  shows "goes (wsd_move E) (wsd_ready E) (handleDecaps E G fate body) (\<lambda>_. True)"
proof -
  have libs: "go_libs_spec E G" and json: "json_spec G"
    using assms(1) by (simp_all add: libs_spec_def)
  have calls: "goes (wsd_move E) (wsd_ready E)
      (or_respond (by_service (kpskcc_DecapAndSeal E u enc aad) (remote_DecapAndSeal E G fate u enc aad)) httpStatusFromError
         (\<lambda>(sealEnc, sealedCT). or_respond (on_ws (wskcc_Open E b sealEnc sealedCT aad)) httpStatusFromError (\<lambda>pt. writeJSON G (v pt) 200)))
      (\<lambda>_. True)"
    if "length (as_bytes u) = 16" "length (as_bytes b) = 16" "enc \<noteq> []" "length enc < 2 ^ 63" "length aad < 2 ^ 63" for u b enc aad v
    by (rule goes_or_respond [OF goes_by_service [OF goes_DecapAndSeal remote_DecapAndSeal_via [OF libs assms(2)]]])
      (use that in \<open>auto intro!: goes_or_respond [OF goes_on_ws [OF goes_Open]] goes_simple\<close>)
  show ?thesis
    unfolding handleDecaps_def Let_def
  proof (rule goes_or_respond [OF goes_readRequest], goal_cases)
    case (1 req)
    then obtain bs ct h where bs: "unmarshal_DecapsRequest G bs = Some req"
      and ct: "dr_ciphertext req = Some ct" and h: "dr_key_handle req = Some h"
      by (auto simp: DecapsRequest_rules_def)
    have len: "length (ct_ciphertext ct) < 2 ^ 63"
      using json bs ct by (auto simp: json_spec_def)
    show ?case
      using len length_aad [OF libs] parse_length [OF libs]
      by (auto simp: ct h deref_def supported_kem intro!: goes_simple goes_or_respond [OF goes_basic(3)] wsd_go.goes_bindM [OF goes_lookup] calls
          split: option.splits)
  qed
qed

lemma goes_forget: "goes (wsd_move E) (wsd_ready E) (map_delete u) (\<lambda>_. True)"
  unfolding map_delete_def by (rule wsd_go.goes_step) (auto intro!: move_forget simp: map_le_def)

lemma goes_handleDestroy:
  assumes "go_libs_spec E G" and "real_fate fate"
  shows "goes (wsd_move E) (wsd_ready E) (handleDestroy E G fate body) (\<lambda>_. True)"
proof -
  have calls: "goes (wsd_move E) (wsd_ready E)
      (bindM (attempt (by_service (kpskcc_DestroyKEMKey E u) (remote_DestroyKEMKey E G fate u))) (\<lambda>errKps.
       bindM (attempt (on_ws (wskcc_DestroyBindingKey E b))) (\<lambda>errWs. bindM (map_delete u) (\<lambda>_. f errKps errWs)))) (\<lambda>_. True)"
    if "length (as_bytes u) = 16" "length (as_bytes b) = 16" "\<And>x y. goes (wsd_move E) (wsd_ready E) (f x y) (\<lambda>_. True)"
    for u b and f :: "go_error option \<Rightarrow> go_error option \<Rightarrow> (go_error, wsd, http_response) rust"
    by (intro wsd_go.goes_bindM [OF goes_attempt [OF goes_by_service [OF goes_destroy(1) remote_DestroyKEMKey_via [OF assms]]]]
        wsd_go.goes_bindM [OF goes_attempt [OF goes_on_ws [OF goes_destroy(2)]]] wsd_go.goes_bindM [OF goes_forget] that)
  show ?thesis
    unfolding handleDestroy_def
  proof (rule goes_or_respond [OF goes_readRequest], goal_cases)
    case (1 req)
    then obtain h where h: "de_key_handle req = Some h"
      by (auto simp: DestroyRequest_rules_def)
    show ?case
      using parse_length [OF assms(1)]
      by (auto simp: h deref_def intro!: goes_simple goes_basic(1) goes_or_respond [OF goes_basic(3)] wsd_go.goes_bindM [OF goes_lookup] calls
          split: option.splits)
  qed
qed

lemma goes_map_errM: "goes step I m R \<Longrightarrow> goes step I (map_errM f m) R"
  by (auto simp: goes_def map_errM_def split: prod.splits outcome.splits)

lemma goes_GetKeyClaims:
  assumes "go_libs_spec E G" and "real_fate fate"
  shows "goes (wsd_move E) (wsd_ready E) (GetKeyClaims E G fate now req) (\<lambda>_. True)"
proof -
  have binding: "goes (wsd_move E) (wsd_ready E) (handleGetBindingKeyClaims E G u) (\<lambda>_. True)" for u
    unfolding handleGetBindingKeyClaims_def
    by (rule wsd_go.goes_bindM [OF goes_lookup], rule wsd_go.goes_bindM [OF goes_basic(3)],
        rule wsd_go.goes_bindM [OF goes_map_errM [OF goes_on_ws [OF goes_get(2) [OF assms(1)]]]])
      (auto intro!: goes_basic(1))
  have kem: "goes (wsd_move E) (wsd_ready E) (handleGetKEMKeyClaims E G fate now u) (\<lambda>_. True)" if "length (as_bytes u) = 16" for u
    unfolding handleGetKEMKeyClaims_def
    by (rule wsd_go.goes_bindM [OF goes_map_errM [OF goes_by_service [OF goes_get(1) [OF assms(1) that] remote_GetKEMKey_via [OF assms that]]]])
      (auto intro!: goes_basic(1))
  show ?thesis
    unfolding GetKeyClaims_def
    by (rule wsd_go.goes_bindM [OF goes_basic(3)])
      (use parse_length [OF assms(1)] in \<open>auto intro!: goes_basic(2) goes_map_errM binding kem wsd_go.goes_bindM [OF goes_simple(3)] split: KeyType.split\<close>)
qed

lemma cleanupState_run:
  assumes "wsd_ready E s"
  obtains w where "cleanupState E s = (Ok (), s\<lparr>ws_core := w, kemToBindingMap := Map.empty\<rparr>)"
    and "(ws_step E)\<^sup>*\<^sup>* (ws_core s) w" and "contents w = Map.empty"
proof -
  have "ws_ready E (ws_core s)" using assms by (simp add: wsd_ready_def)
  then obtain w where "wskcc_DestroyAllKeys E (ws_core s) = (Ok (), w)" "(ws_step E)\<^sup>*\<^sup>* (ws_core s) w" "contents w = Map.empty"
    by (rule wskcc_DestroyAllKeys_run)
  then show thesis
    by (intro that) (auto simp: cleanupState_def on_ws_def attempt_def bindM_def updateM_def)
qed

lemma goes_cleanupState: "goes (wsd_move E) (wsd_ready E) (cleanupState E) (\<lambda>_. True)"
  unfolding cleanupState_def
  by (rule wsd_go.goes_bindM [OF goes_attempt [OF goes_on_ws [OF goes_destroy_all]]], rule wsd_go.goes_step)
    (auto intro!: move_forget)

section \<open>Generating a key\<close>

definition x25519_suite :: HpkeAlgorithm where
  "x25519_suite = \<lparr>kem = kem_as_i32 DhkemX25519HkdfSha256, kdf = kdf_as_i32 HkdfSha256, aead = aead_as_i32 Aes256Gcm\<rparr>"

lemma x25519_suite_not_empty [simp]: "x25519_suite \<noteq> no_algorithm"
  by (simp add: x25519_suite_def no_algorithm_def)

lemma KemToHpke_supported: "IsSupportedKemAlgorithm k \<Longrightarrow> KemToHpkeAlgorithm k = returnM x25519_suite"
  by (auto simp: supported_kem KemToHpkeAlgorithm_def x25519_suite_def)

lemma made_key_drawn: "made_key E algo l mk h pk w w' \<Longrightarrow> drawn E w' h"
  by (auto simp: made_key_def drawn_def intro!: exI [of _ "Suc (draws w)"])

lemma X25519_of_bytes [simp]: "X25519_public (X25519PublicKey (PublicKey_as_bytes p)) = p"
  by (simp add: PublicKey_eq_iff)

text \<open>The two halves of a key, made one after the other.\<close>

lemma made_keys_paired:
  assumes "made_key E algo l Binding b bpk w w'" and "made_key E algo l' (bound_to bpk) k kpk v v'"
    and "ws_core s = w'" and "kps_core s = v'"
  shows "paired E s k b"
  using assms made_key_drawn [OF assms(1)] made_key_drawn [OF assms(2)]
  by (auto simp: paired_def made_key_def bound_records_def new_metadata_def own_public_key_def)

text \<open>The answer to a generated key.\<close>

definition generated_key :: "http_env \<Rightarrow> wsd \<Rightarrow> int \<Rightarrow> AlgorithmDetails \<Rightarrow> u64 \<Rightarrow> uuid \<Rightarrow> bytes \<Rightarrow> KeyInfo" where
  "generated_key G s now details l k kpk =
     \<lparr>ki_key_handle = Some (uuid_String G k),
      ki_pub_key = \<lparr>pk_algorithm = kem_details (algorithm_type details) (GetKemId details), pk_public_key = kpk\<rparr>,
      ki_mechanism = mechanism_String (mechanism s), ki_expiration_time = expiration_time now l\<rparr>"

lemma by_service_generate:
  assumes "go_libs_spec E G" and "real_fate fate" and "kps_ready E (kps_core s)" and "length bpk = 32"
  shows "by_service (kpskcc_GenerateKEMKeypair E G (Some x25519_suite) bpk l) (remote_GenerateKEMKeypair E G fate x25519_suite bpk l) s
    = on_kps (via (keyProtectionService s) fate (kpskcc_GenerateKEMKeypair E G (Some x25519_suite) bpk l)) s"
proof (rule by_service_via)
  have "bpk \<noteq> []" using assms(4) by auto
  then show "remote_GenerateKEMKeypair E G fate x25519_suite bpk l (kps_core s)
      = via_rpc fate (kpskcc_GenerateKEMKeypair E G (Some x25519_suite) bpk l) (kps_core s)"
    using remote_GenerateKEMKeypair_via [OF assms(1-3) x25519_suite_not_empty] assms(4) by simp
qed

lemma generateKEMKey_run:
  assumes ready: "wsd_ready E s" and libs: "go_libs_spec E G" and fate: "real_fate fate"
    and supp: "IsSupportedKemAlgorithm (GetKemId details)"
  obtains c s' where "generateKEMKey E G fate now details l s = (Ok (ErrorResponse c), s')" and "(wsd_move E)\<^sup>*\<^sup>* s s'"
      and "kemToBindingMap s' = kemToBindingMap s"
  | b bpk w1 k kpk k1 where "made_key E x25519_suite l Binding b bpk (ws_core s) w1" and "(ws_step E)\<^sup>*\<^sup>* (ws_core s) w1"
      and "made_key E x25519_suite l (bound_to bpk) k kpk (kps_core s) k1" and "(kps_step E)\<^sup>*\<^sup>* (kps_core s) k1"
      and "generateKEMKey E G fate now details l s = writeJSON G (GenerateKeyResponse (generated_key G s now details l k kpk)) 200
        (s\<lparr>ws_core := w1, kps_core := k1, kemToBindingMap := (kemToBindingMap s)(k \<mapsto> b)\<rparr>)"
proof -
  have ws: "ws_ready E (ws_core s)" and kps: "kps_ready E (kps_core s)" and host: "host_spec E"
    using ready by (auto simp: wsd_ready_def ws_ready_def)
  note gen = generateKEMKey_def [of E G fate now details l] KemToHpke_supported [OF supp]
  obtain r w1 where r: "wskcc_GenerateBindingKeypair E G (Some x25519_suite) l (ws_core s) = (r, w1)"
    and w1: "(ws_step E)\<^sup>*\<^sup>* (ws_core s) w1"
    and made: "(\<exists>rc. r = ffi_err rc) \<or> (\<exists>b bpk. r = Ok (b, bpk) \<and> made_key E x25519_suite l Binding b bpk (ws_core s) w1)"
    by (rule wskcc_GenerateBindingKeypair_run [OF ws libs x25519_suite_not_empty])
  show thesis
  proof (cases "\<exists>b bpk. r = Ok (b, bpk)")
    case False
    then obtain rc where "r = ffi_err rc" using made by auto
    then show thesis
      using that(1) [OF _ ws_moves [OF w1]] supp r
      by (simp add: gen or_respond_def returnM_def on_ws_def writeError_def)
  next
    case True
    then obtain b bpk where bpk: "r = Ok (b, bpk)" and binding: "made_key E x25519_suite l Binding b bpk (ws_core s) w1"
      using made by auto
    note len = made_key_lengths(2) [OF host binding]
    let ?m = "kpskcc_GenerateKEMKeypair E G (Some x25519_suite) bpk l" and ?s1 = "s\<lparr>ws_core := w1\<rparr>"
    obtain q k1 where q: "?m (kps_core s) = (q, k1)" and k1: "(kps_step E)\<^sup>*\<^sup>* (kps_core s) k1"
      and made': "(\<exists>rc. q = ffi_err rc) \<or> (\<exists>k kpk. q = Ok (k, kpk) \<and> made_key E x25519_suite l (bound_to bpk) k kpk (kps_core s) k1)"
      by (rule kpskcc_GenerateKEMKeypair_run [OF kps libs x25519_suite_not_empty, of bpk l]) (use len in auto)
    have via: "by_service ?m (remote_GenerateKEMKeypair E G fate x25519_suite bpk l) ?s1
        = on_kps (via (keyProtectionService s) fate ?m) ?s1"
      using by_service_generate [OF libs fate, of ?s1 bpk l] kps len by simp
    obtain q' k' where q': "via (keyProtectionService s) fate ?m (kps_core s) = (q', k')" by fastforce
    have moves: "(wsd_move E)\<^sup>*\<^sup>* s (?s1\<lparr>kps_core := k1\<rparr>)" "(wsd_move E)\<^sup>*\<^sup>* s ?s1"
      using ws_moves [OF w1] kps_moves [of E ?s1 k1] k1 by (auto intro: rtranclp_trans)
    have run: "generateKEMKey E G fate now details l s =
        or_respond (\<lambda>_. (q', ?s1\<lparr>kps_core := k'\<rparr>)) httpStatusFromError (\<lambda>(kemUUID, kemPubKey).
          bindM (map_store kemUUID b) (\<lambda>_. bindM (field mechanism) (\<lambda>m. writeJSON G (GenerateKeyResponse
          \<lparr>ki_key_handle = Some (uuid_String G kemUUID),
           ki_pub_key = \<lparr>pk_algorithm = kem_details (algorithm_type details) (GetKemId details), pk_public_key = kemPubKey\<rparr>,
           ki_mechanism = mechanism_String m, ki_expiration_time = expiration_time now l\<rparr>) 200))) s"
      using supp r bpk q' via by (simp add: gen or_respond_def returnM_def on_ws_def on_kps_def)
    show thesis
    proof (cases "\<exists>k kpk. q' = Ok (k, kpk)")
      case True
      then obtain k kpk where ok: "q' = Ok (k, kpk)" by blast
      then have "q = Ok (k, kpk)" "k' = k1"
        using via_Ok [of "keyProtectionService s" fate ?m "kps_core s" "(k, kpk)" k'] q q' by auto
      then show thesis
        using that(2) [OF binding w1 _ k1, of k kpk] made' ok run
        by (auto simp: or_respond_def map_store_def updateM_def bindM_def field_def generated_key_def)
    next
      case False
      have "(\<exists>e. q' = Err e) \<and> k' \<in> {k1, kps_core s}"
        by (rule via_cases [of ?m "kps_core s" q k1 "keyProtectionService s" fate, OF q]) (use q' made' False in auto)
      then show thesis
        using that(1) [of _ "?s1\<lparr>kps_core := k'\<rparr>"] moves run by (auto simp: or_respond_def writeError_def returnM_def)
    qed
  qed
qed

lemma goes_generateKEMKey:
  assumes "go_libs_spec E G" and "real_fate fate"
  shows "goes (wsd_move E) (wsd_ready E) (generateKEMKey E G fate now details l) (\<lambda>_. True)"
proof (cases "IsSupportedKemAlgorithm (GetKemId details)")
  case True
  show ?thesis
  proof (rule goesI)
    fix s assume s: "wsd_ready E s"
    show "\<exists>r s'. generateKEMKey E G fate now details l s = (r, s') \<and> (wsd_move E)\<^sup>*\<^sup>* s s' \<and> r \<noteq> Panicked \<and> r \<noteq> Undefined
        \<and> (\<forall>a. r = Ok a \<longrightarrow> True)"
    proof (rule generateKEMKey_run [OF s assms True, of now l], goal_cases)
      case (2 b bpk w1 k kpk k1)
      let ?t = "s\<lparr>ws_core := w1, kps_core := k1\<rparr>"
      have "(wsd_move E)\<^sup>*\<^sup>* s ?t"
        using ws_moves [OF 2(2)] kps_moves [of E "s\<lparr>ws_core := w1\<rparr>" k1] 2(4) by (auto intro: rtranclp_trans)
      moreover have "wsd_move E ?t (?t\<lparr>kemToBindingMap := (kemToBindingMap ?t)(k \<mapsto> b)\<rparr>)"
        by (rule move_pair, rule made_keys_paired [OF 2(1,3)]) simp_all
      ultimately show ?case
        using 2(5) by (auto simp: writeJSON_def writeError_def returnM_def split: option.splits)
    qed auto
  qed
qed (simp add: generateKEMKey_def goes_simple)

lemma goes_handleGenerateKey:
  assumes "go_libs_spec E G" and "real_fate fate"
  shows "goes (wsd_move E) (wsd_ready E) (handleGenerateKey E G fate now body) (\<lambda>_. True)"
  unfolding handleGenerateKey_def
proof (rule goes_or_respond [OF goes_readRequest], goal_cases)
  case (1 req)
  then obtain d where "gk_algorithm req = Some d"
    by (auto simp: GenerateKeyRequest_rules_def)
  then show ?case
    by (auto simp: deref_def intro!: goes_simple goes_generateKEMKey [OF assms])
qed

section \<open>Listing keys\<close>

lemma limit_sint [simp]: "sint defaultEnumerateLimit = 10000"
  by (simp add: defaultEnumerateLimit_def)

lemma handleEnumerateKeys_run:
  assumes "wsd_ready E s" and libs: "go_libs_spec E G" and "real_fate fate" and addr: "addressable (kps_core s)"
  obtains k where "(kps_step E)\<^sup>*\<^sup>* (kps_core s) k" and
    "handleEnumerateKeys E G fate now s = writeJSON G (EnumerateKeysResponse (key_infos G (mechanism s) now 0
       (listed_keys (clock (kps_core s)) (Suc (ticks (kps_core s)))
         (map meta (take 10000 (listing (clock (kps_core s) (ticks (kps_core s))) (kps_core s))))))) 200 (s\<lparr>kps_core := k\<rparr>)"
  | c k where "(kps_step E)\<^sup>*\<^sup>* (kps_core s) k" and "keyProtectionService s = Remote" and "fate \<noteq> Delivered"
    and "handleEnumerateKeys E G fate now s = (Ok (ErrorResponse c), s\<lparr>kps_core := k\<rparr>)"
proof -
  let ?k = "kps_core s" and ?m = "kpskcc_EnumerateKEMKeys E G defaultEnumerateLimit 0"
  have ready: "kps_ready E ?k" using assms(1) by (simp add: wsd_ready_def)
  obtain k more where k: "?m ?k = (Ok (listed_keys (clock ?k) (Suc (ticks ?k)) (map meta (take 10000 (listing (clock ?k (ticks ?k)) ?k))), more), k)"
    and steps: "(kps_step E)\<^sup>*\<^sup>* ?k k"
    by (rule kpskcc_EnumerateKEMKeys_run [OF ready libs, of defaultEnumerateLimit 0, OF _ _ refl _ refl])
      (use addr in \<open>auto simp: addressable_def\<close>)
  have via: "by_service ?m (remote_EnumerateKEMKeys E G fate defaultEnumerateLimit 0) s
      = on_kps (via (keyProtectionService s) fate ?m) s"
    by (rule by_service_via, rule remote_EnumerateKEMKeys_via [OF libs assms(3) ready addr]) simp_all
  show thesis
  proof (cases "keyProtectionService s = InProcess \<or> fate = Delivered")
    case True
    note ok = via_delivered [of _ fate ?m ?k, OF True k]
    show thesis
      by (rule that(1) [OF steps])
        (simp add: handleEnumerateKeys_def or_respond_def via on_kps_def ok bindM_def field_def)
  next
    case False
    obtain e k' where e: "via (keyProtectionService s) fate ?m ?k = (Err e, k')" and k': "k' = k \<or> k' = ?k"
      using False k by (cases "keyProtectionService s"; cases fate) (auto simp: via_def via_rpc_def)
    show thesis
      by (rule that(2) [of k']) (use k' steps False in \<open>auto simp: handleEnumerateKeys_def or_respond_def via on_kps_def e writeError_def returnM_def
            intro: kps_impl.exhaust\<close>)
  qed
qed

end
