(* ===== verification/Heartbeat.thy ===== *)
theory Heartbeat
  imports Ws_Handlers
begin

text \<open>
  The heartbeat of the workload service. The loop of \<^verbatim>\<open>performHeartbeat\<close> ends for every positive first backoff and a limit far from
  the end of the range of \<^verbatim>\<open>time.Duration\<close>, and with the defaults of \<^verbatim>\<open>server.go\<close> it gives up after eight attempts: a service that is not
  heard of for 255 seconds, or that comes back with another boot token, costs the workload all its keys.
\<close>

section \<open>Lemmas: the loop\<close>

text \<open>The end of a call that got an answer.\<close>

definition handshake :: "('s, 'r, 'p) env \<Rightarrow> string \<Rightarrow> (go_error, wsd, unit) rust" where
  "handshake E token s =
     bindM (if cachedToken s \<noteq> [] \<and> cachedToken s \<noteq> token then cleanupState E else returnM ()) (\<lambda>_. updateM (\<lambda>s. s\<lparr>cachedToken := token\<rparr>)) s"

lemma heartbeat_answered: "reply n = Some token \<Longrightarrow> heartbeat_loop E reply cancelled maxB backoff n s = Some ([], handshake E token s)"
  by (simp add: heartbeat_loop.simps handshake_def)

lemma heartbeat_cancelled: "reply n = None \<Longrightarrow> cancelled n \<Longrightarrow> heartbeat_loop E reply cancelled maxB backoff n s = Some ([backoff], Ok (), s)"
  by (simp add: heartbeat_loop.simps returnM_def)

lemma heartbeat_exhausted:
  "reply n = None \<Longrightarrow> \<not> cancelled n \<Longrightarrow> maxB \<le>s backoff \<Longrightarrow>
   heartbeat_loop E reply cancelled maxB backoff n s = Some ([backoff], cleanupState E s)"
  by (simp add: heartbeat_loop.simps)

lemma heartbeat_again:
  "reply n = None \<Longrightarrow> \<not> cancelled n \<Longrightarrow> \<not> maxB \<le>s backoff \<Longrightarrow>
   heartbeat_loop E reply cancelled maxB backoff n s =
     map_option (apfst ((#) backoff)) (heartbeat_loop E reply cancelled maxB (if maxB <s backoff * 2 then maxB else backoff * 2) (Suc n) s)"
  by (subst heartbeat_loop.simps)
    (simp add: map_conv_bind_option apfst_def map_prod_def case_prod_unfold comp_def id_def)

lemma sint_double:
  fixes b :: "64 word"
  assumes "0 < sint b" and "sint b < 2 ^ 62"
  shows "sint (b * 2) = 2 * sint b"
proof -
  have "sint (2 :: 64 word) = 2" by simp
  then have "sint (b * 2) = signed_take_bit 63 (sint b * 2)"
    by (simp add: sint_word_ariths)
  then show ?thesis
    using assms by (simp add: signed_take_bit_int_eq_self)
qed

lemma heartbeat_terminates:
  assumes "0 < sint backoff" and "sint maxB < 2 ^ 62"
  shows "\<exists>waits result. heartbeat_loop E reply cancelled maxB backoff n s = Some (waits, result)"
  using assms
proof (induction "nat (sint maxB - sint backoff)" arbitrary: backoff n rule: less_induct)
  case less
  consider "\<exists>t. reply n = Some t" | "reply n = None" "cancelled n" | "reply n = None" "\<not> cancelled n" "maxB \<le>s backoff"
    | "reply n = None" "\<not> cancelled n" "\<not> maxB \<le>s backoff"
    by fastforce
  then show ?case
  proof cases
    case 4
    let ?b = "if maxB <s backoff * 2 then maxB else backoff * 2"
    have lt: "sint backoff < sint maxB"
      using 4(3) by (simp add: word_sle_eq)
    then have "sint ?b > sint backoff"
      using sint_double [of backoff] less.prems by (simp add: word_sless_alt)
    then have "\<exists>waits result. heartbeat_loop E reply cancelled maxB ?b (Suc n) s = Some (waits, result)"
      using less.hyps [of ?b "Suc n"] less.prems lt by simp
    then show ?thesis
      using heartbeat_again [of reply n cancelled maxB backoff E s] 4 by auto
  qed (auto simp: heartbeat_answered heartbeat_cancelled heartbeat_exhausted split: prod.split)
qed

section \<open>Lemmas: the default backoffs\<close>

abbreviation (input) second :: "64 word" where
  "second \<equiv> 1000000000"

definition silent :: "(nat \<Rightarrow> string option) \<Rightarrow> (nat \<Rightarrow> bool) \<Rightarrow> nat \<Rightarrow> bool" where
  "silent reply cancelled j \<longleftrightarrow> (\<forall>i < j. reply i = None \<and> \<not> cancelled i)"

lemma default_backoffs:
  assumes "j < 7"
  shows "\<not> 128 * second \<le>s 2 ^ j * second" and "(if 128 * second <s 2 ^ j * second * 2 then 128 * second else 2 ^ j * second * 2) = 2 ^ Suc j * second"
proof -
  have "j \<in> {0, 1, 2, 3, 4, 5, 6}" using assms by auto
  then show "\<not> 128 * second \<le>s 2 ^ j * second" "(if 128 * second <s 2 ^ j * second * 2 then 128 * second else 2 ^ j * second * 2) = 2 ^ Suc j * second"
    by (auto simp: word_sle_eq word_sless_alt)
qed

lemma heartbeat_silent:
  assumes "silent reply cancelled j" and "j \<le> 7"
  shows "heartbeat_loop E reply cancelled (128 * second) second 0 s =
    map_option (apfst ((@) (map (\<lambda>i. 2 ^ i * second) [0..<j]))) (heartbeat_loop E reply cancelled (128 * second) (2 ^ j * second) j s)"
  using assms
proof (induction j)
  case 0
  then show ?case by (simp add: apfst_def map_prod_def case_prod_unfold id_def option.map_ident)
next
  case (Suc j)
  then have "silent reply cancelled j" "reply j = None" "\<not> cancelled j" "j < 7"
    by (auto simp: silent_def)
  with Suc.IH heartbeat_again [of reply j cancelled "128 * second" "2 ^ j * second" E s] default_backoffs [of j] show ?case
    by (simp add: option.map_comp comp_def apfst_def map_prod_def case_prod_unfold)
qed

lemma first_event:
  obtains j where "j \<le> 7" and "silent reply cancelled j" and "reply j \<noteq> None \<or> cancelled j \<or> j = 7"
proof -
  define j where "j = (LEAST j. reply j \<noteq> None \<or> cancelled j \<or> j = 7)"
  have "reply j \<noteq> None \<or> cancelled j \<or> j = 7"
    unfolding j_def by (rule LeastI [of _ 7]) simp
  moreover have "j \<le> 7"
    unfolding j_def by (rule Least_le) simp
  moreover have "silent reply cancelled j"
    unfolding silent_def using not_less_Least [of _ "\<lambda>j. reply j \<noteq> None \<or> cancelled j \<or> j = 7"] j_def by blast
  ultimately show thesis
    using that by blast
qed

abbreviation (input) default_waits :: "nat \<Rightarrow> 64 word list" where
  "default_waits n \<equiv> map (\<lambda>i. 2 ^ i * second) [0..<n]"

text \<open>The three ways a heartbeat ends.\<close>

lemma performHeartbeat_cases:
  assumes "initialBackoff s = second" and "maxBackoff s = 128 * second"
  obtains j t where "j < 8" and "silent reply cancelled j" and "reply j = Some t"
      and "performHeartbeat E reply cancelled s = Some (default_waits j, handshake E t s)"
  | j where "j < 8" and "silent reply cancelled j" and "reply j = None" and "cancelled j"
      and "performHeartbeat E reply cancelled s = Some (default_waits (Suc j), Ok (), s)"
  | "silent reply cancelled 8" and "performHeartbeat E reply cancelled s = Some (default_waits 8, cleanupState E s)"
proof -
  obtain j where j: "j \<le> 7" "silent reply cancelled j" "reply j \<noteq> None \<or> cancelled j \<or> j = 7"
    by (rule first_event)
  have run: "performHeartbeat E reply cancelled s =
      map_option (apfst ((@) (default_waits j))) (heartbeat_loop E reply cancelled (128 * second) (2 ^ j * second) j s)"
    using heartbeat_silent [OF j(2,1)] assms by (simp add: performHeartbeat_def)
  consider (answer) t where "reply j = Some t" | (cancel) "reply j = None" "cancelled j" | (silence) "reply j = None" "\<not> cancelled j" "j = 7"
    using j(3) by (cases "reply j") auto
  then show thesis
  proof cases
    case answer
    then show thesis
      using that(1) [of j t] j(1,2) run by (simp add: heartbeat_answered)
  next
    case cancel
    then show thesis
      using that(2) [of j] j(1,2) run by (simp add: heartbeat_cancelled)
  next
    case silence
    have "heartbeat_loop E reply cancelled (128 * second) (2 ^ 7 * second) 7 s = Some ([2 ^ 7 * second], cleanupState E s)"
      by (rule heartbeat_exhausted) (use silence in simp_all)
    moreover have "silent reply cancelled 8"
      using j(2) silence by (auto simp: silent_def less_Suc_eq numeral_eq_Suc)
    moreover have "[0..<8] = [0..<7] @ [7]"
      by (simp add: upt_rec)
    ultimately show thesis
      using that(3) run silence by simp
  qed
qed

lemma silent_unique:
  assumes "silent reply cancelled i" and "silent reply cancelled j" and "reply i = Some t" and "reply j \<noteq> None \<or> cancelled j"
  shows "i = j"
  using assms by (cases i j rule: linorder_cases) (auto simp: silent_def)

lemma handshake_run_eq:
  assumes "wsd_ready E s"
  obtains w where "handshake E token s = (Ok (), if cachedToken s \<noteq> [] \<and> cachedToken s \<noteq> token
      then s\<lparr>ws_core := w, kemToBindingMap := Map.empty, cachedToken := token\<rparr> else s\<lparr>cachedToken := token\<rparr>)" and "contents w = Map.empty"
  by (rule cleanupState_run [OF assms]) (rule that, auto simp: handshake_def bindM_def updateM_def returnM_def)

end
