(* ===== verification/Delivery.thy ===== *)
theory Delivery
  imports Ws_Handlers
begin

text \<open>
  A secret on its way through both services: \<^verbatim>\<open>handleDecaps\<close> has it decapsulated and sealed by the key protection service and opens
  it with the binding key. On a pair of keys that belong together, what the workload receives is the decapsulated secret.
\<close>

section \<open>Sealing and opening\<close>

lemma bound_key_pair:
  assumes "ws_record E br" and "bound_records kr br"
  obtains n where "key_pair E n = (binding_public_key (spec (meta kr)), get_private_key br)"
    and "suite_supported E (spec_algo (spec (meta kr)))" and "spec_algo (spec (meta br)) = spec_algo (spec (meta kr))"
proof -
  have algo: "spec_algo (spec (meta br)) = spec_algo (spec (meta kr))" and pk: "own_public_key (spec (meta br)) = binding_public_key (spec (meta kr))"
    using assms(2) by (simp_all add: bound_records_def)
  obtain n where "key_pair E n = (binding_public_key (spec (meta kr)), get_private_key br)"
    using assms(1) pk by (auto simp: ws_record_def record_ok_def)
  moreover have "suite_supported E (spec_algo (spec (meta kr)))"
    using assms(1) algo by (simp add: ws_record_def record_ok_def)
  ultimately show thesis
    using that algo by blast
qed

lemma reseal_open:
  fixes v :: "'e world"
  assumes "host_spec E" and "hkdf_spec E" and "ws_record E br" and "bound_records kr br" and "reseal E kr enc aad v = (Ok (e, c), u)"
  obtains ss where "\<And>m :: 'e world. decaps E (get_private_key kr) enc m = (Ok ss, m)"
    and "\<And>x :: 'f world. hpke_open E (get_private_key br) e c aad (spec_algo (spec (meta br))) x = (Ok ss, x)"
    and "length (as_slice ss) = 32" and "length e = 32" and "length c = 48"
proof -
  have spec: "hpke_spec E"
    using assms(1) by (simp add: host_spec_def crates_spec_def)
  obtain ss u' where dec: "decaps E (get_private_key kr) enc v = (Ok ss, u')"
    and seal: "hpke_seal E (binding_public_key (spec (meta kr))) ss aad (spec_algo (spec (meta kr))) u' = (Ok (e, c), u)"
    using assms(5) by (auto simp: reseal_def bindM_eq_Ok)
  obtain n where kp: "key_pair E n = (binding_public_key (spec (meta kr)), get_private_key br)"
    and supp: "suite_supported E (spec_algo (spec (meta kr)))" and algo: "spec_algo (spec (meta br)) = spec_algo (spec (meta kr))"
    by (rule bound_key_pair [OF assms(3,4)])
  note ss = decaps_Ok_length [OF assms(2) dec] and opens = open_seal_pair [OF spec supp kp seal]
  show thesis
    by (rule that [of ss]) (use decaps_state [of E "get_private_key kr" enc _ v] dec opens ss algo in auto)
qed

lemma reseal_total:
  fixes v :: "'e world"
  assumes "host_spec E" and "ws_record E br" and "bound_records kr br" and "\<And>m :: 'e world. decaps E (get_private_key kr) enc m = (Ok ss, m)"
  shows "\<exists>e c u. reseal E kr enc aad v = (Ok (e, c), u)"
proof -
  have specs: "hpke_spec E"
    using assms(1) by (simp add: host_spec_def crates_spec_def)
  obtain n where kp: "key_pair E n = (binding_public_key (spec (meta kr)), get_private_key br)"
    and supp: "suite_supported E (spec_algo (spec (meta kr)))"
    by (rule bound_key_pair [OF assms(2,3)])
  obtain e c u where "hpke_seal E (binding_public_key (spec (meta kr))) ss aad (spec_algo (spec (meta kr))) v = (Ok (e, c), u)"
    using hpke_seal_total [OF specs supp, of n ss aad v] kp by auto
  then show ?thesis
    using assms(4) [of v] by (simp add: reseal_def bindM_def)
qed

section \<open>The calls of a decapsulation\<close>

definition unseals :: "('s, 'r, 'p) env \<Rightarrow> uuid \<Rightarrow> uuid \<Rightarrow> bytes \<Rightarrow> bytes \<Rightarrow> KpsKeyInfo world \<Rightarrow> WsKeyInfo world \<Rightarrow> bytes \<Rightarrow> bool" where
  "unseals E hk b enc aad k w pt \<longleftrightarrow> (\<exists>e c k' w'. kpskcc_DecapAndSeal E hk enc aad k = (Ok (e, c), k')
     \<and> wskcc_Open E b e c aad w = (Ok pt, w'))"

text \<open>A live pair that belongs together, and the secret it gives.\<close>

definition live_pair :: "KpsKeyInfo world \<Rightarrow> WsKeyInfo world \<Rightarrow> uuid \<Rightarrow> uuid \<Rightarrow> KeyRecord \<Rightarrow> KeyRecord \<Rightarrow> bool" where
  "live_pair k w hk b kr br \<longleftrightarrow> unexpired (clock k (ticks k)) (contents k hk) = Some kr
     \<and> unexpired (clock w (ticks w)) (contents w b) = Some br"

lemma sealed_opens:
  fixes v :: "KpsKeyInfo world"
  assumes "ws_ready E w" and "hkdf_spec E" and "length (as_bytes b) = 16" and "length aad < 2 ^ 63"
    and "ws_record E br" and "bound_records kr br" and "live_pair k w hk b kr br"
    and re: "reseal E kr enc aad v = (Ok (e, c), u)" and dec: "decaps E (get_private_key kr) enc k = (Ok ss, k)"
  shows "\<exists>w'. wskcc_Open E b e c aad w = (Ok (as_slice ss), w')"
proof -
  have host: "host_spec E" using assms(1) by (simp add: ws_ready_def)
  obtain ss' where ss': "decaps E (get_private_key kr) enc v = (Ok ss', v)" "length (as_slice ss') = 32"
    and op: "\<And>x :: WsKeyInfo world. hpke_open E (get_private_key br) e c aad (spec_algo (spec (meta br))) x = (Ok ss', x)"
    and len: "length e = 32" "length c = 48"
    by (rule reseal_open [OF host assms(2,5,6) re]) blast
  have ss: "ss' = ss" and ne: "e \<noteq> []" "c \<noteq> []" "length e < 2 ^ 63" "length c < 2 ^ 63"
    using decaps_state [of E "get_private_key kr" enc v k] dec ss' len by auto
  show ?thesis
    by (rule wskcc_Open_run [OF assms(1,3) ne assms(4)]) (use op ss' assms(7) ss in \<open>auto simp: live_pair_def\<close>)
qed

lemma unseals_iff:
  assumes "kps_ready E k" and "ws_ready E w" and hkdf: "hkdf_spec E" and "length (as_bytes hk) = 16" and "length (as_bytes b) = 16"
    and "enc \<noteq> []" and "length enc < 2 ^ 63" and "length aad < 2 ^ 63"
    and agree: "\<And>kr br. live_pair k w hk b kr br \<Longrightarrow> bound_records kr br"
  shows "unseals E hk b enc aad k w pt \<longleftrightarrow>
    (\<exists>kr br ss. live_pair k w hk b kr br \<and> decaps E (get_private_key kr) enc k = (Ok ss, k) \<and> pt = as_slice ss)"
    (is "?L \<longleftrightarrow> ?R")
proof -
  have host: "host_spec E" using assms(2) by (simp add: ws_ready_def)
  have br: "ws_record E br" if "live_pair k w hk b kr br" for kr br
    using that core_inv_contents [OF conjunct1 [OF readyD(1) [OF assms(2)]]] by (auto simp: live_pair_def unexpired_eq_Some)
  obtain r k' v where seal: "kpskcc_DecapAndSeal E hk enc aad k = (r, k')"
    and r: "r = (case unexpired (clock k (ticks k)) (contents k hk) of None \<Rightarrow> ffi_err NotFound
       | Some rec \<Rightarrow> (case fst (reseal E rec enc aad (v :: KpsKeyInfo world)) of
            Ok (e, c) \<Rightarrow> if length e = 32 \<and> length c = 48 then Ok (e, c) else ffi_err InvalidArgument
          | Err s \<Rightarrow> ffi_err s | Panicked \<Rightarrow> Panicked | Undefined \<Rightarrow> Undefined))"
    by (rule kpskcc_DecapAndSeal_run [OF assms(1,4,6-8)])
  note opened = sealed_opens [OF assms(2) hkdf assms(5,8) br agree]
  show ?thesis
  proof
    assume ?L
    then obtain e c w' where e: "r = Ok (e, c)" and op: "wskcc_Open E b e c aad w = (Ok pt, w')"
      using seal by (auto simp: unseals_def)
    then obtain kr u where kr: "unexpired (clock k (ticks k)) (contents k hk) = Some kr"
      and re: "reseal E kr enc aad v = (Ok (e, c), u)" and len: "length e = 32" "length c = 48"
      using r by (cases "reseal E (the (unexpired (clock k (ticks k)) (contents k hk))) enc aad v")
        (auto split: option.splits outcome.splits prod.splits if_splits)
    have ne: "e \<noteq> []" "c \<noteq> []" "length e < 2 ^ 63" "length c < 2 ^ 63"
      using len by auto
    obtain br where "unexpired (clock w (ticks w)) (contents w b) = Some br"
      by (rule wskcc_Open_run [OF assms(2,5) ne assms(8)]) (use op in \<open>auto split: option.splits\<close>)
    with kr have live: "live_pair k w hk b kr br" by (simp add: live_pair_def)
    obtain ss where "decaps E (get_private_key kr) enc k = (Ok ss, k)"
      by (rule reseal_open [OF host hkdf br [OF live] agree [OF live] re, where 'f = WsKeyInfo]) blast
    then show ?R
      using live opened [OF live live live re] op by auto
  next
    assume ?R
    then obtain kr br ss where live: "live_pair k w hk b kr br" and dec: "decaps E (get_private_key kr) enc k = (Ok ss, k)"
      and pt: "pt = as_slice ss" by blast
    have "decaps E (get_private_key kr) enc m = (Ok ss, m)" for m :: "KpsKeyInfo world"
      using decaps_state [of E "get_private_key kr" enc m k] dec by simp
    then obtain e c u where re: "reseal E kr enc aad v = (Ok (e, c), u)"
      using reseal_total [OF host br [OF live] agree [OF live]] by blast
    then have "length e = 32 \<and> length c = 48"
      by (rule reseal_open [OF host hkdf br [OF live] agree [OF live], where 'f = WsKeyInfo]) blast
    then have "r = Ok (e, c)"
      using live r re by (simp add: live_pair_def)
    then show ?L
      using seal opened [OF live live live re dec] pt by (auto simp: unseals_def)
  qed
qed

section \<open>Responses\<close>

abbreviation (input) x25519_kem :: i32 where
  "x25519_kem \<equiv> kem_as_i32 DhkemX25519HkdfSha256"

text \<open>The body of a request that reaches the key protection service.\<close>

definition asks_decap :: "http_env \<Rightarrow> bytes option \<Rightarrow> uuid \<Rightarrow> bytes \<Rightarrow> bool" where
  "asks_decap G body u enc \<longleftrightarrow> (\<exists>bs h. body = Some bs \<and> unmarshal_DecapsRequest G bs =
       Some \<lparr>dr_key_handle = Some h, dr_ciphertext = Some \<lparr>ct_algorithm = x25519_kem, ct_ciphertext = enc\<rparr>\<rparr>
     \<and> uuid_Parse G h = Some u \<and> enc \<noteq> [])"

lemma asks_decap_length:
  assumes "json_spec G" and "asks_decap G body u enc"
  shows "enc \<noteq> [] \<and> length enc < 2 ^ 63"
proof -
  obtain bs h where req: "unmarshal_DecapsRequest G bs =
      Some \<lparr>dr_key_handle = Some h, dr_ciphertext = Some \<lparr>ct_algorithm = x25519_kem, ct_ciphertext = enc\<rparr>\<rparr>" and "enc \<noteq> []"
    using assms(2) by (auto simp: asks_decap_def)
  then show ?thesis
    using assms(1) [unfolded json_spec_def, rule_format, OF req] by simp
qed

definition decap_calls :: "('s, 'r, 'p) env \<Rightarrow> http_env \<Rightarrow> rpc_fate \<Rightarrow> uuid \<Rightarrow> bytes \<Rightarrow> uuid \<Rightarrow> (go_error, wsd, http_response) rust" where
  "decap_calls E G fate u enc b =
     (let aad = decapsAADContext G u x25519_kem in
      or_respond (by_service (kpskcc_DecapAndSeal E u enc aad) (remote_DecapAndSeal E G fate u enc aad)) httpStatusFromError (\<lambda>(e, c).
      or_respond (on_ws (wskcc_Open E b e c aad)) httpStatusFromError (\<lambda>pt.
      writeJSON G (DecapsResponse \<lparr>ss_algorithm = x25519_kem, ss_secret = pt\<rparr>) 200)))"

lemma handleDecaps_asked:
  assumes "asks_decap G body u enc"
  shows "handleDecaps E G fate body s =
    (case kemToBindingMap s u of None \<Rightarrow> (Ok (ErrorResponse 404), s) | Some b \<Rightarrow> decap_calls E G fate u enc b s)"
  using assms
  by (auto simp: asks_decap_def handleDecaps_def or_respond_def readRequest_def ok_orM_def bindM_def returnM_def deref_def supported_kem
      DecapsRequest_rules_def LookupBindingUUID_def writeError_def decap_calls_def Let_def split: option.splits)

lemma handleDecaps_not_asked:
  assumes "\<nexists>u enc. asks_decap G body u enc"
  shows "handleDecaps E G fate body s = (Ok (ErrorResponse 400), s)"
proof (cases "\<exists>bs req ct h. body = Some bs \<and> unmarshal_DecapsRequest G bs = Some req \<and> dr_ciphertext req = Some ct \<and> dr_key_handle req = Some h")
  case True
  then obtain bs ct h where body: "body = Some bs"
    and req: "unmarshal_DecapsRequest G bs = Some \<lparr>dr_key_handle = Some h, dr_ciphertext = Some ct\<rparr>"
    by (metis DecapsRequest.surjective old.unit.exhaust)
  obtain alg enc where ct: "ct = \<lparr>ct_algorithm = alg, ct_ciphertext = enc\<rparr>"
    by (metis KemCiphertext.surjective old.unit.exhaust)
  have "alg \<noteq> x25519_kem \<or> uuid_Parse G h = None \<or> enc = []"
    using assms body req ct by (auto simp: asks_decap_def)
  then show ?thesis
    using body req ct
    by (auto simp: handleDecaps_def or_respond_def readRequest_def ok_orM_def bindM_def returnM_def deref_def supported_kem
      DecapsRequest_rules_def writeError_def errM_def split: option.splits)
next
  case False
  then show ?thesis
    by (auto simp: handleDecaps_def or_respond_def readRequest_def ok_orM_def bindM_def returnM_def deref_def
      DecapsRequest_rules_def writeError_def errM_def split: option.splits)
qed

lemma writeJSON_Response:
  "response_rules v \<Longrightarrow> (\<exists>s'. writeJSON G v n s = (Ok (Response c out), s')) \<longleftrightarrow> c = n \<and> protojson_Marshal G v = Some out"
  by (auto simp: writeJSON_def writeError_def returnM_def split: option.splits)

lemma or_respond_Response:
  "(\<exists>t. or_respond m bad f s = (Ok (Response c out), t)) \<longleftrightarrow> (\<exists>a s'. m s = (Ok a, s') \<and> (\<exists>t. f a s' = (Ok (Response c out), t)))"
  by (auto simp: or_respond_def writeError_def returnM_def split: prod.splits outcome.splits)

lemma via_Ok_iff:
  "via impl fate m k = (Ok a, k') \<longleftrightarrow> (impl = InProcess \<or> fate = Delivered) \<and> m k = (Ok a, k')"
  by (cases impl; cases fate; cases "m k"; cases "fst (m k)") (auto simp: via_def via_rpc_def)

lemma on_core_Ok:
  "on_kps m s = (Ok a, t) \<longleftrightarrow> (\<exists>k. m (kps_core s) = (Ok a, k) \<and> t = s\<lparr>kps_core := k\<rparr>)"
  "on_ws m' s = (Ok a, t) \<longleftrightarrow> (\<exists>w. m' (ws_core s) = (Ok a, w) \<and> t = s\<lparr>ws_core := w\<rparr>)"
  by (auto simp: on_kps_def on_ws_def split: prod.splits)

lemma decap_calls_Response:
  assumes "go_libs_spec E G" and "real_fate fate" and "length (as_bytes u) = 16"
  shows "(\<exists>t. decap_calls E G fate u enc b s = (Ok (Response c out), t)) \<longleftrightarrow>
    (keyProtectionService s = InProcess \<or> fate = Delivered) \<and> c = 200
    \<and> (\<exists>pt. unseals E u b enc (decapsAADContext G u x25519_kem) (kps_core s) (ws_core s) pt
         \<and> protojson_Marshal G (DecapsResponse \<lparr>ss_algorithm = x25519_kem, ss_secret = pt\<rparr>) = Some out)"
proof -
  have via: "by_service (kpskcc_DecapAndSeal E u enc aad) (remote_DecapAndSeal E G fate u enc aad) s
      = on_kps (via (keyProtectionService s) fate (kpskcc_DecapAndSeal E u enc aad)) s" for aad
    by (rule by_service_via, rule remote_DecapAndSeal_via [OF assms])
  let ?aad = "decapsAADContext G u x25519_kem"
  let ?resp = "\<lambda>pt. DecapsResponse \<lparr>ss_algorithm = x25519_kem, ss_secret = pt\<rparr>"
  have ok: "response_rules (?resp pt)" for pt by simp
  have opened: "(\<exists>t. or_respond (on_ws (wskcc_Open E b e c' ?aad)) httpStatusFromError (\<lambda>pt. writeJSON G (?resp pt) 200) s' = (Ok (Response c out), t))
      \<longleftrightarrow> (\<exists>pt w. wskcc_Open E b e c' ?aad (ws_core s') = (Ok pt, w) \<and> c = 200 \<and> protojson_Marshal G (?resp pt) = Some out)" for e c' s'
    by (simp only: or_respond_Response on_core_Ok writeJSON_Response [OF ok]) blast
  show ?thesis
    unfolding decap_calls_def Let_def or_respond_Response via on_core_Ok via_Ok_iff unseals_def
    by (simp only: split_paired_Ex case_prod_conv opened) auto
qed

lemma handleDecaps_Response:
  assumes "libs_spec E G" and "hkdf_spec E" and ready: "wsd_ready E s"
    and agree: "\<And>u enc b kr br. asks_decap G body u enc \<Longrightarrow> kemToBindingMap s u = Some b \<Longrightarrow>
      live_pair (kps_core s) (ws_core s) u b kr br \<Longrightarrow> bound_records kr br"
    and "real_fate fate"
  shows "(\<exists>s'. handleDecaps E G fate body s = (Ok (Response c out), s')) \<longleftrightarrow>
     c = 200 \<and> (keyProtectionService s = InProcess \<or> fate = Delivered)
   \<and> (\<exists>u enc b kr br ss. asks_decap G body u enc \<and> kemToBindingMap s u = Some b
        \<and> live_pair (kps_core s) (ws_core s) u b kr br
        \<and> decaps E (get_private_key kr) enc (kps_core s) = (Ok ss, kps_core s)
        \<and> protojson_Marshal G (DecapsResponse \<lparr>ss_algorithm = x25519_kem, ss_secret = as_slice ss\<rparr>) = Some out)"
proof -
  have libs: "go_libs_spec E G" "json_spec G" using assms(1) by (simp_all add: libs_spec_def)
  have asked: "(\<exists>s'. handleDecaps E G fate body s = (Ok (Response c out), s')) \<longleftrightarrow>
      c = 200 \<and> (keyProtectionService s = InProcess \<or> fate = Delivered)
      \<and> (\<exists>kr br ss. live_pair (kps_core s) (ws_core s) u b kr br
        \<and> decaps E (get_private_key kr) enc (kps_core s) = (Ok ss, kps_core s)
        \<and> protojson_Marshal G (DecapsResponse \<lparr>ss_algorithm = x25519_kem, ss_secret = as_slice ss\<rparr>) = Some out)"
    if asks: "asks_decap G body u enc" and b: "kemToBindingMap s u = Some b" for u enc b
  proof -
    have lens: "length (as_bytes u) = 16" "length (as_bytes b) = 16" and cores: "kps_ready E (kps_core s)" "ws_ready E (ws_core s)"
      using ready b by (auto simp: wsd_ready_def)
    have aad: "length (decapsAADContext G u x25519_kem) < 2 ^ 63" using length_aad [OF libs(1), of u] by simp
    note enc = asks_decap_length [OF libs(2) asks]
    have uns: "unseals E u b enc (decapsAADContext G u x25519_kem) (kps_core s) (ws_core s) pt \<longleftrightarrow>
        (\<exists>kr br ss. live_pair (kps_core s) (ws_core s) u b kr br \<and> decaps E (get_private_key kr) enc (kps_core s) = (Ok ss, kps_core s)
           \<and> pt = as_slice ss)" for pt
      by (rule unseals_iff [OF cores assms(2) lens conjunct1 [OF enc] conjunct2 [OF enc] aad]) (rule agree [OF asks b])
    show ?thesis
      unfolding handleDecaps_asked [OF asks] b option.case decap_calls_Response [OF libs(1) assms(5) lens(1)] uns by blast
  qed
  have unasked: "handleDecaps E G fate body s \<noteq> (Ok (Response c out), s')" if "\<nexists>u enc b. asks_decap G body u enc \<and> kemToBindingMap s u = Some b" for s'
  proof (cases "\<exists>u enc. asks_decap G body u enc")
    case True
    then obtain u enc where "asks_decap G body u enc" by blast
    with that show ?thesis by (cases "kemToBindingMap s u") (auto simp: handleDecaps_asked)
  qed (simp add: handleDecaps_not_asked)
  have unique: "u' = u \<and> enc' = enc" if "asks_decap G body u enc" "asks_decap G body u' enc'" for u enc u' enc'
    using that by (auto simp: asks_decap_def)
  show ?thesis
  proof (cases "\<exists>u enc b. asks_decap G body u enc \<and> kemToBindingMap s u = Some b")
    case True
    then obtain u enc b where asks: "asks_decap G body u enc" and b: "kemToBindingMap s u = Some b" by blast
    show ?thesis
      unfolding asked [OF asks b] using unique [OF asks] asks b by (metis option.inject)
  qed (use unasked in blast)
qed

lemma handleDecaps_delivers:
  assumes "libs_spec E G" and "hkdf_spec E" and "wsd_ready E s" and "real_fate fate" and "keyProtectionService s = InProcess \<or> fate = Delivered"
    and asks: "asks_decap G body u enc" and b: "kemToBindingMap s u = Some b"
    and live: "live_pair (kps_core s) (ws_core s) u b kr br" and "bound_records kr br"
    and "decaps E (get_private_key kr) enc (kps_core s) = (Ok ss, kps_core s)"
    and "protojson_Marshal G (DecapsResponse \<lparr>ss_algorithm = x25519_kem, ss_secret = as_slice ss\<rparr>) = Some out"
  shows "\<exists>s'. handleDecaps E G fate body s = (Ok (Response 200 out), s')"
proof (rule iffD2 [OF handleDecaps_Response [OF assms(1-3) _ assms(4)]])
  fix u' enc' b' kr' br' assume "asks_decap G body u' enc'" "kemToBindingMap s u' = Some b'" "live_pair (kps_core s) (ws_core s) u' b' kr' br'"
  moreover from this have "u' = u" using asks by (auto simp: asks_decap_def)
  ultimately show "bound_records kr' br'" using b live assms(9) by (simp add: live_pair_def)
qed (use assms in blast)

section \<open>Destroying a key\<close>

definition asks_destroy :: "http_env \<Rightarrow> bytes option \<Rightarrow> uuid \<Rightarrow> bool" where
  "asks_destroy G body u \<longleftrightarrow> (\<exists>bs h. body = Some bs \<and> unmarshal_DestroyRequest G bs = Some \<lparr>de_key_handle = Some h\<rparr> \<and> uuid_Parse G h = Some u)"

lemma via_destroy:
  assumes "kps_ready E k" and "length (as_bytes u) = 16"
  obtains r k' where "via impl fate (kpskcc_DestroyKEMKey E u) k = (r, k')"
    and "r = Ok () \<and> (impl = InProcess \<or> fate = Delivered) \<and> contents k u \<noteq> None
       \<or> (\<exists>e. r = Err e) \<and> \<not> ((impl = InProcess \<or> fate = Delivered) \<and> contents k u \<noteq> None)"
    and "contents k' = (if impl = Remote \<and> (\<exists>c. fate = RequestLost c) then contents k else (contents k)(u := None))"
proof -
  obtain k' where run: "kpskcc_DestroyKEMKey E u k = (if contents k u = None then ffi_err NotFound else Ok (), k')"
    and k': "contents k' = (contents k)(u := None)"
    by (rule kpskcc_DestroyKEMKey_run [OF assms])
  show thesis
    by (rule that [OF surjective_pairing])
      (cases impl; cases fate; cases "contents k u"; simp add: via_def via_rpc_def run k')+
qed

lemma handleDestroy_run:
  assumes "wsd_ready E s" and libs: "go_libs_spec E G" and "real_fate fate" and "asks_destroy G body u" and b: "kemToBindingMap s u = Some b"
  obtains resp s' where "handleDestroy E G fate body s = (Ok resp, s')"
    and "kemToBindingMap s' = (kemToBindingMap s)(u := None)" and "contents (ws_core s') = (contents (ws_core s))(b := None)"
    and "contents (kps_core s') = (if keyProtectionService s = Remote \<and> (\<exists>c. fate = RequestLost c) then contents (kps_core s)
       else (contents (kps_core s))(u := None))"
    and "resp = EmptyResponse 204 \<longleftrightarrow> (keyProtectionService s = InProcess \<or> fate = Delivered)
       \<and> contents (kps_core s) u \<noteq> None \<and> contents (ws_core s) b \<noteq> None"
proof -
  have lens: "length (as_bytes u) = 16" "length (as_bytes b) = 16" and ready: "kps_ready E (kps_core s)" "ws_ready E (ws_core s)"
    using assms(1) b by (auto simp: wsd_ready_def)
  obtain r k where k: "via (keyProtectionService s) fate (kpskcc_DestroyKEMKey E u) (kps_core s) = (r, k)"
    and r: "r = Ok () \<and> (keyProtectionService s = InProcess \<or> fate = Delivered) \<and> contents (kps_core s) u \<noteq> None
       \<or> (\<exists>e. r = Err e) \<and> \<not> ((keyProtectionService s = InProcess \<or> fate = Delivered) \<and> contents (kps_core s) u \<noteq> None)"
    and ck: "contents k = (if keyProtectionService s = Remote \<and> (\<exists>c. fate = RequestLost c) then contents (kps_core s) else (contents (kps_core s))(u := None))"
    by (rule via_destroy [OF ready(1) lens(1)])
  obtain w where w: "wskcc_DestroyBindingKey E b (ws_core s) = (if contents (ws_core s) b = None then ffi_err NotFound else Ok (), w)"
    and cw: "contents w = (contents (ws_core s))(b := None)"
    by (rule wskcc_DestroyBindingKey_run [OF ready(2) lens(2)])
  have service: "by_service (kpskcc_DestroyKEMKey E u) (remote_DestroyKEMKey E G fate u) s = (r, s\<lparr>kps_core := k\<rparr>)"
    using by_service_via [of "remote_DestroyKEMKey E G fate u" s fate "kpskcc_DestroyKEMKey E u"] remote_DestroyKEMKey_via [OF libs assms(3) lens(1)] k
    by (simp add: on_kps_def)
  obtain bs h where body: "body = Some bs" "unmarshal_DestroyRequest G bs = Some \<lparr>de_key_handle = Some h\<rparr>" "uuid_Parse G h = Some u"
    using assms(4) by (auto simp: asks_destroy_def)
  define errKps where "errKps = (case r of Err e \<Rightarrow> Some e | _ \<Rightarrow> None)"
  define errWs where "errWs = (if contents (ws_core s) b = None then Some (FFIStatus (status_as_i32 NotFound)) else None)"
  let ?s' = "s\<lparr>kps_core := k, ws_core := w, kemToBindingMap := (kemToBindingMap s)(u := None)\<rparr>"
  have "attempt (by_service (kpskcc_DestroyKEMKey E u) (remote_DestroyKEMKey E G fate u)) s = (Ok errKps, s\<lparr>kps_core := k\<rparr>)"
    using service r by (auto simp: attempt_def errKps_def)
  moreover have "attempt (on_ws (wskcc_DestroyBindingKey E b)) (s\<lparr>kps_core := k\<rparr>) = (Ok errWs, s\<lparr>kps_core := k, ws_core := w\<rparr>)"
    using w by (simp add: attempt_def errWs_def on_ws_def)
  ultimately have "handleDestroy E G fate body s = (Ok (case errors_Join [errKps, errWs] of Some err \<Rightarrow> ErrorResponse (httpStatusFromError err)
      | None \<Rightarrow> EmptyResponse 204), ?s')"
    using b body by (cases "errors_Join [errKps, errWs]") (simp_all add: handleDestroy_def or_respond_def readRequest_def DestroyRequest_rules_def
        ok_orM_def bindM_def returnM_def deref_def LookupBindingUUID_def map_delete_def updateM_def writeError_def)
  then show thesis
    by (rule that) (use ck cw r in \<open>auto simp: errors_Join_def errKps_def errWs_def split: outcome.splits\<close>)
qed

section \<open>Keys that can be made\<close>

text \<open>What a new key takes: memory for its secret, and an expiry in the range of the clock.\<close>

definition can_generate :: "('s, 'r, 'p) env \<Rightarrow> u64 \<Rightarrow> 'e world \<Rightarrow> bool" where
  "can_generate E l w \<longleftrightarrow> vault_granted E (syscalls w) 32
     \<and> (clock w (ticks w) + Duration_from_secs l) div nanos_per_sec \<le> i64_max"

lemma x25519_suite_supported: "host_spec E \<Longrightarrow> suite_supported E x25519_suite"
  by (simp add: host_spec_def crates_spec_def prost_spec_def suite_supported_def x25519_suite_def)

lemma usable_syscalls: "threads_granted E \<Longrightarrow> usable E w \<Longrightarrow> usable E (w\<lparr>syscalls := n\<rparr>)"
  by (simp add: usable_def threads_granted_def split: lazy_registry.splits)

lemma wskcc_GenerateBindingKeypair_total:
  assumes "ws_ready E w" and "go_libs_spec E G" and "can_generate E l w"
  shows "\<exists>h pk w'. wskcc_GenerateBindingKeypair E G (Some x25519_suite) l w = (Ok (h, pk), w')
     \<and> made_key E x25519_suite l Binding h pk w w'"
proof -
  have host: "host_spec E" using assms(1) by (simp add: ws_ready_def)
  note crates = host_specD(1) [OF host, unfolded crates_spec_def]
  obtain bs where bs: "proto_Marshal G (Some x25519_suite) = Some bs" "bs \<noteq> []" "length bs \<le> 33" "HpkeAlgorithm_decode E bs = Some x25519_suite"
    using marshal [OF assms(2) x25519_suite_not_empty] by blast
  have len: "unat (size_t bs) = length bs"
    using bs(3) by (intro unat_size_t) simp
  let ?F = "[10 \<mapsto> Bytes bs, 20 \<mapsto> Bytes (replicate 16 0), 30 \<mapsto> Bytes (replicate 32 0)] :: ptr \<rightharpoonup> WsKeyInfo obj"
  note ready = readyD(1) [of E "w\<lparr>mem := ?F\<rparr>"]
  obtain v where body: "generate_binding_keypair_body E 10 (size_t bs) l 20 30 32 (w\<lparr>mem := ?F\<rparr>) = (Ok (), v)"
    using generate_binding_keypair_body_run [of E "ws_record E" "w\<lparr>mem := ?F\<rparr>" 10 "size_t bs" 20 30 32 x25519_suite l] crates ready
      assms(1,3) x25519_suite_supported [OF host] host_specD(2,3) [OF host] bs len
      usable_syscalls [OF host_specD(3) [OF host], of "w\<lparr>mem := ?F\<rparr>" "syscalls w + 3"]
    by (auto simp: can_generate_def generate_binding_present_def generate_binding_safe_def is_null_def size_t_0)
  have "\<nexists>rc w'. wskcc_GenerateBindingKeypair E G (Some x25519_suite) l w = (ffi_err rc, w')"
    using bs(1,2) cgo_Ok [of "generate_binding_keypair_body E 10 (size_t bs) l 20 30 32" ?F w "()" v, OF body]
    by (auto simp: wskcc_GenerateBindingKeypair_def key_manager_generate_binding_keypair_def ok_orM_def bindM_def returnM_def go_slice_to_def
        panicM_def errM_def split: option.splits)
  then show ?thesis
    by (metis wskcc_GenerateBindingKeypair_run [OF assms(1,2) x25519_suite_not_empty])
qed

lemma kpskcc_GenerateKEMKeypair_total:
  assumes "kps_ready E w" and "go_libs_spec E G" and "can_generate E l w" and "length bpk = 32"
  shows "\<exists>h pk w'. kpskcc_GenerateKEMKeypair E G (Some x25519_suite) bpk l w = (Ok (h, pk), w')
     \<and> made_key E x25519_suite l (bound_to bpk) h pk w w'"
proof -
  have host: "host_spec E" using assms(1) by (simp add: kps_ready_def)
  note crates = host_specD(1) [OF host, unfolded crates_spec_def]
  obtain bs where bs: "proto_Marshal G (Some x25519_suite) = Some bs" "bs \<noteq> []" "length bs \<le> 33" "HpkeAlgorithm_decode E bs = Some x25519_suite"
    using marshal [OF assms(2) x25519_suite_not_empty] by blast
  have len: "unat (size_t bs) = length bs" "unat (size_t bpk) = length bpk" and ne: "bpk \<noteq> []"
    using bs(3) assms(4) by (auto simp: unat_size_t)
  let ?F = "[10 \<mapsto> Bytes bs, 20 \<mapsto> Bytes bpk, 30 \<mapsto> Bytes (replicate 16 0), 40 \<mapsto> Bytes (replicate 32 0)] :: ptr \<rightharpoonup> KpsKeyInfo obj"
  note ready = readyD(2) [of E "w\<lparr>mem := ?F\<rparr>"]
  obtain v where body: "generate_kem_keypair_body E 10 (size_t bs) 20 (size_t bpk) l 30 40 32 (w\<lparr>mem := ?F\<rparr>) = (Ok (), v)"
    using generate_kem_keypair_body_run [of E "kps_record E" "w\<lparr>mem := ?F\<rparr>" 10 "size_t bs" 20 "size_t bpk" 30 40 32 x25519_suite l] crates ready
      assms(1,3,4) x25519_suite_supported [OF host] host_specD(2,3) [OF host] bs len ne
      usable_syscalls [OF host_specD(3) [OF host], of "w\<lparr>mem := ?F\<rparr>" "syscalls w + 3"]
    by (auto simp: can_generate_def generate_kem_present_def generate_kem_safe_def is_null_def size_t_0)
  have "\<nexists>rc w'. kpskcc_GenerateKEMKeypair E G (Some x25519_suite) bpk l w = (ffi_err rc, w')"
    using bs(1,2) ne cgo_Ok [of "generate_kem_keypair_body E 10 (size_t bs) 20 (size_t bpk) l 30 40 32" ?F w "()" v, OF body]
    by (auto simp: kpskcc_GenerateKEMKeypair_def key_manager_generate_kem_keypair_def ok_orM_def bindM_def returnM_def go_slice_to_def
        panicM_def errM_def split: option.splits)
  moreover have "length bpk < 2 ^ 63" using assms(4) by simp
  ultimately show ?thesis
    by (metis kpskcc_GenerateKEMKeypair_run [OF assms(1,2) x25519_suite_not_empty ne])
qed

lemma handleGenerateKey_total:
  assumes ready: "wsd_ready E s" and libs: "go_libs_spec E G" and fate: "real_fate fate"
    and "keyProtectionService s = InProcess \<or> fate = Delivered"
    and req: "unmarshal_GenerateKeyRequest G bs = Some \<lparr>gk_algorithm = Some details, gk_lifespan = l\<rparr>" "0 < l" "l \<le> 9223372036854775807"
    and kem: "algorithm_type details = ''kem''" "IsSupportedKemAlgorithm (GetKemId details)"
    and can: "can_generate E l (ws_core s)" "can_generate E l (kps_core s)"
  obtains b bpk w1 k kpk k1 where "made_key E x25519_suite l Binding b bpk (ws_core s) w1"
    and "made_key E x25519_suite l (bound_to bpk) k kpk (kps_core s) k1"
    and "handleGenerateKey E G fate now (Some bs) s = writeJSON G (GenerateKeyResponse (generated_key G s now details l k kpk)) 200
      (s\<lparr>ws_core := w1, kps_core := k1, kemToBindingMap := (kemToBindingMap s)(k \<mapsto> b)\<rparr>)"
proof -
  have ws: "ws_ready E (ws_core s)" and kps: "kps_ready E (kps_core s)" and host: "host_spec E"
    using ready by (auto simp: wsd_ready_def ws_ready_def)
  obtain b bpk w1 where gen: "wskcc_GenerateBindingKeypair E G (Some x25519_suite) l (ws_core s) = (Ok (b, bpk), w1)"
    and binding: "made_key E x25519_suite l Binding b bpk (ws_core s) w1"
    using wskcc_GenerateBindingKeypair_total [OF ws libs can(1)] by blast
  note len = made_key_lengths(2) [OF host binding]
  let ?m = "kpskcc_GenerateKEMKeypair E G (Some x25519_suite) bpk l" and ?s1 = "s\<lparr>ws_core := w1\<rparr>"
  obtain k kpk k1 where "?m (kps_core s) = (Ok (k, kpk), k1)" and made: "made_key E x25519_suite l (bound_to bpk) k kpk (kps_core s) k1"
    using kpskcc_GenerateKEMKeypair_total [OF kps libs can(2) len] by blast
  then have ok: "by_service ?m (remote_GenerateKEMKeypair E G fate x25519_suite bpk l) ?s1 = (Ok (k, kpk), ?s1\<lparr>kps_core := k1\<rparr>)"
    using by_service_generate [OF libs fate, of ?s1 bpk l] via_delivered [OF assms(4), of ?m "kps_core s"] kps len
    by (simp add: on_kps_def)
  have "handleGenerateKey E G fate now (Some bs) s = generateKEMKey E G fate now details l s"
    using req kem(1) by (simp add: handleGenerateKey_def or_respond_def readRequest_def GenerateKeyRequest_rules_def ok_orM_def bindM_def
        returnM_def deref_def)
  also have "\<dots> = writeJSON G (GenerateKeyResponse (generated_key G s now details l k kpk)) 200
      (s\<lparr>ws_core := w1, kps_core := k1, kemToBindingMap := (kemToBindingMap s)(k \<mapsto> b)\<rparr>)"
    using kem(2) gen ok by (simp add: generateKEMKey_def KemToHpke_supported or_respond_def returnM_def on_ws_def
        map_store_def updateM_def bindM_def field_def generated_key_def)
  finally show thesis
    by (rule that [OF binding made])
qed

text \<open>A new pair is live as long as its lifespan is not over.\<close>

lemma made_key_live:
  assumes "made_key E algo l mk h pk w w'" and "clock w (Suc (ticks w)) < clock w (ticks w) + Duration_from_secs l"
  obtains rec where "unexpired (clock w' (ticks w')) (contents w' h) = Some rec" and "spec (meta rec) = mk algo (fst (key_pair E (draws w)))"
    and "get_private_key rec = snd (key_pair E (draws w))"
  using assms by (auto simp: made_key_def new_metadata_def)

end
