(* ===== verification/Server_States.thy ===== *)
theory Server_States
  imports Delivery Heartbeat
begin

text \<open>
  The states of the workload service daemon. A system step is a request that is served, a call for key claims, a heartbeat, a step
  of a custody core, or a restart of the key protection service. All of them are moves, so the keys that the map pairs belong
  together in every state, and every request is answered.
\<close>

section \<open>System steps\<close>

text \<open>A listing is answered as long as the keys can be counted in 64 bits.\<close>

definition listable :: "http_request \<Rightarrow> wsd \<Rightarrow> bool" where
  "listable req s \<longleftrightarrow> (case req of GetKeys _ \<Rightarrow> addressable (kps_core s) | _ \<Rightarrow> True)"

inductive wsd_step :: "('s, 'r, 'p) env \<Rightarrow> http_env \<Rightarrow> wsd \<Rightarrow> wsd \<Rightarrow> bool" for E G where
  step_http: "real_fate fate \<Longrightarrow> listable req s \<Longrightarrow> serve E G fate req s = (r, s') \<Longrightarrow> wsd_step E G s s'"
| step_claims: "real_fate fate \<Longrightarrow> GetKeyClaims E G fate now creq s = (c, s') \<Longrightarrow> wsd_step E G s s'"
| step_heartbeat: "performHeartbeat E reply cancelled s = Some (waits, u, s') \<Longrightarrow> wsd_step E G s s'"
| step_ws: "ws_step E (ws_core s) w \<Longrightarrow> wsd_step E G s (s\<lparr>ws_core := w\<rparr>)"
| step_kps: "kps_step E (kps_core s) k \<Longrightarrow> wsd_step E G s (s\<lparr>kps_core := k\<rparr>)"
| step_kps_restart: "kps_ready E k \<Longrightarrow> contents k = Map.empty \<Longrightarrow> draws (kps_core s) \<le> draws k \<Longrightarrow> wsd_step E G s (s\<lparr>kps_core := k\<rparr>)"

section \<open>Requests\<close>

lemma handleEnumerateKeys_moves:
  assumes "wsd_ready E s" and "go_libs_spec E G" and "real_fate fate" and "addressable (kps_core s)"
    and "handleEnumerateKeys E G fate now s = (r, s')"
  shows "(wsd_move E)\<^sup>*\<^sup>* s s' \<and> (\<exists>resp. r = Ok resp)"
  by (rule handleEnumerateKeys_run [OF assms(1-4), of now])
    (use assms(5) in \<open>auto simp: writeJSON_def writeError_def returnM_def intro!: kps_moves split: if_splits option.splits\<close>)

lemma serve_moves:
  assumes "wsd_ready E s" and "libs_spec E G" and "real_fate fate" and "listable req s" and "serve E G fate req s = (r, s')"
  shows "(wsd_move E)\<^sup>*\<^sup>* s s' \<and> r \<noteq> Panicked \<and> r \<noteq> Undefined"
proof -
  have libs: "go_libs_spec E G" using assms(2) by (simp add: libs_spec_def)
  show ?thesis
  proof (cases req)
    case (PostGenerateKey now body)
    then show ?thesis
      using goesD [OF goes_handleGenerateKey [OF libs assms(3)] assms(1)] assms(5) by simp
  next
    case (PostDecap body)
    then show ?thesis
      using goesD [OF goes_handleDecaps [OF assms(2,3)] assms(1)] assms(5) by simp
  next
    case (PostDestroy body)
    then show ?thesis
      using goesD [OF goes_handleDestroy [OF libs assms(3)] assms(1)] assms(5) by simp
  next
    case (GetKeys now)
    then show ?thesis
      using handleEnumerateKeys_moves [OF assms(1) libs assms(3)] assms(4,5) by (fastforce simp: listable_def)
  next
    case GetCapabilities
    then show ?thesis
      using assms(5) by (auto simp: handleGetCapabilities_def writeJSON_def writeError_def returnM_def split: option.splits if_splits)
  qed
qed

text \<open>A handler writes a response whatever happens: it has no error of its own.\<close>

definition responds :: "(go_error, wsd, 'a) rust \<Rightarrow> bool" where
  "responds m \<longleftrightarrow> (\<forall>s e t. m s \<noteq> (Err e, t))"

lemma responds_basic:
  "responds (writeError c)" "responds (writeJSON G v c)" "responds (returnM a)" "responds (updateM f)" "responds (field g)"
  "responds (LookupBindingUUID u)" "responds (attempt m)" "responds (deref p)" "responds (map_store k b)" "responds (map_delete k)"
  by (auto simp: responds_def writeError_def writeJSON_def returnM_def updateM_def field_def LookupBindingUUID_def attempt_def deref_def
      panicM_def map_store_def map_delete_def split: option.splits if_splits prod.splits outcome.splits)

lemma responds_or_respond: "(\<And>a. responds (f a)) \<Longrightarrow> responds (or_respond m bad f)"
  by (auto simp: responds_def or_respond_def writeError_def returnM_def split: prod.splits outcome.splits)

lemma responds_bindM: "responds m \<Longrightarrow> (\<And>a. responds (f a)) \<Longrightarrow> responds (bindM m f)"
  by (auto simp: responds_def bindM_def split: prod.splits outcome.splits)

lemma responds_serve: "responds (serve E G fate req)"
  by (cases req) (auto simp: handleDecaps_def handleGenerateKey_def generateKEMKey_def handleGetCapabilities_def handleEnumerateKeys_def
      handleDestroy_def Let_def intro!: responds_or_respond responds_bindM responds_basic split: option.splits prod.splits)

text \<open>The statuses a handler answers with.\<close>

definition http_statuses :: "nat set" where
  "http_statuses = {200, 204, 400, 401, 403, 404, 409, 500}"

definition in_range :: "(go_error, wsd, http_response) rust \<Rightarrow> bool" where
  "in_range m \<longleftrightarrow> (\<forall>s r t. m s = (Ok r, t) \<longrightarrow> http_status r \<in> http_statuses)"

lemma httpStatusFromError_range: "httpStatusFromError e \<in> http_statuses"
  by (simp add: httpStatusFromError_def http_statuses_def)

lemma in_range_basic:
  "c \<in> http_statuses \<Longrightarrow> in_range (writeError c)" "c \<in> http_statuses \<Longrightarrow> in_range (writeJSON G v c)"
  "http_status r \<in> http_statuses \<Longrightarrow> in_range (returnM r)"
  by (auto simp: in_range_def writeError_def writeJSON_def returnM_def http_statuses_def split: option.splits if_splits)

lemma in_range_or_respond: "(\<And>e. bad e \<in> http_statuses) \<Longrightarrow> (\<And>a. in_range (f a)) \<Longrightarrow> in_range (or_respond m bad f)"
  by (auto simp: in_range_def or_respond_def writeError_def returnM_def split: prod.splits outcome.splits)

lemma in_range_bindM: "(\<And>a. in_range (f a)) \<Longrightarrow> in_range (bindM m f)"
  by (auto simp: in_range_def bindM_def split: prod.splits outcome.splits)

lemma http_statuses_used [simp]: "200 \<in> http_statuses" "204 \<in> http_statuses" "400 \<in> http_statuses" "404 \<in> http_statuses"
  by (simp_all add: http_statuses_def)

lemma in_range_serve: "in_range (serve E G fate req)"
  by (cases req) (auto simp: handleDecaps_def handleGenerateKey_def generateKEMKey_def handleGetCapabilities_def handleEnumerateKeys_def
      handleDestroy_def Let_def intro!: in_range_or_respond in_range_bindM in_range_basic httpStatusFromError_range split: option.splits prod.splits)

section \<open>Steps are moves\<close>

lemma handshake_run:
  assumes "wsd_ready E s" and "handshake E token s = (r, s')"
  shows "(wsd_move E)\<^sup>*\<^sup>* s s'"
proof -
  have "goes (wsd_move E) (wsd_ready E) (bindM (if cachedToken s \<noteq> [] \<and> cachedToken s \<noteq> token then cleanupState E else returnM ())
      (\<lambda>_. updateM (\<lambda>s. s\<lparr>cachedToken := token\<rparr>))) (\<lambda>_. True)"
    by (rule wsd_go.goes_bindM [of E _ "\<lambda>_. True"])
      (auto intro!: goes_cleanupState goes_basic(1) wsd_go.goes_step move_token)
  from goesD(1) [OF this assms(1)] assms(2) show ?thesis
    by (simp add: handshake_def)
qed

lemma heartbeat_loop_moves:
  assumes "heartbeat_loop E reply cancelled maxB backoff n s = Some (waits, r, s')" and "wsd_ready E s"
  shows "(wsd_move E)\<^sup>*\<^sup>* s s'"
  using assms(1)
proof (induction waits arbitrary: backoff n)
  case Nil
  then show ?case
    using handshake_run [OF assms(2)] goesD(1) [OF goes_cleanupState assms(2)]
    by (cases "reply n"; cases "cancelled n"; cases "maxB \<le>s backoff")
      (auto simp: heartbeat_answered heartbeat_cancelled heartbeat_exhausted heartbeat_again)
next
  case (Cons a waits)
  then show ?case
    using handshake_run [OF assms(2)] goesD(1) [OF goes_cleanupState assms(2)]
    by (cases "reply n"; cases "cancelled n"; cases "maxB \<le>s backoff")
      (auto simp: heartbeat_answered heartbeat_cancelled heartbeat_exhausted heartbeat_again)
qed

lemma wsd_step_moves:
  assumes "wsd_step E G s s'" and "libs_spec E G" and "wsd_ready E s"
  shows "(wsd_move E)\<^sup>*\<^sup>* s s'"
  using assms(1)
proof (cases rule: wsd_step.cases)
  case (step_http fate req r)
  then show ?thesis
    using serve_moves [OF assms(3,2) step_http(1,2)] by blast
next
  case (step_claims fate now creq c)
  then show ?thesis
    using goesD(1) [OF goes_GetKeyClaims assms(3)] assms(2) by (auto simp: libs_spec_def)
next
  case (step_heartbeat reply cancelled waits u)
  then show ?thesis
    using heartbeat_loop_moves [OF _ assms(3)] by (simp add: performHeartbeat_def)
qed (auto intro: wsd_move.intros)

lemma wsd_steps_moves:
  assumes "(wsd_step E G)\<^sup>*\<^sup>* s s'" and "libs_spec E G" and "wsd_ready E s"
  shows "(wsd_move E)\<^sup>*\<^sup>* s s'"
  using assms
proof (induction rule: rtranclp_induct)
  case (step t u)
  then show ?case
    using wsd_step_moves [of E G t u] wsd_go.keep_steps [of E s t] by (meson rtranclp_trans)
qed simp

text \<open>The states a new server can reach.\<close>

lemma New_ready:
  assumes "New m ip w k = Inr s" and "ws_ready E w" and "kps_ready E k"
  shows "wsd_ready E s" and "bindings_agree E s"
  using assms by (auto simp: New_def NewServer_def wsd_ready_def bindings_agree_def split: KeyProtectionMechanism.splits if_splits)

lemma wsd_reachable:
  assumes "libs_spec E G" and "New m ip w k = Inr s0" and "ws_ready E w" and "kps_ready E k" and "(wsd_step E G)\<^sup>*\<^sup>* s0 s"
  shows "wsd_ready E s" and "distinct_handles E s \<Longrightarrow> bindings_agree E s"
  using New_ready [OF assms(2-4)] wsd_steps_moves [OF assms(5,1)] wsd_go.keep_steps wsd_moves_bindings by blast+

section \<open>One answer for both services\<close>

abbreviation (input) remotely :: "wsd \<Rightarrow> wsd" where
  "remotely s \<equiv> s\<lparr>keyProtectionService := Remote\<rparr>"

text \<open>A computation that answers the same when the key protection service is remote and its calls are delivered.\<close>

definition same :: "('s, 'r, 'p) env \<Rightarrow> (go_error, wsd, 'a) rust \<Rightarrow> bool" where
  "same E m \<longleftrightarrow> (\<forall>s r t. wsd_ready E s \<longrightarrow> keyProtectionService s = InProcess \<longrightarrow> m s = (r, t) \<longrightarrow>
     m (remotely s) = (r, remotely t) \<and> keyProtectionService t = InProcess)"

lemma sameD:
  assumes "same E m" and "wsd_ready E s" and "keyProtectionService s = InProcess" and "m s = (r, t)"
  shows "m (remotely s) = (r, remotely t) \<and> keyProtectionService t = InProcess"
  using assms unfolding same_def by blast

lemma same_basic:
  "same E (writeError c)" "same E (writeJSON G v c)" "same E (returnM a)" "same E (field mechanism)"
  "same E (LookupBindingUUID u)" "same E (deref p)" "same E (map_store u b)" "same E (map_delete u)"
  "same E (ok_orM x e)" "same E (readRequest d valid body)" "same E (on_ws m)" "same E (attempt (on_ws m'))"
  by (auto simp: same_def writeError_def writeJSON_def returnM_def updateM_def field_def LookupBindingUUID_def deref_def
      panicM_def map_store_def map_delete_def ok_orM_def errM_def readRequest_def bindM_def on_ws_def attempt_def
      split: option.splits if_splits prod.splits outcome.splits)

lemma same_or_respond:
  assumes "same E m" and "goes (wsd_move E) (wsd_ready E) m R" and "\<And>a. R a \<Longrightarrow> same E (f a)"
  shows "same E (or_respond m bad f)"
  unfolding same_def
proof (intro allI impI)
  fix s r t assume s: "wsd_ready E s" "keyProtectionService s = InProcess" and run: "or_respond m bad f s = (r, t)"
  obtain x u where m: "m s = (x, u)" by fastforce
  have u: "m (remotely s) = (x, remotely u)" "keyProtectionService u = InProcess"
    using assms(1) s m by (auto simp: same_def)
  have "wsd_ready E u"
    using goesD(1) [OF assms(2) s(1) m] wsd_go.keep_steps s(1) by blast
  then show "or_respond m bad f (remotely s) = (r, remotely t) \<and> keyProtectionService t = InProcess"
    using run m u assms(3) [OF goesD(4) [OF assms(2) s(1) m]]
    by (cases x) (auto simp: or_respond_def writeError_def returnM_def same_def)
qed

lemma same_bindM:
  assumes "same E m" and "goes (wsd_move E) (wsd_ready E) m R" and "\<And>a. R a \<Longrightarrow> same E (f a)"
  shows "same E (bindM m f)"
  unfolding same_def
proof (intro allI impI)
  fix s r t assume s: "wsd_ready E s" "keyProtectionService s = InProcess" and run: "bindM m f s = (r, t)"
  obtain x u where m: "m s = (x, u)" by fastforce
  have u: "m (remotely s) = (x, remotely u)" "keyProtectionService u = InProcess"
    using assms(1) s m by (auto simp: same_def)
  have "wsd_ready E u"
    using goesD(1) [OF assms(2) s(1) m] wsd_go.keep_steps s(1) by blast
  then show "bindM m f (remotely s) = (r, remotely t) \<and> keyProtectionService t = InProcess"
    using run m u assms(3) [OF goesD(4) [OF assms(2) s(1) m]]
    by (cases x) (auto simp: bindM_def same_def)
qed

text \<open>A call of the service: its errors lose their detail, and keep their HTTP status.\<close>

lemma same_service:
  assumes here: "goes (kps_step E) (kps_ready E) here R" and there: "\<And>k. kps_ready E k \<Longrightarrow> there k = via_rpc Delivered here k"
    and errors: "\<And>k e k'. kps_ready E k \<Longrightarrow> here k = (Err e, k') \<Longrightarrow> \<exists>c. e = FFIStatus c"
    and f: "\<And>a. R a \<Longrightarrow> same E (f a)"
  shows "same E (or_respond (by_service here there) httpStatusFromError f)"
  unfolding same_def
proof (intro allI impI)
  fix s r t assume s: "wsd_ready E s" "keyProtectionService s = InProcess"
    and run: "or_respond (by_service here there) httpStatusFromError f s = (r, t)"
  have k: "kps_ready E (kps_core s)" using s by (simp add: wsd_ready_def)
  obtain x k' where m: "here (kps_core s) = (x, k')" by fastforce
  note steps = goesD [OF here k m]
  have u: "wsd_ready E (s\<lparr>kps_core := k'\<rparr>)"
    using wsd_go.keep_steps [OF kps_moves [OF steps(1)] s(1)] .
  show "or_respond (by_service here there) httpStatusFromError f (remotely s) = (r, remotely t) \<and> keyProtectionService t = InProcess"
  proof (cases x)
    case (Ok a)
    then have "f a (s\<lparr>kps_core := k'\<rparr>) = (r, t)"
      using run s m by (simp add: or_respond_def by_service_def on_kps_def)
    from this have "f a (remotely (s\<lparr>kps_core := k'\<rparr>)) = (r, remotely t) \<and> keyProtectionService t = InProcess"
      using sameD [OF f [OF steps(4) [OF Ok]] u] s(2) by simp
    moreover have "remotely (s\<lparr>kps_core := k'\<rparr>) = (remotely s)\<lparr>kps_core := k'\<rparr>"
      by simp
    moreover have "by_service here there (remotely s) = (Ok a, (remotely s)\<lparr>kps_core := k'\<rparr>)"
      using m Ok there [OF k] by (simp add: by_service_def on_kps_def via_rpc_def)
    ultimately show ?thesis
      by (simp add: or_respond_def)
  next
    case (Err e)
    then obtain c where "e = FFIStatus c" using errors [OF k] m by blast
    then show ?thesis
      using run s m Err there [OF k] http_status_across [of c]
      by (auto simp: or_respond_def by_service_def on_kps_def via_rpc_def writeError_def returnM_def)
  qed (use steps in auto)
qed

lemma DecapAndSeal_errors:
  assumes "length (as_bytes u) = 16" and "enc \<noteq> []" and "length enc < 2 ^ 63" and "length aad < 2 ^ 63"
    and "kps_ready E k" and "kpskcc_DecapAndSeal E u enc aad k = (Err e, k')"
  shows "\<exists>c. e = FFIStatus c"
  by (rule kpskcc_DecapAndSeal_run [OF assms(5,1-4)])
    (use assms(6) in \<open>auto split: option.splits outcome.splits if_splits\<close>)

lemma same_decap_calls:
  assumes "go_libs_spec E G" and "length (as_bytes u) = 16" and "length (as_bytes b) = 16" and "enc \<noteq> []" and "length enc < 2 ^ 63"
  shows "same E (decap_calls E G Delivered u enc b)"
  unfolding decap_calls_def Let_def
proof (rule same_service [OF goes_DecapAndSeal [OF assms(2,4,5)]])
  let ?aad = "decapsAADContext G u x25519_kem"
  show aad: "length ?aad < 2 ^ 63" using length_aad [OF assms(1), of u] by simp
  show "remote_DecapAndSeal E G Delivered u enc ?aad k = via_rpc Delivered (kpskcc_DecapAndSeal E u enc ?aad) k" for k
    by (rule remote_DecapAndSeal_via [OF assms(1) _ assms(2)]) simp
  show "\<exists>c. e = FFIStatus c" if "kps_ready E k" "kpskcc_DecapAndSeal E u enc ?aad k = (Err e, k')" for k e k'
    by (rule DecapAndSeal_errors [OF assms(2,4,5) aad that])
  show "same E (case a of (e, c) \<Rightarrow> or_respond (on_ws (wskcc_Open E b e c ?aad)) httpStatusFromError
      (\<lambda>pt. writeJSON G (DecapsResponse \<lparr>ss_algorithm = x25519_kem, ss_secret = pt\<rparr>) 200))"
    if "case a of (e, c) \<Rightarrow> length e = 32 \<and> length c = 48" for a
    using that aad assms(3)
    by (auto intro!: same_or_respond [OF same_basic(11) goes_on_ws [OF goes_Open]] same_basic)
qed

lemma same_handleDecaps:
  assumes "libs_spec E G"
  shows "same E (handleDecaps E G Delivered body)"
  unfolding same_def
proof (intro allI impI)
  fix s r t assume s: "wsd_ready E s" "keyProtectionService s = InProcess" and run: "handleDecaps E G Delivered body s = (r, t)"
  have libs: "go_libs_spec E G" "json_spec G" using assms by (simp_all add: libs_spec_def)
  show "handleDecaps E G Delivered body (remotely s) = (r, remotely t) \<and> keyProtectionService t = InProcess"
  proof (cases "\<exists>u enc b. asks_decap G body u enc \<and> kemToBindingMap s u = Some b")
    case True
    then obtain u enc b where asks: "asks_decap G body u enc" and b: "kemToBindingMap s u = Some b" by blast
    have "length (as_bytes u) = 16" "length (as_bytes b) = 16"
      using s(1) b by (auto simp: wsd_ready_def)
    moreover have "enc \<noteq> []" "length enc < 2 ^ 63"
      using asks_decap_length [OF libs(2) asks] by simp_all
    ultimately show ?thesis
      using sameD [OF same_decap_calls [OF libs(1)] s] run b by (simp add: handleDecaps_asked [OF asks])
  next
    case False
    have "\<exists>c. \<forall>s'. kemToBindingMap s' = kemToBindingMap s \<longrightarrow> handleDecaps E G Delivered body s' = (Ok (ErrorResponse c), s')"
    proof (cases "\<exists>u enc. asks_decap G body u enc")
      case True
      then obtain u enc where asks: "asks_decap G body u enc" by blast
      then have "kemToBindingMap s u = None" using False by (cases "kemToBindingMap s u") auto
      then show ?thesis by (simp add: handleDecaps_asked [OF asks])
    qed (auto simp: handleDecaps_not_asked)
    then show ?thesis
      using run s(2) by auto
  qed
qed

lemma same_destroy_kem:
  assumes "go_libs_spec E G" and "length (as_bytes u) = 16"
  shows "same E (attempt (by_service (kpskcc_DestroyKEMKey E u) (remote_DestroyKEMKey E G Delivered u)))"
  unfolding same_def
proof (intro allI impI)
  fix s r t assume s: "wsd_ready E s" "keyProtectionService s = InProcess"
    and run: "attempt (by_service (kpskcc_DestroyKEMKey E u) (remote_DestroyKEMKey E G Delivered u)) s = (r, t)"
  let ?k = "kps_core s"
  have k: "kps_ready E ?k" using s by (simp add: wsd_ready_def)
  obtain k' where k': "kpskcc_DestroyKEMKey E u ?k = (if contents ?k u = None then ffi_err NotFound else Ok (), k')"
    by (rule kpskcc_DestroyKEMKey_run [OF k assms(2)])
  have "remote_view (ffi_err NotFound :: (go_error, unit) outcome) = ffi_err NotFound"
    by (simp add: grpcCodeFromError_def ffiErrorToGrpcCode_def remote_error_def ffiStatusFromGrpcError_def grpcCodeToFfiStatus_def ToStatus_def)
  then have "remote_DestroyKEMKey E G Delivered u ?k = kpskcc_DestroyKEMKey E u ?k"
    using remote_DestroyKEMKey_via [OF assms(1) _ assms(2), of Delivered] k' by (simp add: via_rpc_def)
  then show "attempt (by_service (kpskcc_DestroyKEMKey E u) (remote_DestroyKEMKey E G Delivered u)) (remotely s) = (r, remotely t)
      \<and> keyProtectionService t = InProcess"
    using run s(2) k' by (auto simp: attempt_def by_service_def on_kps_def)
qed

lemma same_handleDestroy:
  assumes "go_libs_spec E G"
  shows "same E (handleDestroy E G Delivered body)"
proof -
  have kem: "goes (wsd_move E) (wsd_ready E)
      (attempt (by_service (kpskcc_DestroyKEMKey E u) (remote_DestroyKEMKey E G Delivered u))) (\<lambda>_. True)"
    if "length (as_bytes u) = 16" for u
    by (rule goes_attempt [OF goes_by_service [OF goes_destroy(1) [OF that] remote_DestroyKEMKey_via [OF assms _ that]]]) simp
  have calls: "same E
      (bindM (attempt (by_service (kpskcc_DestroyKEMKey E u) (remote_DestroyKEMKey E G Delivered u))) (\<lambda>errKps.
       bindM (attempt (on_ws (wskcc_DestroyBindingKey E b))) (\<lambda>errWs. bindM (map_delete u) (\<lambda>_. f errKps errWs))))"
    if "length (as_bytes u) = 16" "length (as_bytes b) = 16" "\<And>x y. same E (f x y)"
    for u b and f :: "go_error option \<Rightarrow> go_error option \<Rightarrow> (go_error, wsd, http_response) rust"
    by (rule same_bindM [OF same_destroy_kem [OF assms that(1)] kem [OF that(1)]])
      (use that in \<open>auto intro!: same_bindM [OF same_basic(12) goes_attempt [OF goes_on_ws [OF goes_destroy(2)]]]
          same_bindM [OF same_basic(8) goes_forget]\<close>)
  show ?thesis
    unfolding handleDestroy_def
  proof (rule same_or_respond [OF same_basic(10) goes_readRequest], goal_cases)
    case (1 req)
    then obtain h where h: "de_key_handle req = Some h"
      by (auto simp: DestroyRequest_rules_def)
    show ?case
      using parse_length [OF assms]
      by (auto simp: h deref_def intro!: same_basic same_or_respond [OF same_basic(9) goes_basic(3)] same_bindM [OF same_basic(5) goes_lookup] calls
          split: option.splits)
  qed
qed

lemma GenerateKEMKeypair_errors:
  assumes "go_libs_spec E G" and "length bpk = 32" and "kps_ready E k"
    and "kpskcc_GenerateKEMKeypair E G (Some x25519_suite) bpk l k = (Err e, k')"
  shows "\<exists>c. e = FFIStatus c"
proof -
  have "bpk \<noteq> []" "length bpk < 2 ^ 63" using assms(2) by auto
  then show ?thesis
    by (rule kpskcc_GenerateKEMKeypair_run [OF assms(3,1) x25519_suite_not_empty, of bpk l]) (use assms(4) in auto)
qed

lemma goes_generate:
  assumes "go_libs_spec E G"
  shows "goes (ws_step E) (ws_ready E) (wskcc_GenerateBindingKeypair E G (Some x25519_suite) l) (\<lambda>(b, bpk). length bpk = 32)"
    and "length bpk = 32 \<Longrightarrow> goes (kps_step E) (kps_ready E) (kpskcc_GenerateKEMKeypair E G (Some x25519_suite) bpk l) (\<lambda>_. True)"
proof -
  show "goes (ws_step E) (ws_ready E) (wskcc_GenerateBindingKeypair E G (Some x25519_suite) l) (\<lambda>(b, bpk). length bpk = 32)"
  proof (rule goesI)
    fix w assume w: "ws_ready E w"
    then have host: "host_spec E" by (simp add: ws_ready_def)
    show "\<exists>r w'. wskcc_GenerateBindingKeypair E G (Some x25519_suite) l w = (r, w') \<and> (ws_step E)\<^sup>*\<^sup>* w w'
        \<and> r \<noteq> Panicked \<and> r \<noteq> Undefined \<and> (\<forall>a. r = Ok a \<longrightarrow> (case a of (b, bpk) \<Rightarrow> length bpk = 32))"
      by (rule wskcc_GenerateBindingKeypair_run [OF w assms x25519_suite_not_empty, of l])
        (auto dest: made_key_lengths(2) [OF host])
  qed
  assume bpk: "length bpk = 32"
  then have ne: "bpk \<noteq> []" "length bpk < 2 ^ 63" by auto
  show "goes (kps_step E) (kps_ready E) (kpskcc_GenerateKEMKeypair E G (Some x25519_suite) bpk l) (\<lambda>_. True)"
    by (rule goesI, erule kpskcc_GenerateKEMKeypair_run [OF _ assms x25519_suite_not_empty ne]) auto
qed

lemma same_handleGenerateKey:
  assumes "go_libs_spec E G"
  shows "same E (handleGenerateKey E G Delivered now body)"
proof -
  have pair: "same E (or_respond (by_service (kpskcc_GenerateKEMKeypair E G (Some x25519_suite) bpk l)
      (remote_GenerateKEMKeypair E G Delivered x25519_suite bpk l)) httpStatusFromError (\<lambda>(kemUUID, kemPubKey).
        bindM (map_store kemUUID b) (\<lambda>_. bindM (field mechanism) (\<lambda>m. writeJSON G (v kemUUID kemPubKey m) 200))))"
    if bpk: "length bpk = 32" for bpk b v l
  proof (rule same_service [OF goes_generate(2) [OF assms bpk]])
    have ne: "bpk \<noteq> []" "length bpk < 2 ^ 63" using bpk by auto
    show "remote_GenerateKEMKeypair E G Delivered x25519_suite bpk l k
        = via_rpc Delivered (kpskcc_GenerateKEMKeypair E G (Some x25519_suite) bpk l) k" if "kps_ready E k" for k
      by (rule remote_GenerateKEMKeypair_via [OF assms _ that x25519_suite_not_empty ne]) simp
    show "\<exists>c. e = FFIStatus c" if "kps_ready E k" "kpskcc_GenerateKEMKeypair E G (Some x25519_suite) bpk l k = (Err e, k')" for k e k'
      by (rule GenerateKEMKeypair_errors [OF assms bpk that])
  qed (auto simp: same_def map_store_def updateM_def bindM_def field_def writeJSON_def writeError_def returnM_def split: option.splits if_splits)
  have gen: "same E (generateKEMKey E G Delivered now details l)" for details l
  proof (cases "IsSupportedKemAlgorithm (GetKemId details)")
    case True
    have first: "same E (or_respond (returnM x25519_suite) bad f)" if "same E (f x25519_suite)" for bad and f :: "HpkeAlgorithm \<Rightarrow> (go_error, wsd, http_response) rust"
      using that by (simp add: or_respond_def returnM_def same_def)
    show ?thesis
      using True by (auto simp: generateKEMKey_def KemToHpke_supported
          intro!: first same_or_respond [OF same_basic(11) goes_on_ws [OF goes_generate(1) [OF assms]]] pair split: prod.splits)
  qed (simp add: generateKEMKey_def same_basic)
  show ?thesis
    unfolding handleGenerateKey_def
  proof (rule same_or_respond [OF same_basic(10) goes_readRequest], goal_cases)
    case (1 req)
    then obtain d where "gk_algorithm req = Some d"
      by (auto simp: GenerateKeyRequest_rules_def)
    then show ?case
      by (auto simp: deref_def intro!: same_basic gen)
  qed
qed

lemma enumerate_same:
  assumes "wsd_ready E s" and libs: "go_libs_spec E G" and addr: "addressable (kps_core s)" and "keyProtectionService s = InProcess"
    and "handleEnumerateKeys E G Delivered now s = (r, s')"
  shows "handleEnumerateKeys E G Delivered now (remotely s) = (r, remotely s')"
proof -
  let ?k = "kps_core s" and ?m = "kpskcc_EnumerateKEMKeys E G defaultEnumerateLimit 0"
  have ready: "kps_ready E ?k" using assms(1) by (simp add: wsd_ready_def)
  obtain keys more k where k: "?m ?k = (Ok (keys, more), k)"
    by (rule kpskcc_EnumerateKEMKeys_run [OF ready libs, of defaultEnumerateLimit 0, OF _ _ refl _ refl])
      (use addr in \<open>auto simp: addressable_def\<close>)
  have "remote_EnumerateKEMKeys E G Delivered defaultEnumerateLimit 0 ?k = (Ok (keys, more), k)"
    using remote_EnumerateKEMKeys_via [OF libs _ ready addr, of Delivered defaultEnumerateLimit 0] k by (simp add: via_rpc_def)
  then show ?thesis
    using assms(4,5) k
    by (auto simp: handleEnumerateKeys_def or_respond_def by_service_def on_kps_def bindM_def field_def writeJSON_def writeError_def returnM_def
        split: option.splits if_splits)
qed

end
