(* ===== verification/Server_Properties.thy ===== *)
theory Server_Properties
  imports Server_States
begin

text \<open>
  The properties of the two Go servers together, from HTTP request to HTTP response, and reference libraries on which their
  hypotheses hold.
\<close>

section \<open>Reference libraries\<close>

definition ref_string :: "bytes \<Rightarrow> string" where
  "ref_string bs = map (\<lambda>b. char_of (unat b)) bs"

definition ref_uuid_String :: "uuid \<Rightarrow> string" where
  "ref_uuid_String u = take 36 (ref_string (as_bytes u) @ replicate 36 (CHR ''-''))"

definition ref_uuid_Parse :: "string \<Rightarrow> uuid option" where
  "ref_uuid_Parse s = (if length s = 36 then Some (Uuid (byte_string (take 16 s))) else None)"

text \<open>Requests of the reference client: a generation is one byte, the others begin with a handle.\<close>

definition ref_http :: http_env where
  "ref_http =
     \<lparr>proto_Marshal = (\<lambda>a. case a of None \<Rightarrow> Some [] | Some algo \<Rightarrow> Some (if algo = no_algorithm then [] else ref_encode algo)),
      proto_Unmarshal = ref_decode,
      uuid_FromBytes = (\<lambda>bs. if length bs = 16 then Some (Uuid bs) else None),
      uuid_Parse = ref_uuid_Parse,
      uuid_String = ref_uuid_String,
      unmarshal_GenerateKeyRequest = (\<lambda>bs. if bs = [1] then
         Some \<lparr>gk_algorithm = Some (kem_details ''kem'' 1), gk_lifespan = 60\<rparr> else None),
      unmarshal_DecapsRequest = (\<lambda>bs. if length bs < 2 ^ 63 then
         Some \<lparr>dr_key_handle = Some (ref_string (take 36 bs)),
               dr_ciphertext = Some \<lparr>ct_algorithm = 1, ct_ciphertext = drop 36 bs\<rparr>\<rparr> else None),
      unmarshal_DestroyRequest = (\<lambda>bs. Some \<lparr>de_key_handle = Some (ref_string bs)\<rparr>),
      protojson_Marshal = (\<lambda>v. Some (case v of DecapsResponse ss \<Rightarrow> ss_secret ss | _ \<Rightarrow> []))\<rparr>"

lemma ref_string_inverse [simp]: "byte_string (ref_string bs) = bs" "ref_string (byte_string s) = s"
proof -
  have "of_char (char_of (unat b) :: char) = unat b" for b :: "8 word"
    using unsigned_less [of b, where 'a = nat] by simp
  then show "byte_string (ref_string bs) = bs"
    by (simp add: byte_string_def ref_string_def comp_def)
  have "char_of (unat (word_of_nat (of_char c) :: 8 word)) = c" for c :: char
    by (simp add: unat_of_nat take_bit_nat_eq_self)
  then show "ref_string (byte_string s) = s"
    by (simp add: byte_string_def ref_string_def comp_def)
qed

lemma ref_string_lengths [simp]: "length (ref_string bs) = length bs" "length (byte_string s) = length s" "byte_string [] = []"
  by (simp_all add: ref_string_def byte_string_def)

lemma ref_string_take: "byte_string (take n s) = take n (byte_string s)" "byte_string (a @ b) = byte_string a @ byte_string b"
  by (simp_all add: byte_string_def take_map)

lemma ref_encode_length: "length (ref_encode a) = 12" "ref_encode a \<noteq> []"
proof -
  show "length (ref_encode a) = 12" by (simp add: ref_encode_def)
  then show "ref_encode a \<noteq> []" by (metis length_0_conv zero_neq_numeral)
qed

lemma ref_libs: "libs_spec ref_env ref_http"
proof -
  have parse: "ref_uuid_Parse (ref_uuid_String u) = Some u" if "length (as_bytes u) = 16" for u
    using that by (cases u) (simp add: ref_uuid_Parse_def ref_uuid_String_def ref_string_take)
  show ?thesis
    using ref_decode_encode parse
    by (auto simp: libs_spec_def go_libs_spec_def json_spec_def ref_http_def ref_env_def ref_encode_length ref_uuid_Parse_def ref_uuid_String_def
        split: if_splits)
qed

lemma ref_ready: "ws_ready ref_env (ref_world [])" "kps_ready ref_env (ref_world [])"
  by (simp_all add: ws_ready_def kps_ready_def ref_host calm_def ref_world_inv) (simp_all add: ref_world_def init_world_def)

section \<open>A reference server\<close>

definition ref_server :: wsd where
  "ref_server = (NewServer InProcess KEY_PROTECTION_VM_EMULATED (ref_world []) (ref_world []))\<lparr>mechanism := KEY_PROTECTION_VM_EMULATED\<rparr>"

lemma ref_New: "New KEY_PROTECTION_VM_EMULATED [] (ref_world []) (ref_world []) = Inr ref_server"
  by (simp add: New_def ref_server_def)

lemma ref_server_simps [simp]:
  "ws_core ref_server = ref_world []" "kps_core ref_server = ref_world []" "keyProtectionService ref_server = InProcess"
  "kemToBindingMap ref_server = Map.empty" "mode ref_server = KEY_PROTECTION_VM_EMULATED" "cachedToken ref_server = []"
  "initialBackoff ref_server = 1000000000" "maxBackoff ref_server = 128 * 1000000000"
  by (simp_all add: ref_server_def NewServer_def)

lemma ref_server_ready: "wsd_ready ref_env ref_server"
  by (rule New_ready(1) [OF ref_New ref_ready])

lemma ref_can_generate: "can_generate ref_env 60 (ref_world [])"
  by (simp add: can_generate_def ref_vault_granted ref_world_def init_world_def ref_clock_def Duration_from_secs_def nanos_per_sec_def i64_max_def)

lemma ref_in_time: "clock (ref_world []) (Suc (ticks (ref_world []))) < clock (ref_world []) (ticks (ref_world [])) + Duration_from_secs 60"
  by (simp add: ref_world_def init_world_def ref_clock_def Duration_from_secs_def nanos_per_sec_def)

lemma ref_generate_request:
  "unmarshal_GenerateKeyRequest ref_http [1] = Some \<lparr>gk_algorithm = Some (kem_details ''kem'' 1), gk_lifespan = 60\<rparr>"
  "algorithm_type (kem_details ''kem'' 1) = ''kem''" "IsSupportedKemAlgorithm (GetKemId (kem_details ''kem'' 1))"
  by (simp_all add: ref_http_def kem_details_def GetKemId_def supported_kem)

lemma ref_marshal_secret: "protojson_Marshal ref_http (DecapsResponse ss) = Some (ss_secret ss)"
  by (simp add: ref_http_def)

lemma ref_marshals: "protojson_Marshal ref_http v \<noteq> None"
  by (simp add: ref_http_def)

lemma writeJSON_state: "snd (writeJSON G v c s) = s"
  by (simp add: writeJSON_def writeError_def returnM_def split: option.splits)

text \<open>The reference server after one request for a key.\<close>

lemma ref_pair:
  obtains s u b kr br where "(wsd_step ref_env ref_http)\<^sup>*\<^sup>* ref_server s" and "distinct_handles ref_env s"
    and "keyProtectionService s = InProcess" and "mode s = KEY_PROTECTION_VM_EMULATED" and "kemToBindingMap s u = Some b" and "length (as_bytes u) = 16"
    and "live_pair (kps_core s) (ws_core s) u b kr br" and "key_pair ref_env 0 = (kem_public_key (spec (meta kr)), get_private_key kr)"
proof -
  have libs: "go_libs_spec ref_env ref_http" using ref_libs by (simp add: libs_spec_def)
  obtain b bpk w1 u kpk k1 where binding: "made_key ref_env x25519_suite 60 Binding b bpk (ref_world []) w1"
    and kem: "made_key ref_env x25519_suite 60 (bound_to bpk) u kpk (ref_world []) k1"
    and run: "handleGenerateKey ref_env ref_http Delivered 0 (Some [1]) ref_server =
      writeJSON ref_http (GenerateKeyResponse (generated_key ref_http ref_server 0 (kem_details ''kem'' 1) 60 u kpk)) 200
      (ref_server\<lparr>ws_core := w1, kps_core := k1, kemToBindingMap := (kemToBindingMap ref_server)(u \<mapsto> b)\<rparr>)"
    by (rule handleGenerateKey_total [OF ref_server_ready libs _ _ ref_generate_request(1), of Delivered 0])
      (simp_all add: ref_generate_request ref_can_generate)
  let ?s = "ref_server\<lparr>ws_core := w1, kps_core := k1, kemToBindingMap := [u \<mapsto> b]\<rparr>"
  have "snd (serve ref_env ref_http Delivered (PostGenerateKey 0 (Some [1])) ref_server) = ?s"
    using run by (simp add: writeJSON_state)
  then obtain r where "serve ref_env ref_http Delivered (PostGenerateKey 0 (Some [1])) ref_server = (r, ?s)"
    by (metis prod.collapse)
  then have "wsd_step ref_env ref_http ref_server ?s"
    by (rule step_http [rotated 2]) (simp_all add: listable_def)
  moreover have "draws w1 = 2" "draws k1 = 2"
    using binding kem by (simp_all add: made_key_def ref_world_def init_world_def)
  then have "distinct_handles ref_env ?s"
    by (auto simp: distinct_handles_def inj_on_def ref_env_def less_2_cases_iff)
  moreover obtain kr where "unexpired (clock k1 (ticks k1)) (contents k1 u) = Some kr"
      "spec (meta kr) = KemWithBindingPub x25519_suite (fst (key_pair ref_env 0)) (X25519_public (X25519PublicKey bpk))"
      "get_private_key kr = snd (key_pair ref_env 0)"
    by (rule made_key_live [OF kem ref_in_time]) (simp add: ref_world_def init_world_def)
  moreover obtain br where "unexpired (clock w1 (ticks w1)) (contents w1 b) = Some br"
    by (rule made_key_live [OF binding ref_in_time])
  ultimately show thesis
    using that [of ?s u b kr br, OF r_into_rtranclp] made_key_lengths(1) [OF ref_host kem] by (simp add: live_pair_def)
qed

text \<open>The reference client.\<close>

definition ref_decap_body :: "uuid \<Rightarrow> bytes \<Rightarrow> bytes" where
  "ref_decap_body u enc = byte_string (ref_uuid_String u) @ enc"

lemma ref_encap_any:
  obtains secret enc m' where "encap ref_env (X25519_public (X25519PublicKey pk)) m = (Ok (secret, enc), m')" and "length enc = 32"
proof -
  obtain secret enc m' where encap: "encap ref_env (X25519_public (X25519PublicKey pk)) m = (Ok (secret, enc), m')"
    using encap_total [OF ref_hpke_spec ref_x25519_spec ref_hkdf_spec, of pk m] by (auto simp: ref_env_simps)
  then have "length enc = 32"
    by (auto simp: encap_def encap_internal_def x25519_encap_internal_random [OF ref_hpke_spec ref_x25519_spec]
        x25519_encap_internal_eq length_keypair_private [OF ref_hpke_spec] split: option.splits if_splits)
      (simp add: ref_env_def)
  with encap show thesis by (rule that)
qed

lemma ref_asks_decap:
  assumes "uuid_Parse ref_http (uuid_String ref_http u) = Some u" and "length enc = 32"
  shows "asks_decap ref_http (Some (ref_decap_body u enc)) u enc"
proof -
  have "enc \<noteq> []" using assms(2) by auto
  then show ?thesis
    using assms by (simp add: asks_decap_def ref_decap_body_def ref_http_def ref_uuid_String_def)
qed

lemma ref_empty_listing: "listing now (ref_world []) = []"
  by (simp add: listing_def registry_of_def ref_world_def init_world_def live_sorted_def live_records_def KeyRegistry_default_def hm_values_def)

section \<open>The system\<close>

text \<open>
  C4. Keys that the server pairs belong together. In every state that a server can reach, by any requests with any fate of their remote calls,
  claims, heartbeats, restarts of the key protection service and other use of the cores, and as long as no two random handles collide: if the
  map sends a KEM handle to a binding handle and both keys are there, the KEM key seals to the public key of that binding key, under the same suite.
\<close>

theorem paired_keys_belong_together:
  assumes "libs_spec E G" and "New m ip w k = Inr s0" and "ws_ready E w" and "kps_ready E k"
    and "(wsd_step E G)\<^sup>*\<^sup>* s0 s" and "distinct_handles E s"
    and "kemToBindingMap s u = Some b" and "contents (kps_core s) u = Some kr" and "contents (ws_core s) b = Some br"
  shows "binding_public_key (spec (meta kr)) = own_public_key (spec (meta br)) \<and> spec_algo (spec (meta kr)) = spec_algo (spec (meta br))"
  using wsd_reachable(2) [OF assms(1-6)] assms(7-9) by (auto simp: bindings_agree_def paired_def bound_records_def)

theorem paired_keys_belong_together_witness:
  "\<exists>s u b kr br. (wsd_step ref_env ref_http)\<^sup>*\<^sup>* ref_server s \<and> kemToBindingMap s u = Some b
     \<and> contents (kps_core s) u = Some kr \<and> contents (ws_core s) b = Some br
     \<and> binding_public_key (spec (meta kr)) = own_public_key (spec (meta br))"
proof -
  obtain s u b kr br where s: "(wsd_step ref_env ref_http)\<^sup>*\<^sup>* ref_server s" "distinct_handles ref_env s" "kemToBindingMap s u = Some b"
    and live: "live_pair (kps_core s) (ws_core s) u b kr br"
    by (rule ref_pair)
  then have recs: "contents (kps_core s) u = Some kr" "contents (ws_core s) b = Some br"
    by (auto simp: live_pair_def unexpired_eq_Some)
  with paired_keys_belong_together [OF ref_libs ref_New ref_ready s recs] s show ?thesis by blast
qed

text \<open>
  C3. What a workload is told is what was encapsulated for it. In every such state, \<^verbatim>\<open>POST /v1/keys:decap\<close> answers with a body exactly if the request
  names a key of the map and carries a ciphertext, both keys of the pair are live, the key protection service is in the process or the call was
  delivered, and decapsulation with the private KEM key succeeds; the status is then 200 and the body has the decapsulated secret, although it
  travelled sealed to the binding key.
\<close>

theorem decap_answers_with_the_secret:
  assumes "libs_spec E G" and "hkdf_spec E" and "New m ip w k = Inr s0" and "ws_ready E w" and "kps_ready E k"
    and "(wsd_step E G)\<^sup>*\<^sup>* s0 s" and "distinct_handles E s" and "real_fate fate"
  shows "(\<exists>s'. serve E G fate (PostDecap body) s = (Ok (Response c out), s')) \<longleftrightarrow>
     c = 200 \<and> (keyProtectionService s = InProcess \<or> fate = Delivered)
   \<and> (\<exists>u enc b kr br secret. asks_decap G body u enc \<and> kemToBindingMap s u = Some b
        \<and> live_pair (kps_core s) (ws_core s) u b kr br
        \<and> decaps E (get_private_key kr) enc (kps_core s) = (Ok secret, kps_core s)
        \<and> protojson_Marshal G (DecapsResponse \<lparr>ss_algorithm = kem_as_i32 DhkemX25519HkdfSha256, ss_secret = as_slice secret\<rparr>) = Some out)"
proof -
  note ready = wsd_reachable(1) [OF assms(1,3-6)] and agree = wsd_reachable(2) [OF assms(1,3-7)]
  show ?thesis
    unfolding serve.simps
    by (rule handleDecaps_Response [OF assms(1,2) ready _ assms(8)])
      (use agree in \<open>auto simp: bindings_agree_def paired_def live_pair_def unexpired_eq_Some\<close>)
qed

theorem decap_answers_with_the_secret_witness:
  "\<exists>s body out s'. (wsd_step ref_env ref_http)\<^sup>*\<^sup>* ref_server s
     \<and> serve ref_env ref_http Delivered (PostDecap (Some body)) s = (Ok (Response 200 out), s')"
proof -
  obtain s u b kr br where s: "(wsd_step ref_env ref_http)\<^sup>*\<^sup>* ref_server s" "distinct_handles ref_env s" and impl: "keyProtectionService s = InProcess"
    and b: "kemToBindingMap s u = Some b" and len: "length (as_bytes u) = 16" and live: "live_pair (kps_core s) (ws_core s) u b kr br"
    and pair: "key_pair ref_env 0 = (kem_public_key (spec (meta kr)), get_private_key kr)"
    by (rule ref_pair)
  obtain secret enc m' where encap: "encap ref_env (ref_public 0) (ref_world ([] :: KpsKeyInfo list)) = (Ok (secret, enc), m')"
    and enc: "length enc = 32"
    unfolding ref_public_def by (rule ref_encap_any)
  have dec: "decaps ref_env (get_private_key kr) enc k = (Ok secret, k)" for k :: "KpsKeyInfo world"
    using decaps_encap_pair [OF ref_hpke_spec ref_x25519_spec pair, of "ref_world []" secret enc m' k] encap pair by (simp add: ref_key_pair)
  have "asks_decap ref_http (Some (ref_decap_body u enc)) u enc"
    by (rule ref_asks_decap [OF parse_string [OF ref_libs [unfolded libs_spec_def, THEN conjunct1] len] enc])
  then have "\<exists>s'. serve ref_env ref_http Delivered (PostDecap (Some (ref_decap_body u enc))) s = (Ok (Response 200 (as_slice secret)), s')"
    using impl b live dec [of "kps_core s"] ref_marshal_secret [of "\<lparr>ss_algorithm = kem_as_i32 DhkemX25519HkdfSha256, ss_secret = as_slice secret\<rparr>"]
    by (intro iffD2 [OF decap_answers_with_the_secret [OF ref_libs ref_hkdf_spec ref_New ref_ready s]]) (simp, simp, blast)
  with s(1) show ?thesis by blast
qed

text \<open>
  C5. Every request is answered. In every such state, whatever becomes of the remote call, each of the five routes writes a response with one of
  eight statuses; no handler panics, and no call into a custody core breaks the rules of its safety section.
\<close>

theorem every_request_answered:
  assumes "libs_spec E G" and "New m ip w k = Inr s0" and "ws_ready E w" and "kps_ready E k" and "(wsd_step E G)\<^sup>*\<^sup>* s0 s"
    and "real_fate fate" and "listable req s"
  shows "\<exists>resp s'. serve E G fate req s = (Ok resp, s') \<and> http_status resp \<in> {200, 204, 400, 401, 403, 404, 409, 500}"
proof -
  obtain r s' where run: "serve E G fate req s = (r, s')" by fastforce
  have "r \<noteq> Panicked" "r \<noteq> Undefined"
    using serve_moves [OF wsd_reachable(1) [OF assms(1-5)] assms(1,6,7) run] by auto
  then obtain resp where "r = Ok resp"
    using responds_serve [of E G fate req] run by (cases r) (auto simp: responds_def)
  with run in_range_serve [of E G fate req] show ?thesis
    by (auto simp: in_range_def http_statuses_def)
qed

theorem every_request_answered_witness:
  "\<exists>resp s'. serve ref_env ref_http (ReplyLost Unavailable) (GetKeys (\<lambda>_. 0)) ref_server = (Ok resp, s')
     \<and> http_status resp \<in> {200, 204, 400, 401, 403, 404, 409, 500}"
  by (rule every_request_answered [OF ref_libs ref_New ref_ready])
    (simp_all add: listable_def addressable_def ref_empty_listing)





text \<open>
  C7. A heartbeat ends, and silence costs the keys. With the default backoffs \<^verbatim>\<open>performHeartbeat\<close> returns after at most eight attempts, waiting 1, 2, 4 and
  so on up to 128 seconds between them. If nothing is heard at all, 255 seconds, every entry of the map and every binding key is gone; an answer
  ends the call at once, and only a boot token other than the one that is known costs the keys.
\<close>

theorem heartbeat_ends:
  assumes "wsd_ready E s" and "initialBackoff s = 1000000000" and "maxBackoff s = 128 * 1000000000"
  shows "\<exists>waits s'. performHeartbeat E reply cancelled s = Some (waits, Ok (), s')
     \<and> waits = map (\<lambda>i. 2 ^ i * 1000000000) [0..<length waits] \<and> length waits \<le> 8
     \<and> (silent reply cancelled 8 \<longrightarrow>
          length waits = 8 \<and> kemToBindingMap s' = Map.empty \<and> contents (ws_core s') = Map.empty)
     \<and> (\<forall>j token. j < 8 \<and> silent reply cancelled j \<and> reply j = Some token \<longrightarrow>
          length waits = j \<and> cachedToken s' = token
        \<and> (if cachedToken s \<noteq> [] \<and> cachedToken s \<noteq> token then kemToBindingMap s' = Map.empty \<and> contents (ws_core s') = Map.empty
           else s' = s\<lparr>cachedToken := token\<rparr>))"
proof (rule performHeartbeat_cases [OF assms(2,3), of reply cancelled E], goal_cases)
  case (1 j t)
  obtain w where shake: "handshake E t s = (Ok (), if cachedToken s \<noteq> [] \<and> cachedToken s \<noteq> t
      then s\<lparr>ws_core := w, kemToBindingMap := Map.empty, cachedToken := t\<rparr> else s\<lparr>cachedToken := t\<rparr>)" and w: "contents w = Map.empty"
    by (rule handshake_run_eq [OF assms(1)])
  have unique: "i = j \<and> t' = t" if "silent reply cancelled i" "reply i = Some t'" for i t'
    using silent_unique [OF that(1) 1(2) that(2)] that(2) 1(3) by simp
  have "\<not> silent reply cancelled 8"
    using 1(1,3) by (auto simp: silent_def)
  moreover have "performHeartbeat E reply cancelled s = Some (default_waits j, Ok (), snd (handshake E t s))"
    using 1(4) shake by simp
  ultimately show ?case
    using 1(1) by (intro exI [of _ "default_waits j"] exI [of _ "snd (handshake E t s)"]) (auto simp: shake w dest!: unique)
next
  case (2 j)
  have "reply i \<noteq> Some t'" if "silent reply cancelled i" for i t'
    using silent_unique [OF that 2(2), of t'] 2(3,4) by auto
  moreover have "\<not> silent reply cancelled 8"
    using 2(1,4) by (auto simp: silent_def)
  ultimately show ?case
    using 2 by auto
next
  case 3
  obtain w where "cleanupState E s = (Ok (), s\<lparr>ws_core := w, kemToBindingMap := Map.empty\<rparr>)" "contents w = Map.empty"
    by (rule cleanupState_run [OF assms(1)])
  then show ?case
    using 3 by (auto simp: silent_def)
qed

theorem heartbeat_ends_witness:
  "\<exists>s'. performHeartbeat ref_env (\<lambda>_. None) (\<lambda>_. False) ref_server =
     Some ([1000000000, 2000000000, 4000000000, 8000000000, 16000000000, 32000000000, 64000000000, 128000000000], Ok (), s')"
proof -
  obtain waits s' where run: "performHeartbeat ref_env (\<lambda>_. None) (\<lambda>_. False) ref_server = Some (waits, Ok (), s')"
    and waits: "waits = map (\<lambda>i. 2 ^ i * 1000000000) [0..<length waits]" and len: "length waits = 8"
    using heartbeat_ends [OF ref_server_ready, of "\<lambda>_. None" "\<lambda>_. False"] by (auto simp: silent_def)
  have "waits = [1000000000, 2000000000, 4000000000, 8000000000, 16000000000, 32000000000, 64000000000, 128000000000]"
    by (subst waits, unfold len) (simp add: upt_rec)
  with run show ?thesis by blast
qed

section \<open>Handlers\<close>

text \<open>
  C8. \<^verbatim>\<open>POST /v1/keys:destroy\<close> of a key in the map always takes the entry and the binding key away, and the KEM key unless the request to a remote
  service is lost; the status is 204 exactly if the call was answered and both keys were there. So a lost request leaves the KEM key in the
  key protection service until it expires, and the handle, gone from the map, cannot be destroyed again.
\<close>

theorem destroy_forgets_the_key:
  assumes "libs_spec E G" and "wsd_ready E s" and "real_fate fate" and "asks_destroy G body u" and "kemToBindingMap s u = Some b"
  shows "\<exists>resp s'. serve E G fate (PostDestroy body) s = (Ok resp, s') \<and> kemToBindingMap s' = (kemToBindingMap s)(u := None)
     \<and> contents (ws_core s') = (contents (ws_core s))(b := None)
     \<and> contents (kps_core s') = (if keyProtectionService s = Remote \<and> (\<exists>c. fate = RequestLost c) then contents (kps_core s)
          else (contents (kps_core s))(u := None))
     \<and> (resp = EmptyResponse 204 \<longleftrightarrow> (keyProtectionService s = InProcess \<or> fate = Delivered)
          \<and> contents (kps_core s) u \<noteq> None \<and> contents (ws_core s) b \<noteq> None)"
  by (rule handleDestroy_run [OF assms(2) _ assms(3-5)]) (use assms(1) in \<open>auto simp: libs_spec_def\<close>)

theorem destroy_forgets_the_key_witness:
  "\<exists>s u s'. kemToBindingMap s u \<noteq> None
     \<and> serve ref_env ref_http Delivered (PostDestroy (Some (byte_string (ref_uuid_String u)))) s = (Ok (EmptyResponse 204), s')
     \<and> kemToBindingMap s' u = None"
proof -
  obtain s u b kr br where s: "(wsd_step ref_env ref_http)\<^sup>*\<^sup>* ref_server s" and impl: "keyProtectionService s = InProcess"
    and b: "kemToBindingMap s u = Some b" and len: "length (as_bytes u) = 16" and live: "live_pair (kps_core s) (ws_core s) u b kr br"
    by (rule ref_pair)
  have ready: "wsd_ready ref_env s"
    by (rule wsd_reachable(1) [OF ref_libs ref_New ref_ready s])
  have "uuid_Parse ref_http (ref_uuid_String u) = Some u"
    using parse_string [OF ref_libs [unfolded libs_spec_def, THEN conjunct1] len] by (simp add: ref_http_def)
  then have "asks_destroy ref_http (Some (byte_string (ref_uuid_String u))) u"
    by (simp add: asks_destroy_def) (simp add: ref_http_def)
  from destroy_forgets_the_key [OF ref_libs ready _ this b, of Delivered] impl live
  obtain s' where "serve ref_env ref_http Delivered (PostDestroy (Some (byte_string (ref_uuid_String u)))) s = (Ok (EmptyResponse 204), s')"
    and "kemToBindingMap s' = (kemToBindingMap s)(u := None)"
    by (auto simp: live_pair_def unexpired_eq_Some)
  with b show ?thesis
    by (intro exI [of _ s] exI [of _ u] exI [of _ s']) simp
qed



text \<open>
  C11. A message that crashes the key protection service. A request to generate a KEM key whose algorithm is present but empty passes validation, and
  \<^verbatim>\<open>proto.Marshal\<close> of it gives no bytes; the wrapper takes the address of the first byte, so the handler panics, which gRPC does not recover.
\<close>

theorem empty_algorithm_crashes_kps:
  assumes "go_libs_spec E G" and "hpke_public_key bk \<noteq> []"
  shows "ValidationInterceptor GenerateKEMKeypairRequest_rules
      \<lparr>gen_algo = Some \<lparr>kem = 0, kdf = 0, aead = 0\<rparr>, gen_binding_pub_key = Some bk, gen_lifespan_secs = l\<rparr> (grpc_GenerateKEMKeypair E G) k
    = (Panicked, k)"
  using assms(2) marshal_empty [OF assms(1)]
  by (simp add: no_algorithm_def ValidationInterceptor_def GenerateKEMKeypairRequest_rules_def grpc_GenerateKEMKeypair_def Service_GenerateKEMKeypair_def
      kpskcc_GenerateKEMKeypair_def GetHpkePublicKey_def ok_orM_def bindM_def returnM_def first_index_def panicM_def map_errM_def)

theorem empty_algorithm_crashes_kps_witness:
  "fst (ValidationInterceptor GenerateKEMKeypairRequest_rules
      \<lparr>gen_algo = Some \<lparr>kem = 0, kdf = 0, aead = 0\<rparr>, gen_binding_pub_key = Some \<lparr>hpke_algorithm = None, hpke_public_key = [1]\<rparr>, gen_lifespan_secs = 60\<rparr>
      (grpc_GenerateKEMKeypair ref_env ref_http) (ref_world [])) = Panicked"
  using empty_algorithm_crashes_kps [of ref_env ref_http "\<lparr>hpke_algorithm = None, hpke_public_key = [1]\<rparr>" 60 "ref_world []"] ref_libs
  by (simp add: libs_spec_def)



end
