(* ===== verification/Spec2Isabelle.thy ===== *)
theory Spec2Isabelle
  imports Prelude Proto Telemetry Machine Secret_Box Protected_Mem X25519 Crypto Key_Types
    Registry_History Ffi Reference_Env Entry_Points Kps_Core Ws_Core Library_Properties
    Key_Release Transition_Systems Arc_Registry Arc_Properties Service_States Key_Lifetime No_Panic
    Confidentiality Fuzz_Targets Key_History Test_Harness Kps_Tests Ws_Tests
    Registry_Tests Library_Tests Test_Properties Interleaving Cgo Cgo_Calls Kps_Server Ws_Server
    Remote_Calls Wsd_System Ws_Handlers Heartbeat Delivery Server_States Server_Properties
begin

text \<open>
  A verification of the key protection module: its Rust key custody cores and the Go servers around them.

  \<^bold>\<open>The program.\<close> Two services hold keys for a confidential workload. The workload service
  keeps \<^emph>\<open>binding keys\<close>; the key protection service keeps \<^emph>\<open>KEM keys\<close>, each bound to the public half of a
  binding key. A client encapsulates a secret to a KEM public key. The key protection service
  decapsulates it and seals it to the binding key (\<^verbatim>\<open>key_manager_decap_and_seal\<close>), and the workload service
  opens the result (\<^verbatim>\<open>key_manager_open\<close>). Each service is a Go server around a Rust custody core: the
  private keys exist only in the cores, which the servers call over a C interface with raw pointers. Both
  cores are thin layers over the crate \<^verbatim>\<open>km_common\<close>: cryptography, protected memory, the key registry with
  its reaper thread, telemetry, and the wrapper that turns errors and panics into status codes.

  \<^bold>\<open>What models what\<close> (paths under \<^verbatim>\<open>src/\<close>).
  \<^item> \<^theory_text>\<open>Prelude\<close>: the Rust side of things: outcomes (value, error, panic, undefined behaviour), sequencing,
    unwinding, durations and instants, hash maps, and the program logic \<open>keeps\<close> and \<open>yields\<close>.
  \<^item> \<^theory_text>\<open>Proto\<close>: \<^verbatim>\<open>km_common/src/keymanager.rs\<close>, the generated messages and enumerations.
  \<^item> \<^theory_text>\<open>Telemetry\<close>: \<^verbatim>\<open>km_common/src/telemetry.rs\<close>, names of operations, failure events, process statics.
  \<^item> \<^theory_text>\<open>Machine\<close>: third-party code and the kernel as the parameter \<open>env\<close> with the named hypotheses on it; clock,
    random draws, system calls and unmapped secret regions as the record \<open>machine\<close>.
  \<^item> \<^theory_text>\<open>Secret_Box\<close>, \<^theory_text>\<open>Protected_Mem\<close>: \<^verbatim>\<open>crypto/secret_box.rs\<close>, \<^verbatim>\<open>protected_mem.rs\<close>.
  \<^item> \<^theory_text>\<open>X25519\<close>, \<^theory_text>\<open>Crypto\<close>: \<^verbatim>\<open>crypto/x25519.rs\<close>, \<^verbatim>\<open>crypto.rs\<close>, and RFC 9180 as the reference definitions
    \<open>rfc_ExtractAndExpand\<close>, \<open>rfc_LabeledExtract\<close>, \<open>rfc_LabeledExpand\<close>.
  \<^item> \<^theory_text>\<open>Key_Types\<close>: \<^verbatim>\<open>key_types.rs\<close>, records, the registry, the reaper, listing, creation. The locale
    \<open>registry_contract\<close> is what the cores rely on. \<^theory_text>\<open>Registry_History\<close>: histories of the registry and the map
    they refine (locale \<open>registry_clock\<close>).
  \<^item> \<^theory_text>\<open>Arc_Registry\<close>, \<^theory_text>\<open>Arc_Properties\<close>: \<^verbatim>\<open>key_types.rs\<close> again, with the \<^verbatim>\<open>Arc\<close> around each record: the registry
    as threads share it, where a record outlives its removal while a thread holds it.
  \<^item> \<^theory_text>\<open>Ffi\<close>: \<^verbatim>\<open>km_common/src/lib.rs\<close>, the static registry of a core behind its \<^verbatim>\<open>LazyLock\<close>, and the caller's memory.
    \<^theory_text>\<open>Entry_Points\<close>: the contracts of the exported functions (locales \<open>ffi_body\<close>, \<open>ffi_entry\<close>,
    \<open>ffi_entry_i32\<close>), interpreted for every one of them.
  \<^item> \<^theory_text>\<open>Kps_Core\<close>, \<^theory_text>\<open>Ws_Core\<close>: \<^verbatim>\<open>key_protection_service/key_custody_core/src/lib.rs\<close> and
    \<^verbatim>\<open>workload_service/key_custody_core/src/lib.rs\<close>, one definition for each function, with the closure
    passed to \<^verbatim>\<open>ffi_call\<close> as a definition of its own (\<open>_body\<close>).
  \<^item> \<^theory_text>\<open>Service_States\<close>, \<^theory_text>\<open>Key_Lifetime\<close>: each core as a transition system of calls, reaper wake-ups and
    writes of the caller, with the invariants of its reachable states (\<^theory_text>\<open>Transition_Systems\<close>, locale \<open>invariant_system\<close>).
    \<^theory_text>\<open>Key_History\<close>: what whole histories do to the handles of a core (locale \<open>custody_history\<close>).
    \<^theory_text>\<open>Interleaving\<close>: the calls that use a private key, with other threads running before and after their lookup.
    \<^theory_text>\<open>No_Panic\<close>: the triple \<open>quiet\<close> for computations that do not panic, and that every call answers.
    \<^theory_text>\<open>Confidentiality\<close>: the two-run triple \<open>low\<close> and non-interference of sessions (locale \<open>indistinguishable\<close>).
  \<^item> \<^theory_text>\<open>Fuzz_Targets\<close>: \<^verbatim>\<open>fuzz_open.rs\<close> and \<^verbatim>\<open>fuzz_decap_seal.rs\<close>, and what a fuzzing campaign can find.
  \<^item> \<^theory_text>\<open>Kps_Tests\<close>, \<^theory_text>\<open>Ws_Tests\<close>: the test modules of the two cores, one definition for each test, over
    \<^theory_text>\<open>Test_Harness\<close>, which has assertions, local arrays, the guard \<^verbatim>\<open>KeyCleanup\<close> and the weakest precondition \<open>ends\<close>
    with a rule for every call. \<^theory_text>\<open>Registry_Tests\<close>, \<^theory_text>\<open>Library_Tests\<close>: the tests of \<^verbatim>\<open>km_common\<close>, each with a registry of its
    own. \<^theory_text>\<open>Test_Properties\<close>: the tests pass, those of a core in any order. Tests run one at a time.
  \<^item> \<^theory_text>\<open>Cgo\<close>: \<^verbatim>\<open>km_common/proto/status.go\<close> and the cgo wrappers \<^verbatim>\<open>ws_key_custody_core_cgo.go\<close> and
    \<^verbatim>\<open>kps_key_custody_core_cgo.go\<close>, through which Go calls the exported functions; Go libraries are the parameter \<open>go_env\<close>. What a
    computation of a server does to its state is a chain of steps (locale \<open>stepwise\<close>, interpreted for the two cores and for the whole
    server). \<^theory_text>\<open>Cgo_Calls\<close>: what each wrapper answers.
  \<^item> \<^theory_text>\<open>Kps_Server\<close>: \<^verbatim>\<open>service.go\<close>, \<^verbatim>\<open>grpc_server.go\<close> and the claims of \<^verbatim>\<open>server.go\<close> in \<^verbatim>\<open>key_protection_service\<close>. \<^theory_text>\<open>Ws_Server\<close>:
    \<^verbatim>\<open>workload_service/server.go\<close> and \<^verbatim>\<open>proto_enums.go\<close>, with the HTTP handlers, the client of a remote key protection service and
    the heartbeat; its state \<open>wsd\<close> is the struct \<^verbatim>\<open>Server\<close> together with both cores.
  \<^item> \<^theory_text>\<open>Remote_Calls\<close>: a call over gRPC in terms of the call in the process. \<^theory_text>\<open>Wsd_System\<close>, \<^theory_text>\<open>Ws_Handlers\<close>: the moves of the server, the
    agreement of paired keys, and what every handler keeps of it. \<^theory_text>\<open>Heartbeat\<close>, \<^theory_text>\<open>Delivery\<close>: what a heartbeat, a decapsulation and a
    destruction do. \<^theory_text>\<open>Server_States\<close>, \<^theory_text>\<open>Server_Properties\<close>: the server as a transition system, and its theorems.
  \<^item> \<^theory_text>\<open>Reference_Env\<close>: a concrete environment that satisfies every hypothesis, and a concrete caller, for the
    witnesses. It is a consistency check and no model of the real libraries.

  \<^bold>\<open>How state and control flow are rendered.\<close> A function that returns \<^verbatim>\<open>Result<T, Status>\<close> is a function from
  a state to an \<open>outcome\<close> and a state, and \<open>bindM\<close> is \<^verbatim>\<open>?\<close>. A panic keeps the state it happened in and runs the
  destructors of what is live (\<open>unwindM\<close>). The state of a core is a \<open>world\<close>: the machine, \<^verbatim>\<open>KEY_REGISTRY\<close>, the
  telemetry statics, the events handed to \<^verbatim>\<open>tracing\<close>, and the caller's memory, a map from pointers to
  objects. A slice made from a pointer that does not denote such an object is undefined behaviour, so memory
  safety is a theorem under the safety sections (\<open>kps_safe\<close>, \<open>ws_safe\<close>, \<open>enumerate_safe\<close>). Lengths, offsets and
  counts are 64-bit words and return codes 32-bit words. A \<^verbatim>\<open>HashMap\<close> is a list of pairs with distinct keys
  whose order is unspecified; that the order does not show is a theorem about listing.

  \<^bold>\<open>What is shown.\<close> Delivery of the client's secret, end to end, between the cores (below) and over HTTP, from the request that
  generates a key to the response that carries the secret. For the servers: the two keys that the map of the workload service pairs belong
  together in every reachable state; a decapsulation is answered exactly when it should be; every request is answered; a remote key protection service
  answers like one in the process; a heartbeat ends, and silence purges; the claims of a pair agree; a binding key can be orphaned, a KEM
  key can outlive its destruction, and one malformed message stops the key protection service. For each exported function of
  both cores: what it did when it returned success, when it returns success, and what it leaves alone when
  it fails; no undefined behaviour; no panic on a host that grants threads; the statuses it can return; what it
  logs; that replies, memory and log do not depend on private keys that are not used. For the registry, shared by
  threads: every interleaving refines a map, each secret is erased exactly once, a held key stays, nothing that is gone
  is touched; exact reaping, paging; calls that use a key are linearizable. For the library: decapsulation is that of RFC 9180, the two round trips,
  protected memory gives back what it was given and is zeroed, and the order of checks in key creation.
  For each core: the invariant of all reachable states, that a live key is lost only by request, and that a handle
  names one key for ever. For the unit tests: they pass, but for one that is undefined behaviour.

  \<^bold>\<open>Bounds.\<close> There is no fuel: the loop of the heartbeat is a partial function that is shown to return, and the other loops are over the entries of a page, over the wake-ups of the
  reaper (a list of readings of the stop signal) and over UTF-8 bytes, and all are structural or have a
  measure. The theorems on enumeration assume fewer than \<open>2 ^ 31\<close> live keys, where the count still fits the
  \<^verbatim>\<open>i32\<close> that is returned, and those on listing over HTTP that the number of live keys is a \<^verbatim>\<open>usize\<close> (\<open>addressable\<close>). That random handles
  do not collide is a hypothesis where it is needed (\<open>distinct_handles\<close> for the server). Instants are nanoseconds without an upper bound, with \<^verbatim>\<open>checked_add\<close> failing
  where the seconds leave \<^verbatim>\<open>i64\<close>.

  \<^bold>\<open>What is not modelled.\<close> In the Go servers: sockets, serving and shutting down, the ticker that starts heartbeats, JSON (the parameter
  \<open>http_env\<close>) and the text of messages. The agent, the attestation service and the flags of the processes (\<^verbatim>\<open>cmd\<close>, \<^verbatim>\<open>keymanager\<close>), which are input
  and output around the two servers; build scripts; the Go tests, the integration tests and the unit tests that are listed in \<^theory_text>\<open>Library_Tests\<close>;
  generated Go code; the internals of BoringSSL, \<^verbatim>\<open>prost\<close>, \<^verbatim>\<open>tracing\<close>, \<^verbatim>\<open>uuid\<close>, \<^verbatim>\<open>zeroize\<close>, the Go libraries and the kernel. In the theories
  of the cores and of the servers a call or a handler is one step, and a removed record is dropped by the call that removed it. That a record can live on in
  another thread is in \<^theory_text>\<open>Arc_Registry\<close>, for the registry alone, and in \<^theory_text>\<open>Interleaving\<close>, for what the call that holds it answers; two
  handlers of a server that interleave are not modelled. Timing, caches and the contents of freed ordinary memory are outside the model, so
  non-interference is about what the interface returns.
\<close>

section \<open>Delivery\<close>

text \<open>
  C1. End to end. A KEM key of the key protection core is bound to a binding key of the workload core, and
  both are live. A client encapsulates a secret to the KEM public key. Then
  \<^verbatim>\<open>key_manager_decap_and_seal\<close> on the encapsulated key succeeds, and \<^verbatim>\<open>key_manager_open\<close> on the
  bytes it wrote, with the same additional data, succeeds and writes exactly the client's secret.
\<close>

theorem secret_reaches_workload:
  fixes kw :: "'e world" and ww :: "'f world"
  assumes "hpke_spec E" and "x25519_spec E" and "hkdf_spec E"
    and "core_inv (kps_record E) kw" and "usable E kw" and "core_inv (ws_record E) ww" and "usable E ww"
    and "contents kw (Uuid (buf kem_uuid 16 kw)) = Some kem_rec" and "clock kw (ticks kw) < delete_after (meta kem_rec)"
    and "contents ww (Uuid (buf binding_uuid 16 ww)) = Some binding_rec"
    and "clock ww (ticks ww) < delete_after (meta binding_rec)"
    and "spec (meta kem_rec) = KemWithBindingPub algo kem_pk binding_pk"
    and "spec (meta binding_rec) = Binding algo binding_pk"
    and "encap E kem_pk m = (Ok (secret, buf enc_key 32 kw), m')"
    and "decap_present kem_uuid enc_key 32 out_enc 32 out_ct 48"
    and "decap_safe kem_uuid enc_key 32 aad aad_len out_enc 32 out_ct 48 kw"
    and "key_manager_decap_and_seal E kem_uuid enc_key 32 aad aad_len out_enc 32 out_ct 48 kw = (r, kw')"
    and "open_present binding_uuid enc ct out 32"
    and "open_safe binding_uuid enc 32 ct 48 aad' aad_len' out 32 ww"
    and "buf enc 32 ww = buf out_enc 32 kw'" and "buf ct 48 ww = buf out_ct 48 kw'"
    and "aad_buf aad' aad_len' ww = aad_buf aad aad_len kw"
  shows "r = Returns Success
     \<and> (\<exists>ww'. key_manager_open E binding_uuid enc 32 ct 48 aad' aad_len' out 32 ww = (Returns Success, ww')
          \<and> buf out 32 ww' = as_slice secret)"
proof -
  have "record_ok E binding_rec"
    using core_inv_contents [OF assms(6,10)] by (simp add: ws_record_def)
  then obtain n where kp: "key_pair E n = (binding_pk, get_private_key binding_rec)"
    using assms(13) by (auto simp: record_ok_def own_public_key_def)
  have sp: "spec (meta kem_rec) = KemWithBindingPub algo kem_pk (fst (key_pair E n))"
    using assms(12) kp by simp
  obtain v u where r: "r = Returns Success" and len: "length (as_slice secret) = 32"
    and supp: "suite_supported E algo"
    and seal: "hpke_seal E binding_pk secret (aad_buf aad aad_len kw) algo (v :: 'e world)
      = (Ok (buf out_enc 32 kw', buf out_ct 48 kw'), u)"
    by (rule decap_seals_secret [OF assms(1-5,15,16,8,9) sp assms(14)]) (use assms(17) kp in auto)
  have "hpke_open E (get_private_key binding_rec) (buf enc 32 ww) (buf ct 48 ww)
      (aad_buf aad' aad_len' ww) (spec_algo (spec (meta binding_rec))) x = (Ok secret, x)" for x :: "'f world"
    using open_seal_pair [OF assms(1) supp kp seal, of x] assms(13,20-22) by simp
  from open_recovers [OF assms(6,7,18,19,10,11) this len] r show ?thesis by blast
qed

theorem secret_reaches_workload_witness:
  "\<exists>secret enc_key m' kw kw' (ww :: WsKeyInfo world) ww'.
     encap ref_env (ref_public 5) (machine_init ref_clock) = (Ok (secret, enc_key), m')
   \<and> key_manager_decap_and_seal ref_env 2 4 32 0 0 3 32 5 48 (kw :: KpsKeyInfo world) = (Returns Success, kw')
   \<and> buf 4 32 kw = enc_key \<and> buf 4 32 ww = buf 3 32 kw' \<and> buf 5 48 ww = buf 5 48 kw'
   \<and> key_manager_open ref_env 2 4 32 5 48 0 0 3 32 ww = (Returns Success, ww')
   \<and> buf 3 32 ww' = as_slice secret"
proof -
  obtain ss enc m' where encap: "encap ref_env (ref_public 5) (machine_init ref_clock) = (Ok (ss, enc), m')"
    and len: "length enc = 32"
    using ref_client by blast
  let ?kw = "(ref_stored ref_bound_spec ([] :: KpsKeyInfo list))\<lparr>mem := (ref_mem [])(4 \<mapsto> Bytes enc)\<rparr>"
  have kbuf: "buf 4 32 ?kw = enc" "Uuid (buf 2 16 ?kw) = ref_handle"
    using len by (simp_all add: buf_def ref_mem_def ref_handle_def)
  have args: "decap_present 2 4 32 3 32 5 48" "decap_safe 2 4 32 0 0 3 32 5 48 ?kw"
    using len by (simp_all add: decap_present_def decap_safe_def is_null_def valid_buf_def ref_mem_def)
  note k = ref_stored_mem [OF ref_bound_stored_inv [of "[] :: KpsKeyInfo list"], of "(ref_mem [])(4 \<mapsto> Bytes enc)"]
  have pk: "spec (meta (ref_record ref_bound_spec)) = KemWithBindingPub ref_suite (ref_public 5) (fst (key_pair ref_env 5))"
    by (simp add: ref_key_pair)
  obtain kw' v u where call: "key_manager_decap_and_seal ref_env 2 4 32 0 0 3 32 5 48 ?kw = (Returns Success, kw')"
    and seal: "hpke_seal ref_env (ref_public 5) ss (aad_buf 0 0 ?kw) ref_suite (v :: KpsKeyInfo world)
       = (Ok (buf 3 32 kw', buf 5 48 kw'), u)" and ss: "length (as_slice ss) = 32"
    by (rule decap_seals_secret [OF ref_hpke_spec ref_x25519_spec ref_hkdf_spec k(1,2) args _ _ pk])
      (use k(3,4) kbuf encap in \<open>auto simp: ref_key_pair\<close>)
  have outs: "length (buf 3 32 kw') = 32" "length (buf 5 48 kw') = 48"
    using open_seal_pair [OF ref_hpke_spec ref_suite_supported ref_key_pair seal, of v] ss by simp_all
  let ?M = "(ref_mem [])(4 \<mapsto> Bytes (buf 3 32 kw'), 5 \<mapsto> Bytes (buf 5 48 kw'))"
  let ?ww = "(ref_stored ref_binding_spec ([] :: WsKeyInfo list))\<lparr>mem := ?M\<rparr>"
  note b = ref_stored_mem [OF ref_binding_stored_inv [of "[] :: WsKeyInfo list"], of ?M]
  have bufs: "buf 4 32 ?ww = buf 3 32 kw'" "buf 5 48 ?ww = buf 5 48 kw'" "Uuid (buf 2 16 ?ww) = ref_handle"
    "aad_buf 0 0 ?ww = aad_buf 0 0 ?kw"
    using outs by (simp_all add: buf_whole ref_mem_def ref_handle_def aad_buf_def is_null_def)
  have safe: "open_present 2 4 5 3 32" "open_safe 2 4 32 5 48 0 0 3 32 ?ww"
    using outs by (simp_all add: open_present_def open_safe_def is_null_def valid_buf_def ref_mem_def)
  obtain ww' where "key_manager_open ref_env 2 4 32 5 48 0 0 3 32 ?ww = (Returns Success, ww')"
    and "buf 3 32 ww' = as_slice ss"
    using secret_reaches_workload [OF ref_hpke_spec ref_x25519_spec ref_hkdf_spec k(1,2) b(1,2), of 2
        "ref_record ref_bound_spec" 2 "ref_record ref_binding_spec" ref_suite "ref_public 5" "ref_public 5"
        "machine_init ref_clock" ss 4 m' 3 5 0 0 "Returns Success" kw' 4 5 3 0 0]
      k(3,4) b(3,4) kbuf bufs args safe encap call by (simp, blast)
  with encap call kbuf(1) bufs(1,2) show ?thesis by blast
qed

end
